(* ===== verification/Prelude.thy ===== *)
theory Prelude
  imports Main "HOL-Library.Word"
begin

unbundle bit_operations_syntax

text \<open>
  Shared vocabulary of the development: the machine integers of the C code, byte order
  conversions (\<open>htons\<close>, \<open>htonl\<close> and the raw stores of \<open>uint32_t\<close> values in the cluster
  packets, on a little-endian host), C truth values, and generic lemmas on lists and folds
  that several components use.
\<close>

subsection \<open>Machine integers\<close>

type_synonym u8 = "8 word"
type_synonym u16 = "16 word"
type_synonym u32 = "32 word"
type_synonym u64 = "64 word"
type_synonym bytes = "8 word list"

text \<open>
  Identifiers of sessions, tunnels and bundles are \<open>uint16_t\<close> in the source and index
  global arrays. They are natural numbers here; a conversion from a wider C integer is
  written out with \<open>id16\<close>.
\<close>

type_synonym sessionidt = nat
type_synonym tunnelidt = nat
type_synonym bundleidt = nat

definition id16 :: "int \<Rightarrow> nat" where
  "id16 i = nat (i mod 65536)"

named_theorems byte_simps \<open>evaluation and inversion of byte encodings\<close>
named_theorems frame_simps \<open>fields an operation leaves unchanged\<close>

lemma id16_less: "id16 i < 65536"
  by (simp add: id16_def nat_less_iff)

lemma id16_nat [simp]: "n < 65536 \<Longrightarrow> id16 (int n) = n"
  by (simp add: id16_def)

subsection \<open>Outcomes\<close>

text \<open>
  What a C function can do besides returning: read or write outside an object (\<open>Undef\<close>: from
  there on the C standard promises nothing) or end the process (\<open>Exits\<close>).
\<close>

datatype 'a outcome = Ret 'a | Undef | Exits

fun obind :: "'a outcome \<Rightarrow> ('a \<Rightarrow> 'b outcome) \<Rightarrow> 'b outcome" where
  "obind (Ret a) f = f a"
| "obind Undef f = Undef"
| "obind Exits f = Exits"

lemma obind_Ret_iff: "obind m f = Ret b \<longleftrightarrow> (\<exists>a. m = Ret a \<and> f a = Ret b)"
  by (cases m) auto

subsection \<open>Byte order\<close>

definition be16 :: "u16 \<Rightarrow> bytes" where
  "be16 x = [ucast (drop_bit 8 x), ucast x]"

definition be32 :: "u32 \<Rightarrow> bytes" where
  "be32 x = [ucast (drop_bit 24 x), ucast (drop_bit 16 x), ucast (drop_bit 8 x), ucast x]"

definition le32 :: "u32 \<Rightarrow> bytes" where
  "le32 x = [ucast x, ucast (drop_bit 8 x), ucast (drop_bit 16 x), ucast (drop_bit 24 x)]"

definition le64 :: "u64 \<Rightarrow> bytes" where
  "le64 x = le32 (ucast x) @ le32 (ucast (drop_bit 32 x))"

fun of_be16 :: "bytes \<Rightarrow> u16" where
  "of_be16 (a # b # _) = push_bit 8 (ucast a) OR ucast b"
| "of_be16 _ = 0"

fun of_be32 :: "bytes \<Rightarrow> u32" where
  "of_be32 (a # b # c # d # _) =
     push_bit 24 (ucast a) OR push_bit 16 (ucast b) OR push_bit 8 (ucast c) OR ucast d"
| "of_be32 _ = 0"

fun of_le32 :: "bytes \<Rightarrow> u32" where
  "of_le32 (a # b # c # d # _) =
     ucast a OR push_bit 8 (ucast b) OR push_bit 16 (ucast c) OR push_bit 24 (ucast d)"
| "of_le32 _ = 0"

definition of_le64 :: "bytes \<Rightarrow> u64" where
  "of_le64 bs = ucast (of_le32 bs) OR push_bit 32 (ucast (of_le32 (drop 4 bs)))"

lemma length_be16 [simp]: "length (be16 x) = 2"
  by (simp add: be16_def)

lemma length_be32 [simp]: "length (be32 x) = 4"
  by (simp add: be32_def)

lemma length_le32 [simp]: "length (le32 x) = 4"
  by (simp add: le32_def)

lemma length_le64 [simp]: "length (le64 x) = 8"
  by (simp add: le64_def)

lemma of_be16_be16 [simp, byte_simps]: "of_be16 (be16 x @ r) = x"
  by (auto simp: be16_def bit_simps intro!: bit_word_eqI)

lemma of_be32_be32 [simp, byte_simps]: "of_be32 (be32 x @ r) = x"
proof (rule bit_word_eqI)
  fix n assume "n < LENGTH(32)"
  then consider "n < 8" | "8 \<le> n \<and> n < 16" | "16 \<le> n \<and> n < 24" | "24 \<le> n \<and> n < 32"
    by fastforce
  then show "bit (of_be32 (be32 x @ r)) n = bit x n"
    by cases (auto simp: be32_def bit_simps)
qed

lemma of_le32_le32 [simp, byte_simps]: "of_le32 (le32 x @ r) = x"
proof (rule bit_word_eqI)
  fix n assume "n < LENGTH(32)"
  then consider "n < 8" | "8 \<le> n \<and> n < 16" | "16 \<le> n \<and> n < 24" | "24 \<le> n \<and> n < 32"
    by fastforce
  then show "bit (of_le32 (le32 x @ r)) n = bit x n"
    by cases (auto simp: le32_def bit_simps)
qed

lemma of_le64_le64 [simp, byte_simps]: "of_le64 (le64 x @ r) = x"
  by (auto simp: of_le64_def le64_def bit_simps intro!: bit_word_eqI)

end
