(* ===== verification/State.thy ===== *)
theory State
  imports Prelude
begin

text \<open>
  The data of the daemon: the structures of \<^verbatim>\<open>src/l2tpns.h\<close>, \<^verbatim>\<open>src/tbf.h\<close> and \<^verbatim>\<open>src/bgp.h\<close> and
  the global variables of the modules, collected in the record \<open>l2tpns\<close> that every stateful
  operation takes and returns. A C array is a total function from its index; a \<open>memset\<close> to
  zero is the \<open>_zero\<close> constant of the type. Calls that leave the modelled program (packets
  sent, kernel routes, plugins) append an \<open>event\<close> to \<open>g_out\<close>. \<open>STAT\<close> counters and log output
  are not part of the state.
\<close>

subsection \<open>Limits\<close>

definition MAXTUNNEL :: nat where "MAXTUNNEL = 65535"
definition MAXBUNDLE :: nat where "MAXBUNDLE = 60000"
definition MAXSESSION :: nat where "MAXSESSION = 60000"
definition MAXBUNDLESES :: nat where "MAXBUNDLESES = 12"
definition TUNNEL_ID_PPPOE :: tunnelidt where "TUNNEL_ID_PPPOE = 1"
definition MAXRADIUS :: nat where "MAXRADIUS = 16384"
definition T_UNDEF :: tunnelidt where "T_UNDEF = 0xffff"
definition T_FREE :: tunnelidt where "T_FREE = 0"
definition MAXROUTE :: nat where "MAXROUTE = 10"
definition MAXROUTE6 :: nat where "MAXROUTE6 = 5"
definition MAXIPPOOL :: nat where "MAXIPPOOL = 131072"
definition MAXFILTER :: nat where "MAXFILTER = 32"
definition HB_MAX_SEQ :: int where "HB_MAX_SEQ = 1073741824"
definition HB_HISTORY_SIZE :: int where "HB_HISTORY_SIZE = 64"
definition CLUSTER_MAX_SIZE :: nat where "CLUSTER_MAX_SIZE = 32"
definition BGP_NUM_PEERS :: nat where "BGP_NUM_PEERS = 2"
definition TBF_MAX_QUEUE :: nat where "TBF_MAX_QUEUE = 2"
definition TBF_MAX_SIZE :: nat where "TBF_MAX_SIZE = 3000"

subsection \<open>Sessions\<close>

datatype ppp_phase = Dead | Establish | Authenticate | Network | Terminate

datatype ppp_state =
  Initial | Starting | Closed | Stopped | Closing | Stopping | RequestSent | AckReceived
| AckSent | Opened

record pppt =
  phase :: ppp_phase
  lcp :: ppp_state
  ipcp :: ppp_state
  ipv6cp :: ppp_state
  ccp :: ppp_state

definition ppp_zero :: pppt where
  "ppp_zero = \<lparr>phase = Dead, lcp = Initial, ipcp = Initial, ipv6cp = Initial, ccp = Initial\<rparr>"

type_synonym in_addr = u32
type_synonym in6_addr = "128 word"

definition s6_addr :: "in6_addr \<Rightarrow> nat \<Rightarrow> u8" where
  "s6_addr a i = ucast (drop_bit (120 - 8 * i) a)"

record routet =
  rt_ip :: in_addr
  rt_prefixlen :: int

definition route_zero :: routet where
  "route_zero = \<lparr>rt_ip = 0, rt_prefixlen = 0\<rparr>"

record routet6 =
  r6_ip :: in6_addr
  r6_prefixlen :: u8

definition route6_zero :: routet6 where
  "route6_zero = \<lparr>r6_ip = 0, r6_prefixlen = 0\<rparr>"

record epdist =
  ep_length :: u8
  ep_class :: u8
  ep_address :: "nat \<Rightarrow> u8"

definition epdis_zero :: epdist where
  "epdis_zero = \<lparr>ep_length = 0, ep_class = 0, ep_address = (\<lambda>_. 0)\<rparr>"

text \<open>
  \<open>sessiont\<close>. \<open>char\<close> arrays are the strings they hold. Left out are the DHCPv6
  fields, the unused ones (\<open>last_dump\<close>, the single IPv6 route) and the reserved padding,
  which no modelled operation reads or writes.
\<close>

record sessiont =
  s_next :: sessionidt
  s_far :: sessionidt
  s_tunnel :: tunnelidt
  s_flags :: u8
  s_ppp :: pppt
  s_mru :: u16
  s_ip :: in_addr
  s_ip_pool_index :: int
  s_unique_id :: u32
  s_magic :: u32
  s_pin :: u32
  s_pout :: u32
  s_cin :: u32
  s_cout :: u32
  s_cin_wrap :: u32
  s_cout_wrap :: u32
  s_cin_delta :: u32
  s_cout_delta :: u32
  s_fcin :: u32
  s_fcout :: u32
  s_fcin_delta :: u32
  s_fcout_delta :: u32
  s_fcin_wrap :: u32
  s_fcout_wrap :: u32
  s_free_traffic :: string
  s_throttle_in :: u16
  s_throttle_out :: u16
  s_filter_in :: nat
  s_filter_out :: nat
  s_snoop_port :: u16
  s_snoop_ip :: in_addr
  s_opened :: u32
  s_die :: u32
  s_session_timeout :: u32
  s_idle_timeout :: u32
  s_last_packet :: int
  s_last_data :: int
  s_dns1 :: in_addr
  s_dns2 :: in_addr
  s_route :: "nat \<Rightarrow> routet"
  s_tbf_in :: nat
  s_tbf_out :: nat
  s_random_vector :: bytes
  s_user :: string
  s_called :: string
  s_calling :: string
  s_tx_connect_speed :: u32
  s_rx_connect_speed :: u32
  s_timeout :: u32
  s_mrru :: u32
  s_epdis :: epdist
  s_bundle :: bundleidt
  s_mssf :: u8
  s_walled_garden :: u8
  s_class :: bytes
  s_forwardtosession :: sessionidt
  s_src_hwaddr :: bytes
  s_ipv6address :: in6_addr
  s_route6 :: "nat \<Rightarrow> routet6"
  s_walled_garden_name :: string
  s_pool_id :: string

definition session_zero :: sessiont where
  "session_zero = \<lparr>
     s_next = 0, s_far = 0, s_tunnel = 0, s_flags = 0, s_ppp = ppp_zero, s_mru = 0, s_ip = 0,
     s_ip_pool_index = 0, s_unique_id = 0, s_magic = 0, s_pin = 0, s_pout = 0, s_cin = 0,
     s_cout = 0, s_cin_wrap = 0, s_cout_wrap = 0, s_cin_delta = 0, s_cout_delta = 0,
     s_fcin = 0, s_fcout = 0, s_fcin_delta = 0, s_fcout_delta = 0, s_fcin_wrap = 0,
     s_fcout_wrap = 0, s_free_traffic = [], s_throttle_in = 0, s_throttle_out = 0,
     s_filter_in = 0, s_filter_out = 0, s_snoop_port = 0, s_snoop_ip = 0, s_opened = 0, s_die = 0, s_session_timeout = 0,
     s_idle_timeout = 0, s_last_packet = 0, s_last_data = 0, s_dns1 = 0, s_dns2 = 0,
     s_route = (\<lambda>_. route_zero), s_tbf_in = 0, s_tbf_out = 0, s_random_vector = [],
     s_user = [], s_called = [], s_calling = [], s_tx_connect_speed = 0, s_rx_connect_speed = 0, s_timeout = 0, s_mrru = 0,
     s_epdis = epdis_zero, s_bundle = 0, s_mssf = 0, s_walled_garden = 0, s_class = [],
     s_forwardtosession = 0, s_src_hwaddr = replicate 6 0, s_ipv6address = 0, s_route6 = (\<lambda>_. route6_zero),
     s_walled_garden_name = [], s_pool_id = []\<rparr>"

text \<open>The per-node part of a session: \<open>sessionlocalt\<close>, with the restart counters of its automata.\<close>

record fsmt =
  f_restart :: int
  f_conf_sent :: int
  f_nak_sent :: int

definition fsm_zero :: fsmt where
  "fsm_zero = \<lparr>f_restart = 0, f_conf_sent = 0, f_nak_sent = 0\<rparr>"

record sessionlocalt =
  l_pin :: u32
  l_pout :: u32
  l_cin :: u32
  l_cout :: u32
  l_fcin :: u32
  l_fcout :: u32
  l_lcp :: fsmt
  l_ipcp :: fsmt
  l_ipv6cp :: fsmt
  l_ccp :: fsmt
  l_lcp_ident :: u8
  l_lcp_authtype :: int
  l_ppp_mru :: u16
  l_mp_mrru :: u16
  l_mp_mssf :: u16
  l_mp_epdis :: in_addr
  l_last_packet_out :: u32
  l_packets_out :: u32
  l_packets_dropped :: u32
  l_radius :: nat
  l_last_interim :: int
  l_last_echo :: int
  l_last_seq :: u32
  l_jitteravg :: u32
  l_prev_time :: u64

definition local_zero :: sessionlocalt where
  "local_zero = \<lparr>l_pin = 0, l_pout = 0, l_cin = 0, l_cout = 0, l_fcin = 0, l_fcout = 0,
     l_lcp = fsm_zero, l_ipcp = fsm_zero, l_ipv6cp = fsm_zero, l_ccp = fsm_zero,
     l_lcp_ident = 0, l_lcp_authtype = 0, l_ppp_mru = 0, l_mp_mrru = 0, l_mp_mssf = 0,
     l_mp_epdis = 0, l_last_packet_out = 0, l_packets_out = 0, l_packets_dropped = 0, l_radius = 0, l_last_interim = 0, l_last_echo = 0,
     l_last_seq = 0, l_jitteravg = 0, l_prev_time = 0\<rparr>"

end
