(* ===== verification/IpFilter.thy ===== *)
theory IpFilter
  imports State
begin

text \<open>
  Packet filters (\<open>ip_filter\<close>, \<open>ip_filter_port\<close>, \<open>ip_filter_flag\<close> and \<open>find_filter\<close> of
  \<^verbatim>\<open>src/l2tpns.c\<close>): the rules of an access list and the decision on a packet, shown to be the
  decision of the first rule whose set of packets holds the packet.
\<close>

subsection \<open>Rules and filters\<close>

datatype port_op = PORT_NONE | PORT_EQ | PORT_NEQ | PORT_GT | PORT_LT | PORT_RANGE

record ip_filter_portt =
  po_op :: port_op
  po_port :: u16
  po_port2 :: u16

datatype filter_action = ACTION_NONE | DENY | PERMIT

datatype flag_op = FLAG_NONE | FLAG_ANY | FLAG_ALL | FLAG_EST

record ip_filter_rulet =
  ru_action :: filter_action
  ru_proto :: u8
  ru_src_ip :: in_addr
  ru_src_wild :: in_addr
  ru_src_ports :: ip_filter_portt
  ru_dst_ip :: in_addr
  ru_dst_wild :: in_addr
  ru_dst_ports :: ip_filter_portt
  ru_frag :: bool
  ru_flag_op :: flag_op
  ru_sflags :: u8
  ru_cflags :: u8
  ru_counter :: u32

record ip_filtert =
  fi_name :: string
  fi_extended :: bool
  fi_rules :: "nat \<Rightarrow> ip_filter_rulet"
  fi_used :: int

definition MAXFILTER_RULES :: nat where "MAXFILTER_RULES = 32"

definition ports_zero :: ip_filter_portt where
  "ports_zero = \<lparr>po_op = PORT_NONE, po_port = 0, po_port2 = 0\<rparr>"

definition rule_zero :: ip_filter_rulet where
  "rule_zero = \<lparr>ru_action = ACTION_NONE, ru_proto = 0, ru_src_ip = 0, ru_src_wild = 0,
     ru_src_ports = ports_zero, ru_dst_ip = 0, ru_dst_wild = 0, ru_dst_ports = ports_zero,
     ru_frag = False, ru_flag_op = FLAG_NONE, ru_sflags = 0, ru_cflags = 0, ru_counter = 0\<rparr>"

definition filter_zero :: ip_filtert where
  "filter_zero = \<lparr>fi_name = [], fi_extended = False, fi_rules = (\<lambda>_. rule_zero), fi_used = 0\<rparr>"

definition IPPROTO_IP :: u8 where "IPPROTO_IP = 0"
definition IPPROTO_TCP :: u8 where "IPPROTO_TCP = 6"
definition IPPROTO_UDP :: u8 where "IPPROTO_UDP = 17"
definition INADDR_BROADCAST :: in_addr where "INADDR_BROADCAST = 0xffffffff"
definition TCP_FLAG_FIN :: u8 where "TCP_FLAG_FIN = 0x01"
definition TCP_FLAG_SYN :: u8 where "TCP_FLAG_SYN = 0x02"
definition TCP_FLAG_RST :: u8 where "TCP_FLAG_RST = 0x04"
definition TCP_FLAG_PSH :: u8 where "TCP_FLAG_PSH = 0x08"
definition TCP_FLAG_ACK :: u8 where "TCP_FLAG_ACK = 0x10"
definition TCP_FLAG_URG :: u8 where "TCP_FLAG_URG = 0x20"

subsection \<open>Finding a filter by name\<close>

text \<open>The index of the filter with that name, else of the first free one, else \<open>-1\<close>.\<close>

fun find_filter_loop :: "(nat \<Rightarrow> ip_filtert) \<Rightarrow> string \<Rightarrow> int \<Rightarrow> nat list \<Rightarrow> int" where
  "find_filter_loop fs name free [] = free"
| "find_filter_loop fs name free (i # is) =
     (if fi_name (fs i) = [] then find_filter_loop fs name (if free < 0 then int i else free) is
      else if fi_name (fs i) = name then int i
      else find_filter_loop fs name free is)"

definition find_filter :: "(nat \<Rightarrow> ip_filtert) \<Rightarrow> string \<Rightarrow> int" where
  "find_filter fs name = find_filter_loop fs name (-1) [0..<MAXFILTER]"

subsection \<open>The decision\<close>

definition ip_filter_port :: "ip_filter_portt \<Rightarrow> u16 \<Rightarrow> bool" where
  "ip_filter_port p port =
     (case po_op p of
        PORT_EQ \<Rightarrow> port = po_port p
      | PORT_NEQ \<Rightarrow> port \<noteq> po_port p
      | PORT_GT \<Rightarrow> port > po_port p
      | PORT_LT \<Rightarrow> port < po_port p
      | PORT_RANGE \<Rightarrow> port \<ge> po_port p \<and> port \<le> po_port2 p
      | PORT_NONE \<Rightarrow> False)"

definition ip_filter_flag :: "flag_op \<Rightarrow> u8 \<Rightarrow> u8 \<Rightarrow> u8 \<Rightarrow> bool" where
  "ip_filter_flag op sflags cflags flags =
     (case op of
        FLAG_ANY \<Rightarrow> flags AND sflags \<noteq> 0 \<or> NOT flags AND cflags \<noteq> 0
      | FLAG_ALL \<Rightarrow> flags AND sflags = sflags \<and> NOT flags AND cflags = cflags
      | FLAG_EST \<Rightarrow> flags AND (TCP_FLAG_ACK OR TCP_FLAG_RST) \<noteq> 0 \<and> NOT flags AND TCP_FLAG_SYN \<noteq> 0
      | FLAG_NONE \<Rightarrow> False)"

text \<open>What \<open>ip_filter\<close> reads from the packet before it looks at the rules.\<close>

record flow =
  fl_frag_offset :: u16
  fl_proto :: u8
  fl_src_ip :: in_addr
  fl_dst_ip :: in_addr
  fl_src_port :: u16
  fl_dst_port :: u16
  fl_flags :: u8

definition is_l4 :: "u8 \<Rightarrow> bool" where
  "is_l4 proto \<longleftrightarrow> proto = IPPROTO_TCP \<or> proto = IPPROTO_UDP"

definition ip_flow :: "bytes \<Rightarrow> flow option" where
  "ip_flow buf =
     (if length buf < 20 then None
      else if drop_bit 4 (buf ! 0) \<noteq> 4 then None
      else
        let fl = \<lparr>fl_frag_offset = of_be16 (drop 6 buf) AND 0x1fff, fl_proto = buf ! 9,
                  fl_src_ip = of_be32 (drop 12 buf), fl_dst_ip = of_be32 (drop 16 buf),
                  fl_src_port = 0, fl_dst_port = 0, fl_flags = 0\<rparr>
        in if fl_frag_offset fl = 0 \<and> is_l4 (fl_proto fl)
           then
             let l = unat (buf ! 0 AND 0xf) * 4
             in if length buf < l + 4 then None
                else
                  let fl = fl\<lparr>fl_src_port := of_be16 (drop l buf),
                              fl_dst_port := of_be16 (drop (l + 2) buf)\<rparr>
                  in if fl_proto fl = IPPROTO_TCP
                     then if length buf < l + 14 then None
                          else Some (fl\<lparr>fl_flags := buf ! (l + 13) AND 0x3f\<rparr>)
                     else Some fl
           else Some fl)"

text \<open>The \<open>continue\<close> statements in the body of the loop.\<close>

definition rule_skips :: "ip_filter_rulet \<Rightarrow> flow \<Rightarrow> bool" where
  "rule_skips rule fl =
     (if ru_proto rule \<noteq> IPPROTO_IP \<and> fl_proto fl \<noteq> ru_proto rule then True
      else if ru_src_wild rule \<noteq> INADDR_BROADCAST \<and>
              fl_src_ip fl AND NOT (ru_src_wild rule) \<noteq> ru_src_ip rule AND NOT (ru_src_wild rule)
      then True
      else if ru_dst_wild rule \<noteq> INADDR_BROADCAST \<and>
              fl_dst_ip fl AND NOT (ru_dst_wild rule) \<noteq> ru_dst_ip rule AND NOT (ru_dst_wild rule)
      then True
      else if fl_frag_offset fl \<noteq> 0 then
        ru_action rule = DENY \<and>
        (po_op (ru_src_ports rule) \<noteq> PORT_NONE \<or> po_op (ru_dst_ports rule) \<noteq> PORT_NONE \<or>
         ru_flag_op rule \<noteq> FLAG_NONE)
      else if ru_frag rule then True
      else if is_l4 (fl_proto fl) then
        po_op (ru_src_ports rule) \<noteq> PORT_NONE \<and> \<not> ip_filter_port (ru_src_ports rule) (fl_src_port fl) \<or>
        po_op (ru_dst_ports rule) \<noteq> PORT_NONE \<and> \<not> ip_filter_port (ru_dst_ports rule) (fl_dst_port fl) \<or>
        fl_proto fl = IPPROTO_TCP \<and> ru_flag_op rule \<noteq> FLAG_NONE \<and>
        \<not> ip_filter_flag (ru_flag_op rule) (ru_sflags rule) (ru_cflags rule) (fl_flags fl)
      else False)"

text \<open>
  The loop over the rules, whose only bound is the empty rule that ends the list: without one it
  reads past the array.
\<close>

function filter_loop :: "flow \<Rightarrow> (nat \<Rightarrow> ip_filter_rulet) \<Rightarrow> nat \<Rightarrow> (bool \<times> (nat \<Rightarrow> ip_filter_rulet)) outcome" where
  "filter_loop fl rules i =
     (if i \<ge> MAXFILTER_RULES then Undef
      else if ru_action (rules i) = ACTION_NONE then Ret (False, rules)
      else if rule_skips (rules i) fl then filter_loop fl rules (Suc i)
      else Ret (ru_action (rules i) = PERMIT,
                rules(i := (rules i)\<lparr>ru_counter := ru_counter (rules i) + 1\<rparr>)))"
  by pat_completeness auto
termination by (relation "measure (\<lambda>(fl, rules, i). MAXFILTER_RULES - i)") auto

definition ip_filter :: "bytes \<Rightarrow> nat \<Rightarrow> (nat \<Rightarrow> ip_filtert) \<Rightarrow> (bool \<times> (nat \<Rightarrow> ip_filtert)) outcome" where
  "ip_filter buf f fs =
     (case ip_flow buf of
        None \<Rightarrow> Ret (False, fs)
      | Some fl \<Rightarrow>
          obind (filter_loop fl (fi_rules (fs f)) 0)
            (\<lambda>(d, rules). Ret (d, fs(f := (fs f)\<lparr>fi_rules := rules\<rparr>))))"

declare filter_loop.simps [simp del]

subsection \<open>What a rule and a filter mean\<close>

text \<open>
  A rule as a set of packets. An address matches when it agrees with the rule's outside the
  wildcard bits; ports are a set; of the TCP flags some (\<open>match-any\<close>) or all (\<open>match-all\<close>) of those
  listed are set, respectively clear. A non-initial fragment has no ports and flags: it is
  permitted by a rule that mentions them but not denied by one.
\<close>

definition same_net :: "in_addr \<Rightarrow> in_addr \<Rightarrow> in_addr \<Rightarrow> bool" where
  "same_net wild a b \<longleftrightarrow> (\<forall>n < 32. bit wild n \<or> bit a n = bit b n)"

definition port_set :: "ip_filter_portt \<Rightarrow> u16 set" where
  "port_set p =
     (case po_op p of
        PORT_NONE \<Rightarrow> UNIV
      | PORT_EQ \<Rightarrow> {po_port p}
      | PORT_NEQ \<Rightarrow> - {po_port p}
      | PORT_GT \<Rightarrow> {po_port p <..}
      | PORT_LT \<Rightarrow> {..< po_port p}
      | PORT_RANGE \<Rightarrow> {po_port p .. po_port2 p})"

definition flag_set :: "ip_filter_rulet \<Rightarrow> u8 set" where
  "flag_set r =
     (case ru_flag_op r of
        FLAG_NONE \<Rightarrow> UNIV
      | FLAG_ANY \<Rightarrow> {fl. \<exists>n < 8. bit (ru_sflags r) n \<and> bit fl n \<or> bit (ru_cflags r) n \<and> \<not> bit fl n}
      | FLAG_ALL \<Rightarrow> {fl. \<forall>n < 8. (bit (ru_sflags r) n \<longrightarrow> bit fl n) \<and> (bit (ru_cflags r) n \<longrightarrow> \<not> bit fl n)}
      | FLAG_EST \<Rightarrow> {fl. (bit fl 4 \<or> bit fl 2) \<and> \<not> bit fl 1})"

definition l4_rule :: "ip_filter_rulet \<Rightarrow> bool" where
  "l4_rule r \<longleftrightarrow> po_op (ru_src_ports r) \<noteq> PORT_NONE \<or> po_op (ru_dst_ports r) \<noteq> PORT_NONE \<or>
                 ru_flag_op r \<noteq> FLAG_NONE"

definition rule_matches :: "ip_filter_rulet \<Rightarrow> flow \<Rightarrow> bool" where
  "rule_matches r fl \<longleftrightarrow>
     (ru_proto r = IPPROTO_IP \<or> ru_proto r = fl_proto fl) \<and>
     same_net (ru_src_wild r) (fl_src_ip fl) (ru_src_ip r) \<and>
     same_net (ru_dst_wild r) (fl_dst_ip fl) (ru_dst_ip r) \<and>
     (if fl_frag_offset fl = 0
      then \<not> ru_frag r \<and>
           (is_l4 (fl_proto fl) \<longrightarrow>
              fl_src_port fl \<in> port_set (ru_src_ports r) \<and> fl_dst_port fl \<in> port_set (ru_dst_ports r)) \<and>
           (fl_proto fl = IPPROTO_TCP \<longrightarrow> fl_flags fl \<in> flag_set r)
      else ru_action r = PERMIT \<or> \<not> l4_rule r)"

text \<open>The rules before the empty one.\<close>

definition active_rules :: "ip_filtert \<Rightarrow> ip_filter_rulet list" where
  "active_rules f = takeWhile (\<lambda>r. ru_action r \<noteq> ACTION_NONE) (map (fi_rules f) [0..<MAXFILTER_RULES])"

definition terminated :: "ip_filtert \<Rightarrow> bool" where
  "terminated f \<longleftrightarrow> (\<exists>i < MAXFILTER_RULES. ru_action (fi_rules f i) = ACTION_NONE)"

definition first_match :: "ip_filtert \<Rightarrow> bytes \<Rightarrow> nat option" where
  "first_match f buf =
     (case ip_flow buf of
        None \<Rightarrow> None
      | Some fl \<Rightarrow> find (\<lambda>i. rule_matches (fi_rules f i) fl) [0..<length (active_rules f)])"

definition count_match :: "nat \<Rightarrow> ip_filtert \<Rightarrow> ip_filtert" where
  "count_match i f =
     f\<lparr>fi_rules := (fi_rules f)(i := (fi_rules f i)\<lparr>ru_counter := ru_counter (fi_rules f i) + 1\<rparr>)\<rparr>"

subsection \<open>The loop decides as the first matching rule\<close>

lemma broadcast_all: "INADDR_BROADCAST = - 1"
  by (simp add: INADDR_BROADCAST_def)

lemma same_net_iff:
  "same_net w a b \<longleftrightarrow> w = INADDR_BROADCAST \<or> a AND NOT w = b AND NOT w"
proof -
  have all: "w = INADDR_BROADCAST \<longleftrightarrow> (\<forall>n < 32. bit w n)"
    unfolding broadcast_all by (auto simp: bit_eq_iff bit_simps)
  have "a AND NOT w = b AND NOT w \<longleftrightarrow> (\<forall>n < 32. bit w n \<or> bit a n = bit b n)"
    by (auto simp: bit_eq_iff bit_simps)
  then show ?thesis
    using all by (auto simp: same_net_def)
qed

lemma port_set_iff:
  "port \<in> port_set p \<longleftrightarrow> po_op p = PORT_NONE \<or> ip_filter_port p port"
  by (cases "po_op p") (auto simp: port_set_def ip_filter_port_def)

lemma not_bit8: "n < 8 \<Longrightarrow> bit (NOT (a :: u8)) n \<longleftrightarrow> \<not> bit a n"
  by (simp add: bit_simps)

lemma and_nonzero_iff: "(a :: u8) AND b \<noteq> 0 \<longleftrightarrow> (\<exists>n < 8. bit b n \<and> bit a n)"
  by (auto simp: bit_eq_iff bit_simps)

lemma not_and_nonzero_iff: "NOT (a :: u8) AND b \<noteq> 0 \<longleftrightarrow> (\<exists>n < 8. bit b n \<and> \<not> bit a n)"
  by (auto simp: bit_eq_iff bit_simps)

lemma and_eq_iff: "(a :: u8) AND b = b \<longleftrightarrow> (\<forall>n < 8. bit b n \<longrightarrow> bit a n)"
  by (auto simp: bit_eq_iff bit_simps)

lemma not_and_eq_iff: "NOT (a :: u8) AND b = b \<longleftrightarrow> (\<forall>n < 8. bit b n \<longrightarrow> \<not> bit a n)"
  by (auto simp: bit_eq_iff bit_simps)

lemma bits8: "(\<exists>n < 8. P n) \<longleftrightarrow> P 0 \<or> P 1 \<or> P 2 \<or> P 3 \<or> P 4 \<or> P 5 \<or> P 6 \<or> P (7::nat)"
  by (auto simp: numeral_eq_Suc less_Suc_eq)

lemma est_bits:
  "(fl :: u8) AND (TCP_FLAG_ACK OR TCP_FLAG_RST) \<noteq> 0 \<longleftrightarrow> bit fl 4 \<or> bit fl 2"
  "NOT fl AND TCP_FLAG_SYN \<noteq> 0 \<longleftrightarrow> \<not> bit fl 1"
  unfolding and_nonzero_iff not_and_nonzero_iff bits8 TCP_FLAG_ACK_def TCP_FLAG_RST_def TCP_FLAG_SYN_def
  by (simp_all add: disj_commute not_bit8)

lemma flag_set_iff:
  "fl \<in> flag_set r \<longleftrightarrow>
     ru_flag_op r = FLAG_NONE \<or> ip_filter_flag (ru_flag_op r) (ru_sflags r) (ru_cflags r) fl"
proof (cases "ru_flag_op r")
  case FLAG_ANY
  show ?thesis
    unfolding flag_set_def ip_filter_flag_def FLAG_ANY flag_op.case not_and_nonzero_iff and_nonzero_iff
    by (auto simp: not_bit8)
next
  case FLAG_ALL
  have "?thesis \<longleftrightarrow> (\<forall>n < 8. (bit (ru_sflags r) n \<longrightarrow> bit fl n) \<and> (bit (ru_cflags r) n \<longrightarrow> \<not> bit fl n)) =
      ((\<forall>n < 8. bit (ru_sflags r) n \<longrightarrow> bit fl n) \<and> (\<forall>n < 8. bit (ru_cflags r) n \<longrightarrow> \<not> bit fl n))"
    unfolding flag_set_def ip_filter_flag_def FLAG_ALL flag_op.case not_and_eq_iff and_eq_iff
    by (simp add: not_bit8)
  then show ?thesis by (rule iffD2) blast
qed (simp_all add: flag_set_def ip_filter_flag_def est_bits)

lemma rule_skips_iff:
  assumes "ru_action r \<noteq> ACTION_NONE"
  shows "rule_skips r fl \<longleftrightarrow> \<not> rule_matches r fl"
proof -
  have act: "ru_action r = PERMIT \<longleftrightarrow> ru_action r \<noteq> DENY"
    using assms by (cases "ru_action r") auto
  show ?thesis
    unfolding rule_skips_def rule_matches_def same_net_iff port_set_iff flag_set_iff l4_rule_def act
    by (cases "fl_proto fl = ru_proto r"; cases "fl_frag_offset fl = 0"; cases "ru_frag r";
        cases "is_l4 (fl_proto fl)"; simp add: is_l4_def; blast)
qed

lemma length_active: "length (active_rules f) \<le> MAXFILTER_RULES"
  unfolding active_rules_def by (rule order.trans[OF length_takeWhile_le]) simp

lemma active_nth:
  assumes "i < length (active_rules f)"
  shows "ru_action (fi_rules f i) \<noteq> ACTION_NONE"
proof -
  have "active_rules f ! i = fi_rules f i"
    using assms length_active[of f] by (simp add: active_rules_def takeWhile_nth)
  then show ?thesis
    using nth_mem[OF assms] set_takeWhileD by (fastforce simp: active_rules_def)
qed

lemma active_end:
  assumes "terminated f"
  shows "length (active_rules f) < MAXFILTER_RULES"
    and "ru_action (fi_rules f (length (active_rules f))) = ACTION_NONE"
proof -
  let ?xs = "map (fi_rules f) [0..<MAXFILTER_RULES]" and ?P = "\<lambda>r. ru_action r \<noteq> ACTION_NONE"
  from assms obtain i where "i < MAXFILTER_RULES" "ru_action (fi_rules f i) = ACTION_NONE"
    by (auto simp: terminated_def)
  then have "\<exists>x \<in> set ?xs. \<not> ?P x" by auto
  then have "takeWhile ?P ?xs \<noteq> ?xs"
    by (metis (mono_tags, lifting) takeWhile_eq_all_conv)
  then have "length (takeWhile ?P ?xs) \<noteq> length ?xs"
    by (metis (no_types) append_eq_conv_conj take_all_iff takeWhile_eq_take order_refl)
  then have "length (takeWhile ?P ?xs) < length ?xs"
    using length_takeWhile_le nat_less_le by blast
  then show len: "length (active_rules f) < MAXFILTER_RULES"
    by (simp add: active_rules_def)
  then show "ru_action (fi_rules f (length (active_rules f))) = ACTION_NONE"
    using nth_length_takeWhile[of ?P ?xs] by (simp add: active_rules_def)
qed

lemma filter_loop_find:
  assumes "terminated f" "i \<le> length (active_rules f)"
  shows "filter_loop fl (fi_rules f) i =
     (case find (\<lambda>i. rule_matches (fi_rules f i) fl) [i..<length (active_rules f)] of
        None \<Rightarrow> Ret (False, fi_rules f)
      | Some j \<Rightarrow> Ret (ru_action (fi_rules f j) = PERMIT, fi_rules (count_match j f)))"
  using assms(2)
proof (induction "length (active_rules f) - i" arbitrary: i)
  case 0
  then have i: "i = length (active_rules f)" by simp
  show ?case
    using active_end[OF assms(1)] unfolding i by (subst filter_loop.simps) simp
next
  case (Suc n)
  then have i: "i < length (active_rules f)" by simp
  have up: "[i..<length (active_rules f)] = i # [Suc i..<length (active_rules f)]"
    by (rule upt_conv_Cons[OF i])
  have act: "ru_action (fi_rules f i) \<noteq> ACTION_NONE"
    by (rule active_nth[OF i])
  have "\<not> MAXFILTER_RULES \<le> i"
    using i length_active[of f] by simp
  then show ?case
    using Suc i act by (subst filter_loop.simps) (simp add: up rule_skips_iff count_match_def)
qed

lemma ip_filter_first_match_loop:
  assumes "terminated (fs f)"
  shows "ip_filter buf f fs =
    (case first_match (fs f) buf of
       None \<Rightarrow> Ret (False, fs)
     | Some i \<Rightarrow> Ret (ru_action (fi_rules (fs f) i) = PERMIT, fs(f := count_match i (fs f))))"
  by (simp add: ip_filter_def first_match_def filter_loop_find[OF assms] count_match_def fun_upd_idem
      split: option.split)

text \<open>
  C15: the decision on a packet is that of the first rule that matches it. A rule matches by the
  meaning of its parts as sets of packets; a packet that is no IPv4 header with the ports and
  flags it should have, or that no rule matches, is dropped. The matching rule counts the packet
  and nothing else changes; on a list that ends with an empty rule the loop stays in the array.
\<close>

theorem ip_filter_first_match:
  assumes "terminated (fs f)"
  shows "ip_filter buf f fs =
    (case first_match (fs f) buf of
       None \<Rightarrow> Ret (False, fs)
     | Some i \<Rightarrow> Ret (ru_action (fi_rules (fs f) i) = PERMIT, fs(f := count_match i (fs f))))"
  using assms by (rule ip_filter_first_match_loop)

definition web_rule :: ip_filter_rulet where
  "web_rule = rule_zero\<lparr>ru_action := PERMIT, ru_proto := IPPROTO_TCP, ru_src_wild := 0xffffffff,
     ru_dst_ip := 0x0a000000, ru_dst_wild := 0x000000ff,
     ru_dst_ports := \<lparr>po_op = PORT_EQ, po_port = 80, po_port2 = 0\<rparr>\<rparr>"

definition web_packet :: bytes where
  "web_packet = [0x45, 0, 0, 40, 0, 0, 0, 0, 64, 6, 0, 0, 192, 0, 2, 1, 10, 0, 0, 7,
                 4, 0, 0, 80, 0, 0, 0, 0, 0, 0, 0, 0, 0x50, 2, 0, 0, 0, 0, 0, 0]"

lemma ip_filter_first_match_witness:
  "terminated (filter_zero\<lparr>fi_rules := (\<lambda>_. rule_zero)(0 := web_rule)\<rparr>) \<and>
   (\<exists>fs'. ip_filter web_packet 0 (\<lambda>_. filter_zero\<lparr>fi_rules := (\<lambda>_. rule_zero)(0 := web_rule)\<rparr>) = Ret (True, fs'))"
proof -
  let ?f = "filter_zero\<lparr>fi_rules := (\<lambda>_. rule_zero)(0 := web_rule)\<rparr>"
  have t: "terminated ?f"
    by (auto simp: terminated_def rule_zero_def MAXFILTER_RULES_def intro!: exI[of _ 1])
  have act: "active_rules ?f = [web_rule]"
    by (simp add: active_rules_def MAXFILTER_RULES_def upt_conv_Cons web_rule_def rule_zero_def)
  have flow: "ip_flow web_packet = Some \<lparr>fl_frag_offset = 0, fl_proto = 6, fl_src_ip = 0xC0000201,
      fl_dst_ip = 0x0a000007, fl_src_port = 1024, fl_dst_port = 80, fl_flags = 2\<rparr>"
    by code_simp
  have "rule_matches web_rule \<lparr>fl_frag_offset = 0, fl_proto = 6, fl_src_ip = 0xC0000201,
      fl_dst_ip = 0x0a000007, fl_src_port = 1024, fl_dst_port = 80, fl_flags = 2\<rparr>"
    by (simp add: rule_matches_def same_net_iff port_set_iff flag_set_iff web_rule_def rule_zero_def
        ports_zero_def ip_filter_port_def IPPROTO_TCP_def IPPROTO_IP_def INADDR_BROADCAST_def)
  then have "first_match ?f web_packet = Some 0"
    by (simp add: first_match_def act flow)
  then show ?thesis
    using ip_filter_first_match[of "\<lambda>_. ?f" 0 web_packet] t by (simp add: web_rule_def)
qed

end
