(* ===== verification/Acl.thy ===== *)
theory Acl
  imports IpFilter
begin

text \<open>
  Access lists of the command line interface (\<^verbatim>\<open>src/cli.c\<close>): \<open>access_list\<close> (add and remove a named
  list), \<open>access_list_rule_std\<close> and \<open>access_list_rule_ext\<close> (parse a rule), \<open>cmd_ip_access_list_rule\<close>
  (append it) and \<open>show_access_list_rule\<close>, which prints a rule for the running configuration. The
  library that splits a line into words and dispatches it is not part of the repository; a command
  is the list of its arguments. The help texts are not modelled.
\<close>

subsection \<open>Numbers and addresses as text\<close>

definition digit :: "nat \<Rightarrow> char" where
  "digit n = char_of (48 + n)"

text \<open>\<open>printf("%u")\<close>.\<close>

fun dec :: "nat \<Rightarrow> string" where
  "dec n = (if n < 10 then [digit n] else dec (n div 10) @ [digit (n mod 10)])"

declare dec.simps [simp del]

text \<open>The value of a digit in bases up to 16.\<close>

definition digit_val :: "char \<Rightarrow> nat" where
  "digit_val c =
     (let k = of_char c :: nat in
      if 48 \<le> k \<and> k < 58 then k - 48
      else if 97 \<le> k \<and> k < 103 then k - 87
      else if 65 \<le> k \<and> k < 71 then k - 55
      else 99)"

definition isdigit :: "char \<Rightarrow> bool" where
  "isdigit c \<longleftrightarrow> digit_val c < 10"

definition isspace :: "char \<Rightarrow> bool" where
  "isspace c \<longleftrightarrow> c = CHR '' '' \<or> (9 \<le> (of_char c :: nat) \<and> (of_char c :: nat) < 14)"

definition num_val :: "nat \<Rightarrow> string \<Rightarrow> int" where
  "num_val base ds = foldl (\<lambda>v c. v * int base + int (digit_val c)) 0 ds"

text \<open>
  \<open>strtoul\<close> with base 0 on a text that starts with a digit: the value and the rest.
\<close>

definition strtoul_digits :: "nat \<Rightarrow> string \<Rightarrow> int \<times> string" where
  "strtoul_digits base s =
     (num_val base (takeWhile (\<lambda>c. digit_val c < base) s), dropWhile (\<lambda>c. digit_val c < base) s)"

fun strtoul0 :: "string \<Rightarrow> int \<times> string" where
  "strtoul0 (c # d # s) =
     (if c = CHR ''0''
      then if (d = CHR ''x'' \<or> d = CHR ''X'') \<and> s \<noteq> [] \<and> digit_val (hd s) < 16
           then strtoul_digits 16 s
           else strtoul_digits 8 (c # d # s)
      else strtoul_digits 10 (c # d # s))"
| "strtoul0 s = strtoul_digits 10 s"

text \<open>
  \<open>inet_aton\<close>: up to four numbers, the last of which fills the bytes that are left.
  \<open>parts\<close> are the bytes found so far.
\<close>

lemma strtoul0_rest: "length (snd (strtoul0 s)) \<le> length s"
  by (cases s rule: strtoul0.cases)
    (auto simp: strtoul_digits_def intro: order.trans[OF length_dropWhile_le] le_SucI)

function inet_aton_from :: "string \<Rightarrow> int list \<Rightarrow> in_addr option" where
  "inet_aton_from s parts =
     (if s = [] \<or> \<not> isdigit (hd s) then None
      else
        let (val, rest) = strtoul0 s in
        if val > 0xffffffff then None
        else if rest \<noteq> [] \<and> hd rest = CHR ''.'' then
          if length parts > 2 \<or> val > 255 then None
          else inet_aton_from (tl rest) (parts @ [val])
        else if rest \<noteq> [] \<and> \<not> isspace (hd rest) then None
        else if val \<ge> 256 ^ (4 - length parts) then None
        else Some (word_of_int (foldl (\<lambda>v p. v * 256 + p) 0 parts * 256 ^ (4 - length parts) + val)))"
  by pat_completeness auto
termination
proof (relation "measure (\<lambda>(s, parts). length s)")
  fix s :: string and parts x val rest
  assume "\<not> (s = [] \<or> \<not> isdigit (hd s))" "x = strtoul0 s" "(val, rest) = x"
    and "rest \<noteq> [] \<and> hd rest = CHR ''.''"
  then show "((tl rest, parts @ [val]), s, parts) \<in> measure (\<lambda>(s, parts). length s)"
    using strtoul0_rest[of s] by (cases rest) (auto dest: sym)
qed simp

declare inet_aton_from.simps [simp del]

definition inet_aton :: "string \<Rightarrow> in_addr option" where
  "inet_aton s = inet_aton_from s []"

definition inet_ntoa :: "in_addr \<Rightarrow> string" where
  "inet_ntoa a =
     (let b = (\<lambda>k. dec (unat (ucast (drop_bit k a) :: u8)))
      in b 24 @ ''.'' @ b 16 @ ''.'' @ b 8 @ ''.'' @ b 0)"

text \<open>\<open>atoi\<close>: \<open>strtol\<close> in base 10, cut off at the limits of \<open>long\<close> and then to an \<open>int\<close>.\<close>

definition atoi :: "string \<Rightarrow> int" where
  "atoi s =
     (let s = dropWhile isspace s;
          neg = (s \<noteq> [] \<and> hd s = CHR ''-'');
          s = (if s \<noteq> [] \<and> (hd s = CHR ''-'' \<or> hd s = CHR ''+'') then tl s else s);
          v = num_val 10 (takeWhile isdigit s);
          v = (if neg then max (- (2 ^ 63)) (- v) else min (2 ^ 63 - 1) v)
      in sint (word_of_int v :: u32))"

text \<open>\<open>MATCH(a, b)\<close>: \<open>b\<close> is an abbreviation of \<open>a\<close>.\<close>

definition MATCH :: "string \<Rightarrow> string \<Rightarrow> bool" where
  "MATCH a b \<longleftrightarrow> take (length b) a = b"

subsection \<open>Printing a rule\<close>

text \<open>
  \<open>protoname\<close> is \<open>getprotobynumber\<close>, which reads \<^verbatim>\<open>/etc/protocols\<close>.
\<close>

definition show_ip_wild :: "in_addr \<Rightarrow> in_addr \<Rightarrow> string" where
  "show_ip_wild ip wild =
     (if ip = 0 \<and> wild = INADDR_BROADCAST then '' any''
      else if wild = 0 then '' host '' @ inet_ntoa ip
      else '' '' @ inet_ntoa ip @ '' '' @ inet_ntoa wild)"

definition show_ports :: "ip_filter_portt \<Rightarrow> string" where
  "show_ports p =
     (case po_op p of
        PORT_EQ \<Rightarrow> '' eq '' @ dec (unat (po_port p))
      | PORT_NEQ \<Rightarrow> '' neq '' @ dec (unat (po_port p))
      | PORT_GT \<Rightarrow> '' gt '' @ dec (unat (po_port p))
      | PORT_LT \<Rightarrow> '' lt '' @ dec (unat (po_port p))
      | PORT_RANGE \<Rightarrow> '' range '' @ dec (unat (po_port p)) @ '' '' @ dec (unat (po_port2 p))
      | PORT_NONE \<Rightarrow> [])"

definition show_flag :: "ip_filter_rulet \<Rightarrow> u8 \<Rightarrow> string \<Rightarrow> string" where
  "show_flag rule flag name =
     (if ru_sflags rule AND flag \<noteq> 0 then '' +'' @ name else []) @
     (if ru_cflags rule AND flag \<noteq> 0 then '' -'' @ name else [])"

definition show_flags :: "ip_filter_rulet \<Rightarrow> string" where
  "show_flags rule =
     (case ru_flag_op rule of
        FLAG_NONE \<Rightarrow> []
      | FLAG_EST \<Rightarrow> '' established''
      | op \<Rightarrow> '' match-'' @ (if op = FLAG_ALL then ''all'' else ''any'') @
          show_flag rule TCP_FLAG_FIN ''fin'' @ show_flag rule TCP_FLAG_SYN ''syn'' @
          show_flag rule TCP_FLAG_RST ''rst'' @ show_flag rule TCP_FLAG_PSH ''psh'' @
          show_flag rule TCP_FLAG_ACK ''ack'' @ show_flag rule TCP_FLAG_URG ''urg'')"

definition show_access_list_rule :: "(u8 \<Rightarrow> string option) \<Rightarrow> bool \<Rightarrow> ip_filter_rulet \<Rightarrow> string" where
  "show_access_list_rule protoname extended rule =
     '' '' @ (if ru_action rule = PERMIT then ''permit'' else ''deny'') @
     (if extended
      then '' '' @ (case protoname (ru_proto rule) of Some n \<Rightarrow> n | None \<Rightarrow> ''ERR'')
      else []) @
     show_ip_wild (ru_src_ip rule) (ru_src_wild rule) @
     (if \<not> extended then []
      else
        (if is_l4 (ru_proto rule) then show_ports (ru_src_ports rule) else []) @
        show_ip_wild (ru_dst_ip rule) (ru_dst_wild rule) @
        (if is_l4 (ru_proto rule) then show_ports (ru_dst_ports rule) else []) @
        (if ru_proto rule = IPPROTO_TCP then show_flags rule else []) @
        (if ru_frag rule then '' fragments'' else []))"

subsection \<open>Parsing a rule\<close>

datatype acl_error =
  Specify_rule_details | Invalid_protocol string | Specify_destination | Specify_host
| Cannot_parse_IP string | Specify_wildcard | Specify_port | Invalid_port string
| Specify_tcp_flags | Invalid_tcp_flag string | Cannot_specify_fragments | Invalid_flag string

definition rule_command :: "string \<Rightarrow> filter_action" where
  "rule_command command = (if take 1 command = ''p'' then PERMIT else DENY)"

text \<open>
  Parsing walks along \<open>argv\<close>; the functions take the words from \<open>argv[a]\<close> on and return what is
  left. \<open>parse_ip_wild\<close> on no words is the test for a missing destination.
\<close>

fun parse_ip_wild :: "string list \<Rightarrow> acl_error + ((in_addr \<times> in_addr) \<times> string list)" where
  "parse_ip_wild [] = Inl Specify_destination"
| "parse_ip_wild (w # ws) =
     (if MATCH ''any'' w then Inr ((0, INADDR_BROADCAST), ws)
      else if MATCH ''host'' w then
        (case ws of
           [] \<Rightarrow> Inl Specify_host
         | h # ws \<Rightarrow>
             (case inet_aton h of
                None \<Rightarrow> Inl (Cannot_parse_IP h)
              | Some a \<Rightarrow> Inr ((a, 0), ws)))
      else
        (case ws of
           [] \<Rightarrow> Inl Specify_wildcard
         | v # ws \<Rightarrow>
             (case inet_aton w of
                None \<Rightarrow> Inl (Cannot_parse_IP w)
              | Some a \<Rightarrow>
                  (case inet_aton v of
                     None \<Rightarrow> Inl (Cannot_parse_IP v)
                   | Some b \<Rightarrow> Inr ((a, b), ws)))))"

definition port_word :: "string \<Rightarrow> port_op" where
  "port_word w =
     (if MATCH ''eq'' w then PORT_EQ
      else if MATCH ''neq'' w then PORT_NEQ
      else if MATCH ''gt'' w then PORT_GT
      else if MATCH ''lt'' w then PORT_LT
      else if MATCH ''range'' w then PORT_RANGE
      else PORT_NONE)"

fun parse_ports :: "u8 \<Rightarrow> string list \<Rightarrow> acl_error + (ip_filter_portt \<times> string list)" where
  "parse_ports proto [] = Inr (ports_zero, [])"
| "parse_ports proto (w # ws) =
     (if proto = IPPROTO_IP \<or> port_word w = PORT_NONE then Inr (ports_zero, w # ws)
      else
        (case ws of
           [] \<Rightarrow> Inl Specify_port
         | p # ws \<Rightarrow>
             let port = word_of_int (atoi p) :: u16 in
             if port = 0 then Inl (Invalid_port p)
             else if port_word w \<noteq> PORT_RANGE
             then Inr (\<lparr>po_op = port_word w, po_port = port, po_port2 = 0\<rparr>, ws)
             else
               (case ws of
                  [] \<Rightarrow> Inl Specify_port
                | p2 # ws \<Rightarrow>
                    let port2 = word_of_int (atoi p2) :: u16 in
                    if port2 = 0 \<or> port2 < port then Inl (Invalid_port p2)
                    else Inr (\<lparr>po_op = PORT_RANGE, po_port = port, po_port2 = port2\<rparr>, ws))))"

definition flag_word :: "string \<Rightarrow> u8 option" where
  "flag_word w =
     (if MATCH ''fin'' w then Some TCP_FLAG_FIN
      else if MATCH ''syn'' w then Some TCP_FLAG_SYN
      else if MATCH ''rst'' w then Some TCP_FLAG_RST
      else if MATCH ''psh'' w then Some TCP_FLAG_PSH
      else if MATCH ''ack'' w then Some TCP_FLAG_ACK
      else if MATCH ''urg'' w then Some TCP_FLAG_URG
      else None)"

fun parse_flag_words :: "u8 \<Rightarrow> u8 \<Rightarrow> string list \<Rightarrow> acl_error + ((u8 \<times> u8) \<times> string list)" where
  "parse_flag_words sf cf [] = Inr ((sf, cf), [])"
| "parse_flag_words sf cf (w # ws) =
     (if take 1 w = ''+'' \<or> take 1 w = ''-'' then
        (case flag_word (tl w) of
           None \<Rightarrow> Inl (Invalid_tcp_flag w)
         | Some f \<Rightarrow>
             if take 1 w = ''+'' then parse_flag_words (sf OR f) cf ws
             else parse_flag_words sf (cf OR f) ws)
      else Inr ((sf, cf), w # ws))"

fun parse_flags :: "u8 \<Rightarrow> string list \<Rightarrow> acl_error + ((flag_op \<times> u8 \<times> u8) \<times> string list)" where
  "parse_flags proto [] = Inr ((FLAG_NONE, 0, 0), [])"
| "parse_flags proto (w # ws) =
     (if proto \<noteq> IPPROTO_TCP then Inr ((FLAG_NONE, 0, 0), w # ws)
      else if MATCH ''established'' w then Inr ((FLAG_EST, 0, 0), ws)
      else if w \<in> {''match-any'', ''match-an'', ''match-all'', ''match-al''} then
        let op = (if w ! 7 = CHR ''n'' then FLAG_ANY else FLAG_ALL) in
        if ws = [] then Inl Specify_tcp_flags
        else
          (case parse_flag_words 0 0 ws of
             Inl e \<Rightarrow> Inl e
           | Inr ((sf, cf), ws) \<Rightarrow> Inr ((op, sf, cf), ws))
      else Inr ((FLAG_NONE, 0, 0), w # ws))"

text \<open>The option \<open>fragments\<close> and the test that no word is left.\<close>

fun parse_end :: "ip_filter_rulet \<Rightarrow> string list \<Rightarrow> acl_error + ip_filter_rulet" where
  "parse_end rule [] = Inr rule"
| "parse_end rule (w # ws) =
     (if MATCH ''fragments'' w then
        if l4_rule rule then Inl Cannot_specify_fragments
        else case ws of [] \<Rightarrow> Inr (rule\<lparr>ru_frag := True\<rparr>) | v # _ \<Rightarrow> Inl (Invalid_flag v)
      else Inl (Invalid_flag w))"

fun sbind :: "'e + 'a \<Rightarrow> ('a \<Rightarrow> 'e + 'b) \<Rightarrow> 'e + 'b" where
  "sbind (Inl e) f = Inl e"
| "sbind (Inr a) f = f a"

definition parse_proto :: "string \<Rightarrow> u8 option" where
  "parse_proto w =
     (if MATCH ''ip'' w then Some IPPROTO_IP
      else if MATCH ''udp'' w then Some IPPROTO_UDP
      else if MATCH ''tcp'' w then Some IPPROTO_TCP
      else None)"

definition access_list_rule_ext :: "string \<Rightarrow> string list \<Rightarrow> acl_error + ip_filter_rulet" where
  "access_list_rule_ext command argv =
     (if length argv < 3 then Inl Specify_rule_details
      else
        case parse_proto (hd argv) of
          None \<Rightarrow> Inl (Invalid_protocol (hd argv))
        | Some proto \<Rightarrow>
            sbind (parse_ip_wild (tl argv)) (\<lambda>(src, ws).
            sbind (parse_ports proto ws) (\<lambda>(sports, ws).
            sbind (parse_ip_wild ws) (\<lambda>(dst, ws).
            sbind (parse_ports proto ws) (\<lambda>(dports, ws).
            sbind (parse_flags proto ws) (\<lambda>((op, sf, cf), ws).
            parse_end
              (rule_zero\<lparr>ru_action := rule_command command, ru_proto := proto, ru_src_ip := fst src,
                 ru_src_wild := snd src, ru_src_ports := sports, ru_dst_ip := fst dst,
                 ru_dst_wild := snd dst, ru_dst_ports := dports, ru_flag_op := op,
                 ru_sflags := sf, ru_cflags := cf\<rparr>) ws))))))"

fun access_list_rule_std :: "string \<Rightarrow> string list \<Rightarrow> acl_error + ip_filter_rulet" where
  "access_list_rule_std command [] = Inl Specify_rule_details"
| "access_list_rule_std command (w # ws) =
     (let rule = rule_zero\<lparr>ru_action := rule_command command\<rparr> in
      if MATCH ''any'' w then Inr (rule\<lparr>ru_src_wild := INADDR_BROADCAST\<rparr>)
      else if MATCH ''host'' w then
        (case ws of
           [h] \<Rightarrow>
             (case inet_aton h of
                None \<Rightarrow> Inl (Cannot_parse_IP h)
              | Some a \<Rightarrow> Inr (rule\<lparr>ru_src_ip := a\<rparr>))
         | _ \<Rightarrow> Inl Specify_host)
      else if length ws > 1 then Inl Specify_wildcard
      else
        (case inet_aton w of
           None \<Rightarrow> Inl (Cannot_parse_IP w)
         | Some a \<Rightarrow>
             (case ws of
                [] \<Rightarrow> Inr (rule\<lparr>ru_src_ip := a\<rparr>)
              | v # _ \<Rightarrow>
                  (case inet_aton v of
                     None \<Rightarrow> Inl (Cannot_parse_IP v)
                   | Some b \<Rightarrow> Inr (rule\<lparr>ru_src_ip := a, ru_src_wild := b\<rparr>)))))"

subsection \<open>Editing the lists\<close>

datatype acl_message =
  Specify_type_and_name | Invalid_type | Invalid_name | Too_many_lists | List_is_other_type
| Not_defined | In_use | Too_many_rules | Rule_error acl_error

text \<open>One command line session: the static \<open>filt\<close> of its process and its configuration mode.\<close>

record cli_def =
  cli_filt :: int
  cli_nacl :: bool

definition name_chars :: string where
  "name_chars = ''ABCDEFGHIJKLMNOPQRSTUVWXYZabcdefghijklmnopqrstuvwxyz0123456789_-''"

definition name_ok :: "string \<Rightarrow> bool" where
  "name_ok name \<longleftrightarrow> length name \<le> 31 \<and> set name \<subseteq> set name_chars"

text \<open>
  \<open>access_list\<close> and, below, \<open>cmd_ip_access_list_rule\<close> from the call to the return, with no other process
  changing the lists meanwhile; the theory \<open>AclInv\<close> also looks at commands whose stores are interleaved.
\<close>

definition access_list ::
    "string list \<Rightarrow> bool \<Rightarrow> cli_def \<Rightarrow> (nat \<Rightarrow> ip_filtert) \<Rightarrow> cli_def \<times> (nat \<Rightarrow> ip_filtert) \<times> acl_message option" where
  "access_list argv add cli fs =
     (if length argv \<noteq> 2 then (cli, fs, Some Specify_type_and_name)
      else if \<not> MATCH ''standard'' (argv ! 0) \<and> \<not> MATCH ''extended'' (argv ! 0)
      then (cli, fs, Some Invalid_type)
      else
        let extended = (\<not> MATCH ''standard'' (argv ! 0)); name = argv ! 1 in
        if \<not> name_ok name then (cli, fs, Some Invalid_name)
        else
          let filt = find_filter fs name; f = nat filt; cli1 = cli\<lparr>cli_filt := filt\<rparr> in
          if add then
            if filt < 0 then (cli1, fs, Some Too_many_lists)
            else if fi_name (fs f) = [] then
              (cli1\<lparr>cli_nacl := True\<rparr>, fs(f := filter_zero\<lparr>fi_name := name, fi_extended := extended\<rparr>), None)
            else if fi_extended (fs f) \<noteq> extended then (cli1, fs, Some List_is_other_type)
            else (cli1\<lparr>cli_nacl := True\<rparr>, fs, None)
          else if filt < 0 \<or> fi_name (fs f) = [] then (cli1, fs, Some Not_defined)
          else if fi_used (fs f) \<noteq> 0 then (cli1, fs, Some In_use)
          else (cli1, fs(f := filter_zero), None))"

text \<open>Appending a rule, in a list that always keeps its last rule empty.\<close>

definition same_rule :: "ip_filter_rulet \<Rightarrow> ip_filter_rulet \<Rightarrow> bool" where
  "same_rule r rule \<longleftrightarrow> r\<lparr>ru_counter := 0\<rparr> = rule\<lparr>ru_counter := 0\<rparr>"

fun append_rule :: "ip_filter_rulet \<Rightarrow> (nat \<Rightarrow> ip_filter_rulet) \<Rightarrow> nat list \<Rightarrow> (nat \<Rightarrow> ip_filter_rulet) option" where
  "append_rule rule rules [] = None"
| "append_rule rule rules (i # is) =
     (if ru_action (rules i) = ACTION_NONE then Some (rules(i := rule))
      else if same_rule (rules i) rule then Some rules
      else append_rule rule rules is)"

definition cmd_ip_access_list_rule ::
    "string \<Rightarrow> string list \<Rightarrow> cli_def \<Rightarrow> (nat \<Rightarrow> ip_filtert) \<Rightarrow> (nat \<Rightarrow> ip_filtert) \<times> acl_message option" where
  "cmd_ip_access_list_rule command argv cli fs =
     (let f = nat (cli_filt cli) in
      case (if fi_extended (fs f) then access_list_rule_ext command argv
            else access_list_rule_std command argv) of
        Inl e \<Rightarrow> (fs, Some (Rule_error e))
      | Inr rule \<Rightarrow>
          (case append_rule rule (fi_rules (fs f)) [0..<MAXFILTER_RULES - 1] of
             None \<Rightarrow> (fs, Some Too_many_rules)
           | Some rules \<Rightarrow> (fs(f := (fs f)\<lparr>fi_rules := rules\<rparr>), None)))"

end
