(* ===== verification/AclText.thy ===== *)
theory AclText
  imports Acl
begin

text \<open>
  Access lists as text: numbers and addresses printed and read back, the words of a printed rule,
  and the round trip of a rule through \<open>show_access_list_rule\<close> and the parser.
\<close>

subsection \<open>Words of a line\<close>

fun words_from :: "string \<Rightarrow> string \<Rightarrow> string list" where
  "words_from w [] = (if w = [] then [] else [rev w])"
| "words_from w (c # s) =
     (if c = CHR '' ''
      then if w = [] then words_from [] s else rev w # words_from [] s
      else words_from (c # w) s)"

definition words :: "string \<Rightarrow> string list" where
  "words s = words_from [] s"

definition spaced :: "string list \<Rightarrow> string" where
  "spaced ws = concat (map (\<lambda>w. CHR '' '' # w) ws)"

definition is_word :: "string \<Rightarrow> bool" where
  "is_word w \<longleftrightarrow> w \<noteq> [] \<and> CHR '' '' \<notin> set w"

lemma words_from_word: "CHR '' '' \<notin> set v \<Longrightarrow> words_from w (v @ s) = words_from (rev v @ w) s"
  by (induction v arbitrary: w) auto

lemma words_from_spaced:
  "list_all is_word ws \<Longrightarrow> words_from w (spaced ws) = (if w = [] then [] else [rev w]) @ ws"
  by (induction ws arbitrary: w) (auto simp: spaced_def is_word_def words_from_word)

lemma words_spaced: "list_all is_word ws \<Longrightarrow> words (spaced ws) = ws"
  by (simp add: words_def words_from_spaced)

lemma spaced_simps [simp]:
  "spaced [] = []" "spaced (w # ws) = CHR '' '' # w @ spaced ws" "spaced (vs @ ws) = spaced vs @ spaced ws"
  by (simp_all add: spaced_def)

subsection \<open>Decimal numbers\<close>

lemma of_char_digit: "n < 10 \<Longrightarrow> of_char (digit n) = 48 + n"
  by (simp add: digit_def of_char_of)

lemma digit_0: "digit 0 = CHR ''0''"
proof -
  have "digit 0 = char_of (of_char CHR ''0'' :: nat)"
    by (simp only: digit_def of_char_Char) simp
  then show ?thesis by (simp only: char_of_char)
qed

lemma digit_val_digit [simp]: "n < 10 \<Longrightarrow> digit_val (digit n) = n"
  by (simp add: digit_val_def of_char_digit)

lemma digit_val_bound: "n < 10 \<Longrightarrow> digit n \<noteq> c" if "10 \<le> digit_val c"
  using that by (metis digit_val_digit not_le)

definition decimal :: "string \<Rightarrow> bool" where
  "decimal s \<longleftrightarrow> s \<noteq> [] \<and> (\<forall>c \<in> set s. isdigit c)"

lemma decimal_dec [simp]: "decimal (dec n)"
  by (induction n rule: dec.induct)
    (subst (1) dec.simps, auto simp: decimal_def isdigit_def intro!: less_le_trans[of _ 10])

lemma num_val_append: "num_val b (s @ [c]) = num_val b s * int b + int (digit_val c)"
  by (simp add: num_val_def)

lemma num_val_dec [simp]: "num_val 10 (dec n) = int n"
proof (induction n rule: dec.induct)
  case (1 n)
  show ?case
  proof (cases "n < 10")
    case True
    then show ?thesis by (subst dec.simps) (simp add: num_val_def)
  next
    case False
    have "dec n = dec (n div 10) @ [digit (n mod 10)]"
      using False by (subst dec.simps) simp
    then have "num_val 10 (dec n) = int (n div 10) * 10 + int (n mod 10)"
      using 1[OF False] by (simp only: num_val_append) simp
    moreover have "int (n div 10) * 10 + int (n mod 10) = int n"
      by (metis div_mult_mod_eq of_nat_add of_nat_mult of_nat_numeral)
    ultimately show ?thesis by simp
  qed
qed

lemma hd_dec: "hd (dec n) = CHR ''0'' \<longleftrightarrow> n = 0"
proof (induction n rule: dec.induct)
  case (1 n)
  have z: "digit m = CHR ''0'' \<longleftrightarrow> m = 0" if "m < 10" for m
  proof
    assume "digit m = CHR ''0''"
    then have "digit_val (digit m) = digit_val (digit 0)" by (simp only: digit_0)
    then show "m = 0" using that by simp
  qed (simp add: digit_0)
  show ?case
    using 1 z[of n] decimal_dec[of "n div 10"]
    by (subst dec.simps) (auto simp: decimal_def)
qed

lemma length_dec: "n < 10 ^ Suc k \<Longrightarrow> length (dec n) \<le> Suc k"
proof (induction k arbitrary: n)
  case 0
  then show ?case by (subst dec.simps) simp
next
  case (Suc k)
  have "n div 10 < 10 ^ Suc k"
    using Suc.prems by (simp add: less_mult_imp_div_less)
  then show ?case
    using Suc.IH[of "n div 10"] by (subst dec.simps) simp
qed

lemma takeWhile_decimal:
  assumes "decimal s" "rest = [] \<or> \<not> isdigit (hd rest)"
  shows "takeWhile isdigit (s @ rest) = s" "dropWhile isdigit (s @ rest) = rest"
proof -
  have "takeWhile isdigit rest = []" "dropWhile isdigit rest = rest"
    using assms(2) by (cases rest; auto)+
  then show "takeWhile isdigit (s @ rest) = s" "dropWhile isdigit (s @ rest) = rest"
    using assms(1) by (simp_all add: decimal_def takeWhile_append dropWhile_append)
qed

lemma digits10: "(\<lambda>c. digit_val c < 10) = isdigit"
  by (simp add: isdigit_def fun_eq_iff)

lemma strtoul_digits_10: "strtoul_digits 10 s = (num_val 10 (takeWhile isdigit s), dropWhile isdigit s)"
  by (simp add: strtoul_digits_def digits10)

lemma isdigit_dot [simp]: "\<not> isdigit CHR ''.''"
  by (simp add: isdigit_def digit_val_def)

lemma dec_0: "dec 0 = ''0''"
  by (subst dec.simps) (simp add: digit_0)

lemma strtoul0_dec:
  assumes "rest = [] \<or> hd rest = CHR ''.''"
  shows "strtoul0 (dec n @ rest) = (int n, rest)"
proof -
  have rest: "rest = [] \<or> \<not> isdigit (hd rest)"
    using assms by auto
  have ten: "strtoul_digits 10 (dec n @ rest) = (int n, rest)"
    by (simp add: strtoul_digits_10 takeWhile_decimal rest)
  show ?thesis
  proof (cases "n = 0")
    case True
    show ?thesis
    proof (cases rest)
      case Nil
      then show ?thesis using ten by (simp add: True dec_0)
    next
      case (Cons c s)
      then have "c = CHR ''.''" using assms by simp
      then show ?thesis
        by (simp add: True dec_0 Cons strtoul_digits_def digit_val_def num_val_def)
    qed
  next
    case False
    then have "hd (dec n) \<noteq> CHR ''0''" "dec n \<noteq> []"
      using hd_dec decimal_dec[of n] by (auto simp: decimal_def)
    then obtain c s where c: "dec n = c # s" "c \<noteq> CHR ''0''"
      by (cases "dec n") auto
    show ?thesis
      using ten c by (cases "s @ rest") auto
  qed
qed

lemma atoi_dec:
  assumes "n < 65536"
  shows "atoi (dec n) = int n"
proof -
  have d: "decimal (dec n)" by simp
  then obtain c s where c: "dec n = c # s" "isdigit c"
    by (cases "dec n") (auto simp: decimal_def)
  have "\<not> isspace c" "c \<noteq> CHR ''-''" "c \<noteq> CHR ''+''"
    using c(2) by (auto simp: isspace_def isdigit_def digit_val_def Let_def split: if_splits)
  moreover have tw: "takeWhile isdigit (dec n) = dec n"
    using takeWhile_decimal(1)[OF d, of "[]"] by simp
  moreover have "dropWhile isspace (dec n) = dec n" "hd (dec n) = c"
    using calculation(1) by (simp_all add: c(1))
  ultimately have "atoi (dec n) = sint (word_of_int (min (2 ^ 63 - 1) (int n)) :: u32)"
    by (simp add: atoi_def Let_def tw)
  also have "\<dots> = int n"
  proof -
    have "min (2 ^ 63 - 1) (int n) = int n" using assms by simp
    moreover have "signed_take_bit 31 (int n) = int n"
      using assms by (intro signed_take_bit_int_eq_self) simp_all
    moreover have "sint (word_of_int (int n) :: u32) = signed_take_bit 31 (int n)"
      by (simp only: signed_of_int) simp
    ultimately show ?thesis by simp
  qed
  finally show ?thesis .
qed

subsection \<open>Addresses\<close>

lemma word_bytes:
  "word_of_int (((int (unat (ucast (drop_bit 24 a) :: u8)) * 256 + int (unat (ucast (drop_bit 16 a) :: u8))) * 256
     + int (unat (ucast (drop_bit 8 a) :: u8))) * 256 + int (unat (ucast a :: u8))) = (a :: in_addr)"
proof -
  have byte: "int (unat (ucast (drop_bit k a) :: u8)) = uint a div 2 ^ k mod 256" for k
  proof -
    have "uint (ucast (drop_bit k a) :: u8) = take_bit 8 (uint (drop_bit k a))"
      by (simp add: unsigned_ucast_eq)
    also have "\<dots> = take_bit 8 (drop_bit k (uint a))"
      using uint_lt2p[of a] take_bit_int_eq_self[of "uint a" 32] by (simp only: unsigned_drop_bit_eq) simp
    also have "\<dots> = uint a div 2 ^ k mod 256"
      by (simp add: take_bit_eq_mod drop_bit_eq_div)
    finally show ?thesis by (simp only: uint_nat)
  qed
  have u: "0 \<le> uint a" "uint a < 4294967296"
    using uint_lt2p[of a] by simp_all
  define n where "n = uint a"
  have eq: "((n div 2 ^ 24 mod 256 * 256 + n div 2 ^ 16 mod 256) * 256 + n div 2 ^ 8 mod 256) * 256 + n mod 256 = n"
  proof -
    have d: "n div 2 ^ 16 div 256 = n div 2 ^ 24" "n div 2 ^ 8 div 256 = n div 2 ^ 16"
      using zdiv_zmult2_eq[of 256 n "2 ^ 16"] zdiv_zmult2_eq[of 256 n "2 ^ 8"] by simp_all
    have "256 * (n div 2 ^ 24) + n div 2 ^ 16 mod 256 = n div 2 ^ 16"
      using mult_div_mod_eq[of 256 "n div 2 ^ 16"] by (simp only: d)
    moreover have "256 * (n div 2 ^ 16) + n div 2 ^ 8 mod 256 = n div 2 ^ 8"
      using mult_div_mod_eq[of 256 "n div 2 ^ 8"] by (simp only: d)
    moreover have "256 * (n div 2 ^ 8) + n mod 256 = n"
      using mult_div_mod_eq[of 256 n] by simp
    moreover have "n div 2 ^ 24 mod 256 = n div 2 ^ 24"
      using u unfolding n_def[symmetric] by (intro mod_pos_pos_trivial) simp_all
    ultimately show ?thesis by (metis mult.commute)
  qed
  have b0: "int (unat (ucast a :: u8)) = n mod 256"
    using byte[of 0] by (simp add: n_def)
  show ?thesis
    unfolding byte b0 n_def[symmetric] eq by (simp add: n_def)
qed

lemma unat_u8 [simp]: "unat (x :: u8) < 256"
  using unsigned_less[of x] by simp

lemma inet_aton_step:
  assumes "n < 256" "rest = [] \<or> hd rest = CHR ''.''" "length parts \<le> 3"
  shows "inet_aton_from (dec n @ rest) parts =
    (if rest \<noteq> [] then if length parts > 2 then None else inet_aton_from (tl rest) (parts @ [int n])
     else Some (word_of_int (foldl (\<lambda>v p. v * 256 + p) 0 parts * 256 ^ (4 - length parts) + int n)))"
proof -
  obtain k where k: "4 - length parts = Suc k"
    using assms(3) by (cases "4 - length parts") auto
  have "(1::int) \<le> 256 ^ k" by simp
  then have "int n < 256 ^ (4 - length parts)"
    using assms(1) unfolding k power_Suc by linarith
  moreover have "isdigit (hd (dec n))" "dec n \<noteq> []"
    using decimal_dec[of n] by (auto simp: decimal_def)
  ultimately show ?thesis
    using assms strtoul0_dec[OF assms(2), of n]
    by (subst inet_aton_from.simps) auto
qed

lemma inet_aton_ntoa [simp]: "inet_aton (inet_ntoa a) = Some a"
  using word_bytes[of a]
  by (simp add: inet_aton_def inet_ntoa_def Let_def inet_aton_step[OF unat_u8]
      inet_aton_step[OF unat_u8, where rest = "[]", simplified])

lemma decimal_no_space: "decimal s \<Longrightarrow> CHR '' '' \<notin> set s"
  by (auto simp: decimal_def isdigit_def digit_val_def)

lemma is_word_dec [simp]: "is_word (dec n)"
  using decimal_no_space[OF decimal_dec[of n]] decimal_dec[of n] by (auto simp: is_word_def decimal_def)

lemma is_word_ntoa [simp]: "is_word (inet_ntoa a)"
  using decimal_no_space[OF decimal_dec] by (simp add: is_word_def inet_ntoa_def Let_def)

lemma length_ntoa: "length (inet_ntoa a) \<le> 15"
proof -
  have d: "length (dec (unat (x :: u8))) \<le> 3" for x
    using length_dec[of "unat x" 2] unat_u8[of x] by simp
  have "length (inet_ntoa a) = (\<Sum>k\<leftarrow>[24, 16, 8, 0]. length (dec (unat (ucast (drop_bit k a) :: u8)))) + 3"
    by (simp add: inet_ntoa_def Let_def)
  also have "\<dots> \<le> 15"
    using d[of "ucast (drop_bit 24 a)"] d[of "ucast (drop_bit 16 a)"] d[of "ucast (drop_bit 8 a)"]
      d[of "ucast (drop_bit 0 a)"] by simp
  finally show ?thesis .
qed

subsection \<open>The words of a rule\<close>

definition wild_words :: "in_addr \<Rightarrow> in_addr \<Rightarrow> string list" where
  "wild_words ip wild =
     (if ip = 0 \<and> wild = INADDR_BROADCAST then [''any'']
      else if wild = 0 then [''host'', inet_ntoa ip]
      else [inet_ntoa ip, inet_ntoa wild])"

definition port_op_name :: "port_op \<Rightarrow> string" where
  "port_op_name op =
     (case op of PORT_EQ \<Rightarrow> ''eq'' | PORT_NEQ \<Rightarrow> ''neq'' | PORT_GT \<Rightarrow> ''gt'' | PORT_LT \<Rightarrow> ''lt''
      | PORT_RANGE \<Rightarrow> ''range'' | PORT_NONE \<Rightarrow> [])"

definition ports_words :: "ip_filter_portt \<Rightarrow> string list" where
  "ports_words p =
     (if po_op p = PORT_NONE then []
      else [port_op_name (po_op p), dec (unat (po_port p))] @
           (if po_op p = PORT_RANGE then [dec (unat (po_port2 p))] else []))"

definition flag_words :: "ip_filter_rulet \<Rightarrow> u8 \<times> string \<Rightarrow> string list" where
  "flag_words r fn =
     (if ru_sflags r AND fst fn \<noteq> 0 then [CHR ''+'' # snd fn] else []) @
     (if ru_cflags r AND fst fn \<noteq> 0 then [CHR ''-'' # snd fn] else [])"

definition flag_names :: "(u8 \<times> string) list" where
  "flag_names = [(TCP_FLAG_FIN, ''fin''), (TCP_FLAG_SYN, ''syn''), (TCP_FLAG_RST, ''rst''),
                 (TCP_FLAG_PSH, ''psh''), (TCP_FLAG_ACK, ''ack''), (TCP_FLAG_URG, ''urg'')]"

definition flags_words :: "ip_filter_rulet \<Rightarrow> string list" where
  "flags_words r =
     (case ru_flag_op r of
        FLAG_NONE \<Rightarrow> []
      | FLAG_EST \<Rightarrow> [''established'']
      | FLAG_ANY \<Rightarrow> ''match-any'' # concat (map (flag_words r) flag_names)
      | FLAG_ALL \<Rightarrow> ''match-all'' # concat (map (flag_words r) flag_names))"

definition proto_name :: "u8 \<Rightarrow> string" where
  "proto_name p = (if p = IPPROTO_TCP then ''tcp'' else if p = IPPROTO_UDP then ''udp'' else ''ip'')"

definition rule_words :: "bool \<Rightarrow> ip_filter_rulet \<Rightarrow> string list" where
  "rule_words extended r =
     (if extended
      then [proto_name (ru_proto r)] @ wild_words (ru_src_ip r) (ru_src_wild r) @
           ports_words (ru_src_ports r) @ wild_words (ru_dst_ip r) (ru_dst_wild r) @
           ports_words (ru_dst_ports r) @ flags_words r @ (if ru_frag r then [''fragments''] else [])
      else wild_words (ru_src_ip r) (ru_src_wild r))"

definition action_name :: "filter_action \<Rightarrow> string" where
  "action_name a = (if a = PERMIT then ''permit'' else ''deny'')"

text \<open>The rules that parsing produces.\<close>

definition ports_wf :: "u8 \<Rightarrow> ip_filter_portt \<Rightarrow> bool" where
  "ports_wf proto p \<longleftrightarrow>
     p = ports_zero \<or>
     is_l4 proto \<and> po_op p \<noteq> PORT_NONE \<and> po_port p \<noteq> 0 \<and>
     (if po_op p = PORT_RANGE then po_port2 p \<noteq> 0 \<and> po_port p \<le> po_port2 p else po_port2 p = 0)"

definition flags_wf :: "u8 \<Rightarrow> flag_op \<Rightarrow> u8 \<Rightarrow> u8 \<Rightarrow> bool" where
  "flags_wf proto op sf cf \<longleftrightarrow>
     (op \<noteq> FLAG_NONE \<longrightarrow> proto = IPPROTO_TCP) \<and>
     (if op = FLAG_ANY \<or> op = FLAG_ALL
      then sf AND 0x3f = sf \<and> cf AND 0x3f = cf
      else sf = 0 \<and> cf = 0)"

definition flags_given :: "ip_filter_rulet \<Rightarrow> bool" where
  "flags_given r \<longleftrightarrow>
     (ru_flag_op r = FLAG_ANY \<or> ru_flag_op r = FLAG_ALL \<longrightarrow> ru_sflags r \<noteq> 0 \<or> ru_cflags r \<noteq> 0)"

definition rule_wf :: "bool \<Rightarrow> ip_filter_rulet \<Rightarrow> bool" where
  "rule_wf extended r \<longleftrightarrow>
     ru_action r \<noteq> ACTION_NONE \<and>
     (if extended
      then ru_proto r \<in> {IPPROTO_IP, IPPROTO_TCP, IPPROTO_UDP} \<and>
           ports_wf (ru_proto r) (ru_src_ports r) \<and> ports_wf (ru_proto r) (ru_dst_ports r) \<and>
           flags_wf (ru_proto r) (ru_flag_op r) (ru_sflags r) (ru_cflags r) \<and> flags_given r \<and>
           (ru_frag r \<longrightarrow> \<not> l4_rule r)
      else \<exists>a ip wild c. r = rule_zero\<lparr>ru_action := a, ru_src_ip := ip, ru_src_wild := wild, ru_counter := c\<rparr>)"

subsection \<open>Parsing produces such rules\<close>

lemma sbind_Inr [simp]: "sbind m f = Inr b \<longleftrightarrow> (\<exists>a. m = Inr a \<and> f a = Inr b)"
  by (cases m) auto

lemma parse_proto_cases: "parse_proto w = Some p \<Longrightarrow> p \<in> {IPPROTO_IP, IPPROTO_TCP, IPPROTO_UDP}"
  by (auto simp: parse_proto_def split: if_splits)

lemma proto_l4: "p \<in> {IPPROTO_IP, IPPROTO_TCP, IPPROTO_UDP} \<Longrightarrow> p = IPPROTO_IP \<or> is_l4 p"
  by (auto simp: is_l4_def)

lemma parse_ports_wf:
  assumes "parse_ports proto ws = Inr (p, rest)" "proto = IPPROTO_IP \<or> is_l4 proto"
  shows "ports_wf proto p"
proof (cases ws)
  case Nil
  then show ?thesis using assms by (simp add: ports_wf_def)
next
  case (Cons w vs)
  then show ?thesis
    using assms
    by (auto simp: ports_wf_def Let_def not_less split: if_splits list.splits)
qed

lemma flag_word_bits: "flag_word w = Some f \<Longrightarrow> f AND 0x3f = f"
  by (auto simp: flag_word_def TCP_FLAG_FIN_def TCP_FLAG_SYN_def TCP_FLAG_RST_def TCP_FLAG_PSH_def
      TCP_FLAG_ACK_def TCP_FLAG_URG_def split: if_splits)

lemma flag_word_nonzero: "flag_word w = Some f \<Longrightarrow> f \<noteq> 0"
  by (auto simp: flag_word_def TCP_FLAG_FIN_def TCP_FLAG_SYN_def TCP_FLAG_RST_def TCP_FLAG_PSH_def
      TCP_FLAG_ACK_def TCP_FLAG_URG_def split: if_splits)

lemma or_bits: "(a :: u8) AND m = a \<Longrightarrow> b AND m = b \<Longrightarrow> (a OR b) AND m = a OR b"
  by (simp add: bit.conj_disj_distrib2)

lemma parse_flag_words_bits:
  "parse_flag_words sf cf ws = Inr ((sf', cf'), rest) \<Longrightarrow> sf AND 0x3f = sf \<Longrightarrow> cf AND 0x3f = cf \<Longrightarrow>
   sf' AND 0x3f = sf' \<and> cf' AND 0x3f = cf'"
  by (induction sf cf ws rule: parse_flag_words.induct)
    (auto split: if_splits option.splits intro: or_bits dest: flag_word_bits)

lemma or_nonzero: "(a :: u8) \<noteq> 0 \<Longrightarrow> a OR b \<noteq> 0 \<and> b OR a \<noteq> 0"
  by (metis or.right_neutral or_eq_0_iff)

lemma parse_flag_words_keep:
  "parse_flag_words sf cf ws = Inr ((sf', cf'), rest) \<Longrightarrow> sf \<noteq> 0 \<or> cf \<noteq> 0 \<Longrightarrow> sf' \<noteq> 0 \<or> cf' \<noteq> 0"
  by (induction sf cf ws rule: parse_flag_words.induct)
    (auto split: if_splits option.splits simp: or_nonzero)

lemma parse_flag_words_none:
  "parse_flag_words 0 0 ws = Inr ((0, 0), rest) \<Longrightarrow> rest = ws"
proof (cases ws)
  case (Cons w vs)
  assume *: "parse_flag_words 0 0 ws = Inr ((0, 0), rest)"
  show ?thesis
  proof (cases "take 1 w = ''+'' \<or> take 1 w = ''-''")
    case True
    then obtain f where "flag_word (tl w) = Some f"
      using * Cons by (auto split: option.splits)
    then show ?thesis
      using * Cons True parse_flag_words_keep[of _ _ vs 0 0 rest] flag_word_nonzero
      by (fastforce split: if_splits)
  qed (use * Cons in simp)
qed simp

lemma parse_flags_wf:
  assumes "parse_flags proto ws = Inr ((op, sf, cf), rest)"
  shows "flags_wf proto op sf cf"
    and "op = FLAG_ANY \<or> op = FLAG_ALL \<Longrightarrow> sf = 0 \<Longrightarrow> cf = 0 \<Longrightarrow> rest \<noteq> []"
proof -
  show "flags_wf proto op sf cf"
    using assms
    by (cases ws)
      (auto simp: flags_wf_def Let_def split: if_splits sum.splits prod.splits dest: parse_flag_words_bits)
  show "op = FLAG_ANY \<or> op = FLAG_ALL \<Longrightarrow> sf = 0 \<Longrightarrow> cf = 0 \<Longrightarrow> rest \<noteq> []"
    using assms
    by (cases ws)
      (auto simp: Let_def split: if_splits sum.splits prod.splits dest: parse_flag_words_none)
qed

lemma parse_end_cases:
  "parse_end r ws = Inr r' \<Longrightarrow> ws = [] \<and> r' = r \<or> ws \<noteq> [] \<and> \<not> l4_rule r \<and> r' = r\<lparr>ru_frag := True\<rparr>"
  by (cases ws) (auto split: if_splits list.splits)

lemma rule_command_some: "rule_command c \<noteq> ACTION_NONE"
  by (simp add: rule_command_def)

lemma access_list_rule_ext_wf:
  assumes "access_list_rule_ext command argv = Inr r"
  shows "rule_wf True r \<and> ru_counter r = 0"
proof -
  from assms obtain proto sip swild ws1 sp ws2 dip dwild ws3 dp ws4 op sf cf ws5 where
    p: "parse_proto (hd argv) = Some proto" and
    sp: "parse_ports proto ws1 = Inr (sp, ws2)" and
    dp: "parse_ports proto ws3 = Inr (dp, ws4)" and
    fl: "parse_flags proto ws4 = Inr ((op, sf, cf), ws5)" and
    e: "parse_end (rule_zero\<lparr>ru_action := rule_command command, ru_proto := proto, ru_src_ip := sip,
          ru_src_wild := swild, ru_src_ports := sp, ru_dst_ip := dip, ru_dst_wild := dwild,
          ru_dst_ports := dp, ru_flag_op := op, ru_sflags := sf, ru_cflags := cf\<rparr>) ws5 = Inr r"
    unfolding access_list_rule_ext_def by (fastforce split: if_splits option.splits)
  have proto: "proto \<in> {IPPROTO_IP, IPPROTO_TCP, IPPROTO_UDP}" "proto = IPPROTO_IP \<or> is_l4 proto"
    using parse_proto_cases[OF p] proto_l4 by blast+
  have wf: "ports_wf proto sp" "ports_wf proto dp"
    using parse_ports_wf[OF sp proto(2)] parse_ports_wf[OF dp proto(2)] by simp_all
  show ?thesis
    using parse_end_cases[OF e] proto(1) wf parse_flags_wf[OF fl] rule_command_some
    by (auto simp: rule_wf_def flags_given_def l4_rule_def rule_zero_def)
qed

lemma access_list_rule_std_wf:
  assumes "access_list_rule_std command argv = Inr r"
  shows "rule_wf False r \<and> ru_counter r = 0"
proof -
  have "\<exists>ip wild. r = rule_zero\<lparr>ru_action := rule_command command, ru_src_ip := ip, ru_src_wild := wild\<rparr>"
    using assms
    by (cases argv; simp add: Let_def split: if_splits list.splits option.splits)
      (auto simp: rule_zero_def)
  then obtain ip wild where
    r: "r = rule_zero\<lparr>ru_action := rule_command command, ru_src_ip := ip, ru_src_wild := wild\<rparr>"
    by blast
  then have "r = rule_zero\<lparr>ru_action := rule_command command, ru_src_ip := ip, ru_src_wild := wild,
      ru_counter := 0\<rparr>"
    by (simp add: rule_zero_def)
  then show ?thesis
    unfolding rule_wf_def using rule_command_some[of command] by (auto simp: r rule_zero_def)
qed

subsection \<open>A printed rule is its words\<close>

definition proto_db :: "(u8 \<Rightarrow> string option) \<Rightarrow> bool" where
  "proto_db protoname \<longleftrightarrow> protoname 0 = Some ''ip'' \<and> protoname 6 = Some ''tcp'' \<and> protoname 17 = Some ''udp''"

lemma show_ip_wild_words: "show_ip_wild ip wild = spaced (wild_words ip wild)"
  by (simp add: show_ip_wild_def wild_words_def)

lemma show_ports_words: "show_ports p = spaced (ports_words p)"
  by (cases "po_op p") (simp_all add: show_ports_def ports_words_def port_op_name_def)

lemma show_flag_words: "show_flag r f name = spaced (flag_words r (f, name))"
  by (simp add: show_flag_def flag_words_def)

lemma show_flags_words: "show_flags r = spaced (flags_words r)"
  by (cases "ru_flag_op r") (simp_all add: show_flags_def flags_words_def flag_names_def show_flag_words)

lemma show_rule_words:
  assumes "proto_db protoname" "rule_wf extended r"
  shows "show_access_list_rule protoname extended r =
         spaced (action_name (ru_action r) # rule_words extended r)"
proof (cases extended)
  case True
  then have p: "ru_proto r \<in> {IPPROTO_IP, IPPROTO_TCP, IPPROTO_UDP}"
    and ports: "\<not> is_l4 (ru_proto r) \<Longrightarrow> ports_words (ru_src_ports r) = [] \<and> ports_words (ru_dst_ports r) = []"
    and flags: "ru_proto r \<noteq> IPPROTO_TCP \<Longrightarrow> flags_words r = []"
    using assms(2) by (auto simp: rule_wf_def ports_wf_def flags_wf_def ports_words_def ports_zero_def
        flags_words_def)
  have "(case protoname (ru_proto r) of Some n \<Rightarrow> n | None \<Rightarrow> ''ERR'') = proto_name (ru_proto r)"
    using p assms(1) by (auto simp: proto_db_def proto_name_def IPPROTO_IP_def IPPROTO_TCP_def IPPROTO_UDP_def)
  then show ?thesis
    using True ports flags
    by (auto simp: show_access_list_rule_def rule_words_def action_name_def show_ip_wild_words
        show_ports_words show_flags_words)
next
  case False
  then show ?thesis
    by (simp add: show_access_list_rule_def rule_words_def action_name_def show_ip_wild_words)
qed

lemma is_word_literals [simp]: "is_word (c # w) \<longleftrightarrow> c \<noteq> CHR '' '' \<and> CHR '' '' \<notin> set w"
  by (auto simp: is_word_def)

lemma rule_words_are_words:
  "list_all is_word (action_name (ru_action r) # rule_words extended r)"
proof -
  have "list_all is_word (wild_words ip wild)" for ip wild
    by (simp add: wild_words_def)
  moreover have "list_all is_word (ports_words p)" for p
    by (cases "po_op p") (simp_all add: ports_words_def port_op_name_def)
  moreover have "list_all is_word (flags_words r)"
  proof -
    have "\<forall>fn \<in> set flag_names. is_word (CHR ''+'' # snd fn) \<and> is_word (CHR ''-'' # snd fn)"
      by code_simp
    then have "list_all is_word (concat (map (flag_words r) flag_names))"
      by (auto simp: list_all_iff flag_words_def split: if_splits)
    then show ?thesis
      by (cases "ru_flag_op r") (simp_all add: flags_words_def)
  qed
  ultimately show ?thesis
    by (simp add: rule_words_def action_name_def proto_name_def)
qed

subsection \<open>Parsing the words back\<close>

lemma MATCH_hd: "MATCH a w \<Longrightarrow> w \<noteq> [] \<Longrightarrow> a \<noteq> [] \<and> hd a = hd w"
  by (cases a; cases w) (auto simp: MATCH_def)

lemma hd_ntoa: "isdigit (hd (inet_ntoa a))"
proof -
  have "hd (inet_ntoa a) = hd (dec (unat (ucast (drop_bit 24 a) :: u8)))"
    using decimal_dec by (auto simp: inet_ntoa_def Let_def decimal_def)
  then show ?thesis
    using decimal_dec[of "unat (ucast (drop_bit 24 a) :: u8)"] by (auto simp: decimal_def)
qed

lemma no_MATCH_ntoa [simp]: "a \<noteq> [] \<Longrightarrow> \<not> isdigit (hd a) \<Longrightarrow> \<not> MATCH a (inet_ntoa ip)"
  using MATCH_hd[of a "inet_ntoa ip"] hd_ntoa[of ip] is_word_ntoa[of ip] by (auto simp: is_word_def)

lemma letters [simp]: "\<not> isdigit CHR ''a''" "\<not> isdigit CHR ''h''"
  by (simp_all add: isdigit_def digit_val_def)

lemma parse_ip_wild_words [simp]:
  "parse_ip_wild (wild_words ip wild @ ws) = Inr ((ip, wild), ws)"
  by (simp add: wild_words_def MATCH_def[of _ "''any''"] MATCH_def[of _ "''host''"])

lemma port_word_name: "port_word (port_op_name op) = op" if "op \<noteq> PORT_NONE"
  using that by (cases op) (simp_all add: port_word_def port_op_name_def MATCH_def)

lemma of_int_atoi_dec [simp]: "word_of_int (atoi (dec (unat (p :: u16)))) = p"
proof -
  have "unat p < 65536"
    using unsigned_less[of p] by simp
  then show ?thesis by (simp add: atoi_dec)
qed

lemma parse_ports_words:
  assumes "ports_wf proto p" "proto = IPPROTO_IP \<or> ws = [] \<or> port_word (hd ws) = PORT_NONE"
  shows "parse_ports proto (ports_words p @ ws) = Inr (p, ws)"
proof (cases "p = ports_zero")
  case True
  then show ?thesis
    using assms(2) by (cases ws) (auto simp: ports_words_def ports_zero_def)
next
  case False
  then have p: "is_l4 proto" "po_op p \<noteq> PORT_NONE" "po_port p \<noteq> 0"
    "if po_op p = PORT_RANGE then po_port2 p \<noteq> 0 \<and> po_port p \<le> po_port2 p else po_port2 p = 0"
    using assms(1) by (simp_all add: ports_wf_def)
  have "proto \<noteq> IPPROTO_IP"
    using p(1) by (auto simp: is_l4_def IPPROTO_IP_def IPPROTO_TCP_def IPPROTO_UDP_def)
  moreover have "(if po_op p = PORT_RANGE then p else p\<lparr>po_port2 := 0\<rparr>) = p"
    using p(4) by (cases p) auto
  ultimately show ?thesis
    using p by (cases "po_op p = PORT_RANGE"; cases p) (auto simp: ports_words_def port_word_name Let_def)
qed

lemma flag_word_names: "\<forall>fn \<in> set flag_names. flag_word (snd fn) = Some (fst fn)"
  by code_simp

lemma flag_word_name: "fn \<in> set flag_names \<Longrightarrow> flag_word (snd fn) = Some (fst fn)"
  using flag_word_names by blast

lemma and_bit: "(x :: u8) AND 2 ^ k = (if bit x k then 2 ^ k else 0)"
  by (rule bit_word_eqI) (auto simp: bit_simps)

lemma single_flag:
  assumes "fn \<in> set flag_names"
  shows "x AND fst fn = 0 \<or> x AND fst fn = fst fn" "fst fn \<noteq> 0"
proof -
  have "\<exists>k. fst fn = push_bit k 1"
    using assms
    by (auto simp: flag_names_def TCP_FLAG_FIN_def TCP_FLAG_SYN_def TCP_FLAG_RST_def TCP_FLAG_PSH_def
        TCP_FLAG_ACK_def TCP_FLAG_URG_def
        intro: exI[of _ 0] exI[of _ 1] exI[of _ 2] exI[of _ 3] exI[of _ 4] exI[of _ 5])
  then show "x AND fst fn = 0 \<or> x AND fst fn = fst fn"
    by (auto simp: and_bit split: if_splits)
  show "fst fn \<noteq> 0"
    using flag_word_name[OF assms] flag_word_nonzero by blast
qed

lemma parse_flag_words_step:
  assumes "fn \<in> set flag_names"
  shows "parse_flag_words sf cf (flag_words r fn @ ws) =
         parse_flag_words (sf OR (ru_sflags r AND fst fn)) (cf OR (ru_cflags r AND fst fn)) ws"
  using single_flag(1)[OF assms, of "ru_sflags r"] single_flag(1)[OF assms, of "ru_cflags r"]
  by (elim disjE) (simp_all add: flag_words_def flag_word_name[OF assms] single_flag(2)[OF assms])

lemma parse_flag_words_all:
  assumes "set fns \<subseteq> set flag_names"
  shows "parse_flag_words sf cf (concat (map (flag_words r) fns)) =
         Inr ((fold (\<lambda>fn x. x OR (ru_sflags r AND fst fn)) fns sf,
               fold (\<lambda>fn x. x OR (ru_cflags r AND fst fn)) fns cf), [])"
  using assms
proof (induction fns arbitrary: sf cf)
  case Nil
  then show ?case by simp
next
  case (Cons fn fns)
  then show ?case by (simp add: parse_flag_words_step)
qed

lemma fold_flags: "(a :: u8) AND 0x3f = a \<Longrightarrow> fold (\<lambda>fn x. x OR (a AND fst fn)) flag_names 0 = a"
proof -
  assume "a AND 0x3f = a"
  have "fold (\<lambda>fn x. x OR (a AND fst fn)) flag_names 0 =
        a AND (TCP_FLAG_FIN OR TCP_FLAG_SYN OR TCP_FLAG_RST OR TCP_FLAG_PSH OR TCP_FLAG_ACK OR TCP_FLAG_URG)"
    by (simp add: flag_names_def bit.conj_disj_distrib or.assoc)
  also have "\<dots> = a AND 0x3f"
    by (simp add: TCP_FLAG_FIN_def TCP_FLAG_SYN_def TCP_FLAG_RST_def TCP_FLAG_PSH_def TCP_FLAG_ACK_def
        TCP_FLAG_URG_def)
  finally show ?thesis using \<open>a AND 0x3f = a\<close> by simp
qed

lemma flag_list_nonempty:
  assumes "sf AND 0x3f = ru_sflags r" "cf AND 0x3f = ru_cflags r" "ru_sflags r \<noteq> 0 \<or> ru_cflags r \<noteq> 0"
  shows "concat (map (flag_words r) flag_names) \<noteq> []"
proof
  assume "concat (map (flag_words r) flag_names) = []"
  then have "\<forall>fn \<in> set flag_names. ru_sflags r AND fst fn = 0 \<and> ru_cflags r AND fst fn = 0"
    by (auto simp: flag_words_def split: if_splits)
  then have "fold (\<lambda>fn x. x OR (ru_sflags r AND fst fn)) flag_names 0 = 0"
    "fold (\<lambda>fn x. x OR (ru_cflags r AND fst fn)) flag_names 0 = 0"
    by (simp_all add: flag_names_def)
  moreover have "ru_sflags r AND 0x3f = ru_sflags r" "ru_cflags r AND 0x3f = ru_cflags r"
    using assms(1,2) by (metis and.assoc and.idem)+
  ultimately show False
    using assms(3) by (simp add: fold_flags)
qed

lemma parse_flags_words:
  assumes "flags_wf proto (ru_flag_op r) (ru_sflags r) (ru_cflags r)" "flags_given r"
    "ru_flag_op r \<noteq> FLAG_NONE \<longrightarrow> ws = []"
    "ws = [] \<or> \<not> MATCH ''established'' (hd ws) \<and> hd ws \<notin> {''match-any'', ''match-an'', ''match-all'', ''match-al''}"
  shows "parse_flags proto (flags_words r @ ws) = Inr ((ru_flag_op r, ru_sflags r, ru_cflags r), ws)"
proof (cases "ru_flag_op r")
  case FLAG_NONE
  then show ?thesis
    using assms(1,4) by (cases ws) (auto simp: flags_words_def flags_wf_def)
next
  case FLAG_EST
  then show ?thesis
    using assms(1,3) by (auto simp: flags_words_def flags_wf_def MATCH_def)
next
  case FLAG_ANY
  then have b: "ru_sflags r AND 0x3f = ru_sflags r" "ru_cflags r AND 0x3f = ru_cflags r" "proto = IPPROTO_TCP"
    "ws = []" "concat (map (flag_words r) flag_names) \<noteq> []"
    using assms(1,2,3) flag_list_nonempty[of "ru_sflags r" r "ru_cflags r"]
    by (auto simp: flags_wf_def flags_given_def)
  then show ?thesis
    using FLAG_ANY parse_flag_words_all[of flag_names 0 0 r] fold_flags[OF b(1)] fold_flags[OF b(2)]
    by (auto simp: flags_words_def MATCH_def)
next
  case FLAG_ALL
  then have b: "ru_sflags r AND 0x3f = ru_sflags r" "ru_cflags r AND 0x3f = ru_cflags r" "proto = IPPROTO_TCP"
    "ws = []" "concat (map (flag_words r) flag_names) \<noteq> []"
    using assms(1,2,3) flag_list_nonempty[of "ru_sflags r" r "ru_cflags r"]
    by (auto simp: flags_wf_def flags_given_def)
  then show ?thesis
    using FLAG_ALL parse_flag_words_all[of flag_names 0 0 r] fold_flags[OF b(1)] fold_flags[OF b(2)]
    by (auto simp: flags_words_def MATCH_def)
qed

lemma port_word_wild [simp]: "port_word (hd (wild_words ip wild @ ws)) = PORT_NONE"
proof -
  have "\<not> isdigit CHR ''e''" "\<not> isdigit CHR ''n''" "\<not> isdigit CHR ''g''" "\<not> isdigit CHR ''l''" "\<not> isdigit CHR ''r''"
    by (simp_all add: isdigit_def digit_val_def)
  then have "port_word (inet_ntoa a) = PORT_NONE" for a
    by (simp add: port_word_def)
  moreover have "port_word ''any'' = PORT_NONE" "port_word ''host'' = PORT_NONE"
    by (simp_all add: port_word_def MATCH_def)
  ultimately show ?thesis by (simp add: wild_words_def)
qed

lemma port_word_flags:
  "flags_words r @ (if ru_frag r then [''fragments''] else []) = [] \<or>
   port_word (hd (flags_words r @ (if ru_frag r then [''fragments''] else []))) = PORT_NONE"
  by (cases "ru_flag_op r") (simp_all add: flags_words_def port_word_def MATCH_def)

lemma parse_rule_words_ext:
  assumes "rule_wf True r"
  shows "access_list_rule_ext (action_name (ru_action r)) (rule_words True r) = Inr (r\<lparr>ru_counter := 0\<rparr>)"
proof -
  let ?frag = "if ru_frag r then [''fragments''] else []"
  let ?p = "ru_proto r"
  have wf: "ru_action r \<noteq> ACTION_NONE" "?p \<in> {IPPROTO_IP, IPPROTO_TCP, IPPROTO_UDP}"
    "ports_wf ?p (ru_src_ports r)" "ports_wf ?p (ru_dst_ports r)"
    "flags_wf ?p (ru_flag_op r) (ru_sflags r) (ru_cflags r)" "flags_given r" "ru_frag r \<longrightarrow> \<not> l4_rule r"
    using assms by (simp_all add: rule_wf_def)
  have proto: "parse_proto (proto_name ?p) = Some ?p"
    using wf(2) by (auto simp: parse_proto_def proto_name_def MATCH_def IPPROTO_IP_def IPPROTO_TCP_def
        IPPROTO_UDP_def)
  have act: "rule_command (action_name (ru_action r)) = ru_action r"
    using wf(1) by (cases "ru_action r") (simp_all add: rule_command_def action_name_def)
  have len: "\<not> length (rule_words True r) < 3"
    by (simp add: rule_words_def wild_words_def)
  have sports: "parse_ports ?p (ports_words (ru_src_ports r) @ wild_words ip w @ ws) = Inr (ru_src_ports r, wild_words ip w @ ws)"
    for ip w ws
    by (rule parse_ports_words[OF wf(3)]) simp
  have dports: "parse_ports ?p (ports_words (ru_dst_ports r) @ flags_words r @ ?frag) = Inr (ru_dst_ports r, flags_words r @ ?frag)"
    by (rule parse_ports_words[OF wf(4)]) (use port_word_flags[of r] in blast)
  have none: "ru_flag_op r \<noteq> FLAG_NONE \<longrightarrow> ?frag = []"
    using wf(7) by (auto simp: l4_rule_def)
  have flags: "parse_flags ?p (flags_words r @ ?frag) = Inr ((ru_flag_op r, ru_sflags r, ru_cflags r), ?frag)"
    by (rule parse_flags_words[OF wf(5,6) none]) (simp add: MATCH_def)
  have fin: "parse_end (r\<lparr>ru_frag := False, ru_counter := 0\<rparr>) ?frag = Inr (r\<lparr>ru_counter := 0\<rparr>)"
    using wf(7) by (cases r) (auto simp: l4_rule_def MATCH_def)
  have rec: "rule_zero\<lparr>ru_action := ru_action r, ru_proto := ?p, ru_src_ip := ru_src_ip r,
      ru_src_wild := ru_src_wild r, ru_src_ports := ru_src_ports r, ru_dst_ip := ru_dst_ip r,
      ru_dst_wild := ru_dst_wild r, ru_dst_ports := ru_dst_ports r, ru_flag_op := ru_flag_op r,
      ru_sflags := ru_sflags r, ru_cflags := ru_cflags r\<rparr> = r\<lparr>ru_frag := False, ru_counter := 0\<rparr>"
    by (cases r) (simp add: rule_zero_def)
  have "rule_words True r = proto_name ?p # wild_words (ru_src_ip r) (ru_src_wild r) @
      ports_words (ru_src_ports r) @ wild_words (ru_dst_ip r) (ru_dst_wild r) @
      ports_words (ru_dst_ports r) @ flags_words r @ ?frag"
    by (simp add: rule_words_def)
  then show ?thesis
    using len
    by (simp add: access_list_rule_ext_def proto sports dports flags act rec fin del: parse_end.simps)
qed

lemma parse_rule_words_std:
  assumes "rule_wf False r"
  shows "access_list_rule_std (action_name (ru_action r)) (rule_words False r) = Inr (r\<lparr>ru_counter := 0\<rparr>)"
proof -
  from assms obtain a ip wild c where
    r: "r = rule_zero\<lparr>ru_action := a, ru_src_ip := ip, ru_src_wild := wild, ru_counter := c\<rparr>"
    and a: "a \<noteq> ACTION_NONE"
    by (auto simp: rule_wf_def)
  have act: "rule_command (action_name a) = a"
    using a by (cases a) (simp_all add: rule_command_def action_name_def)
  show ?thesis
    by (auto simp: r rule_words_def wild_words_def act MATCH_def[of _ "''any''"] MATCH_def[of _ "''host''"]
        Let_def rule_zero_def)
qed

lemma length_spaced: "length (spaced ws) = (\<Sum>w \<leftarrow> ws. Suc (length w))"
  by (induction ws) auto

lemma length_wild_words: "length (spaced (wild_words ip wild)) \<le> 32"
  using length_ntoa[of ip] length_ntoa[of wild] by (simp add: wild_words_def)

lemma length_ports_words: "length (spaced (ports_words p)) \<le> 18"
proof -
  have "unat (x :: u16) < 65536" for x
    using unsigned_less[of x] by simp
  then have "length (dec (unat (x :: u16))) \<le> 5" for x
    using length_dec[of "unat x" 4] less_trans[of "unat x" 65536 "10 ^ 5"] by simp
  from this[of "po_port p"] this[of "po_port2 p"] show ?thesis
    by (cases "po_op p") (simp_all add: ports_words_def port_op_name_def)
qed

lemma length_flags_words: "length (spaced (flags_words r)) \<le> 70"
proof -
  have "length (spaced (flag_words r fn)) \<le> 10" if "fn \<in> set flag_names" for fn
    using that by (auto simp: flag_words_def flag_names_def)
  then have "set fns \<subseteq> set flag_names \<Longrightarrow> length (spaced (concat (map (flag_words r) fns))) \<le> 10 * length fns" for fns
    by (induction fns) fastforce+
  from this[of flag_names] have "length (spaced (concat (map (flag_words r) flag_names))) \<le> 60"
    by (simp add: flag_names_def)
  then show ?thesis
    by (cases "ru_flag_op r") (simp_all add: flags_words_def)
qed

text \<open>
  C17: every rule that the parser accepts prints, for the running configuration, as a line that fits
  the 256 bytes of the static buffer with its terminator, and whose words are a command that parses
  to the same rule: its addresses, ports, TCP flags and fragment option survive a save and reload.
\<close>

theorem access_list_rule_roundtrip:
  assumes "proto_db protoname"
    and "(if extended then access_list_rule_ext command argv else access_list_rule_std command argv) = Inr r"
  defines "line \<equiv> show_access_list_rule protoname extended r"
  shows "length line + 1 \<le> 256 \<and>
    (if extended then access_list_rule_ext (hd (words line)) (tl (words line))
     else access_list_rule_std (hd (words line)) (tl (words line))) = Inr r"
proof -
  have wf: "rule_wf extended r" "ru_counter r = 0"
    using assms(2) access_list_rule_ext_wf[of command argv r] access_list_rule_std_wf[of command argv r]
    by (cases extended; simp)+
  have r: "r\<lparr>ru_counter := 0\<rparr> = r"
    using wf(2) by (cases r) simp
  have line: "line = spaced (action_name (ru_action r) # rule_words extended r)"
    unfolding line_def by (rule show_rule_words[OF assms(1) wf(1)])
  have ws: "words line = action_name (ru_action r) # rule_words extended r"
    unfolding line by (rule words_spaced[OF rule_words_are_words])
  have "length line \<le> 191"
    using length_wild_words[of "ru_src_ip r" "ru_src_wild r"] length_wild_words[of "ru_dst_ip r" "ru_dst_wild r"]
      length_ports_words[of "ru_src_ports r"] length_ports_words[of "ru_dst_ports r"] length_flags_words[of r]
    by (simp add: line rule_words_def action_name_def proto_name_def)
  then show ?thesis
    using wf(1) parse_rule_words_ext[of r] parse_rule_words_std[of r] r
    by (cases extended) (simp_all add: ws)
qed

definition etc_protocols :: "u8 \<Rightarrow> string option" where
  "etc_protocols p = (if p = 0 then Some ''ip'' else if p = 6 then Some ''tcp'' else if p = 17 then Some ''udp'' else None)"

definition sample_argv :: "string list" where
  "sample_argv = [''tcp'', ''any'', ''gt'', ''1023'', ''host'', ''10.0.0.1'', ''range'', ''80'', ''90'',
                  ''match-all'', ''+syn'', ''-ack'']"

lemma access_list_rule_roundtrip_witness:
  "proto_db etc_protocols \<and>
   (\<exists>r. access_list_rule_ext ''permit'' sample_argv = Inr r \<and>
        length (show_access_list_rule etc_protocols True r) + 1 \<le> 256)"
proof -
  have db: "proto_db etc_protocols"
    by (simp add: proto_db_def etc_protocols_def)
  have "\<not> isl (access_list_rule_ext ''permit'' sample_argv)"
    unfolding sample_argv_def by code_simp
  then obtain r where r: "access_list_rule_ext ''permit'' sample_argv = Inr r"
    by (cases "access_list_rule_ext ''permit'' sample_argv") auto
  then show ?thesis
    using access_list_rule_roundtrip[OF db, of True "''permit''" sample_argv r] db by auto
qed

end
