(* ===== verification/AclInv.thy ===== *)
theory AclInv
  imports AclText
begin

text \<open>
  What holds of the access lists when commands are executed one at a time: several command line
  sessions, each with its own current list, add and remove lists and rules in any order, and between
  two commands sessions are attached to lists and packets are filtered. The
  list commands belong to the configuration mode, the rule commands to the mode that adding a list
  enters. One command is one step. In the code the sessions are processes that share the lists
  without a lock, and comments mark the updates as racy: what is left when commands overlap is the
  subject of the last section.
\<close>

subsection \<open>Steps\<close>

type_synonym acl_state = "(nat \<Rightarrow> cli_def) \<times> (nat \<Rightarrow> ip_filtert)"

inductive acl_step :: "acl_state \<Rightarrow> acl_state \<Rightarrow> bool" where
  list_command:
    "\<not> cli_nacl (clis k) \<Longrightarrow> access_list argv add (clis k) fs = (cli, fs', m) \<Longrightarrow>
     acl_step (clis, fs) (clis(k := cli), fs')"
| rule_command:
    "cli_nacl (clis k) \<Longrightarrow> cmd_ip_access_list_rule command argv (clis k) fs = (fs', m) \<Longrightarrow>
     acl_step (clis, fs) (clis, fs')"
| leave_mode: "acl_step (clis, fs) (clis(k := (clis k)\<lparr>cli_nacl := False\<rparr>), fs)"
| references: "fi_name (fs f) \<noteq> [] \<Longrightarrow> acl_step (clis, fs) (clis, fs(f := (fs f)\<lparr>fi_used := n\<rparr>))"
| packet: "ip_filter buf f fs = Ret (d, fs') \<Longrightarrow> acl_step (clis, fs) (clis, fs')"

definition acl_init :: acl_state where
  "acl_init = (\<lambda>_. \<lparr>cli_filt = 0, cli_nacl = False\<rparr>, \<lambda>_. filter_zero)"

inductive acl_reachable :: "acl_state \<Rightarrow> bool" where
  start: "acl_reachable acl_init"
| step: "acl_reachable s \<Longrightarrow> acl_step s s' \<Longrightarrow> acl_reachable s'"

subsection \<open>The invariant\<close>

definition rules_ok :: "bool \<Rightarrow> (nat \<Rightarrow> ip_filter_rulet) \<Rightarrow> nat \<Rightarrow> bool" where
  "rules_ok extended rules n \<longleftrightarrow>
     n < MAXFILTER_RULES \<and> (\<forall>i < n. rule_wf extended (rules i)) \<and> (\<forall>i \<ge> n. rules i = rule_zero) \<and>
     (\<forall>i < n. \<forall>j < n. same_rule (rules i) (rules j) \<longrightarrow> i = j)"

definition filter_ok :: "ip_filtert \<Rightarrow> bool" where
  "filter_ok f \<longleftrightarrow> (\<exists>n. rules_ok (fi_extended f) (fi_rules f) n) \<and> name_ok (fi_name f)"

definition names_ok :: "(nat \<Rightarrow> ip_filtert) \<Rightarrow> bool" where
  "names_ok fs \<longleftrightarrow>
     (\<forall>f g. fi_name (fs f) \<noteq> [] \<and> fi_name (fs f) = fi_name (fs g) \<longrightarrow> f = g) \<and>
     (\<forall>f \<ge> MAXFILTER. fi_name (fs f) = [])"

definition acl_ok :: "acl_state \<Rightarrow> bool" where
  "acl_ok s \<longleftrightarrow>
     (\<forall>f. filter_ok (snd s f)) \<and> names_ok (snd s) \<and>
     (\<forall>k. cli_nacl (fst s k) \<longrightarrow> 0 \<le> cli_filt (fst s k) \<and> cli_filt (fst s k) < int MAXFILTER)"

lemma filter_ok_zero: "filter_ok filter_zero"
  by (auto simp: filter_ok_def rules_ok_def filter_zero_def MAXFILTER_RULES_def name_ok_def intro!: exI[of _ 0])

lemma filter_ok_empty: "name_ok name \<Longrightarrow> filter_ok (filter_zero\<lparr>fi_name := name, fi_extended := e\<rparr>)"
  by (auto simp: filter_ok_def rules_ok_def filter_zero_def MAXFILTER_RULES_def intro!: exI[of _ 0])

lemma filter_ok_used: "filter_ok f \<Longrightarrow> filter_ok (f\<lparr>fi_used := n\<rparr>)"
  by (simp add: filter_ok_def)

lemma rules_ok_terminated:
  assumes "rules_ok (fi_extended f) (fi_rules f) n"
  shows "terminated f" "length (active_rules f) \<le> n"
proof -
  have n: "n < MAXFILTER_RULES" "ru_action (fi_rules f n) = ACTION_NONE"
    using assms by (auto simp: rules_ok_def rule_zero_def)
  then show "terminated f" by (auto simp: terminated_def)
  show "length (active_rules f) \<le> n"
    using active_nth[of n f] n by fastforce
qed

lemma filter_ok_terminated: "filter_ok f \<Longrightarrow> terminated f"
  using rules_ok_terminated by (auto simp: filter_ok_def)

lemma rule_wf_counter: "rule_wf e r \<Longrightarrow> rule_wf e (r\<lparr>ru_counter := c\<rparr>)"
proof (cases e)
  case False
  assume "rule_wf e r"
  with False obtain a ip w c' where a: "a \<noteq> ACTION_NONE"
    "r = rule_zero\<lparr>ru_action := a, ru_src_ip := ip, ru_src_wild := w, ru_counter := c'\<rparr>"
    by (auto simp: rule_wf_def)
  then have eq: "r\<lparr>ru_counter := c\<rparr> = rule_zero\<lparr>ru_action := a, ru_src_ip := ip, ru_src_wild := w, ru_counter := c\<rparr>"
    by simp
  show ?thesis
    unfolding rule_wf_def eq using False a(1) by auto
qed (simp add: rule_wf_def flags_given_def l4_rule_def)

lemma filter_ok_count:
  assumes "filter_ok f" "i < length (active_rules f)"
  shows "filter_ok (count_match i f)"
proof -
  from assms obtain n where n: "rules_ok (fi_extended f) (fi_rules f) n" and nm: "name_ok (fi_name f)"
    by (auto simp: filter_ok_def)
  have i: "i < n"
    using rules_ok_terminated(2)[OF n] assms(2) by simp
  let ?rules = "(fi_rules f)(i := (fi_rules f i)\<lparr>ru_counter := ru_counter (fi_rules f i) + 1\<rparr>)"
  have same: "same_rule (?rules j) (?rules k) \<longleftrightarrow> same_rule (fi_rules f j) (fi_rules f k)" for j k
    by (simp add: same_rule_def)
  have "rules_ok (fi_extended f) ?rules n"
    using n i unfolding rules_ok_def same by (auto simp: rule_wf_counter)
  then show ?thesis
    using nm by (auto simp: filter_ok_def count_match_def)
qed

lemma first_match_active: "first_match f buf = Some i \<Longrightarrow> i < length (active_rules f)"
  by (auto simp: first_match_def find_Some_iff split: option.splits)

subsection \<open>Every step keeps it\<close>

lemma append_rule_ok:
  assumes "rules_ok e rules n" "k \<le> n" "rule_wf e rule" "ru_counter rule = 0"
    and "\<forall>i < k. \<not> same_rule (rules i) rule" "N < MAXFILTER_RULES"
    and "append_rule rule rules [k..<N] = Some rules'"
  shows "\<exists>n'. rules_ok e rules' n'"
  using assms(2,5,7)
proof (induction "N - k" arbitrary: k)
  case 0
  then show ?case by simp
next
  case (Suc m)
  then have k: "k < N" by simp
  then have up: "[k..<N] = k # [Suc k..<N]"
    by (rule upt_conv_Cons)
  show ?case
  proof (cases "ru_action (rules k) = ACTION_NONE")
    case True
    then have "k = n"
      using assms(1) Suc.prems(1) by (auto simp: rules_ok_def rule_wf_def le_less split: if_splits)
    have "rules' = rules(n := rule)"
      using Suc.prems(3) True \<open>k = n\<close> by (simp add: up[unfolded \<open>k = n\<close>])
    moreover have "same_rule a b \<longleftrightarrow> same_rule b a" for a b
      by (auto simp: same_rule_def)
    ultimately have "rules_ok e rules' (Suc n)"
      using assms(1,3,6) Suc.prems(2) k \<open>k = n\<close> unfolding rules_ok_def by (auto simp: less_Suc_eq)
    then show ?thesis by blast
  next
    case False
    then have "k < n"
      using assms(1) Suc.prems(1) by (auto simp: rules_ok_def rule_zero_def le_less)
    show ?thesis
    proof (cases "same_rule (rules k) rule")
      case True
      then show ?thesis using assms(1) Suc.prems(3) False by (auto simp: up)
    next
      case no: False
      show ?thesis
        by (rule Suc.hyps(1)[of "Suc k"])
          (use Suc.hyps(2) Suc.prems \<open>k < n\<close> False no in \<open>auto simp: up less_Suc_eq\<close>)
    qed
  qed
qed

lemma cmd_rule_ok:
  assumes "\<forall>f. filter_ok (fs f)" "cmd_ip_access_list_rule command argv cli fs = (fs', m)"
  shows "(\<forall>f. filter_ok (fs' f)) \<and> (\<forall>f. fi_name (fs' f) = fi_name (fs f))"
proof -
  let ?f = "nat (cli_filt cli)"
  let ?parse = "if fi_extended (fs ?f) then access_list_rule_ext command argv else access_list_rule_std command argv"
  show ?thesis
  proof (cases ?parse)
    case (Inl e)
    then show ?thesis using assms by (simp add: cmd_ip_access_list_rule_def Let_def)
  next
    case (Inr rule)
    then have wf: "rule_wf (fi_extended (fs ?f)) rule" "ru_counter rule = 0"
      using access_list_rule_ext_wf access_list_rule_std_wf by (auto split: if_splits)
    from assms(1) obtain n where n: "rules_ok (fi_extended (fs ?f)) (fi_rules (fs ?f)) n"
      by (auto simp: filter_ok_def)
    show ?thesis
      using assms Inr append_rule_ok[OF n _ wf, of 0 "MAXFILTER_RULES - 1"]
      by (auto simp: cmd_ip_access_list_rule_def Let_def filter_ok_def MAXFILTER_RULES_def split: option.splits)
  qed
qed

lemma find_filter_loop_cases:
  assumes "\<forall>i \<in> set is. i < MAXFILTER" "free = -1 \<or> (0 \<le> free \<and> free < int MAXFILTER \<and> fi_name (fs (nat free)) = [])"
    "r = find_filter_loop fs name free is"
  shows "(r = -1 \<or> 0 \<le> r \<and> r < int MAXFILTER) \<and>
    (r \<ge> 0 \<longrightarrow> fi_name (fs (nat r)) = name \<or> fi_name (fs (nat r)) = [] \<and> (\<forall>i \<in> set is. fi_name (fs i) \<noteq> name \<or> name = []))"
  using assms
  by (induction fs name free "is" rule: find_filter_loop.induct) (auto split: if_splits)

lemma find_filter_cases:
  assumes "r = find_filter fs name" "r \<ge> 0"
  shows "r < int MAXFILTER"
    "fi_name (fs (nat r)) = [] \<Longrightarrow> name \<noteq> [] \<Longrightarrow> f < MAXFILTER \<Longrightarrow> fi_name (fs f) \<noteq> name"
  using find_filter_loop_cases[of "[0..<MAXFILTER]" "-1" fs r name] assms
  by (auto simp: find_filter_def)

lemma names_ok_add:
  assumes "names_ok fs" "f < MAXFILTER" "name \<noteq> [] \<longrightarrow> (\<forall>g < MAXFILTER. fi_name (fs g) \<noteq> name)"
  shows "names_ok (fs(f := filter_zero\<lparr>fi_name := name, fi_extended := e\<rparr>))"
  using assms unfolding names_ok_def by (auto simp: not_less) (metis not_less)+

lemma names_ok_clear: "names_ok fs \<Longrightarrow> names_ok (fs(f := filter_zero))"
  unfolding names_ok_def by (auto simp: filter_zero_def)

lemma names_ok_same: "(\<forall>f. fi_name (fs' f) = fi_name (fs f)) \<Longrightarrow> names_ok fs \<Longrightarrow> names_ok fs'"
  by (simp only: names_ok_def)

lemma access_list_ok:
  assumes "\<forall>f. filter_ok (fs f)" "names_ok fs" "access_list argv add cli fs = (cli', fs', m)"
    "\<not> cli_nacl cli"
  shows "(\<forall>f. filter_ok (fs' f)) \<and> names_ok fs'"
    and "cli_nacl cli' \<longrightarrow> 0 \<le> cli_filt cli' \<and> cli_filt cli' < int MAXFILTER"
proof -
  let ?r = "find_filter fs (argv ! 1)"
  have r: "?r \<ge> 0 \<Longrightarrow> nat ?r < MAXFILTER" "?r \<ge> 0 \<Longrightarrow> ?r < int MAXFILTER"
    using find_filter_cases(1)[OF refl, of fs "argv ! 1"] by auto
  have new: "?r \<ge> 0 \<Longrightarrow> fi_name (fs (nat ?r)) = [] \<Longrightarrow> argv ! 1 \<noteq> [] \<longrightarrow> (\<forall>g < MAXFILTER. fi_name (fs g) \<noteq> argv ! 1)"
    using find_filter_cases(2)[OF refl, of fs "argv ! 1"] by blast
  show "(\<forall>f. filter_ok (fs' f)) \<and> names_ok fs'"
    using assms r new
    by (auto simp: access_list_def Let_def not_less filter_ok_empty filter_ok_zero names_ok_clear
        intro!: names_ok_add split: if_splits)
  show "cli_nacl cli' \<longrightarrow> 0 \<le> cli_filt cli' \<and> cli_filt cli' < int MAXFILTER"
    using assms(3,4) r by (auto simp: access_list_def Let_def split: if_splits)
qed

lemma acl_ok_reachable: "acl_reachable s \<Longrightarrow> acl_ok s"
proof (induction rule: acl_reachable.induct)
  case start
  show ?case
    using filter_ok_zero by (simp add: acl_ok_def acl_init_def names_ok_def) (simp add: filter_zero_def)
next
  case (step s s')
  from step(2,3) show ?case
  proof cases
    case (list_command clis k argv add fs cli fs' m)
    then show ?thesis
      using step(3) access_list_ok[of fs argv add "clis k" cli fs' m] by (auto simp: acl_ok_def)
  next
    case (rule_command clis k command argv fs fs' m)
    then show ?thesis
      using step(3) cmd_rule_ok[of fs command argv "clis k" fs' m] names_ok_same[of fs' fs]
      by (auto simp: acl_ok_def)
  next
    case (leave_mode clis fs k)
    then show ?thesis using step(3) by (auto simp: acl_ok_def)
  next
    case (references fs f clis n)
    then show ?thesis
      using step(3) names_ok_same[of "fs(f := (fs f)\<lparr>fi_used := n\<rparr>)" fs]
      by (auto simp: acl_ok_def filter_ok_used)
  next
    case (packet buf f fs d fs' clis)
    have ok: "filter_ok (fs f)" "\<forall>g. filter_ok (fs g)" "names_ok fs"
      using step(3) packet by (simp_all add: acl_ok_def)
    have "fs' = fs \<or> (\<exists>i. i < length (active_rules (fs f)) \<and> fs' = fs(f := count_match i (fs f)))"
      using packet ip_filter_first_match_loop[of fs f buf] filter_ok_terminated[OF ok(1)]
      by (auto split: option.splits dest: first_match_active)
    then have "(\<forall>g. filter_ok (fs' g)) \<and> (\<forall>g. fi_name (fs' g) = fi_name (fs g))"
      using ok filter_ok_count by (auto simp: count_match_def)
    then show ?thesis
      using step(3) packet ok(3) names_ok_same[of fs' fs] by (auto simp: acl_ok_def)
  qed
qed

text \<open>
  C16: as long as no two commands are executed at the same time, nor a command while a packet is
  filtered, every list keeps an empty last rule, so filtering a packet never reads past the rules; its
  rules are pairwise different (the counters apart); and no two lists have the same name.
\<close>

theorem access_lists_sound:
  assumes "acl_reachable (clis, fs)"
  shows "(\<exists>d fs'. ip_filter buf f fs = Ret (d, fs')) \<and>
    (\<forall>i j. i < j \<and> j < length (active_rules (fs f)) \<longrightarrow> \<not> same_rule (fi_rules (fs f) i) (fi_rules (fs f) j)) \<and>
    (fi_name (fs f) \<noteq> [] \<and> fi_name (fs f) = fi_name (fs g) \<longrightarrow> f = g)"
proof -
  have ok: "filter_ok (fs f)" "names_ok fs"
    using acl_ok_reachable[OF assms] by (simp_all add: acl_ok_def)
  then obtain n where n: "rules_ok (fi_extended (fs f)) (fi_rules (fs f)) n"
    by (auto simp: filter_ok_def)
  have "\<exists>d fs'. ip_filter buf f fs = Ret (d, fs')"
    using ip_filter_first_match_loop[of fs f buf] filter_ok_terminated[OF ok(1)] by (cases "first_match (fs f) buf") auto
  moreover have "\<not> same_rule (fi_rules (fs f) i) (fi_rules (fs f) j)" if "i < j" "j < length (active_rules (fs f))" for i j
    using n rules_ok_terminated(2)[OF n] that unfolding rules_ok_def by (metis less_trans not_less_iff_gr_or_eq order_less_le_trans)
  moreover have "fi_name (fs f) \<noteq> [] \<and> fi_name (fs f) = fi_name (fs g) \<longrightarrow> f = g"
    using ok(2) unfolding names_ok_def by blast
  ultimately show ?thesis by blast
qed

text \<open>A run: one session makes a standard list and puts a rule in it.\<close>

definition demo_rule :: ip_filter_rulet where
  "demo_rule = rule_zero\<lparr>ru_action := PERMIT, ru_src_wild := INADDR_BROADCAST\<rparr>"

definition demo_lists :: "nat \<Rightarrow> ip_filtert" where
  "demo_lists = (\<lambda>_. filter_zero)
     (0 := filter_zero\<lparr>fi_name := ''web'', fi_rules := (\<lambda>_. rule_zero)(0 := demo_rule)\<rparr>)"

lemma demo_reachable: "\<exists>clis. acl_reachable (clis, demo_lists)"
proof -
  let ?cli = "\<lparr>cli_filt = 0, cli_nacl = False\<rparr>"
  let ?cli1 = "\<lparr>cli_filt = 0, cli_nacl = True\<rparr>"
  let ?fs1 = "(\<lambda>_. filter_zero)(0 := filter_zero\<lparr>fi_name := ''web''\<rparr>)"
  have find: "find_filter (\<lambda>_. filter_zero) ''web'' = 0"
    by (simp add: find_filter_def MAXFILTER_def upt_conv_Cons filter_zero_def)
  have ok: "name_ok ''web''" by (simp add: name_ok_def name_chars_def)
  have "access_list [''standard'', ''web''] True ?cli (\<lambda>_. filter_zero) = (?cli1, ?fs1, None)"
    by (simp add: access_list_def Let_def find ok MATCH_def) (simp add: filter_zero_def fun_eq_iff)
  then have "acl_step acl_init ((\<lambda>_. ?cli)(0 := ?cli1), ?fs1)"
    unfolding acl_init_def by (intro list_command) auto
  then have one: "acl_reachable ((\<lambda>_. ?cli)(0 := ?cli1), ?fs1)"
    using start step by blast
  have app: "append_rule demo_rule (\<lambda>_. rule_zero) [0..<MAXFILTER_RULES - 1] = Some ((\<lambda>_. rule_zero)(0 := demo_rule))"
    by (simp add: MAXFILTER_RULES_def upt_conv_Cons rule_zero_def)
  have "access_list_rule_std ''permit'' [''any''] = Inr demo_rule"
    by (simp add: MATCH_def rule_command_def demo_rule_def Let_def rule_zero_def)
  then have "cmd_ip_access_list_rule ''permit'' [''any''] ?cli1 ?fs1 = (demo_lists, None)"
    using app by (simp add: cmd_ip_access_list_rule_def demo_lists_def filter_zero_def fun_eq_iff)
  then have "acl_step ((\<lambda>_. ?cli)(0 := ?cli1), ?fs1) ((\<lambda>_. ?cli)(0 := ?cli1), demo_lists)"
    by (intro rule_command[where k = 0]) auto
  then show ?thesis
    using one step by blast
qed

lemma access_lists_sound_witness:
  "\<exists>clis. acl_reachable (clis, demo_lists) \<and> (\<exists>d fs'. ip_filter web_packet 0 demo_lists = Ret (d, fs'))"
  using demo_reachable access_lists_sound[of _ demo_lists web_packet 0 0] by blast

text \<open>
  A standard access list drops every packet. \<open>access_list_rule_std\<close> clears the rule and sets its
  source only, which leaves the destination and its wildcard zero: a rule of a standard list matches
  no packet except one to the address 0.0.0.0, and a packet that no rule matches is dropped.
\<close>

lemma standard_list_drops:
  assumes "acl_reachable (clis, fs)" "\<not> fi_extended (fs f)" "of_be32 (drop 16 buf) \<noteq> 0"
  shows "ip_filter buf f fs = Ret (False, fs)"
proof -
  have ok: "filter_ok (fs f)"
    using acl_ok_reachable[OF assms(1)] by (simp add: acl_ok_def)
  then obtain n where n: "rules_ok False (fi_rules (fs f)) n"
    using assms(2) by (auto simp: filter_ok_def)
  have dst: "fl_dst_ip fl = of_be32 (drop 16 buf)" if "ip_flow buf = Some fl" for fl
    using that by (auto simp: ip_flow_def Let_def split: if_splits)
  have "\<not> rule_matches (fi_rules (fs f) i) fl" if "ip_flow buf = Some fl" "i < length (active_rules (fs f))" for fl i
  proof -
    have "i < n"
      using that(2) rules_ok_terminated(2)[of "fs f" n] n assms(2) by simp
    then have "ru_dst_ip (fi_rules (fs f) i) = 0" "ru_dst_wild (fi_rules (fs f) i) = 0"
      using n by (auto simp: rules_ok_def rule_wf_def rule_zero_def)
    then show ?thesis
      using dst[OF that(1)] assms(3)
      by (simp add: rule_matches_def same_net_iff INADDR_BROADCAST_def)
  qed
  then have "first_match (fs f) buf = None"
    by (auto simp: first_match_def find_None_iff split: option.split)
  then show ?thesis
    using ip_filter_first_match_loop[of fs f buf] filter_ok_terminated[OF ok] by simp
qed

lemma standard_list_drops_witness:
  "ru_action demo_rule = PERMIT \<and> ru_src_wild demo_rule = INADDR_BROADCAST \<and>
   ip_filter web_packet 0 demo_lists = Ret (False, demo_lists)"
proof -
  obtain clis where "acl_reachable (clis, demo_lists)"
    using demo_reachable by blast
  moreover have "\<not> fi_extended (demo_lists 0)"
    by (simp add: demo_lists_def filter_zero_def)
  moreover have "of_be32 (drop 16 web_packet) \<noteq> 0"
    by code_simp
  ultimately show ?thesis
    using standard_list_drops[of clis demo_lists 0 web_packet] by (simp add: demo_rule_def)
qed

subsection \<open>Commands that overlap\<close>

text \<open>
  The stores a command makes, whatever it has read before and wherever it is interrupted: parts of the
  rules of a list are cleared, its name, type and use change, and a rule other than the last one is
  overwritten, possibly not yet as a whole. The stores of all processes may be interleaved in any way.
\<close>

inductive acl_store :: "(nat \<Rightarrow> ip_filtert) \<Rightarrow> (nat \<Rightarrow> ip_filtert) \<Rightarrow> bool" where
  clear: "acl_store fs (fs(f := (fs f)\<lparr>fi_rules := (\<lambda>i. if i \<in> S then rule_zero else fi_rules (fs f) i)\<rparr>))"
| head: "acl_store fs (fs(f := (fs f)\<lparr>fi_name := n, fi_extended := e, fi_used := u\<rparr>))"
| rule: "i < MAXFILTER_RULES - 1 \<Longrightarrow> acl_store fs (fs(f := (fs f)\<lparr>fi_rules := (fi_rules (fs f))(i := r)\<rparr>))"

definition last_empty :: "(nat \<Rightarrow> ip_filtert) \<Rightarrow> bool" where
  "last_empty fs \<longleftrightarrow> (\<forall>f. ru_action (fi_rules (fs f) (MAXFILTER_RULES - 1)) = ACTION_NONE)"

lemma store_last_empty: "acl_store fs fs' \<Longrightarrow> last_empty fs \<Longrightarrow> last_empty fs'"
  by (induction rule: acl_store.induct) (auto simp: last_empty_def rule_zero_def)

text \<open>The commands consist of such stores.\<close>

lemma store_whole: "acl_store\<^sup>*\<^sup>* fs (fs(f := filter_zero\<lparr>fi_name := n, fi_extended := e\<rparr>))"
proof -
  have whole: "x\<lparr>fi_rules := (\<lambda>i. rule_zero), fi_name := n, fi_extended := e, fi_used := 0\<rparr> =
      filter_zero\<lparr>fi_name := n, fi_extended := e\<rparr>" for x :: ip_filtert
    by (cases x) (simp add: filter_zero_def)
  let ?fs1 = "fs(f := (fs f)\<lparr>fi_rules := (\<lambda>i. if i \<in> UNIV then rule_zero else fi_rules (fs f) i)\<rparr>)"
  have 1: "acl_store fs ?fs1" by (rule acl_store.clear)
  have 2: "acl_store ?fs1 (?fs1(f := (?fs1 f)\<lparr>fi_name := n, fi_extended := e, fi_used := 0\<rparr>))"
    by (rule acl_store.head)
  have 3: "?fs1(f := (?fs1 f)\<lparr>fi_name := n, fi_extended := e, fi_used := 0\<rparr>) = fs(f := filter_zero\<lparr>fi_name := n, fi_extended := e\<rparr>)"
    by (simp only: fun_upd_same fun_upd_upd UNIV_I if_True whole)
  note r = r_into_rtranclp [where r = acl_store]
  have "acl_store\<^sup>*\<^sup>* fs ?fs1" by (rule r [OF 1])
  from rtranclp_trans [where r = acl_store, OF this r [OF 2]] show ?thesis unfolding 3 .
qed

lemma store_zero: "acl_store\<^sup>*\<^sup>* fs (fs(f := filter_zero))"
proof -
  have "filter_zero = filter_zero\<lparr>fi_name := [], fi_extended := False\<rparr>" by (simp add: filter_zero_def)
  then show ?thesis using store_whole [where fs = fs and f = f and n = "[]" and e = False] by metis
qed

lemma access_list_stores: "access_list argv add cli fs = (cli', fs', m) \<Longrightarrow> acl_store\<^sup>*\<^sup>* fs fs'"
  by (auto simp: access_list_def Let_def store_whole store_zero split: if_splits)

lemma append_rule_at:
  "append_rule rule rules is = Some rules' \<Longrightarrow> rules' = rules \<or> (\<exists>i \<in> set is. rules' = rules(i := rule))"
  by (induction rule rules "is" rule: append_rule.induct) (auto split: if_splits)

lemma cmd_rule_stores:
  assumes "cmd_ip_access_list_rule command argv cli fs = (fs', m)"
  shows "acl_store\<^sup>*\<^sup>* fs fs'"
proof -
  let ?f = "nat (cli_filt cli)"
  have "fs' = fs \<or> (\<exists>i r. i < MAXFILTER_RULES - 1 \<and> fs' = fs(?f := (fs ?f)\<lparr>fi_rules := (fi_rules (fs ?f))(i := r)\<rparr>))"
    using assms by (auto simp: cmd_ip_access_list_rule_def Let_def dest!: append_rule_at split: sum.splits option.splits)
  then show ?thesis using acl_store.rule by (metis rtranclp.rtrancl_refl r_into_rtranclp)
qed

text \<open>So filtering stays within the rules of a list even then.\<close>

lemma racing_lists_end:
  assumes "acl_store\<^sup>*\<^sup>* (\<lambda>_. filter_zero) fs"
  shows "\<exists>d fs'. ip_filter buf f fs = Ret (d, fs')"
proof -
  have "last_empty fs"
    using assms by (induction rule: rtranclp_induct) (auto intro: store_last_empty, simp add: last_empty_def filter_zero_def rule_zero_def)
  then have "ru_action (fi_rules (fs f) (MAXFILTER_RULES - 1)) = ACTION_NONE" by (simp add: last_empty_def)
  then have "terminated (fs f)" by (auto simp: terminated_def MAXFILTER_RULES_def intro!: exI [of _ "31::nat"])
  then show ?thesis using ip_filter_first_match_loop [of fs f buf] by (cases "first_match (fs f) buf") auto
qed

end
