(* ===== verification/Control.thy ===== *)
theory Control
  imports State
begin

text \<open>
  The control connection of an L2TP tunnel (\<^verbatim>\<open>src/l2tpns.c\<close>): the messages waiting for an
  acknowledgement, sending and resending them within the window of the peer, the construction of
  messages from AVPs, and the part of \<open>processudp\<close> that parses the header of a packet and checks
  its sequence numbers. What the code does to one tunnel is a function on the tunnel's record that
  also returns the datagrams sent; the global state lifts them in the theory \<open>World\<close>.
\<close>

subsection \<open>Tunnels\<close>

datatype tunnelstate = TUNNELFREE | TUNNELOPEN | TUNNELDIE | TUNNELOPENING | TUNNELUNDEF

text \<open>
  \<open>tunnelt\<close>. The list from \<open>controls\<close> to \<open>controle\<close> is a list of messages, each the \<open>length\<close>
  bytes of its buffer; the counter \<open>controlc\<close> has 16 bits and is kept apart from it.
\<close>

record tunnelt =
  t_far :: u16
  t_ip :: in_addr
  t_port :: u16
  t_window :: u16
  t_nr :: u16
  t_ns :: u16
  t_state :: tunnelstate
  t_last :: u32
  t_retry :: u32
  t_die :: u32
  t_lastrec :: u32
  t_hostname :: bytes
  t_vendor :: bytes
  t_try :: u8
  t_controlc :: u16
  t_controls :: "bytes list"
  t_isremotelns :: nat
  t_indexudp :: nat

definition tunnel_zero :: tunnelt where
  "tunnel_zero = \<lparr>t_far = 0, t_ip = 0, t_port = 0, t_window = 0, t_nr = 0, t_ns = 0,
     t_state = TUNNELFREE, t_last = 0, t_retry = 0, t_die = 0, t_lastrec = 0, t_hostname = [],
     t_vendor = [], t_try = 0, t_controlc = 0, t_controls = [], t_isremotelns = 0,
     t_indexudp = 0\<rparr>"

text \<open>
  What leaves the daemon: a datagram from one of the UDP sockets, or a packet for the PPPoE side
  (\<open>pppoe_sess_send\<close>).
\<close>

datatype datagram =
  UdpTx (d_udp: nat) (d_ip: in_addr) (d_port: u16) (d_buf: bytes)
| PppoeTx tunnelidt bytes

text \<open>The clocks: \<open>time_now\<close> in seconds, and what \<open>now(NULL)\<close> returns, in tenths.\<close>

record clocks =
  c_time_now :: u32
  c_now :: u32

definition backoff :: "u32 \<Rightarrow> u8 \<Rightarrow> u32" where
  "backoff now try =
     (let try = (if try > 5 then 5 else try) in now + 10 * push_bit (unat try) 1)"

definition put16 :: "nat \<Rightarrow> u16 \<Rightarrow> bytes \<Rightarrow> bytes" where
  "put16 i x b = b[i := hd (be16 x), Suc i := hd (tl (be16 x))]"

text \<open>
  \<open>tunnelsend\<close>. The header of a queued message is written again on every send, so the queue keeps
  the message as it was built.
\<close>

definition expected_seq :: "u16 \<Rightarrow> bytes \<Rightarrow> bytes" where
  "expected_seq nr buf =
     (if bit (buf ! 0) 3 then put16 (if bit (buf ! 0) 6 then 10 else 8) nr buf else buf)"

definition tunnelsend :: "clocks \<Rightarrow> bytes \<Rightarrow> tunnelidt \<Rightarrow> tunnelt \<Rightarrow> tunnelt \<times> datagram list" where
  "tunnelsend clk buf t tn =
     (if t = 0 then (tn, [])
      else if t = TUNNEL_ID_PPPOE then (tn, [PppoeTx t buf])
      else if t_ip tn = 0 then (tn, [])
      else ((if bit (buf ! 0) 7
             then tn\<lparr>t_last := c_time_now clk, t_retry := backoff (c_now clk) (t_try tn)\<rparr>
             else tn),
            [UdpTx (t_indexudp tn) (t_ip tn) (t_port tn) (expected_seq (t_nr tn) buf)]))"

subsection \<open>Building messages\<close>

text \<open>
  A message under construction is the bytes of its buffer up to \<open>length\<close>. The ten header bytes that
  \<open>controlnew\<close> leaves as the recycled buffer had them are all written by \<open>controladd\<close> and
  \<open>tunnelsend\<close> before the message leaves; they are zero here.
\<close>

definition control16 :: "bytes \<Rightarrow> u16 \<Rightarrow> u16 \<Rightarrow> bool \<Rightarrow> bytes" where
  "control16 c avp val m = c @ be16 (if m then 0x8008 else 0x0008) @ be16 0 @ be16 avp @ be16 val"

definition control32 :: "bytes \<Rightarrow> u16 \<Rightarrow> u32 \<Rightarrow> bool \<Rightarrow> bytes" where
  "control32 c avp val m = c @ be16 (if m then 0x800A else 0x000A) @ be16 0 @ be16 avp @ be32 val"

definition controlb :: "bytes \<Rightarrow> u16 \<Rightarrow> bytes \<Rightarrow> bool \<Rightarrow> bytes" where
  "controlb c avp val m =
     c @ be16 ((if m then 0x8000 else 0) + of_nat (length val) + 6) @ be16 0 @ be16 avp @ val"

definition controls :: "bytes \<Rightarrow> u16 \<Rightarrow> bytes \<Rightarrow> bool \<Rightarrow> bytes" where
  "controls c avp val m =
     c @ be16 ((if m then 0x8000 else 0) + of_nat (length val) + 6) @ be16 0 @ be16 avp @ val"

definition controlnew :: "u16 \<Rightarrow> bytes" where
  "controlnew mtype = control16 ([0xC8, 0x02] @ replicate 10 0) 0 mtype True"

definition controlnull :: "clocks \<Rightarrow> tunnelidt \<Rightarrow> tunnelt \<Rightarrow> tunnelt \<times> datagram list" where
  "controlnull clk t tn =
     (if t_controlc tn \<noteq> 0 then (tn, [])
      else tunnelsend clk
        (be16 0xC802 @ be16 12 @ be16 (t_far tn) @ be16 0 @ be16 (t_ns tn) @ be16 (t_nr tn)) t tn)"

text \<open>\<open>controladd\<close>: number a message, queue it, and send it if the window allows.\<close>

definition stamp :: "bytes \<Rightarrow> u16 \<Rightarrow> u16 \<Rightarrow> u16 \<Rightarrow> bytes" where
  "stamp c tfar far ns =
     put16 8 ns (put16 6 far (put16 4 tfar (put16 2 (of_nat (length c)) c)))"

definition controladd :: "clocks \<Rightarrow> bytes \<Rightarrow> u16 \<Rightarrow> tunnelidt \<Rightarrow> tunnelt \<Rightarrow> tunnelt \<times> datagram list" where
  "controladd clk c far t tn =
     (let c = stamp c (t_far tn) far (t_ns tn);
          tn1 = tn\<lparr>t_ns := t_ns tn + 1,
                   t_controls := (if t_controlc tn \<noteq> 0 then t_controls tn @ [c] else [c]),
                   t_controlc := t_controlc tn + 1\<rparr>
      in if t_controlc tn1 \<le> t_window tn1 then tunnelsend clk c t (tn1\<lparr>t_try := 0\<rparr>)
         else (tn1, []))"

subsection \<open>Receiving\<close>

text \<open>
  The header of a packet. The buffer is the memory from \<open>buf\<close> on: the \<open>len\<close> bytes received and
  whatever follows them, since the code trusts the length field of the packet and does not
  compare it with \<open>len\<close>.
\<close>

record l2tp_hdr =
  h_flags :: u8
  h_tunnel :: nat
  h_session :: nat
  h_ns :: u16
  h_nr :: u16
  h_pos :: nat
  h_left :: nat

definition rd16 :: "(nat \<Rightarrow> u8) \<Rightarrow> nat \<Rightarrow> u16" where
  "rd16 buf i = push_bit 8 (ucast (buf i)) OR ucast (buf (i + 1))"

definition rd32 :: "(nat \<Rightarrow> u8) \<Rightarrow> nat \<Rightarrow> u32" where
  "rd32 buf i = push_bit 16 (ucast (rd16 buf i)) OR ucast (rd16 buf (i + 2))"

definition parse_header :: "(nat \<Rightarrow> u8) \<Rightarrow> nat \<Rightarrow> l2tp_hdr option" where
  "parse_header buf len =
     (if len < 6 then None
      else if buf 1 AND 0x0F \<noteq> 2 then None
      else
        let fl = buf 0;
            (l, p) = (if bit fl 6 then (unat (rd16 buf 2), 4) else (len mod 65536, 2));
            t = unat (rd16 buf p);
            s = unat (rd16 buf (p + 2));
            p = p + 4
        in if s \<ge> MAXSESSION then None
           else if t \<ge> MAXTUNNEL then None
           else if t = TUNNEL_ID_PPPOE then None
           else
             let (ns, nr, p) = (if bit fl 3 then (rd16 buf p, rd16 buf (p + 2), p + 4) else (0, 0, p));
                 p = (if bit fl 1 then p + unat (rd16 buf p) + 2 else p)
             in if p > l then None
                else Some \<lparr>h_flags = fl, h_tunnel = t, h_session = s, h_ns = ns, h_nr = nr,
                           h_pos = p, h_left = l - p\<rparr>)"

text \<open>
  The sequence check of \<open>processudp\<close>. \<open>ack_loop\<close> removes the messages that the packet
  acknowledges; \<open>skip\<close> counts how many of the messages already sent remain queued.
\<close>

function ack_loop :: "u16 \<Rightarrow> tunnelt \<times> int \<Rightarrow> tunnelt \<times> int" where
  "ack_loop nr (tn, skip) =
     (if t_controlc tn > 0 \<and> bit (t_ns tn - t_controlc tn - nr) 15
      then ack_loop nr (tn\<lparr>t_controls := drop 1 (t_controls tn), t_controlc := t_controlc tn - 1,
                           t_try := 0\<rparr>, skip - 1)
      else (tn, skip))"
  by pat_completeness auto
termination
  by (relation "measure (\<lambda>(nr, tn, skip). unat (t_controlc tn))")
    (auto simp: unat_minus_one word_gt_0 unat_gt_0)

declare ack_loop.simps [simp del]

fun send_waiting :: "clocks \<Rightarrow> tunnelidt \<Rightarrow> bytes list \<Rightarrow> tunnelt \<Rightarrow> tunnelt \<times> datagram list" where
  "send_waiting clk t [] tn = (tn, [])"
| "send_waiting clk t (c # cs) tn =
     (let (tn1, ds) = tunnelsend clk c t (tn\<lparr>t_try := 0\<rparr>);
          (tn2, ds') = send_waiting clk t cs tn1
      in (tn2, ds @ ds'))"

definition in_sequence :: "clocks \<Rightarrow> nat \<Rightarrow> u16 \<Rightarrow> u16 \<Rightarrow> tunnelidt \<Rightarrow> tunnelt \<Rightarrow> tunnelt \<times> datagram list" where
  "in_sequence clk l ns nr t tn =
     (let (tn1, skip) = ack_loop nr (tn, int (unat (t_window tn)));
          tn2 = (if l \<noteq> 0 then tn1\<lparr>t_nr := ns + 1\<rparr> else tn1);
          skip = (if skip < 0 then 0 else skip);
          (tn3, ds) =
            (if skip < int (unat (t_controlc tn2))
             then send_waiting clk t
                    (take (nat (int (unat (t_window tn2)) - skip)) (drop (nat skip) (t_controls tn2)))
                    tn2
             else (tn2, []))
      in (if t_controlc tn3 = 0 then tn3\<lparr>t_retry := 0\<rparr> else tn3, ds))"

text \<open>
  The whole check: a packet that is not the expected one is dropped, and acknowledged again unless
  it is an acknowledgement itself. The last component tells whether the message is processed.
\<close>

definition check_sequence ::
    "clocks \<Rightarrow> nat \<Rightarrow> u16 \<Rightarrow> u16 \<Rightarrow> tunnelidt \<Rightarrow> tunnelt \<Rightarrow> tunnelt \<times> datagram list \<times> bool" where
  "check_sequence clk l ns nr t tn =
     (if ns \<noteq> t_nr tn
      then (let (tn', ds) = (if l \<noteq> 0 then controlnull clk t tn else (tn, [])) in (tn', ds, False))
      else (let (tn', ds) = in_sequence clk l ns nr t tn in (tn', ds, l \<noteq> 0)))"

text \<open>
  The resending of \<open>regular_cleanups\<close>: the tunnel's messages after a timeout; None when the tunnel
  is to be killed.
\<close>

fun send_all :: "clocks \<Rightarrow> tunnelidt \<Rightarrow> bytes list \<Rightarrow> tunnelt \<Rightarrow> tunnelt \<times> datagram list" where
  "send_all clk t [] tn = (tn, [])"
| "send_all clk t (c # cs) tn =
     (let (tn1, ds) = tunnelsend clk c t tn;
          (tn2, ds') = send_all clk t cs tn1
      in (tn2, ds @ ds'))"

definition resend_controls :: "clocks \<Rightarrow> tunnelidt \<Rightarrow> tunnelt \<Rightarrow> (tunnelt \<times> datagram list) option" where
  "resend_controls clk t tn =
     (let tn1 = tn\<lparr>t_try := t_try tn + 1\<rparr>
      in if t_try tn1 > 5 then None
         else Some (send_all clk t (take (unat (t_window tn1)) (t_controls tn1)) tn1))"

end
