(* ===== verification/Ipmap.thy ===== *)
theory Ipmap
  imports State
begin

text \<open>
  The maps from addresses to sessions of \<^verbatim>\<open>src/l2tpns.c\<close>: \<open>ip_hash\<close>, a tree of arrays indexed by
  the four bytes of an IPv4 address, and \<open>ipv6_hash\<close>, a tree branching on the nibbles of an IPv6
  address. An IPv4 address is the number whose most significant byte comes first in memory.
\<close>

subsection \<open>IPv4\<close>

text \<open>
  A \<open>union iphash\<close> array is a function from the byte; a NULL \<open>idx\<close> is None. The leaves hold
  \<open>sess\<close>.
\<close>

type_synonym ip_leaf = "u8 \<Rightarrow> sessionidt"
type_synonym ip_node3 = "u8 \<Rightarrow> ip_leaf option"
type_synonym ip_node2 = "u8 \<Rightarrow> ip_node3 option"
type_synonym iphash = "u8 \<Rightarrow> ip_node2 option"

definition ip_byte :: "in_addr \<Rightarrow> nat \<Rightarrow> u8" where
  "ip_byte ip i = ucast (drop_bit (24 - 8 * i) ip)"

definition ip_hash_empty :: iphash where
  "ip_hash_empty = (\<lambda>_. None)"

definition lookup_ipmap :: "in_addr \<Rightarrow> iphash \<Rightarrow> sessionidt" where
  "lookup_ipmap ip h =
     (case h (ip_byte ip 0) of None \<Rightarrow> 0
      | Some h1 \<Rightarrow> (case h1 (ip_byte ip 1) of None \<Rightarrow> 0
      | Some h2 \<Rightarrow> (case h2 (ip_byte ip 2) of None \<Rightarrow> 0
      | Some h3 \<Rightarrow> h3 (ip_byte ip 3))))"

text \<open>
  \<open>cache_ipmap\<close>; \<open>alloc i\<close> says whether the \<open>calloc\<close> at level i succeeds if it is needed. The
  parameter type \<open>sessionidt\<close> has 16 bits, so a negative pool index wraps around.
\<close>

definition child :: "bool \<Rightarrow> 'a \<Rightarrow> 'a option \<Rightarrow> 'a option" where
  "child ok fresh c = (case c of Some h \<Rightarrow> Some h | None \<Rightarrow> if ok then Some fresh else None)"

definition cache_ipmap :: "(nat \<Rightarrow> bool) \<Rightarrow> in_addr \<Rightarrow> int \<Rightarrow> iphash \<Rightarrow> iphash" where
  "cache_ipmap alloc ip s h =
     (let a = ip_byte ip in
      case child (alloc 0) (\<lambda>_. None) (h (a 0)) of None \<Rightarrow> h
      | Some h1 \<Rightarrow>
     (case child (alloc 1) (\<lambda>_. None) (h1 (a 1)) of None \<Rightarrow> h(a 0 := Some h1)
      | Some h2 \<Rightarrow>
     (case child (alloc 2) (\<lambda>_. 0) (h2 (a 2)) of None \<Rightarrow> h(a 0 := Some (h1(a 1 := Some h2)))
      | Some h3 \<Rightarrow>
          h(a 0 := Some (h1(a 1 := Some (h2(a 2 := Some (h3(a 3 := id16 s))))))))))"

definition uncache_ipmap :: "(nat \<Rightarrow> bool) \<Rightarrow> in_addr \<Rightarrow> iphash \<Rightarrow> iphash" where
  "uncache_ipmap alloc ip h = cache_ipmap alloc ip 0 h"

lemma ip_bytes_inject:
  "ip_byte x 0 = ip_byte y 0 \<Longrightarrow> ip_byte x 1 = ip_byte y 1 \<Longrightarrow> ip_byte x 2 = ip_byte y 2 \<Longrightarrow>
     ip_byte x 3 = ip_byte y 3 \<Longrightarrow> x = y"
proof (rule bit_word_eqI)
  fix n assume n: "n < LENGTH(32)"
    and eq: "ip_byte x 0 = ip_byte y 0" "ip_byte x 1 = ip_byte y 1" "ip_byte x 2 = ip_byte y 2"
      "ip_byte x 3 = ip_byte y 3"
  have b: "bit z n = bit (ip_byte z (3 - n div 8)) (n mod 8)" if "n < 32" for z n
  proof -
    have "24 - 8 * (3 - n div 8) = 8 * (n div 8)" using that by simp
    then show ?thesis by (simp add: ip_byte_def bit_simps)
  qed
  have "3 - n div 8 \<in> {0, 1, 2, 3}" by auto
  with eq have "ip_byte x (3 - n div 8) = ip_byte y (3 - n div 8)" by auto
  with b n show "bit x n = bit y n" by simp
qed

lemma lookup_cache_ipmap:
  assumes "\<forall>i. alloc i"
  shows "lookup_ipmap j (cache_ipmap alloc ip s h) = (if j = ip then id16 s else lookup_ipmap j h)"
proof (cases "j = ip")
  case True
  with assms show ?thesis
    by (simp add: lookup_ipmap_def cache_ipmap_def child_def Let_def split: option.split)
next
  case False
  then have "ip_byte j 0 \<noteq> ip_byte ip 0 \<or> ip_byte j 1 \<noteq> ip_byte ip 1 \<or> ip_byte j 2 \<noteq> ip_byte ip 2 \<or>
      ip_byte j 3 \<noteq> ip_byte ip 3" using ip_bytes_inject by blast
  with False assms show ?thesis
    by (auto simp: lookup_ipmap_def cache_ipmap_def child_def Let_def split: option.split)
qed

text \<open>If an allocation fails the map still answers as before.\<close>

lemma lookup_cache_failed:
  assumes "\<not> alloc i" and "i < 3" and "lookup_ipmap j (cache_ipmap alloc ip s h) \<noteq> lookup_ipmap j h"
  shows "j = ip"
proof (rule ccontr)
  assume "j \<noteq> ip"
  then have "ip_byte j 0 \<noteq> ip_byte ip 0 \<or> ip_byte j 1 \<noteq> ip_byte ip 1 \<or> ip_byte j 2 \<noteq> ip_byte ip 2 \<or>
      ip_byte j 3 \<noteq> ip_byte ip 3" using ip_bytes_inject by blast
  with assms(3) show False
    by (auto simp: lookup_ipmap_def cache_ipmap_def child_def Let_def split: option.splits if_splits)
qed

text \<open>The contract of an address map, and what follows for blocks of addresses.\<close>

locale address_map =
  fixes lookup :: "'k \<Rightarrow> 'm \<Rightarrow> sessionidt" and cache :: "'k \<Rightarrow> int \<Rightarrow> 'm \<Rightarrow> 'm"
  assumes lookup_cache: "lookup j (cache k s m) = (if j = k then id16 s else lookup j m)"
begin

definition cache_all :: "'k list \<Rightarrow> int \<Rightarrow> 'm \<Rightarrow> 'm" where
  "cache_all ks s m = fold (\<lambda>k. cache k s) ks m"

lemma lookup_cache_all:
  "lookup j (cache_all ks s m) = (if j \<in> set ks then id16 s else lookup j m)"
  unfolding cache_all_def by (induction ks arbitrary: m) (auto simp: lookup_cache)

lemma cache_overrides: "lookup j (cache k s (cache k t m)) = lookup j (cache k s m)"
  by (simp add: lookup_cache)

end

interpretation ipmap: address_map lookup_ipmap "cache_ipmap (\<lambda>_. True)"
  by unfold_locales (simp add: lookup_cache_ipmap)

subsection \<open>IPv6\<close>

datatype radix = Radix (r_sess: sessionidt) (r_branch: "(nat \<Rightarrow> radix) option")

definition radix_zero :: radix where
  "radix_zero = Radix 0 None"

definition nibble :: "in6_addr \<Rightarrow> nat \<Rightarrow> nat" where
  "nibble ip i =
     (if odd i then unat (s6_addr ip (i div 2) AND 0x0F)
      else unat (drop_bit 4 (s6_addr ip (i div 2) AND 0xF0)))"

text \<open>
  The loop of \<open>lookup_ipv6map\<close> from the node reached with \<open>i\<close> nibbles; \<open>n\<close> bounds the rounds that
  are left (\<open>i + n = 32\<close>).
\<close>

fun radix_lookup :: "nat \<Rightarrow> nat \<Rightarrow> in6_addr \<Rightarrow> radix \<Rightarrow> sessionidt" where
  "radix_lookup 0 i ip node = r_sess node"
| "radix_lookup (Suc n) i ip node =
     (if r_sess node = 0
      then (case r_branch node of
              None \<Rightarrow> r_sess node
            | Some b \<Rightarrow> radix_lookup n (i + 1) ip (b (nibble ip i)))
      else r_sess node)"

definition lookup_ipv6map :: "in6_addr \<Rightarrow> (nat \<Rightarrow> radix) \<Rightarrow> sessionidt" where
  "lookup_ipv6map ip h = radix_lookup 31 1 ip (h (nibble ip 0))"

text \<open>
  The loop of \<open>cache_ipv6map\<close>; \<open>n\<close> is the number of nibbles still to descend, \<open>alloc\<close> whether
  \<open>calloc\<close> succeeds at each depth.
\<close>

fun radix_cache :: "nat \<Rightarrow> (nat \<Rightarrow> bool) \<Rightarrow> nat \<Rightarrow> in6_addr \<Rightarrow> sessionidt \<Rightarrow> radix \<Rightarrow> radix" where
  "radix_cache 0 alloc i ip s node = Radix s (r_branch node)"
| "radix_cache (Suc n) alloc i ip s node =
     (case child (alloc i) (\<lambda>_. radix_zero) (r_branch node) of
        None \<Rightarrow> node
      | Some b \<Rightarrow> Radix (r_sess node)
          (Some (b(nibble ip i := radix_cache n alloc (i + 1) ip s (b (nibble ip i))))))"

definition cache_ipv6map ::
    "(nat \<Rightarrow> bool) \<Rightarrow> in6_addr \<Rightarrow> nat \<Rightarrow> sessionidt \<Rightarrow> (nat \<Rightarrow> radix) \<Rightarrow> (nat \<Rightarrow> radix)" where
  "cache_ipv6map alloc ip prefixlen s h =
     (let nibbles = prefixlen div 4 in
      h(nibble ip 0 := radix_cache (nibbles - 1) alloc 1 ip s (h (nibble ip 0))))"

text \<open>
  The tree as a function from paths: the session stored for a prefix of nibbles (0 for none). A
  lookup finds the shortest prefix of the address that has a session.
\<close>

fun node_at :: "nat list \<Rightarrow> radix \<Rightarrow> sessionidt" where
  "node_at [] node = r_sess node"
| "node_at (k # ks) node = (case r_branch node of None \<Rightarrow> 0 | Some b \<Rightarrow> node_at ks (b k))"

fun sess_at :: "nat list \<Rightarrow> (nat \<Rightarrow> radix) \<Rightarrow> sessionidt" where
  "sess_at [] h = 0"
| "sess_at (k # ks) h = node_at ks (h k)"

definition nibbles :: "in6_addr \<Rightarrow> nat \<Rightarrow> nat \<Rightarrow> nat list" where
  "nibbles ip i n = map (nibble ip) [i..<i + n]"

lemma length_nibbles [simp]: "length (nibbles ip i n) = n"
  by (simp add: nibbles_def)

lemma nibbles_Suc: "nibbles ip i (Suc n) = nibble ip i # nibbles ip (Suc i) n"
  by (simp add: nibbles_def upt_rec)

lemma node_at_zero [simp]: "node_at p radix_zero = 0"
  by (cases p) (simp_all add: radix_zero_def)

definition first_nonzero :: "nat list \<Rightarrow> nat" where
  "first_nonzero xs = (case filter (\<lambda>x. x \<noteq> 0) xs of [] \<Rightarrow> 0 | x # _ \<Rightarrow> x)"

lemma first_nonzero_Cons: "first_nonzero (x # xs) = (if x \<noteq> 0 then x else first_nonzero xs)"
  by (simp add: first_nonzero_def)

lemma first_nonzero_zeros: "\<forall>x \<in> set xs. x = 0 \<Longrightarrow> first_nonzero xs = 0"
  by (auto simp: first_nonzero_def filter_empty_conv split: list.split)

lemma radix_lookup_path:
  "radix_lookup n i ip node = first_nonzero (map (\<lambda>d. node_at (nibbles ip i d) node) [0..<Suc n])"
proof (induction n i ip node rule: radix_lookup.induct)
  case (1 i ip node)
  then show ?case by (simp add: first_nonzero_def nibbles_def)
next
  case (2 n i ip node)
  have eq: "map (\<lambda>d. node_at (nibbles ip i d) node) [0..<Suc (Suc n)] =
      r_sess node # map (\<lambda>d. node_at (nibbles ip i (Suc d)) node) [0..<Suc n]"
    by (simp only: upt_conv_Cons [of 0 "Suc (Suc n)"] map_Suc_upt [symmetric] zero_less_Suc list.map map_map comp_def)
      (simp add: nibbles_def)
  show ?case
  proof (cases "r_branch node")
    case None
    then have z: "map (\<lambda>d. node_at (nibbles ip i (Suc d)) node) [0..<Suc n] = map (\<lambda>_. 0) [0..<Suc n]"
      by (simp add: nibbles_Suc)
    have "first_nonzero (map (\<lambda>_. 0) [0..<Suc n]) = 0" by (rule first_nonzero_zeros) auto
    with None show ?thesis unfolding eq z by (simp add: first_nonzero_Cons del: upt_Suc)
  next
    case (Some b)
    with 2 show ?thesis unfolding eq by (simp add: first_nonzero_Cons nibbles_Suc del: upt_Suc)
  qed
qed

lemma node_at_cache:
  assumes "\<forall>i. alloc i"
  shows "node_at p (radix_cache n alloc i ip s node) = (if p = nibbles ip i n then s else node_at p node)"
  using assms
proof (induction n alloc i ip s node arbitrary: p rule: radix_cache.induct)
  case (1 alloc i ip s node)
  then show ?case by (cases p) (simp_all add: nibbles_def)
next
  case (2 n alloc i ip s node)
  have b: "node_at ks ((case r_branch node of None \<Rightarrow> \<lambda>_. radix_zero | Some b \<Rightarrow> b) k) =
      node_at (k # ks) node" for k ks by (simp split: option.split)
  let ?b = "case r_branch node of None \<Rightarrow> \<lambda>_. radix_zero | Some b \<Rightarrow> b"
  have child: "child (alloc i) (\<lambda>_. radix_zero) (r_branch node) = Some ?b"
    using 2(2) by (simp add: child_def split: option.split)
  have IH: "node_at q (radix_cache n alloc (i + 1) ip s (?b (nibble ip i))) =
      (if q = nibbles ip (i + 1) n then s else node_at q (?b (nibble ip i)))" for q
    using 2 child by blast
  show ?case
    using IH by (cases p) (auto simp: child nibbles_Suc b split: option.split)
qed

lemma sess_at_cache:
  assumes "\<forall>i. alloc i" and "4 \<le> plen"
  shows "sess_at p (cache_ipv6map alloc ip plen s h) =
    (if p = nibbles ip 0 (plen div 4) then s else sess_at p h)"
proof -
  from assms(2) obtain m where m: "plen div 4 = Suc m"
    by (metis One_nat_def Suc_le_D div_le_mono div_self zero_neq_numeral)
  show ?thesis
    using assms(1) by (cases p) (auto simp: cache_ipv6map_def Let_def m node_at_cache nibbles_Suc)
qed

text \<open>
  C9: the IPv6 map. With memory available, looking an address up yields the session stored for the
  shortest cached prefix of the address, where caching a session for a prefix of at least four
  bits stores it for the prefix cut down to whole nibbles and leaves all other prefixes alone.
\<close>

theorem ipv6map_shortest_prefix:
  assumes "\<forall>i. alloc i" and "4 \<le> plen" and "h' = cache_ipv6map alloc ip plen s h"
  shows "lookup_ipv6map j h' =
      first_nonzero (map (\<lambda>d. sess_at (nibbles j 0 (Suc d)) h') [0..<32]) \<and>
    (\<forall>p. sess_at p h' = (if p = nibbles ip 0 (plen div 4) then s else sess_at p h))"
proof -
  have "lookup_ipv6map j h' =
      first_nonzero (map (\<lambda>d. node_at (nibbles j 1 d) (h' (nibble j 0))) [0..<Suc 31])"
    unfolding lookup_ipv6map_def radix_lookup_path ..
  also have "map (\<lambda>d. node_at (nibbles j 1 d) (h' (nibble j 0))) [0..<Suc 31] =
      map (\<lambda>d. sess_at (nibbles j 0 (Suc d)) h') [0..<32]"
    by (rule map_cong) (simp_all only: nibbles_Suc sess_at.simps One_nat_def, simp)
  finally show ?thesis using sess_at_cache [OF assms(1,2)] unfolding assms(3) by blast
qed

lemma ipv6map_shortest_prefix_witness:
  "sess_at (nibbles 7 0 16) (cache_ipv6map (\<lambda>_. True) 7 64 9 (\<lambda>_. radix_zero)) = 9"
  using ipv6map_shortest_prefix [of "\<lambda>_. True" 64 _ 7 9 "\<lambda>_. radix_zero"] by simp

text \<open>
  The IPv4 map. With memory available, \<open>cache_ipmap\<close> changes the answer for its address only,
  to the 16-bit value of what was cached; if an allocation fails no other address is affected.
\<close>

lemma ipmap_lookup:
  "((\<forall>i. alloc i) \<longrightarrow>
      lookup_ipmap j (cache_ipmap alloc ip s h) = (if j = ip then id16 s else lookup_ipmap j h)) \<and>
   (j \<noteq> ip \<longrightarrow> lookup_ipmap j (cache_ipmap alloc ip s h) = lookup_ipmap j h)"
proof -
  have "lookup_ipmap j (cache_ipmap alloc ip s h) = lookup_ipmap j h" if "j \<noteq> ip"
  proof (cases "\<forall>i < 3. alloc i")
    case False
    with lookup_cache_failed that show ?thesis by blast
  next
    case True
    then have "alloc 0" "alloc 1" "alloc 2" by simp_all
    then have "cache_ipmap alloc ip s h = cache_ipmap (\<lambda>_. True) ip s h"
      by (simp only: cache_ipmap_def)
    with that show ?thesis by (simp add: ipmap.lookup_cache)
  qed
  then show ?thesis using lookup_cache_ipmap by blast
qed

lemma ipmap_lookup_witness:
  "lookup_ipmap 0x0A000001 (cache_ipmap (\<lambda>_. True) 0x0A000001 42 ip_hash_empty) = 42 \<and>
   lookup_ipmap 0x0A000002 (cache_ipmap (\<lambda>_. True) 0x0A000001 42 ip_hash_empty) = 0"
  using ipmap_lookup [of "\<lambda>_. True" "0x0A000001" "0x0A000001" 42 ip_hash_empty]
    ipmap_lookup [of "\<lambda>_. True" "0x0A000002" "0x0A000001" 42 ip_hash_empty]
    lookup_ipmap_def [of "0x0A000002" ip_hash_empty] by (simp add: id16_def ip_hash_empty_def)

end
