(* ===== verification/Tbf.thy ===== *)
theory Tbf
  imports State
begin

text \<open>
  The token bucket filters of \<^verbatim>\<open>src/tbf.c\<close>: a credit that grows with time, a ring buffer of two
  packets, and a circular doubly linked list of the filters that have packets waiting. The
  \<open>send\<close> callback of a filter is a value of \<open>tbf_send\<close>; what it sends is appended to
  \<open>tb_sent\<close>.
\<close>

subsection \<open>Filters\<close>

datatype tbf_send = SendIpin | SendIpout

record tbft =
  f_credit :: int
  f_lasttime :: int
  f_queued :: nat
  f_oldest :: nat
  f_sid :: sessionidt
  f_max_credit :: int
  f_rate :: int
  f_send :: "tbf_send option"
  f_prev :: nat
  f_next :: nat
  f_b_queued :: u32
  f_b_sent :: u32
  f_p_queued :: u32
  f_p_sent :: u32
  f_b_dropped :: u32
  f_p_dropped :: u32
  f_p_delayed :: u32
  f_sizes :: "nat list"
  f_packets :: "bytes list"

definition tbf_zero :: tbft where
  "tbf_zero = \<lparr>f_credit = 0, f_lasttime = 0, f_queued = 0, f_oldest = 0, f_sid = 0,
     f_max_credit = 0, f_rate = 0, f_send = None, f_prev = 0, f_next = 0, f_b_queued = 0,
     f_b_sent = 0, f_p_queued = 0, f_p_sent = 0, f_b_dropped = 0, f_p_dropped = 0,
     f_p_delayed = 0, f_sizes = replicate TBF_MAX_QUEUE 0, f_packets = replicate TBF_MAX_QUEUE []\<rparr>"

text \<open>
  The module's variables. \<open>tb_ready\<close> says that \<open>filter_list\<close> is not NULL; \<open>tb_p\<close> is the static
  variable of \<open>new_tbf\<close>.
\<close>

record tbf_state =
  tb_ready :: bool
  tb_list :: "nat \<Rightarrow> tbft"
  tb_size :: nat
  tb_chain :: int
  tb_p :: nat
  tb_sent :: "(nat \<times> tbf_send \<times> sessionidt \<times> bytes) list"

definition init_tbf :: "bool \<Rightarrow> nat \<Rightarrow> tbf_state" where
  "init_tbf oom num_tbfs =
     (let st = \<lparr>tb_ready = False, tb_list = (\<lambda>_. tbf_zero), tb_size = 0, tb_chain = -1, tb_p = 0,
                tb_sent = []\<rparr>
      in if oom then st
         else st\<lparr>tb_ready := True, tb_size := num_tbfs,
                 tb_list := (tb_list st)(0 := (tb_list st 0)\<lparr>f_sid := 65535\<rparr>)\<rparr>)"

definition tb_upd :: "nat \<Rightarrow> (tbft \<Rightarrow> tbft) \<Rightarrow> tbf_state \<Rightarrow> tbf_state" where
  "tb_upd i g st = st\<lparr>tb_list := (tb_list st)(i := g (tb_list st i))\<rparr>"

lemma tb_upd_simps [simp]:
  "tb_ready (tb_upd i g st) = tb_ready st" "tb_size (tb_upd i g st) = tb_size st"
  "tb_chain (tb_upd i g st) = tb_chain st" "tb_p (tb_upd i g st) = tb_p st"
  "tb_sent (tb_upd i g st) = tb_sent st"
  "tb_list (tb_upd i g st) j = (if j = i then g (tb_list st i) else tb_list st j)"
  by (simp_all add: tb_upd_def)

subsection \<open>The timer chain\<close>

definition add_to_timer :: "nat \<Rightarrow> tbf_state \<Rightarrow> tbf_state" where
  "add_to_timer tid st =
     (if \<not> tb_ready st then st
      else if tb_chain st = -1
      then (tb_upd tid (\<lambda>f. f\<lparr>f_next := tid, f_prev := tid\<rparr>) st)\<lparr>tb_chain := int tid\<rparr>
      else (let tc = nat (tb_chain st);
                st1 = tb_upd tid (\<lambda>f. f\<lparr>f_next := tc\<rparr>) st;
                st2 = tb_upd tid (\<lambda>f. f\<lparr>f_prev := f_prev (tb_list st1 tc)\<rparr>) st1;
                st3 = tb_upd (f_prev (tb_list st2 tc)) (\<lambda>f. f\<lparr>f_next := tid\<rparr>) st2
            in tb_upd tc (\<lambda>f. f\<lparr>f_prev := tid\<rparr>) st3))"

definition del_from_timer :: "nat \<Rightarrow> tbf_state \<Rightarrow> tbf_state" where
  "del_from_timer tid st =
     (if \<not> tb_ready st then st
      else if f_next (tb_list st tid) = tid
      then (let st1 = (if tb_chain st \<noteq> int tid then st else st\<lparr>tb_chain := -1\<rparr>)
            in tb_upd tid (\<lambda>f. f\<lparr>f_next := 0, f_prev := 0\<rparr>) st1)
      else (let st1 = tb_upd (f_next (tb_list st tid))
                        (\<lambda>f. f\<lparr>f_prev := f_prev (tb_list st tid)\<rparr>) st;
                st2 = tb_upd (f_prev (tb_list st1 tid))
                        (\<lambda>f. f\<lparr>f_next := f_next (tb_list st1 tid)\<rparr>) st1;
                st3 = (if tb_chain st2 = int tid
                       then st2\<lparr>tb_chain := int (f_next (tb_list st2 tid))\<rparr> else st2)
            in tb_upd tid (\<lambda>f. f\<lparr>f_next := 0, f_prev := 0\<rparr>) st3))"

text \<open>
  The list a chain stands for, from its head. The links of a ring are invariant under rotation, so
  that every element can be brought to the front.
\<close>

definition ring_links :: "(nat \<Rightarrow> tbft) \<Rightarrow> nat list \<Rightarrow> bool" where
  "ring_links tb xs \<longleftrightarrow> distinct xs \<and>
     map (\<lambda>i. f_next (tb i)) xs = rotate1 xs \<and> map (\<lambda>i. f_prev (tb i)) (rotate1 xs) = xs"

definition chain :: "tbf_state \<Rightarrow> nat list \<Rightarrow> bool" where
  "chain st xs \<longleftrightarrow> tb_chain st = (if xs = [] then -1 else int (hd xs)) \<and> 0 \<notin> set xs \<and>
     ring_links (tb_list st) xs \<and> (\<forall>i. f_next (tb_list st i) \<noteq> 0 \<longleftrightarrow> i \<in> set xs)"

lemma rotate1_map: "rotate1 (map f xs) = map f (rotate1 xs)"
  by (cases xs) simp_all

lemma ring_links_rotate1: "ring_links tb xs \<Longrightarrow> ring_links tb (rotate1 xs)"
  unfolding ring_links_def by (metis rotate1_map distinct1_rotate)

lemma ring_links_rotate: "ring_links tb (xs @ ys) \<Longrightarrow> ring_links tb (ys @ xs)"
proof (induction xs arbitrary: ys)
  case (Cons x xs)
  from ring_links_rotate1 [OF Cons.prems] have "ring_links tb (xs @ (ys @ [x]))" by simp
  from Cons.IH [OF this] show ?case by simp
qed simp

lemma ring_links_cong:
  "ring_links tb xs \<Longrightarrow> (\<And>i. i \<in> set xs \<Longrightarrow> f_next (tb' i) = f_next (tb i) \<and> f_prev (tb' i) = f_prev (tb i)) \<Longrightarrow>
     ring_links tb' xs"
  unfolding ring_links_def
  by (metis (mono_tags, lifting) map_eq_conv set_rotate1)

lemma ring_next: "ring_links tb (x # y # ys) \<Longrightarrow> f_next (tb x) = y"
  by (simp add: ring_links_def)

lemma ring_prev: "ring_links tb (x # xs) \<Longrightarrow> f_prev (tb x) = last (x # xs)"
  by (cases xs rule: rev_cases) (simp_all add: ring_links_def)

text \<open>Inserting behind the last element, and removing the first one.\<close>

lemma ring_links_snoc:
  assumes "ring_links tb (h # t)" and "tid \<notin> set (h # t)"
    and "\<forall>i. i \<noteq> tid \<longrightarrow> f_next (tb' i) = (if i = last (h # t) then tid else f_next (tb i))"
    and "\<forall>i. i \<noteq> tid \<longrightarrow> f_prev (tb' i) = (if i = h then tid else f_prev (tb i))"
    and "f_next (tb' tid) = h" "f_prev (tb' tid) = last (h # t)"
  shows "ring_links tb' (h # t @ [tid])"
proof (cases t rule: rev_cases)
  case Nil
  with assms show ?thesis by (auto simp add: ring_links_def)
next
  case (snoc ys l)
  have n: "map (\<lambda>i. f_next (tb i)) (h # ys) = ys @ [l]" "f_next (tb l) = h"
    and p: "map (\<lambda>i. f_prev (tb i)) (ys @ [l]) = h # ys" "f_prev (tb h) = l"
    and d: "distinct (h # ys @ [l])"
    using assms(1) unfolding ring_links_def snoc by simp_all
  let ?n = "\<lambda>i. f_next (tb' i)" and ?p = "\<lambda>i. f_prev (tb' i)"
  have "map ?n (h # ys) = map (\<lambda>i. f_next (tb i)) (h # ys)"
      "map ?p (ys @ [l]) = map (\<lambda>i. f_prev (tb i)) (ys @ [l])"
  proof -
    have "i \<noteq> tid \<and> i \<noteq> last (h # t)" if "i \<in> set (h # ys)" for i
      using that assms(2) d snoc by auto
    then show "map ?n (h # ys) = map (\<lambda>i. f_next (tb i)) (h # ys)"
      unfolding map_eq_conv using assms(3) by simp
    have "i \<noteq> tid \<and> i \<noteq> h" if "i \<in> set (ys @ [l])" for i
      using that assms(2) d snoc by auto
    then show "map ?p (ys @ [l]) = map (\<lambda>i. f_prev (tb i)) (ys @ [l])"
      unfolding map_eq_conv using assms(4) by simp
  qed
  note m = this [unfolded n p]
  have e: "?n l = tid" "?n tid = h" "?p h = tid" "?p tid = l"
    using assms(2-) snoc d by auto
  have "map ?n (h # t @ [tid]) = map ?n (h # ys) @ [?n l, ?n tid]"
    by (simp add: snoc)
  also have "\<dots> = rotate1 (h # t @ [tid])" unfolding m e by (simp add: snoc)
  finally have 1: "map ?n (h # t @ [tid]) = rotate1 (h # t @ [tid])" .
  have "map ?p (rotate1 (h # t @ [tid])) = map ?p (ys @ [l]) @ [?p tid, ?p h]"
    by (simp add: snoc)
  also have "\<dots> = h # t @ [tid]" unfolding m e by (simp add: snoc)
  finally have 2: "map ?p (rotate1 (h # t @ [tid])) = h # t @ [tid]" .
  from 1 2 assms(1,2) show ?thesis by (simp add: ring_links_def)
qed

lemma ring_links_tail:
  assumes "ring_links tb (tid # h # t)"
    and "\<forall>i. i \<noteq> tid \<longrightarrow> f_next (tb' i) = (if i = last (h # t) then h else f_next (tb i))"
    and "\<forall>i. i \<noteq> tid \<longrightarrow> f_prev (tb' i) = (if i = h then last (h # t) else f_prev (tb i))"
  shows "ring_links tb' (h # t)"
proof (cases t rule: rev_cases)
  case Nil
  with assms show ?thesis by (auto simp: ring_links_def)
next
  case (snoc ys l)
  have n: "map (\<lambda>i. f_next (tb i)) (h # ys) = ys @ [l]"
    and p: "map (\<lambda>i. f_prev (tb i)) (ys @ [l]) = h # ys"
    and d: "distinct (tid # h # ys @ [l])"
    using assms(1) unfolding ring_links_def snoc by simp_all
  let ?n = "\<lambda>i. f_next (tb' i)" and ?p = "\<lambda>i. f_prev (tb' i)"
  have m: "map ?n (h # ys) = map (\<lambda>i. f_next (tb i)) (h # ys)"
      "map ?p (ys @ [l]) = map (\<lambda>i. f_prev (tb i)) (ys @ [l])"
  proof -
    have "i \<noteq> tid \<and> i \<noteq> last (h # t)" if "i \<in> set (h # ys)" for i
      using that d snoc by auto
    then show "map ?n (h # ys) = map (\<lambda>i. f_next (tb i)) (h # ys)"
      unfolding map_eq_conv using assms(2) by simp
    have "i \<noteq> tid \<and> i \<noteq> h" if "i \<in> set (ys @ [l])" for i
      using that d snoc by auto
    then show "map ?p (ys @ [l]) = map (\<lambda>i. f_prev (tb i)) (ys @ [l])"
      unfolding map_eq_conv using assms(3) by simp
  qed
  have e: "?n l = h" "?p h = l"
    using assms(2,3) snoc d by auto
  have "map ?n (h # t) = map ?n (h # ys) @ [?n l]" by (simp add: snoc)
  also have "\<dots> = rotate1 (h # t)" unfolding m n e by (simp add: snoc)
  finally have 1: "map ?n (h # t) = rotate1 (h # t)" .
  have "map ?p (rotate1 (h # t)) = map ?p (ys @ [l]) @ [?p h]" by (simp add: snoc)
  also have "\<dots> = h # t" unfolding m p e by (simp add: snoc)
  finally have 2: "map ?p (rotate1 (h # t)) = h # t" .
  from 1 2 assms(1) show ?thesis by (simp add: ring_links_def)
qed


text \<open>The chain operations on lists: append at the end, remove one element.\<close>

lemma chain_add:
  assumes "chain st xs" and "tid \<notin> set xs" and "tid \<noteq> 0" and "tb_ready st"
  shows "chain (add_to_timer tid st) (xs @ [tid])"
proof (cases xs)
  case Nil
  with assms show ?thesis
    by (auto simp: chain_def add_to_timer_def ring_links_def)
next
  case (Cons h t)
  let ?tb = "tb_list st" and ?tb' = "tb_list (add_to_timer tid st)"
  have ring: "ring_links ?tb (h # t)" and head: "tb_chain st = int h"
    and on: "\<forall>i. f_next (?tb i) \<noteq> 0 \<longleftrightarrow> i \<in> set (h # t)" and z: "0 \<notin> set (h # t)"
    using assms(1) Cons by (simp_all add: chain_def)
  have prev: "f_prev (?tb h) = last (h # t)" using ring_prev [OF ring] .
  have neq: "h \<noteq> tid" "last (h # t) \<noteq> tid"
    using assms(2) Cons last_in_set [of "h # t"] by (auto simp del: last.simps)
  have upd: "f_next (?tb' i) = (if i = tid then h else if i = last (h # t) then tid else f_next (?tb i))"
      "f_prev (?tb' i) = (if i = h then tid else if i = tid then last (h # t) else f_prev (?tb i))" for i
    using assms(4) head neq prev by (auto simp: add_to_timer_def Let_def simp del: last.simps)
  have "ring_links ?tb' (h # t @ [tid])"
    by (rule ring_links_snoc [OF ring]) (use assms(2) Cons neq upd in \<open>simp_all del: last.simps\<close>)
  moreover have "tb_chain (add_to_timer tid st) = int h"
    using assms(4) head by (simp add: add_to_timer_def Let_def)
  moreover have "f_next (?tb' i) \<noteq> 0 \<longleftrightarrow> i \<in> set (h # t @ [tid])" for i
    using on z assms(3) last_in_set [of "h # t"] upd(1) [of i] by (auto simp del: last.simps)
  ultimately show ?thesis
    using z assms(3) Cons by (simp add: chain_def)
qed

lemma chain_del:
  assumes "chain st xs" and "tid \<in> set xs" and "tb_ready st"
  shows "chain (del_from_timer tid st) (remove1 tid xs)"
proof -
  let ?tb = "tb_list st" and ?tb' = "tb_list (del_from_timer tid st)"
  obtain as bs where xs: "xs = as @ tid # bs" and fresh: "tid \<notin> set as"
    using assms(2) by (meson split_list_first)
  have ring: "ring_links ?tb (tid # bs @ as)" and z: "0 \<notin> set xs"
    and on: "\<forall>i. f_next (?tb i) \<noteq> 0 \<longleftrightarrow> i \<in> set xs"
    and head: "tb_chain st = int (hd (as @ tid # bs))"
    using assms(1) ring_links_rotate [of ?tb as "tid # bs"] xs by (simp_all add: chain_def)
  have d: "distinct (tid # bs @ as)" using ring by (simp add: ring_links_def)
  have rem: "remove1 tid xs = as @ bs" using xs fresh by (simp add: remove1_append)
  show ?thesis
  proof (cases "bs @ as")
    case Nil
    with ring have "f_next (?tb tid) = tid" by (simp add: ring_links_def)
    then show ?thesis
      using Nil assms(3) on head xs rem
      by (auto simp: chain_def del_from_timer_def Let_def ring_links_def)
  next
    case (Cons h t)
    have n: "f_next (?tb tid) = h" and p: "f_prev (?tb tid) = last (h # t)"
      using ring_next [of ?tb tid h t] ring_prev [of ?tb tid "h # t"] ring Cons by simp_all
    have neq: "h \<noteq> tid" "last (h # t) \<noteq> tid"
      using d Cons last_in_set [of "h # t"] by (auto simp del: last.simps)
    have upd: "f_next (?tb' i) = (if i = tid then 0 else if i = last (h # t) then h else f_next (?tb i))"
        "f_prev (?tb' i) = (if i = tid then 0 else if i = h then last (h # t) else f_prev (?tb i))" for i
      using assms(3) neq n p by (auto simp: del_from_timer_def Let_def simp del: last.simps)
    have "ring_links ?tb (tid # h # t)" using ring Cons by simp
    then have "ring_links ?tb' (h # t)"
      by (rule ring_links_tail) (use upd in \<open>simp_all del: last.simps\<close>)
    then have "ring_links ?tb' (as @ bs)"
      using ring_links_rotate [of ?tb' bs as] Cons by simp
    moreover have "tb_chain (del_from_timer tid st) = int (hd (as @ bs))"
    proof (cases as)
      case Nil
      then show ?thesis
        using assms(3) neq n p head Cons by (simp add: del_from_timer_def Let_def del: last.simps)
    next
      case as: (Cons a as')
      then have "a \<noteq> tid" using fresh by simp
      with as show ?thesis
        using assms(3) neq n p head by (simp add: del_from_timer_def Let_def del: last.simps)
    qed
    moreover have "f_next (?tb' i) \<noteq> 0 \<longleftrightarrow> i \<in> set (as @ bs)" for i
    proof -
      have s: "set (as @ bs) = set (h # t)" using Cons by (metis Un_commute set_append)
      have xs': "set xs = insert tid (set (h # t))" using xs s by auto
      have tid: "tid \<notin> set (h # t)" using d Cons by auto
      have "h \<noteq> 0" using z xs' by auto
      have last: "last (h # t) \<in> set (h # t)" by (rule last_in_set) simp
      consider "i = tid" | "i \<noteq> tid" "i = last (h # t)" | "i \<noteq> tid" "i \<noteq> last (h # t)" by blast
      then show ?thesis
      proof cases
        case 2
        with upd(1) [of i] last \<open>h \<noteq> 0\<close> show ?thesis unfolding s by simp
      next
        case 3
        have "i \<in> set xs \<longleftrightarrow> i \<in> set (h # t)" unfolding xs' using 3 by simp
        with 3 upd(1) [of i] on show ?thesis unfolding s by (simp del: last.simps)
      qed (use tid upd(1) [of i] in \<open>simp add: s del: set_append\<close>)
    qed
    moreover have "as @ bs \<noteq> []" using Cons by auto
    ultimately show ?thesis
      using z xs rem by (simp add: chain_def)
  qed
qed

text \<open>What the chain operations leave alone.\<close>

definition same_filters :: "tbf_state \<Rightarrow> tbf_state \<Rightarrow> bool" where
  "same_filters st st' \<longleftrightarrow> tb_ready st' = tb_ready st \<and> tb_size st' = tb_size st \<and>
     tb_p st' = tb_p st \<and> tb_sent st' = tb_sent st \<and>
     (\<forall>i. (tb_list st' i)\<lparr>f_next := 0, f_prev := 0\<rparr> = (tb_list st i)\<lparr>f_next := 0, f_prev := 0\<rparr>)"

lemma same_filters_refl: "same_filters st st"
  by (simp add: same_filters_def)

lemma same_filters_upd:
  "same_filters st st' \<Longrightarrow> (\<And>f. (g f)\<lparr>f_next := 0, f_prev := 0\<rparr> = f\<lparr>f_next := 0, f_prev := 0\<rparr>) \<Longrightarrow>
     same_filters st (tb_upd i g st')"
  by (simp add: same_filters_def)

lemma same_filters_chain: "same_filters st st' \<Longrightarrow> same_filters st (st'\<lparr>tb_chain := c\<rparr>)"
  by (simp add: same_filters_def)

lemma same_filters_add: "same_filters st (add_to_timer tid st)"
  unfolding add_to_timer_def Let_def
  by (simp add: same_filters_refl same_filters_upd same_filters_chain)

lemma same_filters_del: "same_filters st (del_from_timer tid st)"
  unfolding del_from_timer_def Let_def
  by (simp add: same_filters_refl same_filters_upd same_filters_chain)


subsection \<open>The packet queue of a filter\<close>

text \<open>The contract of a bounded first-in first-out queue, and the ring buffer as an instance.\<close>

locale fifo =
  fixes enq :: "'a \<Rightarrow> 's \<Rightarrow> 's" and deq :: "'s \<Rightarrow> 's" and front :: "'s \<Rightarrow> 'a"
    and items :: "'s \<Rightarrow> 'a list" and inv :: "'s \<Rightarrow> bool" and cap :: nat
  assumes enq_items: "inv s \<Longrightarrow> length (items s) < cap \<Longrightarrow> items (enq a s) = items s @ [a]"
    and enq_inv: "inv s \<Longrightarrow> length (items s) < cap \<Longrightarrow> inv (enq a s)"
    and deq_items: "inv s \<Longrightarrow> items s \<noteq> [] \<Longrightarrow> items (deq s) = tl (items s)"
    and deq_inv: "inv s \<Longrightarrow> items s \<noteq> [] \<Longrightarrow> inv (deq s)"
    and front_items: "inv s \<Longrightarrow> items s \<noteq> [] \<Longrightarrow> front s = hd (items s)"
begin

lemma front_deq: "inv s \<Longrightarrow> items s \<noteq> [] \<Longrightarrow> items s = front s # items (deq s)"
  by (simp add: deq_items front_items)

lemma enq_not_empty: "inv s \<Longrightarrow> length (items s) < cap \<Longrightarrow> items (enq a s) \<noteq> []"
  by (simp add: enq_items)

lemma deq_enq_singleton:
  "inv s \<Longrightarrow> items s = [] \<Longrightarrow> 0 < cap \<Longrightarrow> front (enq a s) = a \<and> items (deq (enq a s)) = []"
  by (simp add: enq_items enq_inv deq_items front_items)

end

definition rb_front :: "tbft \<Rightarrow> bytes" where
  "rb_front f = take (f_sizes f ! f_oldest f) (f_packets f ! f_oldest f)"

definition rb_enq :: "bytes \<Rightarrow> tbft \<Rightarrow> tbft" where
  "rb_enq data f =
     (let i = (f_oldest f + f_queued f) mod TBF_MAX_QUEUE in
      f\<lparr>f_packets := (f_packets f)[i := data], f_sizes := (f_sizes f)[i := length data],
        f_queued := f_queued f + 1\<rparr>)"

definition rb_deq :: "tbft \<Rightarrow> tbft" where
  "rb_deq f = f\<lparr>f_oldest := (f_oldest f + 1) mod TBF_MAX_QUEUE, f_queued := f_queued f - 1\<rparr>"

definition rb_items :: "tbft \<Rightarrow> bytes list" where
  "rb_items f = map (\<lambda>k. take (f_sizes f ! ((f_oldest f + k) mod TBF_MAX_QUEUE))
     (f_packets f ! ((f_oldest f + k) mod TBF_MAX_QUEUE))) [0..<f_queued f]"

definition rb_inv :: "tbft \<Rightarrow> bool" where
  "rb_inv f \<longleftrightarrow> length (f_sizes f) = TBF_MAX_QUEUE \<and> length (f_packets f) = TBF_MAX_QUEUE \<and>
     f_oldest f < TBF_MAX_QUEUE \<and> f_queued f \<le> TBF_MAX_QUEUE \<and>
     (\<forall>i < TBF_MAX_QUEUE. f_sizes f ! i = length (f_packets f ! i))"

lemma length_rb_items [simp]: "length (rb_items f) = f_queued f"
  by (simp add: rb_items_def)

lemma two_cases: "(n :: nat) < 2 \<longleftrightarrow> n = 0 \<or> n = 1" "(n :: nat) \<le> 2 \<longleftrightarrow> n = 0 \<or> n = 1 \<or> n = 2"
  by auto

lemma all_less_two: "(\<forall>i < (2::nat). P i) \<longleftrightarrow> P 0 \<and> P 1"
  by (auto simp: two_cases)

lemma list_two: "length xs = 2 \<longleftrightarrow> (\<exists>a b. xs = [a, b])"
  by (auto simp: numeral_2_eq_2 length_Suc_conv)

lemmas rb_defs = rb_inv_def rb_items_def rb_front_def rb_enq_def rb_deq_def TBF_MAX_QUEUE_def

interpretation rb: fifo rb_enq rb_deq rb_front rb_items rb_inv TBF_MAX_QUEUE
proof unfold_locales
  fix s :: tbft and a :: bytes
  assume inv: "rb_inv s"
  then have old: "f_oldest s = 0 \<or> f_oldest s = 1"
    by (auto simp: rb_inv_def TBF_MAX_QUEUE_def two_cases)
  obtain x y where pk: "f_packets s = [x, y]" and sz: "f_sizes s = [length x, length y]"
  proof -
    have l: "length (f_sizes s) = 2" "length (f_packets s) = 2"
      and e: "f_sizes s ! 0 = length (f_packets s ! 0)" "f_sizes s ! 1 = length (f_packets s ! 1)"
      using inv by (auto simp: rb_inv_def TBF_MAX_QUEUE_def)
    from l obtain a b x y where "f_sizes s = [a, b]" "f_packets s = [x, y]"
      unfolding list_two by blast
    with e that show thesis by simp
  qed
  {
    assume "length (rb_items s) < TBF_MAX_QUEUE"
    then have q: "f_queued s = 0 \<or> f_queued s = 1" by (auto simp: TBF_MAX_QUEUE_def)
    show "rb_items (rb_enq a s) = rb_items s @ [a]"
      using q old by (elim disjE) (auto simp: rb_defs pk sz Let_def)
    show "rb_inv (rb_enq a s)"
      using q old inv by (elim disjE) (auto simp: rb_defs pk sz Let_def all_less_two)
  }
  {
    assume "rb_items s \<noteq> []"
    then have "0 < f_queued s" by (auto simp: rb_items_def)
    then have q: "f_queued s = 1 \<or> f_queued s = 2"
      using inv by (auto simp: rb_inv_def TBF_MAX_QUEUE_def)
    show "rb_items (rb_deq s) = tl (rb_items s)"
      using q old by (elim disjE) (auto simp: rb_defs pk sz upt_rec)
    show "rb_inv (rb_deq s)"
      using q old inv by (elim disjE) (auto simp: rb_defs pk sz all_less_two)
    show "rb_front s = hd (rb_items s)"
      using q old by (elim disjE) (auto simp: rb_defs pk sz upt_rec)
  }
qed

subsection \<open>Operations\<close>

text \<open>Sending a packet of a filter: the callback, or a drop if there is none.\<close>

definition tbf_emit :: "nat \<Rightarrow> bytes \<Rightarrow> tbf_state \<Rightarrow> tbf_state" where
  "tbf_emit tid data st =
     (let f = tb_list st tid; n = of_nat (length data) in
      case f_send f of
        Some fn \<Rightarrow>
          (tb_upd tid (\<lambda>f. f\<lparr>f_b_sent := f_b_sent f + n, f_p_sent := f_p_sent f + 1\<rparr>) st)
            \<lparr>tb_sent := tb_sent st @ [(tid, fn, f_sid f, data)]\<rparr>
      | None \<Rightarrow>
          tb_upd tid (\<lambda>f. f\<lparr>f_b_dropped := f_b_dropped f + n, f_p_dropped := f_p_dropped f + 1\<rparr>) st)"

text \<open>
  The credit earned since the last run: \<open>TIME\<close> is unsigned, so the whole product is computed
  modulo 2^32.
\<close>

definition tbf_earned :: "u32 \<Rightarrow> tbft \<Rightarrow> u32" where
  "tbf_earned now f = (now - of_int (f_lasttime f)) * of_int (f_rate f) div 10"

definition tbf_credit :: "u32 \<Rightarrow> tbft \<Rightarrow> tbft" where
  "tbf_credit now f =
     (let c = sint (of_int (f_credit f) + tbf_earned now f) in
      f\<lparr>f_credit := (if c > f_max_credit f then f_max_credit f else c), f_lasttime := sint now\<rparr>)"

function tbf_drain :: "nat \<Rightarrow> tbf_state \<Rightarrow> tbf_state" where
  "tbf_drain tid st =
     (let f = tb_list st tid in
      if f_queued f > 0 \<and> f_credit f \<ge> int (f_sizes f ! f_oldest f)
      then tbf_drain tid
             (tb_upd tid (\<lambda>f. rb_deq (f\<lparr>f_credit := f_credit f - int (f_sizes f ! f_oldest f)\<rparr>))
               (tbf_emit tid (rb_front f) st))
      else st)"
  by pat_completeness auto
termination
  by (relation "measure (\<lambda>(tid, st). f_queued (tb_list st tid))")
    (auto simp: tbf_emit_def Let_def rb_deq_def split: option.split)

declare tbf_drain.simps [simp del]

definition tbf_run_queue :: "u32 \<Rightarrow> nat \<Rightarrow> tbf_state \<Rightarrow> tbf_state" where
  "tbf_run_queue now tid st =
     (if \<not> tb_ready st then st
      else (let st1 = tbf_drain tid (tb_upd tid (tbf_credit now) st) in
            if f_queued (tb_list st1 tid) \<noteq> 0 then st1
            else if f_next (tb_list st1 tid) \<noteq> 0 then del_from_timer tid st1
            else st1))"

text \<open>
  \<open>tbf_queue_packet\<close>. The range check lets the index \<open>filter_list_size\<close> through, which lies
  behind the array.
\<close>

definition tbf_queue_packet :: "u32 \<Rightarrow> int \<Rightarrow> bytes \<Rightarrow> tbf_state \<Rightarrow> (tbf_state \<times> int) outcome" where
  "tbf_queue_packet now tbf_id data st =
     (let tid = nat tbf_id; size = length data in
      if \<not> tb_ready st then Ret (st, -1)
      else if tbf_id > int (tb_size st) \<or> tbf_id < 1 then Ret (st, -1)
      else if tid = tb_size st then Undef
      else if f_sid (tb_list st tid) = 0 then Ret (st, -1)
      else
        (let st1 = tb_upd tid (\<lambda>f. f\<lparr>f_b_queued := f_b_queued f + of_nat size,
                                    f_p_queued := f_p_queued f + 1\<rparr>) (tbf_run_queue now tid st);
             f = tb_list st1 tid;
             drop_packet = tb_upd tid (\<lambda>f. f\<lparr>f_b_dropped := f_b_dropped f + of_nat size,
                                    f_p_dropped := f_p_dropped f + 1\<rparr>) st1
         in if f_queued f = 0 \<and> f_credit f > int size
            then Ret (tbf_emit tid data
                   (tb_upd tid (\<lambda>f. f\<lparr>f_credit := f_credit f - int size\<rparr>) st1), int size)
            else if f_queued f \<ge> TBF_MAX_QUEUE then Ret (drop_packet, -1)
            else if size \<ge> TBF_MAX_SIZE then Ret (drop_packet, -1)
            else
              (let st2 = tb_upd tid (\<lambda>f. (rb_enq data f)\<lparr>f_p_delayed := f_p_delayed f + 1\<rparr>) st1
               in Ret (if f_next (tb_list st2 tid) = 0 then add_to_timer tid st2 else st2, 0))))"

text \<open>The timer walk: \<open>tail\<close> is the last element of the chain when the walk starts.\<close>

fun tbf_timer_loop :: "nat \<Rightarrow> u32 \<Rightarrow> nat \<Rightarrow> nat \<Rightarrow> tbf_state \<Rightarrow> tbf_state" where
  "tbf_timer_loop count now tail i st =
     (let next = f_next (tb_list st i);
          st1 = tbf_run_queue now i st
      in if tb_chain st1 > 0 \<and> next \<noteq> 0 \<and> i \<noteq> tail
         then (case count of 0 \<Rightarrow> st1
               | Suc c \<Rightarrow> if c > 0 then tbf_timer_loop c now tail next st1 else st1)
         else st1)"

declare tbf_timer_loop.simps [simp del]

definition tbf_run_timer :: "u32 \<Rightarrow> tbf_state \<Rightarrow> tbf_state \<times> int" where
  "tbf_run_timer now st =
     (if tb_chain st < 0 then (st, 0)
      else if \<not> tb_ready st then (st, 0)
      else (let i = nat (tb_chain st)
            in (tbf_timer_loop (tb_size st + 1) now (f_prev (tb_list st i)) i st, 1)))"

definition free_tbf :: "int \<Rightarrow> tbf_state \<Rightarrow> tbf_state \<times> int" where
  "free_tbf tid st =
     (if tid < 1 then (st, -1)
      else if \<not> tb_ready st then (st, -1)
      else (let t = nat tid;
                st1 = (if f_next (tb_list st t) \<noteq> 0 then del_from_timer t st else st)
            in (tb_upd t (\<lambda>f. f\<lparr>f_sid := 0\<rparr>) st1, 0)))"

text \<open>The search of \<open>new_tbf\<close>; \<open>n\<close> is the number of filters left to look at.\<close>

fun new_tbf_loop :: "nat \<Rightarrow> int \<Rightarrow> int \<Rightarrow> int \<Rightarrow> tbf_send option \<Rightarrow> tbf_state \<Rightarrow> tbf_state \<times> nat" where
  "new_tbf_loop 0 sid max_credit rate fn st = (st, 0)"
| "new_tbf_loop (Suc n) sid max_credit rate fn st =
     (let p = tb_p st in
      if f_sid (tb_list st p) \<noteq> 0
      then new_tbf_loop n sid max_credit rate fn (st\<lparr>tb_p := (p + 1) mod tb_size st\<rparr>)
      else (tb_upd p (\<lambda>_. tbf_zero\<lparr>f_sid := id16 sid, f_credit := max_credit,
              f_max_credit := max_credit, f_rate := rate, f_send := fn\<rparr>) st, p))"

definition new_tbf :: "int \<Rightarrow> int \<Rightarrow> int \<Rightarrow> tbf_send option \<Rightarrow> tbf_state \<Rightarrow> tbf_state \<times> nat" where
  "new_tbf sid max_credit rate fn st =
     (if \<not> tb_ready st then (st, 0) else new_tbf_loop (tb_size st) sid max_credit rate fn st)"

text \<open>The two loops of \<open>fsck_tbfs\<close>, run when a node becomes master.\<close>

definition fsck_free :: "(nat \<Rightarrow> sessiont) \<Rightarrow> nat \<Rightarrow> tbf_state \<Rightarrow> tbf_state" where
  "fsck_free sess i st =
     (let sid = f_sid (tb_list st i) in
      if sid = 0 then st
      else if i \<noteq> s_tbf_in (sess sid) \<and> i \<noteq> s_tbf_out (sess sid) then fst (free_tbf (int i) st)
      else st)"

definition fsck_claim :: "(nat \<Rightarrow> sessiont) \<Rightarrow> nat \<Rightarrow> tbf_state \<Rightarrow> tbf_state" where
  "fsck_claim sess i st =
     (let claim = (\<lambda>t st. if t \<noteq> 0 \<and> f_sid (tb_list st t) \<noteq> i
                          then tb_upd t (\<lambda>f. f\<lparr>f_sid := i\<rparr>) st else st)
      in claim (s_tbf_out (sess i)) (claim (s_tbf_in (sess i)) st))"

definition fsck_tbfs :: "(nat \<Rightarrow> sessiont) \<Rightarrow> nat \<Rightarrow> tbf_state \<Rightarrow> tbf_state" where
  "fsck_tbfs sess highest st =
     (if \<not> tb_ready st then st
      else fold (fsck_claim sess) [0..<highest] (fold (fsck_free sess) [1..<tb_size st] st))"

end
