(* ===== verification/TbfProps.thy ===== *)
theory TbfProps
  imports Tbf
begin

text \<open>
  What the token bucket filters promise: bounded credit and exact accounting in every reachable
  state, first-in first-out delivery without loss, a rate limit, and a timer walk that visits every
  waiting filter.
\<close>

subsection \<open>Filters that are as they should be\<close>

definition bytes_in :: "bytes list \<Rightarrow> nat" where
  "bytes_in ds = sum_list (map length ds)"

lemma bytes_in_simps [simp]:
  "bytes_in [] = 0" "bytes_in (d # ds) = length d + bytes_in ds"
  "bytes_in (ds @ es) = bytes_in ds + bytes_in es"
  by (simp_all add: bytes_in_def)

definition credit_limit :: int where
  "credit_limit = 1700000000"

definition filter_ok :: "tbft \<Rightarrow> bool" where
  "filter_ok f \<longleftrightarrow> rb_inv f \<and> 0 \<le> f_credit f \<and> f_credit f \<le> f_max_credit f \<and>
     f_max_credit f \<le> credit_limit \<and> (\<forall>d \<in> set (rb_items f). length d < TBF_MAX_SIZE) \<and>
     f_b_queued f = f_b_sent f + f_b_dropped f + of_nat (bytes_in (rb_items f)) \<and>
     f_p_queued f = f_p_sent f + f_p_dropped f + of_nat (f_queued f)"

text \<open>The part of a filter that its queue depends on.\<close>

definition rb_part :: "tbft \<Rightarrow> nat \<times> nat \<times> nat list \<times> bytes list" where
  "rb_part f = (f_oldest f, f_queued f, f_sizes f, f_packets f)"

lemma rb_cong: "rb_part f = rb_part g \<Longrightarrow> rb_items f = rb_items g \<and> rb_inv f = rb_inv g \<and>
    rb_front f = rb_front g"
  by (simp add: rb_part_def rb_items_def rb_inv_def rb_front_def)

text \<open>A step of the filter \<open>tid\<close> changes nothing but its own counters and queue.\<close>

definition own_step :: "nat \<Rightarrow> tbf_state \<Rightarrow> tbf_state \<Rightarrow> bool" where
  "own_step tid st st' \<longleftrightarrow> tb_ready st' = tb_ready st \<and> tb_size st' = tb_size st \<and>
     tb_chain st' = tb_chain st \<and> tb_p st' = tb_p st \<and>
     (\<forall>j. j \<noteq> tid \<longrightarrow> tb_list st' j = tb_list st j) \<and>
     (let f = tb_list st tid; g = tb_list st' tid in
      f_next g = f_next f \<and> f_prev g = f_prev f \<and> f_sid g = f_sid f \<and> f_send g = f_send f \<and>
      f_max_credit g = f_max_credit f \<and> f_rate g = f_rate f \<and> f_lasttime g = f_lasttime f)"

lemma own_step_refl: "own_step tid st st"
  by (simp add: own_step_def Let_def)

lemma own_step_trans: "own_step tid a b \<Longrightarrow> own_step tid b c \<Longrightarrow> own_step tid a c"
  by (simp add: own_step_def Let_def)

definition log_of :: "nat \<Rightarrow> tbft \<Rightarrow> bytes list \<Rightarrow> (nat \<times> tbf_send \<times> sessionidt \<times> bytes) list" where
  "log_of tid f ds = (case f_send f of None \<Rightarrow> [] | Some fn \<Rightarrow> map (\<lambda>d. (tid, fn, f_sid f, d)) ds)"

lemma log_of_Nil [simp]: "log_of tid f [] = []"
  by (simp add: log_of_def split: option.split)

lemma log_of_Cons: "log_of tid f (d # ds) = log_of tid f [d] @ log_of tid f ds"
  by (simp add: log_of_def split: option.split)

lemma front_size: "rb_inv f \<Longrightarrow> f_queued f > 0 \<Longrightarrow> f_sizes f ! f_oldest f = length (hd (rb_items f))"
  by (simp add: rb_items_def rb_inv_def upt_rec)

text \<open>One packet leaves the queue.\<close>

definition drain_step :: "nat \<Rightarrow> tbf_state \<Rightarrow> tbf_state" where
  "drain_step tid st =
     tb_upd tid (\<lambda>f. rb_deq (f\<lparr>f_credit := f_credit f - int (f_sizes f ! f_oldest f)\<rparr>))
       (tbf_emit tid (rb_front (tb_list st tid)) st)"

lemma drain_step_effect:
  assumes ok: "filter_ok (tb_list st tid)" and q: "f_queued (tb_list st tid) > 0"
    and c: "f_credit (tb_list st tid) \<ge> int (f_sizes (tb_list st tid) ! f_oldest (tb_list st tid))"
  defines "f \<equiv> tb_list st tid" and "g \<equiv> tb_list (drain_step tid st) tid"
  shows "filter_ok g" "own_step tid st (drain_step tid st)"
    "rb_items g = tl (rb_items f)"
    "f_credit g = f_credit f - int (length (hd (rb_items f)))"
    "tb_sent (drain_step tid st) = tb_sent st @ log_of tid f [hd (rb_items f)]"
proof -
  have inv: "rb_inv f" and ne: "rb_items f \<noteq> []"
    using ok q by (auto simp: filter_ok_def f_def rb_items_def)
  have size: "f_sizes f ! f_oldest f = length (hd (rb_items f))"
    using front_size inv q by (simp add: f_def)
  have part: "rb_part g = rb_part (rb_deq f)"
    by (simp add: g_def f_def drain_step_def tbf_emit_def Let_def rb_part_def rb_deq_def
        split: option.split)
  show items: "rb_items g = tl (rb_items f)"
    using rb_cong [OF part] rb.deq_items [OF inv ne] by simp
  show cr: "f_credit g = f_credit f - int (length (hd (rb_items f)))"
    using size by (simp add: g_def f_def drain_step_def tbf_emit_def Let_def rb_deq_def split: option.split)
  show "tb_sent (drain_step tid st) = tb_sent st @ log_of tid f [hd (rb_items f)]"
    using rb.front_items [OF inv ne]
    by (simp add: f_def drain_step_def tbf_emit_def Let_def log_of_def split: option.split)
  show "own_step tid st (drain_step tid st)"
    by (simp add: own_step_def drain_step_def tbf_emit_def Let_def rb_deq_def split: option.split)
  obtain d ds where it: "rb_items f = d # ds" using ne by (cases "rb_items f") auto
  have front: "rb_front f = d" using rb.front_items [OF inv ne] it by simp
  have n: "f_queued f = Suc (length ds)" using it by (metis length_Cons length_rb_items)
  have cnt: "f_b_queued g = f_b_queued f" "f_p_queued g = f_p_queued f"
      "f_b_sent g + f_b_dropped g = f_b_sent f + f_b_dropped f + of_nat (length d)"
      "f_p_sent g + f_p_dropped g = f_p_sent f + f_p_dropped f + 1"
      "f_queued g = length ds" "f_max_credit g = f_max_credit f"
    using front n by (simp_all add: g_def f_def drain_step_def tbf_emit_def Let_def rb_deq_def split: option.split)
  have "rb_inv g" using rb_cong [OF part] rb.deq_inv [OF inv ne] by simp
  moreover have "0 \<le> f_credit g" using cr c size by (simp add: f_def)
  moreover have "f_b_queued g = f_b_sent g + f_b_dropped g + of_nat (bytes_in (rb_items g))"
    unfolding cnt items it using ok it by (simp add: filter_ok_def f_def [symmetric] algebra_simps)
  moreover have "f_p_queued g = f_p_sent g + f_p_dropped g + of_nat (f_queued g)"
    unfolding cnt using ok n by (simp add: filter_ok_def f_def [symmetric] algebra_simps)
  ultimately show "filter_ok g"
    using ok items cr it cnt(6) by (auto simp: filter_ok_def f_def [symmetric])
qed

lemma drain_effect:
  assumes "filter_ok (tb_list st tid)"
  defines "f \<equiv> tb_list st tid" and "g \<equiv> tb_list (tbf_drain tid st) tid"
  shows "filter_ok g \<and> own_step tid st (tbf_drain tid st) \<and>
    (\<exists>ds. rb_items f = ds @ rb_items g \<and> f_credit g = f_credit f - int (bytes_in ds) \<and>
       tb_sent (tbf_drain tid st) = tb_sent st @ log_of tid f ds) \<and>
    (rb_items g = [] \<or> f_credit g < int (length (hd (rb_items g))))"
  using assms(1) unfolding f_def g_def
proof (induction tid st rule: tbf_drain.induct)
  case (1 tid st)
  let ?f = "tb_list st tid"
  have inv: "rb_inv ?f" using "1.prems" by (simp add: filter_ok_def)
  show ?case
  proof (cases "f_queued ?f > 0 \<and> f_credit ?f \<ge> int (f_sizes ?f ! f_oldest ?f)")
    case True
    let ?st = "drain_step tid st"
    have eq: "tbf_drain tid st = tbf_drain tid ?st"
      using True by (simp add: tbf_drain.simps [of tid st] drain_step_def Let_def)
    note step = drain_step_effect [OF "1.prems", OF True [THEN conjunct1] True [THEN conjunct2]]
    have ne: "rb_items ?f \<noteq> []" using True by (auto simp: rb_items_def)
    have IH: "filter_ok (tb_list (tbf_drain tid ?st) tid) \<and> own_step tid ?st (tbf_drain tid ?st) \<and>
      (\<exists>ds. rb_items (tb_list ?st tid) = ds @ rb_items (tb_list (tbf_drain tid ?st) tid) \<and>
         f_credit (tb_list (tbf_drain tid ?st) tid) = f_credit (tb_list ?st tid) - int (bytes_in ds) \<and>
         tb_sent (tbf_drain tid ?st) = tb_sent ?st @ log_of tid (tb_list ?st tid) ds) \<and>
      (rb_items (tb_list (tbf_drain tid ?st) tid) = [] \<or>
       f_credit (tb_list (tbf_drain tid ?st) tid) < int (length (hd (rb_items (tb_list (tbf_drain tid ?st) tid)))))"
      using "1.IH" [OF refl] True step(1) by (simp add: drain_step_def)
    then obtain ds where ds: "rb_items (tb_list ?st tid) = ds @ rb_items (tb_list (tbf_drain tid ?st) tid)"
        "f_credit (tb_list (tbf_drain tid ?st) tid) = f_credit (tb_list ?st tid) - int (bytes_in ds)"
        "tb_sent (tbf_drain tid ?st) = tb_sent ?st @ log_of tid (tb_list ?st tid) ds" by blast
    have log: "log_of tid (tb_list ?st tid) ds = log_of tid ?f ds"
      using step(2) by (simp add: log_of_def own_step_def Let_def split: option.split)
    have A: "rb_items ?f = (hd (rb_items ?f) # ds) @ rb_items (tb_list (tbf_drain tid ?st) tid)"
      using ds(1) step(3) ne by (metis append_Cons list.collapse)
    have B: "f_credit (tb_list (tbf_drain tid ?st) tid) = f_credit ?f - int (bytes_in (hd (rb_items ?f) # ds))"
      using ds(2) step(4) by simp
    have C: "tb_sent (tbf_drain tid ?st) = tb_sent st @ log_of tid ?f (hd (rb_items ?f) # ds)"
      unfolding log_of_Cons [of tid ?f "hd (rb_items ?f)" ds] ds(3) step(5) log by simp
    have D: "own_step tid st (tbf_drain tid ?st)"
      using own_step_trans [OF step(2)] IH by simp
    show ?thesis
      unfolding eq
      by (intro conjI exI [of _ "hd (rb_items ?f) # ds"]) (use A B C D IH in \<open>blast+\<close>)
  next
    case False
    have eq: "tbf_drain tid st = st"
      using False by (subst tbf_drain.simps) (auto simp: Let_def)
    have "rb_items ?f = [] \<or> f_credit ?f < int (length (hd (rb_items ?f)))"
      using False front_size [OF inv] by (cases "f_queued ?f = 0") (auto simp: rb_items_def)
    then show ?thesis
      unfolding eq using "1.prems" own_step_refl
      by (auto intro: exI [of _ "[]"])
  qed
qed


subsection \<open>Running a filter\<close>

text \<open>Filters up to their links, and steps that change the filter \<open>tid\<close> and links only.\<close>

definition strip :: "tbft \<Rightarrow> tbft" where
  "strip f = f\<lparr>f_next := 0, f_prev := 0\<rparr>"

lemma strip_eqD:
  assumes "strip f = strip g"
  shows "rb_items f = rb_items g" "rb_inv f = rb_inv g" "filter_ok f = filter_ok g"
    "f_credit f = f_credit g" "f_queued f = f_queued g" "f_sid f = f_sid g" "f_send f = f_send g"
    "f_rate f = f_rate g" "f_max_credit f = f_max_credit g" "f_lasttime f = f_lasttime g"
    "log_of tid f = log_of tid g"
proof -
  have "rb_part f = rb_part g" and *: "f_credit f = f_credit g" "f_queued f = f_queued g"
      "f_sid f = f_sid g" "f_send f = f_send g" "f_rate f = f_rate g" "f_max_credit f = f_max_credit g"
      "f_lasttime f = f_lasttime g" "f_b_queued f = f_b_queued g" "f_b_sent f = f_b_sent g"
      "f_b_dropped f = f_b_dropped g" "f_p_queued f = f_p_queued g" "f_p_sent f = f_p_sent g"
      "f_p_dropped f = f_p_dropped g"
    using assms by (cases f; cases g; simp add: strip_def rb_part_def)+
  then have r: "rb_items f = rb_items g" "rb_inv f = rb_inv g" using rb_cong by blast+
  show "rb_items f = rb_items g" "rb_inv f = rb_inv g" "filter_ok f = filter_ok g"
    "f_credit f = f_credit g" "f_queued f = f_queued g" "f_sid f = f_sid g" "f_send f = f_send g"
    "f_rate f = f_rate g" "f_max_credit f = f_max_credit g" "f_lasttime f = f_lasttime g"
    "log_of tid f = log_of tid g"
    using r * by (simp_all add: filter_ok_def log_of_def fun_eq_iff split: option.split)
qed

definition filter_step :: "nat \<Rightarrow> tbf_state \<Rightarrow> tbf_state \<Rightarrow> bool" where
  "filter_step tid st st' \<longleftrightarrow> tb_ready st' = tb_ready st \<and> tb_size st' = tb_size st \<and>
     tb_p st' = tb_p st \<and> (\<forall>j. j \<noteq> tid \<longrightarrow> strip (tb_list st' j) = strip (tb_list st j)) \<and>
     f_sid (tb_list st' tid) = f_sid (tb_list st tid) \<and>
     f_send (tb_list st' tid) = f_send (tb_list st tid) \<and>
     f_rate (tb_list st' tid) = f_rate (tb_list st tid) \<and>
     f_max_credit (tb_list st' tid) = f_max_credit (tb_list st tid)"

lemma filter_step_trans: "filter_step tid a b \<Longrightarrow> filter_step tid b c \<Longrightarrow> filter_step tid a c"
  by (simp add: filter_step_def)

lemma filter_step_own: "own_step tid a b \<Longrightarrow> filter_step tid a b"
  by (simp add: own_step_def filter_step_def Let_def)

lemma filter_step_same: "same_filters a b \<Longrightarrow> filter_step tid a b"
  unfolding same_filters_def filter_step_def strip_def [symmetric]
  using strip_eqD by blast

lemma same_filters_strip: "same_filters a b \<Longrightarrow> strip (tb_list b i) = strip (tb_list a i) \<and> tb_sent b = tb_sent a"
  by (simp add: same_filters_def strip_def)

lemma chain_own:
  "own_step tid a b \<Longrightarrow> chain a xs \<Longrightarrow> chain b xs"
proof -
  assume o: "own_step tid a b" and c: "chain a xs"
  have links: "f_next (tb_list b i) = f_next (tb_list a i) \<and> f_prev (tb_list b i) = f_prev (tb_list a i)" for i
    using o by (cases "i = tid") (auto simp: own_step_def Let_def)
  then have "ring_links (tb_list b) xs"
    using c ring_links_cong unfolding chain_def by blast
  with o c links show ?thesis by (simp add: chain_def own_step_def)
qed

text \<open>The credit gained; within \<open>credit_limit\<close> the machine addition does not overflow.\<close>

lemma sint_credit:
  fixes e :: u32
  assumes "0 \<le> c" and "c \<le> credit_limit" and "uint e \<le> 429496729"
  shows "sint (of_int c + e) = c + uint e"
proof -
  have "of_int c + e = of_int (c + uint e)" by simp
  moreover have "signed_take_bit 31 (c + uint e) = c + uint e"
    using assms by (intro signed_take_bit_int_eq_self) (simp_all add: credit_limit_def, smt (verit) uint_ge_0)
  ultimately show ?thesis
    by (simp only: signed_of_int) simp
qed

lemma earned_bound: "uint (tbf_earned now f) \<le> 429496729"
proof -
  have "uint (x div 10 :: u32) \<le> 429496729" for x
    using uint_lt2p [of x] by (simp add: uint_div_distrib)
  then show ?thesis by (simp add: tbf_earned_def)
qed

lemma credit_effect:
  assumes "filter_ok f"
  shows "f_credit (tbf_credit now f) = min (f_max_credit f) (f_credit f + uint (tbf_earned now f))"
    and "filter_ok (tbf_credit now f)" and "rb_items (tbf_credit now f) = rb_items f"
proof -
  have s: "sint (of_int (f_credit f) + tbf_earned now f) = f_credit f + uint (tbf_earned now f)"
    using assms earned_bound by (intro sint_credit) (auto simp: filter_ok_def)
  show c: "f_credit (tbf_credit now f) = min (f_max_credit f) (f_credit f + uint (tbf_earned now f))"
    unfolding tbf_credit_def Let_def s by simp
  have part: "rb_part (tbf_credit now f) = rb_part f"
    by (simp add: tbf_credit_def Let_def rb_part_def)
  from rb_cong [OF part] show items: "rb_items (tbf_credit now f) = rb_items f" by simp
  have "0 \<le> f_credit (tbf_credit now f)" "f_credit (tbf_credit now f) \<le> f_max_credit f"
    using assms uint_ge_0 [of "tbf_earned now f"] unfolding c filter_ok_def by linarith+
  then show "filter_ok (tbf_credit now f)"
    using assms rb_cong [OF part] items c
    by (simp add: filter_ok_def tbf_credit_def Let_def)
qed

lemma run_queue_effect:
  fixes now :: u32
  assumes ok: "filter_ok (tb_list st tid)" and ready: "tb_ready st" and ch: "chain st xs"
    and busy: "tid \<in> set xs \<longrightarrow> f_queued (tb_list st tid) > 0"
  defines "st' \<equiv> tbf_run_queue now tid st"
  defines "f \<equiv> tb_list st tid" and "g \<equiv> tb_list st' tid"
  shows "filter_ok g" "filter_step tid st st'" "f_lasttime g = sint now"
    "chain st' (if rb_items g = [] then remove1 tid xs else xs)"
    "rb_items g = [] \<or> f_credit g < int (length (hd (rb_items g)))"
    "\<exists>ds. rb_items f = ds @ rb_items g \<and> tb_sent st' = tb_sent st @ log_of tid f ds \<and>
       f_credit g + int (bytes_in ds) = min (f_max_credit f) (f_credit f + uint (tbf_earned now f))"
proof -
  let ?st0 = "tb_upd tid (tbf_credit now) st"
  let ?st1 = "tbf_drain tid ?st0"
  have f0: "tb_list ?st0 tid = tbf_credit now f" by (simp add: f_def)
  have ok0: "filter_ok (tb_list ?st0 tid)" using credit_effect(2) ok f0 by (simp add: f_def)
  have step0: "filter_step tid st ?st0"
    by (simp add: filter_step_def tbf_credit_def Let_def)
  have ch0: "chain ?st0 xs"
  proof -
    have "ring_links (tb_list ?st0) xs"
      by (rule ring_links_cong [of "tb_list st"])
        (use ch in \<open>auto simp: chain_def tbf_credit_def Let_def\<close>)
    with ch show ?thesis by (simp add: chain_def tbf_credit_def Let_def)
  qed
  from drain_effect [OF ok0] obtain ds where
    ok1: "filter_ok (tb_list ?st1 tid)" and own1: "own_step tid ?st0 ?st1"
    and ds: "rb_items (tb_list ?st0 tid) = ds @ rb_items (tb_list ?st1 tid)"
      "f_credit (tb_list ?st1 tid) = f_credit (tb_list ?st0 tid) - int (bytes_in ds)"
      "tb_sent ?st1 = tb_sent ?st0 @ log_of tid (tb_list ?st0 tid) ds"
    and low: "rb_items (tb_list ?st1 tid) = [] \<or>
      f_credit (tb_list ?st1 tid) < int (length (hd (rb_items (tb_list ?st1 tid))))" by blast
  have ch1: "chain ?st1 xs" using chain_own [OF own1 ch0] .
  have last1: "f_lasttime (tb_list ?st1 tid) = sint now"
    using own1 f0 by (simp add: own_step_def Let_def tbf_credit_def)
  have log0: "log_of tid (tb_list ?st0 tid) ds = log_of tid f ds"
    by (simp add: f_def log_of_def tbf_credit_def Let_def split: option.split)
  have e: "(f_queued (tb_list ?st1 tid) = 0) = (rb_items (tb_list ?st1 tid) = [])"
    by (metis length_0_conv length_rb_items)
  have ready1: "tb_ready ?st1" using own1 ready by (simp add: own_step_def)
  have st': "st' = ?st1 \<and> (rb_items (tb_list ?st1 tid) = [] \<longrightarrow> tid \<notin> set xs) \<or>
      st' = del_from_timer tid ?st1 \<and> tid \<in> set xs \<and> rb_items (tb_list ?st1 tid) = []"
    using ready ch1 e by (auto simp: st'_def tbf_run_queue_def Let_def chain_def)
  have same: "same_filters ?st1 st'"
    using st' same_filters_refl same_filters_del by metis
  have strip': "strip g = strip (tb_list ?st1 tid)" and sent': "tb_sent st' = tb_sent ?st1"
    using same_filters_strip [OF same] by (simp_all add: g_def)
  note g = strip_eqD [OF strip']
  show "filter_ok g" "f_lasttime g = sint now" using g ok1 last1 by simp_all
  show "filter_step tid st st'"
    using step0 filter_step_own [OF own1] filter_step_same [OF same] filter_step_trans by blast
  show "chain st' (if rb_items g = [] then remove1 tid xs else xs)"
    using st' g(1) ch1 chain_del [OF ch1 _ ready1] by (auto simp: remove1_idem)
  show "rb_items g = [] \<or> f_credit g < int (length (hd (rb_items g)))"
    using low g by simp
  show "\<exists>ds. rb_items f = ds @ rb_items g \<and> tb_sent st' = tb_sent st @ log_of tid f ds \<and>
       f_credit g + int (bytes_in ds) = min (f_max_credit f) (f_credit f + uint (tbf_earned now f))"
    using ds g sent' log0 f0 credit_effect [of f now] ok
    by (intro exI [of _ ds]) (simp add: f_def)
qed


subsection \<open>The module's invariant\<close>

text \<open>
  Every filter is as it should be, the chain holds filters in use with packets waiting and all
  indices below the size of the table; filter 0 stays reserved.
\<close>

definition tbf_inv :: "tbf_state \<Rightarrow> bool" where
  "tbf_inv st \<longleftrightarrow> tb_ready st \<and> (\<forall>i. filter_ok (tb_list st i)) \<and> f_sid (tb_list st 0) \<noteq> 0 \<and>
     tb_p st < tb_size st \<and>
     (\<exists>xs. chain st xs \<and> (\<forall>i \<in> set xs. i < tb_size st \<and> f_sid (tb_list st i) \<noteq> 0 \<and>
        f_queued (tb_list st i) > 0))"

lemma tbf_invE:
  assumes "tbf_inv st"
  obtains xs where "tb_ready st" "\<And>i. filter_ok (tb_list st i)" "f_sid (tb_list st 0) \<noteq> 0"
    "tb_p st < tb_size st" "chain st xs" "\<And>i. i \<in> set xs \<Longrightarrow> i < tb_size st"
    "\<And>i. i \<in> set xs \<Longrightarrow> f_sid (tb_list st i) \<noteq> 0" "\<And>i. i \<in> set xs \<Longrightarrow> f_queued (tb_list st i) > 0"
    "distinct xs"
  using assms by (auto simp: tbf_inv_def chain_def ring_links_def)

text \<open>A step of one filter keeps the invariant if its chain changes accordingly.\<close>

lemma tbf_inv_step:
  assumes inv: "tbf_inv st" and step: "filter_step tid st st'" and ok: "filter_ok (tb_list st' tid)"
    and ch: "chain st' ys" and sub: "set ys \<subseteq> insert tid (set xs)" and old: "chain st xs"
    and own: "tid \<in> set ys \<Longrightarrow> f_queued (tb_list st' tid) > 0 \<and> tid < tb_size st \<and> f_sid (tb_list st tid) \<noteq> 0"
  shows "tbf_inv st'"
proof -
  have oth: "strip (tb_list st' j) = strip (tb_list st j)" if "j \<noteq> tid" for j
    using step that by (simp add: filter_step_def)
  have "filter_ok (tb_list st' j)" for j
  proof (cases "j = tid")
    case False
    with inv show ?thesis using strip_eqD(3) [OF oth [OF False]] by (simp add: tbf_inv_def)
  qed (use ok in simp)
  moreover have sid: "f_sid (tb_list st' j) = f_sid (tb_list st j)" for j
  proof (cases "j = tid")
    case False
    show ?thesis using strip_eqD(6) [OF oth [OF False]] .
  qed (use step in \<open>simp add: filter_step_def\<close>)
  moreover have "\<forall>i \<in> set xs. i < tb_size st \<and> f_sid (tb_list st i) \<noteq> 0 \<and> f_queued (tb_list st i) > 0"
  proof -
    obtain zs where zs: "chain st zs" "\<forall>i \<in> set zs. i < tb_size st \<and> f_sid (tb_list st i) \<noteq> 0 \<and>
        f_queued (tb_list st i) > 0" using inv by (auto simp: tbf_inv_def)
    have "set zs = set xs" using zs(1) old by (auto simp: chain_def)
    with zs(2) show ?thesis by simp
  qed
  then have old: "i < tb_size st \<and> f_sid (tb_list st i) \<noteq> 0 \<and> f_queued (tb_list st i) > 0"
    if "i \<in> set xs" for i using that by blast
  have "i < tb_size st' \<and> f_sid (tb_list st' i) \<noteq> 0 \<and> f_queued (tb_list st' i) > 0"
    if i: "i \<in> set ys" for i
  proof (cases "i = tid")
    case True
    with own i sid step show ?thesis by (simp add: filter_step_def)
  next
    case False
    then have "i \<in> set xs" using sub i by blast
    with old [of i] strip_eqD(5) [OF oth [OF False]] sid step show ?thesis
      by (simp add: filter_step_def)
  qed
  ultimately show ?thesis
    using inv step ch by (auto simp: tbf_inv_def filter_step_def)
qed

lemma run_queue_inv:
  assumes "tbf_inv st"
  shows "tbf_inv (tbf_run_queue now tid st)"
proof -
  from assms obtain xs where xs: "tb_ready st" "\<And>i. filter_ok (tb_list st i)" "chain st xs"
      "\<And>i. i \<in> set xs \<Longrightarrow> i < tb_size st \<and> f_sid (tb_list st i) \<noteq> 0 \<and> f_queued (tb_list st i) > 0"
      "distinct xs"
    by (elim tbf_invE) blast
  have busy: "tid \<in> set xs \<longrightarrow> f_queued (tb_list st tid) > 0" using xs(4) by blast
  note run = run_queue_effect [OF xs(2) xs(1) xs(3) busy, of now]
  let ?g = "tb_list (tbf_run_queue now tid st) tid"
  let ?ys = "if rb_items ?g = [] then remove1 tid xs else xs"
  show ?thesis
  proof (rule tbf_inv_step [OF assms run(2,1,4) _ xs(3)])
    show "set ?ys \<subseteq> insert tid (set xs)" using set_remove1_subset by (auto split: if_splits) 
    assume m: "tid \<in> set ?ys"
    then have "rb_items ?g \<noteq> []" "tid \<in> set xs" using xs(5) by (auto split: if_splits)
    then have "f_queued ?g > 0" by (metis length_greater_0_conv length_rb_items)
    with xs(4) \<open>tid \<in> set xs\<close> show "f_queued ?g > 0 \<and> tid < tb_size st \<and> f_sid (tb_list st tid) \<noteq> 0"
      by blast
  qed
qed

lemma remove1_same: "x \<notin> set xs \<Longrightarrow> remove1 x xs = xs"
  by (rule remove1_idem)

text \<open>Giving a filter another body, without touching its links.\<close>

lemma chain_body:
  "chain st xs \<Longrightarrow> (\<And>f. f_next (h f) = f_next f \<and> f_prev (h f) = f_prev f) \<Longrightarrow> chain (tb_upd tid h st) xs"
proof -
  assume c: "chain st xs" and h: "\<And>f. f_next (h f) = f_next f \<and> f_prev (h f) = f_prev f"
  have "ring_links (tb_list (tb_upd tid h st)) xs"
    by (rule ring_links_cong [of "tb_list st"]) (use c h in \<open>auto simp: chain_def\<close>)
  with c h show ?thesis by (simp add: chain_def)
qed


subsection \<open>Queueing a packet\<close>

definition delivered :: "nat \<Rightarrow> tbf_state \<Rightarrow> bytes list" where
  "delivered tid st = map (\<lambda>(t, fn, sid, d). d) (filter (\<lambda>(t, fn, sid, d). t = tid) (tb_sent st))"

lemma delivered_log:
  "tb_sent st' = tb_sent st @ log_of tid f ds \<Longrightarrow> f_send f \<noteq> None \<Longrightarrow>
     delivered tid st' = delivered tid st @ ds"
  "tb_sent st' = tb_sent st @ log_of tid f ds \<Longrightarrow> j \<noteq> tid \<Longrightarrow> delivered j st' = delivered j st"
  by (auto simp: delivered_def log_of_def comp_def filter_empty_conv split: option.splits)

text \<open>The three ways a packet is accounted for.\<close>

definition count_in :: "bytes \<Rightarrow> tbft \<Rightarrow> tbft" where
  "count_in data f = f\<lparr>f_b_queued := f_b_queued f + of_nat (length data), f_p_queued := f_p_queued f + 1\<rparr>"

definition count_drop :: "bytes \<Rightarrow> tbft \<Rightarrow> tbft" where
  "count_drop data f = f\<lparr>f_b_dropped := f_b_dropped f + of_nat (length data), f_p_dropped := f_p_dropped f + 1\<rparr>"

definition count_sent :: "bytes \<Rightarrow> tbft \<Rightarrow> tbft" where
  "count_sent data f = f\<lparr>f_b_sent := f_b_sent f + of_nat (length data), f_p_sent := f_p_sent f + 1\<rparr>"

definition pay :: "bytes \<Rightarrow> tbft \<Rightarrow> tbft" where
  "pay data f = f\<lparr>f_credit := f_credit f - int (length data)\<rparr>"

definition delay :: "bytes \<Rightarrow> tbft \<Rightarrow> tbft" where
  "delay data f = (rb_enq data f)\<lparr>f_p_delayed := f_p_delayed f + 1\<rparr>"

lemmas count_defs = count_in_def count_drop_def count_sent_def pay_def delay_def

lemma count_parts:
  "rb_part (count_in data f) = rb_part f" "rb_part (count_drop data f) = rb_part f"
  "rb_part (count_sent data f) = rb_part f" "rb_part (pay data f) = rb_part f"
  "rb_part (delay data f) = rb_part (rb_enq data f)"
  by (simp_all add: count_defs rb_part_def rb_enq_def)

lemmas count_items = count_parts [THEN rb_cong, THEN conjunct1]
lemmas count_inv = count_parts [THEN rb_cong, THEN conjunct2, THEN conjunct1]

lemma count_fields:
  "h \<in> {count_in d, count_drop d, count_sent d, pay d, delay d} \<Longrightarrow>
     f_next (h f) = f_next f \<and> f_prev (h f) = f_prev f \<and> f_sid (h f) = f_sid f \<and>
     f_send (h f) = f_send f \<and> f_rate (h f) = f_rate f \<and> f_max_credit (h f) = f_max_credit f \<and>
     f_lasttime (h f) = f_lasttime f"
  by (auto simp: count_defs rb_enq_def Let_def)

lemma filter_ok_drop: "filter_ok f \<Longrightarrow> filter_ok (count_drop data (count_in data f))"
  by (simp add: filter_ok_def count_items count_inv) (simp add: count_defs algebra_simps)

lemma filter_ok_send:
  assumes "filter_ok f" and "f_credit f > int (length data)"
  shows "filter_ok (count_sent data (pay data (count_in data f)))"
    "filter_ok (count_drop data (pay data (count_in data f)))"
  using assms
  by (simp_all add: filter_ok_def count_items count_inv) (simp_all add: count_defs algebra_simps)

lemma filter_ok_delay:
  assumes "filter_ok f" and "f_queued f < TBF_MAX_QUEUE" and "length data < TBF_MAX_SIZE"
  shows "filter_ok (delay data (count_in data f))"
    "rb_items (delay data (count_in data f)) = rb_items f @ [data]"
proof -
  let ?f = "count_in data f"
  have inv: "rb_inv ?f" "length (rb_items ?f) < TBF_MAX_QUEUE" and it: "rb_items ?f = rb_items f"
    using assms by (auto simp: filter_ok_def count_inv count_items)
  show items: "rb_items (delay data ?f) = rb_items f @ [data]"
    unfolding count_items(5) rb.enq_items [OF inv] it ..
  have "rb_inv (delay data ?f)" unfolding count_inv using rb.enq_inv [OF inv] .
  moreover have "f_credit (delay data ?f) = f_credit f" "f_max_credit (delay data ?f) = f_max_credit f"
      "f_b_queued (delay data ?f) = f_b_queued f + of_nat (length data)"
      "f_b_sent (delay data ?f) = f_b_sent f" "f_b_dropped (delay data ?f) = f_b_dropped f"
      "f_p_queued (delay data ?f) = f_p_queued f + 1" "f_p_sent (delay data ?f) = f_p_sent f"
      "f_p_dropped (delay data ?f) = f_p_dropped f" "f_queued (delay data ?f) = f_queued f + 1"
    by (simp_all add: count_defs rb_enq_def Let_def)
  ultimately show "filter_ok (delay data ?f)"
    using assms items by (auto simp: filter_ok_def algebra_simps)
qed

text \<open>\<open>tbf_queue_packet\<close> after the queue has been run, in these terms.\<close>

definition after_run :: "nat \<Rightarrow> bytes \<Rightarrow> tbf_state \<Rightarrow> tbf_state \<times> int" where
  "after_run tid data st =
     (let f = tb_list st tid in
      if f_queued f = 0 \<and> f_credit f > int (length data)
      then (case f_send f of
              Some fn \<Rightarrow> ((tb_upd tid (\<lambda>f. count_sent data (pay data (count_in data f))) st)
                \<lparr>tb_sent := tb_sent st @ [(tid, fn, f_sid f, data)]\<rparr>, int (length data))
            | None \<Rightarrow> (tb_upd tid (\<lambda>f. count_drop data (pay data (count_in data f))) st, int (length data)))
      else if f_queued f \<ge> TBF_MAX_QUEUE \<or> length data \<ge> TBF_MAX_SIZE
      then (tb_upd tid (\<lambda>f. count_drop data (count_in data f)) st, -1)
      else (let st2 = tb_upd tid (\<lambda>f. delay data (count_in data f)) st
            in (if f_next f = 0 then add_to_timer tid st2 else st2, 0)))"

lemma tb_upd_upd [simp]: "tb_upd i g (tb_upd i h st) = tb_upd i (\<lambda>f. g (h f)) st"
  by (simp add: tb_upd_def)

lemma queue_packet_after_run:
  assumes "tb_ready st" and "0 < tid" and "tid < tb_size st" and "f_sid (tb_list st tid) \<noteq> 0"
  shows "tbf_queue_packet now (int tid) data st = Ret (after_run tid data (tbf_run_queue now tid st))"
  using assms
  by (simp add: tbf_queue_packet_def after_run_def Let_def tbf_emit_def count_defs
      rb_enq_def split: option.split)


lemma own_step_upd:
  assumes "\<And>f. f_next (h f) = f_next f \<and> f_prev (h f) = f_prev f \<and> f_sid (h f) = f_sid f \<and>
     f_send (h f) = f_send f \<and> f_rate (h f) = f_rate f \<and> f_max_credit (h f) = f_max_credit f \<and>
     f_lasttime (h f) = f_lasttime f"
  shows "own_step tid st (tb_upd tid h st)" "own_step tid st ((tb_upd tid h st)\<lparr>tb_sent := l\<rparr>)"
  using assms by (simp_all add: own_step_def Let_def)

text \<open>What queueing a packet does after the queue has been run.\<close>

definition queued_as :: "tbft \<Rightarrow> tbft \<Rightarrow> bytes \<Rightarrow> int \<Rightarrow> bytes list \<Rightarrow> bool" where
  "queued_as f g data r out \<longleftrightarrow>
     f_credit g = f_credit f - int (bytes_in out) \<and>
     (r < 0 \<and> out = [] \<and> rb_items g = rb_items f \<or>
      0 \<le> r \<and> out = [data] \<and> rb_items f = [] \<and> rb_items g = [] \<or>
      0 \<le> r \<and> out = [] \<and> rb_items g = rb_items f @ [data])"

lemma after_run_effect:
  fixes data :: bytes
  assumes ok: "filter_ok (tb_list st tid)" and ready: "tb_ready st" and ch: "chain st xs"
    and tid: "tid \<noteq> 0" and busy: "tid \<in> set xs \<longrightarrow> f_queued (tb_list st tid) > 0"
  defines "f \<equiv> tb_list st tid"
  defines "st' \<equiv> fst (after_run tid data st)" and "r \<equiv> snd (after_run tid data st)"
  defines "g \<equiv> tb_list st' tid"
  shows "filter_ok g \<and> filter_step tid st st' \<and> f_lasttime g = f_lasttime f \<and>
    (\<exists>ys. chain st' ys \<and> set ys \<subseteq> insert tid (set xs) \<and> (tid \<in> set ys \<longrightarrow> f_queued g > 0)) \<and>
    (\<exists>out. tb_sent st' = tb_sent st @ log_of tid f out \<and> queued_as f g data r out)"
proof -
  have q0: "rb_items f = [] \<longleftrightarrow> f_queued f = 0"
    by (metis length_0_conv length_rb_items)
  have off: "f_next f \<noteq> 0 \<longleftrightarrow> tid \<in> set xs" using ch by (simp add: chain_def f_def)
  consider (send) "f_queued f = 0" "f_credit f > int (length data)"
    | (drop) "\<not> (f_queued f = 0 \<and> f_credit f > int (length data))"
        "f_queued f \<ge> TBF_MAX_QUEUE \<or> length data \<ge> TBF_MAX_SIZE"
    | (queue) "\<not> (f_queued f = 0 \<and> f_credit f > int (length data))"
        "f_queued f < TBF_MAX_QUEUE" "length data < TBF_MAX_SIZE"
    by fastforce
  then show ?thesis
  proof cases
    case send
    define h where "h = (\<lambda>f. (if f_send f = None then count_drop data else count_sent data)
        (pay data (count_in data f)))"
    have h: "f_next (h f) = f_next f \<and> f_prev (h f) = f_prev f \<and> f_sid (h f) = f_sid f \<and>
        f_send (h f) = f_send f \<and> f_rate (h f) = f_rate f \<and> f_max_credit (h f) = f_max_credit f \<and>
        f_lasttime (h f) = f_lasttime f" for f
      by (simp add: h_def count_defs)
    have e: "st' = (tb_upd tid h st)\<lparr>tb_sent := tb_sent st @ log_of tid f [data]\<rparr>" "r = int (length data)"
      using send
      by (auto simp: st'_def r_def f_def after_run_def Let_def h_def log_of_def tb_upd_def
          split: option.split)
    have own: "own_step tid st st'" unfolding e using own_step_upd(2) h by blast
    have g: "g = h f" by (simp add: g_def e f_def)
    have "rb_items g = []" using send q0 unfolding g h_def by (simp add: count_items)
    moreover have "f_credit g = f_credit f - int (length data)"
      unfolding g h_def by (simp add: count_defs)
    moreover have "filter_ok g"
      unfolding g h_def using filter_ok_send [of f data] ok send by (simp add: f_def)
    moreover have "tid \<notin> set xs" using busy send by (auto simp: f_def)
    ultimately show ?thesis
      using filter_step_own [OF own] chain_own [OF own ch] h e(2) send(1) q0 
      by (intro conjI exI [of _ xs] exI [of _ "[data]"]) (simp_all add: queued_as_def g e(1), blast?)
  next
    case drop
    define h where "h = (\<lambda>f. count_drop data (count_in data f))"
    have h: "f_next (h f) = f_next f \<and> f_prev (h f) = f_prev f \<and> f_sid (h f) = f_sid f \<and>
        f_send (h f) = f_send f \<and> f_rate (h f) = f_rate f \<and> f_max_credit (h f) = f_max_credit f \<and>
        f_lasttime (h f) = f_lasttime f" for f
      by (simp add: h_def count_defs)
    have e: "st' = tb_upd tid h st" "r = -1"
      using drop by (auto simp: st'_def r_def f_def after_run_def Let_def h_def)
    have own: "own_step tid st st'" unfolding e using own_step_upd(1) h by blast
    have g: "g = h f" by (simp add: g_def e f_def)
    have "rb_items g = rb_items f" "f_credit g = f_credit f" "f_queued g = f_queued f"
      unfolding g h_def by (simp add: count_items, simp_all add: count_defs)
    moreover have "filter_ok g" unfolding g h_def using filter_ok_drop ok by (simp add: f_def)
    ultimately show ?thesis
      using filter_step_own [OF own] chain_own [OF own ch] h e(2) busy
      by (intro conjI exI [of _ xs] exI [of _ "[]"]) (auto simp: queued_as_def g e(1) f_def [symmetric])
  next
    case queue
    define h where "h = (\<lambda>f. delay data (count_in data f))"
    have h: "f_next (h f) = f_next f \<and> f_prev (h f) = f_prev f \<and> f_sid (h f) = f_sid f \<and>
        f_send (h f) = f_send f \<and> f_rate (h f) = f_rate f \<and> f_max_credit (h f) = f_max_credit f \<and>
        f_lasttime (h f) = f_lasttime f" for f
      by (simp add: h_def count_defs rb_enq_def Let_def)
    let ?st2 = "tb_upd tid h st"
    have e: "st' = (if tid \<in> set xs then ?st2 else add_to_timer tid ?st2)" "r = 0"
      using queue off by (auto simp: st'_def r_def f_def after_run_def Let_def h_def)
    have own: "own_step tid st ?st2" using own_step_upd(1) h by blast
    have ch2: "chain ?st2 xs" using chain_own [OF own ch] .
    have same: "same_filters ?st2 st'" unfolding e using same_filters_refl same_filters_add by simp
    have "strip g = strip (tb_list ?st2 tid)" and sent: "tb_sent st' = tb_sent ?st2"
      using same_filters_strip [OF same] by (simp_all add: g_def)
    then have "strip g = strip (h f)" by (simp add: f_def)
    note g = strip_eqD [OF this]
    have items: "rb_items g = rb_items f @ [data]" and okg: "filter_ok g"
      unfolding g h_def using filter_ok_delay [of f data] ok queue by (simp_all add: f_def)
    then have q: "f_queued g > 0" by (metis length_append_singleton length_rb_items zero_less_Suc)
    have cr: "f_credit g = f_credit f" "f_lasttime g = f_lasttime f"
      unfolding g h_def by (simp_all add: count_defs rb_enq_def Let_def)
    have ch': "chain st' (if tid \<in> set xs then xs else xs @ [tid])"
      using ch2 chain_add [OF ch2 _ tid] ready e by (simp split: if_splits)
    have "filter_step tid st st'"
      using filter_step_own [OF own] filter_step_same [OF same] filter_step_trans by blast
    then show ?thesis
      using okg cr q ch' items e(2) sent
      by (intro conjI exI [of _ "if tid \<in> set xs then xs else xs @ [tid]"] exI [of _ "[]"])
        (auto simp: queued_as_def)
  qed
qed


lemma queue_packet_effect:
  assumes inv: "tbf_inv st" and tid: "0 < tid" "tid < tb_size st" "f_sid (tb_list st tid) \<noteq> 0"
  obtains st' r ds out where
    "tbf_queue_packet now (int tid) data st = Ret (st', r)" "tbf_inv st'" "filter_step tid st st'"
    "f_lasttime (tb_list st' tid) = sint now"
    "tb_sent st' = tb_sent st @ log_of tid (tb_list st tid) (ds @ out)"
    "rb_items (tb_list st tid) = ds @ rb_items (tb_list (tbf_run_queue now tid st) tid)"
    "queued_as (tb_list (tbf_run_queue now tid st) tid) (tb_list st' tid) data r out"
    "f_credit (tb_list st' tid) + int (bytes_in (ds @ out)) =
       min (f_max_credit (tb_list st tid)) (f_credit (tb_list st tid) + uint (tbf_earned now (tb_list st tid)))"
proof -
  let ?s = "tbf_run_queue now tid st"
  from inv obtain xs where xs: "tb_ready st" "\<And>i. filter_ok (tb_list st i)" "chain st xs"
      "\<And>i. i \<in> set xs \<Longrightarrow> f_queued (tb_list st i) > 0"
    by (elim tbf_invE) blast
  have "tid \<in> set xs \<longrightarrow> f_queued (tb_list st tid) > 0" using xs(4) by blast
  note run = run_queue_effect [OF xs(2) xs(1) xs(3) this, of now]
  from run(6) obtain ds where ds: "rb_items (tb_list st tid) = ds @ rb_items (tb_list ?s tid)"
      "tb_sent ?s = tb_sent st @ log_of tid (tb_list st tid) ds"
      "f_credit (tb_list ?s tid) + int (bytes_in ds) =
        min (f_max_credit (tb_list st tid)) (f_credit (tb_list st tid) + uint (tbf_earned now (tb_list st tid)))"
    by blast
  have inv': "tbf_inv ?s" using run_queue_inv [OF inv] .
  then obtain ys where ys: "tb_ready ?s" "\<And>i. filter_ok (tb_list ?s i)" "chain ?s ys"
      "\<And>i. i \<in> set ys \<Longrightarrow> f_queued (tb_list ?s i) > 0"
    by (elim tbf_invE) blast
  have "tid \<in> set ys \<longrightarrow> f_queued (tb_list ?s tid) > 0" using ys(4) by blast
  note aft = after_run_effect [OF ys(2) ys(1) ys(3) _ this, of data]
  let ?st' = "fst (after_run tid data ?s)" and ?r = "snd (after_run tid data ?s)"
  have ne: "tid \<noteq> 0" using tid(1) by simp
  from aft [OF ne] obtain zs out where
    a: "filter_ok (tb_list ?st' tid)" "filter_step tid ?s ?st'"
      "f_lasttime (tb_list ?st' tid) = f_lasttime (tb_list ?s tid)" "chain ?st' zs"
      "set zs \<subseteq> insert tid (set ys)" "tid \<in> set zs \<longrightarrow> f_queued (tb_list ?st' tid) > 0"
      "tb_sent ?st' = tb_sent ?s @ log_of tid (tb_list ?s tid) out"
      "queued_as (tb_list ?s tid) (tb_list ?st' tid) data ?r out" by blast
  have same: "f_sid (tb_list ?s tid) = f_sid (tb_list st tid)" "tb_size ?s = tb_size st"
      "f_send (tb_list ?s tid) = f_send (tb_list st tid)"
    using run(2) by (simp_all add: filter_step_def)
  show thesis
  proof (rule that)
    show "tbf_queue_packet now (int tid) data st = Ret (?st', ?r)"
      using queue_packet_after_run [OF xs(1) tid] by simp
    show "tbf_inv ?st'"
      by (rule tbf_inv_step [OF inv' a(2,1,4,5) ys(3)]) (use a(6) tid same in simp)
    show "filter_step tid st ?st'" using filter_step_trans [OF run(2) a(2)] .
    show "f_lasttime (tb_list ?st' tid) = sint now" using a(3) run(3) by simp
    show "tb_sent ?st' = tb_sent st @ log_of tid (tb_list st tid) (ds @ out)"
      using a(7) ds(2) same by (simp add: log_of_def split: option.split)
    show "rb_items (tb_list st tid) = ds @ rb_items (tb_list ?s tid)" by (rule ds(1))
    show "queued_as (tb_list ?s tid) (tb_list ?st' tid) data ?r out" by (rule a(8))
    then show "f_credit (tb_list ?st' tid) + int (bytes_in (ds @ out)) =
       min (f_max_credit (tb_list st tid)) (f_credit (tb_list st tid) + uint (tbf_earned now (tb_list st tid)))"
      using ds(3) by (simp add: queued_as_def)
  qed
qed

text \<open>
  C7: a packet given to a filter in use is handled without undefined behaviour, and first in
  first out: what the filter has sent followed by what waits in it grows at the end by exactly
  this packet, or by nothing if the packet is refused (result -1); no other filter sends anything
  or loses a packet.
\<close>

theorem tbf_queue_packet_fifo:
  assumes "tbf_inv st" and "0 < tid" and "tid < tb_size st" and "f_sid (tb_list st tid) \<noteq> 0"
    and "f_send (tb_list st tid) \<noteq> None"
  shows "\<exists>st' r. tbf_queue_packet now (int tid) data st = Ret (st', r) \<and>
     delivered tid st' @ rb_items (tb_list st' tid) =
       delivered tid st @ rb_items (tb_list st tid) @ (if r < 0 then [] else [data]) \<and>
     (\<forall>j. j \<noteq> tid \<longrightarrow> delivered j st' = delivered j st \<and>
        rb_items (tb_list st' j) = rb_items (tb_list st j))"
proof -
  from queue_packet_effect [OF assms(1-4), of now data] obtain st' r ds out where
    run: "tbf_queue_packet now (int tid) data st = Ret (st', r)" and step: "filter_step tid st st'"
    and sent: "tb_sent st' = tb_sent st @ log_of tid (tb_list st tid) (ds @ out)"
    and items: "rb_items (tb_list st tid) = ds @ rb_items (tb_list (tbf_run_queue now tid st) tid)"
    and q: "queued_as (tb_list (tbf_run_queue now tid st) tid) (tb_list st' tid) data r out" by metis
  have "delivered tid st' @ rb_items (tb_list st' tid) =
      delivered tid st @ rb_items (tb_list st tid) @ (if r < 0 then [] else [data])"
    using delivered_log(1) [OF sent assms(5)] items q by (auto simp: queued_as_def)
  moreover have "delivered j st' = delivered j st \<and> rb_items (tb_list st' j) = rb_items (tb_list st j)"
    if "j \<noteq> tid" for j
    using delivered_log(2) [OF sent that] step that strip_eqD(1) unfolding filter_step_def by blast
  ultimately show ?thesis using run by blast
qed

subsection \<open>Every operation\<close>

lemma timer_loop_inv: "tbf_inv st \<Longrightarrow> tbf_inv (tbf_timer_loop count now tail i st)"
proof (induction count now tail i st rule: tbf_timer_loop.induct)
  case (1 count now tail i st)
  then show ?case
    by (subst tbf_timer_loop.simps) (auto simp: Let_def run_queue_inv split: nat.split)
qed

lemma run_timer_inv: "tbf_inv st \<Longrightarrow> tbf_inv (fst (tbf_run_timer now st))"
  by (simp add: tbf_run_timer_def Let_def timer_loop_inv)

lemma free_inv:
  assumes "tbf_inv st"
  shows "tbf_inv (fst (free_tbf tid st))"
proof (cases "tid < 1")
  case False
  define t where "t = nat tid"
  have t0: "t \<noteq> 0" using False by (simp add: t_def)
  from assms obtain xs where xs: "tb_ready st" "\<And>i. filter_ok (tb_list st i)" "chain st xs"
      "f_sid (tb_list st 0) \<noteq> 0" "tb_p st < tb_size st"
      "\<And>i. i \<in> set xs \<Longrightarrow> i < tb_size st" "\<And>i. i \<in> set xs \<Longrightarrow> f_sid (tb_list st i) \<noteq> 0"
      "\<And>i. i \<in> set xs \<Longrightarrow> f_queued (tb_list st i) > 0" "distinct xs"
    by (elim tbf_invE) blast
  define st1 where "st1 = (if f_next (tb_list st t) \<noteq> 0 then del_from_timer t st else st)"
  have ch: "chain st1 (remove1 t xs)"
  proof (cases "t \<in> set xs")
    case True
    then have "f_next (tb_list st t) \<noteq> 0" using xs(3) by (simp add: chain_def)
    with chain_del [OF xs(3) True xs(1)] show ?thesis by (simp add: st1_def)
  next
    case False
    then have "f_next (tb_list st t) = 0" using xs(3) unfolding chain_def by blast
    with False xs(3) show ?thesis by (simp add: st1_def remove1_idem)
  qed
  have same: "same_filters st st1" using same_filters_del same_filters_refl by (simp add: st1_def)
  have eq: "fst (free_tbf tid st) = tb_upd t (\<lambda>f. f\<lparr>f_sid := 0\<rparr>) st1"
    using False xs(1) by (simp add: free_tbf_def Let_def t_def st1_def)
  have f: "strip (tb_list st1 i) = strip (tb_list st i)" for i
    using same_filters_strip [OF same] by simp
  note f = f [THEN strip_eqD(3)] f [THEN strip_eqD(5)] f [THEN strip_eqD(6)]
  have ch': "chain (tb_upd t (\<lambda>f. f\<lparr>f_sid := 0\<rparr>) st1) (remove1 t xs)"
    by (rule chain_body [OF ch]) simp
  have sub: "i \<in> set xs \<and> i \<noteq> t" if "i \<in> set (remove1 t xs)" for i
    using that xs(9) set_remove1_subset by (auto simp: set_remove1_eq)
  have "filter_ok (f\<lparr>f_sid := 0\<rparr>) = filter_ok f" for f
    by (simp add: filter_ok_def rb_inv_def rb_items_def)
  then have "filter_ok (tb_list (tb_upd t (\<lambda>f. f\<lparr>f_sid := 0\<rparr>) st1) i)" for i
    using f(1) [of i] xs(2) [of i] by (cases "i = t") simp_all
  moreover have "i < tb_size st1 \<and> f_sid (tb_list (tb_upd t (\<lambda>f. f\<lparr>f_sid := 0\<rparr>) st1) i) \<noteq> 0 \<and>
      f_queued (tb_list (tb_upd t (\<lambda>f. f\<lparr>f_sid := 0\<rparr>) st1) i) > 0" if "i \<in> set (remove1 t xs)" for i
    using sub [OF that] xs(6-8) [of i] f(2,3) [of i] same by (simp add: same_filters_def)
  moreover have "f_sid (tb_list (tb_upd t (\<lambda>f. f\<lparr>f_sid := 0\<rparr>) st1) 0) \<noteq> 0"
    using t0 f(3) [of 0] xs(4) by simp
  ultimately show ?thesis
    unfolding eq tbf_inv_def using xs(1,5) same ch'
    by (intro conjI exI [of _ "remove1 t xs"]) (simp_all add: same_filters_def)
qed (simp add: free_tbf_def assms)

lemma new_inv_loop:
  assumes "tbf_inv st" and "0 \<le> mc" and "mc \<le> credit_limit" and "id16 sid \<noteq> 0"
  shows "tbf_inv (fst (new_tbf_loop n sid mc rate fn st))"
  using assms
proof (induction n arbitrary: st)
  case (Suc n)
  show ?case
  proof (cases "f_sid (tb_list st (tb_p st)) = 0")
    case False
    have "tbf_inv (st\<lparr>tb_p := Suc (tb_p st) mod tb_size st\<rparr>)"
      using Suc.prems(1) by (auto simp: tbf_inv_def chain_def)
    with Suc False show ?thesis by (simp add: Let_def)
  next
    case True
    let ?p = "tb_p st"
    let ?z = "tbf_zero\<lparr>f_sid := id16 sid, f_credit := mc, f_max_credit := mc, f_rate := rate, f_send := fn\<rparr>"
    from Suc.prems(1) obtain xs where xs: "tb_ready st" "\<And>i. filter_ok (tb_list st i)" "chain st xs"
      "f_sid (tb_list st 0) \<noteq> 0" "?p < tb_size st"
      "\<And>i. i \<in> set xs \<Longrightarrow> i < tb_size st \<and> f_sid (tb_list st i) \<noteq> 0 \<and> f_queued (tb_list st i) > 0"
      by (elim tbf_invE) blast
    have p: "?p \<notin> set xs" using True xs(6) by blast
    have "ring_links (tb_list (tb_upd ?p (\<lambda>_. ?z) st)) xs"
      by (rule ring_links_cong [of "tb_list st"]) (use xs(3) p in \<open>auto simp: chain_def\<close>)
    then have "chain (tb_upd ?p (\<lambda>_. ?z) st) xs"
      using xs(3) p by (auto simp: chain_def tbf_zero_def)
    moreover have "filter_ok ?z"
      using Suc.prems
      by (auto simp: filter_ok_def rb_inv_def rb_items_def tbf_zero_def TBF_MAX_QUEUE_def all_less_two)
    moreover have "\<forall>i \<in> set xs. i \<noteq> ?p" using p by blast
    ultimately have "tbf_inv (tb_upd ?p (\<lambda>_. ?z) st)"
      unfolding tbf_inv_def using xs Suc.prems(4)
      by (intro conjI exI [of _ xs]) auto
    with True show ?thesis by (simp add: Let_def)
  qed
qed simp

lemma claim_inv:
  assumes "tbf_inv st" and "t \<noteq> 0" and "i \<noteq> 0"
  shows "tbf_inv (tb_upd t (\<lambda>f. f\<lparr>f_sid := i\<rparr>) st)"
proof -
  from assms(1) obtain xs where xs: "tb_ready st" "\<And>i. filter_ok (tb_list st i)" "chain st xs"
      "f_sid (tb_list st 0) \<noteq> 0" "tb_p st < tb_size st"
      "\<And>i. i \<in> set xs \<Longrightarrow> i < tb_size st \<and> f_sid (tb_list st i) \<noteq> 0 \<and> f_queued (tb_list st i) > 0"
    by (elim tbf_invE) blast
  have "chain (tb_upd t (\<lambda>f. f\<lparr>f_sid := i\<rparr>) st) xs" by (rule chain_body [OF xs(3)]) simp
  moreover have "filter_ok (f\<lparr>f_sid := i\<rparr>) = filter_ok f" for f
    by (simp add: filter_ok_def rb_inv_def rb_items_def)
  ultimately show ?thesis
    unfolding tbf_inv_def using xs assms(2,3) by (intro conjI exI [of _ xs]) auto
qed

lemma fsck_inv:
  assumes "tbf_inv st" and "s_tbf_in (sess 0) = 0" and "s_tbf_out (sess 0) = 0"
  shows "tbf_inv (fsck_tbfs sess highest st)"
proof -
  have fr: "tbf_inv (fold (fsck_free sess) is st)" if "tbf_inv st" for "is" st
    using that by (induction "is" arbitrary: st) (simp_all add: fsck_free_def Let_def free_inv)
  have one: "tbf_inv (fsck_claim sess i st)" if "tbf_inv st" for i st
    using that assms(2,3) by (cases "i = 0") (auto simp: fsck_claim_def Let_def claim_inv)
  have cl: "tbf_inv (fold (fsck_claim sess) is st)" if "tbf_inv st" for "is" st
    using that by (induction "is" arbitrary: st) (simp_all add: one)
  show ?thesis using fr cl assms(1) by (simp add: fsck_tbfs_def)
qed


text \<open>
  The steps of the module. A new filter gets a burst size within \<open>credit_limit\<close> and a session
  other than 0; session 0 does not use filters.
\<close>

inductive tbf_step :: "tbf_state \<Rightarrow> tbf_state \<Rightarrow> bool" where
  queue: "0 < tid \<Longrightarrow> tid < tb_size st \<Longrightarrow> tbf_queue_packet now (int tid) data st = Ret (st', r) \<Longrightarrow>
    tbf_step st st'"
| timer: "tbf_step st (fst (tbf_run_timer now st))"
| new: "0 \<le> mc \<Longrightarrow> mc \<le> credit_limit \<Longrightarrow> id16 sid \<noteq> 0 \<Longrightarrow> tbf_step st (fst (new_tbf sid mc rate fn st))"
| free: "tbf_step st (fst (free_tbf tid st))"
| fsck: "s_tbf_in (sess 0) = 0 \<Longrightarrow> s_tbf_out (sess 0) = 0 \<Longrightarrow> tbf_step st (fsck_tbfs sess highest st)"

lemma step_inv: "tbf_step st st' \<Longrightarrow> tbf_inv st \<Longrightarrow> tbf_inv st'"
proof (induction rule: tbf_step.induct)
  case (queue tid st now data st' r)
  show ?case
  proof (cases "f_sid (tb_list st tid) = 0")
    case True
    with queue show ?thesis by (simp add: tbf_queue_packet_def Let_def split: if_splits)
  next
    case False
    with queue queue_packet_effect [OF queue(4,1,2) False, of now data] show ?thesis by auto
  qed
qed (simp_all add: run_timer_inv free_inv fsck_inv new_tbf_def new_inv_loop)

lemma init_inv: "0 < n \<Longrightarrow> tbf_inv (init_tbf False n)"
  by (auto simp: tbf_inv_def init_tbf_def chain_def ring_links_def filter_ok_def rb_inv_def
      rb_items_def tbf_zero_def TBF_MAX_QUEUE_def credit_limit_def all_less_two intro!: exI [of _ "[]"])

text \<open>
  C6: from \<open>init_tbf\<close> on, whatever packets arrive, timers run and filters come and go, every
  filter has a credit between 0 and its burst size, at most two packets waiting, and counters
  that balance: bytes and packets in are those sent, those dropped and those waiting (modulo
  2^32); and the timer chain is a ring of distinct filters that all have packets waiting.
\<close>

theorem tbf_reachable_ok:
  assumes "tbf_step\<^sup>*\<^sup>* (init_tbf False n) st" and "0 < n"
  shows "(\<forall>i. let f = tb_list st i in
      0 \<le> f_credit f \<and> f_credit f \<le> f_max_credit f \<and> f_queued f \<le> TBF_MAX_QUEUE \<and>
      f_b_queued f = f_b_sent f + f_b_dropped f + of_nat (bytes_in (rb_items f)) \<and>
      f_p_queued f = f_p_sent f + f_p_dropped f + of_nat (f_queued f)) \<and>
    (\<exists>xs. distinct xs \<and> map (\<lambda>i. f_next (tb_list st i)) xs = rotate1 xs \<and>
      tb_chain st = (if xs = [] then -1 else int (hd xs)) \<and>
      (\<forall>i \<in> set xs. f_queued (tb_list st i) > 0))"
proof -
  have "tbf_inv st"
    using assms(1) init_inv [OF assms(2)] by (induction rule: rtranclp_induct) (auto intro: step_inv)
  then show ?thesis
    by (auto simp: tbf_inv_def filter_ok_def rb_inv_def chain_def ring_links_def Let_def)
qed

subsection \<open>The rate limit\<close>

lemma uint_mult_le:
  fixes x y :: "'a :: len word"
  shows "uint (x * y) \<le> uint x * uint y"
proof -
  have "uint (x * y) = (uint x * uint y) mod 2 ^ LENGTH('a)" by (simp add: uint_word_ariths)
  also have "\<dots> \<le> uint x * uint y" by (simp add: zmod_le_nonneg_dividend)
  finally show ?thesis .
qed

lemma earned_le:
  assumes "0 \<le> f_rate f" and "f_rate f < 2 ^ 31"
  shows "uint (tbf_earned now f) \<le> (uint (now - of_int (f_lasttime f)) * f_rate f) div 10"
proof -
  have r: "uint (of_int (f_rate f) :: u32) = f_rate f"
    using assms by (simp add: uint_word_of_int_eq take_bit_int_eq_self)
  have "uint (tbf_earned now f) = uint ((now - of_int (f_lasttime f)) * of_int (f_rate f)) div 10"
    by (simp add: tbf_earned_def uint_div_distrib)
  also have "\<dots> \<le> (uint (now - of_int (f_lasttime f)) * f_rate f) div 10"
    using uint_mult_le [of "now - of_int (f_lasttime f)" "of_int (f_rate f)"] r
    by (intro zdiv_mono1) simp_all
  finally show ?thesis .
qed

text \<open>
  What happens to the filters over time: packets arrive for any of them, and the timer runs. These are
  the two operations that send packets.
\<close>

datatype tbf_action = Packet nat bytes | Timer

fun tbf_act :: "u32 \<Rightarrow> tbf_action \<Rightarrow> tbf_state \<Rightarrow> tbf_state outcome" where
  "tbf_act now (Packet j data) st = obind (tbf_queue_packet now (int j) data st) (\<lambda>(st', r). Ret st')"
| "tbf_act now Timer st = Ret (fst (tbf_run_timer now st))"

fun tbf_history :: "(u32 \<times> tbf_action) list \<Rightarrow> tbf_state \<Rightarrow> tbf_state outcome" where
  "tbf_history [] st = Ret st"
| "tbf_history ((now, a) # as) st = obind (tbf_act now a st) (tbf_history as)"

fun elapsed :: "u32 \<Rightarrow> u32 list \<Rightarrow> int" where
  "elapsed t [] = 0"
| "elapsed t (u # us) = uint (u - t) + elapsed u us"

lemma elapsed_skip: "elapsed t us \<le> uint (u - t) + elapsed u us"
proof (cases us)
  case (Cons v vs)
  have "v - t = (u - t) + (v - u)" by simp
  then have "uint (v - t) \<le> uint (u - t) + uint (v - u)" by (metis uint_add_le)
  with Cons show ?thesis by simp
qed simp

lemma div_add_le: "(a :: int) div 10 + b div 10 \<le> (a + b) div 10"
  by linarith

text \<open>
  What a filter has sent and may still send at once. An operation at the time \<open>now\<close> either leaves
  the filter alone or adds at most what the filter has earned since it last ran.
\<close>

definition spent :: "nat \<Rightarrow> tbf_state \<Rightarrow> int" where
  "spent tid st = int (bytes_in (delivered tid st)) + f_credit (tb_list st tid)"

definition earns :: "u32 \<Rightarrow> tbft \<Rightarrow> int" where
  "earns now f = (uint (now - of_int (f_lasttime f)) * f_rate f) div 10"

definition in_use :: "nat \<Rightarrow> tbf_state \<Rightarrow> bool" where
  "in_use tid st \<longleftrightarrow> tbf_inv st \<and> f_sid (tb_list st tid) \<noteq> 0 \<and> f_send (tb_list st tid) \<noteq> None \<and>
     0 \<le> f_rate (tb_list st tid) \<and> f_rate (tb_list st tid) < 2 ^ 31"

definition rated :: "nat \<Rightarrow> u32 \<Rightarrow> tbf_state \<Rightarrow> tbf_state \<Rightarrow> bool" where
  "rated tid now st st' \<longleftrightarrow> in_use tid st' \<and> f_rate (tb_list st' tid) = f_rate (tb_list st tid) \<and>
     (f_lasttime (tb_list st' tid) = f_lasttime (tb_list st tid) \<and> spent tid st' = spent tid st \<or>
      f_lasttime (tb_list st' tid) = sint now \<and> spent tid st' \<le> spent tid st + earns now (tb_list st tid))"

lemma rated_refl: "in_use tid st \<Longrightarrow> rated tid now st st"
  by (simp add: rated_def)

lemma earns_none: "f_lasttime f = sint now \<Longrightarrow> earns now f = 0"
  by (simp add: earns_def)

lemma rated_trans:
  assumes "rated tid now a b" and "rated tid now b c"
  shows "rated tid now a c"
proof (cases "f_lasttime (tb_list b tid) = f_lasttime (tb_list a tid) \<and> spent tid b = spent tid a")
  case True
  then have "earns now (tb_list b tid) = earns now (tb_list a tid)"
    using assms by (simp add: rated_def earns_def)
  with True assms show ?thesis by (auto simp: rated_def)
next
  case False
  then have "f_lasttime (tb_list b tid) = sint now"
    and le: "spent tid b \<le> spent tid a + earns now (tb_list a tid)" using assms by (auto simp: rated_def)
  with assms(2) earns_none [of "tb_list b tid" now] show ?thesis
    using assms(1) by (auto simp: rated_def)
qed

text \<open>A step of another filter, and a step of this one.\<close>

lemma rated_other:
  assumes "in_use tid st" and "filter_step j st st'" and "tbf_inv st'" and "j \<noteq> tid"
    and "delivered tid st' = delivered tid st"
  shows "rated tid now st st'"
proof -
  have "strip (tb_list st' tid) = strip (tb_list st tid)" using assms(2,4) by (simp add: filter_step_def)
  note strip_eqD(4,6,7,8,10) [OF this]
  with assms show ?thesis by (simp add: rated_def in_use_def spent_def)
qed

lemma rated_own:
  assumes use: "in_use tid st" and step: "filter_step tid st st'" and inv: "tbf_inv st'"
    and last: "f_lasttime (tb_list st' tid) = sint now"
    and sent: "tb_sent st' = tb_sent st @ log_of tid (tb_list st tid) ds"
    and cr: "f_credit (tb_list st' tid) + int (bytes_in ds) =
      min (f_max_credit (tb_list st tid)) (f_credit (tb_list st tid) + uint (tbf_earned now (tb_list st tid)))"
  shows "rated tid now st st'"
proof -
  have "delivered tid st' = delivered tid st @ ds"
    using delivered_log(1) [OF sent] use by (simp add: in_use_def)
  then have "spent tid st' = int (bytes_in (delivered tid st)) + (f_credit (tb_list st' tid) + int (bytes_in ds))"
    by (simp add: spent_def)
  also have "\<dots> \<le> spent tid st + earns now (tb_list st tid)"
    unfolding cr spent_def earns_def using earned_le [of "tb_list st tid" now] use unfolding in_use_def by linarith
  finally show ?thesis using use step inv last by (simp add: rated_def in_use_def filter_step_def)
qed

lemma run_queue_rated:
  assumes "in_use tid st"
  shows "rated tid now st (tbf_run_queue now j st)"
proof -
  have inv0: "tbf_inv st" using assms by (simp add: in_use_def)
  then obtain xs where xs: "tb_ready st" "\<And>i. filter_ok (tb_list st i)" "chain st xs"
      "\<And>i. i \<in> set xs \<Longrightarrow> f_queued (tb_list st i) > 0"
    by (elim tbf_invE) blast
  have busy: "j \<in> set xs \<longrightarrow> f_queued (tb_list st j) > 0" using xs(4) by blast
  note run = run_queue_effect [OF xs(2) xs(1) xs(3) busy, of now]
  note inv = run_queue_inv [OF inv0, of now j]
  from run(6) obtain ds where sent: "tb_sent (tbf_run_queue now j st) = tb_sent st @ log_of j (tb_list st j) ds"
    and cr: "f_credit (tb_list (tbf_run_queue now j st) j) + int (bytes_in ds) =
      min (f_max_credit (tb_list st j)) (f_credit (tb_list st j) + uint (tbf_earned now (tb_list st j)))" by blast
  show ?thesis
  proof (cases "j = tid")
    case True
    show ?thesis using rated_own [OF assms run(2) [unfolded True] inv [unfolded True] run(3) [unfolded True]
        sent [unfolded True] cr [unfolded True]] unfolding True .
  next
    case False
    then have "delivered tid (tbf_run_queue now j st) = delivered tid st"
      using delivered_log(2) [OF sent, of tid] by simp
    with rated_other [OF assms run(2) inv False] show ?thesis by blast
  qed
qed

lemma timer_loop_rated: "in_use tid st \<Longrightarrow> rated tid now st (tbf_timer_loop count now tail i st)"
proof (induction count now tail i st rule: tbf_timer_loop.induct)
  case (1 count now tail i st)
  note run = run_queue_rated [OF "1.prems", of now i]
  then have "in_use tid (tbf_run_queue now i st)" by (simp add: rated_def)
  with "1.IH" run rated_trans [OF run] show ?case
    by (subst tbf_timer_loop.simps) (auto simp: Let_def split: nat.split)
qed

lemma act_rated:
  assumes "in_use tid st" and "tbf_act now a st = Ret st'"
  shows "rated tid now st st'"
proof (cases a)
  case Timer
  with assms timer_loop_rated [OF assms(1)] rated_refl [OF assms(1)] show ?thesis
    by (auto simp: tbf_run_timer_def Let_def)
next
  case (Packet j data)
  then obtain r where q: "tbf_queue_packet now (int j) data st = Ret (st', r)"
    using assms(2) by (cases "tbf_queue_packet now (int j) data st") auto
  show ?thesis
  proof (cases "0 < j \<and> j < tb_size st \<and> f_sid (tb_list st j) \<noteq> 0")
    case False
    with q have "st' = st" by (auto simp: tbf_queue_packet_def Let_def split: if_splits)
    with rated_refl [OF assms(1)] show ?thesis by simp
  next
    case True
    have inv: "tbf_inv st" using assms(1) by (simp add: in_use_def)
    from queue_packet_effect [OF inv, of j now data] True obtain st1 r1 ds out where
      run: "tbf_queue_packet now (int j) data st = Ret (st1, r1)" "tbf_inv st1" "filter_step j st st1"
      "f_lasttime (tb_list st1 j) = sint now"
      and sent: "tb_sent st1 = tb_sent st @ log_of j (tb_list st j) (ds @ out)"
      and cr: "f_credit (tb_list st1 j) + int (bytes_in (ds @ out)) =
        min (f_max_credit (tb_list st j)) (f_credit (tb_list st j) + uint (tbf_earned now (tb_list st j)))" by metis
    have [simp]: "st1 = st'" using run(1) q by simp
    show ?thesis
    proof (cases "j = tid")
      case j: True
      show ?thesis using rated_own [OF assms(1) run(3) [unfolded j] run(2) run(4) [unfolded j] sent [unfolded j]
          cr [unfolded j]] by simp
    next
      case False
      have "delivered tid st1 = delivered tid st" using delivered_log(2) [OF sent] False by simp
      with rated_other [OF assms(1) run(3,2) False] show ?thesis by simp
    qed
  qed
qed

lemma history_rated:
  assumes "in_use tid st" and "tbf_history as st = Ret st'"
  shows "in_use tid st' \<and> spent tid st' \<le> spent tid st +
    (f_rate (tb_list st tid) * elapsed (of_int (f_lasttime (tb_list st tid))) (map fst as)) div 10"
  using assms
proof (induction "as" arbitrary: st)
  case (Cons a "as")
  obtain now act where a: "a = (now, act)" by (cases a)
  from Cons.prems(2) obtain st1 where st1: "tbf_act now act st = Ret st1" and rest: "tbf_history as st1 = Ret st'"
    unfolding a by (cases "tbf_act now act st") auto
  let ?r = "f_rate (tb_list st tid)" and ?last = "of_int (f_lasttime (tb_list st tid)) :: u32"
  let ?us = "map fst as"
  have r: "rated tid now st st1" by (rule act_rated [OF Cons.prems(1) st1])
  then have use1: "in_use tid st1" and rate: "f_rate (tb_list st1 tid) = ?r" by (simp_all add: rated_def)
  have r0: "0 \<le> ?r" using Cons.prems(1) by (simp add: in_use_def)
  from Cons.IH [OF use1 rest] have use': "in_use tid st'"
    and IH: "spent tid st' \<le> spent tid st1 + (?r * elapsed (of_int (f_lasttime (tb_list st1 tid))) ?us) div 10"
    unfolding rate by simp_all
  have el: "elapsed ?last (map fst (a # as)) = uint (now - ?last) + elapsed now ?us" by (simp add: a)
  have "spent tid st1 + (?r * elapsed (of_int (f_lasttime (tb_list st1 tid))) ?us) div 10 \<le>
      spent tid st + (?r * elapsed ?last (map fst (a # as))) div 10"
  proof (cases "f_lasttime (tb_list st1 tid) = f_lasttime (tb_list st tid) \<and> spent tid st1 = spent tid st")
    case True
    have "?r * elapsed ?last ?us \<le> ?r * (uint (now - ?last) + elapsed now ?us)"
      by (rule mult_left_mono [OF elapsed_skip r0])
    with True show ?thesis unfolding el by (simp add: zdiv_mono1)
  next
    case False
    then have last: "f_lasttime (tb_list st1 tid) = sint now" and
      s: "spent tid st1 \<le> spent tid st + (uint (now - ?last) * ?r) div 10"
      using r by (auto simp: rated_def earns_def)
    have "?r * elapsed ?last (map fst (a # as)) = uint (now - ?last) * ?r + ?r * elapsed now ?us"
      unfolding el by (simp add: algebra_simps)
    then show ?thesis using s div_add_le [of "uint (now - ?last) * ?r" "?r * elapsed now ?us"]
      unfolding last by simp
  qed
  with IH use' show ?case by linarith
qed simp

text \<open>
  C8: the rate limit. However packets arrive for whichever filters and however often the timer runs, a
  filter that is in use all the time sends at most its burst size plus its rate (bytes per second, the
  clock counts tenths) times the time that passes; unused credit does not accumulate beyond the burst
  size.
\<close>

theorem tbf_rate_limit:
  assumes "tbf_inv st" and "f_sid (tb_list st tid) \<noteq> 0" and "f_send (tb_list st tid) \<noteq> None"
    and "0 \<le> f_rate (tb_list st tid)" and "f_rate (tb_list st tid) < 2 ^ 31"
    and "tbf_history as st = Ret st'"
  shows "int (bytes_in (delivered tid st')) \<le> int (bytes_in (delivered tid st)) +
    f_max_credit (tb_list st tid) +
    (f_rate (tb_list st tid) * elapsed (of_int (f_lasttime (tb_list st tid))) (map fst as)) div 10"
proof -
  have "in_use tid st" using assms(1-5) by (simp add: in_use_def)
  from history_rated [OF this assms(6)] have "in_use tid st'" and
    le: "spent tid st' \<le> spent tid st +
      (f_rate (tb_list st tid) * elapsed (of_int (f_lasttime (tb_list st tid))) (map fst as)) div 10" by simp_all
  then have "0 \<le> f_credit (tb_list st' tid)" by (simp add: in_use_def tbf_inv_def filter_ok_def)
  moreover have "f_credit (tb_list st tid) \<le> f_max_credit (tb_list st tid)"
    using assms(1) by (simp add: tbf_inv_def filter_ok_def)
  ultimately show ?thesis using le unfolding spent_def by linarith
qed

subsection \<open>The timer walk\<close>

lemma chain_next:
  assumes "chain st (as @ x # y # bs)"
  shows "f_next (tb_list st x) = y"
  using assms ring_links_rotate [of "tb_list st" as "x # y # bs"] ring_next
  by (fastforce simp: chain_def)

lemma chain_last:
  assumes "chain st (x # xs)"
  shows "f_prev (tb_list st x) = last (x # xs)"
  using assms ring_prev by (simp add: chain_def)

text \<open>A filter has been visited: it ran now, and waits only if its credit does not suffice.\<close>

definition visited :: "u32 \<Rightarrow> tbft \<Rightarrow> bool" where
  "visited now f \<longleftrightarrow> f_lasttime f = sint now \<and>
     (rb_items f = [] \<or> f_credit f < int (length (hd (rb_items f))))"

lemma visited_strip: "strip f = strip g \<Longrightarrow> visited now f = visited now g"
  using strip_eqD(1,4,10) [of f g] by (simp add: visited_def)

lemma timer_loop_visits:
  assumes "tbf_inv st" and "chain st (ks @ i # rest)" and "length rest < count"
  shows "(\<forall>j \<in> set (i # rest). visited now (tb_list (tbf_timer_loop count now (last (i # rest)) i st) j)) \<and>
    (\<forall>j. j \<notin> set (i # rest) \<longrightarrow>
       strip (tb_list (tbf_timer_loop count now (last (i # rest)) i st) j) = strip (tb_list st j))"
  using assms
proof (induction rest arbitrary: st ks i count)
  case (Nil st ks i count)
  from Nil.prems have *: "tb_ready st" "filter_ok (tb_list st i)" "f_queued (tb_list st i) > 0"
    by (auto simp: tbf_inv_def chain_def)
  note run = run_queue_effect [OF *(2) *(1) Nil.prems(2), of now]
  have "visited now (tb_list (tbf_run_queue now i st) i)"
    using run *(3) by (simp add: visited_def)
  moreover have "strip (tb_list (tbf_run_queue now i st) j) = strip (tb_list st j)" if "j \<noteq> i" for j
    using run(2) *(3) that by (simp add: filter_step_def)
  moreover have "tbf_timer_loop count now (last [i]) i st = tbf_run_queue now i st"
    by (subst tbf_timer_loop.simps) (simp add: Let_def)
  ultimately show ?case by simp
next
  case (Cons y rest st ks i count)
  let ?xs = "ks @ i # y # rest"
  from Cons.prems have *: "tb_ready st" "filter_ok (tb_list st i)" "f_queued (tb_list st i) > 0"
    by (auto simp: tbf_inv_def chain_def)
  note run = run_queue_effect [OF *(2) *(1) Cons.prems(2), of now]
  let ?st1 = "tbf_run_queue now i st"
  let ?g = "tb_list ?st1 i"
  have d: "distinct ?xs" and z: "0 \<notin> set ?xs"
    using Cons.prems(2) by (simp_all add: chain_def ring_links_def)
  have next_y: "f_next (tb_list st i) = y" using chain_next Cons.prems(2) by blast
  let ?ks = "if rb_items ?g = [] then ks else ks @ [i]"
  have ch1: "chain ?st1 (?ks @ y # rest)"
    using run(4) *(3) d by (auto simp: remove1_append split: if_splits)
  then have pos: "tb_chain ?st1 > 0"
  proof -
    have "hd (?ks @ y # rest) \<in> set (?ks @ y # rest)" by (rule hd_in_set) simp
    moreover have "0 \<notin> set (?ks @ y # rest)" using z by auto
    ultimately have "hd (?ks @ y # rest) \<noteq> 0" by metis
    moreover have "tb_chain ?st1 = int (hd (?ks @ y # rest))" using ch1 by (simp add: chain_def)
    ultimately show ?thesis by linarith
  qed
  obtain c where c: "count = Suc c" "length rest < c"
    using Cons.prems(3) by (cases count) auto
  have ilast: "i \<noteq> last (i # y # rest)"
    using d last_in_set [of "y # rest"] by auto
  have eq: "tbf_timer_loop count now (last (i # y # rest)) i st =
      tbf_timer_loop c now (last (y # rest)) y ?st1"
    using pos next_y z ilast c by (subst tbf_timer_loop.simps) (auto simp: Let_def)
  from Cons.IH [OF run_queue_inv [OF Cons.prems(1)] ch1 c(2)]
  have IH: "\<forall>j \<in> set (y # rest). visited now (tb_list (tbf_timer_loop c now (last (y # rest)) y ?st1) j)"
    "\<forall>j. j \<notin> set (y # rest) \<longrightarrow>
       strip (tb_list (tbf_timer_loop c now (last (y # rest)) y ?st1) j) = strip (tb_list ?st1 j)"
    by simp_all
  have vi: "visited now ?g" using run *(3) by (simp add: visited_def)
  have "i \<notin> set (y # rest)" using d by auto
  then have "visited now (tb_list (tbf_timer_loop c now (last (y # rest)) y ?st1) i)"
    using IH(2) vi visited_strip by blast
  moreover have "strip (tb_list ?st1 j) = strip (tb_list st j)" if "j \<noteq> i" for j
    using run(2) *(3) that by (simp add: filter_step_def)
  ultimately show ?case unfolding eq using IH by auto
qed

lemma distinct_bounded: "distinct xs \<Longrightarrow> \<forall>x \<in> set xs. x < n \<Longrightarrow> length xs \<le> (n :: nat)"
  by (metis card_lessThan card_mono distinct_card finite_lessThan lessThan_iff subsetI)

text \<open>
  C29: the timer walk reaches every filter on the chain although filters leave the chain while it
  runs: afterwards each has been run at the current time and keeps a packet only if its credit
  does not cover it; filters that were not waiting are untouched.
\<close>

theorem tbf_timer_visits_all:
  assumes "tbf_inv st"
  shows "\<forall>i. (if f_next (tb_list st i) \<noteq> 0
    then visited now (tb_list (fst (tbf_run_timer now st)) i)
    else strip (tb_list (fst (tbf_run_timer now st)) i) = strip (tb_list st i))"
proof -
  from assms obtain xs where xs: "tb_ready st" "chain st xs" "\<And>i. i \<in> set xs \<Longrightarrow> i < tb_size st"
    "distinct xs" by (elim tbf_invE) blast
  have on: "f_next (tb_list st i) \<noteq> 0 \<longleftrightarrow> i \<in> set xs" for i using xs(2) by (simp add: chain_def)
  show ?thesis
  proof (cases xs)
    case Nil
    with xs(2) on show ?thesis by (simp add: tbf_run_timer_def chain_def)
  next
    case (Cons x rest)
    have "length xs \<le> tb_size st" using distinct_bounded xs(3,4) by blast
    then have "length rest < tb_size st + 1" using Cons by simp
    from timer_loop_visits [OF assms, of "[]" x rest, OF _ this] xs(2) Cons
    have "(\<forall>j \<in> set xs. visited now (tb_list (tbf_timer_loop (tb_size st + 1) now (last xs) x st) j)) \<and>
      (\<forall>j. j \<notin> set xs \<longrightarrow>
        strip (tb_list (tbf_timer_loop (tb_size st + 1) now (last xs) x st) j) = strip (tb_list st j))"
      by simp
    moreover have "fst (tbf_run_timer now st) = tbf_timer_loop (tb_size st + 1) now (last xs) x st"
    proof -
      have "f_prev (tb_list st x) = last xs" using chain_last xs(2) Cons by simp
      with xs(1,2) Cons show ?thesis by (simp add: tbf_run_timer_def chain_def Let_def)
    qed
    ultimately show ?thesis using on by auto
  qed
qed

subsection \<open>A run\<close>

text \<open>Four filters; one is created for session 7 with a rate of 1000 bytes per second.\<close>

definition sample_tbf :: tbf_state where
  "sample_tbf = fst (new_tbf 7 2000 1000 (Some SendIpin) (init_tbf False 4\<lparr>tb_p := 2\<rparr>))"

lemma sample_tbf_eq:
  "sample_tbf = tb_upd 2 (\<lambda>_. tbf_zero\<lparr>f_sid := 7, f_credit := 2000, f_max_credit := 2000,
     f_rate := 1000, f_send := Some SendIpin\<rparr>) (init_tbf False 4\<lparr>tb_p := 2\<rparr>)"
proof -
  let ?i = "init_tbf False 4\<lparr>tb_p := 2\<rparr>"
  have "tb_ready ?i" "tb_size ?i = 4" "f_sid (tb_list ?i 2) = 0"
    by (simp_all add: init_tbf_def Let_def tbf_zero_def)
  then show ?thesis
    using new_tbf_loop.simps(2) [of 3 7 2000 1000 "Some SendIpin" ?i]
    by (simp add: sample_tbf_def new_tbf_def Let_def id16_def)
qed

lemma sample_tbf_list:
  "tb_list sample_tbf 2 = tbf_zero\<lparr>f_sid := 7, f_credit := 2000, f_max_credit := 2000,
     f_rate := 1000, f_send := Some SendIpin\<rparr>"
  "tb_size sample_tbf = 4"
  by (simp_all add: sample_tbf_eq init_tbf_def Let_def)

lemma sample_tbf_inv: "tbf_inv sample_tbf"
proof -
  let ?i = "init_tbf False 4\<lparr>tb_p := 2\<rparr>"
  have "tbf_inv (init_tbf False 4)" using init_inv by simp
  then have i: "tbf_inv ?i"
    by (simp add: tbf_inv_def chain_def) (simp add: init_tbf_def Let_def)
  have "sample_tbf = fst (new_tbf_loop (tb_size ?i) 7 2000 1000 (Some SendIpin) ?i)"
    by (simp add: sample_tbf_def new_tbf_def init_tbf_def Let_def)
  then show ?thesis
    using new_inv_loop [OF i, of 2000 7 "tb_size ?i" 1000 "Some SendIpin"]
    by (simp only:) (simp add: credit_limit_def id16_def)
qed

lemma sample_in_use:
  "(0::nat) < 2" "2 < tb_size sample_tbf" "f_sid (tb_list sample_tbf 2) \<noteq> 0"
  "f_send (tb_list sample_tbf 2) \<noteq> None"
  by (simp_all add: sample_tbf_list)

lemma tbf_queue_packet_fifo_witness:
  "\<exists>st' r. tbf_queue_packet 5 2 [1, 2] sample_tbf = Ret (st', r) \<and>
     delivered 2 st' @ rb_items (tb_list st' 2) = delivered 2 sample_tbf @
       rb_items (tb_list sample_tbf 2) @ (if r < 0 then [] else [[1, 2]])"
  using tbf_queue_packet_fifo [OF sample_tbf_inv sample_in_use, of 5 "[1, 2]"]
  unfolding of_nat_numeral by blast

lemma tbf_reachable_ok_witness:
  "\<exists>st. tbf_step\<^sup>*\<^sup>* (init_tbf False 4) st \<and>
     f_credit (tb_list st 1) \<le> f_max_credit (tb_list st 1)"
proof -
  let ?st = "fst (new_tbf 7 2000 1000 (Some SendIpin) (init_tbf False 4))"
  have step: "tbf_step\<^sup>*\<^sup>* (init_tbf False 4) ?st"
    by (intro r_into_rtranclp tbf_step.new) (simp_all add: credit_limit_def id16_def)
  from tbf_reachable_ok [OF step] have "f_credit (tb_list ?st 1) \<le> f_max_credit (tb_list ?st 1)"
    unfolding Let_def by (meson zero_less_numeral)
  with step show ?thesis by blast
qed

lemma tbf_rate_limit_witness:
  "\<exists>st'. tbf_history [(5, Packet 2 [1, 2]), (7, Timer)] sample_tbf = Ret st' \<and>
     int (bytes_in (delivered 2 st')) \<le> int (bytes_in (delivered 2 sample_tbf)) + 2000 + 700"
proof -
  from queue_packet_effect [OF sample_tbf_inv sample_in_use(1-3), of 5 "[1, 2]"] obtain st1 r where
    "tbf_queue_packet 5 (int 2) [1, 2] sample_tbf = Ret (st1, r)" by metis
  then obtain st' where run: "tbf_history [(5, Packet 2 [1, 2]), (7, Timer)] sample_tbf = Ret st'" by simp
  from tbf_rate_limit [OF sample_tbf_inv sample_in_use(3,4) _ _ run] have
    "int (bytes_in (delivered 2 st')) \<le> int (bytes_in (delivered 2 sample_tbf)) + 2000 + 700"
    by (simp add: sample_tbf_list tbf_zero_def)
  with run show ?thesis by blast
qed

lemma tbf_timer_visits_all_witness:
  "strip (tb_list (fst (tbf_run_timer 9 sample_tbf)) 3) = strip (tb_list sample_tbf 3)"
proof -
  have "f_next (tb_list sample_tbf 3) = 0"
    by (simp add: sample_tbf_eq init_tbf_def Let_def tbf_zero_def)
  then show ?thesis using tbf_timer_visits_all [OF sample_tbf_inv, of 9] by metis
qed

end
