(* ===== verification/Bgp.thy ===== *)
theory Bgp
  imports Prelude "HOL-Library.List_Lexorder"
begin

text \<open>
  The BGP speaker of \<^verbatim>\<open>src/bgp.c\<close>: the sorted lists of routes to announce, the per-peer state
  machine and the incremental \<open>UPDATE\<close> computation. A linked list of routes is the list of its
  destinations; the system calls (\<open>connect\<close>, \<open>write\<close>) are inputs of the operations that issue
  them.
\<close>

subsection \<open>Destinations and their order\<close>

text \<open>
  \<open>struct bgp_ip_prefix\<close> and \<open>struct bgp_ip6_prefix\<close> are packed: a length byte and the address
  bytes as they lie in memory (network order). Routes are compared with \<open>memcmp\<close> on the whole
  structure.
\<close>

datatype bgp_dest = BgpDest (dest_len: u8) (dest_prefix: bytes)

definition dest_mem :: "bgp_dest \<Rightarrow> bytes" where
  "dest_mem d = dest_len d # dest_prefix d"

fun memcmp :: "bytes \<Rightarrow> bytes \<Rightarrow> int" where
  "memcmp (a # as) (b # bs) = (if a < b then -1 else if b < a then 1 else memcmp as bs)"
| "memcmp [] [] = 0"
| "memcmp [] (b # bs) = -1"
| "memcmp (a # as) [] = 1"

lemma memcmp_less: "memcmp xs ys < 0 \<longleftrightarrow> xs < ys"
  by (induction xs ys rule: memcmp.induct) auto

lemma memcmp_eq: "memcmp xs ys = 0 \<longleftrightarrow> xs = ys"
  by (induction xs ys rule: memcmp.induct) auto

lemma memcmp_greater: "memcmp xs ys > 0 \<longleftrightarrow> ys < xs"
  by (induction xs ys rule: memcmp.induct) auto

lemma dest_mem_inject [simp]: "dest_mem d = dest_mem e \<longleftrightarrow> d = e"
  by (cases d; cases e) (simp add: dest_mem_def)

instantiation bgp_dest :: linorder
begin

definition less_eq_bgp_dest :: "bgp_dest \<Rightarrow> bgp_dest \<Rightarrow> bool" where
  "d \<le> e \<longleftrightarrow> dest_mem d \<le> dest_mem e"

definition less_bgp_dest :: "bgp_dest \<Rightarrow> bgp_dest \<Rightarrow> bool" where
  "d < e \<longleftrightarrow> dest_mem d < dest_mem e"

instance
proof (standard, goal_cases)
  case (1 x y)
  show ?case by (simp add: less_eq_bgp_dest_def less_bgp_dest_def less_le_not_le)
next
  case (5 x y)
  show ?case by (simp add: less_eq_bgp_dest_def linear)
qed (auto simp: less_eq_bgp_dest_def)

end

definition dest_cmp :: "bgp_dest \<Rightarrow> bgp_dest \<Rightarrow> int" where
  "dest_cmp d e = memcmp (dest_mem d) (dest_mem e)"

lemma dest_cmp_simps [simp]:
  "dest_cmp d e < 0 \<longleftrightarrow> d < e" "dest_cmp d e = 0 \<longleftrightarrow> d = e" "0 < dest_cmp d e \<longleftrightarrow> e < d"
  by (simp_all add: dest_cmp_def memcmp_less memcmp_eq memcmp_greater less_bgp_dest_def)

definition BGP_IP_PREFIX_SIZE :: "bgp_dest \<Rightarrow> nat" where
  "BGP_IP_PREFIX_SIZE d =
     1 + unat (dest_len d) div 8 + (if unat (dest_len d) mod 8 \<noteq> 0 then 1 else 0)"

subsection \<open>Route lists\<close>

text \<open>
  \<open>bgp_insert_route\<close> walks to the first element not below the new one and links the new
  element before it (\<open>e\<close> is the element passed last).
\<close>

fun bgp_insert_route :: "bgp_dest list \<Rightarrow> bgp_dest \<Rightarrow> bgp_dest list" where
  "bgp_insert_route [] new = [new]"
| "bgp_insert_route (p # ps) new =
     (if dest_cmp p new < 0 then p # bgp_insert_route ps new else new # p # ps)"

text \<open>The duplicate check of \<open>bgp_add_route\<close>: it stops at the first element above the new one.\<close>

fun bgp_route_covered :: "bgp_dest list \<Rightarrow> bgp_dest \<Rightarrow> bool" where
  "bgp_route_covered [] add = False"
| "bgp_route_covered (r # rs) add =
     (if dest_cmp r add = 0 then True
      else if dest_cmp r add > 0 then False
      else bgp_route_covered rs add)"

text \<open>The search of \<open>bgp_del_route\<close>: the list without the entry, and whether it was found.\<close>

fun bgp_unlink_route :: "bgp_dest list \<Rightarrow> bgp_dest \<Rightarrow> bgp_dest list \<times> bool" where
  "bgp_unlink_route [] del = ([], False)"
| "bgp_unlink_route (r # rs) del =
     (if dest_cmp r del = 0 then (rs, True)
      else if dest_cmp r del > 0 then (r # rs, False)
      else (case bgp_unlink_route rs del of (rs', found) \<Rightarrow> (r # rs', found)))"

definition route_list :: "bgp_dest list \<Rightarrow> bool" where
  "route_list rs \<longleftrightarrow> sorted_wrt (<) rs"

lemma route_list_simps [simp]:
  "route_list []" "route_list (r # rs) \<longleftrightarrow> (\<forall>x \<in> set rs. r < x) \<and> route_list rs"
  by (simp_all add: route_list_def)

lemma set_insert_route [simp]: "set (bgp_insert_route rs d) = insert d (set rs)"
  by (induction rs) auto

lemma route_list_insert: "route_list rs \<Longrightarrow> d \<notin> set rs \<Longrightarrow> route_list (bgp_insert_route rs d)"
  by (induction rs) (auto simp: not_less dest: order.order_iff_strict [THEN iffD1])

lemma covered_iff: "route_list rs \<Longrightarrow> bgp_route_covered rs d \<longleftrightarrow> d \<in> set rs"
  by (induction rs) (auto dest: order.asym)

lemma unlink_route_correct:
  "route_list rs \<Longrightarrow> bgp_unlink_route rs d = (rs', found) \<Longrightarrow>
     route_list rs' \<and> set rs' = set rs - {d} \<and> found = (d \<in> set rs)"
  by (induction rs arbitrary: rs' found)
    (auto split: if_splits prod.splits dest: order.asym)

lemma route_list_unique: "route_list xs \<Longrightarrow> route_list ys \<Longrightarrow> set xs = set ys \<Longrightarrow> xs = ys"
  by (metis route_list_def strict_sorted_iff strict_sorted_equal)

subsection \<open>Peers\<close>

datatype bgp_fsm =
  Disabled | Idle | Connect | Active | OpenSent | OpenConfirm | Established

datatype bgp_mp = HandleIPv6Routes | DoesntHandleIPv6Routes | HandlingUnknown

text \<open>
  \<open>struct bgp_peer\<close>. \<open>outbuf\<close> is the pending packet (empty when \<open>header.len\<close> is 0) and the
  number of its bytes already written; \<open>inbuf\<close> is the \<open>done\<close> bytes received so far.
  \<open>bp_path_attrs\<close> holds its length; \<open>bp_attr_len_wo\<close> is \<open>path_attr_len_without_nexthop\<close>, and
  \<open>bp_mp_reach\<close>, \<open>bp_mp_unreach\<close> are the two prepared multiprotocol attribute headings.
\<close>

record bgp_peer =
  bp_name :: string
  bp_addr :: u32
  bp_source_addr :: u32
  bp_as :: int
  bp_sock :: int
  bp_state :: bgp_fsm
  bp_next_state :: bgp_fsm
  bp_state_time :: int
  bp_keepalive_time :: int
  bp_retry_time :: int
  bp_retry_count :: int
  bp_init_keepalive :: int
  bp_init_hold :: int
  bp_keepalive :: int
  bp_hold :: int
  bp_expire_time :: int
  bp_routing :: bool
  bp_update_routes :: bool
  bp_routes :: "bgp_dest list"
  bp_outbuf :: bytes
  bp_out_done :: nat
  bp_inbuf :: bytes
  bp_cli_flag :: int
  bp_path_attrs :: bytes
  bp_events :: int
  bp_mp_handling :: bgp_mp
  bp_update_routes6 :: bool
  bp_routes6 :: "bgp_dest list"
  bp_attr_len_wo :: nat
  bp_mp_reach :: bytes
  bp_mp_unreach :: bytes

text \<open>The module's variables; \<open>bg_peers\<close> is the array of \<open>BGP_NUM_PEERS\<close> peers.\<close>

record bgp_state =
  bg_our_as :: u16
  bg_routes :: "bgp_dest list"
  bg_routes6 :: "bgp_dest list"
  bg_configured :: bool
  bg_peers :: "bgp_peer list"

subsection \<open>Registering routes\<close>

text \<open>
  \<open>bgp_add_route\<close> and its siblings. The return value of the C functions is 0 when \<open>malloc\<close>
  fails (\<open>oom\<close>) and 1 otherwise. \<open>ip\<close> is the value whose big-endian bytes lie in memory, i.e.
  the argument of the C function before \<open>htonl\<close>.
\<close>

definition flag_established :: "bgp_peer \<Rightarrow> bgp_peer" where
  "flag_established p =
     (if bp_state p = Established then p\<lparr>bp_update_routes := True\<rparr> else p)"

definition flag_established6 :: "bgp_peer \<Rightarrow> bgp_peer" where
  "flag_established6 p =
     (if bp_state p = Established \<and> bp_mp_handling p = HandleIPv6Routes
      then p\<lparr>bp_update_routes6 := True\<rparr> else p)"

definition bgp_add_route :: "bool \<Rightarrow> u32 \<Rightarrow> u8 \<Rightarrow> bgp_state \<Rightarrow> bgp_state \<times> int" where
  "bgp_add_route oom ip prefixlen b =
     (let add = BgpDest prefixlen (be32 ip) in
      if bgp_route_covered (bg_routes b) add then (b, 1)
      else if oom then (b, 0)
      else (b\<lparr>bg_routes := bgp_insert_route (bg_routes b) add,
              bg_peers := map flag_established (bg_peers b)\<rparr>, 1))"

definition bgp_add_route6 :: "bool \<Rightarrow> bytes \<Rightarrow> u8 \<Rightarrow> bgp_state \<Rightarrow> bgp_state \<times> int" where
  "bgp_add_route6 oom ip prefixlen b =
     (let add = BgpDest prefixlen ip in
      if bgp_route_covered (bg_routes6 b) add then (b, 1)
      else if oom then (b, 0)
      else (b\<lparr>bg_routes6 := bgp_insert_route (bg_routes6 b) add,
              bg_peers := map flag_established6 (bg_peers b)\<rparr>, 1))"

definition bgp_del_route :: "u32 \<Rightarrow> u8 \<Rightarrow> bgp_state \<Rightarrow> bgp_state \<times> int" where
  "bgp_del_route ip prefixlen b =
     (case bgp_unlink_route (bg_routes b) (BgpDest prefixlen (be32 ip)) of
        (rs, found) \<Rightarrow>
          if \<not> found then (b, 1)
          else (b\<lparr>bg_routes := rs, bg_peers := map flag_established (bg_peers b)\<rparr>, 1))"

definition bgp_del_route6 :: "bytes \<Rightarrow> u8 \<Rightarrow> bgp_state \<Rightarrow> bgp_state \<times> int" where
  "bgp_del_route6 ip prefixlen b =
     (case bgp_unlink_route (bg_routes6 b) (BgpDest prefixlen ip) of
        (rs, found) \<Rightarrow>
          if \<not> found then (b, 1)
          else (b\<lparr>bg_routes6 := rs, bg_peers := map flag_established6 (bg_peers b)\<rparr>, 1))"

definition bgp_enable_routing :: "bool \<Rightarrow> bgp_state \<Rightarrow> bgp_state" where
  "bgp_enable_routing enable b =
     b\<lparr>bg_peers := map (\<lambda>p. flag_established (p\<lparr>bp_routing := enable\<rparr>)) (bg_peers b)\<rparr>"

subsection \<open>The peer state machine\<close>

text \<open>What the system calls of one operation return, and the globals the operation reads.\<close>

datatype write_result = WBytes nat | WAgain | WError

datatype connect_result =
  NoService | NoSocket | NoBind int | ConnError int | ConnInProgress int | ConnDone int

record bgp_env =
  be_time :: int
  be_our_as :: u16
  be_my_address :: u32
  be_ipv6 :: bool
  be_write :: write_result
  be_connect :: connect_result

definition BGP_MAX_PACKET_SIZE :: nat where "BGP_MAX_PACKET_SIZE = 4096"
definition BGP_MAX_RETRY :: int where "BGP_MAX_RETRY = 42"
definition BGP_RETRY_BACKOFF :: int where "BGP_RETRY_BACKOFF = 60"
definition BGP_STATE_TIME :: int where "BGP_STATE_TIME = 60"
definition BGP_HEADER :: nat where "BGP_HEADER = 19"

definition bgp_clear :: "int \<Rightarrow> bgp_peer \<Rightarrow> bgp_peer" where
  "bgp_clear time_now p =
     (let p1 = p\<lparr>bp_sock := -1, bp_keepalive_time := 0, bp_expire_time := 0,
                  bp_keepalive := bp_init_keepalive p, bp_hold := bp_init_hold p,
                  bp_routes := [], bp_routes6 := [], bp_outbuf := [], bp_out_done := 0,
                  bp_inbuf := [], bp_cli_flag := 0, bp_events := 0\<rparr>
      in if bp_state p \<noteq> bp_next_state p
         then p1\<lparr>bp_state := bp_next_state p, bp_state_time := time_now\<rparr> else p1)"

definition bgp_halt :: "int \<Rightarrow> bgp_peer \<Rightarrow> bgp_peer" where
  "bgp_halt time_now p = bgp_clear time_now (p\<lparr>bp_next_state := Disabled\<rparr>)"

definition bgp_set_retry :: "int \<Rightarrow> bgp_peer \<Rightarrow> bgp_peer" where
  "bgp_set_retry time_now p =
     (let c = bp_retry_count p; p1 = p\<lparr>bp_retry_count := c + 1\<rparr> in
      if c < BGP_MAX_RETRY
      then bgp_clear time_now
             (p1\<lparr>bp_retry_time := time_now + BGP_RETRY_BACKOFF * (c + 1), bp_next_state := Idle\<rparr>)
      else bgp_halt time_now p1)"

text \<open>
  \<open>bgp_write_first\<close>: \<open>bgp_write\<close> on a packet of which nothing has been sent, as the functions that
  build a packet call it right after clearing \<open>done\<close>: one \<open>write\<close> that is not interrupted. Its
  second result is the C return value.
\<close>

definition bgp_write_first :: "bgp_env \<Rightarrow> bgp_peer \<Rightarrow> bgp_peer \<times> bool" where
  "bgp_write_first e p =
     (let len = length (bp_outbuf p) in
      case be_write e of
        WAgain \<Rightarrow> (p, True)
      | WError \<Rightarrow> (bgp_set_retry (be_time e) p, False)
      | WBytes r \<Rightarrow>
          if r < len then (p\<lparr>bp_out_done := bp_out_done p + r\<rparr>, True)
          else
            (let p1 = p\<lparr>bp_outbuf := [], bp_out_done := 0\<rparr>;
                 p2 = (if bp_state p1 = Established
                       then p1\<lparr>bp_keepalive_time := be_time e + bp_keepalive p1\<rparr> else p1)
             in if bp_state p2 \<noteq> bp_next_state p2
                then (if bp_next_state p2 = Disabled \<or> bp_next_state p2 = Idle
                      then (bgp_clear (be_time e) p2, False)
                      else (p2\<lparr>bp_state := bp_next_state p2, bp_state_time := be_time e\<rparr>, True))
                else (p2, True)))"

text \<open>
  \<open>bgp_write\<close> as the event loop calls it. The start of the rest to send is \<open>&peer->outbuf->packet +
  peer->outbuf->done\<close>: the addition counts in packets of 4096 bytes, so once part of a packet has
  been sent the bytes handed to \<open>write\<close> lie beyond the buffer.
\<close>

definition bgp_write :: "bgp_env \<Rightarrow> bgp_peer \<Rightarrow> (bgp_peer \<times> bool) outcome" where
  "bgp_write e p = (if bp_out_done p \<noteq> 0 then Undef else Ret (bgp_write_first e p))"

definition bgp_packet :: "u8 \<Rightarrow> bytes \<Rightarrow> bytes" where
  "bgp_packet ty data =
     replicate 16 0xff @ be16 (of_nat (BGP_HEADER + length data)) @ [ty] @ data"

definition bgp_send_open :: "bgp_env \<Rightarrow> bgp_peer \<Rightarrow> bgp_peer \<times> bool" where
  "bgp_send_open e p =
     (let ident = (if bp_source_addr p \<noteq> 0 then bp_source_addr p else be_my_address e);
          opts = (if be_ipv6 e \<and> (bp_mp_handling p = HandlingUnknown \<or>
                                   bp_mp_handling p = HandleIPv6Routes)
                  then [2, 6, 1, 4, 0, 2, 0, 1] else []);
          data = [4] @ be16 (be_our_as e) @ be16 (of_int (bp_hold p)) @ be32 ident @
                 [of_nat (length opts)] @ opts
      in bgp_write_first e (p\<lparr>bp_outbuf := bgp_packet 1 data, bp_out_done := 0,
                         bp_next_state := OpenSent\<rparr>))"

definition bgp_send_keepalive :: "bgp_env \<Rightarrow> bgp_peer \<Rightarrow> bgp_peer \<times> bool" where
  "bgp_send_keepalive e p =
     bgp_write_first e (p\<lparr>bp_outbuf := bgp_packet 4 [], bp_out_done := 0,
       bp_next_state := (if bp_state p = OpenSent then OpenConfirm else bp_state p)\<rparr>)"

definition bgp_send_notification :: "bgp_env \<Rightarrow> u8 \<Rightarrow> u8 \<Rightarrow> bgp_peer \<Rightarrow> bgp_peer \<times> bool" where
  "bgp_send_notification e code subcode p =
     bgp_write_first e (p\<lparr>bp_outbuf := bgp_packet 3 [code, subcode], bp_out_done := 0,
       bp_next_state := (if code = 6 then Disabled else Idle), bp_inbuf := []\<rparr>)"

definition bgp_stop :: "bgp_env \<Rightarrow> bgp_peer \<Rightarrow> bgp_peer" where
  "bgp_stop e p = fst (bgp_send_notification e 6 0 p)"

definition EPOLLOUT :: int where "EPOLLOUT = 4"

definition bgp_connect :: "bgp_env \<Rightarrow> bgp_peer \<Rightarrow> bgp_peer \<times> bool" where
  "bgp_connect e p =
     (case be_connect e of
        NoService \<Rightarrow> (p, False)
      | NoSocket \<Rightarrow> (p\<lparr>bp_sock := -1, bp_state := Disabled, bp_next_state := Disabled\<rparr>, False)
      | NoBind fd \<Rightarrow>
          (bgp_set_retry (be_time e) (p\<lparr>bp_sock := fd, bp_events := EPOLLOUT\<rparr>), False)
      | ConnError fd \<Rightarrow>
          (bgp_set_retry (be_time e) (p\<lparr>bp_sock := fd, bp_events := EPOLLOUT\<rparr>), False)
      | ConnInProgress fd \<Rightarrow>
          (p\<lparr>bp_sock := fd, bp_events := EPOLLOUT, bp_state := Connect,
             bp_state_time := be_time e\<rparr>, True)
      | ConnDone fd \<Rightarrow>
          bgp_send_open e
            (p\<lparr>bp_sock := fd, bp_events := EPOLLOUT, bp_state := Active,
               bp_state_time := be_time e, bp_retry_time := 0, bp_retry_count := 0\<rparr>))"

definition bgp_restart :: "bgp_env \<Rightarrow> bgp_peer \<Rightarrow> bgp_peer \<times> bool" where
  "bgp_restart e p =
     bgp_connect e ((bgp_clear (be_time e) (p\<lparr>bp_next_state := Idle\<rparr>))
       \<lparr>bp_retry_time := be_time e, bp_retry_count := 0\<rparr>)"

text \<open>\<open>bgp_handle_connect\<close>: \<open>err\<close> is the socket's \<open>SO_ERROR\<close>.\<close>

definition bgp_handle_connect :: "bgp_env \<Rightarrow> bool \<Rightarrow> bgp_peer \<Rightarrow> bgp_peer \<times> bool" where
  "bgp_handle_connect e err p =
     (if err then (bgp_set_retry (be_time e) p, False)
      else bgp_send_open e (p\<lparr>bp_state := Active, bp_state_time := be_time e\<rparr>))"

definition bgp_process_timers :: "bgp_env \<Rightarrow> bgp_peer \<Rightarrow> bgp_peer" where
  "bgp_process_timers e p =
     (if bp_state p = Established
      then (if be_time e > bp_expire_time p then fst (bgp_send_notification e 4 0 p)
            else if be_time e > bp_keepalive_time p \<and> bp_outbuf p = []
            then fst (bgp_send_keepalive e p) else p)
      else if bp_state p = Idle
      then (if be_time e > bp_retry_time p then fst (bgp_connect e p) else p)
      else if be_time e > bp_state_time p + BGP_STATE_TIME then fst (bgp_restart e p)
      else p)"

definition bgp_process_peers_timers :: "bgp_env \<Rightarrow> bgp_state \<Rightarrow> bgp_state" where
  "bgp_process_peers_timers e b =
     (if \<not> bg_configured b then b
      else b\<lparr>bg_peers :=
        map (\<lambda>p. if bp_state p = Disabled then p else bgp_process_timers e p) (bg_peers b)\<rparr>)"

subsection \<open>Computing an UPDATE\<close>

text \<open>
  The merge loop of \<open>bgp_send_update\<close>. \<open>kept\<close> is the part of the peer's list the loop has passed
  (so the peer's list is \<open>kept @ have\<close> at any time), \<open>wd\<close> the withdrawn prefixes written so
  far, \<open>add\<close> the one route to announce, \<open>upd\<close> the flag \<open>peer->update_routes\<close>. \<open>room\<close> is the
  number of bytes of the data part that the guard of the loop leaves.
\<close>

function bgp_diff :: "int \<Rightarrow> bytes \<Rightarrow> bgp_dest list \<Rightarrow> bgp_dest list \<Rightarrow> bgp_dest list \<Rightarrow>
    bgp_dest option \<Rightarrow> bool \<Rightarrow>
    bytes \<times> bgp_dest list \<times> bgp_dest list \<times> bgp_dest list \<times> bgp_dest option \<times> bool" where
  "bgp_diff room wd kept have want add upd =
     (if (have = [] \<and> want = []) \<or> \<not> (int (2 + length wd) < room)
      then (wd, kept, have, want, add, upd)
      else if have \<noteq> [] \<and> (want = [] \<or> dest_cmp (hd have) (hd want) < 0)
      then bgp_diff room (wd @ take (BGP_IP_PREFIX_SIZE (hd have)) (dest_mem (hd have)))
             kept (tl have) want add upd
      else if have \<noteq> [] \<and> dest_cmp (hd have) (hd want) = 0
      then bgp_diff room wd (kept @ [hd have]) (tl have) (tl want) add upd
      else (case add of
              None \<Rightarrow> bgp_diff room wd kept have (tl want) (Some (hd want)) upd
            | Some a \<Rightarrow>
                if have = [] then (wd, kept, have, want, add, True)
                else bgp_diff room wd kept have (tl want) add True))"
  by pat_completeness auto
termination
  by (relation "measure (\<lambda>(room, wd, kept, have, want, add, upd). length have + length want)")
    (auto simp: neq_Nil_conv)

declare bgp_diff.simps [simp del]

text \<open>Everything of \<open>bgp_send_update\<close> before the final \<open>bgp_write\<close>: the new peer, and what to return or write.\<close>

datatype update_action = UpdNothing | UpdNoMemory | UpdWrite

definition bgp_update_contents ::
    "bool \<Rightarrow> bgp_dest list \<Rightarrow> bgp_peer \<Rightarrow> bgp_peer \<times> update_action" where
  "bgp_update_contents oom routes p =
     (let plen = length (bp_path_attrs p);
          room = 4077 - 2 - int plen - 5 - 5;
          want = (if bp_routing p then routes else [])
      in case bgp_diff room [] [] (bp_routes p) want None False of
           (wd, kept, have, want', add, upd) \<Rightarrow>
             (let p1 = p\<lparr>bp_routes := kept @ have,
                        bp_update_routes := (upd \<or> have \<noteq> [] \<or> want' \<noteq> [])\<rparr>
              in if wd = [] \<and> add = None then (p1, UpdNothing)
                 else (case add of
                     None \<Rightarrow>
                       (p1\<lparr>bp_outbuf := bgp_packet 2 (be16 (of_nat (length wd)) @ wd @ be16 0),
                          bp_out_done := 0\<rparr>, UpdWrite)
                   | Some a \<Rightarrow>
                       if oom then (p1, UpdNoMemory)
                       else (p1\<lparr>bp_routes := bgp_insert_route (kept @ have) a,
                               bp_outbuf := bgp_packet 2 (be16 (of_nat (length wd)) @ wd @
                                 be16 (of_nat plen) @ bp_path_attrs p @
                                 take (BGP_IP_PREFIX_SIZE a) (dest_mem a)),
                               bp_out_done := 0\<rparr>, UpdWrite))))"

definition bgp_send_update ::
    "bgp_env \<Rightarrow> bool \<Rightarrow> bgp_dest list \<Rightarrow> bgp_peer \<Rightarrow> bgp_peer \<times> bool" where
  "bgp_send_update e oom routes p =
     (case bgp_update_contents oom routes p of
        (p', UpdNothing) \<Rightarrow> (p', True)
      | (p', UpdNoMemory) \<Rightarrow> (p', False)
      | (p', UpdWrite) \<Rightarrow> bgp_write_first e p')"

text \<open>What one pass of the merge does to the peer's list.\<close>

definition diff_pre :: "bgp_dest list \<Rightarrow> bgp_dest list \<Rightarrow> bgp_dest list \<Rightarrow> bool" where
  "diff_pre kept have want \<longleftrightarrow>
     route_list (kept @ have) \<and> route_list want \<and> (\<forall>k \<in> set kept. \<forall>w \<in> set want. k < w)"

lemma route_list_append:
  "route_list (xs @ ys) \<longleftrightarrow> route_list xs \<and> route_list ys \<and> (\<forall>x \<in> set xs. \<forall>y \<in> set ys. x < y)"
  by (auto simp: route_list_def sorted_wrt_append)

lemma diff_pre_withdraw: "diff_pre kept (h # hs) want \<Longrightarrow> diff_pre kept hs want"
  by (auto simp: diff_pre_def route_list_append)

lemma diff_pre_keep: "diff_pre kept (h # hs) (h # ws) \<Longrightarrow> diff_pre (kept @ [h]) hs ws"
  by (auto simp: diff_pre_def route_list_append)

lemma diff_pre_skip: "diff_pre kept have (w # ws) \<Longrightarrow> diff_pre kept have ws"
  by (auto simp: diff_pre_def)

text \<open>
  The outcome, on the sets of kept (\<open>K\<close>), remaining (\<open>H\<close>) and wanted (\<open>W\<close>) routes; \<open>R\<close> is the
  peer's list afterwards and \<open>fin\<close> says that both lists were exhausted.
\<close>

definition diff_post :: "'a set \<Rightarrow> 'a set \<Rightarrow> 'a set \<Rightarrow> 'a option \<Rightarrow> bool \<Rightarrow> 'a set \<Rightarrow> 'a option \<Rightarrow>
    bool \<Rightarrow> bool \<Rightarrow> bool" where
  "diff_post K H W ad upd R ad' upd' fin \<longleftrightarrow>
     K \<subseteq> R \<and> R \<subseteq> K \<union> H \<and> (K \<union> H - R) \<inter> W = {} \<and>
     (ad' = ad \<or> ad = None \<and> ad' \<noteq> None \<and> the ad' \<in> W \<and> the ad' \<notin> K \<union> H) \<and>
     (upd \<longrightarrow> upd') \<and>
     (\<not> upd' \<and> fin \<longrightarrow>
        R = K \<union> (H \<inter> W) \<and> W - H = (if ad = None then set_option ad' else {}))"

lemma diff_post_withdraw:
  "diff_post K H W ad upd R ad' upd' fin \<Longrightarrow> h \<notin> W \<Longrightarrow> h \<notin> K \<Longrightarrow>
     diff_post K (insert h H) W ad upd R ad' upd' fin"
  unfolding diff_post_def by (intro conjI impI) (blast | auto)+

lemma diff_post_same:
  "diff_post (insert h K) H W ad upd R ad' upd' fin \<Longrightarrow> h \<notin> W \<Longrightarrow> h \<notin> H \<Longrightarrow>
     diff_post K (insert h H) (insert h W) ad upd R ad' upd' fin"
  unfolding diff_post_def by (intro conjI impI) (blast | auto)+

lemma diff_post_add:
  assumes "diff_post K H W (Some w) upd R ad' upd' fin" and "w \<notin> K \<union> H"
  shows "diff_post K H (insert w W) None upd R ad' upd' fin"
proof -
  from assms(1) have "ad' = Some w" by (simp add: diff_post_def)
  moreover have "K \<union> H - R \<subseteq> K \<union> H" by blast
  ultimately show ?thesis
    using assms by (auto simp: diff_post_def simp del: Un_iff)
qed

lemma diff_post_skip:
  "diff_post K H W (Some a) True R ad' upd' fin \<Longrightarrow> w \<notin> K \<union> H \<Longrightarrow>
     diff_post K H (insert w W) (Some a) upd R ad' upd' fin"
  by (auto simp: diff_post_def)

lemma diff_cases:
  fixes hav want :: "bgp_dest list"
  obtains
    (stop) "(hav = [] \<and> want = []) \<or> \<not> lim"
  | (withdraw) h hs where "hav = h # hs" "want = [] \<or> h < hd want" "lim"
  | (same) h hs ws where "hav = h # hs" "want = h # ws" "lim"
  | (skip) w ws where "want = w # ws" "hav = [] \<or> w < hd hav" "lim"
  using linorder_less_linear [of "hd hav" "hd want"] by (cases hav; cases want) auto

lemma bgp_diff_correct:
  assumes "bgp_diff room wd kept hav want ad upd = (wd', kept', hav', want', ad', upd')"
    and "diff_pre kept hav want"
  shows "route_list (kept' @ hav') \<and>
     diff_post (set kept) (set hav) (set want) ad upd (set (kept' @ hav')) ad' upd'
       (hav' = [] \<and> want' = [])"
  using assms
proof (induction room wd kept hav want ad upd
    arbitrary: wd' kept' hav' want' ad' upd' rule: bgp_diff.induct)
  case (1 room wd kept hav want ad upd)
  note unf = bgp_diff.simps [of room wd kept hav want ad upd]
  show ?case
  proof (cases rule: diff_cases [of hav want "int (2 + length wd) < room"])
    case stop
    with "1.prems" unf show ?thesis by (auto simp: diff_pre_def diff_post_def)
  next
    case (withdraw h hs)
    then have run: "bgp_diff room (wd @ take (BGP_IP_PREFIX_SIZE h) (dest_mem h)) kept hs want ad upd =
        (wd', kept', hav', want', ad', upd')"
      using "1.prems"(1) unf by simp
    have pre: "diff_pre kept hs want"
      using "1.prems"(2) withdraw diff_pre_withdraw by blast
    have "h \<notin> set want" "h \<notin> set kept"
      using "1.prems"(2) withdraw
      by (cases want; auto simp: diff_pre_def route_list_append dest: order.asym)+
    moreover have "route_list (kept' @ hav') \<and>
      diff_post (set kept) (set hs) (set want) ad upd (set (kept' @ hav')) ad' upd' (hav' = [] \<and> want' = [])"
      using "1.IH"(1) run pre withdraw by simp
    ultimately show ?thesis using withdraw(1) by (simp add: diff_post_withdraw)
  next
    case (same h hs ws)
    then have run: "bgp_diff room wd (kept @ [h]) hs ws ad upd = (wd', kept', hav', want', ad', upd')"
      using "1.prems"(1) unf by simp
    have pre: "diff_pre (kept @ [h]) hs ws"
      using "1.prems"(2) same diff_pre_keep by blast
    have "h \<notin> set ws" "h \<notin> set hs"
      using "1.prems"(2) same by (auto simp: diff_pre_def route_list_append)
    moreover have "route_list (kept' @ hav') \<and>
      diff_post (insert h (set kept)) (set hs) (set ws) ad upd (set (kept' @ hav')) ad' upd' (hav' = [] \<and> want' = [])"
      using "1.IH"(2) run pre same by simp
    ultimately show ?thesis using same(1,2) by (simp add: diff_post_same)
  next
    case (skip w ws)
    have pre: "diff_pre kept hav ws"
      using "1.prems"(2) skip diff_pre_skip by blast
    have w: "w \<notin> set kept \<union> set hav"
      using "1.prems"(2) skip by (cases hav) (auto simp: diff_pre_def route_list_append dest: order.asym)
    show ?thesis
    proof (cases ad)
      case None
      with skip have run: "bgp_diff room wd kept hav ws (Some w) upd =
          (wd', kept', hav', want', ad', upd')"
        using "1.prems"(1) unf by (cases hav) auto
      then have "route_list (kept' @ hav') \<and>
      diff_post (set kept) (set hav) (set ws) (Some w) upd (set (kept' @ hav')) ad' upd' (hav' = [] \<and> want' = [])"
        using "1.IH"(3) run pre skip None by (cases hav) auto
      with skip(1) None w show ?thesis by (simp add: diff_post_add)
    next
      case (Some a)
      show ?thesis
      proof (cases "hav = []")
        case True
        with skip Some "1.prems" unf show ?thesis
          by (auto simp: diff_pre_def diff_post_def)
      next
        case False
        with skip Some have run: "bgp_diff room wd kept hav ws ad True =
            (wd', kept', hav', want', ad', upd')"
          using "1.prems"(1) unf by (cases hav) auto
        then have "route_list (kept' @ hav') \<and>
      diff_post (set kept) (set hav) (set ws) (Some a) True (set (kept' @ hav')) ad' upd' (hav' = [] \<and> want' = [])"
          using "1.IH"(4) run pre skip Some False by (cases hav) auto
        with skip(1) Some w show ?thesis by (simp add: diff_post_skip)
      qed
    qed
  qed
qed

lemma bgp_diff_progress:
  assumes "bgp_diff room wd kept hav want None False = (wd', kept', hav', want', ad', upd')"
    and "diff_pre kept hav want" and "int (2 + length wd) < room"
  shows "ad' \<noteq> None \<or> set (kept' @ hav') \<noteq> set (kept @ hav) \<or>
     (\<not> upd' \<and> hav' = [] \<and> want' = [])"
  using assms
proof (induction "length hav + length want" arbitrary: kept hav want rule: less_induct)
  case less
  note unf = bgp_diff.simps [of room wd kept hav want None False]
  show ?case
  proof (cases rule: diff_cases [of hav want "int (2 + length wd) < room"])
    case stop
    with less.prems unf show ?thesis by auto
  next
    case (withdraw h hs)
    then have run: "bgp_diff room (wd @ take (BGP_IP_PREFIX_SIZE h) (dest_mem h)) kept hs want
        None False = (wd', kept', hav', want', ad', upd')"
      using less.prems(1) unf by simp
    have pre: "diff_pre kept hs want"
      using less.prems(2) withdraw diff_pre_withdraw by blast
    have "set (kept' @ hav') \<subseteq> set kept \<union> set hs"
      using bgp_diff_correct [OF run pre] by (simp add: diff_post_def)
    moreover have "h \<notin> set kept \<union> set hs"
      using less.prems(2) withdraw by (auto simp: diff_pre_def route_list_append)
    ultimately show ?thesis using withdraw(1) by auto
  next
    case (same h hs ws)
    then have run: "bgp_diff room wd (kept @ [h]) hs ws None False =
        (wd', kept', hav', want', ad', upd')"
      using less.prems(1) unf by simp
    have "diff_pre (kept @ [h]) hs ws"
      using less.prems(2) same diff_pre_keep by blast
    with less.hyps [OF _ run _ less.prems(3)] same show ?thesis by simp
  next
    case (skip w ws)
    then have run: "bgp_diff room wd kept hav ws (Some w) False =
        (wd', kept', hav', want', ad', upd')"
      using less.prems(1) unf by (cases hav) auto
    have "diff_pre kept hav ws"
      using less.prems(2) skip diff_pre_skip by blast
    from bgp_diff_correct [OF run this] show ?thesis by (simp add: diff_post_def)
  qed
qed

text \<open>
  What one \<open>UPDATE\<close> does to the list of routes the peer knows. \<open>stale R W\<close> are the routes that
  a peer with the list \<open>R\<close> is wrong about when \<open>W\<close> is wanted.
\<close>

definition stale :: "bgp_dest list \<Rightarrow> bgp_dest list \<Rightarrow> bgp_dest set" where
  "stale R W = (set R - set W) \<union> (set W - set R)"

lemma stale_empty_iff: "route_list R \<Longrightarrow> route_list W \<Longrightarrow> stale R W = {} \<longleftrightarrow> R = W"
  using route_list_unique [of R W] by (auto simp: stale_def)

definition add_announced :: "bgp_dest option \<Rightarrow> bgp_dest list \<Rightarrow> bgp_dest list" where
  "add_announced ad rs = (case ad of None \<Rightarrow> rs | Some a \<Rightarrow> bgp_insert_route rs a)"

lemma set_add_announced [simp]: "set (add_announced ad rs) = set rs \<union> set_option ad"
  by (cases ad) (auto simp: add_announced_def)

lemma diff_effect:
  assumes d: "bgp_diff room [] [] R W None False = (wd, kept, hav, want', ad, upd)"
    and R: "route_list R" and W: "route_list W"
  defines "R' \<equiv> add_announced ad (kept @ hav)"
  shows diff_effect_sorted: "route_list R'"
    and diff_effect_subset: "stale R' W \<subseteq> stale R W"
    and diff_effect_synced: "\<not> upd \<and> hav = [] \<and> want' = [] \<Longrightarrow> R' = W"
    and diff_effect_progress: "2 < room \<Longrightarrow> stale R W \<noteq> {} \<Longrightarrow> stale R' W \<noteq> stale R W"
    and diff_effect_sets: "set R' = (set (kept @ hav)) \<union> set_option ad"
      "set (kept @ hav) \<subseteq> set R" "set_option ad \<subseteq> set W - set R"
proof -
  have pre: "diff_pre [] R W" using R W by (simp add: diff_pre_def)
  let ?K = "set (kept @ hav)"
  from bgp_diff_correct [OF d pre] have rl: "route_list (kept @ hav)"
    and post: "diff_post {} (set R) (set W) None False ?K ad upd (hav = [] \<and> want' = [])"
    by simp_all
  have ad: "set_option ad \<subseteq> set W - set R"
    using post by (auto simp: diff_post_def)
  have sub: "?K \<subseteq> set R" "(set R - ?K) \<inter> set W = {}"
    using post by (auto simp: diff_post_def)
  have set': "set R' = ?K \<union> set_option ad" by (simp add: R'_def)
  then show "set R' = ?K \<union> set_option ad" "?K \<subseteq> set R" "set_option ad \<subseteq> set W - set R"
    using ad sub by auto
  show rl': "route_list R'"
    unfolding R'_def using rl ad sub
    by (cases ad) (auto simp: add_announced_def intro!: route_list_insert)
  have fin: "set R' = set W" if "\<not> upd \<and> hav = [] \<and> want' = []"
    using that post set' by (auto simp: diff_post_def)
  show "\<not> upd \<and> hav = [] \<and> want' = [] \<Longrightarrow> R' = W"
    using fin rl' W route_list_unique by blast
  show "stale R' W \<subseteq> stale R W"
    unfolding stale_def set' using sub ad by (cases ad) auto
  show "stale R' W \<noteq> stale R W" if "2 < room" "stale R W \<noteq> {}"
  proof -
    have "int (2 + length ([] :: bytes)) < room" using that(1) by simp
    from bgp_diff_progress [OF d pre this]
    consider "ad \<noteq> None" | "?K \<noteq> set R" | "\<not> upd \<and> hav = [] \<and> want' = []" by auto
    then show ?thesis
    proof cases
      case 1
      then show ?thesis unfolding stale_def set' using ad sub by (cases ad) auto
    next
      case 2
      then obtain r where "r \<in> set R" "r \<notin> ?K" using sub(1) by blast
      moreover from this sub(2) ad have "r \<notin> set W" "r \<notin> set_option ad" by (cases ad; auto)+
      ultimately show ?thesis unfolding stale_def set' by blast
    next
      case 3
      from fin [OF this] have "stale R' W = {}" unfolding stale_def by auto
      with that(2) show ?thesis by simp
    qed
  qed
qed

definition bgp_wanted :: "bgp_dest list \<Rightarrow> bgp_peer \<Rightarrow> bgp_dest list" where
  "bgp_wanted routes p = (if bp_routing p then routes else [])"

text \<open>The fields that computing an \<open>UPDATE\<close> leaves alone.\<close>

lemma bgp_update_frame:
  "bgp_update_contents oom routes p = (p', act) \<Longrightarrow>
     bp_routing p' = bp_routing p \<and> bp_path_attrs p' = bp_path_attrs p \<and>
     bp_state p' = bp_state p \<and> bp_next_state p' = bp_next_state p"
  by (auto simp: bgp_update_contents_def Let_def split: prod.splits if_splits option.splits)

lemma bgp_update_effect:
  assumes "bgp_update_contents oom routes p = (p', act)" and "act \<noteq> UpdNoMemory"
    and "route_list (bp_routes p)" and "route_list routes"
  defines "W \<equiv> bgp_wanted routes p"
  shows "route_list (bp_routes p')"
    and "stale (bp_routes p') W \<subseteq> stale (bp_routes p) W"
    and "\<not> bp_update_routes p' \<Longrightarrow> bp_routes p' = W"
    and "length (bp_path_attrs p) < 4000 \<Longrightarrow> stale (bp_routes p) W \<noteq> {} \<Longrightarrow>
      stale (bp_routes p') W \<noteq> stale (bp_routes p) W"
proof -
  obtain wd kept hav want' ad upd where
    d: "bgp_diff (4077 - 2 - int (length (bp_path_attrs p)) - 5 - 5) [] [] (bp_routes p) W
          None False = (wd, kept, hav, want', ad, upd)"
    by (metis prod_cases6)
  have W: "route_list W" using assms(4) by (simp add: W_def bgp_wanted_def)
  have p': "bp_routes p' = add_announced ad (kept @ hav)"
      "bp_update_routes p' = (upd \<or> hav \<noteq> [] \<or> want' \<noteq> [])"
    using assms(1,2) d
    by (auto simp: bgp_update_contents_def Let_def W_def bgp_wanted_def add_announced_def
        split: if_splits option.splits)
  note eff = diff_effect [OF d assms(3) W, folded p'(1)]
  show "route_list (bp_routes p')" "stale (bp_routes p') W \<subseteq> stale (bp_routes p) W"
    using eff(1,2) by simp_all
  show "\<not> bp_update_routes p' \<Longrightarrow> bp_routes p' = W"
    using eff(3) p'(2) by blast
  show "length (bp_path_attrs p) < 4000 \<Longrightarrow> stale (bp_routes p) W \<noteq> {} \<Longrightarrow>
      stale (bp_routes p') W \<noteq> stale (bp_routes p) W"
    using eff(4) by simp
qed

end
