(* ===== verification/BgpTable.thy ===== *)
theory BgpTable
  imports Bgp
begin

text \<open>
  The table of routes to announce as its clients (session setup and shutdown, address pools) see
  it: a set that routes are added to and deleted from. The contract is a locale; the IPv4 and the
  IPv6 table of \<^verbatim>\<open>src/bgp.c\<close> are its instances.
\<close>

datatype 'k route_op = Announce 'k | Withdraw 'k

fun op_key :: "'k route_op \<Rightarrow> 'k" where
  "op_key (Announce k) = k"
| "op_key (Withdraw k) = k"

text \<open>Whether a route is in the table after the operations, given whether it was before.\<close>

fun announced :: "'k \<Rightarrow> bool \<Rightarrow> 'k route_op list \<Rightarrow> bool" where
  "announced k b [] = b"
| "announced k b (Announce j # ops) = announced k (b \<or> j = k) ops"
| "announced k b (Withdraw j # ops) = announced k (b \<and> j \<noteq> k) ops"

lemma announced_snoc:
  "announced k b (xs @ [x]) = (case x of
     Announce j \<Rightarrow> announced k b xs \<or> j = k | Withdraw j \<Rightarrow> announced k b xs \<and> j \<noteq> k)"
  by (induction k b xs rule: announced.induct) (auto split: route_op.split)

lemma announced_last:
  "announced k b ops \<longleftrightarrow>
     (case filter (\<lambda>x. op_key x = k) ops of [] \<Rightarrow> b | xs \<Rightarrow> last xs = Announce k)"
proof (induction ops rule: rev_induct)
  case (snoc x ops)
  then show ?case by (cases x) (auto simp: announced_snoc split: list.splits)
qed simp

locale route_table =
  fixes announce :: "'k \<Rightarrow> 's \<Rightarrow> 's" and withdraw :: "'k \<Rightarrow> 's \<Rightarrow> 's"
    and routes :: "'s \<Rightarrow> 'k set" and ok :: "'s \<Rightarrow> bool"
  assumes ok_announce: "ok s \<Longrightarrow> ok (announce k s)"
    and ok_withdraw: "ok s \<Longrightarrow> ok (withdraw k s)"
    and routes_announce: "ok s \<Longrightarrow> routes (announce k s) = insert k (routes s)"
    and routes_withdraw: "ok s \<Longrightarrow> routes (withdraw k s) = routes s - {k}"
begin

fun apply_op :: "'k route_op \<Rightarrow> 's \<Rightarrow> 's" where
  "apply_op (Announce k) s = announce k s"
| "apply_op (Withdraw k) s = withdraw k s"

lemma ok_run: "ok s \<Longrightarrow> ok (fold apply_op ops s)"
proof (induction ops arbitrary: s)
  case (Cons x ops)
  then show ?case by (cases x) (simp_all add: ok_announce ok_withdraw)
qed simp

lemma routes_run:
  "ok s \<Longrightarrow> k \<in> routes (fold apply_op ops s) \<longleftrightarrow> announced k (k \<in> routes s) ops"
proof (induction ops arbitrary: s)
  case (Cons x ops)
  have eq: "(k \<in> insert j R) = (k \<in> R \<or> j = k)" "(k \<in> R - {j}) = (k \<in> R \<and> j \<noteq> k)" for j R
    by auto
  show ?case
  proof (cases x)
    case (Announce j)
    have "k \<in> routes (fold apply_op (x # ops) s) \<longleftrightarrow> k \<in> routes (fold apply_op ops (announce j s))"
      by (simp add: Announce)
    then show ?thesis
      unfolding Cons.IH [OF ok_announce [OF Cons.prems]] routes_announce [OF Cons.prems] eq
      by (simp add: Announce)
  next
    case (Withdraw j)
    have "k \<in> routes (fold apply_op (x # ops) s) \<longleftrightarrow> k \<in> routes (fold apply_op ops (withdraw j s))"
      by (simp add: Withdraw)
    then show ?thesis
      unfolding Cons.IH [OF ok_withdraw [OF Cons.prems]] routes_withdraw [OF Cons.prems] eq
      by (simp add: Withdraw)
  qed
qed simp

end

subsection \<open>The two tables\<close>

lemma be32_inject [simp]: "be32 x = be32 y \<longleftrightarrow> x = y"
  by (metis of_be32_be32)

definition add4 :: "u32 \<times> u8 \<Rightarrow> bgp_state \<Rightarrow> bgp_state" where
  "add4 k b = fst (bgp_add_route False (fst k) (snd k) b)"

definition del4 :: "u32 \<times> u8 \<Rightarrow> bgp_state \<Rightarrow> bgp_state" where
  "del4 k b = fst (bgp_del_route (fst k) (snd k) b)"

definition keys4 :: "bgp_state \<Rightarrow> (u32 \<times> u8) set" where
  "keys4 b = {(ip, len). BgpDest len (be32 ip) \<in> set (bg_routes b)}"

definition add6 :: "bytes \<times> u8 \<Rightarrow> bgp_state \<Rightarrow> bgp_state" where
  "add6 k b = fst (bgp_add_route6 False (fst k) (snd k) b)"

definition del6 :: "bytes \<times> u8 \<Rightarrow> bgp_state \<Rightarrow> bgp_state" where
  "del6 k b = fst (bgp_del_route6 (fst k) (snd k) b)"

definition keys6 :: "bgp_state \<Rightarrow> (bytes \<times> u8) set" where
  "keys6 b = {(ip, len). BgpDest len ip \<in> set (bg_routes6 b)}"

definition tables_ok :: "bgp_state \<Rightarrow> bool" where
  "tables_ok b \<longleftrightarrow> route_list (bg_routes b) \<and> route_list (bg_routes6 b)"

lemma BgpDest_eq: "BgpDest l (be32 i) = BgpDest m (be32 j) \<longleftrightarrow> l = m \<and> i = j"
  by simp

lemma add4_effect:
  "tables_ok b \<Longrightarrow> tables_ok (add4 k b) \<and> keys4 (add4 k b) = insert k (keys4 b)"
  by (cases k) (auto simp: add4_def bgp_add_route_def Let_def tables_ok_def keys4_def covered_iff
      route_list_insert)

lemma del4_effect:
  assumes "tables_ok b"
  shows "tables_ok (del4 k b) \<and> keys4 (del4 k b) = keys4 b - {k}"
proof (cases "bgp_unlink_route (bg_routes b) (BgpDest (snd k) (be32 (fst k)))")
  case (Pair rs found)
  have "route_list (bg_routes b)" using assms by (simp add: tables_ok_def)
  from unlink_route_correct [OF this Pair] have
    "route_list rs" "set rs = set (bg_routes b) - {BgpDest (snd k) (be32 (fst k))}"
    "found = (BgpDest (snd k) (be32 (fst k)) \<in> set (bg_routes b))" by simp_all
  with Pair assms show ?thesis
    by (cases k) (simp add: del4_def bgp_del_route_def tables_ok_def keys4_def; blast)
qed

lemma add6_effect:
  "tables_ok b \<Longrightarrow> tables_ok (add6 k b) \<and> keys6 (add6 k b) = insert k (keys6 b)"
  by (cases k) (auto simp: add6_def bgp_add_route6_def Let_def tables_ok_def keys6_def covered_iff
      route_list_insert)

lemma del6_effect:
  assumes "tables_ok b"
  shows "tables_ok (del6 k b) \<and> keys6 (del6 k b) = keys6 b - {k}"
proof (cases "bgp_unlink_route (bg_routes6 b) (BgpDest (snd k) (fst k))")
  case (Pair rs found)
  have "route_list (bg_routes6 b)" using assms by (simp add: tables_ok_def)
  from unlink_route_correct [OF this Pair] have
    "route_list rs" "set rs = set (bg_routes6 b) - {BgpDest (snd k) (fst k)}"
    "found = (BgpDest (snd k) (fst k) \<in> set (bg_routes6 b))" by simp_all
  with Pair assms show ?thesis
    by (cases k) (simp add: del6_def bgp_del_route6_def tables_ok_def keys6_def; blast)
qed

interpretation table4: route_table add4 del4 keys4 tables_ok
  by unfold_locales (simp_all add: add4_effect del4_effect)

interpretation table6: route_table add6 del6 keys6 tables_ok
  by unfold_locales (simp_all add: add6_effect del6_effect)

fun bgp_route_op :: "(u32 \<times> u8) route_op \<Rightarrow> bgp_state \<Rightarrow> bgp_state" where
  "bgp_route_op (Announce (ip, len)) b = fst (bgp_add_route False ip len b)"
| "bgp_route_op (Withdraw (ip, len)) b = fst (bgp_del_route ip len b)"

lemma bgp_route_op_eq: "bgp_route_op = table4.apply_op"
proof (intro ext)
  fix x b
  show "bgp_route_op x b = table4.apply_op x b"
    by (cases "(x, b)" rule: bgp_route_op.cases) (simp_all add: add4_def del4_def)
qed

text \<open>
  After any sequence of \<open>bgp_add_route\<close> and \<open>bgp_del_route\<close> calls a route is in the list of
  routes to announce exactly if the last call for that address and prefix length added it, or
  there was none and it was there before; adding twice does not need deleting twice.
\<close>

theorem bgp_route_table:
  assumes "route_list (bg_routes b)" and "route_list (bg_routes6 b)"
  shows "BgpDest len (be32 ip) \<in> set (bg_routes (fold bgp_route_op ops b)) \<longleftrightarrow>
    (case filter (\<lambda>x. op_key x = (ip, len)) ops of
       [] \<Rightarrow> BgpDest len (be32 ip) \<in> set (bg_routes b)
     | xs \<Rightarrow> last xs = Announce (ip, len))"
  using table4.routes_run [of b "(ip, len)" ops] assms
  by (simp add: bgp_route_op_eq tables_ok_def keys4_def announced_last)

lemma bgp_route_table_witness:
  "BgpDest 32 (be32 7) \<notin> set (bg_routes (fold bgp_route_op
     [Announce (7, 32), Announce (7, 32), Announce (9, 32), Withdraw (7, 32)]
     \<lparr>bg_our_as = 1, bg_routes = [], bg_routes6 = [], bg_configured = False, bg_peers = []\<rparr>))"
  by (subst bgp_route_table) simp_all

end
