(* ===== verification/World.thy ===== *)
theory World
  imports Control Ipmap TbfProps BgpTable IpFilter
begin

text \<open>
  The state of the daemon: the remaining structures of \<^verbatim>\<open>src/l2tpns.h\<close> and \<^verbatim>\<open>src/cluster.c\<close> and the
  record \<open>l2tpns\<close> of all global variables that the modelled operations share, with what leaves the
  process as a list of events; and the operations every component uses: sending on a tunnel and
  installing routes (\<open>routeset\<close>, \<open>route6set\<close>), with their effect on the routing table of BGP
  and on the address maps.
\<close>

subsection \<open>Structures\<close>

record ippoolt =
  i_address :: in_addr
  i_assigned :: bool
  i_session :: sessionidt
  i_last :: u32
  i_user :: string

definition ippool_zero :: ippoolt where
  "ippool_zero = \<lparr>i_address = 0, i_assigned = False, i_session = 0, i_last = 0, i_user = []\<rparr>"

datatype bundlestate = BUNDLEFREE | BUNDLEOPEN | BUNDLEUNDEF

record bundlet =
  b_state :: bundlestate
  b_seq_num_t :: u32
  b_timeout :: u32
  b_max_seq :: u32
  b_num_of_links :: nat
  b_online_time :: u32
  b_last_check :: u32
  b_mrru :: u32
  b_mssf :: u8
  b_epdis :: epdist
  b_user :: string
  b_current_ses :: sessionidt
  b_members :: "nat \<Rightarrow> sessionidt"

definition bundle_zero :: bundlet where
  "bundle_zero = \<lparr>b_state = BUNDLEFREE, b_seq_num_t = 0, b_timeout = 0, b_max_seq = 0,
     b_num_of_links = 0, b_online_time = 0, b_last_check = 0, b_mrru = 0, b_mssf = 0,
     b_epdis = epdis_zero, b_user = [], b_current_ses = 0, b_members = (\<lambda>_. 0)\<rparr>"

datatype radius_state =
  RADIUSNULL | RADIUSCHAP | RADIUSAUTH | RADIUSSTART | RADIUSSTOP | RADIUSINTERIM | RADIUSWAIT
| RADIUSJUSTAUTH

record radiust =
  rd_session :: sessionidt
  rd_auth :: bytes
  rd_retry :: u32
  rd_pass :: bytes
  rd_id :: u8
  rd_try :: u8
  rd_state :: radius_state
  rd_chap :: u8
  rd_term_cause :: nat
  rd_term_msg :: "string option"

definition radius_zero :: radiust where
  "radius_zero = \<lparr>rd_session = 0, rd_auth = [], rd_retry = 0, rd_pass = [], rd_id = 0, rd_try = 0,
     rd_state = RADIUSNULL, rd_chap = 0, rd_term_cause = 0, rd_term_msg = None\<rparr>"

text \<open>The cluster: what is queued for a heartbeat, the heartbeats themselves, and the peers.\<close>

datatype change_type = C_CSESSION | C_CBUNDLE | C_CTUNNEL

datatype hb_rec =
  HbSession nat sessiont
| HbBundle nat bundlet
| HbTunnel nat tunnelt

record heartt =
  hb_seq :: int
  hb_basetime :: u32
  hb_clusterid :: u32
  hb_highsession :: nat
  hb_freesession :: nat
  hb_highbundle :: nat
  hb_hightunnel :: nat
  hb_interval :: int
  hb_timeout :: int
  hb_table_version :: nat

record heartbeat =
  hb_head :: heartt
  hb_recs :: "hb_rec list"

record peert =
  pe_peer :: in_addr
  pe_basetime :: u32
  pe_timestamp :: u32
  pe_uptodate :: bool

text \<open>The remote LNSs a session may be forwarded to (\<open>configrlns\<close> of \<^verbatim>\<open>src/l2tplac.c\<close>).\<close>

datatype rlns_state = CONFRLNSFREE | CONFRLNSSET | CONFRLNSSETBYRADIUS

record configrlns =
  rl_state :: rlns_state
  rl_ip :: in_addr
  rl_port :: u16
  rl_auth :: bytes
  rl_strmaskuser :: bytes
  rl_l2tp_secret :: bytes
  rl_assignment_id :: bytes

record tunnelrlnst =
  tr_tunnel_type :: u32
  tr_medium_type :: u32
  tr_server_endpoint :: in_addr
  tr_password :: bytes
  tr_assignment_id :: bytes

text \<open>The fragments of a multilink bundle waiting to be put together.\<close>

record fragmentt =
  fg_sid :: sessionidt
  fg_tid :: tunnelidt
  fg_flags :: u8
  fg_seq :: u32
  fg_jitteravg :: u32
  fg_data :: bytes

record fragmentationt =
  fr_fragment :: "nat \<Rightarrow> fragmentt"
  fr_begin_index :: nat
  fr_end_index :: nat
  fr_start_index :: nat
  fr_M :: u32
  fr_start_seq :: u32

definition frag_zero :: fragmentationt where
  "frag_zero = \<lparr>fr_fragment = (\<lambda>_. \<lparr>fg_sid = 0, fg_tid = 0, fg_flags = 0, fg_seq = 0,
     fg_jitteravg = 0, fg_data = []\<rparr>), fr_begin_index = 0, fr_end_index = 0, fr_start_index = 0,
     fr_M = 0, fr_start_seq = 0\<rparr>"

text \<open>The destinations whose traffic is free, by the two characters of a zone.\<close>

record free_networkt =
  fn_host :: in_addr
  fn_mask :: in_addr

record free_zone =
  fz_networks :: "nat \<Rightarrow> free_networkt"
  fz_size :: nat

subsection \<open>Events\<close>

text \<open>
  \<open>ExitProcess\<close> is the end of the process (\<open>kill(0, SIGTERM); exit(1)\<close>); what follows it in the
  model does not happen. \<open>UndefinedWrite\<close> marks a write outside an array: from there on the C program
  has no defined behaviour, and nothing that follows it in the model says anything about the code.
\<close>

datatype event =
  Datagram datagram
| KernelRoute bool in_addr int in_addr
| KernelRoute6 bool in6_addr int
| PluginKillSession sessionidt
| PluginNewSession sessionidt
| PluginRadiusReset sessionidt
| PluginBecomeMaster
| HeartbeatTx heartbeat
| HeartbeatResend in_addr heartbeat
| LastSeenTx in_addr int
| MasterTx in_addr in_addr
| KillTx in_addr int
| RadiusTx nat bytes in_addr u16
| PeerTx in_addr bytes
| PingTx u32 u32
| BytesTx in_addr "(nat \<times> u32 \<times> u32 \<times> u32 \<times> u32) list"
| GarpTx in_addr
| PluginNewSessionMaster sessionidt
| PppoeShutdown sessionidt
| SendLcp sessionidt tunnelidt
| Garp
| TunTx bytes
| SnoopTx in_addr u16 bytes
| PppoeDisc bytes
| IcmpTx in_addr bytes
| Dhcpv6In sessionidt tunnelidt bytes
| UndefinedWrite
| ExitProcess

subsection \<open>Configuration and state\<close>

text \<open>What a command line session asks the main process to do.\<close>

record cli_session_actions =
  ca_action :: u8
  ca_snoop_ip :: in_addr
  ca_snoop_port :: u16
  ca_throttle_in :: int
  ca_throttle_out :: int
  ca_filter_in :: int
  ca_filter_out :: int

definition cli_zero :: cli_session_actions where
  "cli_zero = \<lparr>ca_action = 0, ca_snoop_ip = 0, ca_snoop_port = 0, ca_throttle_in = 0, ca_throttle_out = 0, ca_filter_in = 0, ca_filter_out = 0\<rparr>"

record configt =
  cf_l2tp_secret :: bytes
  cf_pppoe_mru :: int
  cf_ppp_restart_time :: int
  cf_ppp_max_configure :: int
  cf_ppp_max_failure :: int
  cf_radius_authprefer :: int
  cf_allow_duplicate_users :: bool
  cf_allow_duplicate_ip :: bool
  cf_suicide_duplicate_ip :: bool
  cf_guest_users :: "string list"
  cf_accounting_dir :: string
  cf_bind_address :: in_addr
  cf_peer_address :: in_addr
  cf_iftun_address :: in_addr
  cf_iftun_n_address :: "nat \<Rightarrow> in_addr"
  cf_my_address :: in_addr
  cf_hostname :: "nat \<Rightarrow> bytes"
  cf_ipv6_prefix :: in6_addr
  cf_default_dns1 :: in_addr
  cf_default_dns2 :: in_addr
  cf_auth_tunnel_change_addr_src :: bool
  cf_disable_sending_hello :: bool
  cf_send_garp :: bool
  cf_cluster_iam_master :: bool
  cf_cluster_iam_uptodate :: bool
  cf_cluster_master_address :: in_addr
  cf_cluster_seq_number :: int
  cf_cluster_undefined_sessions :: int
  cf_cluster_undefined_bundles :: int
  cf_cluster_undefined_tunnels :: int
  cf_cluster_highest_sessionid :: nat
  cf_cluster_highest_bundleid :: nat
  cf_cluster_highest_tunnelid :: nat
  cf_cluster_last_hb :: u32
  cf_cluster_last_hb_ver :: int
  cf_cluster_hb_interval :: int
  cf_cluster_hb_timeout :: int
  cf_cluster_table_version :: nat
  cf_cluster_master_min_adv :: int
  cf_radiussecret :: bytes
  cf_numradiusservers :: nat
  cf_radiusserver :: "nat \<Rightarrow> in_addr"
  cf_radiusport :: "nat \<Rightarrow> u16"
  cf_radius_accounting :: bool
  cf_kill_timedout_sessions :: bool
  cf_radius_authtypes :: int
  cf_radius_interim :: int
  cf_echo_timeout :: int
  cf_idle_echo_timeout :: int
  cf_ppp_keepalive :: bool
  cf_disable_lac_func :: bool
  cf_disable_no_spoof :: bool
  cf_no_throttle_local_IP :: bool
  cf_max_packets :: int
  cf_icmp_rate :: int
  cf_pppoe_hwaddr :: bytes
  cf_pppoe_ac_name :: bytes
  cf_pppoe_service_name :: bytes
  cf_pppoe_only_equal_svc_name :: bool
  cf_highest_rlnsid :: nat
  cf_indexlacudpfd :: nat
  cf_default_ipv6_dns1 :: in6_addr
  cf_default_ipv6_dns2 :: in6_addr
  cf_dns6_lifetime :: u32
  cf_plugin_pre_auth :: "sessiont \<Rightarrow> bytes \<Rightarrow> bytes \<Rightarrow> nat \<Rightarrow> (bytes \<times> bytes) option"
  cf_plugin_radius_account :: "sessiont \<Rightarrow> bytes"

text \<open>
  Sizes of the C structures, which the packing of heartbeats depends on: \<open>sizeof\<close> of the three
  replicated structures, and the bytes that \<open>hb_add_type\<close> writes for a record after run-length
  coding (theory \<open>Rle\<close>).
\<close>

record abi =
  a_sessiont :: nat
  a_bundlet :: nat
  a_tunnelt :: nat
  a_rec :: "hb_rec \<Rightarrow> nat"

record l2tpns =
  g_cfg :: configt
  g_abi :: abi
  g_session :: "nat \<Rightarrow> sessiont"
  g_local :: "nat \<Rightarrow> sessionlocalt"
  g_tunnel :: "nat \<Rightarrow> tunnelt"
  g_bundle :: "nat \<Rightarrow> bundlet"
  g_radius :: "nat \<Rightarrow> radiust"
  g_rlns :: "nat \<Rightarrow> configrlns"
  g_rad_tags :: "nat \<Rightarrow> tunnelrlnst"
  g_call_serial :: u32
  g_frag :: "nat \<Rightarrow> fragmentationt"
  g_free_zones :: "int \<times> int \<Rightarrow> free_zone"
  g_pool :: "nat \<Rightarrow> ippoolt"
  g_pool_size :: nat
  g_iphash :: iphash
  g_ip6hash :: "nat \<Rightarrow> radix"
  g_filters :: "nat \<Rightarrow> ip_filtert"
  g_sessionfree :: sessionidt
  g_cli_session :: "nat \<Rightarrow> cli_session_actions"
  g_cli_tunnel :: "nat \<Rightarrow> u8"
  g_shut_acct :: "sessiont list"
  g_last_id :: u32
  g_next_radius_id :: nat
  g_random :: "nat \<Rightarrow> u8"
  g_TIME :: u32
  g_now :: u32
  g_time_now :: int
  g_time_now_ms :: u64
  g_MRU :: u16
  g_MSS :: u16
  g_icmp_last :: int
  g_icmp_rate :: int
  g_basetime :: u32
  g_quit_shutdown :: bool
  g_quit :: bool
  g_forked :: bool
  g_alloc :: bool
  g_tbf :: tbf_state
  g_bgp :: bgp_state
  g_changes :: "(change_type \<times> nat) list"
  g_past_hearts :: "nat \<Rightarrow> (int \<times> heartbeat) option"
  g_peers :: "peert list"
  g_have_peers :: int
  g_probed :: u32
  g_lastseen_seq :: int
  g_lastseen_time :: int
  g_walk_session :: nat
  g_walk_tunnel :: nat
  g_walk_bundle :: nat
  g_out :: "event list"

definition upd_cfg :: "(configt \<Rightarrow> configt) \<Rightarrow> l2tpns \<Rightarrow> l2tpns" where
  "upd_cfg f g = g\<lparr>g_cfg := f (g_cfg g)\<rparr>"

definition upd_session :: "nat \<Rightarrow> (sessiont \<Rightarrow> sessiont) \<Rightarrow> l2tpns \<Rightarrow> l2tpns" where
  "upd_session s f g = g\<lparr>g_session := (g_session g)(s := f (g_session g s))\<rparr>"

definition upd_local :: "nat \<Rightarrow> (sessionlocalt \<Rightarrow> sessionlocalt) \<Rightarrow> l2tpns \<Rightarrow> l2tpns" where
  "upd_local s f g = g\<lparr>g_local := (g_local g)(s := f (g_local g s))\<rparr>"

definition upd_tunnel :: "nat \<Rightarrow> (tunnelt \<Rightarrow> tunnelt) \<Rightarrow> l2tpns \<Rightarrow> l2tpns" where
  "upd_tunnel t f g = g\<lparr>g_tunnel := (g_tunnel g)(t := f (g_tunnel g t))\<rparr>"

definition upd_bundle :: "nat \<Rightarrow> (bundlet \<Rightarrow> bundlet) \<Rightarrow> l2tpns \<Rightarrow> l2tpns" where
  "upd_bundle b f g = g\<lparr>g_bundle := (g_bundle g)(b := f (g_bundle g b))\<rparr>"

definition upd_radius :: "nat \<Rightarrow> (radiust \<Rightarrow> radiust) \<Rightarrow> l2tpns \<Rightarrow> l2tpns" where
  "upd_radius r f g = g\<lparr>g_radius := (g_radius g)(r := f (g_radius g r))\<rparr>"

definition upd_pool :: "nat \<Rightarrow> (ippoolt \<Rightarrow> ippoolt) \<Rightarrow> l2tpns \<Rightarrow> l2tpns" where
  "upd_pool i f g = g\<lparr>g_pool := (g_pool g)(i := f (g_pool g i))\<rparr>"

definition filter_ref :: "nat \<Rightarrow> int \<Rightarrow> l2tpns \<Rightarrow> l2tpns" where
  "filter_ref f d g =
     (if f = 0 then g
      else g\<lparr>g_filters := (g_filters g)(f - 1 := (g_filters g (f - 1))\<lparr>fi_used := fi_used (g_filters g (f - 1)) + d\<rparr>)\<rparr>)"

definition out :: "event \<Rightarrow> l2tpns \<Rightarrow> l2tpns" where
  "out e g = g\<lparr>g_out := g_out g @ [e]\<rparr>"

definition g_clk :: "l2tpns \<Rightarrow> clocks" where
  "g_clk g = \<lparr>c_time_now = word_of_int (g_time_now g), c_now = g_now g\<rparr>"

subsection \<open>Tunnels\<close>

text \<open>An operation of the theory \<open>Control\<close> on the tunnel \<open>t\<close>.\<close>

definition on_tunnel :: "(tunnelt \<Rightarrow> tunnelt \<times> datagram list) \<Rightarrow> tunnelidt \<Rightarrow> l2tpns \<Rightarrow> l2tpns" where
  "on_tunnel f t g =
     (case f (g_tunnel g t) of (tn, ds) \<Rightarrow>
        g\<lparr>g_tunnel := (g_tunnel g)(t := tn), g_out := g_out g @ map Datagram ds\<rparr>)"

definition g_tunnelsend :: "bytes \<Rightarrow> tunnelidt \<Rightarrow> l2tpns \<Rightarrow> l2tpns" where
  "g_tunnelsend buf t g = on_tunnel (tunnelsend (g_clk g) buf t) t g"

definition g_controladd :: "bytes \<Rightarrow> sessionidt \<Rightarrow> tunnelidt \<Rightarrow> l2tpns \<Rightarrow> l2tpns" where
  "g_controladd c far t g = on_tunnel (controladd (g_clk g) c (of_nat far) t) t g"

definition g_controlnull :: "tunnelidt \<Rightarrow> l2tpns \<Rightarrow> l2tpns" where
  "g_controlnull t g = on_tunnel (controlnull (g_clk g) t) t g"

subsection \<open>Routes\<close>

definition cache_ip :: "in_addr \<Rightarrow> int \<Rightarrow> l2tpns \<Rightarrow> l2tpns" where
  "cache_ip ip s g = g\<lparr>g_iphash := cache_ipmap (\<lambda>_. g_alloc g) ip s (g_iphash g)\<rparr>"

definition cache_ip6 :: "in6_addr \<Rightarrow> nat \<Rightarrow> sessionidt \<Rightarrow> l2tpns \<Rightarrow> l2tpns" where
  "cache_ip6 ip prefixlen s g =
     g\<lparr>g_ip6hash := cache_ipv6map (\<lambda>_. g_alloc g) ip prefixlen s (g_ip6hash g)\<rparr>"

text \<open>
  The first address of a route and the addresses its loop visits. The bound \<open>ip + (1 << (32 -
  prefixlen))\<close> is a 32-bit sum: for a route that ends with the last address it is zero and the
  loop does nothing.
\<close>

definition route_first :: "in_addr \<Rightarrow> int \<Rightarrow> in_addr" where
  "route_first ip prefixlen = ip AND push_bit (nat (32 - prefixlen)) 0xffffffff"

definition route_addrs :: "in_addr \<Rightarrow> int \<Rightarrow> in_addr list" where
  "route_addrs ip prefixlen =
     (let first = route_first ip prefixlen;
          bound = first + push_bit (nat (32 - prefixlen)) 1
      in map (\<lambda>k. first + of_nat k) [0..<unat bound - unat first])"

definition cache_route :: "in_addr \<Rightarrow> int \<Rightarrow> int \<Rightarrow> l2tpns \<Rightarrow> l2tpns" where
  "cache_route ip prefixlen s g = fold (\<lambda>a. cache_ip a s) (route_addrs ip prefixlen) g"

definition routeset :: "sessionidt \<Rightarrow> in_addr \<Rightarrow> int \<Rightarrow> in_addr \<Rightarrow> bool \<Rightarrow> l2tpns \<Rightarrow> l2tpns" where
  "routeset s ip prefixlen gw add g =
     (let prefixlen = (if prefixlen = 0 then 32 else prefixlen);
          ip = route_first ip prefixlen;
          g1 = out (KernelRoute add ip prefixlen gw) g;
          g2 = g1\<lparr>g_bgp :=
                   fst (if add then bgp_add_route (\<not> g_alloc g) ip (word_of_int prefixlen) (g_bgp g1)
                        else bgp_del_route ip (word_of_int prefixlen) (g_bgp g1))\<rparr>
      in if s = 0 then g2
         else cache_route ip prefixlen (if add then int s else 0) g2)"

definition in6_bytes :: "in6_addr \<Rightarrow> bytes" where
  "in6_bytes ip = map (s6_addr ip) [0..<16]"

definition route6set :: "sessionidt \<Rightarrow> in6_addr \<Rightarrow> nat \<Rightarrow> bool \<Rightarrow> l2tpns \<Rightarrow> l2tpns" where
  "route6set s ip prefixlen add g =
     (if s6_addr (cf_ipv6_prefix (g_cfg g)) 0 = 0 then g
      else
        let g1 = out (KernelRoute6 add ip (int prefixlen)) g;
            g2 = g1\<lparr>g_bgp :=
                     fst (if add then bgp_add_route6 (\<not> g_alloc g) (in6_bytes ip) (of_nat prefixlen) (g_bgp g1)
                          else bgp_del_route6 (in6_bytes ip) (of_nat prefixlen) (g_bgp g1))\<rparr>
        in if s = 0 then g2 else cache_ip6 ip prefixlen (if add then s else 0) g2)"

text \<open>Finding the session an address belongs to.\<close>

definition sessionbyip :: "in_addr \<Rightarrow> l2tpns \<Rightarrow> sessionidt" where
  "sessionbyip ip g =
     (let s = lookup_ipmap ip (g_iphash g)
      in if s > 0 \<and> s < MAXSESSION \<and> s_opened (g_session g s) \<noteq> 0 then s else 0)"

definition sessionbyipv6 :: "in6_addr \<Rightarrow> l2tpns \<Rightarrow> sessionidt" where
  "sessionbyipv6 ip g =
     (let pfx = cf_ipv6_prefix (g_cfg g);
          s = (if (\<forall>i < 8. s6_addr pfx i = s6_addr ip i) \<or>
                  s6_addr ip 0 = 0xFE \<and> s6_addr ip 1 = 0x80 \<and> (\<forall>i \<in> {2..<8}. s6_addr ip i = 0)
               then lookup_ipmap (of_be32 (map (s6_addr ip) [8..<12])) (g_iphash g)
               else lookup_ipv6map ip (g_ip6hash g))
      in if s > 0 \<and> s < MAXSESSION \<and> s_opened (g_session g s) \<noteq> 0 then s else 0)"

definition sessionbyipv6new :: "in6_addr \<Rightarrow> l2tpns \<Rightarrow> sessionidt" where
  "sessionbyipv6new ip g =
     (let s = lookup_ipv6map ip (g_ip6hash g)
      in if s > 0 \<and> s < MAXSESSION \<and> s_opened (g_session g s) \<noteq> 0 then s else 0)"

end
