(* ===== verification/Mss.thy ===== *)
theory Mss
  imports World
begin

text \<open>
  The maximum segment size of TCP connections (\<open>adjust_tcp_mss\<close> of \<^verbatim>\<open>src/l2tpns.c\<close>): the option of a SYN
  is lowered to what fits the tunnel and the checksum of the segment is updated with it. The packet
  is the memory from \<open>buf\<close> on.
\<close>

definition wr16 :: "nat \<Rightarrow> u16 \<Rightarrow> (nat \<Rightarrow> u8) \<Rightarrow> (nat \<Rightarrow> u8)" where
  "wr16 i x buf = buf(i := ucast (drop_bit 8 x), i + 1 := ucast x)"

text \<open>The walk through the options up to \<open>data\<close>; None when there is no such option or it is cut off.\<close>

function find_mss :: "(nat \<Rightarrow> u8) \<Rightarrow> nat \<Rightarrow> nat \<Rightarrow> nat option" where
  "find_mss buf data opts =
     (if opts < data then
        if buf opts = 2 \<and> buf (opts + 1) = 4
        then if opts + 4 > data then None else Some (opts + 2)
        else if buf opts = 0 then None
        else if buf opts = 1 \<or> buf (opts + 1) = 0 then find_mss buf data (opts + 1)
        else find_mss buf data (opts + unat (buf (opts + 1)))
      else None)"
  by pat_completeness auto
termination
  by (relation "measure (\<lambda>(buf, data, opts). data - opts)") (auto simp: unat_gt_0 [symmetric] intro!: diff_less_mono2)

declare find_mss.simps [simp del]

definition adjust_tcp_mss :: "u16 \<Rightarrow> nat \<Rightarrow> nat \<Rightarrow> (nat \<Rightarrow> u8) \<Rightarrow> (nat \<Rightarrow> u8)" where
  "adjust_tcp_mss MSS len tcp buf =
     (let d = unat (drop_bit 4 (buf (tcp + 12))) * 4 in
      if (buf (tcp + 13) AND 0x3f) AND NOT 0x12 \<noteq> 0 then buf
      else if tcp + d > len then buf
      else case find_mss buf (tcp + d) (tcp + 20) of
        None \<Rightarrow> buf
      | Some mss \<Rightarrow>
          let orig = rd16 buf mss in
          if orig \<le> MSS then buf
          else
            let buf1 = wr16 mss MSS buf;
                sum = ucast orig + (NOT (ucast MSS) AND 0xffff) :: u32;
                sum = sum + ucast (rd16 buf1 (tcp + 16));
                sum = (sum AND 0xffff) + drop_bit 16 sum
            in wr16 (tcp + 16) (ucast (sum + drop_bit 16 sum)) buf1)"

subsection \<open>The checksum stays right\<close>

text \<open>The words of a segment of \<open>n\<close> words at \<open>a\<close>; its checksum is right when their sum, with that of
  the pseudo header, is zero modulo 65535.\<close>

definition words_sum :: "(nat \<Rightarrow> u8) \<Rightarrow> nat \<Rightarrow> nat \<Rightarrow> nat" where
  "words_sum buf a n = (\<Sum>k<n. unat (rd16 buf (a + 2 * k)))"

lemma rd16_wr16: "rd16 (wr16 i x buf) i = x"
  by (auto simp: rd16_def wr16_def bit_simps intro!: bit_word_eqI)

lemma rd16_wr16_other: "j + 1 < i \<or> i + 1 < j \<Longrightarrow> rd16 (wr16 i x buf) j = rd16 buf j"
  by (auto simp: rd16_def wr16_def)

lemma words_sum_wr16:
  assumes "k < n"
  shows "words_sum (wr16 (a + 2 * k) x buf) a n + unat (rd16 buf (a + 2 * k)) = words_sum buf a n + unat x"
proof -
  let ?f = "\<lambda>k. unat (rd16 buf (a + 2 * k))" and ?g = "\<lambda>j. unat (rd16 (wr16 (a + 2 * k) x buf) (a + 2 * j))"
  have fin: "finite {..<n}" and mem: "k \<in> {..<n}" using assms by auto
  have "sum ?g ({..<n} - {k}) = sum ?f ({..<n} - {k})"
  proof (rule sum.cong [OF refl])
    fix j assume "j \<in> {..<n} - {k}"
    then have "a + 2 * j + 1 < a + 2 * k \<or> a + 2 * k + 1 < a + 2 * j" by auto
    then show "?g j = ?f j" by (simp only: rd16_wr16_other)
  qed
  then show ?thesis
    unfolding words_sum_def sum.remove [OF fin mem, of ?g] sum.remove [OF fin mem, of ?f]
    by (simp add: rd16_wr16)
qed

lemma unat_u16: "unat (x :: u16) < 65536"
  using unsigned_less [of x, where ?'a = nat] by simp

lemma unat_ucast32: "unat (ucast (x :: u16) :: u32) = unat x"
  using unat_u16 [of x] by (simp add: unsigned_ucast_eq take_bit_nat_eq_self)

lemma complement16: "unat (NOT (ucast (x :: u16)) AND 0xffff :: u32) = 65535 - unat x"
proof -
  have m: "(0xffff :: u32) = mask 16" by (simp add: mask_eq_exp_minus_1)
  have "NOT (ucast x) AND 0xffff = (mask 16 :: u32) - take_bit 16 (ucast x)"
    unfolding m by (simp add: take_bit_eq_mask [symmetric] take_bit_not_eq_mask_diff)
  also have "take_bit 16 (ucast x :: u32) = ucast x"
    using bit_imp_le_length [of x] by (auto intro!: bit_word_eqI simp: bit_simps)
  finally have "NOT (ucast x) AND 0xffff = (0xffff :: u32) - ucast x" by (simp only: m)
  moreover have le: "ucast x \<le> (0xffff :: u32)"
    using unat_u16 [of x] by (simp add: word_le_nat_alt unat_ucast32)
  ultimately show ?thesis
    by (simp add: unat_sub [OF le] unat_ucast32)
qed

lemma fold_nat:
  fixes a :: nat
  assumes "a \<le> 196605"
  shows "a mod 65536 + a div 65536 \<le> 65537" and "(a mod 65536 + a div 65536) mod 65535 = a mod 65535"
proof -
  obtain q r where qr: "a div 65536 = q" "a mod 65536 = r" by blast
  have a: "a = 65536 * q + r" and r: "r < 65536"
    using mult_div_mod_eq [of 65536 a] qr by (auto simp: mod_less_divisor)
  from a assms have "q \<le> 2" by linarith
  with r show "a mod 65536 + a div 65536 \<le> 65537" unfolding qr by linarith
  have "a = (r + q) + 65535 * q" unfolding a by simp
  then show "(a mod 65536 + a div 65536) mod 65535 = a mod 65535" unfolding qr by (metis mod_mult_self2)
qed

lemma fold_twice:
  fixes t :: nat
  assumes "t \<le> 65537"
  shows "t + t div 65536 \<le> 65538" "(t + t div 65536) mod 65536 mod 65535 = t mod 65535"
proof -
  consider "t < 65536" | "t = 65536" | "t = 65537" using assms by linarith
  then show "(t + t div 65536) mod 65536 mod 65535 = t mod 65535"
  proof cases
    case 1
    then have "t div 65536 = 0" "t mod 65536 = t" by simp_all
    then show ?thesis by (simp only: add_0_right)
  qed simp_all
  have "t div 65536 \<le> 65537 div 65536" by (rule div_le_mono [OF assms])
  with assms show "t + t div 65536 \<le> 65538" by simp
qed

lemma unat_add_small: "unat a + unat b \<le> 65538 * 3 \<Longrightarrow> unat (a + b :: u32) = unat a + unat b"
  by (subst unat_add_lem [THEN iffD1]) simp_all

lemma unat_halves: "unat (x AND 0xffff :: u32) = unat x mod 65536" "unat (drop_bit 16 x :: u32) = unat x div 65536"
proof -
  have m: "(0xffff :: u32) = mask 16" by (simp add: mask_eq_exp_minus_1)
  show "unat (x AND 0xffff :: u32) = unat x mod 65536" "unat (drop_bit 16 x :: u32) = unat x div 65536"
    by (simp_all add: m take_bit_eq_mask [symmetric] unsigned_take_bit_eq take_bit_eq_mod unat_drop_bit_eq
        drop_bit_eq_div unat_mod_distrib unat_div_distrib)
qed

lemma fold16:
  assumes "unat (s :: u32) \<le> 196605"
  defines "t \<equiv> (s AND 0xffff) + drop_bit 16 s"
  shows "unat (ucast (t + drop_bit 16 t) :: u16) mod 65535 = unat s mod 65535"
proof -
  have t: "unat t = unat s mod 65536 + unat s div 65536"
    unfolding t_def using fold_nat(1) [OF assms(1)] by (subst unat_add_small) (simp_all only: unat_halves)
  have t_le: "unat t \<le> 65537" unfolding t by (rule fold_nat(1) [OF assms(1)])
  have "unat (t + drop_bit 16 t) = unat t + unat t div 65536"
    using fold_twice(1) [OF t_le] by (subst unat_add_small) (simp_all only: unat_halves)
  then have "unat (ucast (t + drop_bit 16 t) :: u16) = (unat t + unat t div 65536) mod 65536"
    by (simp add: unsigned_ucast_eq take_bit_eq_mod)
  then show ?thesis by (simp only: fold_twice(2) [OF t_le]) (simp only: t fold_nat(2) [OF assms(1)])
qed

lemma find_mss_bounds: "find_mss buf data opts = Some mss \<Longrightarrow> opts + 2 \<le> mss \<and> mss + 2 \<le> data"
proof (induction buf data opts rule: find_mss.induct)
  case (1 buf data opts)
  let ?hit = "buf opts = 2 \<and> buf (opts + 1) = 4" and ?one = "buf opts = 1 \<or> buf (opts + 1) = 0"
  from "1.prems" have lt: "opts < data" by (subst (asm) find_mss.simps) (auto split: if_splits)
  show ?case
  proof (cases ?hit)
    case True
    with "1.prems" show ?thesis by (subst (asm) find_mss.simps) (auto split: if_splits)
  next
    case False
    with "1.prems" lt have nz: "buf opts \<noteq> 0" by (subst (asm) find_mss.simps) (auto split: if_splits)
    show ?thesis
    proof (cases ?one)
      case True
      with "1.prems" lt False nz have "find_mss buf data (opts + 1) = Some mss"
        by (subst (asm) find_mss.simps) (auto split: if_splits)
      from "1.IH"(1) [OF lt False nz True this] show ?thesis by simp
    next
      case one: False
      with "1.prems" lt False nz have "find_mss buf data (opts + unat (buf (opts + 1))) = Some mss"
        by (subst (asm) find_mss.simps) (auto split: if_splits)
      from "1.IH"(2) [OF lt False nz one this] show ?thesis by simp
    qed
  qed
qed

lemma mod_cancel:
  fixes a :: nat
  assumes "(a + c) mod m = (b + c) mod m"
  shows "a mod m = b mod m"
proof -
  have "int a mod int m = int b mod int m"
    using assms by (metis add_diff_cancel_right' mod_diff_left_eq of_nat_add zmod_int)
  then show ?thesis by (metis of_nat_eq_iff zmod_int)
qed

lemma sum_mod:
  fixes w :: nat
  assumes "w + ck + orig = w' + m + x" and "x mod 65535 = (orig + (65535 - m) + ck) mod 65535" and "m \<le> 65535"
  shows "w mod 65535 = w' mod 65535"
proof -
  have "(w + ck + orig) mod 65535 = (w' + m + (orig + (65535 - m) + ck)) mod 65535"
    unfolding assms(1) using assms(2) by (metis mod_add_right_eq)
  also have "w' + m + (orig + (65535 - m) + ck) = (w' + ck + orig) + 65535" using assms(3) by simp
  also have "\<dots> mod 65535 = (w' + (ck + orig)) mod 65535" unfolding mod_add_self2 by (simp only: add.assoc)
  finally have "(w + (ck + orig)) mod 65535 = (w' + (ck + orig)) mod 65535" by (simp only: add.assoc)
  then show ?thesis by (rule mod_cancel)
qed

text \<open>
  C27: a segment that is changed keeps its checksum right: the sum of its words, with any pseudo header,
  is the same modulo 65535. Only the option and the checksum change, and the option then has the
  value \<open>MSS\<close>. The option has to lie at an even offset of the segment.
\<close>

theorem adjust_tcp_mss_checksum:
  assumes found: "find_mss buf (tcp + unat (drop_bit 4 (buf (tcp + 12))) * 4) (tcp + 20) = Some (tcp + 2 * k)"
    and len: "len = tcp + 2 * n" and syn: "(buf (tcp + 13) AND 0x3f) AND NOT 0x12 = 0"
    and d: "tcp + unat (drop_bit 4 (buf (tcp + 12))) * 4 \<le> len"
  shows "(words_sum (adjust_tcp_mss MSS len tcp buf) tcp n + pseudo) mod 65535 = (words_sum buf tcp n + pseudo) mod 65535 \<and>
    rd16 (adjust_tcp_mss MSS len tcp buf) (tcp + 2 * k) = min MSS (rd16 buf (tcp + 2 * k)) \<and>
    (\<forall>i. i \<notin> {tcp + 16, tcp + 17, tcp + 2 * k, tcp + 2 * k + 1} \<longrightarrow> adjust_tcp_mss MSS len tcp buf i = buf i)"
proof (cases "rd16 buf (tcp + 2 * k) \<le> MSS")
  case True
  then have "adjust_tcp_mss MSS len tcp buf = buf"
    using found syn d by (simp add: adjust_tcp_mss_def Let_def)
  with True show ?thesis by (simp add: min_def)
next
  case False
  let ?orig = "rd16 buf (tcp + 2 * k)" and ?ck = "rd16 buf (tcp + 16)"
  let ?s = "ucast ?orig + (NOT (ucast MSS) AND 0xffff) + ucast ?ck :: u32"
  let ?t = "(?s AND 0xffff) + drop_bit 16 ?s"
  let ?new = "ucast (?t + drop_bit 16 ?t) :: u16"
  let ?buf1 = "wr16 (tcp + 2 * k) MSS buf"
  from find_mss_bounds [OF found] d len have k: "11 \<le> k" "k < n" by simp_all
  have ck: "rd16 ?buf1 (tcp + 16) = ?ck" using k by (simp add: rd16_wr16_other)
  have eq: "adjust_tcp_mss MSS len tcp buf = wr16 (tcp + 2 * 8) ?new ?buf1"
    using found syn d False by (simp add: adjust_tcp_mss_def Let_def ck)
  have bounds: "unat ?orig \<le> 65535" "unat ?ck \<le> 65535" "unat MSS \<le> 65535"
    using unat_u16 [of ?orig] unat_u16 [of ?ck] unat_u16 [of MSS] by simp_all
  have s: "unat ?s = unat ?orig + (65535 - unat MSS) + unat ?ck"
  proof -
    have 1: "unat (ucast ?orig + (NOT (ucast MSS) AND 0xffff) :: u32) = unat ?orig + (65535 - unat MSS)"
      using bounds by (subst unat_add_lem [THEN iffD1]) (simp_all add: complement16 unat_ucast32)
    show ?thesis
      using bounds by (subst unat_add_lem [THEN iffD1]) (simp_all add: 1 unat_ucast32)
  qed
  have new: "unat ?new mod 65535 = (unat ?orig + (65535 - unat MSS) + unat ?ck) mod 65535"
    unfolding s [symmetric] by (rule fold16) (use s bounds in linarith)
  have k8: "8 < n" using k by simp
  have "words_sum (wr16 (tcp + 2 * 8) ?new ?buf1) tcp n + unat ?ck + unat ?orig = words_sum buf tcp n + unat MSS + unat ?new"
    using words_sum_wr16 [OF k8, of tcp ?new ?buf1] words_sum_wr16 [OF k(2), of tcp MSS buf] ck
    by simp
  from sum_mod [OF this new bounds(3)]
  have "words_sum (adjust_tcp_mss MSS len tcp buf) tcp n mod 65535 = words_sum buf tcp n mod 65535"
    unfolding eq .
  then have "(words_sum (adjust_tcp_mss MSS len tcp buf) tcp n + pseudo) mod 65535 = (words_sum buf tcp n + pseudo) mod 65535"
    by (metis mod_add_left_eq)
  moreover have "rd16 (wr16 (tcp + 2 * 8) ?new ?buf1) (tcp + 2 * k) = MSS"
    using k by (simp add: rd16_wr16 rd16_wr16_other)
  ultimately show ?thesis using False unfolding eq by (auto simp: min_def wr16_def)
qed

definition sample_syn :: "nat \<Rightarrow> u8" where
  "sample_syn i = (if i = 12 then 0x60 else if i = 13 then 2 else if i = 16 then 0x12 else if i = 20 then 2
     else if i = 21 then 4 else if i = 22 then 5 else if i = 23 then 180 else 0)"

theorem adjust_tcp_mss_checksum_witness:
  "(words_sum (adjust_tcp_mss 1400 24 0 sample_syn) 0 12 + 7) mod 65535 = (words_sum sample_syn 0 12 + 7) mod 65535 \<and>
   rd16 (adjust_tcp_mss 1400 24 0 sample_syn) 22 = 1400"
proof -
  have found: "find_mss sample_syn (0 + unat (drop_bit 4 (sample_syn (0 + 12))) * 4) (0 + 20) = Some (0 + 2 * 11)"
    by (subst find_mss.simps) (simp add: sample_syn_def)
  have "rd16 sample_syn 22 = 1460" by (simp add: rd16_def sample_syn_def)
  with adjust_tcp_mss_checksum [OF found, of 24 12 1400 7] show ?thesis
    by (simp add: sample_syn_def min_def)
qed

text \<open>At an odd offset the update of the checksum is wrong: the same option after a single padding byte.\<close>

definition odd_syn :: "nat \<Rightarrow> u8" where
  "odd_syn i = (if i = 12 then 0x70 else if i = 13 then 2 else if i = 16 then 0x12 else if i = 20 then 1
     else if i = 21 then 2 else if i = 22 then 4 else if i = 23 then 5 else if i = 24 then 180 else 0)"

lemma adjust_tcp_mss_odd_offset:
  "words_sum (adjust_tcp_mss 1400 28 0 odd_syn) 0 14 mod 65535 \<noteq> words_sum odd_syn 0 14 mod 65535"
proof -
  have "find_mss odd_syn 28 20 = find_mss odd_syn 28 21"
    by (subst find_mss.simps) (simp add: odd_syn_def)
  also have "\<dots> = Some 23" by (subst find_mss.simps) (simp add: odd_syn_def)
  finally have found: "find_mss odd_syn 28 20 = Some 23" .
  have "adjust_tcp_mss 1400 28 0 odd_syn = wr16 16 0x123c (wr16 23 1400 odd_syn)"
    by (simp add: adjust_tcp_mss_def found Let_def rd16_def wr16_def odd_syn_def)
  moreover have "{..<14} = {0, 1, 2, 3, 4, 5, 6, 7, 8, 9, 10, 11, 12, 13 :: nat}" by (simp add: set_eq_iff) presburger
  ultimately show ?thesis by (simp add: words_sum_def rd16_def wr16_def odd_syn_def)
qed

end
