(* ===== verification/Free.thy ===== *)
theory Free
  imports World
begin

text \<open>
  Free traffic (\<^verbatim>\<open>src/freetraffic.c\<close>): the networks of a zone, whose traffic is counted apart. A zone is
  named by two characters, which the code uses as (signed) indices; its networks are an array of which the
  first \<open>fz_size\<close> are in use. A packet is the memory from \<open>buf\<close> on; the host is little-endian, so a load of
  an address from a packet gives its bytes in reverse.
\<close>

definition zone_index :: "string \<Rightarrow> int \<times> int" where
  "zone_index zone =
     (let c = (\<lambda>i. if i < length zone then (let v = of_char (zone ! i) in if v > 127 then v - 256 else v) else 0)
      in (c 0, c 1))"

definition load_addr :: "(nat \<Rightarrow> u8) \<Rightarrow> nat \<Rightarrow> in_addr" where
  "load_addr buf i = of_le32 [buf i, buf (i + 1), buf (i + 2), buf (i + 3)]"

definition free_traffic :: "string \<Rightarrow> (nat \<Rightarrow> u8) \<Rightarrow> nat \<Rightarrow> l2tpns \<Rightarrow> bool" where
  "free_traffic zone buf len g =
     (if len < 20 then False
      else if drop_bit 4 (buf 0) \<noteq> 4 then False
      else
        let dst_ip = load_addr buf 16; z = g_free_zones g (zone_index zone)
        in (\<exists>i < fz_size z. dst_ip AND fn_mask (fz_networks z i) = fn_host (fz_networks z i) AND fn_mask (fz_networks z i)))"

definition upd_zone :: "int \<times> int \<Rightarrow> (free_zone \<Rightarrow> free_zone) \<Rightarrow> l2tpns \<Rightarrow> l2tpns" where
  "upd_zone k f g = g\<lparr>g_free_zones := (g_free_zones g)(k := f (g_free_zones g k))\<rparr>"

text \<open>The array has room for 50 networks; the code does not check that.\<close>

definition MAXFREENETWORKS :: nat where "MAXFREENETWORKS = 50"

definition add_free_network :: "string \<Rightarrow> in_addr \<Rightarrow> in_addr \<Rightarrow> l2tpns \<Rightarrow> l2tpns outcome" where
  "add_free_network zone host msk g =
     (if fz_size (g_free_zones g (zone_index zone)) \<ge> MAXFREENETWORKS then Undef
      else Ret (upd_zone (zone_index zone) (\<lambda>z. z\<lparr>
        fz_networks := (fz_networks z)(fz_size z := \<lparr>fn_host = host AND msk, fn_mask = msk\<rparr>),
        fz_size := fz_size z + 1\<rparr>) g))"

definition net_zero :: free_networkt where
  "net_zero = \<lparr>fn_host = 0, fn_mask = 0\<rparr>"

fun remove_loop :: "in_addr \<Rightarrow> nat list \<Rightarrow> free_zone \<Rightarrow> free_zone" where
  "remove_loop host [] z = z"
| "remove_loop host (i # js) z =
     (let n = fz_networks z i in
      remove_loop host js
        (if host AND fn_mask n = fn_host n AND fn_mask n
         then z\<lparr>fz_networks := (fz_networks z)(fz_size z := net_zero), fz_size := fz_size z - 1\<rparr>
         else z))"

definition remove_free_network :: "string \<Rightarrow> in_addr \<Rightarrow> in_addr \<Rightarrow> l2tpns \<Rightarrow> l2tpns" where
  "remove_free_network zone host msk g =
     upd_zone (zone_index zone) (\<lambda>z. remove_loop host [0..<fz_size z] z) g"

subsection \<open>Which traffic is free\<close>

text \<open>What the configuration means: a destination is free when it lies in a network of the zone.\<close>

definition in_free_network :: "free_zone \<Rightarrow> in_addr \<Rightarrow> bool" where
  "in_free_network z ip \<longleftrightarrow>
     (\<exists>i < fz_size z. ip AND fn_mask (fz_networks z i) = fn_host (fz_networks z i) AND fn_mask (fz_networks z i))"

definition packet_dst :: "(nat \<Rightarrow> u8) \<Rightarrow> in_addr" where
  "packet_dst buf = of_be32 [buf 16, buf 17, buf 18, buf 19]"

definition swap32 :: "u32 \<Rightarrow> u32" where
  "swap32 x = of_le32 (be32 x)"

lemma be32_of_be32: "be32 (of_be32 [a, b, c, d]) = [a, b, c, d]"
  unfolding be32_def of_be32.simps list.inject
  by (intro conjI refl; rule bit_word_eqI) (auto simp: bit_simps dest: bit_imp_le_length)

lemma load_addr_swap: "load_addr buf 16 = swap32 (packet_dst buf)"
  by (simp add: load_addr_def swap32_def packet_dst_def be32_of_be32 del: of_be32.simps of_le32.simps)

text \<open>
  The address compared with the networks of a zone is the destination of the packet with its bytes
  reversed: traffic to 4.3.2.1 is counted as free when 1.2.3.4 is in a network, whatever the
  configuration says of 4.3.2.1.
\<close>

lemma free_traffic_reversed:
  assumes "20 \<le> len" and "drop_bit 4 (buf 0) = 4"
  shows "free_traffic zone buf len g =
    in_free_network (g_free_zones g (zone_index zone)) (swap32 (packet_dst buf))"
  using assms by (simp add: free_traffic_def in_free_network_def load_addr_swap Let_def)

text \<open>The last network of a zone is dropped, whichever matches.\<close>

lemma remove_free_network_drops_last:
  assumes "fz_networks z 0 = \<lparr>fn_host = h, fn_mask = mask_all\<rparr>" and "fz_networks z 1 = \<lparr>fn_host = h', fn_mask = mask_all\<rparr>"
    and "fz_size z = 2" and "mask_all = NOT 0" and "h \<noteq> h'"
  shows "in_free_network (remove_loop h [0, 1] z) h" "\<not> in_free_network (remove_loop h [0, 1] z) h'"
  using assms by (auto simp: in_free_network_def less_Suc_eq)

end
