(* ===== verification/Md5.thy ===== *)
theory Md5
  imports Prelude
begin

text \<open>
  The message digest of \<^verbatim>\<open>src/md5.c\<close>, which the shared secrets of L2TP, CHAP and RADIUS rest on: the
  64-bit arithmetic of the C code (\<open>unsigned long\<close>, with the 32-bit words in its low halves), data
  supplied in pieces through a 64-byte buffer, and the two bit counters. It is shown to compute the
  function of RFC 1321, stated here on whole messages and 32-bit words.
\<close>

subsection \<open>The code\<close>

record md5_ctx =
  m_lo :: u64
  m_hi :: u64
  m_a :: u64
  m_b :: u64
  m_c :: u64
  m_d :: u64
  m_buffer :: bytes

type_synonym regs = "u64 \<times> u64 \<times> u64 \<times> u64"

definition md5_F :: "u64 \<Rightarrow> u64 \<Rightarrow> u64 \<Rightarrow> u64" where "md5_F x y z = z XOR (x AND (y XOR z))"
definition md5_G :: "u64 \<Rightarrow> u64 \<Rightarrow> u64 \<Rightarrow> u64" where "md5_G x y z = y XOR (z AND (x XOR y))"
definition md5_H :: "u64 \<Rightarrow> u64 \<Rightarrow> u64 \<Rightarrow> u64" where "md5_H x y z = x XOR y XOR z"
definition md5_I :: "u64 \<Rightarrow> u64 \<Rightarrow> u64 \<Rightarrow> u64" where "md5_I x y z = y XOR (x OR NOT z)"

text \<open>
  \<open>STEP\<close> assigns its first argument; the calls name the registers in turn, which the model does by
  rotating them.
\<close>

definition md5_step :: "(u64 \<Rightarrow> u64 \<Rightarrow> u64 \<Rightarrow> u64) \<Rightarrow> u64 \<Rightarrow> u64 \<Rightarrow> nat \<Rightarrow> regs \<Rightarrow> regs" where
  "md5_step f x t s r =
     (case r of (a, b, c, d) \<Rightarrow>
        let a = a + (f b c d + x + t);
            a = push_bit s a OR drop_bit (32 - s) (a AND 0xffffffff);
            a = a + b
        in (d, a, b, c))"

definition md5_rounds :: "((u64 \<Rightarrow> u64 \<Rightarrow> u64 \<Rightarrow> u64) \<times> nat \<times> u64 \<times> nat) list" where
  "md5_rounds = [
   (md5_F, 0, 0xd76aa478, 7), (md5_F, 1, 0xe8c7b756, 12), (md5_F, 2, 0x242070db, 17), (md5_F, 3, 0xc1bdceee, 22),
   (md5_F, 4, 0xf57c0faf, 7), (md5_F, 5, 0x4787c62a, 12), (md5_F, 6, 0xa8304613, 17), (md5_F, 7, 0xfd469501, 22),
   (md5_F, 8, 0x698098d8, 7), (md5_F, 9, 0x8b44f7af, 12), (md5_F, 10, 0xffff5bb1, 17), (md5_F, 11, 0x895cd7be, 22),
   (md5_F, 12, 0x6b901122, 7), (md5_F, 13, 0xfd987193, 12), (md5_F, 14, 0xa679438e, 17), (md5_F, 15, 0x49b40821, 22),
   (md5_G, 1, 0xf61e2562, 5), (md5_G, 6, 0xc040b340, 9), (md5_G, 11, 0x265e5a51, 14), (md5_G, 0, 0xe9b6c7aa, 20),
   (md5_G, 5, 0xd62f105d, 5), (md5_G, 10, 0x02441453, 9), (md5_G, 15, 0xd8a1e681, 14), (md5_G, 4, 0xe7d3fbc8, 20),
   (md5_G, 9, 0x21e1cde6, 5), (md5_G, 14, 0xc33707d6, 9), (md5_G, 3, 0xf4d50d87, 14), (md5_G, 8, 0x455a14ed, 20),
   (md5_G, 13, 0xa9e3e905, 5), (md5_G, 2, 0xfcefa3f8, 9), (md5_G, 7, 0x676f02d9, 14), (md5_G, 12, 0x8d2a4c8a, 20),
   (md5_H, 5, 0xfffa3942, 4), (md5_H, 8, 0x8771f681, 11), (md5_H, 11, 0x6d9d6122, 16), (md5_H, 14, 0xfde5380c, 23),
   (md5_H, 1, 0xa4beea44, 4), (md5_H, 4, 0x4bdecfa9, 11), (md5_H, 7, 0xf6bb4b60, 16), (md5_H, 10, 0xbebfbc70, 23),
   (md5_H, 13, 0x289b7ec6, 4), (md5_H, 0, 0xeaa127fa, 11), (md5_H, 3, 0xd4ef3085, 16), (md5_H, 6, 0x04881d05, 23),
   (md5_H, 9, 0xd9d4d039, 4), (md5_H, 12, 0xe6db99e5, 11), (md5_H, 15, 0x1fa27cf8, 16), (md5_H, 2, 0xc4ac5665, 23),
   (md5_I, 0, 0xf4292244, 6), (md5_I, 7, 0x432aff97, 10), (md5_I, 14, 0xab9423a7, 15), (md5_I, 5, 0xfc93a039, 21),
   (md5_I, 12, 0x655b59c3, 6), (md5_I, 3, 0x8f0ccc92, 10), (md5_I, 10, 0xffeff47d, 15), (md5_I, 1, 0x85845dd1, 21),
   (md5_I, 8, 0x6fa87e4f, 6), (md5_I, 15, 0xfe2ce6e0, 10), (md5_I, 6, 0xa3014314, 15), (md5_I, 13, 0x4e0811a1, 21),
   (md5_I, 4, 0xf7537e82, 6), (md5_I, 11, 0xbd3af235, 10), (md5_I, 2, 0x2ad7d2bb, 15), (md5_I, 9, 0xeb86d391, 21)]"

definition md5_set :: "bytes \<Rightarrow> nat \<Rightarrow> u64" where
  "md5_set p n = ucast (p ! (4 * n)) OR push_bit 8 (ucast (p ! (4 * n + 1))) OR
     push_bit 16 (ucast (p ! (4 * n + 2))) OR push_bit 24 (ucast (p ! (4 * n + 3)))"

definition md5_block :: "bytes \<Rightarrow> regs \<Rightarrow> regs" where
  "md5_block p r =
     (case r of (a, b, c, d) \<Rightarrow>
      case fold (\<lambda>(f, n, t, s). md5_step f (md5_set p n) t s) md5_rounds r of
        (a', b', c', d') \<Rightarrow> (a' + a, b' + b, c' + c, d' + d))"

function md5_blocks :: "bytes \<Rightarrow> regs \<Rightarrow> regs" where
  "md5_blocks p r = (if length p < 64 then r else md5_blocks (drop 64 p) (md5_block (take 64 p) r))"
  by pat_completeness auto
termination by (relation "measure (\<lambda>(p, r). length p)") auto

declare md5_blocks.simps [simp del]

definition md5_body :: "bytes \<Rightarrow> md5_ctx \<Rightarrow> md5_ctx" where
  "md5_body p ctx =
     (case md5_blocks p (m_a ctx, m_b ctx, m_c ctx, m_d ctx) of
        (a, b, c, d) \<Rightarrow> ctx\<lparr>m_a := a, m_b := b, m_c := c, m_d := d\<rparr>)"

text \<open>The buffer holds whatever it held; \<open>junk\<close> is its content before the first use.\<close>

definition md5_init :: "bytes \<Rightarrow> md5_ctx" where
  "md5_init junk = \<lparr>m_lo = 0, m_hi = 0, m_a = 0x67452301, m_b = 0xefcdab89, m_c = 0x98badcfe,
     m_d = 0x10325476, m_buffer = junk\<rparr>"

definition memcpy_at :: "nat \<Rightarrow> bytes \<Rightarrow> bytes \<Rightarrow> bytes" where
  "memcpy_at i src buf = take i buf @ src @ drop (i + length src) buf"

definition buf_write :: "nat \<Rightarrow> bytes \<Rightarrow> md5_ctx \<Rightarrow> md5_ctx" where
  "buf_write i src ctx = ctx\<lparr>m_buffer := memcpy_at i src (m_buffer ctx)\<rparr>"

definition md5_count :: "nat \<Rightarrow> md5_ctx \<Rightarrow> md5_ctx" where
  "md5_count len ctx =
     (let saved_lo = m_lo ctx; lo = (saved_lo + of_nat len) AND 0x1fffffff
      in ctx\<lparr>m_lo := lo,
             m_hi := m_hi ctx + (if lo < saved_lo then 1 else 0) + drop_bit 29 (of_nat len)\<rparr>)"

definition md5_update_rest :: "bytes \<Rightarrow> md5_ctx \<Rightarrow> md5_ctx" where
  "md5_update_rest dat ctx =
     (let n = 64 * (length dat div 64);
          ctx1 = (if length dat \<ge> 64 then md5_body (take n dat) ctx else ctx)
      in buf_write 0 (if length dat \<ge> 64 then drop n dat else dat) ctx1)"

definition md5_update :: "bytes \<Rightarrow> md5_ctx \<Rightarrow> md5_ctx" where
  "md5_update dat ctx =
     (let used = unat (m_lo ctx AND 0x3f);
          ctx1 = md5_count (length dat) ctx
      in if used \<noteq> 0
         then let free = 64 - used in
              if length dat < free then buf_write used dat ctx1
              else
                let ctx2 = buf_write used (take free dat) ctx1
                in md5_update_rest (drop free dat) (md5_body (m_buffer ctx2) ctx2)
         else md5_update_rest dat ctx1)"

definition md5_final :: "md5_ctx \<Rightarrow> bytes" where
  "md5_final ctx =
     (let used = unat (m_lo ctx AND 0x3f);
          ctx1 = buf_write used [0x80] ctx;
          used = used + 1;
          free = 64 - used;
          (ctx2, used, free) =
            (if free < 8
             then let c = buf_write used (replicate free 0) ctx1 in (md5_body (m_buffer c) c, 0, 64)
             else (ctx1, used, free));
          ctx3 = buf_write used (replicate (free - 8) 0) ctx2;
          ctx4 = buf_write 56 (le32 (ucast (push_bit 3 (m_lo ctx))) @ le32 (ucast (m_hi ctx))) ctx3;
          ctx5 = md5_body (m_buffer ctx4) ctx4
      in le32 (ucast (m_a ctx5)) @ le32 (ucast (m_b ctx5)) @ le32 (ucast (m_c ctx5)) @ le32 (ucast (m_d ctx5)))"

text \<open>A digest as the callers compute it: \<open>MD5_Init\<close>, an \<open>MD5_Update\<close> per piece, \<open>MD5_Final\<close>.\<close>

definition md5_digest :: "bytes \<Rightarrow> bytes list \<Rightarrow> bytes" where
  "md5_digest junk pieces = md5_final (fold md5_update pieces (md5_init junk))"

subsection \<open>RFC 1321\<close>

type_synonym regs32 = "u32 \<times> u32 \<times> u32 \<times> u32"

definition rfc_F :: "u32 \<Rightarrow> u32 \<Rightarrow> u32 \<Rightarrow> u32" where "rfc_F x y z = (x AND y) OR (NOT x AND z)"
definition rfc_G :: "u32 \<Rightarrow> u32 \<Rightarrow> u32 \<Rightarrow> u32" where "rfc_G x y z = (x AND z) OR (y AND NOT z)"
definition rfc_H :: "u32 \<Rightarrow> u32 \<Rightarrow> u32 \<Rightarrow> u32" where "rfc_H x y z = x XOR y XOR z"
definition rfc_I :: "u32 \<Rightarrow> u32 \<Rightarrow> u32 \<Rightarrow> u32" where "rfc_I x y z = y XOR (x OR NOT z)"

definition rfc_step :: "(u32 \<Rightarrow> u32 \<Rightarrow> u32 \<Rightarrow> u32) \<Rightarrow> u32 \<Rightarrow> u32 \<Rightarrow> nat \<Rightarrow> regs32 \<Rightarrow> regs32" where
  "rfc_step f x t s r =
     (case r of (a, b, c, d) \<Rightarrow> (d, b + word_rotl s (a + f b c d + x + t), b, c))"

definition rfc_rounds :: "((u32 \<Rightarrow> u32 \<Rightarrow> u32 \<Rightarrow> u32) \<times> nat \<times> u32 \<times> nat) list" where
  "rfc_rounds = [
   (rfc_F, 0, 0xd76aa478, 7), (rfc_F, 1, 0xe8c7b756, 12), (rfc_F, 2, 0x242070db, 17), (rfc_F, 3, 0xc1bdceee, 22),
   (rfc_F, 4, 0xf57c0faf, 7), (rfc_F, 5, 0x4787c62a, 12), (rfc_F, 6, 0xa8304613, 17), (rfc_F, 7, 0xfd469501, 22),
   (rfc_F, 8, 0x698098d8, 7), (rfc_F, 9, 0x8b44f7af, 12), (rfc_F, 10, 0xffff5bb1, 17), (rfc_F, 11, 0x895cd7be, 22),
   (rfc_F, 12, 0x6b901122, 7), (rfc_F, 13, 0xfd987193, 12), (rfc_F, 14, 0xa679438e, 17), (rfc_F, 15, 0x49b40821, 22),
   (rfc_G, 1, 0xf61e2562, 5), (rfc_G, 6, 0xc040b340, 9), (rfc_G, 11, 0x265e5a51, 14), (rfc_G, 0, 0xe9b6c7aa, 20),
   (rfc_G, 5, 0xd62f105d, 5), (rfc_G, 10, 0x02441453, 9), (rfc_G, 15, 0xd8a1e681, 14), (rfc_G, 4, 0xe7d3fbc8, 20),
   (rfc_G, 9, 0x21e1cde6, 5), (rfc_G, 14, 0xc33707d6, 9), (rfc_G, 3, 0xf4d50d87, 14), (rfc_G, 8, 0x455a14ed, 20),
   (rfc_G, 13, 0xa9e3e905, 5), (rfc_G, 2, 0xfcefa3f8, 9), (rfc_G, 7, 0x676f02d9, 14), (rfc_G, 12, 0x8d2a4c8a, 20),
   (rfc_H, 5, 0xfffa3942, 4), (rfc_H, 8, 0x8771f681, 11), (rfc_H, 11, 0x6d9d6122, 16), (rfc_H, 14, 0xfde5380c, 23),
   (rfc_H, 1, 0xa4beea44, 4), (rfc_H, 4, 0x4bdecfa9, 11), (rfc_H, 7, 0xf6bb4b60, 16), (rfc_H, 10, 0xbebfbc70, 23),
   (rfc_H, 13, 0x289b7ec6, 4), (rfc_H, 0, 0xeaa127fa, 11), (rfc_H, 3, 0xd4ef3085, 16), (rfc_H, 6, 0x04881d05, 23),
   (rfc_H, 9, 0xd9d4d039, 4), (rfc_H, 12, 0xe6db99e5, 11), (rfc_H, 15, 0x1fa27cf8, 16), (rfc_H, 2, 0xc4ac5665, 23),
   (rfc_I, 0, 0xf4292244, 6), (rfc_I, 7, 0x432aff97, 10), (rfc_I, 14, 0xab9423a7, 15), (rfc_I, 5, 0xfc93a039, 21),
   (rfc_I, 12, 0x655b59c3, 6), (rfc_I, 3, 0x8f0ccc92, 10), (rfc_I, 10, 0xffeff47d, 15), (rfc_I, 1, 0x85845dd1, 21),
   (rfc_I, 8, 0x6fa87e4f, 6), (rfc_I, 15, 0xfe2ce6e0, 10), (rfc_I, 6, 0xa3014314, 15), (rfc_I, 13, 0x4e0811a1, 21),
   (rfc_I, 4, 0xf7537e82, 6), (rfc_I, 11, 0xbd3af235, 10), (rfc_I, 2, 0x2ad7d2bb, 15), (rfc_I, 9, 0xeb86d391, 21)]"

definition rfc_block :: "bytes \<Rightarrow> regs32 \<Rightarrow> regs32" where
  "rfc_block p r =
     (case r of (a, b, c, d) \<Rightarrow>
      case fold (\<lambda>(f, n, t, s). rfc_step f (of_le32 (drop (4 * n) p)) t s) rfc_rounds r of
        (a', b', c', d') \<Rightarrow> (a' + a, b' + b, c' + c, d' + d))"

function rfc_blocks :: "bytes \<Rightarrow> regs32 \<Rightarrow> regs32" where
  "rfc_blocks p r = (if length p < 64 then r else rfc_blocks (drop 64 p) (rfc_block (take 64 p) r))"
  by pat_completeness auto
termination by (relation "measure (\<lambda>(p, r). length p)") auto

declare rfc_blocks.simps [simp del]

definition rfc_pad :: "bytes \<Rightarrow> bytes" where
  "rfc_pad m = m @ [0x80] @ replicate ((119 - length m mod 64) mod 64) 0 @ le64 (of_nat (8 * length m))"

definition rfc_md5 :: "bytes \<Rightarrow> bytes" where
  "rfc_md5 m =
     (case rfc_blocks (rfc_pad m) (0x67452301, 0xefcdab89, 0x98badcfe, 0x10325476) of
        (a, b, c, d) \<Rightarrow> le32 a @ le32 b @ le32 c @ le32 d)"

subsection \<open>The words\<close>

definition low :: "u64 \<Rightarrow> u32" where "low x = ucast x"

definition low_regs :: "regs \<Rightarrow> regs32" where
  "low_regs r = (case r of (a, b, c, d) \<Rightarrow> (low a, low b, low c, low d))"

lemma low_add [simp]: "low (a + b) = low a + low b"
proof -
  have "take_bit 32 (take_bit 64 a + take_bit 64 b) = take_bit 32 (a + b)" for a b :: int
    by (subst take_bit_add [symmetric], subst (2) take_bit_add [symmetric]) simp
  then show ?thesis unfolding low_def by transfer simp
qed

lemma low_bit: "bit (low x) n \<longleftrightarrow> n < 32 \<and> bit x n"
  by (simp add: low_def bit_simps)

lemma low_F: "low (md5_F x y z) = rfc_F (low x) (low y) (low z)"
  by (rule bit_word_eqI) (auto simp: low_bit md5_F_def rfc_F_def bit_simps)

lemma low_G: "low (md5_G x y z) = rfc_G (low x) (low y) (low z)"
  by (rule bit_word_eqI) (auto simp: low_bit md5_G_def rfc_G_def bit_simps)

lemma low_H: "low (md5_H x y z) = rfc_H (low x) (low y) (low z)"
  by (rule bit_word_eqI) (auto simp: low_bit md5_H_def rfc_H_def bit_simps)

lemma low_I: "low (md5_I x y z) = rfc_I (low x) (low y) (low z)"
  by (rule bit_word_eqI) (auto simp: low_bit md5_I_def rfc_I_def bit_simps)

lemma bit_mask32: "bit (0xffffffff :: u64) n \<longleftrightarrow> n < 32"
proof -
  have eq: "(0xffffffff :: u64) = mask 32" by (simp add: mask_eq_exp_minus_1)
  show ?thesis unfolding eq by (auto simp: bit_simps)
qed

lemma low_rotl:
  assumes "0 < s" and "s < 32"
  shows "low (push_bit s a OR drop_bit (32 - s) (a AND 0xffffffff)) = word_rotl s (low a)"
proof (rule bit_word_eqI)
  fix n assume n: "n < LENGTH(32)"
  show "bit (low (push_bit s a OR drop_bit (32 - s) (a AND 0xffffffff))) n = bit (word_rotl s (low a)) n"
  proof (cases "s \<le> n")
    case True
    then have "(n + (32 - s)) mod 32 = n - s" using n assms by (simp add: mod_if)
    moreover have "\<not> bit (0xffffffff :: u64) (32 - s + n)" unfolding bit_mask32 using True by simp
    ultimately show ?thesis using True n assms by (auto simp: low_bit bit_simps bit_mask32)
  next
    case False
    then have "(n + (32 - s)) mod 32 = n + (32 - s)" using n assms by simp
    moreover have "bit (0xffffffff :: u64) (n + (32 - s))" unfolding bit_mask32 using False assms by simp
    moreover have "n + (32 - s) < 32" using False assms by linarith
    ultimately show ?thesis using False n assms
      by (simp add: low_bit bit_word_rotl_iff bit_or_iff bit_push_bit_iff bit_drop_bit_eq bit_and_iff add.commute [of "32 - s" n]
          del: add_diff_assoc add_diff_assoc2)
  qed
qed


lemma low_step:
  assumes "\<And>x y z. low (f x y z) = f' (low x) (low y) (low z)" and "low x = x'" and "low t = t'"
    and "0 < s" and "s < 32"
  shows "low_regs (md5_step f x t s r) = rfc_step f' x' t' s (low_regs r)"
proof (cases r)
  case (fields a b c d)
  have "low ((push_bit s A OR drop_bit (32 - s) (A AND 0xffffffff)) + b) = low b + word_rotl s (low A)" for A
    by (simp only: low_add low_rotl [OF assms(4,5)] add.commute)
  with assms fields show ?thesis
    by (simp add: low_regs_def md5_step_def rfc_step_def Let_def add.assoc)
qed

definition round_ok :: "(u64 \<Rightarrow> u64 \<Rightarrow> u64 \<Rightarrow> u64) \<times> nat \<times> u64 \<times> nat \<Rightarrow> (u32 \<Rightarrow> u32 \<Rightarrow> u32 \<Rightarrow> u32) \<times> nat \<times> u32 \<times> nat \<Rightarrow> bool" where
  "round_ok x y \<longleftrightarrow> (case (x, y) of ((f, n, t, s), (f', n', t', s')) \<Rightarrow>
     (\<forall>x y z. low (f x y z) = f' (low x) (low y) (low z)) \<and> n = n' \<and> n < 16 \<and> low t = t' \<and> s = s' \<and>
     0 < s \<and> s < 32)"

lemma rounds_ok: "list_all2 round_ok md5_rounds rfc_rounds"
  unfolding md5_rounds_def rfc_rounds_def
  by (simp add: round_ok_def low_F low_G low_H low_I) (simp add: low_def)

lemma low_set: "4 * n + 3 < length p \<Longrightarrow> low (md5_set p n) = of_le32 (drop (4 * n) p)"
proof -
  assume l: "4 * n + 3 < length p"
  then have "drop (4 * n) p = p ! (4 * n) # p ! (4 * n + 1) # p ! (4 * n + 2) # p ! (4 * n + 3) # drop (4 * n + 4) p"
    by (simp add: Cons_nth_drop_Suc numeral_eq_Suc)
  then show ?thesis
    by (auto simp: md5_set_def low_bit bit_simps intro!: bit_word_eqI)
qed

lemma low_fold:
  assumes "list_all2 round_ok xs ys" and "length p = 64"
  shows "low_regs (fold (\<lambda>(f, n, t, s). md5_step f (md5_set p n) t s) xs r) =
    fold (\<lambda>(f, n, t, s). rfc_step f (of_le32 (drop (4 * n) p)) t s) ys (low_regs r)"
  using assms(1)
proof (induction xs ys arbitrary: r rule: list_all2_induct)
  case (Cons x xs y ys)
  obtain f n t s f' n' t' s' where xy: "x = (f, n, t, s)" "y = (f', n', t', s')"
    by (metis prod_cases4)
  with Cons.hyps(1) have h: "\<And>x y z. low (f x y z) = f' (low x) (low y) (low z)" "n' = n" "n < 16" "low t = t'"
    "s' = s" "0 < s" "s < 32" by (simp_all add: round_ok_def)
  have "low (md5_set p n) = of_le32 (drop (4 * n) p)" using h(3) assms(2) by (intro low_set) simp
  from low_step [where f = f and f' = f', OF h(1) this h(4,6,7)] Cons.IH show ?case by (simp add: xy h(2,5))
qed simp

lemma low_block:
  assumes "length p = 64"
  shows "low_regs (md5_block p r) = rfc_block p (low_regs r)"
proof -
  obtain a b c d where r: "r = (a, b, c, d)" by (metis prod_cases4)
  obtain a' b' c' d' where f: "fold (\<lambda>(f, n, t, s). md5_step f (md5_set p n) t s) md5_rounds r = (a', b', c', d')"
    by (metis prod_cases4)
  from low_fold [OF rounds_ok assms, of r, unfolded f]
  have g: "fold (\<lambda>(f, n, t, s). rfc_step f (of_le32 (drop (4 * n) p)) t s) rfc_rounds (low a, low b, low c, low d) =
      (low a', low b', low c', low d')" by (simp add: r low_regs_def)
  show ?thesis unfolding md5_block_def rfc_block_def r low_regs_def prod.case g f [unfolded r] by simp
qed

lemma low_blocks: "low_regs (md5_blocks p r) = rfc_blocks p (low_regs r)"
proof (induction p r rule: md5_blocks.induct)
  case (1 p r)
  show ?case
  proof (cases "length p < 64")
    case True
    then show ?thesis by (subst md5_blocks.simps, subst rfc_blocks.simps) simp
  next
    case False
    then show ?thesis
      using 1 by (subst md5_blocks.simps, subst rfc_blocks.simps) (simp add: low_block)
  qed
qed


subsection \<open>Pieces and padding\<close>

definition md5_regs :: "md5_ctx \<Rightarrow> regs" where
  "md5_regs ctx = (m_a ctx, m_b ctx, m_c ctx, m_d ctx)"

definition md5_iv :: regs where
  "md5_iv = (0x67452301, 0xefcdab89, 0x98badcfe, 0x10325476)"

text \<open>The context has taken in the message \<open>m\<close>: whole blocks in the registers, the rest in the buffer.\<close>

definition buffered :: "bytes \<Rightarrow> md5_ctx \<Rightarrow> bool" where
  "buffered m ctx \<longleftrightarrow> length (m_buffer ctx) = 64 \<and> md5_regs ctx = md5_blocks m md5_iv \<and>
     take (length m mod 64) (m_buffer ctx) = drop (64 * (length m div 64)) m"

definition counted :: "nat \<Rightarrow> md5_ctx \<Rightarrow> bool" where
  "counted n ctx \<longleftrightarrow> m_lo ctx = of_nat (n mod 2 ^ 29) \<and> m_hi ctx = of_nat (n div 2 ^ 29)"

lemma md5_blocks_short: "length p < 64 \<Longrightarrow> md5_blocks p r = r"
  by (subst md5_blocks.simps) simp

lemma md5_blocks_one: "length p = 64 \<Longrightarrow> md5_blocks (p @ q) r = md5_blocks q (md5_block p r)"
  by (subst md5_blocks.simps) simp

lemma md5_blocks_append:
  "64 dvd length p \<Longrightarrow> md5_blocks (p @ q) r = md5_blocks q (md5_blocks p r)"
proof (induction p r rule: md5_blocks.induct)
  case (1 p r)
  show ?case
  proof (cases "p = []")
    case True
    then show ?thesis by (simp add: md5_blocks_short)
  next
    case False
    with 1(2) have l: "64 \<le> length p" by (auto dest: dvd_imp_le)
    have "64 dvd length (drop 64 p)" using 1(2) l by simp
    with 1(1) l have IH: "md5_blocks (drop 64 p @ q) (md5_block (take 64 p) r) =
        md5_blocks q (md5_blocks (drop 64 p) (md5_block (take 64 p) r))" by simp
    have "p @ q = take 64 p @ (drop 64 p @ q)" by (simp only: append_assoc [symmetric] append_take_drop_id)
    then have "md5_blocks (p @ q) r = md5_blocks (take 64 p @ (drop 64 p @ q)) r" by (rule arg_cong)
    also have "\<dots> = md5_blocks (drop 64 p @ q) (md5_block (take 64 p) r)"
      using l by (intro md5_blocks_one) simp
    also have "\<dots> = md5_blocks q (md5_blocks p r)"
      unfolding IH using l by (subst (3) md5_blocks.simps) simp
    finally show ?thesis .
  qed
qed

lemma body_regs [simp]:
  "md5_regs (md5_body p ctx) = md5_blocks p (md5_regs ctx)" "m_buffer (md5_body p ctx) = m_buffer ctx"
  "m_lo (md5_body p ctx) = m_lo ctx" "m_hi (md5_body p ctx) = m_hi ctx"
  by (simp_all add: md5_body_def md5_regs_def split: prod.split)

lemma write_regs [simp]:
  "md5_regs (buf_write i src ctx) = md5_regs ctx" "m_lo (buf_write i src ctx) = m_lo ctx"
  "m_hi (buf_write i src ctx) = m_hi ctx" "m_buffer (buf_write i src ctx) = memcpy_at i src (m_buffer ctx)"
  by (simp_all add: buf_write_def md5_regs_def)

lemma memcpy_at:
  "i + length src \<le> length buf \<Longrightarrow> length (memcpy_at i src buf) = length buf"
  "i + length src \<le> length buf \<Longrightarrow> take (i + length src) (memcpy_at i src buf) = take i buf @ src"
  by (simp_all add: memcpy_at_def)

text \<open>A message is its whole blocks and a rest that the buffer holds.\<close>

lemma split_message:
  fixes m :: bytes
  obtains h t where "m = h @ t" and "64 dvd length h" and "length t < 64" and "length m mod 64 = length t"
    and "drop (64 * (length m div 64)) m = t"
proof (rule that [of "take (64 * (length m div 64)) m" "drop (64 * (length m div 64)) m"])
  show "length (drop (64 * (length m div 64)) m) < 64" "length m mod 64 = length (drop (64 * (length m div 64)) m)"
    by (simp_all add: minus_mult_div_eq_mod)
  have "64 * (length m div 64) \<le> length m" by simp
  then show "64 dvd length (take (64 * (length m div 64)) m)" by (simp only: length_take min.absorb2 dvd_triv_left)
qed simp_all

lemma drop_rest:
  assumes "64 dvd length h" and "length t < 64"
  shows "drop (64 * (length (h @ t) div 64)) (h @ t) = t \<and> length (h @ t) mod 64 = length t"
proof -
  from assms(1) obtain k where k: "length h = 64 * k" by (elim dvdE)
  with assms(2) show ?thesis by simp
qed

lemma bufferedI:
  assumes "m = h @ t" and "64 dvd length h" and "length t < 64" and "length (m_buffer ctx) = 64"
    and "md5_regs ctx = md5_blocks h md5_iv" and "take (length t) (m_buffer ctx) = t"
  shows "buffered m ctx"
  using assms drop_rest [OF assms(2,3)] by (simp add: buffered_def md5_blocks_append md5_blocks_short)

lemma bufferedE:
  assumes "buffered m ctx"
  obtains h t where "m = h @ t" and "64 dvd length h" and "length t < 64" and "length m mod 64 = length t"
    and "length (m_buffer ctx) = 64" and "md5_regs ctx = md5_blocks h md5_iv"
    and "take (length t) (m_buffer ctx) = t"
proof -
  obtain h t where s: "m = h @ t" "64 dvd length h" "length t < 64" "length m mod 64 = length t"
    "drop (64 * (length m div 64)) m = t" using split_message [of m] by blast
  from assms s that show ?thesis by (simp add: buffered_def md5_blocks_append md5_blocks_short)
qed

lemma buffered_rest:
  assumes "buffered m ctx" and "64 dvd length m"
  shows "buffered (m @ dat) (md5_update_rest dat ctx)"
proof -
  have m: "length (m_buffer ctx) = 64" "md5_regs ctx = md5_blocks m md5_iv" using assms by (simp_all add: buffered_def)
  let ?n = "64 * (length dat div 64)"
  let ?c = "md5_body (take ?n dat) ctx"
  have n: "?n \<le> length dat" "length (drop ?n dat) < 64" by (simp_all add: minus_mult_div_eq_mod)
  have d: "64 dvd length (m @ take ?n dat)" using assms(2) n(1)
    by (simp only: length_append length_take min.absorb2 dvd_add dvd_triv_left)
  have rest: "md5_update_rest dat ctx = buf_write 0 (drop ?n dat) ?c"
  proof (cases "64 \<le> length dat")
    case False
    then have "?n = 0" by simp
    with False show ?thesis by (simp add: md5_update_rest_def Let_def md5_body_def md5_blocks_short)
  qed (simp add: md5_update_rest_def Let_def)
  show ?thesis
  proof (rule bufferedI [OF _ d n(2)])
    show "m @ dat = (m @ take ?n dat) @ drop ?n dat" by simp
    show "md5_regs (md5_update_rest dat ctx) = md5_blocks (m @ take ?n dat) md5_iv"
      unfolding rest using m assms(2) by (simp add: md5_blocks_append)
    show "length (m_buffer (md5_update_rest dat ctx)) = 64"
      unfolding rest using m(1) n(2) by (simp add: memcpy_at(1))
    show "take (length (drop ?n dat)) (m_buffer (md5_update_rest dat ctx)) = drop ?n dat"
      unfolding rest using memcpy_at(2) [of 0 "drop ?n dat" "m_buffer ctx"] m(1) n(2) by simp
  qed
qed

lemma buffered_count [simp]: "buffered m (md5_count n ctx) = buffered m ctx"
  by (simp add: buffered_def md5_count_def md5_regs_def Let_def)

lemma unat_and_mask: "unat (w AND mask k :: u64) = unat w mod 2 ^ k"
  by (simp only: take_bit_eq_mask [symmetric] unsigned_take_bit_eq) (rule take_bit_eq_mod)

lemma down_of_nat: "(ucast (of_nat k :: u64) :: u32) = of_nat k"
  by transfer simp

lemma counted_used:
  assumes "counted (length m) ctx"
  shows "unat (m_lo ctx AND 0x3f) = length m mod 64"
proof -
  have eq: "(0x3f :: u64) = mask 6" by (simp add: mask_eq_exp_minus_1)
  have "unat (m_lo ctx AND 0x3f) = unat (m_lo ctx) mod 64"
    unfolding eq unat_and_mask by simp
  also have "unat (m_lo ctx) = length m mod 2 ^ 29"
  proof -
    have "length m mod 2 ^ 29 < 2 ^ 64" by (rule less_trans [OF mod_less_divisor]) simp_all
    with assms show ?thesis unfolding counted_def by (simp only: unat_of_nat) simp
  qed
  also have "length m mod 2 ^ 29 mod 64 = length m mod 64" by (simp add: mod_mod_cancel)
  finally show ?thesis .
qed

lemma update_buffered:
  assumes "buffered m ctx" and "counted (length m) ctx"
  shows "buffered (m @ dat) (md5_update dat ctx)"
proof -
  obtain h t where s: "m = h @ t" "64 dvd length h" "length t < 64" "length m mod 64 = length t"
    "length (m_buffer ctx) = 64" "md5_regs ctx = md5_blocks h md5_iv" "take (length t) (m_buffer ctx) = t"
    using bufferedE [OF assms(1)] by blast
  have used: "unat (m_lo ctx AND 0x3f) = length t" using counted_used [OF assms(2)] s(4) by simp
  let ?c = "md5_count (length dat) ctx"
  have c: "m_buffer ?c = m_buffer ctx" "md5_regs ?c = md5_regs ctx"
    by (simp_all add: md5_count_def md5_regs_def Let_def)
  consider "length t = 0" | "length t \<noteq> 0" "length dat < 64 - length t" | "length t \<noteq> 0" "64 - length t \<le> length dat"
    by linarith
  then show ?thesis
  proof cases
    case 1
    then show ?thesis using buffered_rest [of m ?c dat] assms(1) s(1,2) used
      by (simp add: md5_update_def Let_def)
  next
    case 2
    then have u: "md5_update dat ctx = buf_write (length t) dat ?c" using used by (simp add: md5_update_def Let_def)
    show ?thesis unfolding u
      by (rule bufferedI [of _ h "t @ dat"]) (use 2 s c in \<open>simp_all add: memcpy_at\<close>)
  next
    case 3
    let ?f = "64 - length t"
    let ?c2 = "buf_write (length t) (take ?f dat) ?c"
    have f: "length (take ?f dat) = ?f" using 3(2) by simp
    have b: "m_buffer ?c2 = t @ take ?f dat"
      using memcpy_at(2) [of "length t" "take ?f dat" "m_buffer ctx"] memcpy_at(1) [of "length t" "take ?f dat" "m_buffer ctx"]
        s(3,5,7) f c by simp
    have u: "md5_update dat ctx = md5_update_rest (drop ?f dat) (md5_body (m_buffer ?c2) ?c2)"
      using used 3 by (simp add: md5_update_def Let_def)
    have d: "64 dvd length (m @ take ?f dat)" using s(1,2,3) f by simp
    have "buffered (m @ take ?f dat) (md5_body (m_buffer ?c2) ?c2)"
    proof (rule bufferedI [of _ "m @ take ?f dat" "[]"])
      show "md5_regs (md5_body (m_buffer ?c2) ?c2) = md5_blocks (m @ take ?f dat) md5_iv"
        using s c b by (simp add: md5_blocks_append)
    qed (use d b s f in simp_all)
    from buffered_rest [OF this d, of "drop ?f dat"] show ?thesis unfolding u by simp
  qed
qed


lemma carry_iff:
  fixes a b M :: nat
  assumes "a < M" and "b < M"
  shows "(a + b) mod M < a \<longleftrightarrow> M \<le> a + b"
proof (cases "M \<le> a + b")
  case True
  with assms have "(a + b) mod M = a + b - M" by (simp add: le_mod_geq)
  with True assms show ?thesis by linarith
qed simp

lemma carry_div:
  fixes a b M :: nat
  assumes "a < M" and "b < M"
  shows "(a + b) div M = (if M \<le> a + b then 1 else 0)"
  using assms by (auto simp: le_div_geq)

lemma count_update:
  assumes "counted n ctx" and "len < 2 ^ 64"
  shows "counted (n + len) (md5_count len ctx)"
proof -
  let ?M = "2 ^ 29 :: nat"
  have M: "(0x1fffffff :: u64) = mask 29" by (simp add: mask_eq_exp_minus_1)
  have small: "unat (of_nat (k mod ?M) :: u64) = k mod ?M" for k
  proof -
    have "k mod ?M < 2 ^ 64" by (rule less_trans [OF mod_less_divisor]) simp_all
    then show ?thesis by (simp only: unat_of_nat) simp
  qed
  have lo: "(m_lo ctx + of_nat len) AND 0x1fffffff = (of_nat ((n + len) mod ?M) :: u64)"
  proof (rule word_unat_eq_iff [THEN iffD2])
    have "m_lo ctx + of_nat len = (of_nat (n mod ?M + len) :: u64)" using assms(1) by (simp add: counted_def)
    then have "unat ((m_lo ctx + of_nat len) AND 0x1fffffff) = unat (of_nat (n mod ?M + len) :: u64) mod ?M"
      unfolding M unat_and_mask by simp
    also have "\<dots> = (n mod ?M + len) mod ?M"
      by (simp only: unat_of_nat) (simp add: mod_mod_cancel)
    also have "\<dots> = (n + len) mod ?M" by (simp add: mod_simps)
    finally show "unat ((m_lo ctx + of_nat len) AND 0x1fffffff) = unat (of_nat ((n + len) mod ?M) :: u64)"
      unfolding small .
  qed
  have saved: "unat (m_lo ctx) = n mod ?M" using assms(1) small by (simp add: counted_def)
  have less: "of_nat ((n + len) mod ?M) < m_lo ctx \<longleftrightarrow> ?M \<le> n mod ?M + len mod ?M"
  proof -
    have "of_nat ((n + len) mod ?M) < m_lo ctx \<longleftrightarrow> (n + len) mod ?M < n mod ?M"
      by (simp only: word_less_nat_alt small saved)
    also have "\<dots> \<longleftrightarrow> (n mod ?M + len mod ?M) mod ?M < n mod ?M" by (simp only: mod_add_eq)
    also have "(n mod ?M + len mod ?M) mod ?M < n mod ?M \<longleftrightarrow> ?M \<le> n mod ?M + len mod ?M"
      by (rule carry_iff) simp_all
    finally show ?thesis .
  qed
  have size: "drop_bit 29 (of_nat len :: u64) = of_nat (len div ?M)"
  proof (rule word_unat_eq_iff [THEN iffD2])
    have "unat (of_nat len :: u64) = len" using assms(2) by (simp only: unat_of_nat) simp
    then have "unat (drop_bit 29 (of_nat len :: u64)) = len div ?M"
      using assms(2) by (simp only: unsigned_drop_bit_eq) (simp add: drop_bit_eq_div take_bit_eq_mod)
    moreover have "len div ?M < 2 ^ 64" using assms(2) by (rule le_less_trans [OF div_le_dividend])
    ultimately show "unat (drop_bit 29 (of_nat len :: u64)) = unat (of_nat (len div ?M) :: u64)"
      by (simp only: unat_of_nat) simp
  qed
  have "(n + len) div ?M = n div ?M + len div ?M + (if ?M \<le> n mod ?M + len mod ?M then 1 else 0)"
  proof -
    have "(n mod ?M + len mod ?M) div ?M = (if ?M \<le> n mod ?M + len mod ?M then 1 else 0)"
      by (rule carry_div) simp_all
    then show ?thesis by (simp only: div_add1_eq [of n len])
  qed
  then show ?thesis
    using assms(1) unfolding counted_def md5_count_def Let_def lo less size by simp
qed

lemma counted_simps [simp]:
  "counted n (buf_write i src ctx) = counted n ctx" "counted n (md5_body p ctx) = counted n ctx"
  by (simp_all add: counted_def)

lemma counted_rest [simp]: "counted n (md5_update_rest dat ctx) = counted n ctx"
  by (simp add: md5_update_rest_def Let_def)

lemma update_counted:
  assumes "counted n ctx" and "length dat < 2 ^ 64"
  shows "counted (n + length dat) (md5_update dat ctx)"
  using count_update [OF assms] by (simp add: md5_update_def Let_def)

lemma fold_update:
  assumes "buffered m ctx" and "counted (length m) ctx" and "\<forall>p \<in> set ps. length p < 2 ^ 64"
  shows "buffered (m @ concat ps) (fold md5_update ps ctx) \<and>
    counted (length (m @ concat ps)) (fold md5_update ps ctx)"
  using assms
proof (induction ps arbitrary: m ctx)
  case (Cons p ps)
  from Cons.IH [OF update_buffered [OF Cons.prems(1,2), of p], of] update_counted [OF Cons.prems(2), of p] Cons.prems(3)
  show ?case by simp
qed simp

lemma length_field:
  assumes "counted n ctx"
  shows "le32 (ucast (push_bit 3 (m_lo ctx))) @ le32 (ucast (m_hi ctx)) = le64 (of_nat (8 * n))"
proof -
  let ?M = "2 ^ 29 :: nat"
  have 1: "(ucast (push_bit 3 (m_lo ctx)) :: u32) = ucast (of_nat (8 * n) :: u64)"
  proof -
    have "push_bit 3 (m_lo ctx) = (of_nat (8 * (n mod ?M)) :: u64)"
      using assms by (simp add: counted_def push_bit_eq_mult)
    moreover have "(of_nat (8 * (n mod ?M)) :: u32) = of_nat (8 * n)"
    proof -
      have "8 * (n mod ?M) mod 2 ^ 32 = 8 * n mod 2 ^ 32"
        by (simp add: mult_mod_right)
      then show ?thesis by (simp only: word_unat_eq_iff unat_of_nat) simp
    qed
    ultimately show ?thesis by (simp only: down_of_nat)
  qed
  have 2: "(ucast (m_hi ctx) :: u32) = ucast (drop_bit 32 (of_nat (8 * n) :: u64))"
  proof (rule bit_word_eqI)
    fix i assume "i < LENGTH(32)"
    moreover have "m_hi ctx = of_nat (drop_bit 29 n)" using assms by (simp add: counted_def drop_bit_eq_div)
    moreover have "8 * n = push_bit 3 n" by (simp add: push_bit_eq_mult)
    ultimately show "bit (ucast (m_hi ctx) :: u32) i = bit (ucast (drop_bit 32 (of_nat (8 * n) :: u64)) :: u32) i"
      by (simp only: bit_simps) (simp add: bit_simps add.commute)
  qed
  show ?thesis by (simp only: le64_def 1 2)
qed


lemma md5_blocks_64: "length p = 64 \<Longrightarrow> md5_blocks p r = md5_block p r"
  using md5_blocks_one [of p "[]" r] by (simp add: md5_blocks_short)

text \<open>Finishing: the padding of RFC 1321 fills the buffer once or twice.\<close>

lemma final_blocks:
  assumes "buffered m ctx" and "counted (length m) ctx"
  shows "md5_final ctx =
    (case md5_blocks (rfc_pad m) md5_iv of (a, b, c, d) \<Rightarrow>
       le32 (low a) @ le32 (low b) @ le32 (low c) @ le32 (low d))"
proof -
  obtain h t where s: "m = h @ t" "64 dvd length h" "length t < 64" "length m mod 64 = length t"
    "length (m_buffer ctx) = 64" "md5_regs ctx = md5_blocks h md5_iv" "take (length t) (m_buffer ctx) = t"
    using bufferedE [OF assms(1)] by blast
  have used: "unat (m_lo ctx AND 0x3f) = length t" using counted_used [OF assms(2)] s(4) by simp
  let ?L = "le64 (of_nat (8 * length m))" and ?n = "length t"
  let ?c1 = "buf_write ?n [0x80] ctx"
  have c1: "take (?n + 1) (m_buffer ?c1) = t @ [0x80]" "length (m_buffer ?c1) = 64"
    using memcpy_at(2) [of ?n "[0x80]" "m_buffer ctx"] memcpy_at(1) [of ?n "[0x80]" "m_buffer ctx"] s(3,5,7) by simp_all
  have out: "md5_final ctx = (case md5_regs ctx5 of (a, b, c, d) \<Rightarrow>
       le32 (low a) @ le32 (low b) @ le32 (low c) @ le32 (low d))"
    if "md5_final ctx = le32 (ucast (m_a ctx5)) @ le32 (ucast (m_b ctx5)) @ le32 (ucast (m_c ctx5)) @ le32 (ucast (m_d ctx5))"
    for ctx5 using that by (simp add: md5_regs_def low_def)
  have fill: "m_buffer (buf_write 56 ?L (buf_write i (replicate (56 - i) 0) c)) = p @ replicate (56 - i) 0 @ ?L"
    if "take i (m_buffer c) = p" "length (m_buffer c) = 64" "i \<le> 56" for i c p
  proof -
    let ?b = "memcpy_at i (replicate (56 - i) 0) (m_buffer c)"
    have b: "take 56 ?b = p @ replicate (56 - i) 0" "length ?b = 64"
      using memcpy_at(2) [of i "replicate (56 - i) 0" "m_buffer c"] memcpy_at(1) [of i "replicate (56 - i) 0" "m_buffer c"] that
      by simp_all
    then show ?thesis by (simp add: memcpy_at_def)
  qed
  note len = length_field [OF assms(2)]
  show ?thesis
  proof (cases "?n \<le> 55")
    case True
    let ?c4 = "buf_write 56 ?L (buf_write (?n + 1) (replicate (56 - (?n + 1)) 0) ?c1)"
    have fr: "64 - (?n + 1) - 8 = 56 - (?n + 1)" by simp
    have ns: "\<not> 64 - (?n + 1) < 8" using True by simp
    have buf: "m_buffer ?c4 = (t @ [0x80]) @ replicate (56 - (?n + 1)) 0 @ ?L"
      by (rule fill [OF c1]) (use True in simp)
    have pad: "rfc_pad m = h @ m_buffer ?c4"
    proof -
      have "(119 - ?n) mod 64 = 56 - (?n + 1)" using True by (simp add: mod_if)
      then show ?thesis unfolding buf rfc_pad_def s(4) by (simp add: s(1))
    qed
    have "md5_final ctx = (case md5_regs (md5_body (m_buffer ?c4) ?c4) of (a, b, c, d) \<Rightarrow>
       le32 (low a) @ le32 (low b) @ le32 (low c) @ le32 (low d))"
      by (rule out) (use True in \<open>simp only: md5_final_def Let_def used len fr ns prod.case if_False\<close>)
    moreover have "md5_regs (md5_body (m_buffer ?c4) ?c4) = md5_blocks (rfc_pad m) md5_iv"
      unfolding pad using s(2,6) by (simp add: md5_blocks_append)
    ultimately show ?thesis by simp
  next
    case False
    let ?f = "64 - (?n + 1)"
    let ?c = "buf_write (?n + 1) (replicate ?f 0) ?c1"
    let ?c2 = "md5_body (m_buffer ?c) ?c"
    let ?c4 = "buf_write 56 ?L (buf_write 0 (replicate (56 - 0) 0) ?c2)"
    have b: "m_buffer ?c = (t @ [0x80]) @ replicate ?f 0"
      using memcpy_at(2) [of "?n + 1" "replicate ?f 0" "m_buffer ?c1"] memcpy_at(1) [of "?n + 1" "replicate ?f 0" "m_buffer ?c1"]
        c1 s(3) by simp
    have buf: "m_buffer ?c4 = [] @ replicate (56 - 0) 0 @ ?L"
      by (rule fill) (use b s(3) in simp_all)
    have pad: "rfc_pad m = h @ m_buffer ?c @ m_buffer ?c4"
    proof -
      have "(119 - ?n) mod 64 = 119 - ?n" using False s(3) by simp
      also have "\<dots> = ?f + (56 - 0)" using False s(3) by simp
      finally have z: "replicate ((119 - ?n) mod 64) (0 :: u8) = replicate ?f 0 @ replicate (56 - 0) 0"
        by (simp only: replicate_add)
      show ?thesis unfolding buf unfolding b rfc_pad_def s(4) z by (simp only: s(1) append_assoc append_Nil)
    qed
    have small: "?f < 8" using False by simp
    have e1: "(64::nat) - 8 = 56 - 0" by simp
    have "md5_final ctx = (case md5_regs (md5_body (m_buffer ?c4) ?c4) of (a, b, c, d) \<Rightarrow>
       le32 (low a) @ le32 (low b) @ le32 (low c) @ le32 (low d))"
      by (rule out) (simp only: md5_final_def Let_def used len small prod.case if_True e1)
    moreover have "md5_regs (md5_body (m_buffer ?c4) ?c4) = md5_blocks (rfc_pad m) md5_iv"
    proof -
      have "length (m_buffer ?c) = 64" unfolding b using s(3) by simp
      then have "md5_blocks (h @ m_buffer ?c @ m_buffer ?c4) md5_iv =
          md5_blocks (m_buffer ?c4) (md5_blocks (m_buffer ?c) (md5_blocks h md5_iv))"
        using s(2) by (simp only: md5_blocks_append dvd_refl)
      then show ?thesis unfolding pad by (simp only: body_regs write_regs s(6))
    qed
    ultimately show ?thesis by simp
  qed
qed

lemma md5_digest_eq:
  assumes "length junk = 64" and "\<forall>p \<in> set pieces. length p < 2 ^ 64"
  shows "md5_digest junk pieces = rfc_md5 (concat pieces)"
proof -
  let ?m = "concat pieces" and ?c = "fold md5_update pieces (md5_init junk)"
  have "buffered [] (md5_init junk)" "counted (length []) (md5_init junk)"
    using assms(1) by (simp_all add: buffered_def counted_def md5_init_def md5_regs_def md5_iv_def md5_blocks_short)
  from fold_update [OF this assms(2)] have b: "buffered ?m ?c" "counted (length ?m) ?c" by simp_all
  have iv: "low_regs md5_iv = (0x67452301, 0xefcdab89, 0x98badcfe, 0x10325476)"
    by (simp add: low_regs_def md5_iv_def low_def)
  obtain a b' c d where r: "md5_blocks (rfc_pad ?m) md5_iv = (a, b', c, d)" by (metis prod_cases4)
  from low_blocks [of "rfc_pad ?m" md5_iv, unfolded iv r]
  have "rfc_blocks (rfc_pad ?m) (0x67452301, 0xefcdab89, 0x98badcfe, 0x10325476) = (low a, low b', low c, low d)"
    by (simp add: low_regs_def)
  then show ?thesis by (simp add: md5_digest_def final_blocks [OF b] r rfc_md5_def)
qed

text \<open>
  C14: the digest is that of RFC 1321. However a message is cut into pieces, the digest computed
  from them is the RFC's digest of the whole message, whatever the buffer held before.
\<close>

theorem md5_digest_rfc:
  assumes "length junk = 64" and "\<forall>p \<in> set pieces. length p < 2 ^ 64"
  shows "md5_digest junk pieces = rfc_md5 (concat pieces)"
  by (rule md5_digest_eq [OF assms])

lemma md5_digest_rfc_witness:
  "md5_digest (replicate 64 7) [[1, 2], [], [3]] = md5_digest (replicate 64 9) [[1], [2, 3]]"
  using md5_digest_rfc [of "replicate 64 7" "[[1, 2], [], [3]]"] md5_digest_rfc [of "replicate 64 9" "[[1], [2, 3]]"]
  by simp

end
