(* ===== verification/Radius.thy ===== *)
theory Radius
  imports World Md5 AclText
begin

text \<open>
  RADIUS packets (\<^verbatim>\<open>src/radius.c\<close>): the requests that \<open>radiussend\<close> builds, with the hiding of the
  password, the authenticator of \<open>calc_auth\<close>, and \<open>rad_tunnel_pwdecode\<close>. A packet is the list of the
  bytes that are sent; the host is little-endian.
\<close>

subsection \<open>Digests\<close>

text \<open>The digest does not depend on what the uninitialised buffer of \<open>MD5_CTX\<close> held (\<open>md5_digest_eq\<close>).\<close>

definition md5 :: "bytes list \<Rightarrow> bytes" where
  "md5 pieces = md5_digest (replicate 64 0) pieces"

definition chars :: "string \<Rightarrow> bytes" where
  "chars s = map of_char s"

definition calc_auth :: "bytes \<Rightarrow> bytes \<Rightarrow> bytes \<Rightarrow> bytes" where
  "calc_auth secret buf in_auth = md5 [take 4 buf, in_auth, drop 20 buf, secret]"

subsection \<open>Attributes\<close>

text \<open>
  An attribute is written at \<open>p\<close> (type, length, value) and \<open>p\<close> advances by the length byte: of what was
  written, that many bytes stay in the packet.
\<close>

definition rad_put :: "u8 \<Rightarrow> u8 \<Rightarrow> bytes \<Rightarrow> bytes" where
  "rad_put ty l val = take (unat l) (ty # l # val)"

definition rad_int :: "u8 \<Rightarrow> u32 \<Rightarrow> bytes" where
  "rad_int ty x = rad_put ty 6 (be32 x)"

definition rad_str :: "u8 \<Rightarrow> bytes \<Rightarrow> bytes" where
  "rad_str ty val = rad_put ty (of_nat (length val) + 2) val"

text \<open>\<open>htonl\<close> on a little-endian host, read back as an integer.\<close>

definition htonl :: "u32 \<Rightarrow> u32" where
  "htonl x = of_le32 (be32 x)"

definition hex_digit :: "nat \<Rightarrow> char" where
  "hex_digit n = (if n < 10 then char_of (48 + n) else char_of (55 + n))"

definition hex8 :: "u32 \<Rightarrow> string" where
  "hex8 x = map (\<lambda>k. hex_digit (unat (drop_bit k x AND 15))) [28, 24, 20, 16, 12, 8, 4, 0]"

definition show_int :: "int \<Rightarrow> string" where
  "show_int i = (if i < 0 then CHR ''-'' # dec (nat (- i)) else dec (nat i))"

subsection \<open>Hiding the password\<close>

text \<open>
  The password is padded to whole blocks of 16 and each block is masked in place with a digest of
  the secret and the block before it, which is already masked; the first with the authenticator.
\<close>

definition pad16 :: "bytes \<Rightarrow> bytes" where
  "pad16 p = p @ replicate ((16 - length p mod 16) mod 16) 0"

function hide_blocks :: "bytes \<Rightarrow> bytes \<Rightarrow> bytes \<Rightarrow> bytes" where
  "hide_blocks secret prev pass =
     (if pass = [] then []
      else
        let c = map2 (XOR) (take 16 pass) (md5 [secret, prev])
        in c @ hide_blocks secret c (drop 16 pass))"
  by pat_completeness auto
termination by (relation "measure (\<lambda>(secret, prev, pass). length pass)") auto

declare hide_blocks.simps [simp del]

definition hide_password :: "bytes \<Rightarrow> bytes \<Rightarrow> bytes \<Rightarrow> bytes" where
  "hide_password secret auth pass = hide_blocks secret auth (pad16 (takeWhile (\<lambda>c. c \<noteq> 0) pass))"

subsection \<open>Requests\<close>

definition AccessRequest :: u8 where "AccessRequest = 1"
definition AccessAccept :: u8 where "AccessAccept = 2"
definition AccessReject :: u8 where "AccessReject = 3"
definition AccountingRequest :: u8 where "AccountingRequest = 4"
definition AccountingResponse :: u8 where "AccountingResponse = 5"

definition auth_state :: "radius_state \<Rightarrow> bool" where
  "auth_state st \<longleftrightarrow> st = RADIUSAUTH \<or> st = RADIUSJUSTAUTH"

definition auth_attrs :: "bytes \<Rightarrow> radiust \<Rightarrow> bytes" where
  "auth_attrs secret rd =
     (if rd_chap rd \<noteq> 0
      then rad_put 3 19 (rd_id rd # take 16 (rd_pass rd)) @ rad_put 60 18 (rd_auth rd)
      else rad_str 2 (hide_password secret (rd_auth rd) (rd_pass rd)))"

definition term_attrs :: "radiust \<Rightarrow> bytes" where
  "term_attrs rd =
     (if rd_term_cause rd = 0 then []
      else rad_int 49 (of_nat (rd_term_cause rd)) @
        (case rd_term_msg rd of
           None \<Rightarrow> []
         | Some msg \<Rightarrow>
             let av = chars (''disc-cause-ext='' @ msg); l = 2 + of_nat (length av) :: u8
             in rad_put 26 (l + 6) (be32 9 @ [1, l] @ av)))"

definition acct_type :: "radius_state \<Rightarrow> u32" where
  "acct_type st = (case st of RADIUSSTART \<Rightarrow> 1 | RADIUSSTOP \<Rightarrow> 2 | _ \<Rightarrow> 3)"

text \<open>
  \<open>plugins\<close> is what the hooks \<open>plugin_radius_account\<close> append. Only \<open>radiussend\<close> itself is part of this
  definition; \<open>has_session\<close> is the test of \<open>s\<close>.
\<close>

definition acct_attrs :: "(sessiont \<Rightarrow> bytes) \<Rightarrow> radius_state \<Rightarrow> u32 \<Rightarrow> bool \<Rightarrow> sessiont \<Rightarrow> radiust \<Rightarrow> bytes" where
  "acct_attrs plugins st now has_session sess rd =
     rad_int 40 (acct_type st) @
     (if \<not> has_session then []
      else
        rad_put 44 18 (chars (hex8 (s_unique_id sess) @ hex8 (s_opened sess))) @
        (if st = RADIUSSTART then rad_int 41 (now - s_opened sess)
         else
           rad_int 42 (s_cin sess) @ rad_int 43 (s_cout sess) @ rad_int 46 (now - s_opened sess) @
           rad_int 47 (s_pin sess) @ rad_int 48 (s_pout sess) @ rad_int 52 (s_cin_wrap sess) @
           rad_int 53 (s_cout_wrap sess) @ (if st = RADIUSSTOP then term_attrs rd else [])) @
        (if s_class sess \<noteq> [] then rad_str 25 (s_class sess) else []) @
        plugins sess)"

fun route_attrs :: "sessiont \<Rightarrow> nat list \<Rightarrow> bytes" where
  "route_attrs sess [] = []"
| "route_attrs sess (i # is) =
     (if rt_ip (s_route sess i) = 0 then []
      else rad_str 22 (chars (inet_ntoa (rt_ip (s_route sess i)) @ ''/'' @ show_int (rt_prefixlen (s_route sess i)) @
             '' '' @ inet_ntoa (s_ip sess) @ '' 1'')) @ route_attrs sess is)"

definition session_attrs :: "radius_state \<Rightarrow> sessionidt \<Rightarrow> sessiont \<Rightarrow> bytes" where
  "session_attrs st s sess =
     rad_int 5 (of_nat s) @
     rad_int 6 (if st = RADIUSJUSTAUTH then 8 else 2) @
     rad_put 7 (ucast (htonl (if st = RADIUSJUSTAUTH then 0 else 6)))
       (be32 (if st = RADIUSJUSTAUTH then 0 else 1)) @
     (if s_ip sess \<noteq> 0 then rad_int 8 (s_ip sess) else []) @
     route_attrs sess [0..<MAXROUTE] @
     (if s_session_timeout sess \<noteq> 0 then rad_int 27 (s_session_timeout sess) else []) @
     (if s_idle_timeout sess \<noteq> 0 then rad_int 28 (s_idle_timeout sess) else []) @
     (if s_called sess \<noteq> [] then rad_str 30 (chars (s_called sess)) else []) @
     (if s_calling sess \<noteq> [] then rad_str 31 (chars (s_calling sess)) else [])"

definition radius_attrs :: "configt \<Rightarrow> radius_state \<Rightarrow> u32 \<Rightarrow> sessiont \<Rightarrow> radiust \<Rightarrow> bytes" where
  "radius_attrs cfg st now sess rd =
     (let s = rd_session rd in
      (if s \<noteq> 0 then rad_str 1 (chars (s_user sess)) else []) @
      (if auth_state st then auth_attrs (cf_radiussecret cfg) rd
       else acct_attrs (cf_plugin_radius_account cfg) st now (s \<noteq> 0) sess rd) @
      (if s \<noteq> 0 then session_attrs st s sess else []) @
      rad_int 4 (cf_bind_address cfg))"

definition radius_packet :: "configt \<Rightarrow> nat \<Rightarrow> radius_state \<Rightarrow> u32 \<Rightarrow> sessiont \<Rightarrow> radiust \<Rightarrow> bytes" where
  "radius_packet cfg r st now sess rd =
     (let attrs = radius_attrs cfg st now sess rd;
          head = [if auth_state st then AccessRequest else AccountingRequest, of_nat (r div 64)] @
                 be16 (of_nat (20 + length attrs));
          b = head @ rd_auth rd @ attrs
      in if auth_state st then b
         else head @ calc_auth (cf_radiussecret cfg) b (replicate 16 0) @ attrs)"

subsection \<open>Tunnel passwords\<close>

text \<open>
  \<open>rad_tunnel_pwdecode\<close>: salt, then masked blocks whose first plain octet is the length. It writes
  the plain text over the buffer it reads, three octets behind. \<open>buf\<close> is the buffer from the salt on,
  up to its length; \<open>None\<close> is the return value 0. The code masks whole blocks: when the attribute does
  not end with one it also reads and writes the octets behind it, which it does not use.
\<close>

function decode_blocks :: "bytes \<Rightarrow> bytes list \<Rightarrow> bytes \<Rightarrow> bytes" where
  "decode_blocks secret prev c =
     (if c = [] then []
      else map2 (XOR) (take 16 c) (md5 (secret # prev)) @ decode_blocks secret [take 16 c] (drop 16 c))"
  by pat_completeness auto
termination by (relation "measure (\<lambda>(secret, prev, c). length c)") auto

declare decode_blocks.simps [simp del]

definition rad_tunnel_pwdecode :: "bytes \<Rightarrow> bytes \<Rightarrow> bytes \<Rightarrow> bytes option" where
  "rad_tunnel_pwdecode buf secret auth =
     (if length buf \<le> 3 then None
      else
        let c = drop 2 buf;
            plain = decode_blocks secret [auth, take 2 buf] c;
            n = unat (hd plain)
        in if n \<ge> length c then None
           else if n = 0 then None
           else Some (take (min n 239) (tl plain)))"

subsection \<open>The password arrives\<close>

text \<open>The digest as RFC 1321 computes it, and what RFC 2865 and RFC 2868 prescribe.\<close>

function rfc2865_unhide :: "bytes \<Rightarrow> bytes \<Rightarrow> bytes \<Rightarrow> bytes" where
  "rfc2865_unhide secret prev c =
     (if c = [] then []
      else map2 (XOR) (take 16 c) (rfc_md5 (secret @ prev)) @ rfc2865_unhide secret (take 16 c) (drop 16 c))"
  by pat_completeness auto
termination by (relation "measure (\<lambda>(secret, prev, c). length c)") auto

function rfc2868_mask :: "bytes \<Rightarrow> bytes \<Rightarrow> bytes \<Rightarrow> bytes" where
  "rfc2868_mask secret prev p =
     (if p = [] then []
      else
        let c = map2 (XOR) (take 16 p) (rfc_md5 (secret @ prev))
        in c @ rfc2868_mask secret c (drop 16 p))"
  by pat_completeness auto
termination by (relation "measure (\<lambda>(secret, prev, p). length p)") auto

definition rfc2868_hide :: "bytes \<Rightarrow> bytes \<Rightarrow> bytes \<Rightarrow> bytes \<Rightarrow> bytes" where
  "rfc2868_hide secret auth salt pw =
     salt @ rfc2868_mask secret (auth @ salt) (pad16 (of_nat (length pw) # pw))"

declare rfc2865_unhide.simps [simp del] rfc2868_mask.simps [simp del]

lemma md5_rfc: "\<forall>p \<in> set pieces. length p < 2 ^ 64 \<Longrightarrow> md5 pieces = rfc_md5 (concat pieces)"
  by (simp add: md5_def md5_digest_eq)

lemma length_rfc_md5 [simp]: "length (rfc_md5 m) = 16"
  by (simp add: rfc_md5_def split: prod.split)

lemma length_md5: "\<forall>p \<in> set pieces. length p < 2 ^ 64 \<Longrightarrow> length (md5 pieces) = 16"
  by (simp add: md5_rfc)

lemma xor_twice: "length a \<le> length h \<Longrightarrow> map2 (XOR) (map2 (XOR) a h) h = (a :: bytes)"
  by (induction a h rule: list_induct2') (auto simp: xor.assoc)

lemma length_pad16: "length (pad16 p) mod 16 = 0"
proof -
  have "((n::nat) + (16 - n mod 16) mod 16) mod 16 = 0" for n
  proof -
    have "(n + (16 - n mod 16) mod 16) mod 16 = (n mod 16 + (16 - n mod 16)) mod 16"
      by (simp only: mod_add_left_eq mod_add_right_eq)
    also have "n mod 16 + (16 - n mod 16) = 16"
      by (intro le_add_diff_inverse) (simp add: less_imp_le)
    finally show ?thesis by simp
  qed
  then show ?thesis by (simp only: pad16_def length_append length_replicate)
qed

lemma pad16_block:
  assumes "p \<noteq> []" "length p mod 16 = 0"
  shows "length (take 16 p) = 16" "length (drop 16 p) mod 16 = 0"
proof -
  have "length p \<noteq> 0" using assms(1) by simp
  then obtain k where k: "length p = 16 + k" "k mod 16 = 0"
    using assms(2) by (cases "length p < 16") (simp, metis le_add_diff_inverse mod_add_self1 not_less)
  then show "length (take 16 p) = 16" "length (drop 16 p) mod 16 = 0"
    by simp_all
qed

text \<open>A chain of masked blocks and its inverse.\<close>

lemma unhide_hide:
  assumes "length secret < 2 ^ 64"
  shows "length prev < 2 ^ 64 \<Longrightarrow> length p mod 16 = 0 \<Longrightarrow>
         rfc2865_unhide secret prev (hide_blocks secret prev p) = p"
proof (induction "length p" arbitrary: prev p rule: less_induct)
  case less
  show ?case
  proof (cases "p = []")
    case True
    then show ?thesis by (simp add: hide_blocks.simps rfc2865_unhide.simps)
  next
    case False
    let ?h = "rfc_md5 (secret @ prev)"
    let ?c = "map2 (XOR) (take 16 p) ?h"
    have h: "md5 [secret, prev] = ?h"
      using assms less.prems(1) by (simp add: md5_rfc)
    have len: "length (take 16 p) = 16" "length (drop 16 p) mod 16 = 0"
      using pad16_block[OF False less.prems(2)] by simp_all
    then have lc: "length ?c = 16" by simp
    then have ne: "?c \<noteq> []" by (metis list.size(3) zero_neq_numeral)
    have "rfc2865_unhide secret ?c (hide_blocks secret ?c (drop 16 p)) = drop 16 p"
      by (rule less.hyps) (use False lc len in auto)
    moreover have "hide_blocks secret prev p = ?c @ hide_blocks secret ?c (drop 16 p)"
      using False by (subst hide_blocks.simps) (simp add: h Let_def)
    moreover have "map2 (XOR) ?c ?h = take 16 p"
      by (rule xor_twice) (simp add: len)
    ultimately show ?thesis
      using lc ne by (subst rfc2865_unhide.simps) simp
  qed
qed

lemma length_hide: "length secret < 2 ^ 64 \<Longrightarrow> length prev < 2 ^ 64 \<Longrightarrow> length (hide_blocks secret prev p) = length p"
proof (induction "length p" arbitrary: prev p rule: less_induct)
  case less
  show ?case
  proof (cases "p = []")
    case True
    then show ?thesis by (simp add: hide_blocks.simps)
  next
    case False
    let ?c = "map2 (XOR) (take 16 p) (md5 [secret, prev])"
    have m: "length (md5 [secret, prev]) = 16"
      using less.prems by (simp add: length_md5)
    have "length (hide_blocks secret ?c (drop 16 p)) = length (drop 16 p)"
      by (rule less.hyps) (use False less.prems(1) in \<open>auto simp: m\<close>)
    then show ?thesis
      using False by (subst hide_blocks.simps) (simp add: m Let_def)
  qed
qed

text \<open>
  C18: the User-Password attribute is the password of the session, padded with the fewest zeros to a
  multiple of 16 bytes and masked as RFC 2865 says: a server that undoes the masking, with the digest of
  RFC 1321, gets the password back, followed by these zeros only, and the attribute's value has whole
  blocks of 16 bytes as the RFC asks for.
\<close>

theorem radius_password_roundtrip:
  fixes secret auth pass :: bytes
  assumes "length secret < 2 ^ 64" "length auth = 16"
  defines "pw \<equiv> takeWhile (\<lambda>c. c \<noteq> 0) pass"
  shows "length (hide_password secret auth pass) mod 16 = 0 \<and>
    (\<exists>n < 16. rfc2865_unhide secret auth (hide_password secret auth pass) = pw @ replicate n 0 \<and>
       length (hide_password secret auth pass) = length pw + n)"
proof -
  have len: "length (hide_password secret auth pass) = length (pad16 pw)"
    using assms(2) by (simp add: hide_password_def length_hide [OF assms(1)] length_pad16 pw_def)
  have "rfc2865_unhide secret auth (hide_password secret auth pass) = pad16 pw"
    using unhide_hide [OF assms(1), of auth "pad16 pw"] assms(2) by (simp add: hide_password_def length_pad16 pw_def)
  then show ?thesis
    unfolding len length_pad16
    by (intro conjI exI [of _ "(16 - length pw mod 16) mod 16"]) (simp_all add: pad16_def)
qed

lemma radius_password_roundtrip_witness:
  "\<exists>n < 16. rfc2865_unhide [1, 2, 3] (replicate 16 9) (hide_password [1, 2, 3] (replicate 16 9) [112, 119, 0, 5]) =
     [112, 119] @ replicate n 0"
  using radius_password_roundtrip[of "[1, 2, 3]" "replicate 16 9" "[112, 119, 0, 5]"] by auto

lemma decode_mask:
  assumes "length secret < 2 ^ 64"
  shows "\<forall>q \<in> set prev. length q < 2 ^ 64 \<Longrightarrow> length p mod 16 = 0 \<Longrightarrow>
         decode_blocks secret prev (rfc2868_mask secret (concat prev) p) = p"
proof (induction "length p" arbitrary: prev p rule: less_induct)
  case less
  show ?case
  proof (cases "p = []")
    case True
    then show ?thesis by (simp add: decode_blocks.simps rfc2868_mask.simps)
  next
    case False
    let ?h = "rfc_md5 (secret @ concat prev)"
    let ?c = "map2 (XOR) (take 16 p) ?h"
    have h: "md5 (secret # prev) = ?h"
      using assms less.prems(1) by (simp add: md5_rfc)
    have len: "length (take 16 p) = 16" "length (drop 16 p) mod 16 = 0"
      using pad16_block[OF False less.prems(2)] by simp_all
    then have lc: "length ?c = 16" by simp
    then have ne: "?c \<noteq> []" by (metis list.size(3) zero_neq_numeral)
    have "decode_blocks secret [?c] (rfc2868_mask secret (concat [?c]) (drop 16 p)) = drop 16 p"
      by (rule less.hyps) (use False lc len in auto)
    moreover have "rfc2868_mask secret (concat prev) p = ?c @ rfc2868_mask secret ?c (drop 16 p)"
      using False by (subst rfc2868_mask.simps) (simp add: Let_def)
    moreover have "map2 (XOR) ?c ?h = take 16 p"
      by (rule xor_twice) (simp add: len)
    ultimately show ?thesis
      using lc ne by (subst decode_blocks.simps) (simp add: h)
  qed
qed

lemma length_rfc2868_mask: "length (rfc2868_mask secret prev p) = length p"
proof (induction secret prev p rule: rfc2868_mask.induct)
  case (1 secret prev p)
  show ?case
  proof (cases "p = []")
    case True
    then show ?thesis by (simp add: rfc2868_mask.simps)
  next
    case False
    then show ?thesis
      using 1 by (subst rfc2868_mask.simps) (simp add: Let_def)
  qed
qed

text \<open>
  \<open>rad_tunnel_pwdecode\<close> recovers a tunnel password that a server has masked as RFC 2868 says,
  up to the 239 octets that fit its buffer.
\<close>

lemma rad_tunnel_pwdecode_roundtrip:
  assumes "length secret < 2 ^ 64" "length auth = 16" "length salt = 2" "pw \<noteq> []" "length pw \<le> 239"
  shows "rad_tunnel_pwdecode (rfc2868_hide secret auth salt pw) secret auth = Some pw"
proof -
  let ?p = "pad16 (of_nat (length pw) # pw)"
  let ?c = "rfc2868_mask secret (auth @ salt) ?p"
  have dec: "decode_blocks secret [auth, salt] ?c = ?p"
    using decode_mask[OF assms(1), of "[auth, salt]" ?p] assms(2,3) by (simp add: length_pad16)
  have len: "length ?c = length ?p" "length ?p > length pw" "length ?c \<ge> 2"
    using assms(4) by (cases pw; simp add: length_rfc2868_mask pad16_def)+
  have n: "unat (of_nat (length pw) :: u8) = length pw"
    using assms(5) by (simp add: unat_of_nat)
  have hd: "hd ?p = of_nat (length pw)" "tl ?p = pw @ replicate ((16 - length (of_nat (length pw) # pw) mod 16) mod 16) 0"
    by (simp_all add: pad16_def)
  show ?thesis
    using assms len by (simp add: rad_tunnel_pwdecode_def rfc2868_hide_def dec hd n)
qed

lemma rad_tunnel_pwdecode_roundtrip_witness:
  "rad_tunnel_pwdecode (rfc2868_hide [7] (replicate 16 1) [128, 1] [115, 51]) [7] (replicate 16 1) = Some [115, 51]"
  by (rule rad_tunnel_pwdecode_roundtrip) simp_all

subsection \<open>Requests are well-formed\<close>

text \<open>The attributes of a packet as a server reads them.\<close>

function attr_walk :: "bytes \<Rightarrow> (u8 \<times> bytes) list option" where
  "attr_walk b =
     (if b = [] then Some []
      else if length b < 2 \<or> unat (b ! 1) < 2 \<or> length b < unat (b ! 1) then None
      else map_option ((#) (b ! 0, drop 2 (take (unat (b ! 1)) b))) (attr_walk (drop (unat (b ! 1)) b)))"
  by pat_completeness auto
termination by (relation "measure length") auto

declare attr_walk.simps [simp del]

definition attr_enc :: "u8 \<times> bytes \<Rightarrow> bytes" where
  "attr_enc a = fst a # (of_nat (length (snd a)) + 2) # snd a"

definition encodes :: "(u8 \<times> bytes) list \<Rightarrow> bytes \<Rightarrow> bool" where
  "encodes as b \<longleftrightarrow> b = concat (map attr_enc as) \<and> (\<forall>a \<in> set as. length (snd a) \<le> 253 \<and> fst a \<noteq> 7)"

lemma unat_len: "n \<le> 253 \<Longrightarrow> unat (of_nat n + 2 :: u8) = n + 2"
proof -
  assume "n \<le> 253"
  moreover have "(of_nat n + 2 :: u8) = of_nat (n + 2)" by simp
  ultimately show ?thesis by (simp only: unat_of_nat) simp
qed

lemma attr_walk_encodes: "encodes as b \<Longrightarrow> attr_walk b = Some as"
proof (induction "as" arbitrary: b)
  case Nil
  then show ?case by (simp add: encodes_def attr_walk.simps)
next
  case (Cons a as)
  then have b: "b = attr_enc a @ concat (map attr_enc as)" "length (snd a) \<le> 253"
    and r: "attr_walk (concat (map attr_enc as)) = Some as"
    by (simp_all add: encodes_def)
  have u: "unat (of_nat (length (snd a)) + 2 :: u8) = length (snd a) + 2"
    by (rule unat_len[OF b(2)])
  show ?case
    by (subst attr_walk.simps) (simp add: b(1) attr_enc_def u r)
qed

lemma encodes_append: "encodes as b \<Longrightarrow> encodes bs c \<Longrightarrow> encodes (as @ bs) (b @ c)"
  by (auto simp: encodes_def)

lemma encodes_Nil: "encodes [] []"
  by (simp add: encodes_def)

lemma encodes_int: "ty \<noteq> 7 \<Longrightarrow> encodes [(ty, be32 x)] (rad_int ty x)"
  by (simp add: encodes_def rad_int_def rad_put_def attr_enc_def)

lemma encodes_put: "ty \<noteq> 7 \<Longrightarrow> length val \<le> 253 \<Longrightarrow> encodes [(ty, val)] (rad_str ty val)"
  by (simp add: encodes_def rad_str_def rad_put_def attr_enc_def unat_len)

lemma encodes_put_len:
  "ty \<noteq> 7 \<Longrightarrow> unat l = length val + 2 \<Longrightarrow> length val \<le> 253 \<Longrightarrow> encodes [(ty, val)] (rad_put ty l val)"
proof -
  assume *: "ty \<noteq> 7" "unat l = length val + 2" "length val \<le> 253"
  then have "unat l = unat (of_nat (length val) + 2 :: u8)" by (simp add: unat_len)
  then have "l = of_nat (length val) + 2" by (simp only: word_unat_eq_iff)
  then show ?thesis using encodes_put[OF *(1,3)] by (simp add: rad_str_def)
qed

lemma framed_protocol_lost: "rad_put 7 (ucast (htonl (if c then 0 else 6))) val = []"
  by (simp add: rad_put_def htonl_def be32_def)

text \<open>The bounds the other parts of the program keep: sizes of the string fields and of the routes.\<close>

definition session_strings_ok :: "sessiont \<Rightarrow> bool" where
  "session_strings_ok sess \<longleftrightarrow>
     length (s_user sess) < 128 \<and> length (s_called sess) < 96 \<and> length (s_calling sess) < 96 \<and>
     length (s_class sess) \<le> 128 \<and>
     (\<forall>i < MAXROUTE. 0 \<le> rt_prefixlen (s_route sess i) \<and> rt_prefixlen (s_route sess i) < 256)"

definition radius_ok :: "radiust \<Rightarrow> bool" where
  "radius_ok rd \<longleftrightarrow>
     length (rd_auth rd) = 16 \<and> (rd_chap rd \<noteq> 0 \<longrightarrow> length (rd_pass rd) \<ge> 16) \<and>
     length (takeWhile (\<lambda>c. c \<noteq> 0) (rd_pass rd)) < 128 \<and>
     (case rd_term_msg rd of None \<Rightarrow> True | Some msg \<Rightarrow> length msg \<le> 200)"

lemma length_chars [simp]: "length (chars s) = length s"
  by (simp add: chars_def)

lemma length_pad16_le: "length (pad16 p) \<le> length p + 15"
proof -
  have "(16 - n mod 16) mod 16 \<le> (15 :: nat)" for n
    by (rule less_Suc_eq_le[THEN iffD1]) simp
  then show ?thesis by (simp add: pad16_def)
qed

lemma auth_attrs_encode:
  assumes "radius_ok rd" "length secret < 2 ^ 64"
  shows "\<exists>as. encodes as (auth_attrs secret rd) \<and> length (auth_attrs secret rd) \<le> 150"
proof (cases "rd_chap rd \<noteq> 0")
  case True
  then have "encodes ([(3, rd_id rd # take 16 (rd_pass rd))] @ [(60, rd_auth rd)])
      (rad_put 3 19 (rd_id rd # take 16 (rd_pass rd)) @ rad_put 60 18 (rd_auth rd))"
    using assms(1) by (intro encodes_append encodes_put_len) (auto simp: radius_ok_def)
  then show ?thesis
    using True assms(1) by (auto simp: auth_attrs_def rad_put_def radius_ok_def)
next
  case False
  let ?p = "hide_password secret (rd_auth rd) (rd_pass rd)"
  have l: "length ?p \<le> 142"
    using assms length_pad16_le[of "takeWhile (\<lambda>c. c \<noteq> 0) (rd_pass rd)"]
    by (simp add: hide_password_def length_hide radius_ok_def)
  then have "encodes [(2, ?p)] (rad_str 2 ?p)"
    by (intro encodes_put) auto
  then show ?thesis
    using False l by (auto simp: auth_attrs_def rad_str_def rad_put_def)
qed

lemma rad_int_length [simp]: "length (rad_int ty x) = 6"
  by (simp add: rad_int_def rad_put_def)

lemma rad_str_length: "length val \<le> 253 \<Longrightarrow> length (rad_str ty val) = length val + 2"
  by (simp add: rad_str_def rad_put_def unat_len)

lemma term_attrs_encode:
  assumes "radius_ok rd"
  shows "\<exists>as. encodes as (term_attrs rd) \<and> length (term_attrs rd) \<le> 240"
proof (cases "rd_term_cause rd = 0")
  case True
  then show ?thesis using encodes_Nil by (auto simp: term_attrs_def)
next
  case False
  show ?thesis
  proof (cases "rd_term_msg rd")
    case None
    then show ?thesis
      using False encodes_int[of 49 "of_nat (rd_term_cause rd)"] by (auto simp: term_attrs_def)
  next
    case (Some msg)
    let ?av = "chars (''disc-cause-ext='' @ msg)"
    let ?l = "2 + of_nat (length ?av) :: u8"
    let ?val = "be32 9 @ [1, ?l] @ ?av"
    have av: "length ?av = 15 + length msg" "length msg \<le> 200"
      using assms Some by (simp_all add: radius_ok_def)
    have "?l + 6 = of_nat (length ?av + 8)" by simp
    then have u: "unat (?l + 6) = length ?val + 2"
      using av by (simp only: unat_of_nat) simp
    have "encodes ([(49, be32 (of_nat (rd_term_cause rd)))] @ [(26, ?val)])
        (rad_int 49 (of_nat (rd_term_cause rd)) @ rad_put 26 (?l + 6) ?val)"
      by (intro encodes_append encodes_int encodes_put_len u) (use av in auto)
    moreover have "length (rad_put 26 (?l + 6) ?val) \<le> 230"
      using u av by (simp add: rad_put_def)
    ultimately show ?thesis
      using False Some by (auto simp: term_attrs_def Let_def)
  qed
qed

definition plugin_ok :: "(sessiont \<Rightarrow> bytes) \<Rightarrow> sessiont \<Rightarrow> bool" where
  "plugin_ok plugin sess \<longleftrightarrow> (\<exists>as. encodes as (plugin sess)) \<and> length (plugin sess) \<le> 1024"

lemma attr_simps:
  "\<exists>as. encodes as [] \<and> length ([] :: bytes) \<le> 0"
  using encodes_Nil by auto

lemma attrs_append:
  assumes "\<exists>as. encodes as b \<and> length b \<le> m" "\<exists>as. encodes as c \<and> length c \<le> n" "m + n \<le> k"
  shows "\<exists>as. encodes as (b @ c) \<and> length (b @ c) \<le> k"
  using assms encodes_append by fastforce

lemmas attrs_cat = attrs_append[OF _ _ order.refl]

lemma attrs_int: "ty \<noteq> 7 \<Longrightarrow> \<exists>as. encodes as (rad_int ty x) \<and> length (rad_int ty x) \<le> 6"
  using encodes_int by auto

lemma attrs_str:
  "ty \<noteq> 7 \<Longrightarrow> length val \<le> n \<Longrightarrow> n \<le> 253 \<Longrightarrow>
   \<exists>as. encodes as (rad_str ty val) \<and> length (rad_str ty val) \<le> n + 2"
  using encodes_put[of ty val] rad_str_length[of val ty] by auto

lemma attrs_if:
  "\<exists>as. encodes as b \<and> length b \<le> n \<Longrightarrow> \<exists>as. encodes as (if c then b else []) \<and> length (if c then b else []) \<le> n"
  using encodes_Nil by auto

lemma attrs_mono: "\<exists>as. encodes as b \<and> length b \<le> m \<Longrightarrow> m \<le> n \<Longrightarrow> \<exists>as. encodes as b \<and> length b \<le> n"
  by (meson order.trans)

lemma acct_attrs_encode:
  assumes "radius_ok rd" "session_strings_ok sess" "plugin_ok plugin sess"
  shows "\<exists>as. encodes as (acct_attrs plugin st now h sess rd) \<and> length (acct_attrs plugin st now h sess rd) \<le> 1500"
proof -
  have hex: "length (hex8 x) = 8" for x by (simp add: hex8_def)
  have id: "\<exists>as. encodes as (rad_put 44 18 (chars (hex8 (s_unique_id sess) @ hex8 (s_opened sess)))) \<and>
      length (rad_put 44 18 (chars (hex8 (s_unique_id sess) @ hex8 (s_opened sess)))) \<le> 18"
    using encodes_put_len[of 44 18 "chars (hex8 (s_unique_id sess) @ hex8 (s_opened sess))"]
    by (auto simp: hex rad_put_def)
  have cls: "\<exists>as. encodes as (if s_class sess \<noteq> [] then rad_str 25 (s_class sess) else []) \<and>
      length (if s_class sess \<noteq> [] then rad_str 25 (s_class sess) else []) \<le> 130"
    using attrs_if[OF attrs_str[of 25 "s_class sess" 128]] assms(2) by (auto simp: session_strings_ok_def)
  have plug: "\<exists>as. encodes as (plugin sess) \<and> length (plugin sess) \<le> 1024"
    using assms(3) by (auto simp: plugin_ok_def)
  let ?t = "if st = RADIUSSTOP then term_attrs rd else []"
  have trm: "\<exists>as. encodes as ?t \<and> length ?t \<le> 240"
    by (rule attrs_if[OF term_attrs_encode[OF assms(1)]])
  have start: "\<exists>as. encodes as (rad_int 41 (now - s_opened sess)) \<and> length (rad_int 41 (now - s_opened sess)) \<le> 282"
    by (rule attrs_mono[OF attrs_int]) simp_all
  have stop: "\<exists>as. encodes as (rad_int 42 (s_cin sess) @ rad_int 43 (s_cout sess) @ rad_int 46 (now - s_opened sess) @
           rad_int 47 (s_pin sess) @ rad_int 48 (s_pout sess) @ rad_int 52 (s_cin_wrap sess) @
           rad_int 53 (s_cout_wrap sess) @ ?t) \<and> length (rad_int 42 (s_cin sess) @ rad_int 43 (s_cout sess) @ rad_int 46 (now - s_opened sess) @
           rad_int 47 (s_pin sess) @ rad_int 48 (s_pout sess) @ rad_int 52 (s_cin_wrap sess) @
           rad_int 53 (s_cout_wrap sess) @ ?t) \<le> 282"
    by (rule attrs_mono[OF attrs_cat[OF attrs_int attrs_cat[OF attrs_int attrs_cat[OF attrs_int attrs_cat[OF attrs_int
          attrs_cat[OF attrs_int attrs_cat[OF attrs_int attrs_cat[OF attrs_int trm]]]]]]]])  simp_all
  have "\<exists>as. encodes as (if st = RADIUSSTART then rad_int 41 (now - s_opened sess)
         else rad_int 42 (s_cin sess) @ rad_int 43 (s_cout sess) @ rad_int 46 (now - s_opened sess) @
           rad_int 47 (s_pin sess) @ rad_int 48 (s_pout sess) @ rad_int 52 (s_cin_wrap sess) @
           rad_int 53 (s_cout_wrap sess) @ ?t) \<and>
      length (if st = RADIUSSTART then rad_int 41 (now - s_opened sess)
         else rad_int 42 (s_cin sess) @ rad_int 43 (s_cout sess) @ rad_int 46 (now - s_opened sess) @
           rad_int 47 (s_pin sess) @ rad_int 48 (s_pout sess) @ rad_int 52 (s_cin_wrap sess) @
           rad_int 53 (s_cout_wrap sess) @ ?t) \<le> 282"
    using start stop by simp
  note body = attrs_append[OF id attrs_append[OF this attrs_append[OF cls plug order.refl] order.refl] order.refl]
  have ty: "\<exists>as. encodes as (rad_int 40 (acct_type st)) \<and> length (rad_int 40 (acct_type st)) \<le> 6"
    by (rule attrs_int) simp
  show ?thesis
  proof (cases h)
    case True
    then show ?thesis
      unfolding acct_attrs_def using attrs_append[OF ty body, of 1500] by simp
  next
    case False
    then show ?thesis
      unfolding acct_attrs_def using attrs_mono[OF ty, of 1500] by simp
  qed
qed

lemma length_show_int: "0 \<le> i \<Longrightarrow> i < 256 \<Longrightarrow> length (show_int i) \<le> 3"
  using length_dec[of "nat i" 2] by (simp add: show_int_def)

lemma route_attrs_encode:
  assumes "\<forall>i \<in> set is. 0 \<le> rt_prefixlen (s_route sess i) \<and> rt_prefixlen (s_route sess i) < 256"
  shows "\<exists>as. encodes as (route_attrs sess is) \<and> length (route_attrs sess is) \<le> 40 * length is"
  using assms
proof (induction "is")
  case Nil
  then show ?case using encodes_Nil by auto
next
  case (Cons i js)
  let ?val = "chars (inet_ntoa (rt_ip (s_route sess i)) @ ''/'' @ show_int (rt_prefixlen (s_route sess i)) @
             '' '' @ inet_ntoa (s_ip sess) @ '' 1'')"
  have "length ?val \<le> 38"
    using length_ntoa[of "rt_ip (s_route sess i)"] length_ntoa[of "s_ip sess"] length_show_int Cons.prems by fastforce
  then have "\<exists>as. encodes as (rad_str 22 ?val) \<and> length (rad_str 22 ?val) \<le> 40"
    using attrs_str[of 22 ?val 38] by auto
  then have *: "\<exists>as. encodes as (rad_str 22 ?val @ route_attrs sess js) \<and>
      length (rad_str 22 ?val @ route_attrs sess js) \<le> 40 * length (i # js)"
    by (rule attrs_append) (use Cons in auto)
  show ?case
  proof (cases "rt_ip (s_route sess i) = 0")
    case True
    then show ?thesis using encodes_Nil by auto
  next
    case False
    then show ?thesis using * by simp
  qed
qed

lemma session_attrs_encode:
  assumes "session_strings_ok sess"
  shows "\<exists>as. encodes as (session_attrs st s sess) \<and> length (session_attrs st s sess) \<le> 630"
    and "\<exists>r. session_attrs st s sess = rad_int 5 (of_nat s) @ r"
proof -
  have str: "length (chars (s_called sess)) \<le> 95" "length (chars (s_calling sess)) \<le> 95"
    "\<forall>i \<in> set [0..<MAXROUTE]. 0 \<le> rt_prefixlen (s_route sess i) \<and> rt_prefixlen (s_route sess i) < 256"
    using assms by (auto simp: session_strings_ok_def)
  have routes: "\<exists>as. encodes as (route_attrs sess [0..<MAXROUTE]) \<and> length (route_attrs sess [0..<MAXROUTE]) \<le> 400"
    using route_attrs_encode[OF str(3)] by (simp add: MAXROUTE_def)
  note parts = attrs_if[OF attrs_int] attrs_if[OF attrs_str[OF _ str(1)]] attrs_if[OF attrs_str[OF _ str(2)]]
  show "\<exists>as. encodes as (session_attrs st s sess) \<and> length (session_attrs st s sess) \<le> 630"
    unfolding session_attrs_def framed_protocol_lost append_Nil
    by (rule attrs_mono[OF attrs_cat[OF attrs_int attrs_cat[OF attrs_int attrs_cat[OF parts(1) attrs_cat[OF routes
          attrs_cat[OF parts(1) attrs_cat[OF parts(1) attrs_cat[OF parts(2) parts(3)]]]]]]]])  simp_all
  show "\<exists>r. session_attrs st s sess = rad_int 5 (of_nat s) @ r"
    by (auto simp: session_attrs_def)
qed

text \<open>
  C19: every request is a well-formed RADIUS packet of at most 4096 bytes, the size of the buffer:
  its length field is its length, its attributes can be walked to the end, an accounting request
  carries the digest that RFC 2866 asks for. But no request has a Framed-Protocol attribute (7): its
  length byte is the low byte of a number in network byte order, which is zero, so the next attribute
  overwrites it.
\<close>

theorem radius_request_wellformed:
  fixes cfg :: configt and r :: nat and st :: radius_state and now :: u32
  assumes "radius_ok rd" "session_strings_ok sess" "plugin_ok (cf_plugin_radius_account cfg) sess"
    and "length (cf_radiussecret cfg) < 64"
  defines "b \<equiv> radius_packet cfg r st now sess rd"
  shows "length b \<le> 4096 \<and> unat (of_be16 (drop 2 b)) = length b \<and>
    (\<exists>as. attr_walk (drop 20 b) = Some as \<and> 7 \<notin> fst ` set as) \<and>
    (\<not> auth_state st \<longrightarrow>
       take 16 (drop 4 b) = rfc_md5 (take 4 b @ replicate 16 0 @ drop 20 b @ cf_radiussecret cfg))"
proof -
  let ?attrs = "radius_attrs cfg st now sess rd" and ?secret = "cf_radiussecret cfg"
  let ?head = "[if auth_state st then AccessRequest else AccountingRequest, of_nat (r div 64)] @
      be16 (of_nat (20 + length ?attrs))"
  have secret: "length ?secret < 2 ^ 64" using assms(4) by simp
  have user: "\<exists>as. encodes as (if rd_session rd \<noteq> 0 then rad_str 1 (chars (s_user sess)) else []) \<and>
      length (if rd_session rd \<noteq> 0 then rad_str 1 (chars (s_user sess)) else []) \<le> 129"
    using attrs_if[OF attrs_str[of 1 "chars (s_user sess)" 127]] assms(2) by (auto simp: session_strings_ok_def)
  have body: "\<exists>as. encodes as (if auth_state st then auth_attrs ?secret rd
        else acct_attrs (cf_plugin_radius_account cfg) st now (rd_session rd \<noteq> 0) sess rd) \<and>
      length (if auth_state st then auth_attrs ?secret rd
        else acct_attrs (cf_plugin_radius_account cfg) st now (rd_session rd \<noteq> 0) sess rd) \<le> 1500"
    using attrs_mono[OF auth_attrs_encode[OF assms(1) secret], of 1500] acct_attrs_encode[OF assms(1,2,3)]
    by (cases "auth_state st") simp_all
  have sess: "\<exists>as. encodes as (if rd_session rd \<noteq> 0 then session_attrs st (rd_session rd) sess else []) \<and>
      length (if rd_session rd \<noteq> 0 then session_attrs st (rd_session rd) sess else []) \<le> 630"
    by (rule attrs_if[OF session_attrs_encode(1)[OF assms(2)]])
  have "\<exists>as. encodes as ?attrs \<and> length ?attrs \<le> 2265"
    unfolding radius_attrs_def Let_def
    by (rule attrs_mono[OF attrs_cat[OF user attrs_cat[OF body attrs_cat[OF sess attrs_int]]]])  simp_all
  then obtain as' where a: "encodes as' ?attrs" and len: "length ?attrs \<le> 2265" by blast
  have auth: "length (rd_auth rd) = 16" using assms(1) by (simp add: radius_ok_def)
  let ?raw = "?head @ rd_auth rd @ ?attrs"
  have raw: "take 4 ?raw = ?head" "drop 20 ?raw = ?attrs"
    by (simp_all add: auth)
  have "calc_auth ?secret ?raw (replicate 16 0) = md5 [?head, replicate 16 0, ?attrs, ?secret]"
    unfolding calc_auth_def raw ..
  also have "\<dots> = rfc_md5 (?head @ replicate 16 0 @ ?attrs @ ?secret)"
    by (subst md5_rfc) (use len secret in auto)
  finally have ca: "calc_auth ?secret ?raw (replicate 16 0) = rfc_md5 (?head @ replicate 16 0 @ ?attrs @ ?secret)" .
  obtain au where b: "b = ?head @ au @ ?attrs" "length au = 16"
    "\<not> auth_state st \<Longrightarrow> au = rfc_md5 (?head @ replicate 16 0 @ ?attrs @ ?secret)"
    using auth ca unfolding b_def radius_packet_def Let_def by (cases "auth_state st") auto
  have d: "drop 20 b = ?attrs" "take 4 b = ?head" "take 16 (drop 4 b) = au" "length b = 20 + length ?attrs"
    using b(2) by (simp_all add: b(1))
  have "of_be16 (drop 2 b) = of_nat (20 + length ?attrs)"
    by (simp add: b(1))
  then have "unat (of_be16 (drop 2 b)) = length b"
    using len by (simp only: d(4) unat_of_nat) simp
  moreover have "attr_walk (drop 20 b) = Some as'" "7 \<notin> fst ` set as'"
    using attr_walk_encodes[OF a] a by (auto simp: d(1) encodes_def)
  ultimately show ?thesis
    using len b(3) unfolding d by auto
qed

definition sample_radius :: radiust where
  "sample_radius = radius_zero\<lparr>rd_session := 1, rd_auth := replicate 16 3, rd_pass := [112, 119]\<rparr>"

lemma radius_request_wellformed_witness:
  "\<forall>cfg :: configt.
   length (radius_packet (cfg\<lparr>cf_radiussecret := [1, 2], cf_plugin_radius_account := (\<lambda>_. [])\<rparr>) 65 RADIUSAUTH 0
     (session_zero\<lparr>s_user := ''bob''\<rparr>) sample_radius) \<le> 4096"
proof
  fix cfg :: configt
  let ?cfg = "cfg\<lparr>cf_radiussecret := [1, 2], cf_plugin_radius_account := (\<lambda>_. [])\<rparr>"
  have "radius_ok sample_radius"
    by (simp add: radius_ok_def sample_radius_def radius_zero_def)
  moreover have "session_strings_ok (session_zero\<lparr>s_user := ''bob''\<rparr>)"
    by (simp add: session_strings_ok_def session_zero_def route_zero_def)
  moreover have "plugin_ok (cf_plugin_radius_account ?cfg) (session_zero\<lparr>s_user := ''bob''\<rparr>)"
    using encodes_Nil by (auto simp: plugin_ok_def)
  moreover have "length (cf_radiussecret ?cfg) < 64" by simp
  ultimately show "length (radius_packet ?cfg 65 RADIUSAUTH 0 (session_zero\<lparr>s_user := ''bob''\<rparr>) sample_radius) \<le> 4096"
    using radius_request_wellformed by blast
qed

end
