(* ===== verification/Pool.thy ===== *)
theory Pool
  imports World
begin

text \<open>
  The pool of IPv4 addresses of \<^verbatim>\<open>src/l2tpns.c\<close>: filling it, handing an address to a session,
  taking it back, and bringing the pool in line with the sessions after an update from the master
  (\<open>fix_address_pool\<close>) or after becoming master (\<open>rebuild_address_pool\<close>).
\<close>

subsection \<open>Operations\<close>

text \<open>
  The search of \<open>assign_ip_address\<close> over the indices still to visit, with \<open>best\<close> and
  \<open>best_time\<close>; \<open>last\<close> is compared as a \<open>time_t\<close>.
\<close>

definition pool_free :: "ippoolt \<Rightarrow> bool" where
  "pool_free e \<longleftrightarrow> i_address e \<noteq> 0 \<and> \<not> i_assigned e"

definition pool_sticky :: "sessiont \<Rightarrow> ippoolt \<Rightarrow> bool" where
  "pool_sticky sess e \<longleftrightarrow> s_walled_garden sess = 0 \<and> i_user e \<noteq> [] \<and> s_user sess = i_user e"

definition pool_last :: "ippoolt \<Rightarrow> int" where
  "pool_last e = int (unat (i_last e))"

fun assign_scan :: "(nat \<Rightarrow> ippoolt) \<Rightarrow> sessiont \<Rightarrow> nat list \<Rightarrow> int \<Rightarrow> int \<Rightarrow> int" where
  "assign_scan pool sess [] best best_time = best"
| "assign_scan pool sess (i # is) best best_time =
     (if i_address (pool i) = 0 \<or> i_assigned (pool i) then assign_scan pool sess is best best_time
      else if pool_sticky sess (pool i) then int i
      else if pool_last (pool i) < best_time
      then (if pool_last (pool i) = 0 then int i
            else assign_scan pool sess is (int i) (pool_last (pool i)))
      else assign_scan pool sess is best best_time)"

definition assign_ip_address :: "sessionidt \<Rightarrow> l2tpns \<Rightarrow> l2tpns \<times> bool" where
  "assign_ip_address s g =
     (let sess = g_session g s;
          best = assign_scan (g_pool g) sess [1..<g_pool_size g] (-1) (g_time_now g)
      in if best < 0 then (g, False)
         else
           let b = nat best;
               g1 = upd_session s (\<lambda>x. x\<lparr>s_ip := i_address (g_pool g b), s_ip_pool_index := best\<rparr>) g
           in (upd_pool b (\<lambda>e. e\<lparr>i_assigned := True, i_last := word_of_int (g_time_now g), i_session := s,
                 i_user := (if s_walled_garden sess \<noteq> 0 then [] else s_user sess)\<rparr>) g1, True))"

definition free_ip_address :: "sessionidt \<Rightarrow> l2tpns \<Rightarrow> l2tpns" where
  "free_ip_address s g =
     (let i = s_ip_pool_index (g_session g s) in
      if s_ip (g_session g s) = 0 then g
      else
        let i = (if i < 0 then 0 else i);
            g1 = cache_ip (s_ip (g_session g s)) (- i) g;
            g2 = upd_session s (\<lambda>x. x\<lparr>s_ip := 0\<rparr>) g1
        in upd_pool (nat i) (\<lambda>e. e\<lparr>i_assigned := False, i_session := 0,
             i_last := word_of_int (g_time_now g)\<rparr>) g2)"

definition rebuild_clear :: "nat \<Rightarrow> l2tpns \<Rightarrow> l2tpns" where
  "rebuild_clear i g =
     (let g1 = upd_pool i (\<lambda>e. e\<lparr>i_assigned := False, i_session := 0\<rparr>) g
      in if i_address (g_pool g1 i) = 0 then g1 else cache_ip (i_address (g_pool g1 i)) (- int i) g1)"

definition rebuild_session :: "nat \<Rightarrow> l2tpns \<Rightarrow> l2tpns" where
  "rebuild_session i g =
     (let sess = g_session g i in
      if s_opened sess = 0 \<or> s_ip sess = 0 then g
      else
        let ipid = - int (lookup_ipmap (s_ip sess) (g_iphash g)) in
        if s_ip_pool_index sess < 0 \<and> ipid < 1 then g
        else if ipid > int MAXIPPOOL \<or> ipid < 0
        then upd_session i (\<lambda>x. x\<lparr>s_ip_pool_index := -1\<rparr>) g
        else
          cache_ip (s_ip sess) (int i)
            (upd_session i (\<lambda>x. x\<lparr>s_ip_pool_index := ipid\<rparr>)
              (upd_pool (nat ipid) (\<lambda>e. e\<lparr>i_assigned := True, i_session := i,
                 i_last := word_of_int (g_time_now g), i_user := s_user sess\<rparr>) g)))"

definition rebuild_address_pool :: "l2tpns \<Rightarrow> l2tpns" where
  "rebuild_address_pool g =
     fold rebuild_session [0..<MAXSESSION] (fold rebuild_clear [1..<MAXIPPOOL] g)"

definition fix_address_pool :: "nat \<Rightarrow> l2tpns \<Rightarrow> l2tpns" where
  "fix_address_pool sid g =
     (let ipid = s_ip_pool_index (g_session g sid);
          ipid = (if ipid < 0 then ipid + 2 ^ 32 else ipid)
      in if ipid > int (g_pool_size g) then g
         else if i_address (g_pool g (nat ipid)) \<noteq> s_ip (g_session g sid) then g
         else upd_pool (nat ipid) (\<lambda>e. e\<lparr>i_assigned := True, i_session := sid,
                i_last := word_of_int (g_time_now g), i_user := s_user (g_session g sid)\<rparr>) g)"

fun add_pool_addrs :: "in_addr list \<Rightarrow> l2tpns \<Rightarrow> l2tpns" where
  "add_pool_addrs [] g = g"
| "add_pool_addrs (a # as) g =
     (if a AND 0xff = 0 \<or> a AND 0xff = 255 then add_pool_addrs as g
      else
        let n = g_pool_size g;
            g1 = (upd_pool n (\<lambda>e. e\<lparr>i_address := a, i_assigned := False\<rparr>) g)\<lparr>g_pool_size := n + 1\<rparr>
        in if g_pool_size g1 \<ge> MAXIPPOOL then g1 else add_pool_addrs as g1)"

definition add_to_ip_pool :: "in_addr \<Rightarrow> int \<Rightarrow> l2tpns \<Rightarrow> l2tpns" where
  "add_to_ip_pool addr prefixlen g =
     (let prefixlen = (if prefixlen = 0 then 32 else prefixlen) in
      if g_pool_size g \<ge> MAXIPPOOL then g else add_pool_addrs (route_addrs addr prefixlen) g)"

subsection \<open>The choice of an address\<close>

text \<open>
  What the search looks for: the first free entry that the user had before or that was never used;
  without one, the first of the free entries that have rested longest. Entries used in the current
  second are passed over.
\<close>

definition pool_grabs :: "(nat \<Rightarrow> ippoolt) \<Rightarrow> sessiont \<Rightarrow> nat \<Rightarrow> bool" where
  "pool_grabs pool sess i \<longleftrightarrow> pool_free (pool i) \<and> (pool_sticky sess (pool i) \<or> pool_last (pool i) = 0)"

definition pool_rested :: "(nat \<Rightarrow> ippoolt) \<Rightarrow> int \<Rightarrow> nat \<Rightarrow> bool" where
  "pool_rested pool bt i \<longleftrightarrow> pool_free (pool i) \<and> pool_last (pool i) < bt"

definition oldest :: "(nat \<Rightarrow> ippoolt) \<Rightarrow> nat list \<Rightarrow> nat" where
  "oldest pool js = hd (filter (\<lambda>i. \<forall>k \<in> set js. pool_last (pool i) \<le> pool_last (pool k)) js)"

definition pool_choice :: "(nat \<Rightarrow> ippoolt) \<Rightarrow> sessiont \<Rightarrow> nat list \<Rightarrow> int \<Rightarrow> int \<Rightarrow> int" where
  "pool_choice pool sess is best bt =
     (if filter (pool_grabs pool sess) is \<noteq> [] then int (hd (filter (pool_grabs pool sess) is))
      else if filter (pool_rested pool bt) is \<noteq> [] then int (oldest pool (filter (pool_rested pool bt) is))
      else best)"

lemma oldest_Cons:
  assumes "\<forall>k \<in> set js. pool_last (pool k) < bt" and "pool_last (pool i) < bt"
  shows "oldest pool (i # js) =
    (if filter (\<lambda>k. pool_last (pool k) < pool_last (pool i)) js = [] then i
     else oldest pool (filter (\<lambda>k. pool_last (pool k) < pool_last (pool i)) js))"
proof (cases "filter (\<lambda>k. pool_last (pool k) < pool_last (pool i)) js = []")
  case True
  then have "\<forall>k \<in> set js. pool_last (pool i) \<le> pool_last (pool k)" by (auto simp: filter_empty_conv)
  with True show ?thesis by (simp add: oldest_def)
next
  case False
  let ?l = "pool_last (pool i)" and ?ks = "filter (\<lambda>k. pool_last (pool k) < pool_last (pool i)) js"
  from False obtain j where j: "j \<in> set js" "pool_last (pool j) < ?l"
    by (auto simp: filter_empty_conv)
  have "(\<forall>k \<in> set (i # js). pool_last (pool x) \<le> pool_last (pool k)) \<longleftrightarrow>
      pool_last (pool x) < ?l \<and> (\<forall>k \<in> set ?ks. pool_last (pool x) \<le> pool_last (pool k))" (is "?A x \<longleftrightarrow> ?B x") for x
  proof
    assume "?A x"
    then show "?B x" using j by fastforce
  next
    assume B: "?B x"
    have "pool_last (pool x) \<le> pool_last (pool k)" if "k \<in> set js" for k
      using B that by (cases "pool_last (pool k) < ?l") auto
    with B show "?A x" by simp
  qed
  then have "filter (\<lambda>x. \<forall>k \<in> set (i # js). pool_last (pool x) \<le> pool_last (pool k)) (i # js) =
      filter (\<lambda>x. \<forall>k \<in> set ?ks. pool_last (pool x) \<le> pool_last (pool k))
        (filter (\<lambda>k. pool_last (pool k) < ?l) (i # js))"
    by (simp only: filter_filter conj_commute)
  with False show ?thesis by (simp add: oldest_def)
qed

text \<open>The scan keeps the first entry of least \<open>last\<close> among those it has passed.\<close>

lemma assign_scan_choice:
  "0 < bt \<Longrightarrow> assign_scan pool sess is best bt = pool_choice pool sess is best bt"
proof (induction "is" arbitrary: best bt)
  case Nil
  then show ?case by (simp add: pool_choice_def)
next
  case (Cons i "is")
  show ?case
  proof (cases "pool_free (pool i)")
    case False
    then have a: "i_address (pool i) = 0 \<or> i_assigned (pool i)" by (auto simp: pool_free_def)
    from False have "\<not> pool_grabs pool sess i" "\<not> pool_rested pool bt i"
      by (simp_all add: pool_grabs_def pool_rested_def)
    with Cons.IH [OF Cons.prems] a show ?thesis by (simp add: pool_choice_def cong: if_cong)
  next
    case free: True
    then have a: "\<not> (i_address (pool i) = 0 \<or> i_assigned (pool i))" by (simp add: pool_free_def)
    let ?l = "pool_last (pool i)"
    consider "pool_sticky sess (pool i)" | "\<not> pool_sticky sess (pool i)" "?l = 0"
      | "\<not> pool_sticky sess (pool i)" "?l \<noteq> 0" "\<not> ?l < bt"
      | "\<not> pool_sticky sess (pool i)" "?l \<noteq> 0" "?l < bt" by blast
    then show ?thesis
    proof cases
      case 1
      with free have "pool_grabs pool sess i" by (simp add: pool_grabs_def)
      with 1 a show ?thesis by (simp add: pool_choice_def)
    next
      case 2
      with free have "pool_grabs pool sess i" by (simp add: pool_grabs_def)
      with 2 a Cons.prems show ?thesis by (simp add: pool_choice_def)
    next
      case 3
      then have "\<not> pool_grabs pool sess i" "\<not> pool_rested pool bt i"
        by (simp_all add: pool_grabs_def pool_rested_def)
      with 3 Cons.IH [OF Cons.prems] a show ?thesis by (simp add: pool_choice_def cong: if_cong)
    next
      case 4
      then have g: "\<not> pool_grabs pool sess i" "pool_rested pool bt i"
        using free by (simp_all add: pool_grabs_def pool_rested_def)
      have "0 \<le> ?l" by (simp add: pool_last_def)
      with 4 have pos: "0 < ?l" by linarith
      have eq: "filter (pool_rested pool ?l) is = filter (\<lambda>k. pool_last (pool k) < ?l) (filter (pool_rested pool bt) is)"
        using 4(3) by (auto simp: filter_filter pool_rested_def intro!: filter_cong)
      have "\<forall>k \<in> set (filter (pool_rested pool bt) is). pool_last (pool k) < bt"
        by (simp add: pool_rested_def)
      from oldest_Cons [OF this 4(3)] have "pool_choice pool sess (i # is) best bt = pool_choice pool sess is (int i) ?l"
        using g by (simp add: pool_choice_def eq)
      with 4 a Cons.IH [OF pos] show ?thesis by simp
    qed
  qed
qed

text \<open>
  The address a session is given. At any time after the epoch, \<open>assign_ip_address\<close> fails exactly
  if no pool entry qualifies, and otherwise takes the first free entry that the user had before or
  nobody ever had, or else the free entry that has been unused for longest.
\<close>

theorem assign_ip_address_choice:
  assumes "0 < g_time_now g" and "assign_ip_address s g = (g', ok)"
    and "c = pool_choice (g_pool g) (g_session g s) [1..<g_pool_size g] (-1) (g_time_now g)"
  shows "(ok \<longleftrightarrow> 0 \<le> c) \<and>
    (ok \<longrightarrow> s_ip (g_session g' s) = i_address (g_pool g (nat c)) \<and> s_ip_pool_index (g_session g' s) = c \<and>
      i_assigned (g_pool g' (nat c)) \<and> i_session (g_pool g' (nat c)) = s)"
proof -
  have c: "assign_scan (g_pool g) (g_session g s) [1..<g_pool_size g] (-1) (g_time_now g) = c"
    unfolding assms(3) by (rule assign_scan_choice [OF assms(1)])
  show ?thesis
  proof (cases "c < 0")
    case True
    with assms(2) show ?thesis by (simp add: assign_ip_address_def c [unfolded One_nat_def])
  next
    case False
    from assms(2) False show ?thesis
      by (auto simp: assign_ip_address_def c [unfolded One_nat_def] Let_def upd_pool_def upd_session_def)
  qed
qed


subsection \<open>The pool and the sessions\<close>

text \<open>
  The pool agrees with the sessions: a session with an address from the pool owns the entry it came
  from, and no address is in the pool twice.
\<close>

definition pool_addr_inj :: "l2tpns \<Rightarrow> bool" where
  "pool_addr_inj g \<longleftrightarrow>
     (\<forall>i j. i_address (g_pool g i) \<noteq> 0 \<and> i_address (g_pool g i) = i_address (g_pool g j) \<longrightarrow> i = j)"

definition pool_owned :: "l2tpns \<Rightarrow> sessionidt \<Rightarrow> bool" where
  "pool_owned g s \<longleftrightarrow>
     (let i = s_ip_pool_index (g_session g s) in
      s_ip (g_session g s) \<noteq> 0 \<and> i > 0 \<longrightarrow>
        i_address (g_pool g (nat i)) = s_ip (g_session g s) \<and> i_assigned (g_pool g (nat i)) \<and>
        i_session (g_pool g (nat i)) = s)"

definition pool_ok :: "l2tpns \<Rightarrow> bool" where
  "pool_ok g \<longleftrightarrow> pool_addr_inj g \<and> (\<forall>s. pool_owned g s)"

definition from_pool :: "l2tpns \<Rightarrow> sessionidt \<Rightarrow> bool" where
  "from_pool g s \<longleftrightarrow> s_ip (g_session g s) \<noteq> 0 \<and> s_ip_pool_index (g_session g s) > 0"

lemma pool_ok_distinct:
  assumes "pool_ok g" and "from_pool g s" and "from_pool g s'" and "s \<noteq> s'"
  shows "s_ip (g_session g s) \<noteq> s_ip (g_session g s')"
proof
  assume eq: "s_ip (g_session g s) = s_ip (g_session g s')"
  let ?i = "nat (s_ip_pool_index (g_session g s))" and ?j = "nat (s_ip_pool_index (g_session g s'))"
  have o: "pool_owned g s" "pool_owned g s'" and inj: "pool_addr_inj g" using assms(1) by (simp_all add: pool_ok_def)
  with assms(2,3) have "i_address (g_pool g ?i) = s_ip (g_session g s)" "i_session (g_pool g ?i) = s"
    "i_address (g_pool g ?j) = s_ip (g_session g s')" "i_session (g_pool g ?j) = s'"
    by (simp_all add: pool_owned_def from_pool_def Let_def)
  with inj eq assms(2,4) show False unfolding pool_addr_inj_def from_pool_def by metis
qed

lemma pool_addr_inj_cong:
  "(\<And>i. i_address (g_pool g' i) = i_address (g_pool g i)) \<Longrightarrow> pool_addr_inj g' = pool_addr_inj g"
  by (simp add: pool_addr_inj_def)

lemma assign_scan_pool:
  "assign_scan pool sess is best bt = c \<Longrightarrow> c \<noteq> best \<Longrightarrow> 0 \<le> c \<and> nat c \<in> set is \<and> pool_free (pool (nat c))"
proof (induction "is" arbitrary: best bt)
  case (Cons i "is")
  show ?case
  proof (cases "c = int i")
    case True
    have "pool_free (pool i) \<or> nat c \<in> set is \<and> pool_free (pool (nat c))"
      using Cons True by (auto simp: pool_free_def split: if_splits)
    with True show ?thesis by auto
  next
    case False
    with Cons show ?thesis by (auto split: if_splits)
  qed
qed simp

lemma assign_pool_ok:
  assumes "pool_ok g" and "\<not> from_pool g s" and "assign_ip_address s g = (g', ok)"
  shows "pool_ok g'"
proof -
  let ?c = "assign_scan (g_pool g) (g_session g s) [1..<g_pool_size g] (-1) (g_time_now g)"
  show ?thesis
  proof (cases "?c < 0")
    case True
    with assms show ?thesis by (simp add: assign_ip_address_def)
  next
    case False
    let ?b = "nat ?c"
    from False have "pool_free (g_pool g ?b)" "?b \<in> set [1..<g_pool_size g]"
      using assign_scan_pool [of "g_pool g" "g_session g s" "[1..<g_pool_size g]" "-1" "g_time_now g" ?c] by simp_all
    then have free: "\<not> i_assigned (g_pool g ?b)" and pos: "0 < ?c" by (auto simp: pool_free_def)
    from assms(3) False have g': "g_pool g' = (g_pool g)(?b := (g_pool g ?b)\<lparr>i_assigned := True,
          i_last := word_of_int (g_time_now g), i_session := s,
          i_user := (if s_walled_garden (g_session g s) \<noteq> 0 then [] else s_user (g_session g s))\<rparr>)"
        "g_session g' = (g_session g)(s := (g_session g s)\<lparr>s_ip := i_address (g_pool g ?b), s_ip_pool_index := ?c\<rparr>)"
      by (auto simp: assign_ip_address_def Let_def upd_pool_def upd_session_def)
    have "pool_addr_inj g' = pool_addr_inj g" by (rule pool_addr_inj_cong) (simp add: g')
    then have "pool_addr_inj g'" using assms(1) by (simp add: pool_ok_def)
    moreover have "pool_owned g' s'" for s'
    proof (cases "s' = s")
      case True
      with pos show ?thesis by (simp add: pool_owned_def g')
    next
      case False
      have "pool_owned g s'" using assms(1) by (simp add: pool_ok_def)
      with False free show ?thesis by (auto simp: pool_owned_def g' Let_def)
    qed
    ultimately show ?thesis by (simp add: pool_ok_def)
  qed
qed

lemma free_pool_ok:
  assumes "pool_ok g"
  shows "pool_ok (free_ip_address s g)"
proof (cases "s_ip (g_session g s) = 0")
  case True
  with assms show ?thesis by (simp add: free_ip_address_def)
next
  case False
  let ?g = "free_ip_address s g" and ?i = "if s_ip_pool_index (g_session g s) < 0 then 0 else s_ip_pool_index (g_session g s)"
  have g': "g_session ?g = (g_session g)(s := (g_session g s)\<lparr>s_ip := 0\<rparr>)"
      "g_pool ?g = (g_pool g)(nat ?i := (g_pool g (nat ?i))\<lparr>i_assigned := False, i_session := 0,
          i_last := word_of_int (g_time_now g)\<rparr>)"
    using False by (simp_all add: free_ip_address_def Let_def upd_pool_def upd_session_def cache_ip_def)
  have "pool_addr_inj ?g = pool_addr_inj g" by (rule pool_addr_inj_cong) (simp add: g')
  then have "pool_addr_inj ?g" using assms by (simp add: pool_ok_def)
  moreover have "pool_owned ?g s'" for s'
  proof (cases "s' = s")
    case True
    then show ?thesis by (simp add: pool_owned_def g')
  next
    case ne: False
    have o: "pool_owned g s'" "pool_owned g s" using assms by (simp_all add: pool_ok_def)
    show ?thesis
    proof (cases "nat (s_ip_pool_index (g_session g s')) = nat ?i \<and> from_pool g s'")
      case True
      then have "from_pool g s" using False by (auto simp: from_pool_def split: if_splits)
      with o True ne have "i_session (g_pool g (nat ?i)) = s" "i_session (g_pool g (nat ?i)) = s'"
        by (auto simp: pool_owned_def from_pool_def Let_def split: if_splits)
      with ne show ?thesis by simp
    next
      case other: False
      with o ne show ?thesis by (auto simp: pool_owned_def from_pool_def g' Let_def)
    qed
  qed
  ultimately show ?thesis by (simp add: pool_ok_def)
qed

text \<open>
  What happens to the pool while a master serves sessions: an address is handed to a session that has
  none from the pool, a session gives its address up, and other things change that concern neither
  the pool nor the addresses of the sessions.
\<close>

inductive pool_step :: "l2tpns \<Rightarrow> l2tpns \<Rightarrow> bool" where
  assign: "\<not> from_pool g s \<Longrightarrow> pool_step g (fst (assign_ip_address s g))"
| free: "pool_step g (free_ip_address s g)"
| other: "g_pool g' = g_pool g \<Longrightarrow>
    (\<And>s. s_ip (g_session g' s) = s_ip (g_session g s) \<and>
         s_ip_pool_index (g_session g' s) = s_ip_pool_index (g_session g s)) \<Longrightarrow>
    pool_step g g'"

lemma pool_step_ok: "pool_step g g' \<Longrightarrow> pool_ok g \<Longrightarrow> pool_ok g'"
proof (induction rule: pool_step.induct)
  case (assign g s)
  then show ?case using assign_pool_ok [of g s "fst (assign_ip_address s g)" "snd (assign_ip_address s g)"] by simp
next
  case (free g s)
  then show ?case by (rule free_pool_ok)
next
  case (other g' g)
  then have "pool_addr_inj g' = pool_addr_inj g" "\<And>s. pool_owned g' s = pool_owned g s"
    by (simp_all add: pool_addr_inj_def pool_owned_def)
  with other show ?case by (simp add: pool_ok_def)
qed

text \<open>
  C12: no address of the pool is handed out twice while a master runs. From a pool of different
  addresses none of which a session holds, as long as addresses are only assigned by
  \<open>assign_ip_address\<close> (to sessions without one) and taken back by \<open>free_ip_address\<close>, two sessions with
  addresses of the pool have different addresses, and each owns the entry its address came from. The
  rebuilding of the pool on a node that becomes master is not such a step: it forgets the owners
  (\<open>rebuild_address_pool_frees_all\<close>).
\<close>

theorem pool_no_double_assignment:
  assumes "pool_step\<^sup>*\<^sup>* g g'" and "pool_addr_inj g" and "\<forall>s. \<not> from_pool g s"
    and "from_pool g' r" and "from_pool g' r'" and "r \<noteq> r'"
  shows "s_ip (g_session g' r) \<noteq> s_ip (g_session g' r') \<and>
    i_session (g_pool g' (nat (s_ip_pool_index (g_session g' r)))) = r \<and>
    i_assigned (g_pool g' (nat (s_ip_pool_index (g_session g' r))))"
proof -
  have "pool_ok g" using assms(2,3) by (auto simp: pool_ok_def pool_owned_def from_pool_def Let_def)
  with assms(1) have ok: "pool_ok g'"
    by (induction rule: rtranclp_induct) (auto intro: pool_step_ok)
  then have "pool_owned g' r" by (simp add: pool_ok_def)
  with pool_ok_distinct [OF ok assms(4-6)] assms(4) show ?thesis
    by (simp add: pool_owned_def from_pool_def Let_def)
qed

subsection \<open>Rebuilding the pool\<close>

lemma rebuild_clear_frame [frame_simps]:
  "g_session (rebuild_clear i g) = g_session g"
  "\<not> i_assigned (g_pool (rebuild_clear i g) i)"
  "\<not> i_assigned (g_pool g j) \<Longrightarrow> \<not> i_assigned (g_pool (rebuild_clear i g) j)"
  by (auto simp: rebuild_clear_def Let_def upd_pool_def cache_ip_def)

lemma rebuild_clear_all:
  "\<not> i_assigned (g_pool (fold rebuild_clear is g) j)" if "j \<in> set is \<or> \<not> i_assigned (g_pool g j)"
  using that
proof (induction "is" arbitrary: g)
  case (Cons i "is")
  have "\<not> i_assigned (g_pool (rebuild_clear i g) j) \<or> j \<in> set is"
    using Cons.prems by (auto simp: frame_simps)
  then show ?case using Cons.IH by auto
qed simp

lemma rebuild_session_pool:
  assumes "0 < j"
  shows "i_assigned (g_pool (rebuild_session i g) j) = i_assigned (g_pool g j)"
  using assms by (auto simp: rebuild_session_def Let_def upd_pool_def upd_session_def cache_ip_def)

text \<open>
  Becoming master forgets the pool. \<open>rebuild_address_pool\<close> reads the pool index of a session's
  address from the address map and negates it; the map holds unsigned numbers, so the index is
  never positive and, whatever the sessions are, every entry of the pool is free afterwards.
\<close>

lemma rebuild_address_pool_frees_all:
  assumes "1 \<le> i" and "i < MAXIPPOOL"
  shows "\<not> i_assigned (g_pool (rebuild_address_pool g) i)"
proof -
  have "i_assigned (g_pool (fold rebuild_session ks h) i) = i_assigned (g_pool h i)" for ks h
    using assms(1) by (induction ks arbitrary: h) (simp_all add: rebuild_session_pool)
  moreover have "\<not> i_assigned (g_pool (fold rebuild_clear [1..<MAXIPPOOL] g) i)"
    using assms by (intro rebuild_clear_all) simp
  ultimately show ?thesis by (simp add: rebuild_address_pool_def)
qed

lemma rebuild_address_pool_frees_all_witness:
  "\<forall>g. \<not> i_assigned (g_pool (rebuild_address_pool g) 7)"
  using rebuild_address_pool_frees_all [of 7] by (simp add: MAXIPPOOL_def)


text \<open>A pool of one address, and its use by session 3.\<close>

definition demo_pool :: "l2tpns \<Rightarrow> l2tpns" where
  "demo_pool g = g\<lparr>g_pool := (\<lambda>_. ippool_zero)(1 := ippool_zero\<lparr>i_address := 0x0A000001\<rparr>),
     g_pool_size := 2, g_time_now := 5, g_session := (\<lambda>_. session_zero)\<rparr>"

lemma demo_pool_choice:
  "pool_choice (g_pool (demo_pool g)) (g_session (demo_pool g) 3) [1..<g_pool_size (demo_pool g)] (-1)
     (g_time_now (demo_pool g)) = 1"
proof -
  have "[1..<2] = [1::nat]" by (simp add: upt_rec)
  then show ?thesis
    by (simp add: demo_pool_def pool_choice_def pool_grabs_def pool_free_def ippool_zero_def pool_last_def)
qed

lemma assign_ip_address_choice_witness:
  "\<forall>g. s_ip (g_session (fst (assign_ip_address 3 (demo_pool g))) 3) = 0x0A000001"
proof
  fix g
  let ?r = "assign_ip_address 3 (demo_pool g)"
  have "0 < g_time_now (demo_pool g)" by (simp add: demo_pool_def)
  from assign_ip_address_choice [OF this, of 3 "fst ?r" "snd ?r"] demo_pool_choice [of g]
  show "s_ip (g_session (fst ?r) 3) = 0x0A000001" by (simp add: demo_pool_def)
qed

text \<open>A pool of two addresses.\<close>

definition demo_pool2 :: "l2tpns \<Rightarrow> l2tpns" where
  "demo_pool2 g = g\<lparr>g_pool := (\<lambda>_. ippool_zero)(1 := ippool_zero\<lparr>i_address := 0x0A000001\<rparr>,
     2 := ippool_zero\<lparr>i_address := 0x0A000002\<rparr>),
     g_pool_size := 3, g_time_now := 5, g_session := (\<lambda>_. session_zero)\<rparr>"

lemma pool_no_double_assignment_witness:
  "\<forall>g. \<exists>g'. pool_step\<^sup>*\<^sup>* (demo_pool2 g) g' \<and> from_pool g' 3 \<and> from_pool g' 4 \<and>
     s_ip (g_session g' 3) \<noteq> s_ip (g_session g' 4)"
proof
  fix g
  let ?g0 = "demo_pool2 g"
  let ?g1 = "fst (assign_ip_address 3 ?g0)" let ?g2 = "fst (assign_ip_address 4 ?g1)"
  have up: "[Suc 0..<3] = [1, 2]" by (simp add: upt_rec)
  have none: "\<forall>s. \<not> from_pool ?g0 s" by (simp add: from_pool_def demo_pool2_def session_zero_def)
  have scan1: "assign_scan (g_pool ?g0) (g_session ?g0 3) [Suc 0..<g_pool_size ?g0] (- 1) (g_time_now ?g0) = 1"
    by (simp add: demo_pool2_def up ippool_zero_def session_zero_def pool_sticky_def pool_last_def)
  have g1: "g_session ?g1 = (\<lambda>_. session_zero)(3 := session_zero\<lparr>s_ip := 0x0A000001, s_ip_pool_index := 1\<rparr>)"
    "g_pool ?g1 = (\<lambda>_. ippool_zero)(1 := ippool_zero\<lparr>i_address := 0x0A000001, i_assigned := True, i_session := 3, i_last := 5\<rparr>,
        2 := ippool_zero\<lparr>i_address := 0x0A000002\<rparr>)" "g_pool_size ?g1 = 3" "g_time_now ?g1 = 5"
    by (simp_all add: assign_ip_address_def scan1 Let_def upd_pool_def upd_session_def)
      (simp_all add: demo_pool2_def ippool_zero_def session_zero_def fun_upd_twist)
  have scan2: "assign_scan (g_pool ?g1) (g_session ?g1 4) [Suc 0..<g_pool_size ?g1] (- 1) (g_time_now ?g1) = 2"
    by (simp add: g1 up ippool_zero_def session_zero_def pool_sticky_def pool_last_def)
  have g2: "g_session ?g2 = (g_session ?g1)(4 := session_zero\<lparr>s_ip := 0x0A000002, s_ip_pool_index := 2\<rparr>)"
    unfolding assign_ip_address_def [of 4 ?g1] scan2 [unfolded One_nat_def [symmetric]] Let_def
    by (simp add: upd_pool_def upd_session_def g1 ippool_zero_def session_zero_def)
  have s1: "pool_step ?g0 ?g1" by (rule pool_step.assign) (simp add: none)
  have s2: "pool_step ?g1 ?g2" by (rule pool_step.assign) (simp add: from_pool_def g1 session_zero_def)
  note r = r_into_rtranclp [where r = pool_step]
  have run: "pool_step\<^sup>*\<^sup>* ?g0 ?g2" by (rule rtranclp_trans [OF r [OF s1] r [OF s2]])
  have inj: "pool_addr_inj ?g0" by (simp add: pool_addr_inj_def demo_pool2_def ippool_zero_def)
  have held: "from_pool ?g2 3" "from_pool ?g2 4" by (simp_all add: from_pool_def g2 g1 session_zero_def)
  have "s_ip (g_session ?g2 3) \<noteq> s_ip (g_session ?g2 4)"
    using pool_no_double_assignment [OF run inj none held] by simp
  with run held show "\<exists>g'. pool_step\<^sup>*\<^sup>* ?g0 g' \<and> from_pool g' 3 \<and> from_pool g' 4 \<and>
     s_ip (g_session g' 3) \<noteq> s_ip (g_session g' 4)" by blast
qed

end
