(* ===== verification/ClusterTx.thy ===== *)
theory ClusterTx
  imports World
begin

text \<open>
  The master's side of the replication in \<^verbatim>\<open>src/cluster.c\<close>: the queue of changed structures, the
  heartbeats that carry them together with a slow walk of the tables, and the history from which a
  slave is brought up to date. A heartbeat is its header and its records; the bytes of a record are
  the memory of the structure after the run-length coding of the theory \<open>Rle\<close>, and their number is
  a parameter (\<open>a_rec\<close>).
\<close>

subsection \<open>Heartbeats\<close>

definition MAX_HEART_SIZE :: nat where "MAX_HEART_SIZE = 8192"
definition HB_HEAD_SIZE :: nat where "HB_HEAD_SIZE = 136"

definition max_changes :: "abi \<Rightarrow> nat" where
  "max_changes a = MAX_HEART_SIZE div (a_sessiont a + 4) - 2"

definition hb_record :: "l2tpns \<Rightarrow> change_type \<times> nat \<Rightarrow> hb_rec" where
  "hb_record g c =
     (case c of (C_CSESSION, i) \<Rightarrow> HbSession i (g_session g i)
      | (C_CBUNDLE, i) \<Rightarrow> HbBundle i (g_bundle g i)
      | (C_CTUNNEL, i) \<Rightarrow> HbTunnel i (g_tunnel g i))"

text \<open>
  One of the three loops that fill a heartbeat from a table: \<open>room\<close> is the loop condition on the
  bytes used so far, \<open>n\<close> how many entries of the table are left to count, \<open>w\<close> the walk position.
\<close>

fun hb_walk ::
    "(nat \<Rightarrow> bool) \<Rightarrow> (nat \<Rightarrow> hb_rec) \<Rightarrow> (hb_rec \<Rightarrow> nat) \<Rightarrow> nat \<Rightarrow> nat \<Rightarrow> nat \<Rightarrow> nat \<Rightarrow> nat \<times> hb_rec list \<times> nat"
  where
  "hb_walk room mk sz high 0 w used = (used, [], if room used \<and> w = 0 then 1 else w)"
| "hb_walk room mk sz high (Suc n) w used =
     (if room used
      then (let w = (if w = 0 then 1 else w);
                r = mk w;
                (used', rs, w') = hb_walk room mk sz high n ((1 + w) mod (high + 1)) (used + sz r)
            in (used', r # rs, w'))
      else (used, [], w))"

definition send_heartbeat :: "heartbeat \<Rightarrow> nat \<Rightarrow> l2tpns \<Rightarrow> l2tpns" where
  "send_heartbeat hb len g =
     (if len > MAX_HEART_SIZE then out ExitProcess g
      else
        let q = hb_seq (hb_head hb);
            i = nat (q mod HB_HISTORY_SIZE)
        in out (HeartbeatTx hb) (g\<lparr>g_past_hearts := (g_past_hearts g)(i := Some (q, hb))\<rparr>))"

definition cluster_heartbeat :: "l2tpns \<Rightarrow> l2tpns" where
  "cluster_heartbeat g =
     (if \<not> cf_cluster_iam_master (g_cfg g) then g
      else
        let c = g_cfg g; a = g_abi g;
            ver = cf_cluster_table_version c + length (g_changes g);
            h = \<lparr>hb_seq = cf_cluster_seq_number c, hb_basetime = g_basetime g,
                 hb_clusterid = cf_bind_address c, hb_highsession = cf_cluster_highest_sessionid c,
                 hb_freesession = g_sessionfree g, hb_highbundle = cf_cluster_highest_bundleid c,
                 hb_hightunnel = cf_cluster_highest_tunnelid c,
                 hb_interval = cf_cluster_hb_interval c, hb_timeout = cf_cluster_hb_timeout c,
                 hb_table_version = ver\<rparr>;
            recs = map (hb_record g) (g_changes g);
            used = HB_HEAD_SIZE + sum_list (map (a_rec a) recs);
            (used1, recs1, ws) =
              hb_walk (\<lambda>p. p + 8 + 2 * a_sessiont a < MAX_HEART_SIZE) (\<lambda>i. HbSession i (g_session g i))
                (a_rec a) (cf_cluster_highest_sessionid c) (cf_cluster_highest_sessionid c)
                (g_walk_session g) used;
            (used2, recs2, wt) =
              hb_walk (\<lambda>p. p + 8 + a_tunnelt a < MAX_HEART_SIZE) (\<lambda>i. HbTunnel i (g_tunnel g i))
                (a_rec a) (cf_cluster_highest_tunnelid c) (cf_cluster_highest_tunnelid c)
                (g_walk_tunnel g) used1;
            (used3, recs3, wb) =
              hb_walk (\<lambda>p. p + 8 + a_bundlet a < MAX_HEART_SIZE) (\<lambda>i. HbBundle i (g_bundle g i))
                (a_rec a) (cf_cluster_highest_bundleid c) (cf_cluster_highest_bundleid c)
                (g_walk_bundle g) used2;
            g1 = g\<lparr>g_cfg := c\<lparr>cf_cluster_table_version := ver\<rparr>, g_walk_session := ws,
                   g_walk_tunnel := wt, g_walk_bundle := wb, g_changes := []\<rparr>
        in if used > MAX_HEART_SIZE + 132 then out ExitProcess g
           else if used3 > MAX_HEART_SIZE + 132 then out ExitProcess g
           else
             upd_cfg (\<lambda>c. c\<lparr>cf_cluster_seq_number := (cf_cluster_seq_number c + 1) mod HB_MAX_SEQ\<rparr>)
               (send_heartbeat \<lparr>hb_head = h, hb_recs = recs @ recs1 @ recs2 @ recs3\<rparr> used3 g1))"

subsection \<open>The queue of changes\<close>

text \<open>
  \<open>cluster_num_changes\<close> is the length of the list. The C array has \<open>MAX_CHANGES\<close> entries. A change is
  stored before the number of changes is compared with \<open>MAX_CHANGES\<close>, so with a full queue it is
  stored one past the array, which is undefined; the flush, which asks for more changes than the
  array holds, is reached in no other way.
\<close>

definition type_changed :: "change_type \<Rightarrow> nat \<Rightarrow> l2tpns \<Rightarrow> l2tpns" where
  "type_changed ty i g =
     (let cs = remove1 (ty, i) (g_changes g) in
      if length cs \<ge> max_changes (g_abi g) then out UndefinedWrite g
      else
        let g1 = g\<lparr>g_changes := cs @ [(ty, i)]\<rparr>
        in if length (g_changes g1) > max_changes (g_abi g) then cluster_heartbeat g1 else g1)"

text \<open>\<open>forked\<close> is set in the child processes of \<open>fork_and_close\<close>, which only a session is checked for.\<close>

definition cluster_send_session :: "sessionidt \<Rightarrow> l2tpns \<Rightarrow> l2tpns" where
  "cluster_send_session s g =
     (if \<not> cf_cluster_iam_master (g_cfg g) then g
      else if g_forked g then g
      else type_changed C_CSESSION s g)"

definition cluster_send_bundle :: "bundleidt \<Rightarrow> l2tpns \<Rightarrow> l2tpns" where
  "cluster_send_bundle b g =
     (if cf_cluster_iam_master (g_cfg g) then type_changed C_CBUNDLE b g else g)"

definition cluster_send_tunnel :: "tunnelidt \<Rightarrow> l2tpns \<Rightarrow> l2tpns" where
  "cluster_send_tunnel t g =
     (if cf_cluster_iam_master (g_cfg g) then type_changed C_CTUNNEL t g else g)"

subsection \<open>Catching up\<close>

text \<open>
  The loop of \<open>cluster_catchup_slave\<close>, for the \<open>n\<close> heartbeats that the slave missed from number
  \<open>q\<close> on.
\<close>

fun catchup_loop :: "nat \<Rightarrow> int \<Rightarrow> in_addr \<Rightarrow> l2tpns \<Rightarrow> l2tpns" where
  "catchup_loop 0 q slave g = g"
| "catchup_loop (Suc n) q slave g =
     (case g_past_hearts g (nat (q mod HB_HISTORY_SIZE)) of
        None \<Rightarrow> if q = 0 then catchup_loop n ((q + 1) mod HB_MAX_SEQ) slave g else g
      | Some (q', hb) \<Rightarrow>
          if q \<noteq> q' then g
          else catchup_loop n ((q + 1) mod HB_MAX_SEQ) slave (out (HeartbeatResend slave hb) g))"

definition cluster_catchup_slave :: "int \<Rightarrow> in_addr \<Rightarrow> l2tpns \<Rightarrow> l2tpns" where
  "cluster_catchup_slave q slave g =
     (if \<not> cf_cluster_iam_master (g_cfg g)
      then out (MasterTx slave (cf_cluster_master_address (g_cfg g))) g
      else
        let d = cf_cluster_seq_number (g_cfg g) - q;
            d = (if d < 0 then d + HB_MAX_SEQ else d)
        in if d \<ge> HB_HISTORY_SIZE then out (KillTx slave q) g
           else catchup_loop (nat d) q slave g)"


subsection \<open>The walk\<close>

text \<open>Walking a table visits the numbers 1 to \<open>high\<close> in a circle, from where it stopped.\<close>

definition walk_pos :: "nat \<Rightarrow> nat \<Rightarrow> nat" where
  "walk_pos high w = (w - 1) mod high"

definition walk_ids :: "nat \<Rightarrow> nat \<Rightarrow> nat \<Rightarrow> nat list" where
  "walk_ids high w r = map (\<lambda>k. (walk_pos high w + k) mod high + 1) [0..<r]"

lemma walk_ids_Suc: "walk_ids high w (Suc r) = (walk_pos high w mod high + 1) # map (\<lambda>k. (walk_pos high w + Suc k) mod high + 1) [0..<r]"
proof -
  have "[0..<Suc r] = 0 # map Suc [0..<r]" by (simp only: map_Suc_upt upt_conv_Cons zero_less_Suc)
  then show ?thesis by (simp add: walk_ids_def del: upt_Suc)
qed

lemma hb_walk_ids:
  assumes "hb_walk room mk sz high n w used = (used', rs, w')" and "w \<le> high" and "n \<le> high"
  shows "\<exists>r \<le> n. rs = map mk (walk_ids high w r) \<and> w' \<le> high + (if high = 0 then 1 else 0) \<and>
    (0 < high \<longrightarrow> walk_pos high w' = (walk_pos high w + r) mod high)"
  using assms
proof (induction n arbitrary: w used used' rs w')
  case 0
  then show ?case by (auto simp: walk_ids_def walk_pos_def split: if_splits)
next
  case (Suc n)
  show ?case
  proof (cases "room used")
    case False
    with Suc.prems show ?thesis by (intro exI [of _ 0]) (auto simp: walk_ids_def walk_pos_def)
  next
    case True
    let ?w = "if w = 0 then 1 else w"
    have high: "0 < high" using Suc.prems(3) by simp
    obtain u rs' w2 where rec: "hb_walk room mk sz high n ((1 + ?w) mod (high + 1)) (used + sz (mk ?w)) = (u, rs', w2)"
      by (metis prod_cases3)
    from Suc.prems(1) True rec have eq: "rs = mk ?w # rs'" "w' = w2" by (simp_all add: Let_def)
    have le: "(1 + ?w) mod (high + 1) \<le> high" by (simp add: less_Suc_eq_le [symmetric])
    from Suc.IH [OF rec le] Suc.prems(3) obtain r where r: "r \<le> n" "rs' = map mk (walk_ids high ((1 + ?w) mod (high + 1)) r)"
        "w2 \<le> high" "walk_pos high w2 = (walk_pos high ((1 + ?w) mod (high + 1)) + r) mod high"
      using high by auto
    have pos: "walk_pos high w < high" "?w = walk_pos high w + 1" 
      using Suc.prems(2) high by (auto simp: walk_pos_def)
    have step: "walk_pos high ((1 + ?w) mod (high + 1)) = (walk_pos high w + 1) mod high"
    proof (cases "?w = high")
      case True
      then show ?thesis using pos high by (simp add: walk_pos_def)
    next
      case False
      then have "?w < high" using pos by linarith
      then show ?thesis using pos by (simp add: walk_pos_def)
    qed
    have ids: "walk_ids high ((1 + ?w) mod (high + 1)) r =
        map (\<lambda>k. (walk_pos high w + Suc k) mod high + 1) [0..<r]"
      unfolding walk_ids_def step by (rule map_cong) (simp_all add: mod_simps)
    have "rs = map mk (walk_ids high w (Suc r))"
      unfolding eq r(2) walk_ids_Suc ids using pos by simp
    moreover have "walk_pos high w' = (walk_pos high w + Suc r) mod high"
      unfolding eq r(4) step by (simp add: mod_add_left_eq)
    ultimately show ?thesis using r(1,3) eq by (intro exI [of _ "Suc r"]) simp
  qed
qed

lemma hb_walk_used:
  assumes "hb_walk (\<lambda>p. p + 8 + k < M) mk sz high n w used = (used', rs, w')"
    and "\<And>i. sz (mk i) \<le> 8 + k" and "used \<le> M"
  shows "used' \<le> M"
  using assms(1,3)
proof (induction n arbitrary: w used used' rs w')
  case (Suc n)
  show ?case
  proof (cases "used + 8 + k < M")
    case True
    let ?w = "if w = 0 then 1 else w"
    obtain u rs' w2 where rec: "hb_walk (\<lambda>p. p + 8 + k < M) mk sz high n ((1 + ?w) mod (high + 1)) (used + sz (mk ?w)) = (u, rs', w2)"
      by (metis prod_cases3)
    have "used + sz (mk ?w) \<le> M" using True assms(2) [of ?w] by linarith
    with Suc.IH [OF rec] Suc.prems(1) True rec show ?thesis by (simp add: Let_def)
  qed (use Suc.prems in auto)
qed simp


subsection \<open>What a heartbeat carries\<close>

text \<open>
  The sizes the code relies on: a session is the largest structure, fits twice into a heartbeat and
  is large against the header; coding never makes a record longer than the plain structure.
\<close>

definition abi_ok :: "abi \<Rightarrow> bool" where
  "abi_ok a \<longleftrightarrow> 300 \<le> a_sessiont a \<and> a_sessiont a \<le> 4000 \<and> a_tunnelt a \<le> a_sessiont a \<and>
     a_bundlet a \<le> a_sessiont a \<and> (\<forall>i x. a_rec a (HbSession i x) \<le> 8 + a_sessiont a) \<and>
     (\<forall>i x. a_rec a (HbTunnel i x) \<le> 8 + a_tunnelt a) \<and> (\<forall>i x. a_rec a (HbBundle i x) \<le> 8 + a_bundlet a)"

lemma abi_rec:
  assumes "abi_ok a"
  shows "a_rec a (HbSession i x) \<le> 8 + a_sessiont a" "a_rec a (HbTunnel i t) \<le> 8 + a_tunnelt a"
    "a_rec a (HbBundle i b) \<le> 8 + a_bundlet a" "a_tunnelt a \<le> a_sessiont a" "a_bundlet a \<le> a_sessiont a"
  using assms by (simp_all add: abi_ok_def)

lemma changes_fit:
  assumes "abi_ok a" and "length cs \<le> max_changes a + 1"
  shows "HB_HEAD_SIZE + sum_list (map (a_rec a) (map (hb_record g) cs)) \<le> MAX_HEART_SIZE"
proof -
  let ?S = "a_sessiont a" let ?q = "8192 div (?S + 4)"
  have S: "300 \<le> ?S" "?S \<le> 4000" using assms(1) by (simp_all add: abi_ok_def)
  have "a_rec a (hb_record g c) \<le> 8 + ?S" for c
  proof (cases c)
    case (Pair ty i)
    show ?thesis
      using abi_rec(1) [OF assms(1), of i "g_session g i"] abi_rec(2) [OF assms(1), of i "g_tunnel g i"]
        abi_rec(3) [OF assms(1), of i "g_bundle g i"] abi_rec(4,5) [OF assms(1)] Pair
      by (cases ty) (simp_all add: hb_record_def)
  qed
  then have "sum_list (map (a_rec a) (map (hb_record g) cs)) \<le> length cs * (8 + ?S)"
    by (induction cs) (auto intro: add_mono)
  also have "\<dots> \<le> (?q - 1) * (8 + ?S)"
  proof -
    have "2 * (?S + 4) \<le> 8192" using S by simp
    then have "2 \<le> ?q" by (simp add: less_eq_div_iff_mult_less_eq)
    with assms(2) have "length cs \<le> ?q - 1" by (simp add: max_changes_def MAX_HEART_SIZE_def)
    then show ?thesis by (rule mult_le_mono1)
  qed
  finally have le: "sum_list (map (a_rec a) (map (hb_record g) cs)) \<le> (?q - 1) * (8 + ?S)" .
  have P: "?q * (?S + 4) \<le> 8192" by (metis div_times_less_eq_dividend)
  moreover have "?q * 304 \<le> ?q * (?S + 4)" using S by (intro mult_le_mono2) simp
  ultimately have "?q \<le> 26" by linarith
  moreover have "(?q - 1) * (8 + ?S) + (8 + ?S) = ?q * (?S + 4) + 4 * ?q" if "0 < ?q"
    using that by (cases ?q) (simp_all add: algebra_simps)
  moreover have "0 < ?q" using S by (simp add: div_greater_zero_iff)
  ultimately have "(?q - 1) * (8 + ?S) \<le> 8192 + 4 * 26 - 308" using P S by linarith
  with le show ?thesis by (simp add: HB_HEAD_SIZE_def MAX_HEART_SIZE_def)
qed

lemma cluster_heartbeat_sends:
  assumes "abi_ok (g_abi g)" and "cf_cluster_iam_master (g_cfg g)"
    and "length (g_changes g) \<le> max_changes (g_abi g) + 1"
  obtains hb rest g1 where "hb_recs hb = map (hb_record g) (g_changes g) @ rest"
    and "hb_seq (hb_head hb) = cf_cluster_seq_number (g_cfg g)"
    and "cluster_heartbeat g = g1\<lparr>g_changes := [], g_out := g_out g @ [HeartbeatTx hb],
      g_past_hearts := (g_past_hearts g)(nat (cf_cluster_seq_number (g_cfg g) mod HB_HISTORY_SIZE) :=
        Some (cf_cluster_seq_number (g_cfg g), hb))\<rparr>"
    and "g_abi g1 = g_abi g" and "cf_cluster_iam_master (g_cfg g1)"
    and "cf_cluster_seq_number (g_cfg g1) = (cf_cluster_seq_number (g_cfg g) + 1) mod HB_MAX_SEQ"
proof -
  let ?c = "g_cfg g" and ?a = "g_abi g"
  let ?used = "HB_HEAD_SIZE + sum_list (map (a_rec ?a) (map (hb_record g) (g_changes g)))"
  obtain used1 recs1 ws where 1: "hb_walk (\<lambda>p. p + 8 + 2 * a_sessiont ?a < MAX_HEART_SIZE) (\<lambda>i. HbSession i (g_session g i))
      (a_rec ?a) (cf_cluster_highest_sessionid ?c) (cf_cluster_highest_sessionid ?c) (g_walk_session g) ?used
      = (used1, recs1, ws)" by (metis prod_cases3)
  obtain used2 recs2 wt where 2: "hb_walk (\<lambda>p. p + 8 + a_tunnelt ?a < MAX_HEART_SIZE) (\<lambda>i. HbTunnel i (g_tunnel g i))
      (a_rec ?a) (cf_cluster_highest_tunnelid ?c) (cf_cluster_highest_tunnelid ?c) (g_walk_tunnel g) used1
      = (used2, recs2, wt)" by (metis prod_cases3)
  obtain used3 recs3 wb where 3: "hb_walk (\<lambda>p. p + 8 + a_bundlet ?a < MAX_HEART_SIZE) (\<lambda>i. HbBundle i (g_bundle g i))
      (a_rec ?a) (cf_cluster_highest_bundleid ?c) (cf_cluster_highest_bundleid ?c) (g_walk_bundle g) used2
      = (used3, recs3, wb)" by (metis prod_cases3)
  have a: "a_rec ?a (HbSession i x) \<le> 8 + 2 * a_sessiont ?a" "a_rec ?a (HbTunnel i t) \<le> 8 + a_tunnelt ?a"
    "a_rec ?a (HbBundle i b) \<le> 8 + a_bundlet ?a" for i x t b
    using abi_rec(1) [OF assms(1), of i x] abi_rec(2) [OF assms(1), of i t]
      abi_rec(3) [OF assms(1), of i b] by simp_all
  have u0: "?used \<le> MAX_HEART_SIZE" by (rule changes_fit [OF assms(1,3)])
  have u1: "used1 \<le> MAX_HEART_SIZE" by (rule hb_walk_used [OF 1 a(1) u0])
  have u2: "used2 \<le> MAX_HEART_SIZE" by (rule hb_walk_used [OF 2 a(2) u1])
  have u3: "used3 \<le> MAX_HEART_SIZE" by (rule hb_walk_used [OF 3 a(3) u2])
  let ?ver = "cf_cluster_table_version ?c + length (g_changes g)"
  let ?hb = "\<lparr>hb_head = \<lparr>hb_seq = cf_cluster_seq_number ?c, hb_basetime = g_basetime g,
                 hb_clusterid = cf_bind_address ?c, hb_highsession = cf_cluster_highest_sessionid ?c,
                 hb_freesession = g_sessionfree g, hb_highbundle = cf_cluster_highest_bundleid ?c,
                 hb_hightunnel = cf_cluster_highest_tunnelid ?c,
                 hb_interval = cf_cluster_hb_interval ?c, hb_timeout = cf_cluster_hb_timeout ?c,
                 hb_table_version = ?ver\<rparr>,
      hb_recs = map (hb_record g) (g_changes g) @ recs1 @ recs2 @ recs3\<rparr>"
  let ?g1 = "g\<lparr>g_cfg := ?c\<lparr>cf_cluster_table_version := ?ver,
      cf_cluster_seq_number := (cf_cluster_seq_number ?c + 1) mod HB_MAX_SEQ\<rparr>,
      g_walk_session := ws, g_walk_tunnel := wt, g_walk_bundle := wb\<rparr>"
  show ?thesis
  proof (rule that [of ?hb "recs1 @ recs2 @ recs3" ?g1])
    show "cluster_heartbeat g = ?g1\<lparr>g_changes := [], g_out := g_out g @ [HeartbeatTx ?hb],
        g_past_hearts := (g_past_hearts g)(nat (cf_cluster_seq_number ?c mod HB_HISTORY_SIZE) :=
          Some (cf_cluster_seq_number ?c, ?hb))\<rparr>"
      using assms(2) u0 u3
      by (simp add: cluster_heartbeat_def Let_def 1 2 3 send_heartbeat_def out_def upd_cfg_def del: map_map)
  qed (simp_all add: assms(2))
qed


subsection \<open>Changes reach the slaves\<close>

definition send_change :: "change_type \<times> nat \<Rightarrow> l2tpns \<Rightarrow> l2tpns" where
  "send_change c g =
     (case c of (C_CSESSION, s) \<Rightarrow> cluster_send_session s g
      | (C_CBUNDLE, b) \<Rightarrow> cluster_send_bundle b g
      | (C_CTUNNEL, t) \<Rightarrow> cluster_send_tunnel t g)"

definition changes_ok :: "l2tpns \<Rightarrow> bool" where
  "changes_ok g \<longleftrightarrow> abi_ok (g_abi g) \<and> cf_cluster_iam_master (g_cfg g) \<and> \<not> g_forked g \<and>
     length (g_changes g) \<le> max_changes (g_abi g) \<and> distinct (g_changes g)"

text \<open>\<open>remdups\<close> keeps the last occurrence, as the queue does.\<close>

lemma remdups_snoc: "distinct xs \<Longrightarrow> remdups (xs @ [x]) = remove1 x xs @ [x]"
  by (induction xs) (auto simp: remove1_append remove1_idem)

lemma remdups_front: "remdups (remdups xs @ ys) = remdups (xs @ ys)"
  by (induction xs) auto

lemma send_change_eq:
  fixes g :: l2tpns and c :: "change_type \<times> nat"
  assumes "changes_ok g"
  defines "q \<equiv> remdups (g_changes g @ [c])"
  shows "send_change c g = (if length q \<le> max_changes (g_abi g) then g\<lparr>g_changes := q\<rparr> else out UndefinedWrite g)"
proof -
  obtain ty i where c: "c = (ty, i)" by (cases c)
  have "send_change c g = type_changed ty i g"
    using assms(1) by (cases ty)
      (simp_all add: c send_change_def cluster_send_session_def cluster_send_bundle_def cluster_send_tunnel_def changes_ok_def)
  moreover have "q = remove1 c (g_changes g) @ [c]"
    using assms(1) unfolding q_def by (intro remdups_snoc) (simp add: changes_ok_def)
  ultimately show ?thesis by (simp add: type_changed_def c Let_def)
qed

lemma undefined_stays: "UndefinedWrite \<in> set (g_out g) \<Longrightarrow> UndefinedWrite \<in> set (g_out (send_change c g))"
  by (simp add: send_change_def cluster_send_session_def cluster_send_bundle_def cluster_send_tunnel_def
      type_changed_def Let_def out_def split: prod.split change_type.split)

lemma send_changes_eq:
  fixes g :: l2tpns and cs :: "(change_type \<times> nat) list"
  assumes "changes_ok g"
  defines "q \<equiv> remdups (g_changes g @ cs)"
  shows "if length q \<le> max_changes (g_abi g) then fold send_change cs g = g\<lparr>g_changes := q\<rparr>
    else UndefinedWrite \<in> set (g_out (fold send_change cs g))"
  using assms(1) unfolding q_def
proof (induction cs arbitrary: g)
  case Nil
  then show ?case by (simp add: changes_ok_def distinct_remdups_id)
next
  case (Cons c cs)
  let ?q1 = "remdups (g_changes g @ [c])" and ?q = "remdups (g_changes g @ c # cs)"
  have le: "length ?q1 \<le> length ?q"
    unfolding length_remdups_card_conv by (intro card_mono) auto
  have und: "UndefinedWrite \<in> set (g_out h) \<Longrightarrow> UndefinedWrite \<in> set (g_out (fold send_change cs h))" for h
    by (induction cs arbitrary: h) (simp_all add: undefined_stays)
  show ?case
  proof (cases "length ?q1 \<le> max_changes (g_abi g)")
    case True
    let ?g1 = "g\<lparr>g_changes := ?q1\<rparr>"
    have "changes_ok ?g1" using Cons.prems True unfolding changes_ok_def by simp
    note IH = Cons.IH [OF this]
    have "remdups (?q1 @ cs) = ?q" using remdups_front [of "g_changes g @ [c]" cs] by simp
    with IH True send_change_eq [OF Cons.prems, of c] show ?thesis by simp
  next
    case False
    have "UndefinedWrite \<in> set (g_out (send_change c g))"
      using False send_change_eq [OF Cons.prems, of c] by (simp add: out_def)
    from und [OF this] False le show ?thesis by simp
  qed
qed

text \<open>
  C13: no change is lost on the way to the slaves. On a master whose queue is within bounds, after any
  sequence of changes to sessions, bundles and tunnels the next heartbeat carries each changed
  structure once, as it is then, in the order of the last changes, and the queue is empty again; but
  with more than \<open>MAX_CHANGES\<close> different structures changed since the last heartbeat the C code
  writes past its array, so nothing is promised then.
\<close>

theorem cluster_changes_delivered:
  assumes "changes_ok g" and "q = remdups (g_changes g @ cs)" and "h = fold send_change cs g"
  shows "if length q \<le> max_changes (g_abi g)
    then (\<exists>hb rest. g_out (cluster_heartbeat h) = g_out g @ [HeartbeatTx hb] \<and>
      hb_recs hb = map (hb_record h) q @ rest \<and> g_changes (cluster_heartbeat h) = [])
    else UndefinedWrite \<in> set (g_out h)"
proof (cases "length q \<le> max_changes (g_abi g)")
  case True
  with send_changes_eq [OF assms(1), of cs] have h: "h = g\<lparr>g_changes := q\<rparr>"
    unfolding assms(2,3) by simp
  have pre: "abi_ok (g_abi h)" "cf_cluster_iam_master (g_cfg h)" "length (g_changes h) \<le> max_changes (g_abi h) + 1"
    using assms(1) True by (simp_all add: h changes_ok_def)
  obtain hb rest g1 where hb: "hb_recs hb = map (hb_record h) (g_changes h) @ rest"
      and "hb_seq (hb_head hb) = cf_cluster_seq_number (g_cfg h)"
      and eq: "cluster_heartbeat h = g1\<lparr>g_changes := [], g_out := g_out h @ [HeartbeatTx hb],
        g_past_hearts := (g_past_hearts h)(nat (cf_cluster_seq_number (g_cfg h) mod HB_HISTORY_SIZE) :=
          Some (cf_cluster_seq_number (g_cfg h), hb))\<rparr>"
      and "g_abi g1 = g_abi h" "cf_cluster_iam_master (g_cfg g1)"
      and "cf_cluster_seq_number (g_cfg g1) = (cf_cluster_seq_number (g_cfg h) + 1) mod HB_MAX_SEQ"
    by (rule cluster_heartbeat_sends [OF pre])
  then have "g_out (cluster_heartbeat h) = g_out g @ [HeartbeatTx hb]" "hb_recs hb = map (hb_record h) q @ rest"
      "g_changes (cluster_heartbeat h) = []" by (simp_all add: h)
  with True show ?thesis by auto
next
  case False
  with send_changes_eq [OF assms(1), of cs] show ?thesis unfolding assms(2,3) by simp
qed

text \<open>
  The walk leaves no session out. The extra sessions of a heartbeat are the next ones of the
  circle 1, 2, ..., \<open>high\<close>, from where the last heartbeat stopped, so any \<open>high\<close> sessions sent this
  way in a row are all of them.
\<close>

lemma heartbeat_walk_circular:
  assumes "hb_walk room mk sz high high w used = (used', rs, w')" and "w \<le> high" and "0 < high"
  shows "rs = map mk (walk_ids high w (length rs)) \<and> walk_pos high w' = (walk_pos high w + length rs) mod high \<and>
    set (walk_ids high w high) = {1..high}"
proof -
  obtain r where r: "rs = map mk (walk_ids high w r)" "walk_pos high w' = (walk_pos high w + r) mod high"
    using hb_walk_ids [OF assms(1,2) order_refl] assms(3) by blast
  then have l: "length rs = r" by (simp add: walk_ids_def)
  have "\<exists>k < high. (walk_pos high w + k) mod high = i" if "i < high" for i
  proof -
    let ?p = "walk_pos high w"
    have p: "?p < high" using assms(3) by (simp add: walk_pos_def)
    show ?thesis
    proof (cases "?p \<le> i")
      case True
      with that p show ?thesis by (intro exI [of _ "i - ?p"]) auto
    next
      case False
      with that p show ?thesis by (intro exI [of _ "i + high - ?p"]) auto
    qed
  qed
  then have all: "\<exists>k < high. (walk_pos high w + k) mod high = i" if "i < high" for i using that by blast
  have c1: "i \<in> set (walk_ids high w high)" if "1 \<le> i" "i \<le> high" for i
  proof -
    have "i - 1 < high" using that by simp
    from all [OF this] obtain k where k: "k < high" "(walk_pos high w + k) mod high = i - 1" by blast
    then have "i = (walk_pos high w + k) mod high + 1" using that(1) by (simp only: le_add_diff_inverse2)
    then show ?thesis unfolding walk_ids_def set_map set_upt
      by (rule image_eqI) (use k in simp)
  qed
  have c2: "i \<in> {1..high}" if "i \<in> set (walk_ids high w high)" for i
    using that assms(3) by (auto simp: walk_ids_def Suc_le_eq)
  have "set (walk_ids high w high) = {1..high}"
    by (intro equalityI subsetI) (use c1 c2 atLeastAtMost_iff in blast)+
  with r show ?thesis unfolding l by blast
qed

lemma heartbeat_walk_circular_witness:
  "hb_walk (\<lambda>p. p < 20) (\<lambda>i. HbSession i session_zero) (\<lambda>_. 8) 5 5 4 0 =
     (24, map (\<lambda>i. HbSession i session_zero) (walk_ids 5 4 3), 2)"
proof -
  have "hb_walk (\<lambda>p. p < 20) (\<lambda>i. HbSession i session_zero) (\<lambda>_. 8) 5 5 4 0 =
      (24, [HbSession 4 session_zero, HbSession 5 session_zero, HbSession 1 session_zero], 2)"
  proof -
    have "hb_walk (\<lambda>p. p < 20) (\<lambda>i. HbSession i session_zero) (\<lambda>_. 8) 5 (Suc (Suc (Suc (Suc (Suc 0))))) 4 0 =
        (24, [HbSession 4 session_zero, HbSession 5 session_zero, HbSession 1 session_zero], 2)" by simp
    moreover have "Suc (Suc (Suc (Suc (Suc 0)))) = 5" by simp
    ultimately show ?thesis by (simp only:)
  qed
  note e = this
  let ?L = "[HbSession 4 session_zero, HbSession 5 session_zero, HbSession 1 session_zero]"
  have len: "length ?L = 3" by simp
  have "?L = map (\<lambda>i. HbSession i session_zero) (walk_ids 5 4 3)"
    using conjunct1 [OF heartbeat_walk_circular [OF e]] unfolding len by simp
  then show ?thesis unfolding e by (simp only:)
qed


lemma cluster_changes_delivered_witness:
  "\<forall>g. let a = \<lparr>a_sessiont = 2000, a_bundlet = 300, a_tunnelt = 400, a_rec = (\<lambda>_. 100)\<rparr>;
       h = g\<lparr>g_abi := a, g_changes := [(C_CTUNNEL, 2)], g_forked := False,
             g_cfg := (g_cfg g)\<lparr>cf_cluster_iam_master := True\<rparr>\<rparr>
     in g_changes (cluster_heartbeat (fold send_change [(C_CSESSION, 9)] h)) = [] \<and>
        UndefinedWrite \<in> set (g_out (fold send_change [(C_CSESSION, 9), (C_CTUNNEL, 2), (C_CSESSION, 8)] h))"
proof
  fix g :: l2tpns
  let ?a = "\<lparr>a_sessiont = 2000, a_bundlet = 300, a_tunnelt = 400, a_rec = (\<lambda>_. 100)\<rparr>"
  let ?h = "g\<lparr>g_abi := ?a, g_changes := [(C_CTUNNEL, 2)], g_forked := False,
      g_cfg := (g_cfg g)\<lparr>cf_cluster_iam_master := True\<rparr>\<rparr>"
  have mx: "max_changes (g_abi ?h) = 2" by (simp add: max_changes_def MAX_HEART_SIZE_def)
  have ok: "changes_ok ?h" by (simp add: changes_ok_def abi_ok_def max_changes_def MAX_HEART_SIZE_def)
  have len: "length (remdups (g_changes ?h @ [(C_CSESSION, 9)])) = 2"
    "length (remdups (g_changes ?h @ [(C_CSESSION, 9), (C_CTUNNEL, 2), (C_CSESSION, 8)])) = 3" by simp_all
  have "g_changes (cluster_heartbeat (fold send_change [(C_CSESSION, 9)] ?h)) = []"
    using cluster_changes_delivered [OF ok refl refl, of "[(C_CSESSION, 9)]"] unfolding len mx by auto
  moreover have "UndefinedWrite \<in> set (g_out (fold send_change [(C_CSESSION, 9), (C_CTUNNEL, 2), (C_CSESSION, 8)] ?h))"
    using cluster_changes_delivered [OF ok refl refl, of "[(C_CSESSION, 9), (C_CTUNNEL, 2), (C_CSESSION, 8)]"]
    unfolding len mx by simp
  ultimately show "let a = ?a; h = g\<lparr>g_abi := a, g_changes := [(C_CTUNNEL, 2)], g_forked := False,
             g_cfg := (g_cfg g)\<lparr>cf_cluster_iam_master := True\<rparr>\<rparr>
     in g_changes (cluster_heartbeat (fold send_change [(C_CSESSION, 9)] h)) = [] \<and>
        UndefinedWrite \<in> set (g_out (fold send_change [(C_CSESSION, 9), (C_CTUNNEL, 2), (C_CSESSION, 8)] h))"
    by (simp add: Let_def)
qed

subsection \<open>The history\<close>

text \<open>
  The ring of past heartbeats agrees with the list of all heartbeats this master, or the masters
  before it, has sent: the last 64 of them are there under their numbers.
\<close>

definition hist_ok :: "heartbeat list \<Rightarrow> l2tpns \<Rightarrow> bool" where
  "hist_ok hist g \<longleftrightarrow> cf_cluster_seq_number (g_cfg g) = int (length hist) mod HB_MAX_SEQ \<and>
     (\<forall>i < length hist. length hist \<le> i + 64 \<longrightarrow>
        g_past_hearts g (i mod 64) = Some (int i mod HB_MAX_SEQ, hist ! i))"

lemma ring_index: "nat (int i mod HB_MAX_SEQ mod HB_HISTORY_SIZE) = i mod 64"
proof -
  have "(64::int) dvd 1073741824" by simp
  then have "int i mod HB_MAX_SEQ mod HB_HISTORY_SIZE = int i mod 64"
    by (simp only: HB_MAX_SEQ_def HB_HISTORY_SIZE_def mod_mod_cancel)
  then show ?thesis by (simp add: nat_mod_as_int)
qed

lemma hist_ok_send:
  assumes "hist_ok hist g" and "g' = g1\<lparr>g_changes := [], g_out := g_out g @ [HeartbeatTx hb],
      g_past_hearts := (g_past_hearts g)(nat (cf_cluster_seq_number (g_cfg g) mod HB_HISTORY_SIZE) :=
        Some (cf_cluster_seq_number (g_cfg g), hb))\<rparr>"
    and "cf_cluster_seq_number (g_cfg g1) = (cf_cluster_seq_number (g_cfg g) + 1) mod HB_MAX_SEQ"
  shows "hist_ok (hist @ [hb]) g'"
proof -
  let ?n = "length hist"
  have q: "cf_cluster_seq_number (g_cfg g) = int ?n mod HB_MAX_SEQ" using assms(1) by (simp add: hist_ok_def)
  have p: "g_past_hearts g' = (g_past_hearts g)(?n mod 64 := Some (int ?n mod HB_MAX_SEQ, hb))"
    by (simp only: assms(2) q ring_index) simp
  have "g_past_hearts g' (i mod 64) = Some (int i mod HB_MAX_SEQ, (hist @ [hb]) ! i)"
    if "i < Suc ?n" "Suc ?n \<le> i + 64" for i
  proof (cases "i = ?n")
    case True
    then show ?thesis by (simp add: p)
  next
    case False
    with that have i: "i < ?n" "?n \<le> i + 64" "?n < i + 64" by simp_all
    have "i mod 64 \<noteq> ?n mod 64"
    proof
      assume "i mod 64 = ?n mod 64"
      then have "64 dvd ?n - i" using i by (metis less_imp_le mod_eq_dvd_iff_nat)
      with i show False by (auto dest!: dvd_imp_le)
    qed
    with i assms(1) show ?thesis by (simp add: p hist_ok_def nth_append)
  qed
  moreover have "cf_cluster_seq_number (g_cfg g') = int (length (hist @ [hb])) mod HB_MAX_SEQ"
    by (simp add: assms(2,3) q mod_simps add.commute)
  ultimately show ?thesis by (simp add: hist_ok_def)
qed

lemma catchup_loop_sends:
  assumes "hist_ok hist g" and "d \<le> length hist" and "d \<le> 64"
  shows "g_out (catchup_loop d (int (length hist - d) mod HB_MAX_SEQ) slave g) =
    g_out g @ map (HeartbeatResend slave) (drop (length hist - d) hist)"
  using assms
proof (induction d arbitrary: g)
  case (Suc d)
  let ?i = "length hist - Suc d"
  have i: "?i < length hist" "length hist \<le> ?i + 64" "Suc ?i = length hist - d" using Suc.prems by simp_all
  then have p: "g_past_hearts g (nat (int ?i mod HB_MAX_SEQ mod HB_HISTORY_SIZE)) = Some (int ?i mod HB_MAX_SEQ, hist ! ?i)"
    unfolding ring_index using Suc.prems(1) by (simp add: hist_ok_def)
  have nxt: "(int ?i mod HB_MAX_SEQ + 1) mod HB_MAX_SEQ = int (length hist - d) mod HB_MAX_SEQ"
    using i(3) by (metis mod_add_left_eq of_nat_Suc add.commute)
  have "hist_ok hist (out (HeartbeatResend slave (hist ! ?i)) g)"
    using Suc.prems(1) by (simp add: hist_ok_def out_def)
  from Suc.IH [OF this] Suc.prems(2,3)
  have "g_out (catchup_loop d (int (length hist - d) mod HB_MAX_SEQ) slave (out (HeartbeatResend slave (hist ! ?i)) g)) =
      g_out (out (HeartbeatResend slave (hist ! ?i)) g) @ map (HeartbeatResend slave) (drop (length hist - d) hist)"
    by linarith
  moreover have "catchup_loop (Suc d) (int ?i mod HB_MAX_SEQ) slave g =
      catchup_loop d (int (length hist - d) mod HB_MAX_SEQ) slave (out (HeartbeatResend slave (hist ! ?i)) g)"
    by (simp only: catchup_loop.simps p option.case prod.case nxt if_False simp_thms)
  ultimately have "g_out (catchup_loop (Suc d) (int ?i mod HB_MAX_SEQ) slave g) =
      g_out g @ HeartbeatResend slave (hist ! ?i) # map (HeartbeatResend slave) (drop (length hist - d) hist)"
    by (simp add: out_def)
  moreover have "drop ?i hist = hist ! ?i # drop (length hist - d) hist"
    using i Cons_nth_drop_Suc by metis
  ultimately show ?case by simp
qed simp

text \<open>
  Catching up a slave. A master that has sent the heartbeats \<open>hist\<close> answers a slave that misses
  the last \<open>d < 64\<close> of them with exactly these, in order, and tells a slave that misses more to
  end itself; and a heartbeat extends the history by what it sends.
\<close>

lemma cluster_catchup_complete:
  assumes "hist_ok hist g" and "cf_cluster_iam_master (g_cfg g)" and "d \<le> length hist" and "int d < HB_MAX_SEQ"
    and "q = int (length hist - d) mod HB_MAX_SEQ"
  shows "g_out (cluster_catchup_slave q slave g) =
      (if d < 64 then g_out g @ map (HeartbeatResend slave) (drop (length hist - d) hist)
       else g_out g @ [KillTx slave q]) \<and>
    (abi_ok (g_abi g) \<and> length (g_changes g) \<le> max_changes (g_abi g) \<longrightarrow>
      (\<exists>hb. hist_ok (hist @ [hb]) (cluster_heartbeat g) \<and>
        g_out (cluster_heartbeat g) = g_out g @ [HeartbeatTx hb]))"
proof -
  let ?s = "cf_cluster_seq_number (g_cfg g)" and ?M = "HB_MAX_SEQ"
  have M: "0 < ?M" by (simp add: HB_MAX_SEQ_def)
  have s: "?s = int (length hist) mod ?M" using assms(1) by (simp add: hist_ok_def)
  have "(?s - q) mod ?M = int d mod ?M"
    using assms(3) by (simp add: s assms(5) mod_simps of_nat_diff)
  then have m: "(?s - q) mod ?M = int d" using assms(4) by simp
  have r: "0 \<le> ?s" "?s < ?M" "0 \<le> q" "q < ?M" using M by (simp_all add: s assms(5))
  have diff: "(if ?s - q < 0 then ?s - q + ?M else ?s - q) = int d"
  proof (cases "?s - q < 0")
    case True
    then have "(?s - q + ?M) mod ?M = ?s - q + ?M" using r by (intro mod_pos_pos_trivial) linarith+
    with m True show ?thesis by simp
  next
    case False
    then have "(?s - q) mod ?M = ?s - q" using r by (intro mod_pos_pos_trivial) linarith+
    with m False show ?thesis by simp
  qed
  have "g_out (cluster_catchup_slave q slave g) =
      (if d < 64 then g_out (catchup_loop d q slave g) else g_out g @ [KillTx slave q])"
    using assms(2) unfolding cluster_catchup_slave_def Let_def diff
    by (simp add: HB_HISTORY_SIZE_def out_def)
  moreover have "\<exists>hb. hist_ok (hist @ [hb]) (cluster_heartbeat g) \<and>
        g_out (cluster_heartbeat g) = g_out g @ [HeartbeatTx hb]"
    if "abi_ok (g_abi g)" "length (g_changes g) \<le> max_changes (g_abi g)"
  proof -
    from that(2) have l: "length (g_changes g) \<le> max_changes (g_abi g) + 1" by simp
    show ?thesis
    proof (rule cluster_heartbeat_sends [OF that(1) assms(2) l])
      fix hb rest g1
      assume eq: "cluster_heartbeat g = g1\<lparr>g_changes := [], g_out := g_out g @ [HeartbeatTx hb],
          g_past_hearts := (g_past_hearts g)(nat (?s mod HB_HISTORY_SIZE) := Some (?s, hb))\<rparr>"
        and "cf_cluster_seq_number (g_cfg g1) = (?s + 1) mod HB_MAX_SEQ"
      from hist_ok_send [OF assms(1) this] have "hist_ok (hist @ [hb]) (cluster_heartbeat g)" .
      then show ?thesis by (intro exI [of _ hb]) (simp add: eq)
    qed
  qed
  ultimately show ?thesis
    using catchup_loop_sends [OF assms(1,3)] by (auto simp: assms(5))
qed

lemma cluster_catchup_complete_witness:
  "\<forall>g hb. g_out (cluster_catchup_slave 0 7
      (g\<lparr>g_past_hearts := [0 \<mapsto> (0, hb)], g_out := [],
         g_cfg := (g_cfg g)\<lparr>cf_cluster_iam_master := True, cf_cluster_seq_number := 1\<rparr>\<rparr>)) =
     [HeartbeatResend 7 hb]"
proof (intro allI)
  fix g :: l2tpns and hb
  let ?g = "g\<lparr>g_past_hearts := [0 \<mapsto> (0, hb)], g_out := [],
         g_cfg := (g_cfg g)\<lparr>cf_cluster_iam_master := True, cf_cluster_seq_number := 1\<rparr>\<rparr>"
  have "hist_ok [hb] ?g" by (simp add: hist_ok_def HB_MAX_SEQ_def)
  from cluster_catchup_complete [OF this, of 1 0 7]
  show "g_out (cluster_catchup_slave 0 7 ?g) = [HeartbeatResend 7 hb]" by (simp add: HB_MAX_SEQ_def)
qed

end
