(* ===== verification/Session.thy ===== *)
theory Session
  imports Radius Pool ClusterTx
begin

text \<open>
  The life of a session: RADIUS requests in flight (\<open>radiusnew\<close>, \<open>radiusclear\<close>, \<open>radiussend\<close> of
  \<^verbatim>\<open>src/radius.c\<close>), shaping and filtering, and the end of sessions, bundles and tunnels
  (\<open>sessionshutdown\<close>, \<open>sessionkill\<close>, \<open>tunnelshutdown\<close>, \<open>tunnelkill\<close> of \<^verbatim>\<open>src/l2tpns.c\<close>).
\<close>

definition TERM_ADMIN_RESET :: nat where "TERM_ADMIN_RESET = 6"
definition TERM_CALLBACK :: nat where "TERM_CALLBACK = 16"
definition TERM_REAUTHENTICATION_FAILURE :: nat where "TERM_REAUTHENTICATION_FAILURE = 20"

subsection \<open>RADIUS requests\<close>

text \<open>\<open>random_data\<close> takes the next bytes of a stream.\<close>

definition random_data :: "nat \<Rightarrow> l2tpns \<Rightarrow> bytes \<times> l2tpns" where
  "random_data n g = (map (g_random g) [0..<n], g\<lparr>g_random := (\<lambda>i. g_random g (n + i))\<rparr>)"

definition radiusclear :: "nat \<Rightarrow> sessionidt \<Rightarrow> l2tpns \<Rightarrow> l2tpns" where
  "radiusclear r s g =
     (let g1 = (if s \<noteq> 0 then upd_local s (\<lambda>l. l\<lparr>l_radius := 0\<rparr>) g else g)
      in upd_radius r (\<lambda>_. radius_zero) g1)"

fun get_free_radius :: "nat \<Rightarrow> l2tpns \<Rightarrow> l2tpns \<times> nat" where
  "get_free_radius 0 g = (g, 0)"
| "get_free_radius (Suc count) g =
     (let n = g_next_radius_id g + 1; n = (if n \<ge> MAXRADIUS then 1 else n);
          g1 = g\<lparr>g_next_radius_id := n\<rparr>
      in if rd_state (g_radius g n) = RADIUSNULL then (g1, n) else get_free_radius count g1)"

definition radiusnew :: "sessionidt \<Rightarrow> l2tpns \<Rightarrow> l2tpns \<times> nat" where
  "radiusnew s g =
     (if l_radius (g_local g s) \<noteq> 0 then (g, l_radius (g_local g s))
      else
        let (g1, r) = get_free_radius MAXRADIUS g in
        if r = 0 then (g1, 0)
        else
          let (auth, g2) = random_data 16 (upd_local s (\<lambda>l. l\<lparr>l_radius := r\<rparr>) g1)
          in (upd_radius r (\<lambda>_. radius_zero\<lparr>rd_session := s, rd_state := RADIUSWAIT,
                rd_retry := g_TIME g + 1200, rd_auth := auth\<rparr>) g2, r))"

text \<open>
  \<open>radiussend\<close>. When the tries of an authentication request are used up the session is shut down;
  the flag returned with the state says so, and \<open>radius_send\<close> below adds the call.
\<close>

definition radiussend :: "nat \<Rightarrow> radius_state \<Rightarrow> l2tpns \<Rightarrow> l2tpns \<times> bool" where
  "radiussend r state g =
     (let cfg = g_cfg g; s = rd_session (g_radius g r) in
      if cf_numradiusservers cfg = 0 then (g, False)
      else if cf_radiussecret cfg = [] then (g, False)
      else if \<not> auth_state state \<and> \<not> cf_radius_accounting cfg then (radiusclear r s g, False)
      else
        let g1 = upd_radius r (\<lambda>rd.
              let try = (if rd_state rd \<noteq> state then 0 else rd_try rd)
              in rd\<lparr>rd_state := state, rd_retry := backoff (g_now g) try + 20, rd_try := try + 1\<rparr>) g;
            rd = g_radius g1 r
        in if unat (rd_try rd) > cf_numradiusservers cfg * 2 then
             if s \<noteq> 0 then
               if auth_state state then (g1, True) else (radiusclear r s g1, False)
             else (upd_radius r (\<lambda>rd. rd\<lparr>rd_state := RADIUSWAIT, rd_retry := 100\<rparr>) g1, False)
           else
             let b = radius_packet cfg r state (word_of_int (g_time_now g)) (g_session g s) rd;
                 g2 = (if \<not> auth_state state \<and> s \<noteq> 0 \<and> state = RADIUSSTART
                       then upd_local s (\<lambda>l. l\<lparr>l_last_interim := g_time_now g\<rparr>) g1 else g1);
                 g3 = (if auth_state state then g2
                       else upd_radius r (\<lambda>rd. rd\<lparr>rd_auth := take 16 (drop 4 b)\<rparr>) g2);
                 k = (unat (rd_try rd) - 1) mod cf_numradiusservers cfg;
                 port = cf_radiusport cfg k
             in (out (RadiusTx (r mod 64) b (cf_radiusserver cfg k) (if auth_state state then port else port + 1)) g3,
                 False))"

subsection \<open>Shaping and filtering\<close>

definition throttle_in :: "sessionidt \<Rightarrow> int \<Rightarrow> l2tpns \<Rightarrow> l2tpns" where
  "throttle_in s rate g =
     (let bytes = rate * 1024 div 8;
          g1 = (if s_tbf_in (g_session g s) \<noteq> 0
                then g\<lparr>g_tbf := fst (free_tbf (int (s_tbf_in (g_session g s))) (g_tbf g))\<rparr> else g);
          (st, t) = (if rate > 0 then new_tbf (int s) (bytes * 2) bytes (Some SendIpin) (g_tbf g1) else (g_tbf g1, 0))
      in upd_session s (\<lambda>x. x\<lparr>s_throttle_in := word_of_int rate, s_tbf_in := t\<rparr>) (g1\<lparr>g_tbf := st\<rparr>))"

definition throttle_out :: "sessionidt \<Rightarrow> int \<Rightarrow> l2tpns \<Rightarrow> l2tpns" where
  "throttle_out s rate g =
     (let bytes = rate * 1024 div 8;
          g1 = (if s_tbf_out (g_session g s) \<noteq> 0
                then g\<lparr>g_tbf := fst (free_tbf (int (s_tbf_out (g_session g s))) (g_tbf g))\<rparr> else g);
          (st, t) = (if rate > 0 then new_tbf (int s) (bytes * 2) bytes (Some SendIpout) (g_tbf g1) else (g_tbf g1, 0))
      in upd_session s (\<lambda>x. x\<lparr>s_throttle_out := word_of_int rate, s_tbf_out := t\<rparr>) (g1\<lparr>g_tbf := st\<rparr>))"

definition throttle_session :: "sessionidt \<Rightarrow> int \<Rightarrow> int \<Rightarrow> l2tpns \<Rightarrow> l2tpns" where
  "throttle_session s rate_in rate_out g =
     (if s_opened (g_session g s) = 0 \<or> s_user (g_session g s) = [] then g
      else
        let g1 = (if rate_in \<ge> 0 then throttle_in s rate_in g else g)
        in if rate_out \<ge> 0 then throttle_out s rate_out g1 else g1)"

definition filter_session :: "sessionidt \<Rightarrow> int \<Rightarrow> int \<Rightarrow> l2tpns \<Rightarrow> l2tpns" where
  "filter_session s filter_in filter_out g =
     (if s_opened (g_session g s) = 0 \<or> s_user (g_session g s) = [] then g
      else
        let fin = (if filter_in > int MAXFILTER then -1 else filter_in);
            fout = (if filter_out > int MAXFILTER then -1 else filter_out);
            g1 = upd_session s (\<lambda>x. x\<lparr>s_filter_in := if s_filter_in x > MAXFILTER then 0 else s_filter_in x,
                                      s_filter_out := if s_filter_out x > MAXFILTER then 0 else s_filter_out x\<rparr>) g;
            g2 = (if fin \<ge> 0
                  then upd_session s (\<lambda>x. x\<lparr>s_filter_in := nat fin\<rparr>)
                         (filter_ref (nat fin) 1 (filter_ref (s_filter_in (g_session g1 s)) (-1) g1))
                  else g1)
        in if fout \<ge> 0
           then upd_session s (\<lambda>x. x\<lparr>s_filter_out := nat fout\<rparr>)
                  (filter_ref (nat fout) 1 (filter_ref (s_filter_out (g_session g2 s)) (-1) g2))
           else g2)"

subsection \<open>Shutting a session down\<close>

definition SHUT_ACCT :: nat where "SHUT_ACCT = 8192"

text \<open>
  The steps of \<open>sessionshutdown\<close> in their order. \<open>die\<close> is set first; the test of \<open>die\<close> in the
  RADIUS step is the code's.
\<close>

definition shutdown_die :: "sessionidt \<Rightarrow> l2tpns \<Rightarrow> l2tpns" where
  "shutdown_die s g =
     (if s_die (g_session g s) \<noteq> 0 then g
      else upd_session s (\<lambda>x. x\<lparr>s_die := g_TIME g + 150\<rparr>) (out (PluginKillSession s) g))"

definition shutdown_radius :: "sessionidt \<Rightarrow> string \<Rightarrow> nat \<Rightarrow> bool \<Rightarrow> l2tpns \<Rightarrow> l2tpns" where
  "shutdown_radius s reason term_cause walled g =
     (if s_ip (g_session g s) = 0 \<or> walled \<or> s_die (g_session g s) \<noteq> 0 then g
      else
        let (g1, r) = radiusnew s g;
            g2 = (if r \<noteq> 0 \<and> rd_state (g_radius g1 r) \<noteq> RADIUSSTOP
                  then fst (radiussend r RADIUSSTOP
                         (upd_radius r (\<lambda>rd. rd\<lparr>rd_term_cause := term_cause, rd_term_msg := Some reason\<rparr>) g1))
                  else g1)
        in if cf_accounting_dir (g_cfg g2) \<noteq> [] \<and> length (g_shut_acct g2) < SHUT_ACCT
           then g2\<lparr>g_shut_acct := g_shut_acct g2 @ [g_session g2 s]\<rparr> else g2)"

text \<open>
  The routes of the session, until the first empty one; \<open>routed\<close> counts those that cover its
  address. (For a prefix length of zero the code shifts by 32, which C leaves undefined; here that
  shift gives zero.)
\<close>

fun unroute_loop :: "sessionidt \<Rightarrow> bool \<Rightarrow> nat list \<Rightarrow> nat \<Rightarrow> l2tpns \<Rightarrow> l2tpns \<times> nat" where
  "unroute_loop s del [] routed g = (g, routed)"
| "unroute_loop s del (r # rs) routed g =
     (let sess = g_session g s; rt = s_route sess r; sh = nat (32 - rt_prefixlen rt) in
      if rt_ip rt = 0 then (g, routed)
      else
        let routed' = (if drop_bit sh (s_ip sess) = drop_bit sh (rt_ip rt) then routed + 1 else routed);
            g1 = (if del then routeset s (rt_ip rt) (rt_prefixlen rt) 0 False g else g)
        in unroute_loop s del rs routed'
             (upd_session s (\<lambda>x. x\<lparr>s_route := (s_route x)(r := (s_route x r)\<lparr>rt_ip := 0\<rparr>)\<rparr>) g1))"

fun unroute6_loop :: "sessionidt \<Rightarrow> bool \<Rightarrow> nat list \<Rightarrow> l2tpns \<Rightarrow> l2tpns" where
  "unroute6_loop s del [] g = g"
| "unroute6_loop s del (r # rs) g =
     (let rt = s_route6 (g_session g s) r in
      if s6_addr (r6_ip rt) 0 = 0 \<or> r6_prefixlen rt = 0 then g
      else
        unroute6_loop s del rs
          (upd_session s (\<lambda>x. x\<lparr>s_route6 := (s_route6 x)(r := route6_zero)\<rparr>)
            (if del then route6set s (r6_ip rt) (unat (r6_prefixlen rt)) False g else g)))"

definition shutdown_ip :: "sessionidt \<Rightarrow> bool \<Rightarrow> l2tpns \<Rightarrow> l2tpns" where
  "shutdown_ip s del g =
     (let (g1, routed) = unroute_loop s del [0..<MAXROUTE] 0 g;
          g2 = (if s_ip_pool_index (g_session g1 s) = -1
                then upd_session s (\<lambda>x. x\<lparr>s_ip := 0\<rparr>)
                       (if routed = 0 \<and> del then routeset s (s_ip (g_session g1 s)) 0 0 False g1 else g1)
                else free_ip_address s g1);
          g3 = unroute6_loop s del [0..<MAXROUTE6] g2
      in if s6_addr (s_ipv6address (g_session g3 s)) 0 \<noteq> 0 \<and> del
         then route6set s (s_ipv6address (g_session g3 s)) 128 False g3 else g3)"

definition bundleclear :: "bundleidt \<Rightarrow> l2tpns \<Rightarrow> l2tpns" where
  "bundleclear b g = (if b = 0 then g else upd_bundle b (\<lambda>_. bundle_zero) g)"

text \<open>The new first member of a bundle takes over the cached addresses.\<close>

fun recache_routes :: "sessionidt \<Rightarrow> nat list \<Rightarrow> l2tpns \<Rightarrow> l2tpns" where
  "recache_routes n [] g = g"
| "recache_routes n (r # rs) g =
     (let rt = s_route (g_session g n) r; pl = (if rt_prefixlen rt = 0 then 32 else rt_prefixlen rt) in
      if rt_ip rt = 0 then g
      else recache_routes n rs (cache_route (route_first (rt_ip rt) pl) pl (int n) g))"

fun recache_routes6 :: "sessionidt \<Rightarrow> nat list \<Rightarrow> l2tpns \<Rightarrow> l2tpns" where
  "recache_routes6 n [] g = g"
| "recache_routes6 n (r # rs) g =
     (let rt = s_route6 (g_session g n) r in
      if r6_prefixlen rt = 0 then g
      else recache_routes6 n rs (cache_ip6 (r6_ip rt) (unat (r6_prefixlen rt)) n g))"

definition recache_session :: "sessionidt \<Rightarrow> l2tpns \<Rightarrow> l2tpns" where
  "recache_session n g =
     (let g1 = recache_routes6 n [0..<MAXROUTE6]
                 (cache_ip (s_ip (g_session g n)) (int n) (recache_routes n [0..<MAXROUTE] g))
      in if s6_addr (s_ipv6address (g_session g1 n)) 0 \<noteq> 0
         then cache_ip6 (s_ipv6address (g_session g1 n)) 128 n g1 else g1)"

definition drop_member :: "sessionidt \<Rightarrow> bundleidt \<Rightarrow> l2tpns \<Rightarrow> l2tpns" where
  "drop_member s b g =
     (let n = b_num_of_links (g_bundle g b); ms = b_members (g_bundle g b) in
      if ms n = s then g
      else
        let k = (case find (\<lambda>m. ms m = s) [0..<n] of None \<Rightarrow> 0 | Some m \<Rightarrow> m);
            g1 = upd_bundle b (\<lambda>x. x\<lparr>b_members := ms(k := ms n)\<rparr>) g
        in if k = 0 then recache_session (b_members (g_bundle g1 b) 0) g1 else g1)"

definition shutdown_bundle :: "sessionidt \<Rightarrow> bundleidt \<Rightarrow> l2tpns \<Rightarrow> l2tpns" where
  "shutdown_bundle s b g =
     (if b = 0 then g
      else
        let g1 = upd_bundle b (\<lambda>x. x\<lparr>b_num_of_links := (b_num_of_links x + 255) mod 256\<rparr>) g
        in cluster_send_bundle b
             (if b_num_of_links (g_bundle g1 b) = 0 then bundleclear b g1 else drop_member s b g1))"

definition shutdown_cdn :: "sessionidt \<Rightarrow> nat \<Rightarrow> nat \<Rightarrow> l2tpns \<Rightarrow> l2tpns" where
  "shutdown_cdn s result error g =
     (if result = 0 then g
      else if s_tunnel (g_session g s) = TUNNEL_ID_PPPOE then out (PppoeShutdown s) g
      else
        let c = controlnew 14;
            c = (if error \<noteq> 0 then controlb c 1 (be16 (of_nat result) @ be16 (of_nat error)) True
                 else control16 c 1 (of_nat result) True);
            c = control16 c 14 (of_nat s) True
        in g_controladd c (s_far (g_session g s)) (s_tunnel (g_session g s)) g)"

definition shutdown_ppp :: "sessionidt \<Rightarrow> l2tpns \<Rightarrow> l2tpns" where
  "shutdown_ppp s g =
     upd_local s (\<lambda>l. l\<lparr>l_lcp := (l_lcp l)\<lparr>f_restart := 0\<rparr>, l_ipcp := (l_ipcp l)\<lparr>f_restart := 0\<rparr>,
         l_ipv6cp := (l_ipv6cp l)\<lparr>f_restart := 0\<rparr>, l_ccp := (l_ccp l)\<lparr>f_restart := 0\<rparr>\<rparr>)
       (upd_session s (\<lambda>x. x\<lparr>s_ppp := ppp_zero\<rparr>) g)"

definition shutdown_die_again :: "sessionidt \<Rightarrow> l2tpns \<Rightarrow> l2tpns" where
  "shutdown_die_again s g =
     (if s_die (g_session g s) = 0 then upd_session s (\<lambda>x. x\<lparr>s_die := g_TIME g + 150\<rparr>) g else g)"

definition shutdown_release :: "sessionidt \<Rightarrow> bundleidt \<Rightarrow> bool \<Rightarrow> nat \<Rightarrow> l2tpns \<Rightarrow> l2tpns" where
  "shutdown_release s b del term_cause g =
     (if s_ip (g_session g s) \<noteq> 0 \<and> term_cause \<noteq> TERM_CALLBACK
      then shutdown_bundle s b (shutdown_ip s del g) else g)"

definition shutdown_throttle :: "sessionidt \<Rightarrow> l2tpns \<Rightarrow> l2tpns" where
  "shutdown_throttle s g =
     (if s_throttle_in (g_session g s) \<noteq> 0 \<or> s_throttle_out (g_session g s) \<noteq> 0
      then throttle_session s 0 0 g else g)"

definition shutdown_filters :: "sessionidt \<Rightarrow> l2tpns \<Rightarrow> l2tpns" where
  "shutdown_filters s g =
     filter_ref (s_filter_out (g_session g s)) (-1) (filter_ref (s_filter_in (g_session g s)) (-1) g)"

definition sessionshutdown :: "sessionidt \<Rightarrow> string \<Rightarrow> nat \<Rightarrow> nat \<Rightarrow> nat \<Rightarrow> l2tpns \<Rightarrow> l2tpns" where
  "sessionshutdown s reason cdn_result cdn_error term_cause g =
     (let sess = g_session g s; walled = (s_walled_garden sess \<noteq> 0); b = s_bundle sess;
          del = (b = 0 \<or> b_num_of_links (g_bundle g b) = 1)
      in if s_opened sess = 0 then g
         else cluster_send_session s
           (shutdown_ppp s
             (shutdown_filters s
               (shutdown_cdn s cdn_result cdn_error
                 (shutdown_throttle s
                   (shutdown_release s b del term_cause
                     (shutdown_die_again s
                       (shutdown_radius s reason term_cause walled
                         (shutdown_die s g)))))))))"

text \<open>\<open>radiussend\<close> with the shutdown of a session whose authentication was not answered.\<close>

definition radius_send :: "nat \<Rightarrow> radius_state \<Rightarrow> l2tpns \<Rightarrow> l2tpns" where
  "radius_send r state g =
     (let (g1, timeout) = radiussend r state g in
      if timeout
      then sessionshutdown (rd_session (g_radius g r)) ''RADIUS timeout.'' 3 0 TERM_REAUTHENTICATION_FAILURE g1
      else g1)"

subsection \<open>Killing sessions and tunnels\<close>

definition sessionclear :: "sessionidt \<Rightarrow> l2tpns \<Rightarrow> l2tpns" where
  "sessionclear s g =
     (let g1 = upd_session s (\<lambda>_. session_zero\<lparr>s_tunnel := T_FREE, s_next := g_sessionfree g\<rparr>) g;
          g2 = upd_local s (\<lambda>_. local_zero) g1
      in g2\<lparr>g_cli_session := (g_cli_session g2)(s := cli_zero), g_sessionfree := s\<rparr>)"

definition sessionkill :: "sessionidt \<Rightarrow> string option \<Rightarrow> nat \<Rightarrow> l2tpns \<Rightarrow> l2tpns" where
  "sessionkill s reason term_cause g =
     (if s_opened (g_session g s) = 0 then g
      else if s_next (g_session g s) \<noteq> 0 then g
      else
        let why = (case reason of Some r \<Rightarrow> r | None \<Rightarrow> ''Murdered!'');
            g1 = (if s_die (g_session g s) = 0
                  then sessionshutdown s why (if reason \<noteq> None then 3 else 0) 0 term_cause g else g);
            g2 = (if l_radius (g_local g1 s) \<noteq> 0 then radiusclear (l_radius (g_local g1 s)) s g1 else g1);
            f = s_forwardtosession (g_session g2 s);
            g3 = (if f \<noteq> 0 \<and> s_forwardtosession (g_session g2 f) = s
                  then sessionshutdown f why 3 0 TERM_ADMIN_RESET g2 else g2)
        in cluster_send_session s (sessionclear s g3))"

definition tunnelclear :: "tunnelidt \<Rightarrow> l2tpns \<Rightarrow> l2tpns" where
  "tunnelclear t g = (if t = 0 then g else upd_tunnel t (\<lambda>_. tunnel_zero) g)"

definition kill_tunnel_session :: "tunnelidt \<Rightarrow> string \<Rightarrow> sessionidt \<Rightarrow> l2tpns \<Rightarrow> l2tpns" where
  "kill_tunnel_session t reason s g =
     (if s_tunnel (g_session g s) = t
      then sessionkill s (if reason = ''Timeout on control message'' then None else Some reason) TERM_ADMIN_RESET g
      else g)"

definition tunnelkill :: "tunnelidt \<Rightarrow> string \<Rightarrow> l2tpns \<Rightarrow> l2tpns" where
  "tunnelkill t reason g =
     (let g1 = upd_tunnel t (\<lambda>x. x\<lparr>t_state := TUNNELDIE,
                 t_controlc := t_controlc x - of_nat (length (t_controls x)), t_controls := []\<rparr>) g;
          g2 = fold (kill_tunnel_session t reason) [1..<cf_cluster_highest_sessionid (g_cfg g) + 1] g1;
          g3 = tunnelclear t g2
      in cluster_send_tunnel t (g3\<lparr>g_cli_tunnel := (g_cli_tunnel g3)(t := 0)\<rparr>))"

definition shut_tunnel_session :: "tunnelidt \<Rightarrow> string \<Rightarrow> sessionidt \<Rightarrow> l2tpns \<Rightarrow> l2tpns" where
  "shut_tunnel_session t reason s g =
     (if s_tunnel (g_session g s) = t then sessionshutdown s reason 0 0 TERM_ADMIN_RESET g else g)"

definition stopccn :: "tunnelidt \<Rightarrow> nat \<Rightarrow> nat \<Rightarrow> bytes option \<Rightarrow> bytes" where
  "stopccn t result error msg =
     (let c = controlnew 4;
          c = (if error \<noteq> 0
               then controlb c 1 (be16 (of_nat result) @ be16 (of_nat error) @
                      (case msg of None \<Rightarrow> [] | Some m \<Rightarrow> take 60 m)) True
               else control16 c 1 (of_nat result) True)
      in control16 c 9 (of_nat t) True)"

definition tunnelshutdown :: "tunnelidt \<Rightarrow> string \<Rightarrow> nat \<Rightarrow> nat \<Rightarrow> bytes option \<Rightarrow> l2tpns \<Rightarrow> l2tpns" where
  "tunnelshutdown t reason result error msg g =
     (if t_last (g_tunnel g t) = 0 \<or> t_far (g_tunnel g t) = 0 \<or> t_state (g_tunnel g t) = TUNNELFREE
      then tunnelkill t reason g
      else
        let g1 = fold (shut_tunnel_session t reason) [1..<cf_cluster_highest_sessionid (g_cfg g) + 1] g;
            g2 = cluster_send_tunnel t
                   (upd_tunnel t (\<lambda>x. x\<lparr>t_state := TUNNELDIE, t_die := g_TIME g1 + 700\<rparr>) g1)
        in if result = 0 then g2 else g_controladd (stopccn t result error msg) 0 t g2)"

end
