(* ===== verification/ClusterRx.thy ===== *)
theory ClusterRx
  imports Session
begin

text \<open>
  The cluster as a node sees it (\<^verbatim>\<open>src/cluster.c\<close>): pings and the table of peers, the election of a
  master and the takeover of the tables, heartbeats received by a slave, byte counters sent to the
  master, and packets forwarded to it; with \<open>load_session\<close> of \<^verbatim>\<open>src/l2tpns.c\<close>.
\<close>

subsection \<open>Messages\<close>

text \<open>Integers of the cluster protocol are in host order (little-endian); addresses are as in memory.\<close>

definition add_type :: "u32 \<Rightarrow> u32 \<Rightarrow> bytes \<Rightarrow> bytes" where
  "add_type ty extra data = le32 ty @ le32 extra @ data"

definition C_HEARTBEAT :: u32 where "C_HEARTBEAT = 1"
definition C_PING :: u32 where "C_PING = 3"
definition C_LASTSEEN :: u32 where "C_LASTSEEN = 7"
definition C_KILL :: u32 where "C_KILL = 8"
definition C_FORWARD :: u32 where "C_FORWARD = 9"
definition C_BYTES :: u32 where "C_BYTES = 10"
definition C_THROTTLE :: u32 where "C_THROTTLE = 11"
definition C_GARDEN :: u32 where "C_GARDEN = 14"
definition C_MASTER :: u32 where "C_MASTER = 15"
definition C_FORWARD_DAE :: u32 where "C_FORWARD_DAE = 16"
definition C_MPPP_FORWARD :: u32 where "C_MPPP_FORWARD = 19"
definition C_PPPOE_FORWARD :: u32 where "C_PPPOE_FORWARD = 20"

text \<open>\<open>peer_send_data\<close> sends nothing to the address 0.\<close>

definition peer_send_data :: "in_addr \<Rightarrow> bytes \<Rightarrow> l2tpns \<Rightarrow> l2tpns" where
  "peer_send_data peer data g = (if peer = 0 then g else out (PeerTx peer data) g)"

definition to_master :: "bytes \<Rightarrow> l2tpns \<Rightarrow> l2tpns" where
  "to_master data g =
     (if cf_cluster_master_address (g_cfg g) = 0 then g
      else peer_send_data (cf_cluster_master_address (g_cfg g)) data g)"

definition master_forward_packet :: "bytes \<Rightarrow> in_addr \<Rightarrow> u16 \<Rightarrow> u16 \<Rightarrow> l2tpns \<Rightarrow> l2tpns" where
  "master_forward_packet data addr port indexudp g =
     to_master (le32 C_FORWARD @ be32 addr @ le32 (ucast port OR push_bit 16 (ucast indexudp)) @ data) g"

definition master_forward_pppoe_packet :: "bytes \<Rightarrow> u8 \<Rightarrow> l2tpns \<Rightarrow> l2tpns" where
  "master_forward_pppoe_packet data codepad g = to_master (add_type C_PPPOE_FORWARD (ucast codepad) data) g"

definition master_forward_dae_packet :: "bytes \<Rightarrow> in_addr \<Rightarrow> u32 \<Rightarrow> l2tpns \<Rightarrow> l2tpns" where
  "master_forward_dae_packet data addr port g = to_master (le32 C_FORWARD_DAE @ be32 addr @ le32 port @ data) g"

definition master_throttle_packet :: "u32 \<Rightarrow> bytes \<Rightarrow> l2tpns \<Rightarrow> l2tpns" where
  "master_throttle_packet tbfid data g = to_master (add_type C_THROTTLE tbfid data) g"

definition master_garden_packet :: "sessionidt \<Rightarrow> bytes \<Rightarrow> l2tpns \<Rightarrow> l2tpns" where
  "master_garden_packet s data g = to_master (add_type C_GARDEN (of_nat s) data) g"

definition master_forward_mppp_packet :: "sessionidt \<Rightarrow> bytes \<Rightarrow> l2tpns \<Rightarrow> l2tpns" where
  "master_forward_mppp_packet s data g = to_master (add_type C_MPPP_FORWARD (of_nat s) data) g"

definition send_lastseen :: "in_addr \<Rightarrow> l2tpns \<Rightarrow> l2tpns" where
  "send_lastseen peer g =
     (if peer = 0 then g else out (LastSeenTx peer (cf_cluster_seq_number (g_cfg g))) g)"

subsection \<open>Routes and being up to date\<close>

definition advertise_routes :: "l2tpns \<Rightarrow> l2tpns" where
  "advertise_routes g =
     (if bg_configured (g_bgp g) then g\<lparr>g_bgp := bgp_enable_routing True (g_bgp g)\<rparr>
      else if cf_send_garp (g_cfg g) then out (GarpTx (cf_bind_address (g_cfg g))) g
      else g)"

definition withdraw_routes :: "l2tpns \<Rightarrow> l2tpns" where
  "withdraw_routes g =
     (if bg_configured (g_bgp g) then g\<lparr>g_bgp := bgp_enable_routing False (g_bgp g)\<rparr> else g)"

definition undefined_left :: "configt \<Rightarrow> bool" where
  "undefined_left c \<longleftrightarrow> cf_cluster_undefined_sessions c \<noteq> 0 \<or> cf_cluster_undefined_tunnels c \<noteq> 0 \<or>
     cf_cluster_undefined_bundles c \<noteq> 0"

definition cluster_uptodate :: "l2tpns \<Rightarrow> l2tpns" where
  "cluster_uptodate g =
     (if cf_cluster_iam_uptodate (g_cfg g) then g
      else if undefined_left (g_cfg g) then g
      else advertise_routes (upd_cfg (\<lambda>c. c\<lparr>cf_cluster_iam_uptodate := True\<rparr>) g))"

definition cluster_send_ping :: "u32 \<Rightarrow> l2tpns \<Rightarrow> l2tpns" where
  "cluster_send_ping base g =
     (if cf_cluster_iam_master (g_cfg g) \<and> base \<noteq> 0 then g
      else out (PingTx base (of_int (cf_cluster_undefined_sessions (g_cfg g) +
             cf_cluster_undefined_tunnels (g_cfg g) + cf_cluster_undefined_bundles (g_cfg g)))) g)"

subsection \<open>Byte counters\<close>

definition MAX_B_RECS :: nat where "MAX_B_RECS = 600"

text \<open>The loop of \<open>master_update_counts\<close> with the rounds left and the records collected.\<close>

fun counts_loop :: "nat \<Rightarrow> (nat \<times> u32 \<times> u32 \<times> u32 \<times> u32) list \<Rightarrow> l2tpns \<Rightarrow>
    l2tpns \<times> (nat \<times> u32 \<times> u32 \<times> u32 \<times> u32) list" where
  "counts_loop 0 b g = (g, b)"
| "counts_loop (Suc i) b g =
     (let w = g_walk_session g + 1;
          w = (if w > cf_cluster_highest_sessionid (g_cfg g) then 1 else w);
          g1 = g\<lparr>g_walk_session := w\<rparr>;
          l = g_local g1 w
      in if l_cin l = 0 \<and> l_cout l = 0 then counts_loop i b g1
         else
           let b1 = b @ [(w, l_pin l, l_pout l, l_cin l, l_cout l)];
               g2 = upd_local w (\<lambda>l. l\<lparr>l_pin := 0, l_pout := 0, l_cin := 0, l_cout := 0\<rparr>) g1
           in if length b1 > MAX_B_RECS then (g2, b1) else counts_loop i b1 g2)"

definition master_update_counts :: "l2tpns \<Rightarrow> l2tpns" where
  "master_update_counts g =
     (if cf_cluster_iam_master (g_cfg g) \<or> cf_cluster_master_address (g_cfg g) = 0 then g
      else
        let (g1, b) = counts_loop (max (MAX_B_RECS * 5) (cf_cluster_highest_sessionid (g_cfg g))) [] g
        in if b = [] then g1 else out (BytesTx (cf_cluster_master_address (g_cfg g)) b) g1)"

definition increment_counter :: "u32 \<Rightarrow> u32 \<Rightarrow> u32 \<Rightarrow> u32 \<times> u32" where
  "increment_counter counter wrap delta =
     (let n = counter + delta in (n, if n < counter then wrap + 1 else wrap))"

definition add_bytes :: "u32 \<Rightarrow> u32 \<Rightarrow> u32 \<Rightarrow> u32 \<Rightarrow> sessiont \<Rightarrow> sessiont" where
  "add_bytes pin pout cin cout x =
     (let (ci, ciw) = increment_counter (s_cin x) (s_cin_wrap x) cin;
          (co, cow) = increment_counter (s_cout x) (s_cout_wrap x) cout
      in x\<lparr>s_pin := s_pin x + pin, s_pout := s_pout x + pout, s_cin := ci, s_cin_wrap := ciw,
           s_cout := co, s_cout_wrap := cow,
           s_cin_delta := s_cin_delta x + cin, s_cout_delta := s_cout_delta x + cout\<rparr>)"

fun cluster_handle_bytes :: "(nat \<times> u32 \<times> u32 \<times> u32 \<times> u32) list \<Rightarrow> l2tpns \<Rightarrow> l2tpns" where
  "cluster_handle_bytes [] g = g"
| "cluster_handle_bytes ((sid, pin, pout, cin, cout) # bs) g =
     (if sid > MAXSESSION then g
      else cluster_handle_bytes bs
        (upd_session sid (\<lambda>x.
           let y = add_bytes pin pout cin cout x
           in if cin \<noteq> 0 then y\<lparr>s_last_packet := g_time_now g, s_last_data := g_time_now g\<rparr>
              else if cout \<noteq> 0 then y\<lparr>s_last_data := g_time_now g\<rparr> else y) g))"

subsection \<open>Slaves and elections\<close>

text \<open>A peer that was heard of in time and is not shutting down.\<close>

definition peer_alive :: "l2tpns \<Rightarrow> peert \<Rightarrow> bool" where
  "peer_alive g p \<longleftrightarrow>
     \<not> pe_timestamp p + of_int (cf_cluster_hb_timeout (g_cfg g)) < g_TIME g \<and> pe_basetime p \<noteq> 0"

definition cluster_check_slaves :: "l2tpns \<Rightarrow> l2tpns" where
  "cluster_check_slaves g =
     (if \<not> cf_cluster_iam_master (g_cfg g) then g
      else
        let had = g_have_peers g;
            alive = filter (peer_alive g) (g_peers g);
            have' = int (length (filter pe_uptodate alive));
            g1 = (upd_cfg (\<lambda>c. c\<lparr>cf_cluster_iam_uptodate := (\<forall>p \<in> set alive. pe_uptodate p)\<rparr>) g)
                   \<lparr>g_have_peers := have'\<rparr>;
            adv = cf_cluster_master_min_adv (g_cfg g)
        in if have' \<noteq> had then
             if had < adv \<and> have' \<ge> adv then withdraw_routes g1
             else if had \<ge> adv \<and> have' < adv then advertise_routes g1 else g1
           else g1)"

text \<open>
  The vote: the first peer that wins against this node ends the search (None); otherwise the number
  of peers that are up to date. Addresses are compared as the integers they are in memory.
\<close>

definition peer_wins :: "l2tpns \<Rightarrow> peert \<Rightarrow> bool" where
  "peer_wins g p \<longleftrightarrow> pe_basetime p < g_basetime g \<or>
     pe_basetime p = g_basetime g \<and> htonl (pe_peer p) > htonl (cf_my_address (g_cfg g))"

fun vote :: "l2tpns \<Rightarrow> peert list \<Rightarrow> int \<Rightarrow> int option" where
  "vote g [] n = Some n"
| "vote g (p # ps) n =
     (if \<not> peer_alive g p then vote g ps n
      else if peer_wins g p then None
      else vote g ps (if pe_uptodate p then n + 1 else n))"

definition highest :: "(nat \<Rightarrow> bool) \<Rightarrow> nat \<Rightarrow> nat" where
  "highest used n = fold (\<lambda>i h. if used i \<and> i > h then i else h) [0..<n] 0"

definition takeover_tunnels :: "l2tpns \<Rightarrow> l2tpns" where
  "takeover_tunnels g =
     (let g1 = g\<lparr>g_tunnel := (\<lambda>i. if i < MAXTUNNEL \<and> t_state (g_tunnel g i) = TUNNELUNDEF
                              then (g_tunnel g i)\<lparr>t_state := TUNNELFREE\<rparr> else g_tunnel g i)\<rparr>
      in upd_cfg (\<lambda>c. c\<lparr>cf_cluster_highest_tunnelid :=
                          highest (\<lambda>i. t_state (g_tunnel g1 i) \<noteq> TUNNELFREE) MAXTUNNEL\<rparr>) g1)"

definition takeover_bundles :: "l2tpns \<Rightarrow> l2tpns" where
  "takeover_bundles g =
     (let g1 = g\<lparr>g_bundle := (\<lambda>i. if i < MAXBUNDLE \<and> b_state (g_bundle g i) = BUNDLEUNDEF
                              then (g_bundle g i)\<lparr>b_state := BUNDLEFREE\<rparr> else g_bundle g i)\<rparr>
      in upd_cfg (\<lambda>c. c\<lparr>cf_cluster_highest_bundleid :=
                          highest (\<lambda>i. b_state (g_bundle g1 i) \<noteq> BUNDLEFREE) MAXBUNDLE\<rparr>) g1)"

text \<open>An unused session joins the chain of free ones; a used one takes over what this node counted.\<close>

definition link_free :: "nat \<Rightarrow> nat \<Rightarrow> l2tpns \<Rightarrow> l2tpns" where
  "link_free last_free i g =
     upd_session i (\<lambda>x. x\<lparr>s_next := 0\<rparr>)
       (upd_session last_free (\<lambda>x. x\<lparr>s_next := i\<rparr>)
         (upd_session i (\<lambda>_. session_zero\<lparr>s_tunnel := T_FREE\<rparr>) g))"

definition add_free_bytes :: "u32 \<Rightarrow> u32 \<Rightarrow> sessiont \<Rightarrow> sessiont" where
  "add_free_bytes fcin fcout x =
     (let (ci, ciw) = increment_counter (s_fcin x) (s_fcin_wrap x) fcin;
          (co, cow) = increment_counter (s_fcout x) (s_fcout_wrap x) fcout
      in x\<lparr>s_fcin := ci, s_fcin_wrap := ciw, s_fcout := co, s_fcout_wrap := cow,
           s_fcin_delta := s_fcin_delta x + fcin, s_fcout_delta := s_fcout_delta x + fcout\<rparr>)"

definition adopt :: "nat \<Rightarrow> l2tpns \<Rightarrow> l2tpns" where
  "adopt i g =
     (let l = g_local g i;
          g1 = upd_session i (\<lambda>x. x\<lparr>s_last_packet := g_time_now g, s_last_data := g_time_now g,
                                    s_die := (if s_die x \<noteq> 0 then g_TIME g else 0)\<rparr>) g;
          g2 = upd_session i (\<lambda>x. add_bytes (l_pin l) (l_pout l) (l_cin l) (l_cout l)
                                    (add_free_bytes (l_fcin l) (l_fcout l) x)) g1;
          g3 = upd_local i (\<lambda>l. l\<lparr>l_fcin := 0, l_fcout := 0, l_cin := 0, l_cout := 0, l_pin := 0,
                                  l_pout := 0, l_radius := 0\<rparr>) g2;
          g4 = upd_session i (\<lambda>x. x\<lparr>s_tbf_in := 0, s_tbf_out := 0\<rparr>) g3;
          g5 = throttle_session i (int (unat (s_throttle_in (g_session g4 i))))
                 (int (unat (s_throttle_out (g_session g4 i)))) g4
      in upd_cfg (\<lambda>c. c\<lparr>cf_cluster_highest_sessionid := i\<rparr>) g5)"

fun takeover_sessions :: "nat list \<Rightarrow> nat \<Rightarrow> u32 \<Rightarrow> l2tpns \<Rightarrow> nat \<times> u32 \<times> l2tpns" where
  "takeover_sessions [] last_free uid g = (last_free, uid, g)"
| "takeover_sessions (i # is) last_free uid g =
     (let g1 = (if s_tunnel (g_session g i) = T_UNDEF
                then upd_session i (\<lambda>x. x\<lparr>s_tunnel := T_FREE\<rparr>) g else g)
      in if s_opened (g_session g1 i) = 0
         then takeover_sessions is i uid (link_free last_free i g1)
         else
           let u = s_unique_id (g_session g1 i)
           in takeover_sessions is last_free (if u \<ge> uid then u + 1 else uid) (adopt i g1))"

definition become_master :: "l2tpns \<Rightarrow> l2tpns" where
  "become_master g =
     fold (\<lambda>s g. if s_opened (g_session g s) = 0 then g else out (PluginNewSessionMaster s) g)
       [1..<cf_cluster_highest_sessionid (g_cfg g) + 1] (out PluginBecomeMaster g)"

definition takeover :: "int \<Rightarrow> l2tpns \<Rightarrow> l2tpns" where
  "takeover have_peers g =
     (let g1 = out Garp (upd_cfg (\<lambda>c. c\<lparr>cf_cluster_iam_master := True\<rparr>) g);
          g2 = (if have_peers < cf_cluster_master_min_adv (g_cfg g1) then advertise_routes g1 else withdraw_routes g1);
          g3 = (if cf_cluster_seq_number (g_cfg g2) = -1
                then upd_cfg (\<lambda>c. c\<lparr>cf_cluster_seq_number := 0\<rparr>) g2 else g2);
          g4 = takeover_bundles (takeover_tunnels g3);
          (last_free, uid, g5) = takeover_sessions [0..<MAXSESSION] 0 0
             (upd_cfg (\<lambda>c. c\<lparr>cf_cluster_highest_sessionid := 0\<rparr>) g4);
          g6 = (upd_session last_free (\<lambda>x. x\<lparr>s_next := 0\<rparr>) g5)\<lparr>g_last_id := uid\<rparr>;
          g7 = rebuild_address_pool (become_master g6)
      in upd_cfg (\<lambda>c. c\<lparr>cf_cluster_undefined_sessions := 0, cf_cluster_undefined_bundles := 0,
                         cf_cluster_undefined_tunnels := 0, cf_cluster_iam_uptodate := True\<rparr>) g7)"

text \<open>Probing a master that is late.\<close>

definition probe_master :: "l2tpns \<Rightarrow> l2tpns" where
  "probe_master g =
     (let c = g_cfg g; iv = cf_cluster_hb_interval c in
      if cf_cluster_master_address c \<noteq> 0 \<and> g_TIME g > cf_cluster_last_hb c + of_int (2 * iv + 11)
      then
        if g_probed g = 0 \<or> g_TIME g > g_probed g + of_int (2 * iv)
        then send_lastseen (cf_cluster_master_address c) (g\<lparr>g_probed := g_TIME g\<rparr>)
        else g
      else g\<lparr>g_probed := 0\<rparr>)"

definition cluster_check_master :: "l2tpns \<Rightarrow> l2tpns" where
  "cluster_check_master g =
     (if cf_cluster_iam_master (g_cfg g) then g
      else
        let g1 = probe_master g in
        if g_TIME g1 < cf_cluster_last_hb (g_cfg g1) + of_int (cf_cluster_hb_timeout (g_cfg g1)) then g1
        else
          let g2 = upd_cfg (\<lambda>c. c\<lparr>cf_cluster_last_hb := g_TIME g1 + 1, cf_cluster_master_address := 0\<rparr>) g1 in
          if g_quit g2 then g2
          else (case vote g2 (g_peers g2) 0 of None \<Rightarrow> g2 | Some n \<Rightarrow> takeover n g2))"

subsection \<open>Peers\<close>

fun first_index :: "('a \<Rightarrow> bool) \<Rightarrow> 'a list \<Rightarrow> nat" where
  "first_index P [] = 0"
| "first_index P (x # xs) = (if P x then 0 else Suc (first_index P xs))"

definition cluster_add_peer :: "in_addr \<Rightarrow> u32 \<Rightarrow> bytes \<Rightarrow> l2tpns \<Rightarrow> l2tpns" where
  "cluster_add_peer peer base pp g =
     (let p = take 16 pp @ replicate (16 - length pp) 0;
          entry = \<lparr>pe_peer = peer, pe_basetime = base, pe_timestamp = g_TIME g,
                   pe_uptodate = (of_le32 (drop 8 p) = 0)\<rparr>
      in if of_be32 p \<noteq> cf_bind_address (g_cfg g) then g
         else
           let i = first_index (\<lambda>q. pe_peer q = peer) (g_peers g);
               known = i < length (g_peers g);
               g1 = (if known then g\<lparr>g_peers := (g_peers g)[i := entry]\<rparr> else g);
               g2 = (if peer = cf_cluster_master_address (g_cfg g1)
                     then cluster_check_master
                            (upd_cfg (\<lambda>c. c\<lparr>cf_cluster_master_address := 0, cf_cluster_last_hb := 0\<rparr>) g1)
                     else g1)
           in if known then g2
              else
                let j = first_index (\<lambda>q. pe_basetime q = 0 \<or>
                          pe_timestamp q + of_int (cf_cluster_hb_timeout (g_cfg g2) * 10) < g_TIME g2) (g_peers g2)
                in if j \<ge> CLUSTER_MAX_SIZE then g2
                   else g2\<lparr>g_peers := (if j < length (g_peers g2) then (g_peers g2)[j := entry]
                                        else g_peers g2 @ [entry])\<rparr>)"

definition cluster_set_master :: "in_addr \<Rightarrow> l2tpns \<Rightarrow> l2tpns" where
  "cluster_set_master master g =
     (if cf_cluster_iam_master (g_cfg g) then g
      else
        let g1 = upd_cfg (\<lambda>c. c\<lparr>cf_cluster_master_address := master\<rparr>) g;
            g2 = (if master \<noteq> 0
                  then upd_cfg (\<lambda>c. c\<lparr>cf_cluster_last_hb := g_TIME g1\<rparr>) (send_lastseen master g1)
                  else g1)
        in cluster_check_master g2)"

subsection \<open>Sessions from the master\<close>

text \<open>\<open>fix\<close> of the IP routes of a session: the routes before the first empty one are set or unset.\<close>

fun change_routes :: "sessionidt \<Rightarrow> bool \<Rightarrow> in_addr \<Rightarrow> routet list \<Rightarrow> nat \<Rightarrow> l2tpns \<Rightarrow> l2tpns \<times> nat" where
  "change_routes s ad ip [] routed g = (g, routed)"
| "change_routes s ad ip (rt # rts) routed g =
     (let sh = nat (32 - rt_prefixlen rt) in
      if rt_ip rt = 0 then (g, routed)
      else change_routes s ad ip rts
             (if drop_bit sh ip = drop_bit sh (rt_ip rt) then routed + 1 else routed)
             (routeset s (rt_ip rt) (rt_prefixlen rt) 0 ad g))"

fun unset_routes6 :: "sessionidt \<Rightarrow> routet6 list \<Rightarrow> l2tpns \<Rightarrow> l2tpns" where
  "unset_routes6 s [] g = g"
| "unset_routes6 s (rt # rts) g =
     (if s6_addr (r6_ip rt) 0 = 0 \<or> r6_prefixlen rt = 0 then g
      else unset_routes6 s rts (route6set s (r6_ip rt) (unat (r6_prefixlen rt)) False g))"

fun set_routes6 :: "sessionidt \<Rightarrow> routet6 list \<Rightarrow> l2tpns \<Rightarrow> l2tpns" where
  "set_routes6 s [] g = g"
| "set_routes6 s (rt # rts) g =
     (if r6_prefixlen rt = 0 then g
      else set_routes6 s rts (route6set s (r6_ip rt) (unat (r6_prefixlen rt)) True g))"

definition routes_of :: "sessiont \<Rightarrow> routet list" where
  "routes_of x = map (s_route x) [0..<MAXROUTE]"

definition routes6_of :: "sessiont \<Rightarrow> routet6 list" where
  "routes6_of x = map (s_route6 x) [0..<MAXROUTE6]"

fun routes_differ :: "routet list \<Rightarrow> routet list \<Rightarrow> bool" where
  "routes_differ (o' # os) (n # ns) \<longleftrightarrow>
     (rt_ip o' \<noteq> 0 \<or> rt_ip n \<noteq> 0) \<and>
     (rt_ip n \<noteq> rt_ip o' \<or> rt_prefixlen n \<noteq> rt_prefixlen o' \<or> routes_differ os ns)"
| "routes_differ _ _ \<longleftrightarrow> False"

definition unload_routes :: "sessionidt \<Rightarrow> sessiont \<Rightarrow> l2tpns \<Rightarrow> l2tpns" where
  "unload_routes s old g =
     (let (g1, routed) = change_routes s False (s_ip old) (routes_of old) 0 g;
          g2 = (if s_ip old = 0 then g1
                else if s_ip_pool_index old = -1
                then (if routed = 0 then routeset s (s_ip old) 0 0 False g1 else g1)
                else cache_ip (s_ip old) 0 g1);
          g3 = unset_routes6 s (routes6_of old) g2
      in if s6_addr (s_ipv6address old) 0 \<noteq> 0 then route6set s (s_ipv6address old) 128 False g3 else g3)"

definition load_routes :: "sessionidt \<Rightarrow> sessiont \<Rightarrow> l2tpns \<Rightarrow> l2tpns" where
  "load_routes s new g =
     (let (g1, routed) = change_routes s True (s_ip new) (routes_of new) 0 g
      in if s_ip new = 0 then g1
         else if s_ip_pool_index new = -1
         then (if routed = 0 then routeset s (s_ip new) 0 0 True g1 else g1)
         else cache_ip (s_ip new) (int s) g1)"

definition load_ipv6 :: "sessionidt \<Rightarrow> sessiont \<Rightarrow> l2tpns \<Rightarrow> l2tpns" where
  "load_ipv6 s new g =
     (let up = (ipv6cp (s_ppp new) = Opened \<and> ipv6cp (s_ppp (g_session g s)) \<noteq> Opened);
          g1 = (if up then set_routes6 s (routes6_of new) g else g)
      in if s6_addr (s_ipv6address new) 0 \<noteq> 0 \<and> up \<and> sessionbyipv6 (s_ipv6address new) g1 \<noteq> s
         then route6set s (s_ipv6address new) 128 True g1 else g1)"

definition valid_filter :: "nat \<Rightarrow> l2tpns \<Rightarrow> nat" where
  "valid_filter f g = (if f \<noteq> 0 \<and> (f > MAXFILTER \<or> fi_name (g_filters g (f - 1)) = []) then 0 else f)"

definition load_filter :: "nat \<Rightarrow> nat \<Rightarrow> l2tpns \<Rightarrow> l2tpns" where
  "load_filter old new g = (if new \<noteq> old then filter_ref new 1 (filter_ref old (-1) g) else g)"

definition load_session :: "sessionidt \<Rightarrow> sessiont \<Rightarrow> l2tpns \<Rightarrow> l2tpns" where
  "load_session s new g =
     (if s_ip_pool_index new \<ge> int MAXIPPOOL \<or> s_tunnel new \<ge> MAXTUNNEL then g
      else
        let g1 = upd_session s (\<lambda>x. x\<lparr>s_tunnel := s_tunnel new\<rparr>) g;
            old = g_session g1 s;
            g2 = (if s_ip new \<noteq> s_ip old \<or> routes_differ (routes_of old) (routes_of new)
                  then load_routes s new (unload_routes s old g1) else g1);
            g3 = load_ipv6 s new g2;
            new' = new\<lparr>s_filter_in := valid_filter (s_filter_in new) g3,
                       s_filter_out := valid_filter (s_filter_out new) g3\<rparr>;
            g4 = load_filter (s_filter_out (g_session g3 s)) (s_filter_out new')
                   (load_filter (s_filter_in (g_session g3 s)) (s_filter_in new') g3);
            g5 = (if s_tunnel new' \<noteq> 0 \<and> s > cf_cluster_highest_sessionid (g_cfg g4)
                  then upd_cfg (\<lambda>c. c\<lparr>cf_cluster_highest_sessionid := s\<rparr>) g4 else g4);
            g6 = upd_session s (\<lambda>_. new') g5
        in if s_ip_pool_index new' \<noteq> -1 then fix_address_pool s g6 else g6)"

subsection \<open>Heartbeats received\<close>

definition now_defined :: "bool \<Rightarrow> (configt \<Rightarrow> configt) \<Rightarrow> l2tpns \<Rightarrow> l2tpns" where
  "now_defined undef fd g = (if undef \<and> \<not> cf_cluster_iam_uptodate (g_cfg g) then upd_cfg fd g else g)"

definition cluster_recv_session :: "nat \<Rightarrow> sessiont \<Rightarrow> l2tpns \<Rightarrow> l2tpns" where
  "cluster_recv_session i x g =
     (if i \<ge> MAXSESSION then g
      else cluster_uptodate (load_session i x
        (now_defined (s_tunnel (g_session g i) = T_UNDEF)
           (\<lambda>c. c\<lparr>cf_cluster_undefined_sessions := cf_cluster_undefined_sessions c - 1\<rparr>) g)))"

definition cluster_recv_bundle :: "nat \<Rightarrow> bundlet \<Rightarrow> l2tpns \<Rightarrow> l2tpns" where
  "cluster_recv_bundle i x g =
     (if i \<ge> MAXBUNDLE then g
      else cluster_uptodate (upd_bundle i (\<lambda>_. x)
        (now_defined (b_state (g_bundle g i) = BUNDLEUNDEF)
           (\<lambda>c. c\<lparr>cf_cluster_undefined_bundles := cf_cluster_undefined_bundles c - 1\<rparr>) g)))"

definition cluster_recv_tunnel :: "nat \<Rightarrow> tunnelt \<Rightarrow> l2tpns \<Rightarrow> l2tpns" where
  "cluster_recv_tunnel i x g =
     (if i \<ge> MAXTUNNEL then g
      else cluster_uptodate (upd_tunnel i (\<lambda>_. x\<lparr>t_controls := [], t_controlc := 0\<rparr>)
        (now_defined (t_state (g_tunnel g i) = TUNNELUNDEF)
           (\<lambda>c. c\<lparr>cf_cluster_undefined_tunnels := cf_cluster_undefined_tunnels c - 1\<rparr>) g)))"

definition recv_rec :: "hb_rec \<Rightarrow> l2tpns \<Rightarrow> l2tpns" where
  "recv_rec r g =
     (case r of HbSession i x \<Rightarrow> cluster_recv_session i x g
      | HbBundle i x \<Rightarrow> cluster_recv_bundle i x g
      | HbTunnel i x \<Rightarrow> cluster_recv_tunnel i x g)"

definition count_undefined :: "(nat \<Rightarrow> bool) \<Rightarrow> nat \<Rightarrow> nat \<Rightarrow> int" where
  "count_undefined undef n high = int (length (filter (\<lambda>i. i \<le> high \<and> undef i) [1..<n]))"

definition cluster_check_sessions :: "nat \<Rightarrow> nat \<Rightarrow> nat \<Rightarrow> nat \<Rightarrow> l2tpns \<Rightarrow> l2tpns" where
  "cluster_check_sessions highsession freesession highbundle hightunnel g =
     (let g1 = g\<lparr>g_sessionfree := freesession\<rparr>; c = g_cfg g in
      if cf_cluster_iam_uptodate c then g1
      else if int highsession > cf_cluster_undefined_sessions c \<and>
         int highbundle > cf_cluster_undefined_bundles c \<and> int hightunnel > cf_cluster_undefined_tunnels c then g1
      else
        let g2 = g1\<lparr>
          g_session := (\<lambda>i. if highsession < i \<and> i < MAXSESSION \<and> s_tunnel (g_session g1 i) = T_UNDEF
                            then (g_session g1 i)\<lparr>s_tunnel := T_FREE\<rparr> else g_session g1 i),
          g_bundle := (\<lambda>i. if highbundle < i \<and> i < MAXBUNDLE \<and> b_state (g_bundle g1 i) = BUNDLEUNDEF
                            then (g_bundle g1 i)\<lparr>b_state := BUNDLEFREE\<rparr> else g_bundle g1 i),
          g_tunnel := (\<lambda>i. if hightunnel < i \<and> i < MAXTUNNEL \<and> t_state (g_tunnel g1 i) = TUNNELUNDEF
                            then (g_tunnel g1 i)\<lparr>t_state := TUNNELFREE\<rparr> else g_tunnel g1 i)\<rparr>
        in cluster_uptodate (upd_cfg (\<lambda>c. c\<lparr>
             cf_cluster_undefined_sessions :=
               count_undefined (\<lambda>i. s_tunnel (g_session g2 i) = T_UNDEF) MAXSESSION highsession,
             cf_cluster_undefined_bundles :=
               count_undefined (\<lambda>i. b_state (g_bundle g2 i) = BUNDLEUNDEF) MAXBUNDLE highbundle,
             cf_cluster_undefined_tunnels :=
               count_undefined (\<lambda>i. t_state (g_tunnel g2 i) = TUNNELUNDEF) MAXTUNNEL hightunnel\<rparr>) g2))"

text \<open>
  A heartbeat that a master receives: one of the two masters gives up. \<open>ExitProcess\<close> ends this one.
\<close>

definition other_master :: "heartt \<Rightarrow> in_addr \<Rightarrow> l2tpns \<Rightarrow> l2tpns" where
  "other_master h addr g =
     (if hb_basetime h = 0 then g
      else if hb_table_version h > cf_cluster_table_version (g_cfg g) then out ExitProcess g
      else if hb_table_version h < cf_cluster_table_version (g_cfg g) then g
      else if g_basetime g > hb_basetime h then out ExitProcess g
      else if g_basetime g < hb_basetime h then g
      else if htonl (cf_my_address (g_cfg g)) < htonl addr then out ExitProcess g
      else cluster_catchup_slave (cf_cluster_seq_number (g_cfg g) - 1) addr g)"

definition out_of_sequence :: "in_addr \<Rightarrow> l2tpns \<Rightarrow> l2tpns" where
  "out_of_sequence addr g =
     (let q = cf_cluster_seq_number (g_cfg g);
          ask = (q \<noteq> g_lastseen_seq g \<or> g_time_now g \<noteq> g_lastseen_time g);
          g1 = (if ask then send_lastseen addr (g\<lparr>g_lastseen_seq := q, g_lastseen_time := g_time_now g\<rparr>) else g)
      in upd_cfg (\<lambda>c. c\<lparr>cf_cluster_last_hb := g_TIME g1\<rparr>) g1)"

definition accept_heartbeat :: "heartbeat \<Rightarrow> in_addr \<Rightarrow> l2tpns \<Rightarrow> l2tpns" where
  "accept_heartbeat hb addr g =
     (let h = hb_head hb;
          g1 = (upd_cfg (\<lambda>c. c\<lparr>cf_cluster_seq_number := (hb_seq h + 1) mod HB_MAX_SEQ\<rparr>) g)
                 \<lparr>g_past_hearts := (g_past_hearts g)(nat (hb_seq h mod HB_HISTORY_SIZE) := Some (hb_seq h, hb))\<rparr>;
          g2 = cluster_check_sessions (hb_highsession h) (hb_freesession h) (hb_highbundle h) (hb_hightunnel h) g1;
          g3 = upd_cfg (\<lambda>c. c\<lparr>cf_cluster_hb_interval := hb_interval h, cf_cluster_hb_timeout := hb_timeout h\<rparr>) g2;
          g4 = fold recv_rec (hb_recs hb) g3
      in upd_cfg (\<lambda>c. c\<lparr>cf_cluster_master_address := addr, cf_cluster_last_hb := g_TIME g4,
                         cf_cluster_table_version := hb_table_version h\<rparr>) g4)"

definition HB_VERSION :: int where "HB_VERSION = 9"

definition cluster_process_heartbeat :: "int \<Rightarrow> heartbeat \<Rightarrow> in_addr \<Rightarrow> l2tpns \<Rightarrow> l2tpns" where
  "cluster_process_heartbeat hb_ver hb addr g =
     (let h = hb_head hb; c = g_cfg g in
      if hb_ver < 5 \<or> hb_ver > HB_VERSION then g
      else if hb_clusterid h \<noteq> cf_bind_address c then g
      else if cf_cluster_iam_master c then other_master h addr g
      else if cf_cluster_master_address c \<noteq> 0 \<and> addr \<noteq> cf_cluster_master_address c then g
      else
        let g1 = upd_cfg (\<lambda>c. c\<lparr>
                   cf_cluster_seq_number := (if cf_cluster_seq_number c = -1 then hb_seq h else cf_cluster_seq_number c),
                   cf_cluster_last_hb := g_TIME g, cf_cluster_last_hb_ver := hb_ver\<rparr>) g
        in if cf_cluster_seq_number (g_cfg g1) \<noteq> hb_seq h then out_of_sequence addr g1
           else accept_heartbeat hb addr g1)"

subsection \<open>Packets on the cluster port\<close>

text \<open>
  What is handed to another component. \<open>heart\<close> reads a heartbeat from the packet, with the
  structures of the compiler at hand; a packet too short for its header is None.
\<close>

datatype handover =
  Handled
| ToUdp bytes in_addr u16 u16
| ToDae bytes in_addr u16
| ToPppoe bytes in_addr
| ToIpout bytes
| ToTbf int bytes
| ToTun bytes

fun byte_counts :: "bytes \<Rightarrow> nat \<Rightarrow> (nat \<times> u32 \<times> u32 \<times> u32 \<times> u32) list" where
  "byte_counts p 0 = []"
| "byte_counts p (Suc n) =
     (unat (of_le32 p), of_le32 (drop 4 p), of_le32 (drop 8 p), of_le32 (drop 12 p), of_le32 (drop 16 p)) #
     byte_counts (drop 20 p) n"

definition processcluster :: "(bytes \<Rightarrow> heartbeat option) \<Rightarrow> bytes \<Rightarrow> in_addr \<Rightarrow> l2tpns \<Rightarrow> l2tpns \<times> handover" where
  "processcluster heart data addr g =
     (let ty = of_le32 data; extra = of_le32 (drop 4 data); p = drop 8 data; c = g_cfg g;
          master = cf_cluster_iam_master c
      in if addr = cf_my_address c then (g, Handled)
         else if length data < 8 then (g, Handled)
         else if ty = C_PING then (cluster_add_peer addr extra p g, Handled)
         else if ty = C_MASTER then (cluster_set_master (of_be32 (drop 4 data)) g, Handled)
         else if ty = C_LASTSEEN then (cluster_catchup_slave (sint extra) addr g, Handled)
         else if ty = C_FORWARD \<or> ty = C_FORWARD_DAE then
           if \<not> master then (g, Handled)
           else
             let a = of_be32 (drop 4 data); x = of_le32 p; port = ucast x :: u16; q = drop 4 p
             in (g, if ty = C_FORWARD_DAE then ToDae q a port else ToUdp q a port (ucast (drop_bit 16 x)))
         else if ty = C_PPPOE_FORWARD then (g, if master then ToPppoe p addr else Handled)
         else if ty = C_MPPP_FORWARD then (g, if master then ToIpout p else Handled)
         else if ty = C_THROTTLE then (g, if master then ToTbf (sint extra) p else Handled)
         else if ty = C_GARDEN then (g, if master then ToTun p else Handled)
         else if ty = C_BYTES then
           (if master then cluster_handle_bytes (byte_counts p (length p div 20)) g else g, Handled)
         else if ty = C_KILL then
           (if master then g
            else if sint extra \<noteq> cf_cluster_seq_number c then g
            else out ExitProcess g, Handled)
         else if ty = C_HEARTBEAT then
           (case heart p of None \<Rightarrow> g | Some hb \<Rightarrow> cluster_process_heartbeat (sint extra) hb addr g, Handled)
         else (g, Handled))"

end
