(* ===== verification/Frames.thy ===== *)
theory Frames
  imports Session ClusterRx
begin

text \<open>
  PPP frames on their way out (\<open>makeppp\<close>, \<open>opt_makeppp\<close> of \<^verbatim>\<open>src/ppp.c\<close>, \<open>pppoe_makeppp\<close>, \<open>opt_pppoe_makeppp\<close> and
  \<open>pppoe_sess_send\<close> of \<^verbatim>\<open>src/pppoe.c\<close>): the L2TP or PPPoE header, the HDLC bytes, the protocol and the multilink
  header. The functions return the bytes in front of the payload; the caller writes the payload behind
  them.
\<close>

definition MAXETHER :: nat where "MAXETHER = 2618"
definition MINMTU :: nat where "MINMTU = 576"

definition PPPPAP :: u16 where "PPPPAP = 0xC023"
definition PPPCHAP :: u16 where "PPPCHAP = 0xC223"
definition PPPLCP :: u16 where "PPPLCP = 0xC021"
definition PPPIPCP :: u16 where "PPPIPCP = 0x8021"
definition PPPIPV6CP :: u16 where "PPPIPV6CP = 0x8057"
definition PPPCCP :: u16 where "PPPCCP = 0x80FD"
definition PPPIP :: u16 where "PPPIP = 0x0021"
definition PPPIPV6 :: u16 where "PPPIPV6 = 0x0057"
definition PPPMP :: u16 where "PPPMP = 0x003D"

lemmas ppp_protocols = PPPPAP_def PPPCHAP_def PPPLCP_def PPPIPCP_def PPPIPV6CP_def PPPCCP_def
  PPPIP_def PPPIPV6_def PPPMP_def

definition ETH_P_PPP_SES :: u16 where "ETH_P_PPP_SES = 0x8864"
definition ETH_P_PPP_DISC :: u16 where "ETH_P_PPP_DISC = 0x8863"

subsection \<open>Headers\<close>

text \<open>The flags of a session: bit 0 is \<open>SESSION_PFC\<close>, bit 1 \<open>SESSION_ACFC\<close>, bit 2 \<open>SESSION_STARTED\<close>.\<close>

definition l2tp_data_header :: "bool \<Rightarrow> u16 \<Rightarrow> tunnelt \<Rightarrow> sessiont \<Rightarrow> bytes" where
  "l2tp_data_header prio ty tn sess =
     be16 (if prio then 0x0102 else 0x0002) @ be16 (t_far tn) @ be16 (of_nat (s_far sess)) @
     (if ty = PPPLCP \<or> \<not> bit (s_flags sess) 1 then be16 0xFF03 else []) @
     (if ty < 0x100 \<and> bit (s_flags sess) 0 then [ucast ty] else be16 ty)"

text \<open>The Ethernet and PPPoE headers, with the length 0.\<close>

definition setup_header :: "bytes \<Rightarrow> bytes \<Rightarrow> u8 \<Rightarrow> u16 \<Rightarrow> u16 \<Rightarrow> bytes" where
  "setup_header src dst code sid h_proto = dst @ src @ be16 h_proto @ [0x11, code] @ be16 sid @ be16 0"

text \<open>The multilink header; the last two bytes only with the first fragment.\<close>

definition mp_header :: "sessiont \<Rightarrow> u32 \<Rightarrow> u16 \<Rightarrow> u8 \<Rightarrow> bytes" where
  "mp_header sess sq mtype mp_bits =
     (if s_mssf sess \<noteq> 0 then be16 (ucast (sq AND 0x0FFF) OR ucast mp_bits)
      else mp_bits # tl (be32 sq)) @
     (if bit mp_bits 7 then be16 mtype else [])"

text \<open>The bundle a frame is sent on, 0 when it has a single link.\<close>

definition mp_bundle :: "bundleidt \<Rightarrow> l2tpns \<Rightarrow> bundleidt" where
  "mp_bundle bid g = (if bid \<noteq> 0 \<and> b_num_of_links (g_bundle g bid) > 1 then bid else 0)"

definition next_seq :: "bundleidt \<Rightarrow> l2tpns \<Rightarrow> l2tpns" where
  "next_seq bid g = (if bid = 0 then g else upd_bundle bid (\<lambda>b. b\<lparr>b_seq_num_t := b_seq_num_t b + 1\<rparr>) g)"

definition mp_part :: "bundleidt \<Rightarrow> sessiont \<Rightarrow> u16 \<Rightarrow> u8 \<Rightarrow> l2tpns \<Rightarrow> bytes" where
  "mp_part bid sess mtype mp_bits g =
     (if bid = 0 then [] else mp_header sess (b_seq_num_t (g_bundle g bid)) mtype mp_bits)"

text \<open>
  \<open>pppoe_makeppp\<close> adds to the length field without converting it to network order; \<open>pppoe_sess_send\<close>
  writes it again.
\<close>

definition le16 :: "u16 \<Rightarrow> bytes" where
  "le16 x = [ucast x, ucast (drop_bit 8 x)]"

definition pppoe_makeppp ::
    "nat \<Rightarrow> nat \<Rightarrow> sessionidt \<Rightarrow> tunnelidt \<Rightarrow> u16 \<Rightarrow> bundleidt \<Rightarrow> u8 \<Rightarrow> l2tpns \<Rightarrow> bytes option \<times> l2tpns" where
  "pppoe_makeppp sz l s t mtype bid mp_bits g =
     (if t \<noteq> TUNNEL_ID_PPPOE then (None, g)
      else if sz < 28 then (None, g)
      else
        let sess = g_session g s; bid = mp_bundle bid g;
            mp = mp_part bid sess mtype mp_bits g;
            head = setup_header (cf_pppoe_hwaddr (g_cfg g)) (s_src_hwaddr sess) 0 (of_nat s) ETH_P_PPP_SES;
            b = take 18 head @ le16 (of_nat (2 + length mp + l)) @
                be16 (if bid \<noteq> 0 then PPPMP else mtype) @ mp;
            g' = next_seq bid g
        in if length b + l > sz then (None, g') else (Some b, g'))"

definition makeppp ::
    "nat \<Rightarrow> nat \<Rightarrow> sessionidt \<Rightarrow> tunnelidt \<Rightarrow> u16 \<Rightarrow> bool \<Rightarrow> bundleidt \<Rightarrow> u8 \<Rightarrow> l2tpns \<Rightarrow> bytes option \<times> l2tpns" where
  "makeppp sz l s t mtype prio bid mp_bits g =
     (if t = TUNNEL_ID_PPPOE then pppoe_makeppp sz l s t mtype bid mp_bits g
      else if sz < 16 then (None, g)
      else
        let sess = g_session g s; bid = mp_bundle bid g;
            b = l2tp_data_header prio (if bid \<noteq> 0 then PPPMP else mtype) (g_tunnel g t) sess @
                mp_part bid sess mtype mp_bits g;
            g' = next_seq bid g
        in if length b + l > sz then (None, g') else (Some b, g'))"

text \<open>\<open>opt_makeppp\<close> writes the same headers in front of the payload, without a bound.\<close>

definition opt_makeppp ::
    "nat \<Rightarrow> sessionidt \<Rightarrow> tunnelidt \<Rightarrow> u16 \<Rightarrow> bool \<Rightarrow> bundleidt \<Rightarrow> u8 \<Rightarrow> l2tpns \<Rightarrow> bytes \<times> l2tpns" where
  "opt_makeppp l s t mtype prio bid mp_bits g =
     (let sess = g_session g s; bid = mp_bundle bid g; ty = (if bid \<noteq> 0 then PPPMP else mtype);
          mp = mp_part bid sess mtype mp_bits g
      in (if t = TUNNEL_ID_PPPOE
          then take 18 (setup_header (cf_pppoe_hwaddr (g_cfg g)) (s_src_hwaddr sess) 0 (of_nat s) ETH_P_PPP_SES) @
               le16 (of_nat (l + 2 + length mp)) @ be16 ty @ mp
          else l2tp_data_header prio ty (g_tunnel g t) sess @ mp,
          next_seq bid g))"

text \<open>
  \<open>pppoe_sess_send\<close>: what is written to the Ethernet interface; the frame is dropped when the session
  number in it is not one of PPPoE or when it carries no payload.
\<close>

definition pppoe_sess_send :: "bytes \<Rightarrow> tunnelidt \<Rightarrow> l2tpns \<Rightarrow> bytes option" where
  "pppoe_sess_send pack t g =
     (if t \<noteq> TUNNEL_ID_PPPOE then None
      else if s_tunnel (g_session g (unat (of_be16 (drop 16 pack)))) \<noteq> t then None
      else if length pack < 23 then None
      else Some (take 18 pack @ be16 (of_nat (length pack - 20)) @ drop 20 pack))"

subsection \<open>Lemmas\<close>

text \<open>A frame for one link carries no multilink header and changes nothing.\<close>

lemma makeppp_single:
  "snd (makeppp sz l s t mtype prio 0 mp_bits g) = g"
  by (simp add: makeppp_def pppoe_makeppp_def mp_bundle_def next_seq_def Let_def)

lemma length_l2tp_data_header: "length (l2tp_data_header prio ty tn sess) \<le> 10"
  by (simp add: l2tp_data_header_def)

text \<open>What \<open>makeppp\<close> returns fits the buffer together with the payload.\<close>

lemma makeppp_fits:
  "makeppp sz l s t mtype prio bid mp_bits g = (Some b, g') \<Longrightarrow> length b + l \<le> sz"
  by (auto simp: makeppp_def pppoe_makeppp_def Let_def split: if_splits)

text \<open>The two ways to make a frame agree.\<close>

lemma opt_makeppp_eq:
  assumes "makeppp sz l s t mtype prio bid mp_bits g = (Some b, g')"
  shows "opt_makeppp l s t mtype prio bid mp_bits g = (b, g')"
  using assms
  by (auto simp: makeppp_def pppoe_makeppp_def opt_makeppp_def Let_def ac_simps split: if_splits)

end
