(* ===== verification/Icmp.thy ===== *)
theory Icmp
  imports Frames Mss
begin

text \<open>
  ICMP (\<^verbatim>\<open>src/icmp.c\<close>, \<^verbatim>\<open>src/ipv6_u.c\<close>): checksums, the ICMP error of \<open>host_unreachable\<close> and the router
  advertisements of \<open>send_ipv6_ra\<close>.
\<close>

subsection \<open>Checksums\<close>

text \<open>The loops that add the carries; \<open>sum\<close> has 32 bits.\<close>

function fold_carry :: "u32 \<Rightarrow> u32" where
  "fold_carry s = (if drop_bit 16 s = 0 then s else fold_carry ((s AND 0xffff) + drop_bit 16 s))"
  by pat_completeness auto
termination
proof (relation "measure unat")
  fix s :: u32
  assume "drop_bit 16 s \<noteq> 0"
  then have q: "0 < unat s div 65536" by (metis gr0I unat_eq_0 unat_halves(2))
  have "unat ((s AND 0xffff) + drop_bit 16 s) \<le> unat s mod 65536 + unat s div 65536"
    unfolding unat_word_ariths(1) unat_halves by (rule mod_less_eq_dividend)
  also have "\<dots> < unat s mod 65536 + 65536 * (unat s div 65536)" using q by linarith
  also have "\<dots> = unat s" by (rule mod_mult_div_eq)
  finally show "((s AND 0xffff) + drop_bit 16 s, s) \<in> measure unat" by simp
qed simp

declare fold_carry.simps [simp del]

text \<open>The sum of the 16-bit words; a last single byte is the high byte of a word.\<close>

fun add_words :: "bytes \<Rightarrow> u32 \<Rightarrow> u32" where
  "add_words (a # b # bs) acc = add_words bs (acc + ucast (of_be16 [a, b]))"
| "add_words [a] acc = acc + ucast (of_be16 [a, 0])"
| "add_words [] acc = acc"

definition ipv6_checksum :: "bytes \<Rightarrow> bytes \<Rightarrow> u16" where
  "ipv6_checksum pshdr buff = NOT (ucast (fold_carry (add_words (pshdr @ buff) 0)))"

text \<open>\<open>_checksum\<close> of \<^verbatim>\<open>src/icmp.c\<close> adds a last single byte as the low byte of a word.\<close>

fun add_words_low :: "bytes \<Rightarrow> u32 \<Rightarrow> u32" where
  "add_words_low (a # b # bs) acc = add_words_low bs (acc + ucast (of_be16 [a, b]))"
| "add_words_low [a] acc = acc + ucast a"
| "add_words_low [] acc = acc"

definition icmp_checksum :: "bytes \<Rightarrow> u16" where
  "icmp_checksum addr = NOT (ucast (fold_carry (add_words_low addr 0)))"

text \<open>
  \<open>host_unreachable\<close>: the error packet and the address it is sent to. \<open>destination\<close>, \<open>source\<close> and \<open>id\<close> are
  in network order, as the bytes of the packet they come from.
\<close>

definition host_unreachable :: "bytes \<Rightarrow> bytes \<Rightarrow> bytes \<Rightarrow> bytes \<Rightarrow> bytes" where
  "host_unreachable destination ident source packet =
     (let data = take 28 packet;
          icmp = [3, 1] @ be16 0 @ be32 0 @ data;
          iph = [0x45, 0] @ be16 (of_nat (28 + length data)) @ ident @ be16 0 @ [30, 1] @ be16 0 @ source @ destination
      in take 10 iph @ be16 (icmp_checksum iph) @ drop 12 iph @
         take 2 icmp @ be16 (icmp_checksum icmp) @ drop 4 icmp)"

subsection \<open>Router advertisements\<close>

definition ra_options :: "configt \<Rightarrow> sessiont \<Rightarrow> bytes" where
  "ra_options cfg sess =
     [3, 4, 64, 0xC0] @ be32 2592000 @ be32 604800 @ be32 0 @
     (if s6_addr (s_ipv6address sess) 0 \<noteq> 0 then take 8 (in6_bytes (s_ipv6address sess)) @ replicate 8 0
      else in6_bytes (cf_ipv6_prefix cfg)) @
     (if of_be32 (in6_bytes (cf_default_ipv6_dns1 cfg)) = 0 then []
      else if of_be32 (in6_bytes (cf_default_ipv6_dns2 cfg)) = 0
      then [25, 3, 0, 0] @ be32 (cf_dns6_lifetime cfg) @ in6_bytes (cf_default_ipv6_dns1 cfg)
      else [25, 5, 0, 0] @ be32 (cf_dns6_lifetime cfg) @ in6_bytes (cf_default_ipv6_dns1 cfg) @
        in6_bytes (cf_default_ipv6_dns2 cfg))"

definition ra_message :: "u16 \<Rightarrow> configt \<Rightarrow> sessiont \<Rightarrow> bytes" where
  "ra_message cksum cfg sess =
     [134, 0] @ be16 cksum @ [64, 0xC0] @ be16 0xFFFF @ be32 0 @ be32 0 @ ra_options cfg sess"

text \<open>FE80::1, and FF02::1 when no destination is given.\<close>

definition ra_packet :: "configt \<Rightarrow> sessiont \<Rightarrow> bytes option \<Rightarrow> bytes" where
  "ra_packet cfg sess ip =
     (let src = [0xFE, 0x80] @ replicate 13 0 @ [1];
          dst = (case ip of Some a \<Rightarrow> a | None \<Rightarrow> [0xFF, 0x02] @ replicate 13 0 @ [1]);
          l = length (ra_message 0 cfg sess);
          pseudo = src @ dst @ be32 (of_nat l) @ [0, 0, 0, 58]
      in [0x60, 0, 0, 0] @ be16 (of_nat l) @ [58, 255] @ src @ dst @
         ra_message (ipv6_checksum pseudo (ra_message 0 cfg sess)) cfg sess)"

definition send_ipv6_ra :: "sessionidt \<Rightarrow> tunnelidt \<Rightarrow> bytes option \<Rightarrow> l2tpns \<Rightarrow> l2tpns" where
  "send_ipv6_ra s t ip g =
     (case fst (makeppp (MAXETHER + 20) 0 s t PPPIPV6 False 0 0 g) of
        None \<Rightarrow> g
      | Some hdr \<Rightarrow> g_tunnelsend (hdr @ ra_packet (g_cfg g) (g_session g s) ip) t g)"

subsection \<open>Checksums verify\<close>

text \<open>What the receiver computes: the sum of the words, without the carries.\<close>

fun sum16 :: "bytes \<Rightarrow> nat" where
  "sum16 (a # b # bs) = unat (of_be16 [a, b]) + sum16 bs"
| "sum16 [a] = unat (of_be16 [a, 0])"
| "sum16 [] = 0"

lemma sum16_bound: "2 * sum16 bs \<le> 65535 * (length bs + 1)"
proof (induction bs rule: sum16.induct)
  case (1 a b bs)
  then show ?case using unat_u16 [of "of_be16 [a, b]"] by (simp del: of_be16.simps)
next
  case (2 a)
  then show ?case using unat_u16 [of "of_be16 [a, 0]"] by (simp del: of_be16.simps)
qed simp

lemma add_words_sum:
  "unat s + sum16 bs < 2 ^ 32 \<Longrightarrow> unat (add_words bs s) = unat s + sum16 bs"
proof (induction bs s rule: add_words.induct)
  case (1 a b bs s)
  let ?w = "of_be16 [a, b]"
  from "1.prems" have lt: "unat s + unat ?w + sum16 bs < 2 ^ 32" by (simp del: of_be16.simps)
  then have "unat (s + ucast ?w :: u32) = unat s + unat ?w"
    by (subst unat_add_lem [THEN iffD1]) (simp_all add: unat_ucast32 del: of_be16.simps)
  with "1.IH" lt show ?case by (simp del: of_be16.simps)
next
  case (2 a s)
  then show ?case
    by (simp add: unat_ucast32 del: of_be16.simps) (subst unat_add_lem [THEN iffD1]; simp add: unat_ucast32 del: of_be16.simps)
qed simp

lemma fold_carry_mod: "unat (fold_carry s) mod 65535 = unat s mod 65535 \<and> unat (fold_carry s) < 65536"
proof (induction s rule: fold_carry.induct)
  case (1 s)
  show ?case
  proof (cases "drop_bit 16 s = 0")
    case True
    then have "unat s div 65536 = 0" by (metis unat_0 unat_halves(2))
    then have "unat s < 65536" by (simp add: div_eq_0_iff)
    with True show ?thesis by (simp add: fold_carry.simps [of s])
  next
    case False
    let ?t = "(s AND 0xffff) + drop_bit 16 s"
    obtain q r where qr: "unat s div 65536 = q" "unat s mod 65536 = r" by blast
    have s: "unat s = (r + q) + 65535 * q" using mult_div_mod_eq [of 65536 "unat s"] qr by simp
    have "r < 65536" using qr by (metis mod_less_divisor zero_less_numeral)
    moreover have "unat s < 2 ^ 32" using unsigned_less [of s, where ?'a = nat] by simp
    then have "q < 65536" unfolding qr(1) [symmetric] by (simp add: less_mult_imp_div_less)
    ultimately have t: "unat ?t = r + q"
      using qr by (subst unat_add_lem [THEN iffD1]) (simp_all add: unat_halves)
    have "unat ?t mod 65535 = unat s mod 65535" unfolding t s by (metis mod_mult_self2)
    with 1 [OF False] show ?thesis by (simp add: fold_carry.simps [of s] False)
  qed
qed

lemma sum16_append: "even (length xs) \<Longrightarrow> sum16 (xs @ ys) = sum16 xs + sum16 ys"
proof (induction xs rule: sum16.induct)
qed (simp_all del: of_be16.simps)

text \<open>The complement of the folded sum, added to the sum, gives zero modulo 65535.\<close>

lemma ipv6_checksum_sum:
  assumes "length pshdr + length buff \<le> 65536"
  shows "(sum16 (pshdr @ buff) + unat (ipv6_checksum pshdr buff)) mod 65535 = 0"
proof -
  let ?s = "add_words (pshdr @ buff) 0"
  have "2 * sum16 (pshdr @ buff) \<le> 65535 * (length (pshdr @ buff) + 1)" by (rule sum16_bound)
  also have "\<dots> \<le> 65535 * 65537" using assms by simp
  finally have "unat ?s = sum16 (pshdr @ buff)" by (subst add_words_sum) simp_all
  with fold_carry_mod [of ?s] have f: "unat (fold_carry ?s) mod 65535 = sum16 (pshdr @ buff) mod 65535"
      "unat (fold_carry ?s) < 65536" by simp_all
  let ?f = "ucast (fold_carry ?s) :: u16"
  have f16: "unat ?f = unat (fold_carry ?s)"
    using f(2) by (simp add: unsigned_ucast_eq take_bit_nat_eq_self)
  have "unat (NOT ?f) = 65535 - unat ?f"
  proof -
    have "NOT ?f = 65535 - ?f" by (simp add: not_eq_complement)
    moreover have "?f \<le> 65535" using unat_u16 [of ?f] by (simp add: word_le_nat_alt)
    ultimately show ?thesis by (simp add: unat_sub)
  qed
  then have "unat (ipv6_checksum pshdr buff) = 65535 - unat (fold_carry ?s)"
    by (simp add: ipv6_checksum_def f16)
  then have "unat (fold_carry ?s) + unat (ipv6_checksum pshdr buff) = 65535" using f(2) by simp
  then have "(unat (fold_carry ?s) mod 65535 + unat (ipv6_checksum pshdr buff)) mod 65535 = 0"
    by (simp add: mod_simps)
  then show ?thesis unfolding f(1) by (simp add: mod_simps)
qed

lemma length_in6_bytes [simp]: "length (in6_bytes a) = 16"
  by (simp add: in6_bytes_def)

lemma length_ra_options: "length (ra_options cfg sess) \<in> {32, 56, 72}"
  by (auto simp: ra_options_def)

lemma sum16_be16: "sum16 (be16 x) = unat x"
  using of_be16_be16 [of x "[]"] by (simp add: be16_def del: of_be16.simps of_be16_be16)

lemma ra_message_sum: "sum16 (ra_message c cfg sess) = unat c + sum16 (ra_message 0 cfg sess)"
  by (simp add: ra_message_def sum16_append sum16_be16 del: append_Cons append_Nil)

text \<open>An advertisement has the length its header states, and the receiver finds its checksum right.\<close>

lemma ra_packet_checksum:
  assumes "\<And>a. ip = Some a \<Longrightarrow> length a = 16" and "p = ra_packet cfg sess ip"
  shows "length p = 40 + unat (of_be16 (drop 4 p))"
    and "sum16 (take 32 (drop 8 p) @ be32 (of_nat (length p - 40)) @ [0, 0, 0, 58] @ drop 40 p) mod 65535 = 0"
proof -
  let ?src = "[0xFE, 0x80] @ replicate 13 0 @ [1] :: bytes"
  let ?dst = "case ip of Some a \<Rightarrow> a | None \<Rightarrow> [0xFF, 0x02] @ replicate 13 0 @ [1]"
  let ?m = "ra_message 0 cfg sess" let ?l = "length ?m"
  let ?ps = "?src @ ?dst @ be32 (of_nat ?l) @ [0, 0, 0, 58]" let ?c = "ipv6_checksum ?ps ?m"
  have l: "?l \<in> {48, 72, 88}" using length_ra_options [of cfg sess] by (auto simp: ra_message_def)
  have l': "length (ra_message c cfg sess) = ?l" for c by (simp add: ra_message_def)
  have dst: "length ?dst = 16" using assms(1) by (auto split: option.split)
  have p: "p = [0x60, 0, 0, 0] @ be16 (of_nat ?l) @ [58, 255] @ ?src @ ?dst @ ra_message ?c cfg sess"
    unfolding assms(2) ra_packet_def Let_def by (simp only: append.assoc)
  have len: "length p = 40 + ?l" unfolding p using dst l' by simp
  have "of_be16 (drop 4 p) = of_nat ?l" unfolding p by (simp add: of_be16_be16)
  then show "length p = 40 + unat (of_be16 (drop 4 p))"
    unfolding len using l by (auto simp: of_nat_inverse)
  have parts: "take 32 (drop 8 p) = ?src @ ?dst" "drop 40 p = ra_message ?c cfg sess"
    unfolding p using dst by simp_all
  have ps: "even (length ?ps)" using dst by simp
  have "sum16 (?ps @ ra_message ?c cfg sess) = sum16 (?ps @ ?m) + unat ?c"
    unfolding sum16_append [OF ps] ra_message_sum [of ?c] by (simp only: ac_simps)
  moreover have "(sum16 (?ps @ ?m) + unat ?c) mod 65535 = 0"
    by (rule ipv6_checksum_sum) (use dst l in auto)
  ultimately show "sum16 (take 32 (drop 8 p) @ be32 (of_nat (length p - 40)) @ [0, 0, 0, 58] @ drop 40 p) mod 65535 = 0"
    unfolding parts len by (simp only: append.assoc add_diff_cancel_left')
qed

end
