(* ===== verification/Ppp.thy ===== *)
theory Ppp
  imports Icmp
begin

text \<open>
  The control protocols of PPP (\<^verbatim>\<open>src/ppp.c\<close>, \<open>sendipcp\<close> and \<open>sendipv6cp\<close> of \<^verbatim>\<open>src/l2tpns.c\<close>): LCP, IPCP, IPV6CP
  and CCP. A packet is the memory \<open>m\<close> from its first byte on, with the length \<open>l\<close> of the frame, since the
  code reads some fields without comparing with the length. The tests and messages of the code are kept in
  their order; where it would work with a null or foreign pointer the result is \<open>Undef\<close>.
\<close>

definition TERM_LOST_SERVICE :: nat where "TERM_LOST_SERVICE = 3"
definition TERM_USER_ERROR :: nat where "TERM_USER_ERROR = 17"
definition AUTHPAP :: int where "AUTHPAP = 1"
definition AUTHCHAP :: int where "AUTHCHAP = 2"

definition ConfigReq :: u8 where "ConfigReq = 1"
definition ConfigAck :: u8 where "ConfigAck = 2"
definition ConfigNak :: u8 where "ConfigNak = 3"
definition ConfigRej :: u8 where "ConfigRej = 4"
definition TerminateReq :: u8 where "TerminateReq = 5"
definition TerminateAck :: u8 where "TerminateAck = 6"
definition CodeRej :: u8 where "CodeRej = 7"
definition ProtocolRej :: u8 where "ProtocolRej = 8"
definition EchoReq :: u8 where "EchoReq = 9"
definition EchoReply :: u8 where "EchoReply = 10"

lemmas ppp_codes = ConfigReq_def ConfigAck_def ConfigNak_def ConfigRej_def TerminateReq_def
  TerminateAck_def CodeRej_def ProtocolRej_def EchoReq_def EchoReply_def

type_synonym mem = "nat \<Rightarrow> u8"

subsection \<open>The four automata of a session\<close>

datatype fsm = FLcp | FIpcp | FIpv6cp | FCcp

fun fsm_state :: "fsm \<Rightarrow> pppt \<Rightarrow> ppp_state" where
  "fsm_state FLcp p = lcp p"
| "fsm_state FIpcp p = ipcp p"
| "fsm_state FIpv6cp p = ipv6cp p"
| "fsm_state FCcp p = ccp p"

fun set_fsm_state :: "fsm \<Rightarrow> ppp_state \<Rightarrow> pppt \<Rightarrow> pppt" where
  "set_fsm_state FLcp x p = p\<lparr>lcp := x\<rparr>"
| "set_fsm_state FIpcp x p = p\<lparr>ipcp := x\<rparr>"
| "set_fsm_state FIpv6cp x p = p\<lparr>ipv6cp := x\<rparr>"
| "set_fsm_state FCcp x p = p\<lparr>ccp := x\<rparr>"

fun fsm_timer :: "fsm \<Rightarrow> sessionlocalt \<Rightarrow> fsmt" where
  "fsm_timer FLcp x = l_lcp x"
| "fsm_timer FIpcp x = l_ipcp x"
| "fsm_timer FIpv6cp x = l_ipv6cp x"
| "fsm_timer FCcp x = l_ccp x"

fun upd_timer :: "fsm \<Rightarrow> (fsmt \<Rightarrow> fsmt) \<Rightarrow> sessionlocalt \<Rightarrow> sessionlocalt" where
  "upd_timer FLcp u x = x\<lparr>l_lcp := u (l_lcp x)\<rparr>"
| "upd_timer FIpcp u x = x\<lparr>l_ipcp := u (l_ipcp x)\<rparr>"
| "upd_timer FIpv6cp u x = x\<lparr>l_ipv6cp := u (l_ipv6cp x)\<rparr>"
| "upd_timer FCcp u x = x\<lparr>l_ccp := u (l_ccp x)\<rparr>"

definition state_of :: "fsm \<Rightarrow> sessionidt \<Rightarrow> l2tpns \<Rightarrow> ppp_state" where
  "state_of f s g = fsm_state f (s_ppp (g_session g s))"

definition initialise_restart_count :: "sessionidt \<Rightarrow> fsm \<Rightarrow> l2tpns \<Rightarrow> l2tpns" where
  "initialise_restart_count s f g =
     upd_local s (upd_timer f (\<lambda>x. x\<lparr>f_conf_sent := 0, f_nak_sent := 0\<rparr>)) g"

definition zero_restart_count :: "sessionidt \<Rightarrow> fsm \<Rightarrow> l2tpns \<Rightarrow> l2tpns" where
  "zero_restart_count s f g =
     upd_local s (upd_timer f (\<lambda>x. x\<lparr>f_conf_sent := cf_ppp_max_configure (g_cfg g),
       f_restart := g_time_now g + cf_ppp_restart_time (g_cfg g)\<rparr>)) g"

definition restart_timer :: "sessionidt \<Rightarrow> fsm \<Rightarrow> l2tpns \<Rightarrow> l2tpns" where
  "restart_timer s f g =
     upd_local s (upd_timer f (\<lambda>x. x\<lparr>f_conf_sent := f_conf_sent x + 1,
       f_restart := g_time_now g + cf_ppp_restart_time (g_cfg g)\<rparr>)) g"

definition change_state :: "sessionidt \<Rightarrow> fsm \<Rightarrow> ppp_state \<Rightarrow> l2tpns \<Rightarrow> l2tpns" where
  "change_state s f new g =
     (if new = state_of f s g then g
      else cluster_send_session s
        (upd_session s (\<lambda>x. x\<lparr>s_ppp := set_fsm_state f new (s_ppp x)\<rparr>)
          (if new \<in> {Initial, Starting, Closed, Stopped, Opened}
           then upd_local s (upd_timer f (\<lambda>_. fsm_zero)) g else g)))"

subsection \<open>Sending requests\<close>

text \<open>The header of a control packet with \<open>l\<close> bytes of payload in a buffer of \<open>room\<close> bytes.\<close>

definition ppp_hdr :: "nat \<Rightarrow> nat \<Rightarrow> sessionidt \<Rightarrow> tunnelidt \<Rightarrow> u16 \<Rightarrow> l2tpns \<Rightarrow> bytes option" where
  "ppp_hdr room l s t proto g = fst (makeppp room l s t proto False 0 0 g)"

definition send_ppp :: "nat \<Rightarrow> sessionidt \<Rightarrow> tunnelidt \<Rightarrow> u16 \<Rightarrow> bytes \<Rightarrow> l2tpns \<Rightarrow> l2tpns" where
  "send_ppp room s t proto pk g =
     (case ppp_hdr room (length pk) s t proto g of None \<Rightarrow> g | Some hdr \<Rightarrow> g_tunnelsend (hdr @ pk) t g)"

definition add_lcp_auth :: "nat \<Rightarrow> int \<Rightarrow> bytes" where
  "add_lcp_auth room authtype =
     (if authtype = AUTHCHAP \<and> room < 5 \<or> room < 4 then []
      else if authtype = AUTHCHAP then [3, 5] @ be16 PPPCHAP @ [5]
      else if authtype = AUTHPAP then [3, 4] @ be16 PPPPAP
      else [])"

definition next_ident :: "sessionidt \<Rightarrow> l2tpns \<Rightarrow> l2tpns \<times> u8" where
  "next_ident s g =
     (upd_local s (\<lambda>x. x\<lparr>l_lcp_ident := l_lcp_ident x + 1\<rparr>) g, l_lcp_ident (g_local g s) + 1)"

definition lcp_request_options :: "sessionidt \<Rightarrow> l2tpns \<Rightarrow> bytes" where
  "lcp_request_options s g =
     (let x = g_local g s; magic = s_magic (g_session g s) in
      (if l_ppp_mru x \<noteq> 0 then [1, 4] @ be16 (l_ppp_mru x) else []) @
      (if l_lcp_authtype x \<noteq> 0 then add_lcp_auth 400 (l_lcp_authtype x) else []) @
      (if magic \<noteq> 0 then [5, 6] @ be32 magic else []) @
      (if l_mp_mrru x \<noteq> 0 then [17, 4] @ be16 (l_mp_mrru x) else []) @
      (if l_mp_epdis x \<noteq> 0 then [19, 7, 2] @ be32 (l_mp_epdis x) else []))"

definition sendlcp :: "sessionidt \<Rightarrow> tunnelidt \<Rightarrow> l2tpns \<Rightarrow> l2tpns" where
  "sendlcp s t g =
     (case ppp_hdr 500 0 s t PPPLCP g of
        None \<Rightarrow> g
      | Some hdr \<Rightarrow>
          let (g1, ident) = next_ident s g; opts = lcp_request_options s g1
          in restart_timer s FLcp
               (g_tunnelsend (hdr @ [ConfigReq, ident] @ be16 (of_nat (4 + length opts)) @ opts) t g1))"

definition sendccp :: "sessionidt \<Rightarrow> tunnelidt \<Rightarrow> l2tpns \<Rightarrow> l2tpns" where
  "sendccp s t g =
     (case ppp_hdr 500 0 s t PPPCCP g of
        None \<Rightarrow> g
      | Some hdr \<Rightarrow>
          let (g1, ident) = next_ident s g
          in restart_timer s FCcp (g_tunnelsend (hdr @ [ConfigReq, ident] @ be16 4) t g1))"

text \<open>\<open>config->peer_address\<close> and the other addresses are in network order: they are stored as they are.\<close>

definition our_address :: "tunnelidt \<Rightarrow> l2tpns \<Rightarrow> in_addr" where
  "our_address t g =
     (let cfg = g_cfg g; a = cf_iftun_n_address cfg (t_indexudp (g_tunnel g t)) in
      if cf_peer_address cfg \<noteq> 0 then cf_peer_address cfg else if a \<noteq> 0 then a else cf_my_address cfg)"

definition give_unique_id :: "sessionidt \<Rightarrow> l2tpns \<Rightarrow> l2tpns" where
  "give_unique_id s g =
     (if s_unique_id (g_session g s) \<noteq> 0 then g
      else let n = g_last_id g + 1; n = (if n = 0 then 1 else n)
           in upd_session s (\<lambda>x. x\<lparr>s_unique_id := n\<rparr>) (g\<lparr>g_last_id := n\<rparr>))"

definition sendipcp :: "sessionidt \<Rightarrow> tunnelidt \<Rightarrow> l2tpns \<Rightarrow> l2tpns" where
  "sendipcp s t g =
     (let g1 = give_unique_id s g in
      case ppp_hdr MAXETHER 0 s t PPPIPCP g1 of
        None \<Rightarrow> g1
      | Some hdr \<Rightarrow>
          restart_timer s FIpcp
            (g_tunnelsend (hdr @ [ConfigReq, ucast (s_unique_id (g_session g1 s) AND 0xf)] @ be16 10 @
               [3, 6] @ le32 (our_address t g1)) t g1))"

definition sendipv6cp :: "sessionidt \<Rightarrow> tunnelidt \<Rightarrow> l2tpns \<Rightarrow> l2tpns" where
  "sendipv6cp s t g =
     (case ppp_hdr MAXETHER 0 s t PPPIPV6CP g of
        None \<Rightarrow> g
      | Some hdr \<Rightarrow>
          restart_timer s FIpv6cp
            (g_tunnelsend (hdr @ [ConfigReq, ucast (s_unique_id (g_session g s) AND 0xf)] @ be16 14 @
               [1, 10, 0, 0, 0, 0, 0, 0, 0, 1]) t g))"

definition hostname_of :: "tunnelidt \<Rightarrow> l2tpns \<Rightarrow> bytes" where
  "hostname_of t g = cf_hostname (g_cfg g) (t_indexudp (g_tunnel g t))"

definition sendchap :: "sessionidt \<Rightarrow> tunnelidt \<Rightarrow> l2tpns \<Rightarrow> l2tpns" where
  "sendchap s t g =
     (let (g1, r) = radiusnew s g in
      if r = 0 then g1
      else
        let g2 = upd_radius r (\<lambda>x.
              let try = (if rd_state x \<noteq> RADIUSCHAP then 0 else rd_try x)
              in x\<lparr>rd_chap := 1, rd_id := rd_id x + 1, rd_state := RADIUSCHAP,
                   rd_retry := backoff (g_now g1) try, rd_try := try + 1\<rparr>) g1
        in if rd_try (g_radius g2 r) > 5
           then sessionshutdown s ''CHAP timeout.'' 3 0 TERM_REAUTHENTICATION_FAILURE g2
           else
             let name = hostname_of t g2
             in case ppp_hdr MAXETHER 0 s t PPPCHAP g2 of
                  None \<Rightarrow> g2
                | Some hdr \<Rightarrow>
                    g_tunnelsend (hdr @ [1, rd_id (g_radius g2 r)] @ be16 (of_nat (length name + 21)) @ [16] @
                      take 16 (rd_auth (g_radius g2 r)) @ name) t g2)"

subsection \<open>Opening\<close>

definition ipcp_open :: "sessionidt \<Rightarrow> tunnelidt \<Rightarrow> l2tpns \<Rightarrow> l2tpns" where
  "ipcp_open s t g =
     (let g1 = change_state s FIpcp Opened g; x = g_session g1 s;
          g2 = (if s_walled_garden x \<noteq> 0 \<or> bit (s_flags x) 2 then g1
                else
                  let (g', r) = radiusnew s g1 in
                  if r = 0 then g'
                  else cluster_send_session s
                         (upd_session s (\<lambda>x. x\<lparr>s_flags := s_flags x OR 4\<rparr>) (radius_send r RADIUSSTART g')))
      in if state_of FIpv6cp s g2 = Stopped
         then change_state s FIpv6cp RequestSent (sendipv6cp s t g2) else g2)"

definition lcp_open :: "sessionidt \<Rightarrow> tunnelidt \<Rightarrow> l2tpns \<Rightarrow> l2tpns" where
  "lcp_open s t g =
     (let auth = (l_lcp_authtype (g_local g s) \<noteq> 0);
          g1 = change_state s FLcp Opened
                 (upd_session s (\<lambda>x. x\<lparr>s_ppp := (s_ppp x)\<lparr>phase := if auth then Authenticate else Network\<rparr>\<rparr>) g);
          b = s_bundle (g_session g1 s)
      in if auth then (if l_lcp_authtype (g_local g1 s) = AUTHCHAP then sendchap s t g1 else g1)
         else if b = 0 \<or> b_num_of_links (g_bundle g1 b) = 1 then
           change_state s FCcp Stopped
             (change_state s FIpv6cp (if s6_addr (cf_ipv6_prefix (g_cfg g1)) 0 \<noteq> 0 then Stopped else Closed)
               (change_state s FIpcp RequestSent (sendipcp s t g1)))
         else ipcp_open s t g1)"

definition lcp_restart :: "sessionidt \<Rightarrow> l2tpns \<Rightarrow> l2tpns" where
  "lcp_restart s g =
     change_state s FCcp Initial (change_state s FIpv6cp Initial (change_state s FIpcp Initial
       (upd_session s (\<lambda>x. x\<lparr>s_ppp := (s_ppp x)\<lparr>phase := Establish\<rparr>\<rparr>) g)))"

fun set_routes_up :: "sessionidt \<Rightarrow> nat list \<Rightarrow> l2tpns \<Rightarrow> l2tpns" where
  "set_routes_up s [] g = g"
| "set_routes_up s (r # rs) g =
     (let rt = s_route6 (g_session g s) r in
      if r6_prefixlen rt = 0 then g
      else set_routes_up s rs (route6set s (r6_ip rt) (unat (r6_prefixlen rt)) True g))"

definition ipv6cp_open :: "sessionidt \<Rightarrow> tunnelidt \<Rightarrow> l2tpns \<Rightarrow> l2tpns" where
  "ipv6cp_open s t g =
     (let g1 = set_routes_up s [0..<MAXROUTE6] (change_state s FIpv6cp Opened g);
          a = s_ipv6address (g_session g1 s);
          g2 = (if s6_addr a 0 \<noteq> 0 \<and> sessionbyipv6 a g1 \<noteq> s then route6set s a 128 True g1 else g1)
      in send_ipv6_ra s t None g2)"

end
