(* ===== verification/PppRx.thy ===== *)
theory PppRx
  imports Ppp
begin

text \<open>
  Receiving the packets of LCP, IPCP, IPV6CP and CCP (\<open>processlcp\<close>, \<open>processipcp\<close>, \<open>processipv6cp\<close>,
  \<open>processccp\<close>, \<open>protoreject\<close> of \<^verbatim>\<open>src/ppp.c\<close>).
\<close>

subsection \<open>Building a Configure-Nak or Configure-Reject\<close>

text \<open>
  The pointers \<open>response\<close> and \<open>q\<close> of the code. \<open>Reply hdr pk\<close>: the response \<open>pk\<close> stands behind its header in
  the buffer and \<open>q\<close> is at its end. \<open>Dangling c\<close>: a response with the code \<open>c\<close> exists but \<open>q\<close> is null.
\<close>

datatype reply = NoReply | Reply bytes bytes | Dangling u8

fun reply_code :: "reply \<Rightarrow> u8" where
  "reply_code NoReply = 0"
| "reply_code (Reply hdr pk) = hd pk"
| "reply_code (Dangling c) = c"

fun reply_ok :: "reply \<Rightarrow> bool" where
  "reply_ok (Reply hdr pk) = True"
| "reply_ok _ = False"

definition reply_add :: "nat \<Rightarrow> bytes \<Rightarrow> bytes \<Rightarrow> bytes \<Rightarrow> reply" where
  "reply_add blen hdr pk opt =
     (if length hdr + length pk + length opt > blen then Dangling (hd pk) else Reply hdr (pk @ opt))"

text \<open>The code and the identifier of the request; the length is written when the response is complete.\<close>

definition new_reply :: "nat \<Rightarrow> sessionidt \<Rightarrow> u16 \<Rightarrow> mem \<Rightarrow> u8 \<Rightarrow> bytes \<Rightarrow> l2tpns \<Rightarrow> reply" where
  "new_reply blen s mtype m c opt g =
     (case ppp_hdr blen 2 s (s_tunnel (g_session g s)) mtype g of
        None \<Rightarrow> NoReply
      | Some hdr \<Rightarrow> reply_add blen hdr [c, m 1, 0, 0] opt)"

text \<open>\<open>ppp_conf_rej\<close>; \<open>queued\<close> tells whether the caller passes the end of the response or a null pointer.\<close>

definition ppp_conf_rej :: "nat \<Rightarrow> sessionidt \<Rightarrow> u16 \<Rightarrow> mem \<Rightarrow> nat \<Rightarrow> bool \<Rightarrow> reply \<Rightarrow> l2tpns \<Rightarrow> reply" where
  "ppp_conf_rej blen s mtype m off queued r g =
     (let opt = map m [off..<off + unat (m (off + 1))] in
      if reply_code r = ConfigRej
      then (case r of Reply hdr pk \<Rightarrow> if queued then reply_add blen hdr pk opt else Dangling ConfigRej
                    | _ \<Rightarrow> Dangling ConfigRej)
      else new_reply blen s mtype m ConfigRej opt g)"

definition nak_sent :: "fsm \<Rightarrow> sessionidt \<Rightarrow> l2tpns \<Rightarrow> int" where
  "nak_sent f s g = f_nak_sent (fsm_timer f (g_local g s))"

fun fsm_proto :: "fsm \<Rightarrow> u16" where
  "fsm_proto FLcp = PPPLCP"
| "fsm_proto FIpcp = PPPIPCP"
| "fsm_proto FIpv6cp = PPPIPV6CP"
| "fsm_proto FCcp = PPPCCP"

definition ppp_conf_nak :: "nat \<Rightarrow> sessionidt \<Rightarrow> fsm \<Rightarrow> mem \<Rightarrow> nat \<Rightarrow> bytes \<Rightarrow> reply \<Rightarrow> l2tpns \<Rightarrow> reply \<times> l2tpns" where
  "ppp_conf_nak blen s f m off value r g =
     (let mtype = fsm_proto f; reject = (nak_sent f s g \<ge> cf_ppp_max_failure (g_cfg g));
          opt = [m off, of_nat (length value + 2)] @ value
      in case r of
           NoReply \<Rightarrow>
             if reject then (ppp_conf_rej blen s mtype m off False r g, g)
             else (case new_reply blen s mtype m ConfigNak opt g of
                     NoReply \<Rightarrow> (NoReply, g)
                   | r' \<Rightarrow> (r', upd_local s (upd_timer f (\<lambda>x. x\<lparr>f_nak_sent := f_nak_sent x + 1\<rparr>)) g))
         | Reply hdr pk \<Rightarrow>
             if hd pk = ConfigNak then (reply_add blen hdr pk opt, g)
             else if reject then (ppp_conf_rej blen s mtype m off False r g, g) else (r, g)
         | Dangling c \<Rightarrow>
             if c = ConfigNak then (r, g)
             else if reject then (ppp_conf_rej blen s mtype m off False r g, g) else (r, g))"

definition with_length :: "bytes \<Rightarrow> bytes" where
  "with_length pk = take 2 pk @ be16 (of_nat (length pk)) @ drop 4 pk"

text \<open>The packet at \<open>m\<close> with another code.\<close>

definition recoded :: "u8 \<Rightarrow> mem \<Rightarrow> nat \<Rightarrow> bytes" where
  "recoded c m l = map (m(0 := c)) [0..<l]"

text \<open>
  \<open>ppp_code_rej\<close> and \<open>protoreject\<close> write up to the MRU behind the header: with an MRU as large as the buffer
  they write past its end.
\<close>

definition clamp_mru :: "sessionidt \<Rightarrow> nat \<Rightarrow> l2tpns \<Rightarrow> nat" where
  "clamp_mru s l g = min l (min MAXETHER (max MINMTU (unat (s_mru (g_session g s)))))"

definition ppp_code_rej :: "sessionidt \<Rightarrow> tunnelidt \<Rightarrow> u16 \<Rightarrow> mem \<Rightarrow> nat \<Rightarrow> l2tpns \<Rightarrow> l2tpns outcome" where
  "ppp_code_rej s t proto m l g =
     (let l = clamp_mru s ((l + 4) mod 65536) g in
      case ppp_hdr MAXETHER 0 s t proto g of
        None \<Rightarrow> Ret g
      | Some hdr \<Rightarrow>
          let (g1, ident) = next_ident s g in
          if l < 4 \<or> length hdr + l > MAXETHER then Undef
          else Ret (g_tunnelsend (hdr @ [CodeRej, ident] @ be16 (of_nat l) @ map m [0..<l - 4]) t g1))"

definition protoreject :: "sessionidt \<Rightarrow> tunnelidt \<Rightarrow> mem \<Rightarrow> nat \<Rightarrow> u16 \<Rightarrow> l2tpns \<Rightarrow> l2tpns outcome" where
  "protoreject s t m l proto g =
     (let l = clamp_mru s ((l + 6) mod 65536) g in
      case ppp_hdr MAXETHER 0 s t PPPLCP g of
        None \<Rightarrow> Ret g
      | Some hdr \<Rightarrow>
          let (g1, ident) = next_ident s g in
          if l < 6 \<or> length hdr + l > MAXETHER then Undef
          else Ret (g_tunnelsend (hdr @ [ProtocolRej, ident] @ be16 (of_nat l) @ be16 proto @ map m [0..<l - 6]) t g1))"

subsection \<open>The switches on the state\<close>

text \<open>A Configure-Ack; \<open>restart\<close> is what LCP does first when it was open.\<close>

definition recv_ack ::
    "fsm \<Rightarrow> (l2tpns \<Rightarrow> l2tpns) \<Rightarrow> (l2tpns \<Rightarrow> l2tpns) \<Rightarrow> (l2tpns \<Rightarrow> l2tpns) \<Rightarrow> sessionidt \<Rightarrow> l2tpns \<Rightarrow> l2tpns" where
  "recv_ack f send_req opened restart s g =
     (case state_of f s g of
        RequestSent \<Rightarrow> change_state s f AckReceived (initialise_restart_count s f g)
      | AckReceived \<Rightarrow> change_state s f RequestSent (send_req g)
      | Opened \<Rightarrow> change_state s f RequestSent (send_req (restart g))
      | AckSent \<Rightarrow> opened g
      | _ \<Rightarrow> g)"

text \<open>A Configure-Request that is answered with an acknowledgement (\<open>ack\<close>) or not.\<close>

datatype answer = Ignore | Respond | RespondTerminate

definition recv_req ::
    "fsm \<Rightarrow> (l2tpns \<Rightarrow> l2tpns) \<Rightarrow> (l2tpns \<Rightarrow> l2tpns) \<Rightarrow> (l2tpns \<Rightarrow> l2tpns) \<Rightarrow> sessionidt \<Rightarrow> bool \<Rightarrow> l2tpns \<Rightarrow>
     answer \<times> l2tpns" where
  "recv_req f send_req opened restart s ack g =
     (let next = (\<lambda>g. change_state s f (if ack then AckSent else RequestSent) g) in
      case state_of f s g of
        Closed \<Rightarrow> (RespondTerminate, g)
      | Stopped \<Rightarrow> (Respond, next (send_req (initialise_restart_count s f g)))
      | RequestSent \<Rightarrow> (Respond, if ack then change_state s f AckSent g else g)
      | AckReceived \<Rightarrow> (Respond, if ack then opened g else g)
      | Opened \<Rightarrow> (Respond, next (send_req (restart g)))
      | AckSent \<Rightarrow> (Respond, next g)
      | _ \<Rightarrow> (Ignore, g))"

text \<open>The answer to a Configure-Request, with the header made before the switch.\<close>

definition answer_req ::
    "fsm \<Rightarrow> sessionidt \<Rightarrow> tunnelidt \<Rightarrow> mem \<Rightarrow> bytes \<Rightarrow> bytes \<Rightarrow> answer \<times> l2tpns \<Rightarrow> l2tpns" where
  "answer_req f s t m hdr pk a =
     (case a of
        (Ignore, g) \<Rightarrow> g
      | (Respond, g) \<Rightarrow> g_tunnelsend (hdr @ pk) t g
      | (RespondTerminate, g) \<Rightarrow>
          (case ppp_hdr MAXETHER 2 s t (fsm_proto f) g of
             None \<Rightarrow> g
           | Some hdr \<Rightarrow> g_tunnelsend (hdr @ [TerminateAck, m 1] @ be16 4) t g))"

text \<open>A Terminate-Request; \<open>down\<close> is what LCP does first when it was open.\<close>

definition recv_terminate ::
    "fsm \<Rightarrow> (l2tpns \<Rightarrow> l2tpns) \<Rightarrow> sessionidt \<Rightarrow> tunnelidt \<Rightarrow> mem \<Rightarrow> nat \<Rightarrow> l2tpns \<Rightarrow> l2tpns" where
  "recv_terminate f down s t m l g =
     (if state_of f s g \<in> {Initial, Starting} then g
      else
        let g1 = (if state_of f s g = Opened
                  then change_state s f Closing (zero_restart_count s f (down g)) else g)
        in send_ppp MAXETHER s t (fsm_proto f) (recoded TerminateAck m l) g1)"

subsection \<open>LCP\<close>

lemma uint_positive: "0 < unat w \<Longrightarrow> 0 < uint w"
  by (metis gr_implies_not0 uint_0_iff unat_0 word_neq_0_conv uint_ge_0 order_le_less)

text \<open>The offsets of the options that the loops over an LCP packet visit.\<close>

function lcp_options :: "mem \<Rightarrow> int \<Rightarrow> nat \<Rightarrow> nat list" where
  "lcp_options m x off =
     (let len = unat (m (off + 1)) in
      if x > 2 \<and> len \<noteq> 0 \<and> m off \<noteq> 0 \<and> int len \<le> x then off # lcp_options m (x - int len) (off + len) else [])"
  by pat_completeness auto
termination
  by (relation "measure (\<lambda>(m, x, off). nat x)") (auto intro: uint_positive)

declare lcp_options.simps [simp del]

definition lcp_ack_auth :: "mem \<Rightarrow> nat list \<Rightarrow> int" where
  "lcp_ack_auth m opts =
     fold (\<lambda>off auth.
       if m off = 3 then
         if rd16 m (off + 2) = PPPPAP then AUTHPAP
         else if rd16 m (off + 2) = PPPCHAP \<and> m (off + 4) = 5 then AUTHCHAP else auth
       else auth) opts 0"

definition lcp_nak :: "sessionidt \<Rightarrow> mem \<Rightarrow> nat \<Rightarrow> bytes \<Rightarrow> reply \<times> l2tpns \<Rightarrow> reply \<times> l2tpns" where
  "lcp_nak s m off value rg = (case rg of (r, g) \<Rightarrow> ppp_conf_nak MAXETHER s FLcp m off value r g)"

text \<open>Our kinds of authentication, offered one after the other.\<close>

definition lcp_nak_auth :: "sessionidt \<Rightarrow> mem \<Rightarrow> nat \<Rightarrow> reply \<times> l2tpns \<Rightarrow> reply \<times> l2tpns" where
  "lcp_nak_auth s m off rg =
     (let cfg = g_cfg (snd rg); types = cf_radius_authtypes cfg; prefer = cf_radius_authprefer cfg;
          a = add_lcp_auth 5 prefer
      in if a = [] then rg
         else
           let rg1 = lcp_nak s m off (drop 2 a) rg in
           if reply_ok (fst rg1) \<and> reply_code (fst rg1) = ConfigNak \<and> types \<noteq> prefer then
             let a' = add_lcp_auth 5 (types AND NOT prefer)
             in if a' = [] then rg1 else lcp_nak s m off (drop 2 a') rg1
           else rg1)"

definition set_epdis :: "mem \<Rightarrow> nat \<Rightarrow> epdist \<Rightarrow> epdist" where
  "set_epdis m off e =
     (let n = m (off + 1) - 3; n = (if n > 20 then 20 else n)
      in e\<lparr>ep_class := m (off + 2), ep_length := n,
           ep_address := (\<lambda>a. if a < unat n then m (off + 3 + a) else ep_address e a)\<rparr>)"

text \<open>One option of a Configure-Request; the third component is the counter \<open>changed\<close>.\<close>

definition lcp_req_option :: "sessionidt \<Rightarrow> mem \<Rightarrow> nat \<Rightarrow> (reply \<times> l2tpns) \<times> bool \<Rightarrow> (reply \<times> l2tpns) \<times> bool" where
  "lcp_req_option s m off st =
     (let (rg, changed) = st; (r, g) = rg; ty = m off; w = rd16 m (off + 2) in
      if ty = 1 then
        if unat w \<ge> MINMTU then ((r, upd_session s (\<lambda>x. x\<lparr>s_mru := w\<rparr>) g), True)
        else (lcp_nak s m off (be16 (g_MRU g)) rg, changed)
      else if ty = 2 then
        if rd32 m (off + 2) = 0 then st else (lcp_nak s m off [0, 0, 0, 0] rg, changed)
      else if ty = 3 then
        if w = PPPPAP \<and> cf_radius_authtypes (g_cfg g) AND AUTHPAP \<noteq> 0
        then ((r, upd_local s (\<lambda>x. x\<lparr>l_lcp_authtype := AUTHPAP\<rparr>) g), changed)
        else if w = PPPCHAP \<and> cf_radius_authtypes (g_cfg g) AND AUTHCHAP \<noteq> 0 \<and> m (off + 4) = 5
        then ((r, upd_local s (\<lambda>x. x\<lparr>l_lcp_authtype := AUTHCHAP\<rparr>) g), changed)
        else (lcp_nak_auth s m off rg, changed)
      else if ty \<in> {4, 5, 7, 8} then st
      else if ty = 17 then ((r, upd_session s (\<lambda>x. x\<lparr>s_mrru := ucast w\<rparr>) g), True)
      else if ty = 18 then ((r, upd_session s (\<lambda>x. x\<lparr>s_mssf := 1\<rparr>) g), True)
      else if ty = 19 then ((r, upd_session s (\<lambda>x. x\<lparr>s_epdis := set_epdis m off (s_epdis x)\<rparr>) g), True)
      else ((ppp_conf_rej MAXETHER s PPPLCP m off True r g, g), changed))"

text \<open>
  The Configure-Request. When the response is left dangling its length is computed from the null pointer.
\<close>

definition lcp_configreq :: "sessionidt \<Rightarrow> tunnelidt \<Rightarrow> mem \<Rightarrow> nat \<Rightarrow> l2tpns \<Rightarrow> l2tpns outcome" where
  "lcp_configreq s t m l g =
     (let ((r, g1), changed) =
            fold (lcp_req_option s m) (lcp_options m (int l - 4) 4) ((NoReply, g), False);
          g2 = (if changed then cluster_send_session s g1 else g1);
          switch = recv_req FLcp (sendlcp s t) (lcp_open s t) (lcp_restart s) s;
          respond = (\<lambda>hdr pk ack.
            if state_of FLcp s g2 = Closing
            then g_tunnelsend (hdr @ pk) t
                   (sessionshutdown s ''LCP: ConfigReq in state Closing. This should not happen. Killing session.''
                     3 0 TERM_LOST_SERVICE g2)
            else answer_req FLcp s t m hdr pk (switch ack g2))
      in case r of
           Dangling c \<Rightarrow> Undef
         | Reply hdr pk \<Rightarrow> Ret (respond hdr (with_length pk) False)
         | NoReply \<Rightarrow>
             (case ppp_hdr MAXETHER l s t PPPLCP g2 of
                None \<Rightarrow> Ret g2
              | Some hdr \<Rightarrow> Ret (respond hdr (recoded ConfigAck m l) True)))"

text \<open>
  One option of a Configure-Nak (\<open>nak\<close>) or Configure-Reject with the authentication found so far; \<open>Inl\<close> when
  the function returns.
\<close>

definition lcp_nak_option :: "sessionidt \<Rightarrow> mem \<Rightarrow> bool \<Rightarrow> nat \<Rightarrow> l2tpns \<times> int \<Rightarrow> l2tpns + l2tpns \<times> int" where
  "lcp_nak_option s m nak off st =
     (let (g, auth) = st; ty = m off; len = unat (m (off + 1)); w = rd16 m (off + 2);
          loc = (\<lambda>u. Inr (upd_local s u g, auth))
      in
      if ty = 1 then
        if \<not> nak then loc (\<lambda>x. x\<lparr>l_ppp_mru := 0\<rparr>)
        else if len < 4 then Inr st else loc (\<lambda>x. x\<lparr>l_ppp_mru := w\<rparr>)
      else if ty = 3 then
        if auth > 0 then Inr st
        else if \<not> nak then Inr (g, 0)
        else if len < 4 then Inr st
        else if w = PPPPAP then Inr (g, cf_radius_authtypes (g_cfg g) AND AUTHPAP)
        else if w = PPPCHAP \<and> len > 4 \<and> m (off + 4) = 5 then Inr (g, cf_radius_authtypes (g_cfg g) AND AUTHCHAP)
        else Inr st
      else if ty = 5 then
        if nak \<and> len < 6 then Inr (upd_session s (\<lambda>x. x\<lparr>s_magic := 0\<rparr>) g, auth)
        else Inr (cluster_send_session s
                    (upd_session s (\<lambda>x. x\<lparr>s_magic := if nak then rd32 m (off + 2) else 0\<rparr>) g), auth)
      else if ty = 17 then loc (\<lambda>x. x\<lparr>l_mp_mrru := if nak then w else 0\<rparr>)
      else if ty = 18 then loc (\<lambda>x. x\<lparr>l_mp_mssf := 0\<rparr>)
      else if ty = 19 then if nak then Inr st else loc (\<lambda>x. x\<lparr>l_mp_epdis := 0\<rparr>)
      else Inl (sessionshutdown s ''Unable to negotiate LCP.'' 3 0 TERM_USER_ERROR g))"

fun lcp_nak_loop :: "sessionidt \<Rightarrow> mem \<Rightarrow> bool \<Rightarrow> nat list \<Rightarrow> l2tpns \<times> int \<Rightarrow> l2tpns + l2tpns \<times> int" where
  "lcp_nak_loop s m nak [] st = Inr st"
| "lcp_nak_loop s m nak (off # opts) st =
     (case lcp_nak_option s m nak off st of Inl g \<Rightarrow> Inl g | Inr st' \<Rightarrow> lcp_nak_loop s m nak opts st')"

definition lcp_confignak :: "sessionidt \<Rightarrow> tunnelidt \<Rightarrow> mem \<Rightarrow> nat \<Rightarrow> bool \<Rightarrow> l2tpns \<Rightarrow> l2tpns" where
  "lcp_confignak s t m l nak g =
     (case lcp_nak_loop s m nak (lcp_options m (int l - 4) 4) (g, -1) of
        Inl g1 \<Rightarrow> g1
      | Inr (g1, auth) \<Rightarrow>
          if auth = 0 then sessionshutdown s ''Unsupported authentication.'' 3 0 TERM_USER_ERROR g1
          else
            let g2 = (if auth > 0 then upd_local s (\<lambda>x. x\<lparr>l_lcp_authtype := auth\<rparr>) g1 else g1)
            in case state_of FLcp s g2 of
                 Closed \<Rightarrow> answer_req FLcp s t m [] [] (RespondTerminate, g2)
               | Stopped \<Rightarrow> answer_req FLcp s t m [] [] (RespondTerminate, g2)
               | RequestSent \<Rightarrow> sendlcp s t (initialise_restart_count s FLcp g2)
               | AckSent \<Rightarrow> sendlcp s t (initialise_restart_count s FLcp g2)
               | AckReceived \<Rightarrow> sendlcp s t g2
               | Opened \<Rightarrow> sendlcp s t (lcp_restart s g2)
               | _ \<Rightarrow> g2)"

definition rejected_proto :: "mem \<Rightarrow> nat \<Rightarrow> u16" where
  "rejected_proto m l =
     (if l > 4 then
        if l > 5 \<and> \<not> bit (m 4) 0 then rd16 m 4 else ucast (m 4)
      else 0)"

definition lcp_echo :: "sessionidt \<Rightarrow> tunnelidt \<Rightarrow> mem \<Rightarrow> nat \<Rightarrow> l2tpns \<Rightarrow> l2tpns" where
  "lcp_echo s t m l g =
     (let mg = be32 (s_magic (g_session g s));
          m' = m(4 := mg ! 0, 5 := mg ! 1, 6 := mg ! 2, 7 := mg ! 3)
      in case ppp_hdr MAXETHER l s t PPPLCP g of
           None \<Rightarrow> g
         | Some hdr \<Rightarrow>
             let g1 = g_tunnelsend (hdr @ recoded EchoReply m' l) t g; p = s_ppp (g_session g1 s)
             in if phase p = Network \<and> ipv6cp p = Opened then send_ipv6_ra s t None g1 else g1)"

definition processlcp :: "sessionidt \<Rightarrow> tunnelidt \<Rightarrow> mem \<Rightarrow> nat \<Rightarrow> l2tpns \<Rightarrow> l2tpns outcome" where
  "processlcp s t m l g =
     (let hl = unat (rd16 m 2); c = m 0 in
      if l < 4 \<or> hl > l then Ret g
      else if s_die (g_session g s) \<noteq> 0 then Ret g
      else if c = ConfigAck then
        let auth = lcp_ack_auth m (lcp_options m (int hl - 4) 4);
            g1 = (if s_ip (g_session g s) = 0 \<and> auth \<noteq> 0
                  then upd_local s (\<lambda>x. x\<lparr>l_lcp_authtype := auth\<rparr>) g else g)
        in Ret (recv_ack FLcp (sendlcp s t) (lcp_open s t) (lcp_restart s) s g1)
      else if c = ConfigReq then lcp_configreq s t m hl g
      else if c = ConfigNak \<or> c = ConfigRej then Ret (lcp_confignak s t m hl (c = ConfigNak) g)
      else if c = TerminateReq then Ret (recv_terminate FLcp (lcp_restart s) s t m hl g)
      else if c = ProtocolRej then
        Ret (if rejected_proto m hl = PPPIPV6CP then change_state s FIpv6cp Closed g else g)
      else if c = EchoReq then Ret (lcp_echo s t m hl g)
      else if c = EchoReply \<or> c = CodeRej then Ret g
      else ppp_code_rej s t PPPLCP m hl g)"

subsection \<open>IPCP and IPV6CP\<close>

text \<open>
  The loop over the options of a Configure-Request. An option is handled by \<open>h\<close>; \<open>Inl\<close> means that the
  function returns. The state holds the response, the daemon and the counter \<open>gotip\<close>.
\<close>

function ncp_options ::
    "(nat \<Rightarrow> (reply \<times> l2tpns) \<times> bool \<Rightarrow> l2tpns + (reply \<times> l2tpns) \<times> bool) \<Rightarrow> mem \<Rightarrow> int \<Rightarrow> nat \<Rightarrow>
     (reply \<times> l2tpns) \<times> bool \<Rightarrow> l2tpns + (reply \<times> l2tpns) \<times> bool" where
  "ncp_options h m len off st =
     (if len > 2 then
        let n = unat (m (off + 1)) in
        if n = 0 \<or> int n > len then Inl (snd (fst st))
        else (case h off st of
                Inl g \<Rightarrow> Inl g
              | Inr st' \<Rightarrow> ncp_options h m (len - int n) (off + n) st')
      else Inr st)"
  by pat_completeness auto
termination
  by (relation "measure (\<lambda>(h, m, len, off, st). nat len)") (auto intro: uint_positive)

declare ncp_options.simps [simp del]

definition option_is :: "mem \<Rightarrow> nat \<Rightarrow> bytes \<Rightarrow> bool" where
  "option_is m off v = (map m [off + 2..<off + 2 + length v] = v)"

text \<open>An option with a fixed value: anything else is answered with a Nak.\<close>

definition want_value ::
    "fsm \<Rightarrow> sessionidt \<Rightarrow> mem \<Rightarrow> nat \<Rightarrow> bytes \<Rightarrow> (reply \<times> l2tpns) \<times> bool \<Rightarrow> l2tpns + (reply \<times> l2tpns) \<times> bool" where
  "want_value f s m off v st =
     (let ((r, g), gotip) = st in
      if unat (m (off + 1)) \<noteq> 2 + length v then Inl g
      else if option_is m off v then Inr st
      else
        let (r', g') = ppp_conf_nak MAXETHER s f m off v r g
        in if reply_ok r' then Inr ((r', g'), gotip) else Inl g')"

definition ipcp_option :: "sessionidt \<Rightarrow> mem \<Rightarrow> nat \<Rightarrow> (reply \<times> l2tpns) \<times> bool \<Rightarrow> l2tpns + (reply \<times> l2tpns) \<times> bool" where
  "ipcp_option s m off st =
     (let ((r, g), gotip) = st; sess = g_session g s; ty = m off in
      if ty = 3 then
        if m (off + 1) \<noteq> 6 then Inl g
        else if option_is m off (be32 (s_ip sess)) then Inr ((r, g), True)
        else
          let (r', g') = ppp_conf_nak MAXETHER s FIpcp m off (be32 (s_ip sess)) r g
          in if \<not> reply_ok r' \<or> r' \<noteq> r \<and> reply_code r' = ConfigRej
             then Inl (sessionshutdown s ''Can't negotiate IPCP.'' 3 0 TERM_USER_ERROR g')
             else Inr ((r', g'), True)
      else if ty = 129 then want_value FIpcp s m off (be32 (s_dns1 sess)) st
      else if ty = 131 then want_value FIpcp s m off (be32 (s_dns2 sess)) st
      else
        let r' = ppp_conf_rej MAXETHER s PPPIPCP m off True r g
        in if reply_ok r' then Inr ((r', g), gotip) else Inl g)"

definition ipv6_ident :: "sessiont \<Rightarrow> bytes" where
  "ipv6_ident sess =
     (if s6_addr (s_ipv6address sess) 0 \<noteq> 0 then drop 8 (in6_bytes (s_ipv6address sess))
      else be32 (s_ip sess) @ [0, 0, 0, 0])"

definition ipv6cp_option :: "sessionidt \<Rightarrow> mem \<Rightarrow> nat \<Rightarrow> (reply \<times> l2tpns) \<times> bool \<Rightarrow> l2tpns + (reply \<times> l2tpns) \<times> bool" where
  "ipv6cp_option s m off st =
     (let ((r, g), gotip) = st in
      if m off = 1 then want_value FIpv6cp s m off (ipv6_ident (g_session g s)) ((r, g), True)
      else
        let r' = ppp_conf_rej MAXETHER s PPPIPV6CP m off True r g
        in if reply_ok r' then Inr ((r', g), gotip) else Inl g)"

text \<open>The part after the loop: respond to a request that has the wanted option, then the switch.\<close>

definition ncp_configreq ::
    "fsm \<Rightarrow> (nat \<Rightarrow> (reply \<times> l2tpns) \<times> bool \<Rightarrow> l2tpns + (reply \<times> l2tpns) \<times> bool) \<Rightarrow> (l2tpns \<Rightarrow> l2tpns) \<Rightarrow>
     (l2tpns \<Rightarrow> l2tpns) \<Rightarrow> sessionidt \<Rightarrow> tunnelidt \<Rightarrow> mem \<Rightarrow> nat \<Rightarrow> l2tpns \<Rightarrow> l2tpns" where
  "ncp_configreq f h send_req opened s t m l g =
     (case ncp_options h m (int l - 4) 4 ((NoReply, g), False) of
        Inl g1 \<Rightarrow> g1
      | Inr ((r, g1), gotip) \<Rightarrow>
          let switch = recv_req f send_req opened (initialise_restart_count s f) s
          in case r of
               Reply hdr pk \<Rightarrow> answer_req f s t m hdr (with_length pk) (switch False g1)
             | _ \<Rightarrow>
                 if gotip then
                   (case ppp_hdr MAXETHER l s t (fsm_proto f) g1 of
                      None \<Rightarrow> g1
                    | Some hdr \<Rightarrow> answer_req f s t m hdr (recoded ConfigAck m l) (switch True g1))
                 else g1)"

definition before_network :: "sessionidt \<Rightarrow> l2tpns \<Rightarrow> bool" where
  "before_network s g = (phase (s_ppp (g_session g s)) \<in> {Dead, Establish, Authenticate})"

definition processipcp :: "sessionidt \<Rightarrow> tunnelidt \<Rightarrow> mem \<Rightarrow> nat \<Rightarrow> l2tpns \<Rightarrow> l2tpns outcome" where
  "processipcp s t m l g =
     (let hl = unat (rd16 m 2); c = m 0 in
      if l < 4 \<or> hl > l then Ret g
      else if before_network s g then Ret g
      else if c = ConfigAck then Ret (recv_ack FIpcp (sendipcp s t) (ipcp_open s t) (\<lambda>g. g) s g)
      else if c = ConfigReq then
        Ret (ncp_configreq FIpcp (ipcp_option s m) (sendipcp s t) (ipcp_open s t) s t m hl g)
      else if c = TerminateReq then Ret (recv_terminate FIpcp (\<lambda>g. g) s t m hl g)
      else if c = CodeRej then Ret g
      else ppp_code_rej s t PPPIPCP m hl g)"

definition processipv6cp :: "sessionidt \<Rightarrow> tunnelidt \<Rightarrow> mem \<Rightarrow> nat \<Rightarrow> l2tpns \<Rightarrow> l2tpns outcome" where
  "processipv6cp s t m l g =
     (let hl = unat (rd16 m 2); c = m 0 in
      if l < 4 \<or> hl > l then Ret g
      else if before_network s g then Ret g
      else if s_ip (g_session g s) = 0 then Ret g
      else if c = ConfigAck then Ret (recv_ack FIpv6cp (sendipv6cp s t) (ipv6cp_open s t) (\<lambda>g. g) s g)
      else if c = ConfigReq then
        Ret (ncp_configreq FIpv6cp (ipv6cp_option s m) (sendipv6cp s t) (ipv6cp_open s t) s t m hl g)
      else if c = TerminateReq then Ret (recv_terminate FIpv6cp (\<lambda>g. g) s t m hl g)
      else if c = CodeRej then Ret g
      else ppp_code_rej s t PPPIPV6CP m hl g)"

subsection \<open>CCP\<close>

text \<open>Every compression is rejected. The length in the packet is not looked at.\<close>

definition processccp :: "sessionidt \<Rightarrow> tunnelidt \<Rightarrow> mem \<Rightarrow> nat \<Rightarrow> l2tpns \<Rightarrow> l2tpns outcome" where
  "processccp s t m l g =
     (let c = m 0 in
      if before_network s g then Ret g
      else if c = ConfigAck then
        Ret (recv_ack FCcp (sendccp s t) (change_state s FCcp Opened) (\<lambda>g. g) s g)
      else if c = ConfigReq then
        let ack = (l < 6) in
        case ppp_hdr MAXETHER l s t PPPCCP g of
          None \<Rightarrow> Ret g
        | Some hdr \<Rightarrow>
            Ret (answer_req FCcp s t m hdr (recoded (if ack then ConfigAck else ConfigRej) m l)
              (recv_req FCcp (sendccp s t) (change_state s FCcp Opened) (initialise_restart_count s FCcp) s ack g))
      else if c = TerminateReq then
        (case ppp_hdr MAXETHER l s t PPPCCP g of
           None \<Rightarrow> Ret g
         | Some hdr \<Rightarrow> Ret (change_state s FCcp Stopped (g_tunnelsend (hdr @ recoded TerminateAck m l) t g)))
      else if c = CodeRej then Ret g
      else ppp_code_rej s t PPPCCP m l g)"

end
