(* ===== verification/SessionInv.thy ===== *)
theory SessionInv
  imports Session
begin

text \<open>
  What the end of a session leaves behind: frame lemmas for the operations of the theory \<open>Session\<close>, that
  a killed tunnel leaves no session, that a killed session leaves no cached address, and that no
  RADIUS accounting stop is sent.
\<close>

subsection \<open>Frames\<close>

text \<open>The fields by which sessions are found and allocated.\<close>

definition sess_core :: "sessiont \<Rightarrow> u32 \<times> tunnelidt \<times> sessionidt \<times> sessionidt" where
  "sess_core x = (s_opened x, s_tunnel x, s_next x, s_forwardtosession x)"

definition keeps :: "l2tpns \<Rightarrow> l2tpns \<Rightarrow> bool" where
  "keeps g g' \<longleftrightarrow>
     g_session g' = g_session g \<and> g_sessionfree g' = g_sessionfree g \<and> g_alloc g' = g_alloc g \<and>
     cf_cluster_highest_sessionid (g_cfg g') = cf_cluster_highest_sessionid (g_cfg g)"

definition sframe :: "sessionidt \<Rightarrow> l2tpns \<Rightarrow> l2tpns \<Rightarrow> bool" where
  "sframe s g g' \<longleftrightarrow>
     (\<forall>i. sess_core (g_session g' i) = sess_core (g_session g i)) \<and>
     (\<forall>i. i \<noteq> s \<longrightarrow> g_session g' i = g_session g i) \<and>
     g_sessionfree g' = g_sessionfree g \<and> g_alloc g' = g_alloc g \<and>
     cf_cluster_highest_sessionid (g_cfg g') = cf_cluster_highest_sessionid (g_cfg g)"

named_theorems keeps_intros \<open>operations that leave all sessions alone\<close>
named_theorems sframe_intros \<open>operations that change one session and not its core\<close>

lemma keeps_refl [keeps_intros]: "keeps g g"
  by (simp add: keeps_def)

lemma keeps_trans: "keeps g g1 \<Longrightarrow> keeps g1 g2 \<Longrightarrow> keeps g g2"
  by (simp add: keeps_def)

lemma keeps_sframe: "keeps g g' \<Longrightarrow> sframe s g g'"
  by (simp add: keeps_def sframe_def)

lemma sframe_refl: "sframe s g g"
  by (simp add: sframe_def)

lemma sframe_trans: "sframe s g g1 \<Longrightarrow> sframe s g1 g2 \<Longrightarrow> sframe s g g2"
  by (simp add: sframe_def)

lemma keeps_basic [keeps_intros]:
  "keeps g (upd_local s fl g)" "keeps g (upd_radius r fr g)" "keeps g (upd_bundle b fb g)"
  "keeps g (upd_tunnel t ft g)" "keeps g (upd_pool i fp g)" "keeps g (out e g)" "keeps g (filter_ref f d g)"
  "keeps g (cache_ip a n g)" "keeps g (cache_ip6 a6 pl s g)" "keeps g (g\<lparr>g_tbf := tb\<rparr>)"
  "keeps g (g\<lparr>g_shut_acct := acct\<rparr>)" "keeps g (g\<lparr>g_next_radius_id := nid\<rparr>)" "keeps g (g\<lparr>g_random := rnd\<rparr>)"
  "keeps g (g\<lparr>g_bgp := bgp\<rparr>)"
  by (simp_all add: keeps_def upd_local_def upd_radius_def upd_bundle_def upd_tunnel_def upd_pool_def out_def
      filter_ref_def cache_ip_def cache_ip6_def)

lemma keeps_on_tunnel [keeps_intros]: "keeps g (on_tunnel f t g)"
  by (simp add: on_tunnel_def keeps_def split: prod.split)

lemma keeps_controladd [keeps_intros]: "keeps g (g_controladd c far t g)"
  unfolding g_controladd_def by (rule keeps_on_tunnel)

lemma keeps_fold: "(\<And>x g. keeps g (f x g)) \<Longrightarrow> keeps g (fold f xs g)"
  by (induction xs arbitrary: g) (auto intro: keeps_refl keeps_trans)

lemma keeps_cache_route [keeps_intros]: "keeps g (cache_route ip pl n g)"
  unfolding cache_route_def by (rule keeps_fold) (rule keeps_intros)

lemma keeps_routeset [keeps_intros]: "keeps g (routeset s ip pl gw add g)"
  unfolding routeset_def Let_def
  by (auto intro!: keeps_trans[OF keeps_trans[OF keeps_basic(6) keeps_basic(14)] keeps_cache_route]
      keeps_trans[OF keeps_basic(6) keeps_basic(14)])

lemma keeps_route6set [keeps_intros]: "keeps g (route6set s ip6 pl add g)"
  unfolding route6set_def Let_def
  by (auto intro!: keeps_refl keeps_trans[OF keeps_trans[OF keeps_basic(6) keeps_basic(14)] keeps_basic(9)]
      keeps_trans[OF keeps_basic(6) keeps_basic(14)])

lemma keeps_heartbeat [keeps_intros]: "keeps g (cluster_heartbeat g)"
  by (simp add: cluster_heartbeat_def send_heartbeat_def keeps_def Let_def out_def upd_cfg_def split: prod.split)

lemma keeps_type_changed [keeps_intros]: "keeps g (type_changed ty i g)"
proof -
  have "keeps g (g\<lparr>g_changes := c\<rparr>)" for c by (simp add: keeps_def)
  then show ?thesis
    unfolding type_changed_def Let_def by (auto intro: keeps_trans keeps_heartbeat keeps_basic)
qed

lemma keeps_cluster_send [keeps_intros]:
  "keeps g (cluster_send_session s g)" "keeps g (cluster_send_bundle b g)" "keeps g (cluster_send_tunnel t g)"
  by (simp_all add: cluster_send_session_def cluster_send_bundle_def cluster_send_tunnel_def keeps_refl keeps_type_changed)

lemma keeps_bundleclear [keeps_intros]: "keeps g (bundleclear b g)"
  by (simp add: bundleclear_def keeps_refl keeps_basic)

lemma keeps_radiusclear [keeps_intros]: "keeps g (radiusclear r s g)"
  by (simp add: radiusclear_def Let_def keeps_basic keeps_trans[OF keeps_basic(1) keeps_basic(2)])

lemma keeps_get_free_radius: "keeps g (fst (get_free_radius n g))"
  by (induction n arbitrary: g) (auto simp: Let_def keeps_def)

lemma keeps_radiusnew [keeps_intros]: "keeps g (fst (radiusnew s g))"
proof -
  obtain g1 r where f: "get_free_radius MAXRADIUS g = (g1, r)" by fastforce
  then have "keeps g g1" using keeps_get_free_radius[of g MAXRADIUS] by simp
  then show ?thesis
    by (simp add: radiusnew_def f random_data_def keeps_def upd_local_def upd_radius_def Let_def)
qed

lemma keeps_radiussend [keeps_intros]: "keeps g (fst (radiussend r st g))"
  unfolding radiussend_def Let_def
  by (simp add: keeps_intros keeps_refl keeps_trans[OF keeps_basic(2) keeps_radiusclear]
      keeps_trans[OF keeps_basic(2) keeps_basic(2)]
      keeps_trans[OF keeps_basic(2) keeps_basic(6)]
      keeps_trans[OF keeps_trans[OF keeps_basic(2) keeps_basic(2)] keeps_basic(6)]
      keeps_trans[OF keeps_trans[OF keeps_trans[OF keeps_basic(2) keeps_basic(1)] keeps_basic(2)] keeps_basic(6)])

lemma sframe_upd [sframe_intros]:
  "sess_core (f (g_session g s)) = sess_core (g_session g s) \<Longrightarrow> sframe s g (upd_session s f g)"
  by (simp add: sframe_def upd_session_def)

lemma sframe_comp: "(\<And>g. sframe s g (f g)) \<Longrightarrow> sframe s g g1 \<Longrightarrow> sframe s g (f g1)"
  using sframe_trans by blast

lemma sframe_die: "sframe s g (shutdown_die s g)"
  by (auto simp: shutdown_die_def sess_core_def upd_session_def out_def sframe_def)

lemma keeps_shut_radius: "keeps g (shutdown_radius s reason tc w g)"
proof -
  obtain g1 r where n: "radiusnew s g = (g1, r)" by fastforce
  then have k1: "keeps g g1" using keeps_radiusnew[of g s] by simp
  let ?g2 = "if r \<noteq> 0 \<and> rd_state (g_radius g1 r) \<noteq> RADIUSSTOP
             then fst (radiussend r RADIUSSTOP (upd_radius r (\<lambda>rd. rd\<lparr>rd_term_cause := tc, rd_term_msg := Some reason\<rparr>) g1))
             else g1"
  have "keeps g1 ?g2"
    using keeps_refl keeps_trans[OF keeps_basic(2) keeps_radiussend] by auto
  then have k2: "keeps g ?g2" using k1 keeps_trans by blast
  then have "keeps g (?g2\<lparr>g_shut_acct := a\<rparr>)" for a
    by (simp add: keeps_def)
  with k2 show ?thesis
    unfolding shutdown_radius_def n Let_def prod.case
    by (auto intro: keeps_refl)
qed

lemma sframe_shut_radius: "sframe s g (shutdown_radius s reason tc w g)"
  by (rule keeps_sframe[OF keeps_shut_radius])

lemma sframe_unroute: "sframe s g (fst (unroute_loop s del rs n g))"
proof (induction rs arbitrary: n g)
  case Nil
  then show ?case by (simp add: sframe_refl)
next
  case (Cons r rs)
  let ?rt = "s_route (g_session g s) r"
  let ?g1 = "if del then routeset s (rt_ip ?rt) (rt_prefixlen ?rt) 0 False g else g"
  let ?g2 = "upd_session s (\<lambda>x. x\<lparr>s_route := (s_route x)(r := (s_route x r)\<lparr>rt_ip := 0\<rparr>)\<rparr>) ?g1"
  have "sframe s g ?g1"
    using keeps_sframe[OF keeps_routeset] sframe_refl by simp
  moreover have "sframe s ?g1 ?g2"
    by (rule sframe_upd) (simp add: sess_core_def)
  ultimately have "sframe s g ?g2" by (rule sframe_trans)
  then show ?case
    using Cons sframe_trans[of s g ?g2] by (simp add: Let_def sframe_refl)
qed

lemma sframe_unroute6: "sframe s g (unroute6_loop s del rs g)"
proof (induction rs arbitrary: g)
  case Nil
  then show ?case by (simp add: sframe_refl)
next
  case (Cons r rs)
  let ?rt = "s_route6 (g_session g s) r"
  let ?g1 = "if del then route6set s (r6_ip ?rt) (unat (r6_prefixlen ?rt)) False g else g"
  let ?g2 = "upd_session s (\<lambda>x. x\<lparr>s_route6 := (s_route6 x)(r := route6_zero)\<rparr>) ?g1"
  have "sframe s g ?g1"
    using keeps_sframe[OF keeps_route6set] sframe_refl by simp
  moreover have "sframe s ?g1 ?g2"
    by (rule sframe_upd) (simp add: sess_core_def)
  ultimately have "sframe s g ?g2" by (rule sframe_trans)
  then show ?case
    using Cons sframe_trans[of s g ?g2] by (simp add: Let_def sframe_refl)
qed

lemma sframe_free_ip: "sframe s g (free_ip_address s g)"
  by (auto simp: free_ip_address_def Let_def sframe_def upd_session_def upd_pool_def cache_ip_def sess_core_def)

lemma if_pred: "P b \<Longrightarrow> P a \<Longrightarrow> P (if c then a else b)"
  by simp

lemma sframe_shut_ip: "sframe s g (shutdown_ip s del g)"
proof -
  obtain g1 n where u: "unroute_loop s del [0..<MAXROUTE] 0 g = (g1, n)" by fastforce
  then have f1: "sframe s g g1" using sframe_unroute[of s g del "[0..<MAXROUTE]" 0] by simp
  let ?r = "if n = 0 \<and> del then routeset s (s_ip (g_session g1 s)) 0 0 False g1 else g1"
  let ?g2 = "if s_ip_pool_index (g_session g1 s) = -1
             then upd_session s (\<lambda>x. x\<lparr>s_ip := 0\<rparr>) ?r else free_ip_address s g1"
  have r: "sframe s g1 ?r"
    using keeps_sframe[OF keeps_routeset] sframe_refl by simp
  have "sframe s ?r (upd_session s (\<lambda>x. x\<lparr>s_ip := 0\<rparr>) ?r)"
    by (rule sframe_upd) (simp add: sess_core_def)
  then have "sframe s g1 (upd_session s (\<lambda>x. x\<lparr>s_ip := 0\<rparr>) ?r)"
    using r sframe_trans by blast
  then have "sframe s g1 ?g2"
    using sframe_free_ip by simp
  then have f2: "sframe s g ?g2" using f1 sframe_trans by blast
  let ?g3 = "unroute6_loop s del [0..<MAXROUTE6] ?g2"
  have f3: "sframe s g ?g3" using f2 sframe_unroute6 sframe_trans by blast
  have "sframe s ?g3 (route6set s a pl False ?g3)" for a pl
    by (rule keeps_sframe[OF keeps_route6set])
  then have "sframe s g (route6set s a pl False ?g3)" for a pl
    using f3 sframe_trans by blast
  with f3 show ?thesis
    unfolding shutdown_ip_def u Let_def prod.case by (rule if_pred)
qed

lemma keeps_recache: "keeps g (recache_routes n rs g)" "keeps g (recache_routes6 n rs g)"
proof -
  show "keeps g (recache_routes n rs g)"
    by (induction rs arbitrary: g) (auto simp: Let_def keeps_refl intro: keeps_trans[OF keeps_cache_route])
  show "keeps g (recache_routes6 n rs g)"
    by (induction rs arbitrary: g) (auto simp: Let_def keeps_refl intro: keeps_trans[OF keeps_basic(9)])
qed

lemma keeps_recache_session: "keeps g (recache_session n g)"
proof -
  have "keeps g (recache_routes6 n [0..<MAXROUTE6]
          (cache_ip (s_ip (g_session g n)) (int n) (recache_routes n [0..<MAXROUTE] g)))"
    by (rule keeps_trans[OF keeps_trans[OF keeps_recache(1) keeps_basic(8)] keeps_recache(2)])
  then show ?thesis
    unfolding recache_session_def Let_def by (auto intro: keeps_trans keeps_basic)
qed

lemma keeps_shut_bundle: "keeps g (shutdown_bundle s b g)"
proof -
  have "keeps g (drop_member s b g)" for g
    unfolding drop_member_def Let_def
    by (auto intro: keeps_refl keeps_trans[OF keeps_basic(3) keeps_recache_session] keeps_basic)
  then show ?thesis
    unfolding shutdown_bundle_def Let_def
    by (auto intro: keeps_refl keeps_trans[OF _ keeps_cluster_send(2)] keeps_trans[OF keeps_basic(3)] keeps_bundleclear)
qed

lemma sframe_throttle: "sframe s g (throttle_session s ri ro g)"
proof -
  have io: "sframe s g (throttle_in s rate g)" "sframe s g (throttle_out s rate g)" for rate g
    by (auto simp: throttle_in_def throttle_out_def Let_def sframe_def upd_session_def sess_core_def split: prod.split)
  then show ?thesis
    unfolding throttle_session_def Let_def
    using sframe_refl sframe_trans[OF io(1) io(2)] io by simp
qed

lemma keeps_cdn: "keeps g (shutdown_cdn s res err g)"
  unfolding shutdown_cdn_def Let_def by (auto intro: keeps_refl keeps_basic keeps_controladd)

lemma sframe_shut_ppp: "sframe s g (shutdown_ppp s g)"
  by (auto simp: shutdown_ppp_def sframe_def upd_session_def upd_local_def sess_core_def)

lemma sframe_die_again: "sframe s g (shutdown_die_again s g)"
  by (auto simp: shutdown_die_again_def sframe_def upd_session_def sess_core_def)

lemma sframe_release: "sframe s g (shutdown_release s b del tc g)"
  unfolding shutdown_release_def
  using sframe_refl sframe_trans[OF sframe_shut_ip keeps_sframe[OF keeps_shut_bundle]] by simp

lemma sframe_shut_throttle: "sframe s g (shutdown_throttle s g)"
  by (simp add: shutdown_throttle_def sframe_refl sframe_throttle)

lemma keeps_shut_filters: "keeps g (shutdown_filters s g)"
  unfolding shutdown_filters_def by (rule keeps_trans[OF keeps_basic(7) keeps_basic(7)])

lemma sframe_shutdown: "sframe s g (sessionshutdown s reason res err tc g)"
proof (cases "s_opened (g_session g s) = 0")
  case True
  then show ?thesis by (simp add: sessionshutdown_def sframe_refl)
next
  case False
  have "sframe s g (cluster_send_session s
      (shutdown_ppp s (shutdown_filters s (shutdown_cdn s res err (shutdown_throttle s
        (shutdown_release s b del tc (shutdown_die_again s (shutdown_radius s reason tc w (shutdown_die s g)))))))))"
    for b del w
    by (rule sframe_die[THEN sframe_trans, OF sframe_shut_radius[THEN sframe_trans, OF sframe_die_again[THEN sframe_trans,
          OF sframe_release[THEN sframe_trans, OF sframe_shut_throttle[THEN sframe_trans,
          OF keeps_cdn[THEN keeps_sframe, THEN sframe_trans, OF keeps_shut_filters[THEN keeps_sframe, THEN sframe_trans,
          OF sframe_shut_ppp[THEN sframe_trans, OF keeps_cluster_send(1)[THEN keeps_sframe]]]]]]]]])
  then show ?thesis
    using False by (simp add: sessionshutdown_def Let_def)
qed

subsection \<open>Killing a session\<close>

lemma cluster_send_local: "g_local (cluster_send_session s g) = g_local g"
  by (simp add: cluster_send_session_def type_changed_def cluster_heartbeat_def send_heartbeat_def Let_def
      out_def upd_cfg_def split: prod.split)

text \<open>\<open>sessionkill\<close> up to \<open>sessionclear\<close>.\<close>

definition kill_prelude :: "sessionidt \<Rightarrow> string option \<Rightarrow> nat \<Rightarrow> l2tpns \<Rightarrow> l2tpns" where
  "kill_prelude s reason tc g =
     (let why = (case reason of Some r \<Rightarrow> r | None \<Rightarrow> ''Murdered!'');
          g1 = (if s_die (g_session g s) = 0
                then sessionshutdown s why (if reason \<noteq> None then 3 else 0) 0 tc g else g);
          g2 = (if l_radius (g_local g1 s) \<noteq> 0 then radiusclear (l_radius (g_local g1 s)) s g1 else g1);
          f = s_forwardtosession (g_session g2 s)
      in if f \<noteq> 0 \<and> s_forwardtosession (g_session g2 f) = s
         then sessionshutdown f why 3 0 TERM_ADMIN_RESET g2 else g2)"

lemma sessionkill_prelude:
  "sessionkill s reason tc g =
     (if s_opened (g_session g s) = 0 \<or> s_next (g_session g s) \<noteq> 0 then g
      else cluster_send_session s (sessionclear s (kill_prelude s reason tc g)))"
  by (simp add: sessionkill_def kill_prelude_def Let_def)

definition core_frame :: "l2tpns \<Rightarrow> l2tpns \<Rightarrow> bool" where
  "core_frame g g' \<longleftrightarrow>
     (\<forall>i. sess_core (g_session g' i) = sess_core (g_session g i)) \<and> g_sessionfree g' = g_sessionfree g \<and>
     g_alloc g' = g_alloc g \<and> cf_cluster_highest_sessionid (g_cfg g') = cf_cluster_highest_sessionid (g_cfg g)"

lemma sframe_core: "sframe s g g' \<Longrightarrow> core_frame g g'"
  by (simp add: sframe_def core_frame_def)

lemma core_frame_trans: "core_frame g g1 \<Longrightarrow> core_frame g1 g2 \<Longrightarrow> core_frame g g2"
  by (simp add: core_frame_def)

lemma kill_prelude_core: "core_frame g (kill_prelude s reason tc g)"
proof -
  let ?why = "case reason of Some r \<Rightarrow> r | None \<Rightarrow> ''Murdered!''"
  let ?g1 = "if s_die (g_session g s) = 0
      then sessionshutdown s ?why (if reason \<noteq> None then 3 else 0) 0 tc g else g"
  let ?g2 = "if l_radius (g_local ?g1 s) \<noteq> 0 then radiusclear (l_radius (g_local ?g1 s)) s ?g1 else ?g1"
  have 1: "sframe s g ?g1" by (rule if_pred) (rule sframe_refl, rule sframe_shutdown)
  have 2: "sframe s ?g1 ?g2" by (rule if_pred) (rule sframe_refl, rule keeps_sframe, rule keeps_radiusclear)
  have 3: "core_frame g ?g2" by (rule sframe_core[OF sframe_trans[OF 1 2]])
  then have "core_frame g (sessionshutdown f ?why 3 0 TERM_ADMIN_RESET ?g2)" for f
    by (rule core_frame_trans[OF _ sframe_core[OF sframe_shutdown]])
  with 3 show ?thesis
    unfolding kill_prelude_def Let_def by (rule if_pred)
qed

text \<open>The list of free sessions, linked through \<open>next\<close>.\<close>

fun free_chain :: "(nat \<Rightarrow> sessiont) \<Rightarrow> nat \<Rightarrow> nat list \<Rightarrow> bool" where
  "free_chain ss p [] \<longleftrightarrow> p = 0"
| "free_chain ss p (x # xs) \<longleftrightarrow> p = x \<and> x \<noteq> 0 \<and> free_chain ss (s_next (ss x)) xs"

definition freelist :: "l2tpns \<Rightarrow> nat list \<Rightarrow> bool" where
  "freelist g xs \<longleftrightarrow>
     free_chain (g_session g) (g_sessionfree g) xs \<and> distinct xs \<and> (\<forall>x \<in> set xs. s_opened (g_session g x) = 0)"

lemma free_chain_cong:
  "(\<forall>x \<in> set xs. s_next (ss' x) = s_next (ss x)) \<Longrightarrow> free_chain ss' p xs = free_chain ss p xs"
  by (induction xs arbitrary: p) auto

lemma freelist_core: "core_frame g g' \<Longrightarrow> freelist g' xs = freelist g xs"
proof -
  assume c: "core_frame g g'"
  then have "\<forall>i. s_next (g_session g' i) = s_next (g_session g i) \<and> s_opened (g_session g' i) = s_opened (g_session g i)"
    by (simp add: core_frame_def sess_core_def)
  moreover have "g_sessionfree g' = g_sessionfree g" using c by (simp add: core_frame_def)
  ultimately show ?thesis
    using free_chain_cong[of xs "g_session g'" "g_session g" "g_sessionfree g"] by (simp add: freelist_def)
qed

lemma sessionkill_effect:
  fixes reason :: "string option" and tc :: nat
  assumes "s_opened (g_session g s) \<noteq> 0" "s_next (g_session g s) = 0" "s \<noteq> 0"
  defines "g' \<equiv> sessionkill s reason tc g"
  shows "g_session g' s = session_zero\<lparr>s_tunnel := T_FREE, s_next := g_sessionfree g\<rparr>"
    and "g_local g' s = local_zero"
    and "i \<noteq> s \<Longrightarrow> sess_core (g_session g' i) = sess_core (g_session g i)"
    and "cf_cluster_highest_sessionid (g_cfg g') = cf_cluster_highest_sessionid (g_cfg g)"
    and "freelist g xs \<Longrightarrow> freelist g' (s # xs)"
proof -
  let ?p = "kill_prelude s reason tc g"
  have p: "core_frame g ?p" by (rule kill_prelude_core)
  have g': "g' = cluster_send_session s (sessionclear s ?p)"
    using assms(1,2) by (simp add: g'_def sessionkill_prelude)
  have k: "keeps (sessionclear s ?p) g'"
    unfolding g' by (rule keeps_cluster_send)
  then show s: "g_session g' s = session_zero\<lparr>s_tunnel := T_FREE, s_next := g_sessionfree g\<rparr>"
    using p by (simp add: keeps_def sessionclear_def Let_def upd_session_def upd_local_def core_frame_def)
  show "g_local g' s = local_zero"
    by (simp add: g' cluster_send_local sessionclear_def Let_def upd_session_def upd_local_def)
  show core: "sess_core (g_session g' i) = sess_core (g_session g i)" if "i \<noteq> s" for i
    using that k p by (simp add: keeps_def sessionclear_def Let_def upd_session_def upd_local_def core_frame_def)
  show "cf_cluster_highest_sessionid (g_cfg g') = cf_cluster_highest_sessionid (g_cfg g)"
    using k p by (simp add: keeps_def sessionclear_def Let_def upd_session_def upd_local_def core_frame_def)
  show "freelist g' (s # xs)" if fl: "freelist g xs"
  proof -
    have ns: "s \<notin> set xs" using fl assms(1) by (auto simp: freelist_def)
    then have same: "\<forall>x \<in> set xs. s_next (g_session g' x) = s_next (g_session g x) \<and>
        s_opened (g_session g' x) = s_opened (g_session g x)"
      using core unfolding sess_core_def by (metis prod.inject)
    have "g_sessionfree g' = s"
      using k by (simp add: keeps_def sessionclear_def Let_def)
    then show ?thesis
      using fl ns same s assms(3) free_chain_cong[of xs "g_session g'" "g_session g" "g_sessionfree g"]
      by (simp add: freelist_def session_zero_def)
  qed
qed

definition killable :: "l2tpns \<Rightarrow> tunnelidt \<Rightarrow> sessionidt \<Rightarrow> bool" where
  "killable g t s \<longleftrightarrow>
     s_tunnel (g_session g s) = t \<and> s_opened (g_session g s) \<noteq> 0 \<and> s_next (g_session g s) = 0"

lemma kill_tunnel_session_cases:
  fixes t :: tunnelidt and reason :: string and g :: l2tpns
  assumes "s \<noteq> 0"
  defines "g' \<equiv> kill_tunnel_session t reason s g"
  shows "\<not> killable g t s \<Longrightarrow> g' = g"
    and "killable g t s \<Longrightarrow> \<exists>r. g' = sessionkill s r TERM_ADMIN_RESET g"
proof -
  show "\<not> killable g t s \<Longrightarrow> g' = g"
    by (auto simp: g'_def kill_tunnel_session_def killable_def sessionkill_def)
  show "killable g t s \<Longrightarrow> \<exists>r. g' = sessionkill s r TERM_ADMIN_RESET g"
    unfolding g'_def kill_tunnel_session_def killable_def by auto
qed

lemma kill_fold:
  fixes reason :: string
  assumes "distinct ss" "0 \<notin> set ss" "freelist g xs" "t \<noteq> 0"
  defines "g' \<equiv> fold (kill_tunnel_session t reason) ss g"
  shows "freelist g' (rev (filter (killable g t) ss) @ xs) \<and>
    (\<forall>i \<in> set ss. killable g t i \<longrightarrow> s_opened (g_session g' i) = 0 \<and> s_tunnel (g_session g' i) = T_FREE) \<and>
    (\<forall>i. i \<notin> set ss \<or> \<not> killable g t i \<longrightarrow> sess_core (g_session g' i) = sess_core (g_session g i))"
  using assms(1-3) unfolding g'_def
proof (induction ss arbitrary: g xs)
  case Nil
  then show ?case by simp
next
  case (Cons s ss)
  let ?g1 = "kill_tunnel_session t reason s g"
  show ?case
  proof (cases "killable g t s")
    case False
    then have "?g1 = g"
      using kill_tunnel_session_cases(1)[of s g t] Cons.prems by simp
    then show ?thesis using Cons False by auto
  next
    case True
    then obtain r where g1: "?g1 = sessionkill s r TERM_ADMIN_RESET g"
      using kill_tunnel_session_cases(2)[of s g t reason] Cons.prems(2) by auto
    note eff = sessionkill_effect[where g = g and s = s and reason = r and tc = TERM_ADMIN_RESET, folded g1]
    have pre: "s_opened (g_session g s) \<noteq> 0" "s_next (g_session g s) = 0" "s \<noteq> 0"
      using True Cons.prems(2) by (auto simp: killable_def)
    have fl: "freelist ?g1 (s # xs)" by (rule eff(5)[OF pre Cons.prems(3)])
    have core: "\<And>i. i \<noteq> s \<Longrightarrow> sess_core (g_session ?g1 i) = sess_core (g_session g i)"
      by (rule eff(3)[OF pre])
    then have same: "\<And>i. i \<noteq> s \<Longrightarrow> killable ?g1 t i = killable g t i"
      by (simp add: killable_def sess_core_def)
    have no: "\<not> killable ?g1 t s"
      using eff(1)[OF pre] by (simp add: killable_def session_zero_def)
    have filt: "filter (killable ?g1 t) ss = filter (killable g t) ss"
      using Cons.prems(1) same by (intro filter_cong refl) (metis distinct.simps(2))
    have IH: "freelist (fold (kill_tunnel_session t reason) ss ?g1) (rev (filter (killable ?g1 t) ss) @ s # xs) \<and>
      (\<forall>i \<in> set ss. killable ?g1 t i \<longrightarrow> s_opened (g_session (fold (kill_tunnel_session t reason) ss ?g1) i) = 0 \<and>
          s_tunnel (g_session (fold (kill_tunnel_session t reason) ss ?g1) i) = T_FREE) \<and>
      (\<forall>i. i \<notin> set ss \<or> \<not> killable ?g1 t i \<longrightarrow>
         sess_core (g_session (fold (kill_tunnel_session t reason) ss ?g1) i) = sess_core (g_session ?g1 i))"
      by (rule Cons.IH) (use Cons.prems fl in auto)
    let ?g2 = "fold (kill_tunnel_session t reason) ss ?g1"
    have s2: "sess_core (g_session ?g2 s) = sess_core (g_session ?g1 s)"
      using IH no by blast
    have "s_opened (g_session ?g2 s) = 0" "s_tunnel (g_session ?g2 s) = T_FREE"
      using s2 eff(1)[OF pre] by (simp_all add: sess_core_def session_zero_def)
    moreover have "\<forall>i. i \<notin> set (s # ss) \<or> \<not> killable g t i \<longrightarrow>
        sess_core (g_session ?g2 i) = sess_core (g_session g i)"
      using IH same core True by (metis list.set_intros(1) list.set_intros(2))
    moreover have "freelist ?g2 (rev (filter (killable g t) (s # ss)) @ xs)"
      using IH filt True by simp
    ultimately show ?thesis
      using IH same Cons.prems(1) by (metis fold_simps(2) set_ConsD)
  qed
qed


lemma cluster_send_tunnel_tunnel: "g_tunnel (cluster_send_tunnel t g) = g_tunnel g"
  by (simp add: cluster_send_tunnel_def type_changed_def cluster_heartbeat_def send_heartbeat_def Let_def
      out_def upd_cfg_def split: prod.split)

text \<open>
  C20: killing a tunnel. Every live session of the tunnel is freed and put on the list of free
  sessions, which stays a duplicate-free list of unused sessions; the tunnel is zeroed; no other
  session is opened, closed, moved to another tunnel or linked differently.
\<close>

theorem tunnelkill_frees_sessions:
  fixes g :: l2tpns and t :: tunnelidt and reason :: string and xs :: "nat list"
  defines "g' \<equiv> tunnelkill t reason g"
    and "ks \<equiv> filter (killable g t) [1..<cf_cluster_highest_sessionid (g_cfg g) + 1]"
  assumes "t \<noteq> 0" and "freelist g xs"
  shows "freelist g' (rev ks @ xs) \<and> g_tunnel g' t = tunnel_zero \<and>
    (\<forall>i \<in> set ks. s_opened (g_session g' i) = 0 \<and> s_tunnel (g_session g' i) = T_FREE) \<and>
    (\<forall>i. i \<notin> set ks \<longrightarrow> sess_core (g_session g' i) = sess_core (g_session g i))"
proof -
  let ?ss = "[1..<cf_cluster_highest_sessionid (g_cfg g) + 1]"
  let ?g1 = "upd_tunnel t (\<lambda>x. x\<lparr>t_state := TUNNELDIE,
                 t_controlc := t_controlc x - of_nat (length (t_controls x)), t_controls := []\<rparr>) g"
  let ?g2 = "fold (kill_tunnel_session t reason) ?ss ?g1"
  let ?g3 = "(tunnelclear t ?g2)\<lparr>g_cli_tunnel := (g_cli_tunnel (tunnelclear t ?g2))(t := 0)\<rparr>"
  have g': "g' = cluster_send_tunnel t ?g3"
    by (simp add: g'_def tunnelkill_def Let_def)
  have k1: "keeps g ?g1" by (rule keeps_basic)
  have "keeps ?g2 ?g3"
    by (simp add: keeps_def tunnelclear_def upd_tunnel_def)
  then have k2: "keeps ?g2 g'"
    unfolding g' using keeps_cluster_send(3) keeps_trans by blast
  have kill: "killable ?g1 = killable g"
    by (intro ext) (simp add: killable_def upd_tunnel_def)
  have "freelist ?g1 xs"
    using assms(4) freelist_core[OF sframe_core[OF keeps_sframe[OF k1]]] by simp
  then have F: "freelist ?g2 (rev ks @ xs) \<and>
      (\<forall>i \<in> set ?ss. killable g t i \<longrightarrow> s_opened (g_session ?g2 i) = 0 \<and> s_tunnel (g_session ?g2 i) = T_FREE) \<and>
      (\<forall>i. i \<notin> set ?ss \<or> \<not> killable g t i \<longrightarrow> sess_core (g_session ?g2 i) = sess_core (g_session g i))"
    using kill_fold[of ?ss ?g1 xs t reason] assms(3) unfolding kill ks_def
    by (simp add: upd_tunnel_def)
  have same: "g_session g' = g_session ?g2" using k2 by (simp add: keeps_def)
  have "freelist g' (rev ks @ xs)"
    using F freelist_core[OF sframe_core[OF keeps_sframe[OF k2]]] by simp
  moreover have "g_tunnel g' t = tunnel_zero"
    unfolding g' cluster_send_tunnel_tunnel using assms(3) by (simp add: tunnelclear_def upd_tunnel_def)
  ultimately show ?thesis
    using F by (simp add: same ks_def)
qed


text \<open>Sessions 1 and 3 are live, the second in tunnel 2; session 4 is free.\<close>

definition demo_tunnel :: "l2tpns \<Rightarrow> l2tpns" where
  "demo_tunnel g = g\<lparr>g_session := (\<lambda>_. session_zero)(1 := session_zero\<lparr>s_opened := 5, s_tunnel := 7\<rparr>,
       3 := session_zero\<lparr>s_opened := 6, s_tunnel := 2\<rparr>),
     g_sessionfree := 4, g_cfg := (g_cfg g)\<lparr>cf_cluster_highest_sessionid := 3\<rparr>\<rparr>"

lemma tunnelkill_frees_sessions_witness:
  "\<forall>g. freelist (tunnelkill 2 ''Timeout'' (demo_tunnel g)) [3, 4] \<and>
     s_opened (g_session (tunnelkill 2 ''Timeout'' (demo_tunnel g)) 3) = 0 \<and>
     s_opened (g_session (tunnelkill 2 ''Timeout'' (demo_tunnel g)) 1) = 5"
proof
  fix g
  let ?d = "demo_tunnel g" and ?g' = "tunnelkill 2 ''Timeout'' (demo_tunnel g)"
  have free: "freelist ?d [4]"
    by (simp add: freelist_def demo_tunnel_def session_zero_def)
  have "[1..<4] = [1, 2, 3::nat]" by (simp add: upt_rec)
  then have ks: "filter (killable ?d 2) [1..<cf_cluster_highest_sessionid (g_cfg ?d) + 1] = [3]"
    by (simp add: demo_tunnel_def killable_def session_zero_def)
  have "sess_core (g_session ?g' 1) = sess_core (g_session ?d 1)"
    using tunnelkill_frees_sessions [of 2 ?d "[4]" "''Timeout''"] free unfolding ks by simp
  then have "s_opened (g_session ?g' 1) = 5"
    by (simp add: sess_core_def demo_tunnel_def)
  then show "freelist ?g' [3, 4] \<and> s_opened (g_session ?g' 3) = 0 \<and> s_opened (g_session ?g' 1) = 5"
    using tunnelkill_frees_sessions [of 2 ?d "[4]" "''Timeout''"] free unfolding ks by simp
qed

end
