(* ===== verification/PppInv.thy ===== *)
theory PppInv
  imports PppRx SessionInv
begin

text \<open>
  Negotiation: the automata of IPCP and IPV6CP against an abstract one, and which requests are acknowledged,
  refused or dropped.
\<close>

subsection \<open>The automata in the state of a session\<close>

definition ppp_of :: "sessionidt \<Rightarrow> l2tpns \<Rightarrow> pppt" where
  "ppp_of s g = s_ppp (g_session g s)"

lemma state_of_ppp: "state_of f s g = fsm_state f (ppp_of s g)"
  by (simp add: state_of_def ppp_of_def)

lemma fsm_state_set [simp]: "fsm_state f (set_fsm_state f' x p) = (if f = f' then x else fsm_state f p)"
  by (cases f; cases f'; simp)

lemma set_fsm_state_same: "set_fsm_state f (fsm_state f p) p = p"
  by (cases f; simp)

lemma phase_set [simp]: "phase (set_fsm_state f x p) = phase p"
  by (cases f; simp)

lemma ppp_keeps: "keeps g g' \<Longrightarrow> ppp_of s g' = ppp_of s g"
  by (simp add: keeps_def ppp_of_def)

lemma keeps_session: "keeps g g' \<Longrightarrow> g_session g' = g_session g"
  by (simp add: keeps_def)

lemma keeps_tunnelsend [keeps_intros]: "keeps g (g_tunnelsend buf t g)"
  unfolding g_tunnelsend_def by (rule keeps_on_tunnel)

named_theorems ppp_frame \<open>operations that leave the automata alone\<close>

lemma ppp_frame_basic [ppp_frame]:
  "ppp_of s (upd_local i fl g) = ppp_of s g" "ppp_of s (upd_radius r fr g) = ppp_of s g"
  "ppp_of s (g_tunnelsend buf t g) = ppp_of s g" "ppp_of s (cluster_send_session i g) = ppp_of s g"
  "ppp_of s (route6set i ip6 pl add g) = ppp_of s g" "ppp_of s (g\<lparr>g_last_id := n\<rparr>) = ppp_of s g"
  by (rule ppp_keeps, rule keeps_intros)+ (simp add: ppp_of_def)

lemma ppp_upd_session [ppp_frame]:
  "(\<And>x. s_ppp (u x) = s_ppp x) \<Longrightarrow> ppp_of s (upd_session i u g) = ppp_of s g"
  by (simp add: ppp_of_def upd_session_def)

lemma ppp_change_state [ppp_frame]: "ppp_of s (change_state s f x g) = set_fsm_state f x (ppp_of s g)"
proof (cases "x = state_of f s g")
  case True
  then show ?thesis by (simp add: change_state_def state_of_ppp set_fsm_state_same)
next
  case False
  then have "ppp_of s (change_state s f x g) = ppp_of s (upd_session s (\<lambda>y. y\<lparr>s_ppp := set_fsm_state f x (s_ppp y)\<rparr>)
      (if x \<in> {Initial, Starting, Closed, Stopped, Opened} then upd_local s (upd_timer f (\<lambda>_. fsm_zero)) g else g))"
    by (simp add: change_state_def ppp_frame_basic)
  also have "\<dots> = set_fsm_state f x (ppp_of s g)"
    by (simp add: ppp_of_def upd_session_def upd_local_def)
  finally show ?thesis .
qed

lemma ppp_frame_counts [ppp_frame]:
  "ppp_of s (initialise_restart_count i f g) = ppp_of s g" "ppp_of s (zero_restart_count i f g) = ppp_of s g"
  "ppp_of s (restart_timer i f g) = ppp_of s g" "ppp_of s (fst (next_ident i g)) = ppp_of s g"
  "ppp_of s (give_unique_id i g) = ppp_of s g"
  by (simp_all add: initialise_restart_count_def zero_restart_count_def restart_timer_def next_ident_def
      give_unique_id_def Let_def ppp_frame_basic ppp_upd_session)

lemma ppp_frame_send [ppp_frame]:
  "ppp_of s (sendipcp i t g) = ppp_of s g" "ppp_of s (sendipv6cp i t g) = ppp_of s g"
  "ppp_of s (sendccp i t g) = ppp_of s g" "ppp_of s (sendlcp i t g) = ppp_of s g"
  "ppp_of s (send_ppp room i t proto pk g) = ppp_of s g" "ppp_of s (send_ipv6_ra i t ip g) = ppp_of s g"
  by (simp_all add: sendipcp_def sendipv6cp_def sendccp_def sendlcp_def send_ppp_def send_ipv6_ra_def next_ident_def
      Let_def ppp_frame_basic ppp_frame_counts split: option.split)

lemma ppp_answer_req [ppp_frame]: "ppp_of s (answer_req f i t m hdr pk (a, g)) = ppp_of s g"
  by (simp add: answer_req_def ppp_frame_basic split: answer.split option.split)

lemma ppp_code_rej_frame: "ppp_code_rej i t proto m l g = Ret g' \<Longrightarrow> ppp_of s g' = ppp_of s g"
  by (auto simp: ppp_code_rej_def next_ident_def Let_def ppp_frame_basic split: option.splits if_splits)

lemma radius_send_start: "radius_send r RADIUSSTART g = fst (radiussend r RADIUSSTART g)"
proof -
  have "\<not> snd (radiussend r RADIUSSTART g)"
    by (simp add: radiussend_def Let_def auth_state_def)
  then show ?thesis by (cases "radiussend r RADIUSSTART g") (simp add: radius_send_def)
qed

lemma ppp_frame_radius [ppp_frame]:
  "ppp_of s (fst (radiusnew i g)) = ppp_of s g" "ppp_of s (radius_send r RADIUSSTART g) = ppp_of s g"
  unfolding radius_send_start by (rule ppp_keeps, rule keeps_intros)+

text \<open>IPCP becomes open, and IPV6CP starts if it waited for that.\<close>

lemma ppp_ipcp_open:
  "ppp_of s (ipcp_open s t g) =
     (let p = set_fsm_state FIpcp Opened (ppp_of s g)
      in if ipv6cp (ppp_of s g) = Stopped then p\<lparr>ipv6cp := RequestSent\<rparr> else p)"
proof -
  obtain g' r where rn: "radiusnew s (change_state s FIpcp Opened g) = (g', r)" by fastforce
  then have "ppp_of s g' = ppp_of s (change_state s FIpcp Opened g)"
    using ppp_frame_radius(1) [of s s "change_state s FIpcp Opened g"] by simp
  then show ?thesis
    by (simp add: ipcp_open_def Let_def rn state_of_ppp ppp_frame)
qed

lemma ppp_set_routes_up [ppp_frame]: "ppp_of s (set_routes_up i rs g) = ppp_of s g"
  by (induction rs arbitrary: g) (simp_all add: Let_def ppp_frame)

lemma ppp_ipv6cp_open: "ppp_of s (ipv6cp_open s t g) = set_fsm_state FIpv6cp Opened (ppp_of s g)"
  by (simp add: ipv6cp_open_def Let_def ppp_frame)

lemma ppp_shutdown_ppp: "ppp_of s (shutdown_ppp s g) = ppp_zero"
  by (simp add: shutdown_ppp_def ppp_of_def upd_local_def upd_session_def)

lemma ppp_shutdown:
  "ppp_of s (sessionshutdown s reason res err tc g) = ppp_zero \<or> sessionshutdown s reason res err tc g = g"
  by (simp add: sessionshutdown_def Let_def ppp_frame_basic ppp_shutdown_ppp)

subsection \<open>The abstract automaton\<close>

datatype fsm_event = RcvAck | RcvReq bool | RcvTerminate | RcvOther

fun fsm_next :: "ppp_state \<Rightarrow> fsm_event \<Rightarrow> ppp_state" where
  "fsm_next RequestSent RcvAck = AckReceived"
| "fsm_next AckReceived RcvAck = RequestSent"
| "fsm_next Opened RcvAck = RequestSent"
| "fsm_next AckSent RcvAck = Opened"
| "fsm_next AckReceived (RcvReq ok) = (if ok then Opened else AckReceived)"
| "fsm_next x (RcvReq ok) = (if x \<in> {Stopped, RequestSent, Opened, AckSent} then if ok then AckSent else RequestSent else x)"
| "fsm_next Opened RcvTerminate = Closing"
| "fsm_next x _ = x"

lemma recv_ack_state:
  assumes "\<And>g. state_of f s (send_req g) = state_of f s g" and "\<And>g. state_of f s (opened g) = Opened"
    and "\<And>g. state_of f s (restart g) = state_of f s g"
  shows "state_of f s (recv_ack f send_req opened restart s g) = fsm_next (state_of f s g) RcvAck"
  using assms by (cases "state_of f s g") (simp_all add: recv_ack_def state_of_ppp ppp_frame)

lemma recv_req_state:
  assumes "\<And>g. state_of f s (send_req g) = state_of f s g" and "\<And>g. state_of f s (opened g) = Opened"
    and "\<And>g. state_of f s (restart g) = state_of f s g"
  shows "state_of f s (snd (recv_req f send_req opened restart s ok g)) = fsm_next (state_of f s g) (RcvReq ok)"
  using assms by (cases "state_of f s g") (simp_all add: recv_req_def state_of_ppp ppp_frame Let_def)

lemma recv_terminate_state:
  "state_of f s (recv_terminate f (\<lambda>g. g) s t m l g) = fsm_next (state_of f s g) RcvTerminate"
  by (cases "state_of f s g") (simp_all add: recv_terminate_def state_of_ppp ppp_frame Let_def)

subsection \<open>Negotiating a network protocol\<close>

text \<open>The offsets of the options of a request, None when one of them is longer than what is left.\<close>

function option_offsets :: "mem \<Rightarrow> int \<Rightarrow> nat \<Rightarrow> nat list option" where
  "option_offsets m len off =
     (if len > 2 then
        let n = unat (m (off + 1)) in
        if n = 0 \<or> int n > len then None
        else map_option (\<lambda>offs. off # offs) (option_offsets m (len - int n) (off + n))
      else Some [])"
  by pat_completeness auto
termination
  by (relation "measure (\<lambda>(m, len, off). nat len)") (auto intro: uint_positive)

declare option_offsets.simps [simp del]


text \<open>The three cases of the loops over the options of a packet.\<close>

lemma option_induct [case_names finish bad step]:
  assumes "\<And>len off. \<not> 2 < len \<Longrightarrow> P len off"
    and "\<And>len off. \<lbrakk>2 < len; unat (m (off + 1)) = 0 \<or> len < int (unat (m (off + 1)))\<rbrakk> \<Longrightarrow> P len off"
    and "\<And>len off n. \<lbrakk>2 < len; n = unat (m (off + 1)); \<not> (n = 0 \<or> len < int n); P (len - int n) (off + n)\<rbrakk> \<Longrightarrow>
      P len off"
  shows "P (len :: int) (off :: nat)"
proof (induction "nat len" arbitrary: len off rule: less_induct)
  case (less len off)
  let ?n = "unat (m (off + 1))"
  show ?case
  proof (cases "2 < len \<and> \<not> (?n = 0 \<or> len < int ?n)")
    case True
    then have c: "2 < len" "\<not> (?n = 0 \<or> len < int ?n)" by blast+
    then have "nat (len - int ?n) < nat len" by linarith
    then show ?thesis by (rule assms(3) [OF c(1) refl c(2) less.hyps])
  next
    case False
    then show ?thesis using assms(1, 2) by blast
  qed
qed

lemma offsets_cases:
  "\<not> 2 < len \<Longrightarrow> option_offsets m len off = Some []"
  "\<lbrakk>2 < len; unat (m (off + 1)) = 0 \<or> len < int (unat (m (off + 1)))\<rbrakk> \<Longrightarrow> option_offsets m len off = None"
  "\<lbrakk>2 < len; n = unat (m (off + 1)); \<not> (n = 0 \<or> len < int n)\<rbrakk> \<Longrightarrow>
    option_offsets m len off = map_option ((#) off) (option_offsets m (len - int n) (off + n))"
  by (subst option_offsets.simps; simp)+

lemma ncp_cases:
  "\<not> 2 < len \<Longrightarrow> ncp_options h m len off st = Inr st"
  "\<lbrakk>2 < len; unat (m (off + 1)) = 0 \<or> len < int (unat (m (off + 1)))\<rbrakk> \<Longrightarrow> ncp_options h m len off st = Inl (snd (fst st))"
  "\<lbrakk>2 < len; n = unat (m (off + 1)); \<not> (n = 0 \<or> len < int n)\<rbrakk> \<Longrightarrow>
    ncp_options h m len off st =
      (case h off st of Inl g \<Rightarrow> Inl g | Inr st' \<Rightarrow> ncp_options h m (len - int n) (off + n) st')"
  by (subst ncp_options.simps; simp split: sum.split)+

lemma ppp_hdr_some: "l \<le> 2590 \<Longrightarrow> \<exists>hdr. ppp_hdr MAXETHER l s t proto g = Some hdr"
  using length_l2tp_data_header [of False proto "g_tunnel g t" "g_session g s"]
  by (auto simp: ppp_hdr_def makeppp_def pppoe_makeppp_def Let_def MAXETHER_def mp_bundle_def mp_part_def setup_header_def
      le16_def)

lemma state_of_answer: "state_of f' s (answer_req f i t m hdr pk a) = state_of f' s (snd a)"
  by (cases a) (simp add: state_of_ppp ppp_frame)

lemma state_of_initialise: "state_of f' s (initialise_restart_count i f g) = state_of f' s g"
  by (simp add: state_of_ppp ppp_frame)

text \<open>A request is acceptable when every option is good and the wanted one is among them.\<close>

definition acceptable :: "(sessiont \<Rightarrow> nat \<Rightarrow> bool) \<Rightarrow> u8 \<Rightarrow> sessiont \<Rightarrow> mem \<Rightarrow> nat \<Rightarrow> bool" where
  "acceptable good wanted sess m l =
     (case option_offsets m (int l - 4) 4 of
        None \<Rightarrow> False
      | Some offs \<Rightarrow> (\<forall>off \<in> set offs. good sess off) \<and> (\<exists>off \<in> set offs. m off = wanted))"

text \<open>No session is changed and nothing is sent.\<close>

definition quiet :: "l2tpns \<Rightarrow> l2tpns \<Rightarrow> bool" where
  "quiet g g' \<longleftrightarrow> g_session g' = g_session g \<and> g_out g' = g_out g"

lemma quiet_refl [simp]: "quiet g g"
  by (simp add: quiet_def)

lemma quiet_trans: "quiet a b \<Longrightarrow> quiet b c \<Longrightarrow> quiet a c"
  by (simp add: quiet_def)

lemma quiet_session: "quiet g g' \<Longrightarrow> g_session g' = g_session g"
  by (simp add: quiet_def)

lemma state_of_quiet: "quiet g g' \<Longrightarrow> state_of f s g' = state_of f s g"
  by (simp add: quiet_def state_of_def)

text \<open>
  What the handler \<open>h\<close> of an option promises: it passes over a good option, noting the wanted one, and
  for any other option leaves a response or stops. When it stops the request is dropped, or the session
  is ended by \<open>kill\<close>.
\<close>

locale negotiation =
  fixes h :: "nat \<Rightarrow> (reply \<times> l2tpns) \<times> bool \<Rightarrow> l2tpns + (reply \<times> l2tpns) \<times> bool"
    and s :: sessionidt and m :: mem and good :: "sessiont \<Rightarrow> nat \<Rightarrow> bool" and wanted :: u8
    and kill :: "l2tpns \<Rightarrow> l2tpns"
  assumes accept: "good (g_session g s) off \<Longrightarrow> h off ((r, g), b) = Inr ((r, g), b \<or> m off = wanted)"
    and refuse: "\<lbrakk>\<not> good (g_session g s) off; h off ((r, g), b) = Inr ((r', g'), b')\<rbrakk> \<Longrightarrow>
      reply_ok r' \<and> quiet g g'"
    and stop: "h off ((r, g), b) = Inl g' \<Longrightarrow> \<exists>g1. quiet g g1 \<and> (g' = g1 \<or> g' = kill g1)"
begin

lemma handler_keeps:
  assumes "h off ((r, g), b) = Inr ((r', g'), b')"
  shows "quiet g g'" and "reply_ok r \<Longrightarrow> reply_ok r'"
  using assms accept [of g off r b] refuse [of g off r b r' g' b'] by (cases "good (g_session g s) off"; simp)+

lemma loop_stops:
  "ncp_options h m len off ((r, g), b) = Inl g' \<Longrightarrow> \<exists>g1. quiet g g1 \<and> (g' = g1 \<or> g' = kill g1)"
proof (induction len off arbitrary: r g b rule: option_induct [of _ m])
  case (step len off n)
  show ?case
  proof (cases "h off ((r, g), b)")
    case (Inl g1)
    with step stop [of off r g b g1] show ?thesis by (simp add: ncp_cases(3) [where m = m and off = off, OF step(1-3)])
  next
    case (Inr st)
    obtain r1 g1 b1 where st: "st = ((r1, g1), b1)" by (metis prod.collapse)
    have q: "quiet g g1" using handler_keeps(1) [OF Inr [unfolded st]] .
    from step.IH [of r1 g1 b1] step.prems obtain g2 where "quiet g1 g2" "g' = g2 \<or> g' = kill g2"
      by (auto simp: ncp_cases(3) [where m = m and off = off, OF step(1-3)] Inr st)
    with quiet_trans [OF q] show ?thesis by blast
  qed
qed (auto simp: ncp_cases intro: quiet_refl)

text \<open>A loop that ends has seen only good options, or leaves a response.\<close>

lemma loop_ends:
  "ncp_options h m len off ((r, g), b) = Inr ((r', g'), b') \<Longrightarrow> r = NoReply \<or> reply_ok r \<Longrightarrow>
    quiet g g' \<and>
    (\<exists>offs. option_offsets m len off = Some offs \<and>
      (if \<forall>off \<in> set offs. good (g_session g s) off
       then r' = r \<and> g' = g \<and> b' = (b \<or> (\<exists>off \<in> set offs. m off = wanted))
       else reply_ok r'))"
proof (induction len off arbitrary: r g b rule: option_induct [of _ m])
  case (step len off n)
  then obtain st where h: "h off ((r, g), b) = Inr st" by (cases "h off ((r, g), b)") (simp_all add: ncp_cases(3) [where m = m and off = off, OF step(1-3)])
  obtain r1 g1 b1 where st: "st = ((r1, g1), b1)" by (metis prod.collapse)
  note h = h [unfolded st]
  have rest: "ncp_options h m (len - int n) (off + n) ((r1, g1), b1) = Inr ((r', g'), b')"
    using step.prems by (simp add: ncp_cases(3) [where m = m and off = off, OF step(1-3)] h)
  have q1: "quiet g g1" by (rule handler_keeps(1) [OF h])
  then have sess: "g_session g1 = g_session g" by (rule quiet_session)
  show ?case
  proof (cases "good (g_session g s) off")
    case True
    then have eq: "r1 = r" "g1 = g" "b1 = (b \<or> m off = wanted)" using accept [of g off r b] h by simp_all
    from step.IH [OF rest] step.prems(2) obtain offs where
      "option_offsets m (len - int n) (off + n) = Some offs" and sess': "quiet g g'" and
      rest': "if \<forall>off \<in> set offs. good (g_session g s) off
        then r' = r \<and> g' = g \<and> b' = ((b \<or> m off = wanted) \<or> (\<exists>off \<in> set offs. m off = wanted)) else reply_ok r'"
      unfolding eq by blast
    then have "option_offsets m len off = Some (off # offs)" by (simp add: offsets_cases(3) [where m = m and off = off, OF step(1-3)])
    with sess' rest' True show ?thesis by (cases "\<forall>off \<in> set offs. good (g_session g s) off") (simp_all, blast)
  next
    case False
    then have ok: "reply_ok r1" using refuse [OF _ h] by blast
    with step.IH [OF rest] obtain offs where
      "option_offsets m (len - int n) (off + n) = Some offs" and q2: "quiet g1 g'" and
      rest': "if \<forall>off \<in> set offs. good (g_session g s) off then r' = r1 \<and> g' = g1 \<and> b' = (b1 \<or> (\<exists>off \<in> set offs. m off = wanted)) else reply_ok r'"
      unfolding sess by blast
    then have "option_offsets m len off = Some (off # offs)" by (simp add: offsets_cases(3) [where m = m and off = off, OF step(1-3)])
    with quiet_trans [OF q1 q2] rest' False ok show ?thesis by (cases "\<forall>off \<in> set offs. good (g_session g s) off") simp_all
  qed
qed (auto simp: ncp_cases offsets_cases)

text \<open>Conversely nothing stops the loop over good options.\<close>

lemma loop_good:
  "option_offsets m len off = Some offs \<Longrightarrow> \<forall>off \<in> set offs. good (g_session g s) off \<Longrightarrow>
    ncp_options h m len off ((r, g), b) = Inr ((r, g), b \<or> (\<exists>off \<in> set offs. m off = wanted))"
proof (induction len off arbitrary: b offs rule: option_induct [of _ m])
  case (step len off n)
  then obtain offs' where "option_offsets m (len - int n) (off + n) = Some offs'" "offs = off # offs'"
    by (auto simp: offsets_cases(3) [where m = m and off = off, OF step(1-3)])
  with step accept [of g off r b] show ?case by (auto simp: ncp_cases(3) [where m = m and off = off, OF step(1-3)])
qed (auto simp: ncp_cases offsets_cases)

text \<open>
  An acceptable request is acknowledged as it is; for any other one the automaton goes on as for a bad
  request, or nothing happens, or the session is ended.
\<close>

lemma configreq_acceptable:
  assumes "acceptable good wanted (g_session g s) m l" and "ppp_hdr MAXETHER l s t (fsm_proto f) g = Some hdr"
  shows "ncp_configreq f h send_req opened s t m l g =
    answer_req f s t m hdr (recoded ConfigAck m l) (recv_req f send_req opened (initialise_restart_count s f) s True g)"
proof -
  obtain offs where "option_offsets m (int l - 4) 4 = Some offs" and "\<forall>off \<in> set offs. good (g_session g s) off"
      and wanted: "\<exists>off \<in> set offs. m off = wanted"
    using assms(1) by (auto simp: acceptable_def split: option.splits)
  from loop_good [OF this(1,2), of NoReply False] wanted
  have "ncp_options h m (int l - 4) 4 ((NoReply, g), False) = Inr ((NoReply, g), True)" by simp
  then show ?thesis using assms(2) by (simp add: ncp_configreq_def Let_def)
qed

lemma configreq_bad:
  fixes t :: tunnelidt
  assumes bad: "\<not> acceptable good wanted (g_session g s) m l" and send: "\<And>g. state_of f s (send_req g) = state_of f s g"
    and opened: "\<And>g. state_of f s (opened g) = Opened"
  defines "g' \<equiv> ncp_configreq f h send_req opened s t m l g"
  shows "state_of f s g' = fsm_next (state_of f s g) (RcvReq False) \<or> (\<exists>g1. quiet g g1 \<and> (g' = g1 \<or> g' = kill g1))"
proof (cases "ncp_options h m (int l - 4) 4 ((NoReply, g), False)")
  case (Inl g1)
  then have "g' = g1" by (simp add: g'_def ncp_configreq_def)
  with loop_stops [OF Inl] show ?thesis by blast
next
  case (Inr st)
  obtain r1 g1 b1 where st: "st = ((r1, g1), b1)" by (metis prod.collapse)
  note ends = loop_ends [OF Inr [unfolded st]]
  then have q: "quiet g g1" by simp
  have "reply_ok r1 \<or> r1 = NoReply \<and> \<not> b1"
    using ends bad by (auto simp: acceptable_def split: if_splits)
  then consider hdr pk where "r1 = Reply hdr pk" | "r1 = NoReply" "\<not> b1" by (cases r1) auto
  then show ?thesis
  proof cases
    case 1
    note switch = recv_req_state [of f s send_req opened "initialise_restart_count s f", OF send opened state_of_initialise]
    from 1 show ?thesis
      by (simp add: g'_def ncp_configreq_def Inr st Let_def state_of_answer switch state_of_quiet [OF q])
  next
    case 2
    then have "g' = g1" by (simp add: g'_def ncp_configreq_def Inr st Let_def)
    with q show ?thesis by blast
  qed
qed

text \<open>Both together, for a request that fits the buffer.\<close>

lemma configreq_state:
  fixes t :: tunnelidt and g :: l2tpns
  assumes "l \<le> 2590" and send: "\<And>g. state_of f s (send_req g) = state_of f s g" and opened: "\<And>g. state_of f s (opened g) = Opened"
  defines "e \<equiv> RcvReq (acceptable good wanted (g_session g s) m l)" and "g' \<equiv> ncp_configreq f h send_req opened s t m l g"
  shows "state_of f s g' = fsm_next (state_of f s g) e \<or> e = RcvReq False \<and> (\<exists>g1. quiet g g1 \<and> (g' = g1 \<or> g' = kill g1))"
proof (cases "acceptable good wanted (g_session g s) m l")
  case True
  obtain hdr where hdr: "ppp_hdr MAXETHER l s t (fsm_proto f) g = Some hdr" using ppp_hdr_some [OF assms(1)] by blast
  show ?thesis
    unfolding g'_def e_def configreq_acceptable [OF True hdr] state_of_answer
    by (simp add: True recv_req_state [of f s send_req opened "initialise_restart_count s f", OF send opened state_of_initialise])
next
  case False
  with configreq_bad [OF False send opened, where t = t] show ?thesis by (auto simp: e_def g'_def)
qed

text \<open>A request whose loop ends is not dropped when an option is not good or the wanted one is there.\<close>

lemma configreq_answered:
  fixes t :: tunnelidt and g :: l2tpns
  assumes "l \<le> 2590" and send: "\<And>g. state_of f s (send_req g) = state_of f s g" and opened: "\<And>g. state_of f s (opened g) = Opened"
    and ends: "ncp_options h m (int l - 4) 4 ((NoReply, g), False) = Inr ((r1, g1), b1)"
    and offs: "option_offsets m (int l - 4) 4 = Some offs" "\<exists>off \<in> set offs. m off = wanted \<or> \<not> good (g_session g s) off"
  defines "e \<equiv> RcvReq (acceptable good wanted (g_session g s) m l)" and "g' \<equiv> ncp_configreq f h send_req opened s t m l g"
  shows "state_of f s g' = fsm_next (state_of f s g) e"
proof (cases "acceptable good wanted (g_session g s) m l")
  case True
  obtain hdr where hdr: "ppp_hdr MAXETHER l s t (fsm_proto f) g = Some hdr" using ppp_hdr_some [OF assms(1)] by blast
  show ?thesis
    unfolding g'_def e_def configreq_acceptable [OF True hdr] state_of_answer
    by (simp add: True recv_req_state [of f s send_req opened "initialise_restart_count s f", OF send opened state_of_initialise])
next
  case False
  then have bad: "\<not> (\<forall>off \<in> set offs. good (g_session g s) off)" using offs by (auto simp: acceptable_def)
  note loop = loop_ends [OF ends]
  then have "reply_ok r1" and q: "quiet g g1" using bad offs(1) by auto
  then obtain hdr pk where r1: "r1 = Reply hdr pk" by (cases r1) auto
  note switch = recv_req_state [of f s send_req opened "initialise_restart_count s f", OF send opened state_of_initialise]
  show ?thesis
    using False by (simp add: g'_def e_def ncp_configreq_def ends r1 Let_def state_of_answer switch state_of_quiet [OF q])
qed

end

subsection \<open>The options of IPCP and IPV6CP\<close>

text \<open>The assigned address and the name servers of the session, and the interface identifier.\<close>

definition ipcp_good :: "mem \<Rightarrow> sessiont \<Rightarrow> nat \<Rightarrow> bool" where
  "ipcp_good m sess off \<longleftrightarrow>
     m (off + 1) = 6 \<and>
     (m off = 3 \<and> option_is m off (be32 (s_ip sess)) \<or>
      m off = 129 \<and> option_is m off (be32 (s_dns1 sess)) \<or>
      m off = 131 \<and> option_is m off (be32 (s_dns2 sess)))"

definition ipv6cp_good :: "mem \<Rightarrow> sessiont \<Rightarrow> nat \<Rightarrow> bool" where
  "ipv6cp_good m sess off \<longleftrightarrow> m off = 1 \<and> m (off + 1) = 10 \<and> option_is m off (ipv6_ident sess)"

lemma conf_nak_quiet: "ppp_conf_nak room s f m off v r g = (r', g') \<Longrightarrow> quiet g g'"
  by (auto simp: ppp_conf_nak_def Let_def upd_local_def quiet_def split: reply.splits if_splits)

lemma unat_numeral_8: "unat (6 :: u8) = 6" "unat (10 :: u8) = 10"
  by simp_all

lemma unat_option_length: "unat (x :: u8) = 6 \<longleftrightarrow> x = 6" "unat (x :: u8) = 10 \<longleftrightarrow> x = 10"
  by (metis unat_numeral_8 word_unat_eq_iff)+

text \<open>An option with a fixed value fulfils the laws.\<close>

lemma want_value_good:
  "length v = n \<Longrightarrow> unat (m (off + 1)) = n + 2 \<Longrightarrow> option_is m off v \<Longrightarrow> want_value f s m off v ((r, g), b) = Inr ((r, g), b)"
  by (simp add: want_value_def)

lemma want_value_bad:
  assumes "want_value f s m off v ((r, g), b) = Inr ((r', g'), b')" and "\<not> (unat (m (off + 1)) = length v + 2 \<and> option_is m off v)"
  shows "reply_ok r'" "quiet g g'"
  using assms conf_nak_quiet [of MAXETHER s f m off v r g]
  by (auto simp: want_value_def split: if_splits prod.splits)

lemma want_value_stop: "want_value f s m off v ((r, g), b) = Inl g' \<Longrightarrow> quiet g g'"
  using conf_nak_quiet [of MAXETHER s f m off v r g]
  by (auto simp: want_value_def split: if_splits prod.splits)

lemma length_ipv6_ident: "length (ipv6_ident sess) = 8"
  by (simp add: ipv6_ident_def)

definition cannot_negotiate :: "sessionidt \<Rightarrow> l2tpns \<Rightarrow> l2tpns" where
  "cannot_negotiate s g = sessionshutdown s ''Can't negotiate IPCP.'' 3 0 TERM_USER_ERROR g"

interpretation ipcp_neg: negotiation "ipcp_option s m" s m "ipcp_good m" 3 "cannot_negotiate s" for s m
proof (unfold_locales)
  fix g :: l2tpns and off r b
  assume "ipcp_good m (g_session g s) off"
  then show "ipcp_option s m off ((r, g), b) = Inr ((r, g), b \<or> m off = 3)"
    by (auto simp: ipcp_good_def ipcp_option_def Let_def want_value_good [where n = 4])
next
  fix g :: l2tpns and off r b r' g' b'
  assume bad: "\<not> ipcp_good m (g_session g s) off" and h: "ipcp_option s m off ((r, g), b) = Inr ((r', g'), b')"
  show "reply_ok r' \<and> quiet g g'"
  proof (cases "m off = 3")
    case True
    obtain r1 g1 where nak: "ppp_conf_nak MAXETHER s FIpcp m off (be32 (s_ip (g_session g s))) r g = (r1, g1)" by fastforce
    from bad h True show ?thesis
      by (simp add: ipcp_good_def ipcp_option_def Let_def nak conf_nak_quiet [OF nak] split: if_splits)
        (use conf_nak_quiet [OF nak] in blast)
  next
    case False
    note w = want_value_bad [of FIpcp s m off _ r g b r' g' b']
    show ?thesis
    proof (cases "m off = 129 \<or> m off = 131")
      case True
      with False bad h show ?thesis
        by (elim disjE) (simp_all add: ipcp_good_def ipcp_option_def Let_def w unat_option_length)
    next
      case other: False
      with False h show ?thesis by (clarsimp simp: ipcp_option_def Let_def split: if_splits)
    qed
  qed
next
  fix g :: l2tpns and off r b g'
  assume h: "ipcp_option s m off ((r, g), b) = Inl g'"
  show "\<exists>g1. quiet g g1 \<and> (g' = g1 \<or> g' = cannot_negotiate s g1)"
  proof (cases "m off = 3 \<and> m (off + 1) = 6")
    case True
    obtain r1 g1 where nak: "ppp_conf_nak MAXETHER s FIpcp m off (be32 (s_ip (g_session g s))) r g = (r1, g1)" by fastforce
    from h True have "g' = cannot_negotiate s g1"
      by (auto simp: ipcp_option_def Let_def nak cannot_negotiate_def split: if_splits)
    with conf_nak_quiet [OF nak] show ?thesis by blast
  next
    case False
    with h have "quiet g g'"
      by (auto simp: ipcp_option_def Let_def split: if_splits dest: want_value_stop)
    then show ?thesis by blast
  qed
qed

interpretation ipv6cp_neg: negotiation "ipv6cp_option s m" s m "ipv6cp_good m" 1 "\<lambda>g. g" for s m
proof (unfold_locales)
  fix g :: l2tpns and off r b
  assume "ipv6cp_good m (g_session g s) off"
  then show "ipv6cp_option s m off ((r, g), b) = Inr ((r, g), b \<or> m off = 1)"
    by (simp add: ipv6cp_good_def ipv6cp_option_def Let_def want_value_good [where n = 8] length_ipv6_ident)
next
  fix g :: l2tpns and off r b r' g' b'
  assume bad: "\<not> ipv6cp_good m (g_session g s) off" and h: "ipv6cp_option s m off ((r, g), b) = Inr ((r', g'), b')"
  show "reply_ok r' \<and> quiet g g'"
  proof (cases "m off = 1")
    case True
    with bad h want_value_bad [of FIpv6cp s m off "ipv6_ident (g_session g s)" r g True r' g' b'] show ?thesis
      by (simp add: ipv6cp_good_def ipv6cp_option_def Let_def unat_option_length length_ipv6_ident)
  next
    case False
    with h show ?thesis by (clarsimp simp: ipv6cp_option_def Let_def split: if_splits)
  qed
next
  fix g :: l2tpns and off r b g'
  assume "ipv6cp_option s m off ((r, g), b) = Inl g'"
  then have "quiet g g'"
    by (auto simp: ipv6cp_option_def Let_def split: if_splits dest: want_value_stop)
  then show "\<exists>g1. quiet g g1 \<and> (g' = g1 \<or> g' = g1)" by blast
qed

text \<open>
  When the loop over the options of an IPCP request ends: the options have the lengths they should have
  and a \<open>Nak\<close> may still be sent. The responses fit the buffer, as an option is answered with one of its
  own length.
\<close>

definition reply_fits :: "nat \<Rightarrow> reply \<Rightarrow> bool" where
  "reply_fits off r \<longleftrightarrow> r = NoReply \<or>
     (\<exists>hdr c xs. r = Reply hdr (c # xs) \<and> length hdr \<le> 22 \<and> length xs < off \<and> c \<in> {ConfigNak, ConfigRej})"

definition naks_left :: "sessionidt \<Rightarrow> reply \<Rightarrow> l2tpns \<Rightarrow> bool" where
  "naks_left s r g \<longleftrightarrow> nak_sent FIpcp s g + (if r = NoReply then 1 else 0) < cf_ppp_max_failure (g_cfg g)"

definition ipcp_sized :: "mem \<Rightarrow> nat \<Rightarrow> bool" where
  "ipcp_sized m off \<longleftrightarrow> (m off \<in> {3, 129, 131} \<longrightarrow> m (off + 1) = 6)"

lemma ppp_hdr_length: "ppp_hdr room l s t proto g = Some hdr \<Longrightarrow> length hdr \<le> 22"
  using length_l2tp_data_header [of False proto "g_tunnel g t" "g_session g s"]
  by (auto simp: ppp_hdr_def makeppp_def pppoe_makeppp_def Let_def mp_bundle_def mp_part_def le16_def split: if_splits)

lemma new_reply_fits:
  assumes "c \<in> {ConfigNak, ConfigRej}" and "4 \<le> off" and "off + length opt \<le> 2590"
  shows "\<exists>hdr xs. new_reply MAXETHER s mtype m c opt g = Reply hdr (c # xs) \<and> length hdr \<le> 22 \<and> length xs < off + length opt"
proof -
  obtain hdr where h: "ppp_hdr MAXETHER 2 s (s_tunnel (g_session g s)) mtype g = Some hdr"
    using ppp_hdr_some [of 2] by fastforce
  have "length hdr \<le> 22" by (rule ppp_hdr_length [OF h])
  then have "new_reply MAXETHER s mtype m c opt g = Reply hdr (c # [m 1, 0, 0] @ opt)"
    using assms(2,3) unfolding new_reply_def h by (simp add: reply_add_def MAXETHER_def)
  with \<open>length hdr \<le> 22\<close> assms(2) show ?thesis by (intro exI [of _ hdr] exI [of _ "[m 1, 0, 0] @ opt"]) simp
qed

lemma add_fits:
  assumes "length hdr \<le> 22" and "length xs < off" and "off + length opt \<le> 2590"
  shows "reply_add MAXETHER hdr (c # xs) opt = Reply hdr (c # xs @ opt)"
  using assms by (simp add: reply_add_def MAXETHER_def)

lemma conf_rej_answers:
  assumes "reply_fits off r" and "4 \<le> off" and "off + unat (m (o' + 1)) \<le> 2590"
  shows "reply_fits (off + unat (m (o' + 1))) (ppp_conf_rej MAXETHER s mtype m o' True r g) \<and>
    reply_ok (ppp_conf_rej MAXETHER s mtype m o' True r g)"
proof (cases "reply_code r = ConfigRej")
  case True
  then obtain hdr xs where r: "r = Reply hdr (ConfigRej # xs)" "length hdr \<le> 22" "length xs < off"
    using assms(1) by (auto simp: reply_fits_def ppp_codes)
  with add_fits [OF r(2,3)] assms(3) show ?thesis by (simp add: ppp_conf_rej_def reply_fits_def)
next
  case False
  obtain hdr xs where "new_reply MAXETHER s mtype m ConfigRej (map m [o'..<o' + unat (m (o' + 1))]) g = Reply hdr (ConfigRej # xs)"
    "length hdr \<le> 22" "length xs < off + unat (m (o' + 1))"
    using new_reply_fits [of ConfigRej off "map m [o'..<o' + unat (m (o' + 1))]" s mtype m g] assms(2,3) by auto
  with False show ?thesis by (simp add: ppp_conf_rej_def reply_fits_def)
qed

lemma conf_nak_answers:
  assumes "reply_fits off r" and "naks_left s r g" and "4 \<le> off" and "off + 6 \<le> 2590" and "length v = 4"
  obtains r' g' where "ppp_conf_nak MAXETHER s FIpcp m o' v r g = (r', g')" "reply_fits (off + 6) r'" "reply_ok r'"
    "naks_left s r' g'" "\<not> (r' \<noteq> r \<and> reply_code r' = ConfigRej)"
proof -
  have left: "\<not> nak_sent FIpcp s g \<ge> cf_ppp_max_failure (g_cfg g)"
    using assms(2) by (auto simp: naks_left_def split: if_splits)
  consider "r = NoReply" | hdr c xs where "r = Reply hdr (c # xs)" "length hdr \<le> 22" "length xs < off" "c \<in> {ConfigNak, ConfigRej}"
    using assms(1) by (auto simp: reply_fits_def)
  then show thesis
  proof cases
    case 1
    obtain hdr xs where n: "new_reply MAXETHER s PPPIPCP m ConfigNak ([m o', of_nat (length v + 2)] @ v) g = Reply hdr (ConfigNak # xs)"
      "length hdr \<le> 22" "length xs < off + 6"
      using new_reply_fits [of ConfigNak off "[m o', of_nat (length v + 2)] @ v" s PPPIPCP m g] assms(3-5) by auto
    show thesis
    proof (rule that)
      show "ppp_conf_nak MAXETHER s FIpcp m o' v r g = (Reply hdr (ConfigNak # xs),
          upd_local s (upd_timer FIpcp (\<lambda>x. x\<lparr>f_nak_sent := f_nak_sent x + 1\<rparr>)) g)"
        using left n(1) by (simp add: ppp_conf_nak_def Let_def 1)
      show "naks_left s (Reply hdr (ConfigNak # xs)) (upd_local s (upd_timer FIpcp (\<lambda>x. x\<lparr>f_nak_sent := f_nak_sent x + 1\<rparr>)) g)"
        using assms(2) by (simp add: naks_left_def nak_sent_def upd_local_def 1)
    qed (use n in \<open>simp_all add: reply_fits_def ppp_codes\<close>)
  next
    case 2
    show thesis
    proof (cases "c = ConfigNak")
      case True
      have "ppp_conf_nak MAXETHER s FIpcp m o' v r g = (Reply hdr (c # xs @ [m o', of_nat (length v + 2)] @ v), g)"
        using add_fits [OF 2(2,3), of "[m o', of_nat (length v + 2)] @ v"] assms(4,5) True by (simp add: ppp_conf_nak_def Let_def 2)
      then show thesis
        by (rule that) (use 2 assms True in \<open>auto simp: reply_fits_def naks_left_def ppp_codes\<close>)
    next
      case False
      then have "ppp_conf_nak MAXETHER s FIpcp m o' v r g = (r, g)" using left by (simp add: ppp_conf_nak_def Let_def 2)
      then show thesis by (rule that) (use 2 assms in \<open>auto simp: reply_fits_def\<close>)
    qed
  qed
qed

lemma ipcp_option_answers:
  assumes "ipcp_sized m off" and "reply_fits off r" and "naks_left s r g" and "4 \<le> off" and "off + unat (m (off + 1)) \<le> 2590"
  shows "\<exists>r' g' b'. ipcp_option s m off ((r, g), b) = Inr ((r', g'), b') \<and>
    reply_fits (off + unat (m (off + 1))) r' \<and> naks_left s r' g'"
proof -
  let ?n = "unat (m (off + 1))"
  have same: "reply_fits (off + ?n) r" using assms(2) by (auto simp: reply_fits_def)
  show ?thesis
  proof (cases "m off \<in> {3, 129, 131}")
    case True
    then have n: "m (off + 1) = 6" using assms(1) by (simp add: ipcp_sized_def)
    then have n6: "?n = 6" by simp
    have nak: "\<exists>r' g'. ppp_conf_nak MAXETHER s FIpcp m off (be32 a) r g = (r', g') \<and> reply_fits (off + 6) r' \<and> reply_ok r' \<and>
        naks_left s r' g' \<and> \<not> (r' \<noteq> r \<and> reply_code r' = ConfigRej)" for a
      using conf_nak_answers [OF assms(2-4), of "be32 a" m off] assms(5) n6 by (metis length_be32)
    define a where "a = (if m off = 3 then s_ip (g_session g s) else if m off = 129 then s_dns1 (g_session g s) else s_dns2 (g_session g s))"
    obtain r' g' where nak': "ppp_conf_nak MAXETHER s FIpcp m off (be32 a) r g = (r', g')" "reply_fits (off + 6) r'" "reply_ok r'"
        "naks_left s r' g'" "\<not> (r' \<noteq> r \<and> reply_code r' = ConfigRej)" using nak by blast
    have n2: "m (Suc off) = 6" using n by simp
    have "ipcp_option s m off ((r, g), b) =
        (if option_is m off (be32 a) then Inr ((r, g), b \<or> m off = 3) else Inr ((r', g'), b \<or> m off = 3))"
      using True nak'(1,3,5) by (elim insertE) (auto simp: ipcp_option_def want_value_def n2 Let_def a_def)
    then show ?thesis using nak' same assms(3) unfolding n6 by (cases "option_is m off (be32 a)") auto
  next
    case False
    with conf_rej_answers [where m = m and o' = off, OF assms(2,4,5), of s PPPIPCP g] assms(3) show ?thesis
      by (auto simp: ipcp_option_def Let_def naks_left_def split: if_splits)
  qed
qed

lemma ipcp_loop_answers:
  "option_offsets m len off = Some offs \<Longrightarrow> \<forall>o' \<in> set offs. ipcp_sized m o' \<Longrightarrow> reply_fits off r \<Longrightarrow> naks_left s r g \<Longrightarrow>
     4 \<le> off \<Longrightarrow> int off + len \<le> 2590 \<Longrightarrow> \<exists>st. ncp_options (ipcp_option s m) m len off ((r, g), b) = Inr st"
proof (induction len off arbitrary: r g b offs rule: option_induct [of _ m])
  case (step len off n)
  then obtain offs' where offs: "option_offsets m (len - int n) (off + n) = Some offs'" "offs = off # offs'"
    by (auto simp: offsets_cases(3) [where m = m and off = off, OF step(1-3)])
  have n: "n = unat (m (off + 1))" "int off + int n \<le> 2590" using step.hyps step.prems(6) by linarith+
  obtain r1 g1 b1 where h: "ipcp_option s m off ((r, g), b) = Inr ((r1, g1), b1)"
    "reply_fits (off + n) r1" "naks_left s r1 g1"
  proof -
    have "off + unat (m (off + 1)) \<le> 2590" using n by linarith
    moreover have "ipcp_sized m off" using step.prems(2) offs(2) by simp
    ultimately have "off + unat (m (off + 1)) \<le> 2590" "ipcp_sized m off" by blast+
    from ipcp_option_answers [OF this(2) step.prems(3-5) this(1), of b] that show thesis unfolding n(1) by blast
  qed
  have "\<exists>st. ncp_options (ipcp_option s m) m (len - int n) (off + n) ((r1, g1), b1) = Inr st"
    by (rule step.IH [OF offs(1)]) (use step.prems h offs(2) in auto)
  then show ?case by (simp add: ncp_cases(3) [where m = m and off = off, OF step(1-3)] h(1))
qed (auto simp: ncp_cases offsets_cases)

text \<open>A request with options of the right lengths that has an address or needs a \<open>Nak\<close> or \<open>Reject\<close>, while \<open>Nak\<close>s are left.\<close>

definition ipcp_answerable :: "sessionidt \<Rightarrow> mem \<Rightarrow> nat \<Rightarrow> l2tpns \<Rightarrow> bool" where
  "ipcp_answerable s m l g \<longleftrightarrow>
     (case option_offsets m (int l - 4) 4 of
        None \<Rightarrow> False
      | Some offs \<Rightarrow> (\<forall>off \<in> set offs. ipcp_sized m off) \<and> (\<exists>off \<in> set offs. m off = 3 \<or> \<not> ipcp_good m (g_session g s) off)) \<and>
     nak_sent FIpcp s g + 1 < cf_ppp_max_failure (g_cfg g)"

lemma ipcp_answered:
  assumes "ipcp_answerable s m l g" and "l \<le> 2590"
    and send: "\<And>g. state_of FIpcp s (send_req g) = state_of FIpcp s g" and opened: "\<And>g. state_of FIpcp s (opened g) = Opened"
  shows "state_of FIpcp s (ncp_configreq FIpcp (ipcp_option s m) send_req opened s t m l g) =
    fsm_next (state_of FIpcp s g) (RcvReq (acceptable (ipcp_good m) 3 (g_session g s) m l))"
proof -
  obtain offs where offs: "option_offsets m (int l - 4) 4 = Some offs" "\<forall>off \<in> set offs. ipcp_sized m off"
    "\<exists>off \<in> set offs. m off = 3 \<or> \<not> ipcp_good m (g_session g s) off" and left: "naks_left s NoReply g"
    using assms(1) by (auto simp: ipcp_answerable_def naks_left_def split: option.splits)
  have "\<exists>st. ncp_options (ipcp_option s m) m (int l - 4) 4 ((NoReply, g), False) = Inr st"
    by (rule ipcp_loop_answers [OF offs(1,2) _ left]) (use assms(2) in \<open>simp_all add: reply_fits_def\<close>)
  then obtain r1 g1 b1 where "ncp_options (ipcp_option s m) m (int l - 4) 4 ((NoReply, g), False) = Inr ((r1, g1), b1)"
    by (metis prod.collapse)
  from ipcp_neg.configreq_answered [OF assms(2) send opened this offs(1,3)] show ?thesis .
qed

subsection \<open>Packets and the abstract automaton\<close>

definition ncp_event :: "(sessiont \<Rightarrow> nat \<Rightarrow> bool) \<Rightarrow> u8 \<Rightarrow> sessiont \<Rightarrow> mem \<Rightarrow> nat \<Rightarrow> fsm_event" where
  "ncp_event good wanted sess m l =
     (if m 0 = ConfigAck then RcvAck
      else if m 0 = ConfigReq then RcvReq (acceptable good wanted sess m l)
      else if m 0 = TerminateReq then RcvTerminate else RcvOther)"

definition ipcp_event :: "sessionidt \<Rightarrow> mem \<Rightarrow> nat \<Rightarrow> l2tpns \<Rightarrow> fsm_event" where
  "ipcp_event s m l g =
     (if l < 4 \<or> unat (rd16 m 2) > l \<or> before_network s g then RcvOther
      else ncp_event (ipcp_good m) 3 (g_session g s) m (unat (rd16 m 2)))"

definition ipv6cp_event :: "sessionidt \<Rightarrow> mem \<Rightarrow> nat \<Rightarrow> l2tpns \<Rightarrow> fsm_event" where
  "ipv6cp_event s m l g =
     (if l < 4 \<or> unat (rd16 m 2) > l \<or> before_network s g \<or> s_ip (g_session g s) = 0 then RcvOther
      else ncp_event (ipv6cp_good m) 1 (g_session g s) m (unat (rd16 m 2)))"

lemma state_of_send:
  "state_of f s (sendipcp i t g) = state_of f s g" "state_of f s (sendipv6cp i t g) = state_of f s g"
  by (simp_all add: state_of_ppp ppp_frame)

lemma state_of_open:
  "state_of FIpcp s (ipcp_open s t g) = Opened" "state_of FIpv6cp s (ipv6cp_open s t g) = Opened"
  by (simp_all add: state_of_ppp ppp_ipcp_open ppp_ipv6cp_open Let_def)

lemma fsm_next_other [simp]: "fsm_next x RcvOther = x"
  by (cases x) simp_all

lemma ack_state:
  "state_of FIpcp s (recv_ack FIpcp (sendipcp s t) (ipcp_open s t) (\<lambda>g. g) s g) = fsm_next (state_of FIpcp s g) RcvAck"
  "state_of FIpv6cp s (recv_ack FIpv6cp (sendipv6cp s t) (ipv6cp_open s t) (\<lambda>g. g) s g) = fsm_next (state_of FIpv6cp s g) RcvAck"
  by (rule recv_ack_state; simp add: state_of_send state_of_open)+

lemma code_rej_state: "ppp_code_rej i t proto m l g = Ret g' \<Longrightarrow> state_of f s g' = state_of f s g"
  by (simp add: state_of_ppp ppp_code_rej_frame)

lemma ncp_refines:
  fixes s :: sessionidt
  shows "processipcp s t m l g = Ret g' \<Longrightarrow> l \<le> 2590 \<Longrightarrow>
      state_of FIpcp s g' = fsm_next (state_of FIpcp s g) (ipcp_event s m l g) \<or>
      ipcp_event s m l g = RcvReq False \<and> (\<exists>g1. quiet g g1 \<and> (g' = g1 \<or> g' = cannot_negotiate s g1))"
    and "processipv6cp s t m l g = Ret g' \<Longrightarrow> l \<le> 2590 \<Longrightarrow>
      state_of FIpv6cp s g' = fsm_next (state_of FIpv6cp s g) (ipv6cp_event s m l g) \<or>
      ipv6cp_event s m l g = RcvReq False \<and> quiet g g'"
proof -
  assume p: "processipcp s t m l g = Ret g'" and "l \<le> 2590"
  then have "unat (rd16 m 2) \<le> 2590" if "\<not> unat (rd16 m 2) > l" using that by simp
  note req = ipcp_neg.configreq_state [OF this, of FIpcp s "sendipcp s t" "ipcp_open s t", OF _ state_of_send(1) state_of_open(1)]
  show "state_of FIpcp s g' = fsm_next (state_of FIpcp s g) (ipcp_event s m l g) \<or>
      ipcp_event s m l g = RcvReq False \<and> (\<exists>g1. quiet g g1 \<and> (g' = g1 \<or> g' = cannot_negotiate s g1))"
    using p req [where t = t and g = g]
    by (auto simp: processipcp_def ipcp_event_def ncp_event_def Let_def ack_state recv_terminate_state
        ppp_codes split: if_splits dest: code_rej_state)
next
  assume p: "processipv6cp s t m l g = Ret g'" and "l \<le> 2590"
  then have "unat (rd16 m 2) \<le> 2590" if "\<not> unat (rd16 m 2) > l" using that by simp
  note req = ipv6cp_neg.configreq_state [OF this, of FIpv6cp s "sendipv6cp s t" "ipv6cp_open s t", OF _ state_of_send(2) state_of_open(2)]
  show "state_of FIpv6cp s g' = fsm_next (state_of FIpv6cp s g) (ipv6cp_event s m l g) \<or>
      ipv6cp_event s m l g = RcvReq False \<and> quiet g g'"
    using p req [where t = t and g = g]
    by (auto simp: processipv6cp_def ipv6cp_event_def ncp_event_def Let_def ack_state recv_terminate_state
        ppp_codes split: if_splits dest: code_rej_state)
qed

lemma ipcp_answerable_next:
  assumes "processipcp s t m l g = Ret g'" and "l \<le> 2590" and "ipcp_answerable s m (unat (rd16 m 2)) g"
    and "m 0 = ConfigReq"
  shows "state_of FIpcp s g' = fsm_next (state_of FIpcp s g) (ipcp_event s m l g)"
proof (cases "l < 4 \<or> unat (rd16 m 2) > l \<or> before_network s g")
  case True
  with assms(1) have "g' = g" by (auto simp: processipcp_def Let_def split: if_splits)
  with True show ?thesis by (simp add: ipcp_event_def)
next
  case False
  then have "unat (rd16 m 2) \<le> 2590" using assms(2) by simp
  from ipcp_answered [OF assms(3) this state_of_send(1) state_of_open(1)] assms(1,4) False show ?thesis
    by (auto simp: processipcp_def ipcp_event_def ncp_event_def Let_def ppp_codes)
qed


subsection \<open>Concrete runs\<close>

definition bytes_mem :: "bytes \<Rightarrow> mem" where
  "bytes_mem bs i = (if i < length bs then bs ! i else 0)"

definition sample_session :: sessiont where
  "sample_session = session_zero\<lparr>s_ip := 0x0A000001, s_ppp := ppp_zero\<lparr>phase := Network, ipcp := RequestSent\<rparr>\<rparr>"

definition sample_req :: mem where "sample_req = bytes_mem [1, 7, 0, 10, 3, 6, 10, 0, 0, 1]"

lemma sample_bytes:
  "sample_req 0 = 1" "sample_req 1 = 7" "sample_req 2 = 0" "sample_req 3 = 10" "sample_req 4 = 3" "sample_req 5 = 6"
  "sample_req 6 = 10" "sample_req 7 = 0" "sample_req 8 = 0" "sample_req 9 = 1"
  by (simp_all add: sample_req_def bytes_mem_def)

lemma sample_options: "option_offsets sample_req 6 4 = Some [4]"
  using offsets_cases(3) [of 6 6 sample_req 4] offsets_cases(1) [of 0 sample_req 10] by (simp add: sample_bytes)

lemma sample_good: "s_ip sess = 0x0A000001 \<Longrightarrow> ipcp_good sample_req sess 4"
  by (simp add: ipcp_good_def option_is_def be32_def sample_bytes upt_rec)

lemma sample_req_event:
  "s_ip (g_session g s) = 0x0A000001 \<Longrightarrow> phase (ppp_of s g) = Network \<Longrightarrow> ipcp_event s sample_req 10 g = RcvReq True"
  by (simp add: ipcp_event_def ncp_event_def acceptable_def sample_options sample_good ppp_codes sample_bytes rd16_def
      before_network_def ppp_of_def)

lemma sample_ret: "\<exists>g'. processipcp s t sample_req 10 g = Ret g'"
  by (simp add: processipcp_def Let_def sample_bytes ppp_codes rd16_def)

definition sample_state :: "l2tpns \<Rightarrow> l2tpns" where
  "sample_state g = upd_session 5 (\<lambda>_. sample_session) g"

lemma sample_state_facts:
  "ppp_of 5 (sample_state g) = ppp_zero\<lparr>phase := Network, ipcp := RequestSent\<rparr>"
  "s_ip (g_session (sample_state g) 5) = 0x0A000001"
  by (simp_all add: sample_state_def upd_session_def sample_session_def ppp_of_def)

text \<open>The same request, acknowledged before, for a session that has another address by now.\<close>

definition other_state :: "l2tpns \<Rightarrow> l2tpns" where
  "other_state g = upd_cfg (\<lambda>c. c\<lparr>cf_ppp_max_failure := 10\<rparr>) (upd_local 5 (\<lambda>_. local_zero)
     (upd_session 5 (\<lambda>_. sample_session\<lparr>s_ip := 0x0A000002, s_ppp := ppp_zero\<lparr>phase := Network, ipcp := AckSent\<rparr>\<rparr>) g))"

lemma other_state_facts:
  "ppp_of 5 (other_state g) = ppp_zero\<lparr>phase := Network, ipcp := AckSent\<rparr>"
  "s_ip (g_session (other_state g) 5) = 0x0A000002"
  "ipcp_answerable 5 sample_req 10 (other_state g)" "ipcp_event 5 sample_req 10 (other_state g) = RcvReq False"
proof -
  show f: "ppp_of 5 (other_state g) = ppp_zero\<lparr>phase := Network, ipcp := AckSent\<rparr>" "s_ip (g_session (other_state g) 5) = 0x0A000002"
    by (simp_all add: other_state_def upd_session_def upd_local_def upd_cfg_def ppp_of_def)
  have "\<not> ipcp_good sample_req (g_session (other_state g) 5) 4"
    by (simp add: ipcp_good_def option_is_def be32_def sample_bytes upt_rec f)
  then show "ipcp_event 5 sample_req 10 (other_state g) = RcvReq False"
    using f by (simp add: ipcp_event_def ncp_event_def acceptable_def sample_options ppp_codes sample_bytes rd16_def
        before_network_def ppp_of_def)
  have "nak_sent FIpcp 5 (other_state g) = 0" "cf_ppp_max_failure (g_cfg (other_state g)) = 10"
    by (simp_all add: nak_sent_def other_state_def upd_session_def upd_local_def upd_cfg_def local_zero_def fsm_zero_def)
  then show "ipcp_answerable 5 sample_req 10 (other_state g)"
    by (simp add: ipcp_answerable_def sample_options ipcp_sized_def sample_bytes)
qed


end
