(* ===== verification/Lac.thy ===== *)
theory Lac
  imports PppInv Radius Acl
begin

text \<open>
  Sessions handed on to another LNS (\<^verbatim>\<open>src/l2tplac.c\<close>, the parts of \<^verbatim>\<open>src/l2tpns.c\<close> and \<^verbatim>\<open>src/pppoe.c\<close> it calls):
  the configured servers, the tunnels named by RADIUS, opening a tunnel or session, and forwarding packets
  between the two halves of a session. What \<open>rand\<close> returns is an argument.
\<close>

definition MAXTAGTUNNEL :: nat where "MAXTAGTUNNEL = 32"
definition MAXRLNSTUNNEL :: nat where "MAXRLNSTUNNEL = 201"
definition L2TPPORT :: u16 where "L2TPPORT = 1701"

definition upd_rlns :: "nat \<Rightarrow> (configrlns \<Rightarrow> configrlns) \<Rightarrow> l2tpns \<Rightarrow> l2tpns" where
  "upd_rlns i f g = g\<lparr>g_rlns := (g_rlns g)(i := f (g_rlns g i))\<rparr>"

subsection \<open>The tunnels of a RADIUS response\<close>

definition tag_zero :: tunnelrlnst where
  "tag_zero = \<lparr>tr_tunnel_type = 0, tr_medium_type = 0, tr_server_endpoint = 0, tr_password = [], tr_assignment_id = []\<rparr>"

definition lac_reset_rad_tag_tunnel_ctxt :: "l2tpns \<Rightarrow> l2tpns" where
  "lac_reset_rad_tag_tunnel_ctxt g = g\<lparr>g_rad_tags := (\<lambda>_. tag_zero)\<rparr>"

definition upd_tag :: "u8 \<Rightarrow> (tunnelrlnst \<Rightarrow> tunnelrlnst) \<Rightarrow> l2tpns \<Rightarrow> l2tpns" where
  "upd_tag tag f g =
     (if unat tag < MAXTAGTUNNEL then g\<lparr>g_rad_tags := (g_rad_tags g)(unat tag := f (g_rad_tags g (unat tag)))\<rparr> else g)"

definition lac_set_rad_tag_tunnel_type :: "u8 \<Rightarrow> u32 \<Rightarrow> l2tpns \<Rightarrow> l2tpns" where
  "lac_set_rad_tag_tunnel_type tag ty = upd_tag tag (\<lambda>x. x\<lparr>tr_tunnel_type := ty\<rparr>)"

definition lac_set_rad_tag_tunnel_medium_type :: "u8 \<Rightarrow> u32 \<Rightarrow> l2tpns \<Rightarrow> l2tpns" where
  "lac_set_rad_tag_tunnel_medium_type tag ty = upd_tag tag (\<lambda>x. x\<lparr>tr_medium_type := ty\<rparr>)"

text \<open>\<open>inet_addr\<close> in host order; an address that is not one gives all ones.\<close>

definition inet_addr :: "string \<Rightarrow> in_addr" where
  "inet_addr s = (case inet_aton s of None \<Rightarrow> 0xffffffff | Some a \<Rightarrow> a)"

definition lac_set_rad_tag_tunnel_serv_endpt :: "u8 \<Rightarrow> string \<Rightarrow> l2tpns \<Rightarrow> l2tpns" where
  "lac_set_rad_tag_tunnel_serv_endpt tag s = upd_tag tag (\<lambda>x. x\<lparr>tr_server_endpoint := inet_addr s\<rparr>)"

definition lac_set_rad_tag_tunnel_password :: "u8 \<Rightarrow> bytes \<Rightarrow> l2tpns \<Rightarrow> l2tpns" where
  "lac_set_rad_tag_tunnel_password tag pw =
     (if length pw < 64 then upd_tag tag (\<lambda>x. x\<lparr>tr_password := pw\<rparr>) else (\<lambda>g. g))"

definition lac_set_rad_tag_tunnel_assignment_id :: "u8 \<Rightarrow> bytes \<Rightarrow> l2tpns \<Rightarrow> l2tpns" where
  "lac_set_rad_tag_tunnel_assignment_id tag name =
     (if length name < 256 then upd_tag tag (\<lambda>x. x\<lparr>tr_assignment_id := name\<rparr>) else (\<lambda>g. g))"

definition usable_tag :: "tunnelrlnst \<Rightarrow> bool" where
  "usable_tag x \<longleftrightarrow>
     tr_tunnel_type x = 3 \<and> tr_medium_type x = 1 \<and> tr_server_endpoint x \<noteq> 0 \<and> tr_assignment_id x \<noteq> []"

definition lac_rad_select_assignment_id :: "nat \<Rightarrow> l2tpns \<Rightarrow> bytes option" where
  "lac_rad_select_assignment_id rand g =
     (let found = filter (\<lambda>i. usable_tag (g_rad_tags g i)) [0..<MAXTAGTUNNEL] in
      if found = [] then None else Some (tr_assignment_id (g_rad_tags g (found ! (rand mod length found)))))"

text \<open>
  \<open>lac_save_rad_tag_tunnels\<close>: a tunnel goes to the first entry that is free or was made by RADIUS for the
  same server and name; when there is none the function gives up.
\<close>

definition rlns_slot :: "tunnelrlnst \<Rightarrow> l2tpns \<Rightarrow> nat option" where
  "rlns_slot x g =
     find (\<lambda>i. let c = g_rlns g i in
             rl_state c = CONFRLNSFREE \<or>
             rl_state c = CONFRLNSSETBYRADIUS \<and> rl_ip c = tr_server_endpoint x \<and> rl_assignment_id c = tr_assignment_id x)
       [1..<MAXRLNSTUNNEL]"

definition save_tag :: "tunnelrlnst \<Rightarrow> nat \<Rightarrow> l2tpns \<Rightarrow> l2tpns" where
  "save_tag x i g =
     (if rl_state (g_rlns g i) = CONFRLNSFREE
      then upd_cfg (\<lambda>c. c\<lparr>cf_highest_rlnsid := i\<rparr>)
             (upd_rlns i (\<lambda>c. c\<lparr>rl_ip := tr_server_endpoint x, rl_port := L2TPPORT, rl_l2tp_secret := tr_password x,
                rl_assignment_id := tr_assignment_id x, rl_state := CONFRLNSSETBYRADIUS\<rparr>) g)
      else upd_cfg (\<lambda>c. c\<lparr>cf_highest_rlnsid := max (cf_highest_rlnsid c) i\<rparr>)
             (upd_rlns i (\<lambda>c. c\<lparr>rl_l2tp_secret := tr_password x, rl_port := L2TPPORT\<rparr>) g))"

fun save_tags :: "nat list \<Rightarrow> l2tpns \<Rightarrow> l2tpns" where
  "save_tags [] g = g"
| "save_tags (tag # tags) g =
     (let x = g_rad_tags g tag in
      if usable_tag x \<and> tr_server_endpoint x \<noteq> htonl (cf_bind_address (g_cfg g))
      then (case rlns_slot x g of None \<Rightarrow> g | Some i \<Rightarrow> save_tags tags (save_tag x i g))
      else save_tags tags g)"

definition lac_save_rad_tag_tunnels :: "l2tpns \<Rightarrow> l2tpns" where
  "lac_save_rad_tag_tunnels g = save_tags [0..<MAXTAGTUNNEL] g"

subsection \<open>Opening tunnels and sessions\<close>

text \<open>\<open>new_tunnel\<close> of \<^verbatim>\<open>src/l2tpns.c\<close>; 0 when there is none.\<close>

definition new_tunnel :: "l2tpns \<Rightarrow> l2tpns \<times> tunnelidt" where
  "new_tunnel g =
     (case find (\<lambda>i. t_state (g_tunnel g i) = TUNNELFREE \<and> i \<noteq> TUNNEL_ID_PPPOE) [1..<MAXTUNNEL] of
        None \<Rightarrow> (g, 0)
      | Some i \<Rightarrow> (upd_cfg (\<lambda>c. c\<lparr>cf_cluster_highest_tunnelid := max (cf_cluster_highest_tunnelid c) i\<rparr>) g, i))"

definition Vendor_name :: bytes where "Vendor_name = chars ''Linux L2TPNS''"

definition sccrq :: "bytes \<Rightarrow> tunnelidt \<Rightarrow> bytes \<Rightarrow> bytes" where
  "sccrq host t auth =
     controlb (control16 (control32 (control16 (controls (controls (controlnew 1) 7 host True) 8 Vendor_name True)
       2 0x0100 True) 3 3 True) 9 (of_nat t) True) 11 auth True"

definition lac_send_SCCRQ :: "tunnelidt \<Rightarrow> bytes \<Rightarrow> l2tpns \<Rightarrow> l2tpns" where
  "lac_send_SCCRQ t auth g =
     g_controladd (sccrq (hostname_of t g) t auth) 0 t (upd_tunnel t (\<lambda>x. x\<lparr>t_state := TUNNELOPENING\<rparr>) g)"

definition lac_send_ICRQ :: "tunnelidt \<Rightarrow> sessionidt \<Rightarrow> l2tpns \<Rightarrow> l2tpns" where
  "lac_send_ICRQ t s g =
     (let n = g_call_serial g + 1 in
      g_controladd (control32 (control16 (controlnew 10) 14 (of_nat s) True) 15 n True) 0 t (g\<lparr>g_call_serial := n\<rparr>))"

text \<open>A session taken from the head of the free list; the code does not test for an empty list.\<close>

definition take_session :: "l2tpns \<Rightarrow> l2tpns \<times> sessionidt" where
  "take_session g =
     (let s = g_sessionfree g in
      (upd_cfg (\<lambda>c. c\<lparr>cf_cluster_highest_sessionid := max (cf_cluster_highest_sessionid c) s\<rparr>)
         (upd_session s (\<lambda>_. session_zero) (g\<lparr>g_sessionfree := s_next (g_session g s)\<rparr>)), s))"

definition lac_create_tunnelsession :: "tunnelidt \<Rightarrow> sessionidt \<Rightarrow> nat \<Rightarrow> string \<Rightarrow> l2tpns \<Rightarrow> l2tpns \<times> bool" where
  "lac_create_tunnelsession t s i puser g =
     (if t = 0 then
        if g_quit_shutdown g then (g, False)
        else
          let (g1, t) = new_tunnel g in
          if t = 0 then (g1, False)
          else
            let c = g_rlns g1 i;
                g2 = upd_tunnel t (\<lambda>x. x\<lparr>t_ip := rl_ip c, t_port := rl_port c, t_window := 4, t_isremotelns := i,
                       t_indexudp := cf_indexlacudpfd (g_cfg g1)\<rparr>) (tunnelclear t g1);
                (auth, g3) = random_data 16 g2
            in (lac_send_SCCRQ t auth (upd_rlns i (\<lambda>c. c\<lparr>rl_auth := auth\<rparr>) g3), True)
      else if t_state (g_tunnel g t) = TUNNELOPEN then
        if g_quit_shutdown g then (tunnelshutdown t ''Shutting down'' 6 0 None g, True)
        else
          let (g1, n) = take_session g; now = g_time_now g1;
              g2 = upd_session n (\<lambda>x. x\<lparr>s_opened := word_of_int now, s_tunnel := t\<rparr>) g1;
              g3 = upd_session n (\<lambda>x. x\<lparr>s_last_packet := now\<rparr>) (upd_session s (\<lambda>x. x\<lparr>s_last_data := now\<rparr>) g2);
              g4 = upd_session s (\<lambda>x. x\<lparr>s_ppp := (s_ppp x)\<lparr>phase := Establish\<rparr>\<rparr>)
                     (upd_session n (\<lambda>x. x\<lparr>s_ppp := (s_ppp x)\<lparr>phase := Establish, lcp := Starting\<rparr>\<rparr>) g3);
              g5 = lac_send_ICRQ t n g4;
              g6 = upd_session n (\<lambda>x. x\<lparr>s_forwardtosession := s\<rparr>) (upd_session s (\<lambda>x. x\<lparr>s_forwardtosession := n\<rparr>) g5)
          in (upd_session n (\<lambda>x. x\<lparr>s_user := take 127 puser\<rparr>) (upd_session s (\<lambda>x. x\<lparr>s_user := take 127 puser\<rparr>) g6), True)
      else (g, True))"

definition strstr :: "bytes \<Rightarrow> bytes \<Rightarrow> bool" where
  "strstr hay needle = (\<exists>i \<in> {..length hay}. take (length needle) (drop i hay) = needle)"

text \<open>The tunnel to the server \<open>c\<close> that is in use; \<open>lac_conf_forwardtoremotelns\<close> may have to renumber it.\<close>

definition to_rlns :: "configrlns \<Rightarrow> tunnelt \<Rightarrow> bool" where
  "to_rlns c x \<longleftrightarrow> t_ip x = rl_ip c \<and> t_port x = rl_port c \<and> t_state x \<noteq> TUNNELDIE"

definition lac_conf_forwardtoremotelns :: "sessionidt \<Rightarrow> string \<Rightarrow> l2tpns \<Rightarrow> l2tpns \<times> bool" where
  "lac_conf_forwardtoremotelns s puser g =
     (case find (\<lambda>i. rl_state (g_rlns g i) = CONFRLNSSET \<and> strstr (chars puser) (rl_strmaskuser (g_rlns g i)))
             [1..<cf_highest_rlnsid (g_cfg g) + 1] of
        None \<Rightarrow> (g, False)
      | Some i \<Rightarrow>
          (case find (\<lambda>j. t_isremotelns (g_tunnel g j) \<noteq> 0 \<and> to_rlns (g_rlns g i) (g_tunnel g j))
                  [0..<cf_cluster_highest_tunnelid (g_cfg g) + 1] of
             None \<Rightarrow> lac_create_tunnelsession 0 s i puser g
           | Some t \<Rightarrow>
               if t_isremotelns (g_tunnel g t) = i then lac_create_tunnelsession t s i puser g
               else if t_state (g_tunnel g t) \<in> {TUNNELOPEN, TUNNELOPENING}
               then lac_create_tunnelsession t s i puser (upd_tunnel t (\<lambda>x. x\<lparr>t_isremotelns := i\<rparr>) g)
               else lac_create_tunnelsession 0 s i puser g))"

definition lac_rad_forwardtoremotelns :: "sessionidt \<Rightarrow> bytes \<Rightarrow> string \<Rightarrow> l2tpns \<Rightarrow> l2tpns \<times> bool" where
  "lac_rad_forwardtoremotelns s assignment_id puser g =
     (case find (\<lambda>i. rl_state (g_rlns g i) = CONFRLNSSETBYRADIUS \<and> rl_assignment_id (g_rlns g i) = assignment_id)
             [1..<cf_highest_rlnsid (g_cfg g) + 1] of
        None \<Rightarrow> (g, False)
      | Some i \<Rightarrow>
          (case find (\<lambda>j. t_isremotelns (g_tunnel g j) = i \<and> to_rlns (g_rlns g i) (g_tunnel g j) \<and>
                    t_state (g_tunnel g j) \<in> {TUNNELOPEN, TUNNELOPENING})
                  [1..<cf_cluster_highest_tunnelid (g_cfg g) + 1] of
             None \<Rightarrow> lac_create_tunnelsession 0 s i puser g
           | Some t \<Rightarrow> lac_create_tunnelsession t s i puser g))"

definition lac_calc_rlns_auth :: "tunnelidt \<Rightarrow> u8 \<Rightarrow> l2tpns \<Rightarrow> bytes" where
  "lac_calc_rlns_auth t ident g =
     (let c = g_rlns g (t_isremotelns (g_tunnel g t)) in md5 [[ident], rl_l2tp_secret c, rl_auth c])"

subsection \<open>Configured servers\<close>

definition set_rlns :: "nat \<Rightarrow> bytes \<Rightarrow> in_addr \<Rightarrow> u16 \<Rightarrow> bytes \<Rightarrow> l2tpns \<Rightarrow> l2tpns" where
  "set_rlns i msk ip port secret =
     upd_rlns i (\<lambda>c. c\<lparr>rl_strmaskuser := take 127 msk, rl_ip := ip, rl_port := port, rl_l2tp_secret := take 63 secret,
       rl_state := CONFRLNSSET\<rparr>)"

definition rlns_zero :: configrlns where
  "rlns_zero = \<lparr>rl_state = CONFRLNSFREE, rl_ip = 0, rl_port = 0, rl_auth = replicate 16 0, rl_strmaskuser = [],
     rl_l2tp_secret = [], rl_assignment_id = []\<rparr>"

text \<open>The result is 0 when there is no room, 1 for a new or unchanged server and 2 for a changed one.\<close>

definition lac_addremotelns :: "string \<Rightarrow> string \<Rightarrow> string \<Rightarrow> string \<Rightarrow> l2tpns \<Rightarrow> l2tpns \<times> nat" where
  "lac_addremotelns msk ip port secret g =
     (let msk = chars msk; secret = chars secret; a = inet_addr ip; p = atoi port in
      case find (\<lambda>i. rl_state (g_rlns g i) = CONFRLNSFREE \<or>
                   rl_state (g_rlns g i) = CONFRLNSSET \<and> rl_strmaskuser (g_rlns g i) = msk) [1..<MAXRLNSTUNNEL] of
        None \<Rightarrow> (g, 0)
      | Some i \<Rightarrow>
          let c = g_rlns g i in
          if rl_state c = CONFRLNSFREE
          then (upd_cfg (\<lambda>x. x\<lparr>cf_highest_rlnsid := i\<rparr>) (set_rlns i msk a (word_of_int p) secret g), 1)
          else if rl_ip c \<noteq> a \<or> int (unat (rl_port c)) \<noteq> p \<or> rl_l2tp_secret c \<noteq> secret
          then (upd_cfg (\<lambda>x. x\<lparr>cf_highest_rlnsid := max (cf_highest_rlnsid x) i\<rparr>)
                  (set_rlns i msk a (word_of_int p) secret (upd_rlns i (\<lambda>_. rlns_zero) g)), 2)
          else (g, 1))"

subsection \<open>Forwarding packets\<close>

definition count_bytes_in :: "sessionidt \<Rightarrow> u32 \<Rightarrow> l2tpns \<Rightarrow> l2tpns" where
  "count_bytes_in s len g =
     upd_local s (\<lambda>x. x\<lparr>l_cin := l_cin x + len, l_pin := l_pin x + 1\<rparr>)
       (upd_session s (\<lambda>x.
          let (c, w) = increment_counter (s_cin x) (s_cin_wrap x) len
          in x\<lparr>s_cin := c, s_cin_wrap := w, s_cin_delta := s_cin_delta x + len, s_pin := s_pin x + 1\<rparr>) g)"

definition count_bytes_out :: "sessionidt \<Rightarrow> u32 \<Rightarrow> l2tpns \<Rightarrow> l2tpns" where
  "count_bytes_out s len g =
     upd_local s (\<lambda>x. x\<lparr>l_cout := l_cout x + len, l_pout := l_pout x + 1\<rparr>)
       (upd_session s (\<lambda>x.
          let (c, w) = increment_counter (s_cout x) (s_cout_wrap x) len
          in x\<lparr>s_cout := c, s_cout_wrap := w, s_cout_delta := s_cout_delta x + len, s_pout := s_pout x + 1\<rparr>) g)"

definition touch :: "sessionidt \<Rightarrow> l2tpns \<Rightarrow> l2tpns" where
  "touch s g = upd_session s (\<lambda>x. x\<lparr>s_last_packet := g_time_now g\<rparr>) g"

definition touch_data :: "sessionidt \<Rightarrow> l2tpns \<Rightarrow> l2tpns" where
  "touch_data s g = upd_session s (\<lambda>x. x\<lparr>s_last_packet := g_time_now g, s_last_data := g_time_now g\<rparr>) g"

definition ipv6_on :: "l2tpns \<Rightarrow> bool" where
  "ipv6_on g = (s6_addr (cf_ipv6_prefix (g_cfg g)) 0 \<noteq> 0)"

definition forward_count :: "sessionidt \<Rightarrow> sessionidt \<Rightarrow> u16 \<Rightarrow> u32 \<Rightarrow> l2tpns \<Rightarrow> l2tpns" where
  "forward_count sess s proto len g =
     (if proto = PPPIP \<or> proto = PPPMP \<or> proto = PPPIPV6 \<and> ipv6_on g
      then count_bytes_out s len (upd_session s (\<lambda>x. x\<lparr>s_last_data := g_time_now g\<rparr>) (count_bytes_in sess len (touch_data sess g)))
      else touch sess g)"

text \<open>The addresses of a data packet rewritten for the tunnel and session it goes to.\<close>

definition forward_header :: "tunnelt \<Rightarrow> u16 \<Rightarrow> bytes \<Rightarrow> bytes" where
  "forward_header tn far buf =
     (let p = (if bit (hd buf) 6 then 4 else 2);
          b = put16 (p + 2) far (put16 p (t_far tn) buf)
      in if bit (hd buf) 3 then put16 (p + 6) (t_nr tn) (put16 (p + 4) (t_ns tn) b) else b)"

text \<open>
  \<open>pppoe_forwardto_session_pppoe\<close>: the payload behind an Ethernet and a PPPoE header; \<open>Undef\<close> for a packet
  that ends before its payload.
\<close>

definition pppoe_forwardto_session_pppoe :: "bytes \<Rightarrow> sessionidt \<Rightarrow> u16 \<Rightarrow> l2tpns \<Rightarrow> l2tpns outcome" where
  "pppoe_forwardto_session_pppoe pack sess proto g =
     (let s = s_forwardtosession (g_session g sess); t = s_tunnel (g_session g s);
          p = 6 + (if bit (hd pack) 6 then 2 else 0) + (if bit (hd pack) 3 then 4 else 0)
      in if length pack < p then Undef
         else
           let data = drop p pack;
               data = (if length data > 2 \<and> take 2 data = [0xFF, 0x03] then drop 2 data else data);
               frame = setup_header (cf_pppoe_hwaddr (g_cfg g)) (s_src_hwaddr (g_session g s)) 0 (of_nat s)
                         ETH_P_PPP_SES @ data
           in Ret (g_tunnelsend frame t (forward_count sess s proto (of_nat (length frame)) g)))"

definition is_ncp :: "u16 \<Rightarrow> l2tpns \<Rightarrow> bool" where
  "is_ncp proto g \<longleftrightarrow>
     proto \<in> {PPPIPCP, PPPLCP, PPPPAP, PPPCHAP, PPPCCP} \<or> proto = PPPIPV6CP \<and> ipv6_on g"

definition lac_session_forward ::
    "bytes \<Rightarrow> sessionidt \<Rightarrow> u16 \<Rightarrow> in_addr \<Rightarrow> u16 \<Rightarrow> u16 \<Rightarrow> l2tpns \<Rightarrow> (l2tpns \<times> bool) outcome" where
  "lac_session_forward buf sess proto addr port indexudp g =
     (let s = s_forwardtosession (g_session g sess); t = s_tunnel (g_session g s) in
      if s_forwardtosession (g_session g s) \<noteq> sess then Ret (g, False)
      else if t \<ge> MAXTUNNEL then Ret (g, False)
      else if t_isremotelns (g_tunnel g t) = 0 \<and> t_isremotelns (g_tunnel g (s_tunnel (g_session g sess))) = 0
      then Ret (g, False)
      else if \<not> cf_cluster_iam_master (g_cfg g) \<and> is_ncp proto g
      then Ret (master_forward_packet buf addr port indexudp (touch sess g), True)
      else if t = TUNNEL_ID_PPPOE
      then obind (pppoe_forwardto_session_pppoe buf sess proto g) (\<lambda>g'. Ret (g', True))
      else
        Ret (g_tunnelsend (forward_header (g_tunnel g t) (of_nat (s_far (g_session g s))) buf) t
               (forward_count sess s proto (of_nat (length buf)) g), True))"

text \<open>The other direction, from PPPoE to a remote LNS; \<open>pack\<close> is the memory of the Ethernet frame.\<close>

definition pppoe_forwardto_session_rmlns :: "mem \<Rightarrow> sessionidt \<Rightarrow> u16 \<Rightarrow> l2tpns \<Rightarrow> l2tpns" where
  "pppoe_forwardto_session_rmlns pack sess proto g =
     (let lppp = unat (rd16 pack 18); ll2tp = (lppp + 6) mod 65536;
          s = s_forwardtosession (g_session g sess); t = s_tunnel (g_session g s)
      in if s_forwardtosession (g_session g s) \<noteq> sess then g
         else if t \<ge> MAXTUNNEL then g
         else if t_isremotelns (g_tunnel g t) = 0 then g
         else
           g_tunnelsend
             (take ll2tp (be16 0x0002 @ be16 (t_far (g_tunnel g t)) @ be16 (of_nat (s_far (g_session g s))) @
                map pack [20..<20 + lppp])) t
             (forward_count sess s proto (of_nat ll2tp) g))"

end
