(* ===== verification/Pppoe.thy ===== *)
theory Pppoe
  imports Lac
begin

text \<open>
  The discovery stage of the PPPoE server (\<^verbatim>\<open>src/pppoe.c\<close>). A packet is the memory \<open>m\<close> of its Ethernet frame
  and its size; a tag is named by its offset. The packets sent are built in buffers of \<open>ETHER_MAX_LEN\<close>
  bytes without a check: what does not fit is \<open>Undef\<close>.
\<close>

definition CODE_PADI :: u8 where "CODE_PADI = 0x09"
definition CODE_PADO :: u8 where "CODE_PADO = 0x07"
definition CODE_PADR :: u8 where "CODE_PADR = 0x19"
definition CODE_PADS :: u8 where "CODE_PADS = 0x65"
definition CODE_PADT :: u8 where "CODE_PADT = 0xA7"
definition TAG_SERVICE_NAME :: u16 where "TAG_SERVICE_NAME = 0x0101"
definition TAG_AC_NAME :: u16 where "TAG_AC_NAME = 0x0102"
definition TAG_HOST_UNIQ :: u16 where "TAG_HOST_UNIQ = 0x0103"
definition TAG_AC_COOKIE :: u16 where "TAG_AC_COOKIE = 0x0104"
definition TAG_RELAY_SESSION_ID :: u16 where "TAG_RELAY_SESSION_ID = 0x0110"
definition TAG_SERVICE_NAME_ERROR :: u16 where "TAG_SERVICE_NAME_ERROR = 0x0201"
definition ETHER_MAX_LEN :: nat where "ETHER_MAX_LEN = 1518"
definition PPPoE_MRU :: u16 where "PPPoE_MRU = 1492"

lemmas pppoe_codes = CODE_PADI_def CODE_PADO_def CODE_PADR_def CODE_PADS_def CODE_PADT_def
lemmas pppoe_tags = TAG_SERVICE_NAME_def TAG_AC_NAME_def TAG_HOST_UNIQ_def TAG_AC_COOKIE_def
  TAG_RELAY_SESSION_ID_def TAG_SERVICE_NAME_ERROR_def

subsection \<open>Building packets\<close>

definition h_dest :: "mem \<Rightarrow> bytes" where "h_dest m = map m [0..<6]"
definition h_source :: "mem \<Rightarrow> bytes" where "h_source m = map m [6..<12]"
definition bc_addr :: bytes where "bc_addr = replicate 6 0xff"

definition tag_len :: "mem \<Rightarrow> nat \<Rightarrow> nat" where
  "tag_len m off = unat (rd16 m (off + 2))"

definition tag_data :: "mem \<Rightarrow> nat \<Rightarrow> bytes" where
  "tag_data m off = map m [off + 4..<off + 4 + tag_len m off]"

definition add_tag :: "u16 \<Rightarrow> bytes \<Rightarrow> bytes" where
  "add_tag ty data = be16 ty @ be16 (of_nat (length data)) @ data"

definition add_tag2 :: "mem \<Rightarrow> nat \<Rightarrow> bytes" where
  "add_tag2 m off = map m [off..<off + 4 + tag_len m off]"

definition add_opt_tag :: "mem \<Rightarrow> nat option \<Rightarrow> bytes" where
  "add_opt_tag m t = (case t of None \<Rightarrow> [] | Some off \<Rightarrow> add_tag2 m off)"

definition disc_packet :: "configt \<Rightarrow> bytes \<Rightarrow> u8 \<Rightarrow> u16 \<Rightarrow> bytes \<Rightarrow> bytes" where
  "disc_packet cfg dst code sid tags =
     take 18 (setup_header (cf_pppoe_hwaddr cfg) dst code sid ETH_P_PPP_DISC) @ be16 (of_nat (length tags)) @ tags"

definition pppoe_disc_send :: "bytes \<Rightarrow> u8 \<Rightarrow> u16 \<Rightarrow> bytes \<Rightarrow> l2tpns \<Rightarrow> l2tpns outcome" where
  "pppoe_disc_send dst code sid tags g =
     (if 20 + length tags > ETHER_MAX_LEN then Undef
      else Ret (out (PppoeDisc (disc_packet (g_cfg g) dst code sid tags)) g))"

definition ac_name_tag :: "l2tpns \<Rightarrow> bytes" where
  "ac_name_tag g = add_tag TAG_AC_NAME (cf_pppoe_ac_name (g_cfg g))"

definition pppoe_gen_cookie :: "bytes \<Rightarrow> bytes \<Rightarrow> l2tpns \<Rightarrow> bytes" where
  "pppoe_gen_cookie serv client g = md5 [cf_l2tp_secret (g_cfg g), serv, client]"

definition pppoe_send_err :: "mem \<Rightarrow> nat option \<Rightarrow> nat option \<Rightarrow> u8 \<Rightarrow> u16 \<Rightarrow> l2tpns \<Rightarrow> l2tpns outcome" where
  "pppoe_send_err m host_uniq relay code ty g =
     pppoe_disc_send (h_source m) code 0 (ac_name_tag g @ add_tag ty [] @ add_opt_tag m host_uniq @ add_opt_tag m relay) g"

definition pado_tags :: "mem \<Rightarrow> nat option \<Rightarrow> nat option \<Rightarrow> nat option \<Rightarrow> l2tpns \<Rightarrow> bytes" where
  "pado_tags m host_uniq relay service g =
     ac_name_tag g @ add_opt_tag m service @
     add_tag TAG_AC_COOKIE (pppoe_gen_cookie (cf_pppoe_hwaddr (g_cfg g)) (h_source m) g) @
     add_opt_tag m host_uniq @ add_opt_tag m relay"

definition pppoe_send_PADO :: "mem \<Rightarrow> nat option \<Rightarrow> nat option \<Rightarrow> nat option \<Rightarrow> l2tpns \<Rightarrow> l2tpns outcome" where
  "pppoe_send_PADO m host_uniq relay service g =
     pppoe_disc_send (h_source m) CODE_PADO 0 (pado_tags m host_uniq relay service g) g"

definition pppoe_send_PADS :: "u16 \<Rightarrow> mem \<Rightarrow> nat option \<Rightarrow> nat option \<Rightarrow> nat option \<Rightarrow> l2tpns \<Rightarrow> l2tpns outcome" where
  "pppoe_send_PADS sid m host_uniq relay service g =
     pppoe_disc_send (h_source m) CODE_PADS sid
       (ac_name_tag g @ add_opt_tag m service @ add_opt_tag m host_uniq @ add_opt_tag m relay) g"

definition pppoe_send_PADT :: "sessionidt \<Rightarrow> l2tpns \<Rightarrow> l2tpns outcome" where
  "pppoe_send_PADT s g = pppoe_disc_send (s_src_hwaddr (g_session g s)) CODE_PADT (of_nat s) (ac_name_tag g) g"

definition pppoe_shutdown_session :: "sessionidt \<Rightarrow> l2tpns \<Rightarrow> l2tpns outcome" where
  "pppoe_shutdown_session s g =
     (if s_tunnel (g_session g s) \<noteq> TUNNEL_ID_PPPOE then Ret g else pppoe_send_PADT s g)"

subsection \<open>Reading tags\<close>

text \<open>
  The offsets of the tags. PADI is checked against the length of the packet, None when a tag is longer
  than what is left; PADR is not, and its last tag may lie behind the packet.
\<close>

function tag_offsets :: "bool \<Rightarrow> mem \<Rightarrow> nat \<Rightarrow> nat \<Rightarrow> nat list option" where
  "tag_offsets check m len n =
     (if n \<ge> len then Some []
      else
        let next = n + 4 + tag_len m (20 + n) in
        if check \<and> next > len then None
        else map_option (\<lambda>offs. (20 + n) # offs) (tag_offsets check m len next))"
  by pat_completeness auto
termination
  by (relation "measure (\<lambda>(check, m, len, n). len - n)") auto

declare tag_offsets.simps [simp del]

record found_tags =
  ft_host_uniq :: "nat option"
  ft_relay :: "nat option"
  ft_service :: "nat option"
  ft_cookie :: "nat option"
  ft_match :: bool

definition no_tags :: found_tags where
  "no_tags = \<lparr>ft_host_uniq = None, ft_relay = None, ft_service = None, ft_cookie = None, ft_match = False\<rparr>"

definition padi_tag :: "configt \<Rightarrow> mem \<Rightarrow> nat \<Rightarrow> found_tags \<Rightarrow> found_tags" where
  "padi_tag cfg m off x =
     (let ty = rd16 m off; name = cf_pppoe_service_name cfg; n = tag_len m off in
      if ty = TAG_SERVICE_NAME then
        if cf_pppoe_only_equal_svc_name cfg \<and> name \<noteq> [] \<and> n = 0 then x
        else if name \<noteq> [] \<and> n \<noteq> 0 \<and> tag_data m off \<noteq> name then x
        else x\<lparr>ft_service := Some off, ft_match := True\<rparr>
      else if ty = TAG_HOST_UNIQ then x\<lparr>ft_host_uniq := Some off\<rparr>
      else if ty = TAG_RELAY_SESSION_ID then x\<lparr>ft_relay := Some off\<rparr>
      else x)"

definition padr_tag :: "configt \<Rightarrow> mem \<Rightarrow> nat \<Rightarrow> found_tags \<Rightarrow> found_tags" where
  "padr_tag cfg m off x =
     (let ty = rd16 m off; name = cf_pppoe_service_name cfg in
      if ty = TAG_SERVICE_NAME then
        x\<lparr>ft_service := Some off,
          ft_match := ft_match x \<or> tag_len m off = 0 \<or> name = [] \<or> tag_data m off = name\<rparr>
      else if ty = TAG_HOST_UNIQ then x\<lparr>ft_host_uniq := Some off\<rparr>
      else if ty = TAG_AC_COOKIE then x\<lparr>ft_cookie := Some off\<rparr>
      else if ty = TAG_RELAY_SESSION_ID then x\<lparr>ft_relay := Some off\<rparr>
      else x)"

subsection \<open>Discovery packets\<close>

definition pppoe_recv_PADI :: "mem \<Rightarrow> l2tpns \<Rightarrow> l2tpns outcome" where
  "pppoe_recv_PADI m g =
     (if rd16 m 16 \<noteq> 0 then Ret g
      else case tag_offsets True m (unat (rd16 m 18)) 0 of
        None \<Rightarrow> Ret g
      | Some offs \<Rightarrow>
          let x = fold (padi_tag (g_cfg g) m) offs no_tags in
          if \<not> ft_match x then Ret g
          else pppoe_send_PADO m (ft_host_uniq x) (ft_relay x) (ft_service x) g)"

text \<open>The session of an accepted request, up to its first LCP packet.\<close>

definition pppoe_new_session :: "mem \<Rightarrow> l2tpns \<Rightarrow> l2tpns \<times> sessionidt" where
  "pppoe_new_session m g =
     (let (g1, s) = take_session g; now = g_time_now g; cfg = g_cfg g1;
          a = (if cf_iftun_address cfg \<noteq> 0 then cf_iftun_address cfg else cf_my_address cfg);
          g2 = upd_session s (\<lambda>x. x\<lparr>s_opened := word_of_int now, s_tunnel := TUNNEL_ID_PPPOE, s_last_packet := now,
                 s_last_data := now, s_ppp := (s_ppp x)\<lparr>phase := Establish, lcp := Starting\<rparr>, s_magic := word_of_int now,
                 s_mru := PPPoE_MRU\<rparr>) g1;
          g3 = upd_local s (\<lambda>x. x\<lparr>l_lcp_authtype := cf_radius_authprefer cfg, l_ppp_mru := g_MRU g2, l_mp_mrru := 1614,
                 l_mp_epdis := htonl a\<rparr>) g2
      in (upd_session s (\<lambda>x. x\<lparr>s_src_hwaddr := h_source m\<rparr>) g3, s))"

definition pppoe_recv_PADR :: "mem \<Rightarrow> l2tpns \<Rightarrow> l2tpns outcome" where
  "pppoe_recv_PADR m g =
     (if h_dest m = bc_addr then Ret g
      else if rd16 m 16 \<noteq> 0 then Ret g
      else case tag_offsets False m (unat (rd16 m 18)) 0 of
        None \<Rightarrow> Ret g
      | Some offs \<Rightarrow>
          let x = fold (padr_tag (g_cfg g) m) offs no_tags in
          if \<not> ft_match x then pppoe_send_err m (ft_host_uniq x) (ft_relay x) CODE_PADS TAG_SERVICE_NAME_ERROR g
          else case ft_cookie x of
            None \<Rightarrow> Ret g
          | Some c \<Rightarrow>
              if tag_len m c \<noteq> 16 then Ret g
              else if tag_data m c \<noteq> pppoe_gen_cookie (h_dest m) (h_source m) g then Ret g
              else
                let (g1, s) = pppoe_new_session m g
                in obind (pppoe_send_PADS (of_nat s) m (ft_host_uniq x) (ft_relay x) (ft_service x) g1)
                     (\<lambda>g2. Ret (change_state s FLcp RequestSent (sendlcp s (s_tunnel (g_session g2 s)) g2))))"

text \<open>A PADT names its session in network order; the code takes the two bytes as they are.\<close>

definition padt_session :: "mem \<Rightarrow> sessionidt" where
  "padt_session m = unat (m 16) + 256 * unat (m 17)"

definition pppoe_recv_PADT :: "mem \<Rightarrow> l2tpns \<Rightarrow> l2tpns" where
  "pppoe_recv_PADT m g =
     (let s = padt_session m in
      if h_dest m = bc_addr then g
      else if s \<noteq> 0 \<and> s < MAXSESSION \<and> s_tunnel (g_session g s) = TUNNEL_ID_PPPOE
      then sessionshutdown s ''Client shutdown'' 3 0 0 g
      else g)"

definition process_pppoe_disc :: "mem \<Rightarrow> nat \<Rightarrow> l2tpns \<Rightarrow> l2tpns outcome" where
  "process_pppoe_disc m len g =
     (let code = m 15 in
      if \<not> cf_cluster_iam_master (g_cfg g) then
        if code = CODE_PADI then Ret g else Ret (master_forward_pppoe_packet (map m [0..<len]) code g)
      else if len < 20 then Ret g
      else if h_dest m \<noteq> bc_addr \<and> h_dest m \<noteq> cf_pppoe_hwaddr (g_cfg g) then Ret g
      else if h_source m = bc_addr then Ret g
      else if bit (m 6) 0 then Ret g
      else if len < 20 + unat (rd16 m 18) then Ret g
      else if drop_bit 4 (m 14) \<noteq> 1 \<or> m 14 AND 0xF \<noteq> 1 then Ret g
      else if code = CODE_PADI then pppoe_recv_PADI m g
      else if code = CODE_PADR then pppoe_recv_PADR m g
      else if code = CODE_PADT then Ret (pppoe_recv_PADT m g)
      else Ret g)"

subsection \<open>Who gets a session\<close>

lemma tag_offsets_unchecked: "\<exists>offs. tag_offsets False m len n = Some offs"
  by (induction "False" m len n rule: tag_offsets.induct) (subst tag_offsets.simps, auto simp: Let_def)

lemma padr_cookie:
  "ft_cookie (fold (padr_tag cfg m) offs x) = Some c \<Longrightarrow> ft_cookie x = Some c \<or> c \<in> set offs \<and> rd16 m c = TAG_AC_COOKIE"
  by (induction offs arbitrary: x)
    (fastforce simp: padr_tag_def Let_def pppoe_tags split: if_splits)+

text \<open>
  C30: a PADR is given a session only when one of its tags is the cookie that the server offers to the
  address the PADR came from: any PADO to that address carries exactly this tag.
\<close>

theorem padr_needs_cookie:
  assumes "pppoe_recv_PADR m g = Ret g'" and "g_session g' \<noteq> g_session g" and "h_dest m = cf_pppoe_hwaddr (g_cfg g)"
    and "h_source m' = h_source m"
  shows "\<exists>offs c. tag_offsets False m (unat (rd16 m 18)) 0 = Some offs \<and> c \<in> set offs \<and> rd16 m c = TAG_AC_COOKIE \<and>
    (\<forall>hu rl sv. \<exists>before after.
       pado_tags m' hu rl sv g = before @ add_tag TAG_AC_COOKIE (tag_data m c) @ after)"
proof -
  obtain offs where offs: "tag_offsets False m (unat (rd16 m 18)) 0 = Some offs" using tag_offsets_unchecked by blast
  let ?x = "fold (padr_tag (g_cfg g) m) offs no_tags"
  have "g_session g' = g_session g" if "pppoe_disc_send d code sid tags g = Ret g'" for d code sid tags
    using that by (auto simp: pppoe_disc_send_def out_def split: if_splits)
  with assms(1,2) offs obtain c where c: "ft_cookie ?x = Some c" and len: "tag_len m c = 16"
      and data: "tag_data m c = pppoe_gen_cookie (h_dest m) (h_source m) g"
    by (auto simp: pppoe_recv_PADR_def pppoe_send_err_def Let_def split: if_splits option.splits)
  have "c \<in> set offs" "rd16 m c = TAG_AC_COOKIE" using padr_cookie [OF c] by (auto simp: no_tags_def)
  moreover have "\<exists>before after. pado_tags m' hu rl sv g = before @ add_tag TAG_AC_COOKIE (tag_data m c) @ after" for hu rl sv
    unfolding pado_tags_def data assms(3,4)
    by (rule exI [of _ "ac_name_tag g @ add_opt_tag m' sv"], rule exI [of _ "add_opt_tag m' hu @ add_opt_tag m' rl"]) simp
  ultimately show ?thesis using offs by blast
qed

text \<open>A request from 02:00:00:00:00:09 with an empty service name and the cookie.\<close>

definition padr_head :: bytes where
  "padr_head = [1, 2, 3, 4, 5, 6, 2, 0, 0, 0, 0, 9, 0x88, 0x63, 0x11, 0x19, 0, 0, 0, 24, 1, 1, 0, 0, 1, 4, 0, 16]"

definition sample_padr :: "bytes \<Rightarrow> mem" where
  "sample_padr cookie = bytes_mem (padr_head @ cookie)"

definition sample_server :: "l2tpns \<Rightarrow> l2tpns" where
  "sample_server g =
     upd_cfg (\<lambda>c. c\<lparr>cf_l2tp_secret := [], cf_pppoe_hwaddr := [1, 2, 3, 4, 5, 6], cf_pppoe_ac_name := [], cf_pppoe_service_name := []\<rparr>)
       (upd_session 7 (\<lambda>_. session_zero) (g\<lparr>g_sessionfree := 7\<rparr>))"

lemma sample_padr_bytes:
  "sample_padr c 20 = 1" "sample_padr c 21 = 1" "sample_padr c 22 = 0" "sample_padr c 23 = 0" "sample_padr c 24 = 1"
  "sample_padr c 25 = 4" "sample_padr c 26 = 0" "sample_padr c 27 = 16" "sample_padr c 16 = 0" "sample_padr c 17 = 0"
  "sample_padr c 18 = 0" "sample_padr c 19 = 24"
  by (simp_all add: sample_padr_def padr_head_def bytes_mem_def)

lemma sample_padr_hw: "h_dest (sample_padr c) = [1, 2, 3, 4, 5, 6]" "h_source (sample_padr c) = [2, 0, 0, 0, 0, 9]"
  by (simp_all add: h_dest_def h_source_def sample_padr_def padr_head_def bytes_mem_def upt_rec)

lemma sample_padr_tags: "tag_offsets False (sample_padr c) 24 0 = Some [20, 24]"
  by (simp add: tag_offsets.simps Let_def tag_len_def rd16_def sample_padr_bytes)

lemma bytes_mem_append: "map (bytes_mem (xs @ ys)) [length xs..<length xs + length ys] = ys"
  by (rule nth_equalityI) (simp_all add: bytes_mem_def)

lemma sample_padr_cookie: "length c = 16 \<Longrightarrow> tag_data (sample_padr c) 24 = c"
proof -
  assume c: "length c = 16"
  have "tag_len (sample_padr c) 24 = 16" "length padr_head = 28"
    by (simp_all add: tag_len_def rd16_def sample_padr_bytes padr_head_def)
  then show ?thesis using bytes_mem_append [of padr_head c] c unfolding tag_data_def sample_padr_def by simp
qed

lemma sample_padr_found:
  "cf_pppoe_service_name cfg = [] \<Longrightarrow>
   fold (padr_tag cfg (sample_padr c)) [20, 24] no_tags =
     \<lparr>ft_host_uniq = None, ft_relay = None, ft_service = Some 20, ft_cookie = Some 24, ft_match = True\<rparr>"
  by (simp add: padr_tag_def Let_def no_tags_def rd16_def sample_padr_bytes pppoe_tags tag_len_def)

lemma sample_padr_accepted:
  fixes g :: l2tpns
  defines "g1 \<equiv> sample_server g"
  defines "m \<equiv> sample_padr (pppoe_gen_cookie [1, 2, 3, 4, 5, 6] [2, 0, 0, 0, 0, 9] g1)"
  shows "\<exists>g'. pppoe_recv_PADR m g1 = Ret g' \<and> g_session g' \<noteq> g_session g1"
proof -
  let ?c = "pppoe_gen_cookie [1, 2, 3, 4, 5, 6] [2, 0, 0, 0, 0, 9] g1"
  have len: "length ?c = 16" unfolding pppoe_gen_cookie_def by (rule length_md5) (simp add: g1_def sample_server_def upd_cfg_def)
  have svc: "cf_pppoe_service_name (g_cfg g1) = []" by (simp add: g1_def sample_server_def upd_cfg_def)
  obtain g2 s where new: "pppoe_new_session m g1 = (g2, s)" by fastforce
  have s: "s = 7" and name: "cf_pppoe_ac_name (g_cfg g2) = []" and p: "ppp_of 7 g2 = ppp_zero\<lparr>phase := Establish, lcp := Starting\<rparr>"
    using new by (auto simp: pppoe_new_session_def take_session_def Let_def g1_def sample_server_def upd_cfg_def
        upd_session_def upd_local_def ppp_of_def session_zero_def)
  obtain g3 where sent: "pppoe_send_PADS (of_nat s) m None None (Some 20) g2 = Ret g3" and same: "ppp_of 7 g3 = ppp_of 7 g2"
    by (simp add: pppoe_send_PADS_def pppoe_disc_send_def ac_name_tag_def name add_opt_tag_def add_tag_def add_tag2_def
        tag_len_def rd16_def m_def sample_padr_bytes ETHER_MAX_LEN_def out_def ppp_of_def)
  let ?g' = "change_state s FLcp RequestSent (sendlcp s (s_tunnel (g_session g3 s)) g3)"
  have "[1, 2, 3, 4, 5, 6] \<noteq> bc_addr" 
    by (rule notI, drule arg_cong [of _ _ hd]) (simp add: bc_addr_def)
  then have "pppoe_recv_PADR m g1 = Ret ?g'"
    using len new sent svc
    by (simp add: pppoe_recv_PADR_def m_def sample_padr_hw rd16_def sample_padr_bytes sample_padr_tags
        sample_padr_found sample_padr_cookie tag_len_def Let_def del: fold.simps fold_simps)
  moreover have "ppp_of 7 ?g' \<noteq> ppp_of 7 g1"
    by (simp add: s ppp_frame same p) (simp add: g1_def sample_server_def upd_cfg_def upd_session_def ppp_of_def session_zero_def ppp_zero_def)
  ultimately show ?thesis unfolding ppp_of_def by metis
qed

lemma padr_needs_cookie_witness:
  "\<forall>g. let g1 = sample_server g; m = sample_padr (pppoe_gen_cookie [1, 2, 3, 4, 5, 6] [2, 0, 0, 0, 0, 9] g1)
       in \<exists>g' before after. pppoe_recv_PADR m g1 = Ret g' \<and>
            pado_tags m None None None g1 = before @ add_tag TAG_AC_COOKIE (tag_data m 24) @ after"
proof
  fix g :: l2tpns
  let ?g = "sample_server g" let ?m = "sample_padr (pppoe_gen_cookie [1, 2, 3, 4, 5, 6] [2, 0, 0, 0, 0, 9] ?g)"
  obtain g' where r: "pppoe_recv_PADR ?m ?g = Ret g'" "g_session g' \<noteq> g_session ?g" using sample_padr_accepted by blast
  have hw: "h_dest ?m = cf_pppoe_hwaddr (g_cfg ?g)" by (simp add: sample_padr_hw sample_server_def upd_cfg_def)
  have len: "unat (rd16 ?m 18) = 24" by (simp add: rd16_def sample_padr_bytes)
  have no: "rd16 ?m 20 \<noteq> TAG_AC_COOKIE" by (simp add: rd16_def sample_padr_bytes pppoe_tags)
  from padr_needs_cookie [OF r hw refl] no
  have "\<exists>before after. pado_tags ?m None None None ?g = before @ add_tag TAG_AC_COOKIE (tag_data ?m 24) @ after"
    unfolding len sample_padr_tags by (metis (no_types, lifting) list.set(1) list.set(2) empty_iff insert_iff option.inject)
  with r(1) show "let g1 = ?g; m = sample_padr (pppoe_gen_cookie [1, 2, 3, 4, 5, 6] [2, 0, 0, 0, 0, 9] g1)
       in \<exists>g' before after. pppoe_recv_PADR m g1 = Ret g' \<and>
            pado_tags m None None None g1 = before @ add_tag TAG_AC_COOKIE (tag_data m 24) @ after"
    unfolding Let_def by blast
qed

end
