(* ===== verification/PppAuth.thy ===== *)
theory PppAuth
  imports Pppoe
begin

text \<open>
  Authentication by PAP and CHAP (\<open>processpap\<close>, \<open>processchap\<close> of \<^verbatim>\<open>src/ppp.c\<close>) and the bundles of multilink
  sessions (\<open>join_bundle\<close>). A C string in a packet ends at its first zero byte. The plugins that look at a
  login are the field \<open>cf_plugin_pre_auth\<close>: None when one of them stops it.
\<close>

definition TERM_SERVICE_UNAVAILABLE :: nat where "TERM_SERVICE_UNAVAILABLE = 15"

definition cstr :: "bytes \<Rightarrow> bytes" where
  "cstr = takeWhile (\<lambda>b. b \<noteq> 0)"

definition str_of :: "bytes \<Rightarrow> string" where
  "str_of = map (\<lambda>b. char_of (unat b))"

subsection \<open>Bundles\<close>

definition epdiscmp :: "epdist \<Rightarrow> epdist \<Rightarrow> bool" where
  "epdiscmp e1 e2 \<longleftrightarrow>
     ep_length e1 = ep_length e2 \<and> ep_class e1 = ep_class e2 \<and>
     (\<forall>a < unat (ep_length e1). ep_address e1 a = ep_address e2 a)"

definition setepdis :: "epdist \<Rightarrow> epdist \<Rightarrow> epdist" where
  "setepdis e1 e2 = e1\<lparr>ep_length := ep_length e2, ep_class := ep_class e2,
     ep_address := (\<lambda>a. if a < unat (ep_length e2) then ep_address e2 a else ep_address e1 a)\<rparr>"

definition same_bundle :: "sessiont \<Rightarrow> bundlet \<Rightarrow> bool" where
  "same_bundle x b \<longleftrightarrow> b_state b \<noteq> BUNDLEFREE \<and> epdiscmp (s_epdis x) (b_epdis b) \<and> s_user x = b_user b"

definition first_session_in_bundle :: "sessionidt \<Rightarrow> l2tpns \<Rightarrow> bool" where
  "first_session_in_bundle s g = (\<forall>i \<in> {1..<MAXBUNDLE}. \<not> same_bundle (g_session g s) (g_bundle g i))"

text \<open>The member that is used next is set to -1, which is 65535 in its type.\<close>

definition new_bundle :: "l2tpns \<Rightarrow> l2tpns \<times> bundleidt" where
  "new_bundle g =
     (case find (\<lambda>i. b_state (g_bundle g i) = BUNDLEFREE) [1..<MAXBUNDLE] of
        None \<Rightarrow> (g, 0)
      | Some i \<Rightarrow>
          (upd_cfg (\<lambda>c. c\<lparr>cf_cluster_highest_bundleid := max (cf_cluster_highest_bundleid c) i\<rparr>)
             (upd_bundle i (\<lambda>b. b\<lparr>b_num_of_links := 1, b_last_check := word_of_int (g_time_now g), b_state := BUNDLEOPEN,
                b_current_ses := 65535\<rparr>) (g\<lparr>g_frag := (g_frag g)(i := frag_zero)\<rparr>)), i))"

definition store_epdis :: "sessiont \<Rightarrow> bundlet \<Rightarrow> bundlet" where
  "store_epdis x b = (if ep_length (s_epdis x) > 0 then b\<lparr>b_epdis := setepdis (b_epdis b) (s_epdis x)\<rparr> else b)"

text \<open>
  \<open>join_bundle\<close>: -1 when the sequence numbers differ, 0 when there is no bundle left. A bundle with
  \<open>MAXBUNDLESES\<close> members is not full for the code: the next one is written past the array.
\<close>

definition join_bundle :: "sessionidt \<Rightarrow> l2tpns \<Rightarrow> (l2tpns \<times> int) outcome" where
  "join_bundle s g =
     (let x = g_session g s in
      case find (\<lambda>i. same_bundle x (g_bundle g i)) [1..<MAXBUNDLE] of
        Some i \<Rightarrow>
          let b = g_bundle g i; first = g_session g (b_members b 0) in
          if b_mssf b \<noteq> s_mssf x then Ret (g, -1)
          else if b_num_of_links b \<ge> MAXBUNDLESES then Undef
          else
            let g1 = upd_session s (\<lambda>x. x\<lparr>s_bundle := i, s_ip := s_ip first, s_dns1 := s_dns1 first,
                       s_dns2 := s_dns2 first, s_timeout := s_timeout first\<rparr>) g
            in Ret (upd_bundle i (\<lambda>b. (store_epdis x b)\<lparr>b_user := s_user x,
                      b_members := (b_members b)(b_num_of_links b := s), b_num_of_links := b_num_of_links b + 1\<rparr>) g1, int i)
      | None \<Rightarrow>
          let (g1, i) = new_bundle g in
          if i = 0 then Ret (g1, 0)
          else
            let g2 = upd_session s (\<lambda>x. x\<lparr>s_bundle := i\<rparr>) g1
            in Ret (upd_bundle i (\<lambda>b. (store_epdis x b)\<lparr>b_mrru := s_mrru x, b_mssf := s_mssf x, b_max_seq := 2 ^ 24,
                      b_user := s_user x, b_members := (b_members b)(0 := s), b_timeout := s_timeout x\<rparr>) g2, int i))"

subsection \<open>PAP\<close>

text \<open>
  A string with a length byte at \<open>off\<close>; the length is compared with the buffer it is copied to, not with
  the packet.
\<close>

definition pap_string :: "mem \<Rightarrow> nat \<Rightarrow> bytes option" where
  "pap_string m off =
     (if m off \<noteq> 0 \<and> unat (m off) < 128 then Some (map m [off + 1..<off + 1 + unat (m off)]) else None)"

definition pap_login :: "mem \<Rightarrow> bytes \<times> bytes" where
  "pap_login m =
     (case pap_string m 4 of
        None \<Rightarrow> ([], [])
      | Some user \<Rightarrow>
          (cstr user, case pap_string m (5 + length user) of None \<Rightarrow> [] | Some pass \<Rightarrow> cstr pass))"

definition send_pap_reply :: "u8 \<Rightarrow> sessionidt \<Rightarrow> tunnelidt \<Rightarrow> mem \<Rightarrow> l2tpns \<Rightarrow> l2tpns option" where
  "send_pap_reply code s t m g =
     (case ppp_hdr MAXETHER 0 s t PPPPAP g of
        None \<Rightarrow> None
      | Some hdr \<Rightarrow> Some (g_tunnelsend (hdr @ [code, m 1] @ be16 5 @ [0]) t g))"

text \<open>The request goes to RADIUS; for a link that joins a bundle it only asks for the authentication.\<close>

definition send_login :: "nat \<Rightarrow> sessionidt \<Rightarrow> l2tpns \<Rightarrow> l2tpns" where
  "send_login r s g =
     radius_send r (if s_mrru (g_session g s) \<noteq> 0 \<and> \<not> first_session_in_bundle s g then RADIUSJUSTAUTH else RADIUSAUTH) g"

definition shutdown_user :: "sessionidt \<Rightarrow> string \<Rightarrow> l2tpns \<Rightarrow> l2tpns" where
  "shutdown_user s reason g = sessionshutdown s reason 3 0 TERM_USER_ERROR g"

definition processpap :: "sessionidt \<Rightarrow> tunnelidt \<Rightarrow> mem \<Rightarrow> nat \<Rightarrow> l2tpns \<Rightarrow> l2tpns" where
  "processpap s t m l g =
     (if l < 4 then shutdown_user s ''Short PAP packet.'' g
      else if unat (rd16 m 2) > l then shutdown_user s ''PAP length mismatch.'' g
      else if m 0 \<noteq> 1 then shutdown_user s ''Unexpected PAP code.'' g
      else if phase (s_ppp (g_session g s)) \<noteq> Authenticate then g
      else
        let (user, pass) = pap_login m;
            (g1, started) = (if cf_disable_lac_func (g_cfg g) then (g, False)
                             else lac_conf_forwardtoremotelns s (str_of user) g)
        in if started then g1
           else if s_ip (g_session g1 s) \<noteq> 0 then
             (case send_pap_reply 2 s t m g1 of None \<Rightarrow> g1 | Some g2 \<Rightarrow> g2)
           else
             let (g2, r) = radiusnew s g1 in
             if r = 0 then
               (case send_pap_reply 3 s t m g2 of
                  None \<Rightarrow> g2
                | Some g3 \<Rightarrow> sessionshutdown s ''No free RADIUS sessions.'' 4 0 TERM_SERVICE_UNAVAILABLE g3)
             else
               (case cf_plugin_pre_auth (g_cfg g2) (g_session g2 s) user pass (unat PPPPAP) of
                  None \<Rightarrow> g2
                | Some (user, pass) \<Rightarrow>
                    send_login r s
                      (upd_radius r (\<lambda>x. x\<lparr>rd_pass := take 127 pass, rd_id := m 1\<rparr>)
                        (upd_session s (\<lambda>x. x\<lparr>s_user := str_of (take 127 user)\<rparr>) g2))))"

subsection \<open>CHAP\<close>

definition processchap :: "sessionidt \<Rightarrow> tunnelidt \<Rightarrow> mem \<Rightarrow> nat \<Rightarrow> l2tpns \<Rightarrow> l2tpns" where
  "processchap s t m l g =
     (let hl = unat (rd16 m 2) in
      if l < 4 then shutdown_user s ''Short CHAP packet.'' g
      else if hl > l then shutdown_user s ''CHAP length mismatch.'' g
      else if m 0 \<noteq> 2 then shutdown_user s ''CHAP length mismatch.'' g
      else if phase (s_ppp (g_session g s)) \<noteq> Authenticate then g
      else
        let r = l_radius (g_local g s) in
        if r = 0 then
          (if l_lcp_authtype (g_local g s) = AUTHPAP \<and> cf_radius_authtypes (g_cfg g) AND AUTHCHAP \<noteq> 0
           then sendchap s t (upd_local s (\<lambda>x. x\<lparr>l_lcp_authtype := AUTHCHAP\<rparr>) g)
           else g)
        else if m 1 \<noteq> rd_id (g_radius g r) then shutdown_user s ''Unexpected CHAP response ID.'' g
        else if hl < 5 \<or> m 4 \<noteq> 16 then shutdown_user s ''Bad CHAP response length.'' g
        else if hl < 21 \<or> hl - 21 \<ge> 128 then shutdown_user s ''CHAP username too long.'' g
        else
          let pass = map m [5..<21]; user = cstr (map m [21..<hl]);
              (g1, started) = (if cf_disable_lac_func (g_cfg g) then (g, False)
                               else lac_conf_forwardtoremotelns s (str_of user) g)
          in if started then g1
             else
               (case cf_plugin_pre_auth (g_cfg g1) (g_session g1 s) user pass (unat PPPCHAP) of
                  None \<Rightarrow> g1
                | Some (user, pass) \<Rightarrow>
                    send_login r s
                      (upd_radius r (\<lambda>x. x\<lparr>rd_pass := take 16 (pass @ replicate 16 0) @ drop 16 (rd_pass x), rd_chap := 1\<rparr>)
                        (upd_session s (\<lambda>x. x\<lparr>s_user := str_of (take 127 user)\<rparr>) g1))))"

end
