(* ===== verification/Data.thy ===== *)
theory Data
  imports PppAuth Free
begin

text \<open>
  Data packets (\<^verbatim>\<open>src/ppp.c\<close>, \<^verbatim>\<open>src/l2tpns.c\<close>): from a session to the tun device (\<open>processipin\<close>,
  \<open>processipv6in\<close>), from the device to a session (\<open>processipout\<close>, \<open>processipv6out\<close>) with the fragments of a
  multilink bundle, and the packets that a token bucket releases. A packet is the memory from its first
  byte on with its length; \<open>tun\<close> tells whether a write to the device succeeds. The packets of DHCPv6 are
  handed on as an event.
\<close>

definition PKTIP :: u16 where "PKTIP = 0x0800"
definition PKTIPV6 :: u16 where "PKTIPV6 = 0x86DD"
definition MIN_IP_SIZE :: nat where "MIN_IP_SIZE = 25"
definition MINFRAGLEN :: nat where "MINFRAGLEN = 64"
definition MAXFRAGNUM :: nat where "MAXFRAGNUM = 512"
definition MP_BEGIN :: u8 where "MP_BEGIN = 0x80"
definition MP_END :: u8 where "MP_END = 0x40"
definition MP_BOTH_BITS :: u8 where "MP_BOTH_BITS = 0xC0"

subsection \<open>Counters and interception\<close>

definition payload :: "mem \<Rightarrow> nat \<Rightarrow> bytes" where
  "payload m l = map m [0..<l]"

text \<open>A packet to the tun device has a header of four bytes with its type.\<close>

definition tun_frame :: "u16 \<Rightarrow> mem \<Rightarrow> nat \<Rightarrow> bytes" where
  "tun_frame ty m l = be32 (ucast ty) @ payload m l"

definition snoop :: "sessionidt \<Rightarrow> mem \<Rightarrow> nat \<Rightarrow> l2tpns \<Rightarrow> l2tpns" where
  "snoop s m l g =
     (let x = g_session g s in
      if s_snoop_ip x \<noteq> 0 \<and> s_snoop_port x \<noteq> 0 \<and> l mod 65536 \<noteq> 0
      then out (SnoopTx (s_snoop_ip x) (s_snoop_port x) (payload m (l mod 65536))) g else g)"

definition count_free_in :: "sessionidt \<Rightarrow> mem \<Rightarrow> nat \<Rightarrow> l2tpns \<Rightarrow> l2tpns" where
  "count_free_in s m l g =
     (if free_traffic (s_free_traffic (g_session g s)) m l g
      then upd_local s (\<lambda>x. x\<lparr>l_fcin := l_fcin x + of_nat l\<rparr>)
             (upd_session s (\<lambda>x.
                let (c, w) = increment_counter (s_fcin x) (s_fcin_wrap x) (of_nat l)
                in x\<lparr>s_fcin := c, s_fcin_wrap := w, s_fcin_delta := s_fcin_delta x + of_nat l\<rparr>) g)
      else g)"

definition count_free_out :: "sessionidt \<Rightarrow> mem \<Rightarrow> nat \<Rightarrow> l2tpns \<Rightarrow> l2tpns" where
  "count_free_out s m l g =
     (if free_traffic (s_free_traffic (g_session g s)) m l g
      then upd_local s (\<lambda>x. x\<lparr>l_fcout := l_fcout x + of_nat l\<rparr>)
             (upd_session s (\<lambda>x.
                let (c, w) = increment_counter (s_fcout x) (s_fcout_wrap x) (of_nat l)
                in x\<lparr>s_fcout := c, s_fcout_wrap := w, s_fcout_delta := s_fcout_delta x + of_nat l\<rparr>) g)
      else g)"

text \<open>The fragments between two indices of the ring.\<close>

definition ring_indices :: "nat \<Rightarrow> nat \<Rightarrow> nat list" where
  "ring_indices i j = map (\<lambda>k. (i + k) mod MAXFRAGNUM) [0..<(j + MAXFRAGNUM - i) mod MAXFRAGNUM + 1]"

definition update_sessions_in_stat :: "sessionidt \<Rightarrow> nat \<Rightarrow> mem \<Rightarrow> l2tpns \<Rightarrow> l2tpns" where
  "update_sessions_in_stat s l m g =
     (let b = s_bundle (g_session g s); fr = g_frag g b in
      if b = 0 then count_bytes_in s (of_nat l) (count_free_in s m l g)
      else
        fold (\<lambda>i g. let f = fr_fragment fr i; n = length (fg_data f)
                     in count_bytes_in (fg_sid f) (of_nat n) (count_free_in (fg_sid f) m n g))
          (ring_indices (fr_begin_index fr) (fr_end_index fr)) g)"

definition update_session_out_stat :: "sessionidt \<Rightarrow> nat \<Rightarrow> l2tpns \<Rightarrow> l2tpns" where
  "update_session_out_stat s l g =
     count_bytes_out s (of_nat l) (upd_session s (\<lambda>x. x\<lparr>s_last_data := g_time_now g\<rparr>) g)"

text \<open>The counting at the end of \<open>processipout\<close>, which leaves out the counters for the master.\<close>

definition count_session_out :: "sessionidt \<Rightarrow> nat \<Rightarrow> l2tpns \<Rightarrow> l2tpns" where
  "count_session_out s l g =
     upd_session s (\<lambda>x.
       let (c, w) = increment_counter (s_cout x) (s_cout_wrap x) (of_nat l)
       in x\<lparr>s_cout := c, s_cout_wrap := w, s_cout_delta := s_cout_delta x + of_nat l, s_pout := s_pout x + 1\<rparr>) g"

subsection \<open>Token buckets\<close>

definition send_ipin :: "bool \<Rightarrow> sessionidt \<Rightarrow> bytes \<Rightarrow> l2tpns \<Rightarrow> l2tpns" where
  "send_ipin tun s buf g =
     (if \<not> tun then g
      else
        let m = bytes_mem (drop 4 buf); l = length buf - 4
        in count_bytes_in s (of_nat l) (snoop s m l (out (TunTx buf) g)))"

definition send_ipout :: "sessionidt \<Rightarrow> bytes \<Rightarrow> l2tpns \<Rightarrow> l2tpns" where
  "send_ipout s buf g =
     (if length buf > MAXETHER then g
      else if s_ip (g_session g s) = 0 then g
      else
        let data = drop 4 buf; l = length data; m = bytes_mem data; t = s_tunnel (g_session g s);
            proto = (if take 2 (drop 2 buf) = be16 PKTIPV6 then PPPIPV6 else PPPIP)
        in case fst (makeppp (MAXETHER + 20) l s t proto False 0 0 g) of
             None \<Rightarrow> g
           | Some hdr \<Rightarrow>
               let g1 = count_session_out s l (count_free_out s m l (snoop s m l (g_tunnelsend (hdr @ data) t g)))
               in upd_local s (\<lambda>x. x\<lparr>l_cout := l_cout x + of_nat l, l_pout := l_pout x + 1\<rparr>) g1)"

text \<open>A packet given to a bucket; what the bucket sends goes through its callback.\<close>

fun run_send :: "bool \<Rightarrow> (nat \<times> tbf_send \<times> sessionidt \<times> bytes) list \<Rightarrow> l2tpns \<Rightarrow> l2tpns" where
  "run_send tun [] g = g"
| "run_send tun ((i, SendIpin, s, buf) # rest) g = run_send tun rest (send_ipin tun s buf g)"
| "run_send tun ((i, SendIpout, s, buf) # rest) g = run_send tun rest (send_ipout s buf g)"

definition queue_packet :: "bool \<Rightarrow> nat \<Rightarrow> bytes \<Rightarrow> l2tpns \<Rightarrow> l2tpns outcome" where
  "queue_packet tun i data g =
     obind (tbf_queue_packet (g_TIME g) (int i) data (g_tbf g))
       (\<lambda>(st, n). Ret (run_send tun (drop (length (tb_sent (g_tbf g))) (tb_sent st)) (g\<lparr>g_tbf := st\<rparr>)))"

definition throttle_packet :: "bool \<Rightarrow> nat \<Rightarrow> bytes \<Rightarrow> l2tpns \<Rightarrow> l2tpns outcome" where
  "throttle_packet tun i data g =
     (if cf_cluster_iam_master (g_cfg g) then queue_packet tun i data g
      else Ret (master_throttle_packet (of_nat i) data g))"

subsection \<open>From a session\<close>

definition no_ports :: "mem \<Rightarrow> bool" where
  "no_ports m \<longleftrightarrow> rd16 m 6 AND 0x1fff \<noteq> 0"

text \<open>SYN packets with options.\<close>

definition clamp_mss :: "mem \<Rightarrow> nat \<Rightarrow> l2tpns \<Rightarrow> mem" where
  "clamp_mss m l g =
     (let ihl = unat (m 0 AND 0xf) * 4 in
      if \<not> no_ports m \<and> m 9 = IPPROTO_TCP \<and> l \<ge> ihl + 20 \<and> m (ihl + 13) AND TCP_FLAG_SYN \<noteq> 0 \<and>
         drop_bit 4 (m (ihl + 12)) > 5
      then adjust_tcp_mss (g_MSS g) l ihl m else m)"

definition run_filter :: "nat \<Rightarrow> mem \<Rightarrow> nat \<Rightarrow> l2tpns \<Rightarrow> (l2tpns \<times> bool) outcome" where
  "run_filter f m l g =
     (if f = 0 then Ret (g, True)
      else obind (ip_filter (payload m l) (f - 1) (g_filters g)) (\<lambda>(ok, fs). Ret (g\<lparr>g_filters := fs\<rparr>, ok)))"

definition to_tun :: "bool \<Rightarrow> sessionidt \<Rightarrow> u16 \<Rightarrow> mem \<Rightarrow> nat \<Rightarrow> l2tpns \<Rightarrow> l2tpns" where
  "to_tun tun s ty m l g =
     (if tun then update_sessions_in_stat s l m (snoop s m l (out (TunTx (tun_frame ty m l)) g)) else g)"

definition single_link :: "sessionidt \<Rightarrow> l2tpns \<Rightarrow> bool" where
  "single_link s g \<longleftrightarrow> s_bundle (g_session g s) = 0 \<or> b_num_of_links (g_bundle g (s_bundle (g_session g s))) < 2"

definition spoofed :: "sessionidt \<Rightarrow> in_addr \<Rightarrow> l2tpns \<Rightarrow> bool" where
  "spoofed s ip g \<longleftrightarrow>
     single_link s g \<and> \<not> cf_disable_no_spoof (g_cfg g) \<and> ip \<noteq> s_ip (g_session g s) \<and> sessionbyip ip g \<noteq> s"

definition processipin :: "bool \<Rightarrow> sessionidt \<Rightarrow> tunnelidt \<Rightarrow> mem \<Rightarrow> nat \<Rightarrow> l2tpns \<Rightarrow> l2tpns outcome" where
  "processipin tun s t m l g =
     (let x = g_session g s in
      if l < 20 \<or> l > MAXETHER then Ret g
      else if phase (s_ppp x) \<noteq> Network \<or> ipcp (s_ppp x) \<noteq> Opened then Ret g
      else if spoofed s (rd32 m 12) g then Ret g
      else obind (run_filter (s_filter_in x) m l g) (\<lambda>(g1, ok).
        if \<not> ok then Ret g1
        else
          let m1 = clamp_mss m l g1 in
          if s_tbf_in x \<noteq> 0 \<and> (\<not> cf_no_throttle_local_IP (g_cfg g1) \<or> sessionbyip (rd32 m 16) g1 = 0)
          then throttle_packet tun (s_tbf_in x) (tun_frame PKTIP m1 l) g1
          else Ret (to_tun tun s PKTIP m1 l g1)))"

definition in6_of :: "mem \<Rightarrow> nat \<Rightarrow> in6_addr" where
  "in6_of m off = foldl (\<lambda>a b. push_bit 8 a OR ucast b) 0 (map m [off..<off + 16])"

definition spoofed6 :: "sessionidt \<Rightarrow> mem \<Rightarrow> l2tpns \<Rightarrow> bool" where
  "spoofed6 s m g =
     (let ip = in6_of m 8; x = g_session g s in
      if s6_addr (s_ipv6address x) 0 \<noteq> 0
      then sessionbyipv6new ip g \<noteq> s \<and> map m [8..<16] \<noteq> [0xFE, 0x80, 0, 0, 0, 0, 0, 0]
      else (rd32 m 16 \<noteq> s_ip x \<or> take 8 (in6_bytes (cf_ipv6_prefix (g_cfg g))) \<noteq> map m [8..<16]) \<and> sessionbyipv6 ip g \<noteq> s)"

definition is_router_solicitation :: "mem \<Rightarrow> bool" where
  "is_router_solicitation m \<longleftrightarrow>
     m 6 = 58 \<and> m 7 = 255 \<and> map m [24..<40] = [0xFF, 2] @ replicate 13 0 @ [2] \<and> m 40 = 133"

definition is_dhcpv6 :: "mem \<Rightarrow> bool" where
  "is_dhcpv6 m \<longleftrightarrow>
     m 6 = 17 \<and> map m [24..<40] = [0xFF, 2] @ replicate 11 0 @ [1, 0, 2] \<and> map m [40..<44] = [2, 0x22, 2, 0x23]"

definition processipv6in :: "bool \<Rightarrow> sessionidt \<Rightarrow> tunnelidt \<Rightarrow> mem \<Rightarrow> nat \<Rightarrow> l2tpns \<Rightarrow> l2tpns outcome" where
  "processipv6in tun s t m l g =
     (let x = g_session g s in
      if l > MAXETHER then Ret g
      else if phase (s_ppp x) \<noteq> Network \<or> ipv6cp (s_ppp x) \<noteq> Opened then Ret g
      else if spoofed6 s m g then Ret g
      else if is_router_solicitation m then Ret (send_ipv6_ra s t (Some (map m [8..<24])) g)
      else if is_dhcpv6 m then Ret (out (Dhcpv6In s t (payload m l)) g)
      else if s_tbf_in x \<noteq> 0 then throttle_packet tun (s_tbf_in x) (tun_frame PKTIPV6 m l) g
      else Ret (to_tun tun s PKTIPV6 m l g))"

text \<open>A frame put together from its fragments, with four bytes in front of it when \<open>extra\<close> is set.\<close>

definition processmpframe :: "bool \<Rightarrow> sessionidt \<Rightarrow> tunnelidt \<Rightarrow> mem \<Rightarrow> nat \<Rightarrow> bool \<Rightarrow> l2tpns \<Rightarrow> l2tpns outcome" where
  "processmpframe tun s t m l extra g =
     (let (m, l) = (if extra then (\<lambda>i. m (i + 4), (l + 65532) mod 65536) else (m, l));
          (proto, m, l) = (if bit (m 0) 0 then (ucast (m 0), \<lambda>i. m (i + 1), (l + 65535) mod 65536)
                           else (rd16 m 0, \<lambda>i. m (i + 2), (l + 65534) mod 65536))
      in if proto = PPPIP then
           if s_die (g_session g s) \<noteq> 0 then Ret g else processipin tun s t m l (touch_data s g)
         else if proto = PPPIPV6 \<and> ipv6_on g then
           if s_die (g_session g s) \<noteq> 0 then Ret g else processipv6in tun s t m l (touch_data s g)
         else if proto = PPPIPCP then processipcp s t m l (touch_data s g)
         else if proto = PPPCCP then processccp s t m l (touch_data s g)
         else Ret g)"

subsection \<open>To a session\<close>

text \<open>
  The limit on the packets of a session within a tenth of a second; the result tells whether the packet
  may pass.
\<close>

definition limit_packets :: "sessionidt \<Rightarrow> l2tpns \<Rightarrow> l2tpns \<times> bool" where
  "limit_packets s g =
     (let cfg = g_cfg g; x = g_session g s; y = g_local g s in
      if cf_max_packets cfg \<le> 0 then (g, True)
      else if l_last_packet_out y = g_TIME g then
        let throttle = int (unat (s_throttle_out x));
            lim = (if \<not> cf_cluster_iam_master cfg \<and> throttle \<noteq> 0 \<and> throttle < cf_max_packets cfg
                   then throttle else cf_max_packets cfg);
            g1 = upd_local s (\<lambda>y. y\<lparr>l_packets_out := l_packets_out y + 1\<rparr>) g
        in if int (unat (l_packets_out y + 1)) > lim
           then (upd_local s (\<lambda>y. y\<lparr>l_packets_dropped := l_packets_dropped y + 1\<rparr>) g1, False)
           else (g1, True)
      else (upd_local s (\<lambda>y. y\<lparr>l_last_packet_out := g_TIME g, l_packets_out := 1, l_packets_dropped := 0\<rparr>) g, True))"

text \<open>Nobody has the address: at most \<open>icmp_rate\<close> errors in a second.\<close>

definition unreachable :: "mem \<Rightarrow> nat \<Rightarrow> l2tpns \<Rightarrow> l2tpns" where
  "unreachable m l g =
     (let g1 = (if g_icmp_last g \<noteq> g_time_now g then g\<lparr>g_icmp_last := g_time_now g, g_icmp_rate := 0\<rparr> else g);
          cfg = g_cfg g; src = (if cf_bind_address cfg \<noteq> 0 then cf_bind_address cfg else cf_my_address cfg);
          g2 = g1\<lparr>g_icmp_rate := g_icmp_rate g1 + 1\<rparr>
      in if g_icmp_rate g1 < cf_icmp_rate cfg
         then out (IcmpTx (rd32 m 12) (host_unreachable (map m [12..<16]) (map m [4, 5]) (le32 src) (payload m l))) g2
         else g2)"

subsection \<open>Fragments\<close>

text \<open>
  How a packet is cut: all fragments but the last have the same length, and the last one carries what is
  left. A fragment is its offset, its length and its bits. The loop of the code ends because a packet that is
  cut is longer than its number of links; the model stops at a fragment length of zero.
\<close>

function middle_frags :: "nat \<Rightarrow> nat \<Rightarrow> nat \<Rightarrow> nat \<Rightarrow> (nat \<times> nat \<times> u8) list" where
  "middle_frags fraglen last_fraglen len remain =
     (if remain > last_fraglen \<and> fraglen > 0
      then (len - remain, fraglen, 0) # middle_frags fraglen last_fraglen len (remain - fraglen)
      else [(len - remain, remain, MP_END)])"
  by pat_completeness auto
termination
  by (relation "measure (\<lambda>(fraglen, last_fraglen, len, remain). remain)") auto

declare middle_frags.simps [simp del]

definition frag_plan :: "nat \<Rightarrow> nat \<Rightarrow> (nat \<times> nat \<times> u8) list" where
  "frag_plan links len =
     (if len > MINFRAGLEN then
        let divisor = (if links > 2 then links div 2 + links mod 2 else links); fraglen = len div divisor;
            last_fraglen = fraglen + len mod divisor
        in (0, fraglen, MP_BEGIN) # middle_frags fraglen last_fraglen len (len - fraglen)
      else [(0, len, MP_BOTH_BITS)])"

text \<open>The next member of a bundle in turn.\<close>

definition next_link :: "bundleidt \<Rightarrow> sessionidt list \<Rightarrow> l2tpns \<Rightarrow> l2tpns \<times> sessionidt" where
  "next_link bid members g =
     (let i = (b_current_ses (g_bundle g bid) + 1) mod length members
      in (upd_bundle bid (\<lambda>b. b\<lparr>b_current_ses := i\<rparr>) g, members ! i))"

definition send_frag :: "bundleidt \<Rightarrow> sessionidt \<Rightarrow> mem \<Rightarrow> nat \<times> nat \<times> u8 \<Rightarrow> l2tpns \<Rightarrow> l2tpns \<times> bool" where
  "send_frag bid s m fr g =
     (let (off, n, bits) = fr; t = s_tunnel (g_session g s) in
      case makeppp (MAXETHER + 20) n s t PPPIP False bid bits g of
        (None, g1) \<Rightarrow> (g1, False)
      | (Some hdr, g1) \<Rightarrow>
          (update_session_out_stat s n (g_tunnelsend (hdr @ map m [off..<off + n]) t g1), True))"

text \<open>
  The fragments go out on the members in turn, the first one on \<open>s\<close>. The result is the member used last,
  None when a fragment did not fit its buffer and the rest was given up.
\<close>

fun send_frags ::
    "bundleidt \<Rightarrow> sessionidt list \<Rightarrow> sessionidt \<Rightarrow> mem \<Rightarrow> (nat \<times> nat \<times> u8) list \<Rightarrow> l2tpns \<Rightarrow> l2tpns \<times> sessionidt option" where
  "send_frags bid members s m [] g = (g, Some s)"
| "send_frags bid members s m (fr # frs) g =
     (let (g1, ok) = send_frag bid s m fr g in
      if \<not> ok then (g1, None)
      else if frs = [] then (g1, Some s)
      else let (g2, s') = next_link bid members g1 in send_frags bid members s' m frs g2)"

definition send_single :: "sessionidt \<Rightarrow> mem \<Rightarrow> nat \<Rightarrow> l2tpns \<Rightarrow> l2tpns" where
  "send_single s m l g =
     (let t = s_tunnel (g_session g s); (hdr, g1) = opt_makeppp l s t PPPIP False 0 0 g
      in update_session_out_stat s l (g_tunnelsend (hdr @ payload m l) t g1))"

definition opened_members :: "bundleidt \<Rightarrow> l2tpns \<Rightarrow> sessionidt list" where
  "opened_members bid g =
     (let b = g_bundle g bid in
      filter (\<lambda>s. lcp (s_ppp (g_session g s)) = Opened) (map (b_members b) [0..<b_num_of_links b]))"

definition send_bundle :: "bundleidt \<Rightarrow> mem \<Rightarrow> nat \<Rightarrow> l2tpns \<Rightarrow> l2tpns \<times> sessionidt option" where
  "send_bundle bid m l g =
     (let members = opened_members bid g in
      if members = [] then (g, None)
      else
        let (g1, s) = next_link bid members g in
        if length members > 1 then send_frags bid members s m (frag_plan (length members) l) g1
        else (send_single s m l g1, Some s))"

subsection \<open>Packets of the tun device\<close>

definition after_send :: "sessionidt \<Rightarrow> mem \<Rightarrow> nat \<Rightarrow> l2tpns \<Rightarrow> l2tpns" where
  "after_send s m l g = count_session_out s l (count_free_out s m l (snoop s m l g))"

definition processipout :: "bool \<Rightarrow> mem \<Rightarrow> nat \<Rightarrow> l2tpns \<Rightarrow> l2tpns outcome" where
  "processipout tun buf len g =
     (let m = (\<lambda>i. buf (i + 4)); l = len - 4; s = sessionbyip (rd32 m 16) g; x = g_session g s;
          bid = s_bundle x
      in if len < MIN_IP_SIZE \<or> len \<ge> MAXETHER then Ret g
         else if drop_bit 4 (m 0) \<noteq> 4 then Ret g
         else if s = 0 then Ret (unreachable m l g)
         else if l > unat (s_mru x) \<or> s_mrru x \<noteq> 0 \<and> l > unat (s_mrru x) then Ret g
         else
           let (g1, pass) = limit_packets s g in
           if \<not> pass then Ret g1
           else obind (run_filter (s_filter_out x) m l g1) (\<lambda>(g2, ok).
             if \<not> ok then Ret g2
             else
               let m1 = clamp_mss m l g2; data = map buf [0..<4] @ payload m1 l in
               if s_tbf_out x \<noteq> 0 \<and> (\<not> cf_no_throttle_local_IP (g_cfg g2) \<or> sessionbyip (rd32 m 12) g2 = 0)
               then throttle_packet tun (s_tbf_out x) data g2
               else if s_walled_garden x \<noteq> 0 \<and> \<not> cf_cluster_iam_master (g_cfg g2)
               then Ret (master_garden_packet s data g2)
               else if bid \<noteq> 0 \<and> b_num_of_links (g_bundle g2 bid) > 1 then
                 if \<not> cf_cluster_iam_master (g_cfg g2) then Ret (master_forward_mppp_packet s data g2)
                 else (case send_bundle bid m1 l g2 of
                         (g3, None) \<Rightarrow> Ret g3
                       | (g3, Some s') \<Rightarrow> Ret (after_send s' m1 l g3))
               else Ret (after_send s m1 l (send_single s m1 l g2))))"

definition processipv6out :: "bool \<Rightarrow> mem \<Rightarrow> nat \<Rightarrow> l2tpns \<Rightarrow> l2tpns outcome" where
  "processipv6out tun buf len g =
     (let m = (\<lambda>i. buf (i + 4)); l = len - 4; ip = in6_of m 24;
          s0 = (if sessionbyipv6 ip g \<noteq> 0 then sessionbyipv6 ip g else sessionbyipv6new ip g)
      in if len < MIN_IP_SIZE \<or> len \<ge> MAXETHER then Ret g
         else if drop_bit 4 (m 0) \<noteq> 6 then Ret g
         else if s0 = 0 then Ret g
         else
           let bid = s_bundle (g_session g s0); b = g_bundle g bid;
               (g1, s) = (if bid \<noteq> 0 \<and> b_num_of_links b > 1
                          then next_link bid (map (b_members b) [0..<b_num_of_links b]) g else (g, s0));
               g2 = upd_session s (\<lambda>x. x\<lparr>s_last_data := g_time_now g1\<rparr>) g1; x = g_session g2 s; t = s_tunnel x;
               data = map buf [0..<len]
           in if s_tbf_out x \<noteq> 0 then throttle_packet tun (s_tbf_out x) data g2
              else if s_walled_garden x \<noteq> 0 \<and> \<not> cf_cluster_iam_master (g_cfg g2)
              then Ret (master_garden_packet s data g2)
              else case fst (makeppp (MAXETHER + 20) l s t PPPIPV6 False 0 0 g2) of
                None \<Rightarrow> Ret g2
              | Some hdr \<Rightarrow>
                  Ret (upd_local s (\<lambda>y. y\<lparr>l_cout := l_cout y + of_nat l, l_pout := l_pout y + 1\<rparr>)
                    (after_send s m l (g_tunnelsend (hdr @ payload m l) t g2))))"

end
