(* ===== verification/Mp.thy ===== *)
theory Mp
  imports Data
begin

text \<open>
  Putting the fragments of a multilink bundle together (\<open>processmpin\<close> of \<^verbatim>\<open>src/ppp.c\<close>). The fragments wait in
  a ring of \<open>MAXFRAGNUM\<close> places; a place is in use when its length is not zero. The sequence numbers have 24
  bits in the packets and are extended to 32.
\<close>

definition MAXFRAGLEN :: nat where "MAXFRAGLEN = 1496"

definition ring_next :: "nat \<Rightarrow> nat" where "ring_next i = (i + 1) mod MAXFRAGNUM"
definition ring_prev :: "nat \<Rightarrow> nat" where "ring_prev i = (i + MAXFRAGNUM - 1) mod MAXFRAGNUM"

definition upd_frag :: "bundleidt \<Rightarrow> (fragmentationt \<Rightarrow> fragmentationt) \<Rightarrow> l2tpns \<Rightarrow> l2tpns" where
  "upd_frag b f g = g\<lparr>g_frag := (g_frag g)(b := f (g_frag g b))\<rparr>"

definition put_fragment :: "nat \<Rightarrow> fragmentt \<Rightarrow> fragmentationt \<Rightarrow> fragmentationt" where
  "put_fragment i x fr = fr\<lparr>fr_fragment := (fr_fragment fr)(i := x)\<rparr>"

text \<open>A fragment that is given up: its length and its flags are zero, its sequence number stays.\<close>

definition lose :: "nat \<Rightarrow> fragmentationt \<Rightarrow> fragmentationt" where
  "lose i fr = put_fragment i ((fr_fragment fr i)\<lparr>fg_data := [], fg_flags := 0\<rparr>) fr"

definition in_use :: "fragmentationt \<Rightarrow> nat \<Rightarrow> bool" where
  "in_use fr i \<longleftrightarrow> fg_data (fr_fragment fr i) \<noteq> []"

definition is_begin :: "fragmentationt \<Rightarrow> nat \<Rightarrow> bool" where
  "is_begin fr i \<longleftrightarrow> bit (fg_flags (fr_fragment fr i)) 7"

definition is_end :: "fragmentationt \<Rightarrow> nat \<Rightarrow> bool" where
  "is_end fr i \<longleftrightarrow> bit (fg_flags (fr_fragment fr i)) 6"

subsection \<open>Sequence numbers\<close>

text \<open>The 24 bits of a packet brought as close as possible to the lowest number \<open>M\<close> expected.\<close>

definition expand_seq :: "u32 \<Rightarrow> u32 \<Rightarrow> u32 \<Rightarrow> u32" where
  "expand_seq max_seq M sq =
     (let m = max_seq - 1; sq1 = sq OR (M AND NOT m) in
      if sint (M - sq1) > sint (drop_bit 1 m) then sq1 + (m + 1)
      else if sint (sq1 - M) > sint (drop_bit 1 m) then sq1 - (m + 1) else sq1)"

definition packet_seq :: "mem \<Rightarrow> u32" where
  "packet_seq m = rd32 m 0 AND 0xFFFFFF"

definition jitter :: "sessionidt \<Rightarrow> l2tpns \<Rightarrow> l2tpns" where
  "jitter s g =
     (let d = ucast (g_time_now_ms g - l_prev_time (g_local g s)) :: u32 in
      if d \<noteq> 0
      then upd_local s (\<lambda>x. x\<lparr>l_jitteravg := drop_bit 1 (l_jitteravg x + d), l_prev_time := g_time_now_ms g\<rparr>) g
      else g)"

text \<open>The lowest of the numbers that the links have received last.\<close>

definition min_seq :: "bundlet \<Rightarrow> l2tpns \<Rightarrow> u32" where
  "min_seq b g =
     fold (\<lambda>i acc. min acc (l_last_seq (g_local g (b_members b i)))) [1..<b_num_of_links b]
       (l_last_seq (g_local g (b_members b 0)))"

definition next_M :: "u32 \<Rightarrow> bundlet \<Rightarrow> fragmentationt \<Rightarrow> l2tpns \<Rightarrow> u32" where
  "next_M sq b fr g = (if sq < fr_M fr then sq else min_seq b g)"

subsection \<open>Finding a frame\<close>

lemma unat_next: "unat (x :: u32) < unat (y :: u32) \<Longrightarrow> unat (x + 1) = unat x + 1"
  using unsigned_less [of y, where ?'a = nat] by (subst unat_add_lem [THEN iffD1]) simp_all

lemma unat_next_grows: "\<not> (x :: u32) + 1 \<le> x \<Longrightarrow> unat (x + 1) = unat x + 1"
  by (rule unat_next [of x "x + 1"]) (simp add: word_le_nat_alt)

text \<open>
  From a fragment that begins a frame to the one that ends it; the walk stops at a hole and at a fragment of
  another round, which is given up. The result tells whether the end was found, and where the walk stopped.
\<close>

function find_end :: "u32 \<Rightarrow> nat \<Rightarrow> u32 \<Rightarrow> fragmentationt \<Rightarrow> bool \<times> nat \<times> u32 \<times> fragmentationt" where
  "find_end Mmin i sq fr =
     (if sq < Mmin then
        if \<not> in_use fr i then (False, i, sq, fr)
        else if fg_seq (fr_fragment fr i) \<noteq> sq then (False, i, sq, lose i fr)
        else if is_end fr i then (True, i, sq, fr)
        else find_end Mmin (ring_next i) (sq + 1) fr
      else (False, i, sq, fr))"
  by pat_completeness auto
termination
proof (relation "measure (\<lambda>(Mmin, i, sq, fr). unat Mmin - unat sq)")
  fix Mmin sq :: u32 and i fr
  assume "sq < Mmin"
  then have "unat sq < unat Mmin" by (simp add: word_less_nat_alt)
  moreover from this have "unat (sq + 1) = unat sq + 1" by (rule unat_next)
  ultimately show "((Mmin, ring_next i, sq + 1, fr), Mmin, i, sq, fr) \<in> measure (\<lambda>(Mmin, i, sq, fr). unat Mmin - unat sq)"
    by simp
qed simp

declare find_end.simps [simp del]

lemma find_end_seq: "find_end Mmin i sq fr = (ok, j, sq', fr') \<Longrightarrow> unat sq \<le> unat sq'"
proof (induction Mmin i sq fr rule: find_end.induct)
  case (1 Mmin i sq fr)
  show ?case
  proof (cases "sq < Mmin \<and> in_use fr i \<and> fg_seq (fr_fragment fr i) = sq \<and> \<not> is_end fr i")
    case True
    then have "unat sq < unat Mmin" by (simp add: word_less_nat_alt)
    then have "unat (sq + 1) = unat sq + 1" by (rule unat_next)
    with 1 True show ?thesis by (simp add: find_end.simps [of Mmin i sq fr])
  next
    case False
    with "1.prems" show ?thesis by (auto simp: find_end.simps [of Mmin i sq fr] split: if_splits)
  qed
qed

text \<open>
  The walk for a beginning, from \<open>start_seq\<close> on. Where a number would wrap at \<open>2 ^ 32\<close>, after a frame without
  end at the highest number of all, the walk of the model stops.
\<close>

function find_begin :: "u32 \<Rightarrow> nat \<Rightarrow> u32 \<Rightarrow> fragmentationt \<Rightarrow> fragmentationt" where
  "find_begin Mmin i sq fr =
     (if sq < Mmin then
        if \<not> in_use fr i then find_begin Mmin (ring_next i) (sq + 1) fr
        else if fg_seq (fr_fragment fr i) \<noteq> sq then find_begin Mmin (ring_next i) (sq + 1) (lose i fr)
        else if \<not> is_begin fr i then find_begin Mmin (ring_next i) (sq + 1) fr
        else
          let e = find_end Mmin i sq (fr\<lparr>fr_start_index := i, fr_start_seq := sq\<rparr>) in
          if fst e then snd (snd (snd e))
          else if fst (snd (snd e)) + 1 \<le> fst (snd (snd e)) then snd (snd (snd e))
          else find_begin Mmin (ring_next (fst (snd e))) (fst (snd (snd e)) + 1) (snd (snd (snd e)))
      else fr)"
  by pat_completeness auto
termination
proof (relation "measure (\<lambda>(Mmin, i, sq, fr). unat Mmin - unat sq)")
  fix Mmin sq :: u32 and i fr e
  assume lt: "sq < Mmin" and e: "e = find_end Mmin i sq (fr\<lparr>fr_start_index := i, fr_start_seq := sq\<rparr>)"
    and no: "\<not> fst (snd (snd e)) + 1 \<le> fst (snd (snd e))"
  obtain ok j sq' fr' where e': "e = (ok, j, sq', fr')" by (metis prod_cases4)
  have "unat sq \<le> unat sq'" using find_end_seq e e' by metis
  moreover have "unat (sq' + 1) = unat sq' + 1" using no e' by (intro unat_next_grows) simp
  ultimately show "((Mmin, ring_next (fst (snd e)), fst (snd (snd e)) + 1, snd (snd (snd e))), Mmin, i, sq, fr)
      \<in> measure (\<lambda>(Mmin, i, sq, fr). unat Mmin - unat sq)"
    using lt e' by (simp add: word_less_nat_alt)
qed (auto simp: word_less_nat_alt unat_next)

declare find_begin.simps [simp del]

subsection \<open>Assembling\<close>

text \<open>The end of the frame that begins at the first of the indices; None when there is a hole before it.\<close>

fun frame_end :: "fragmentationt \<Rightarrow> nat list \<Rightarrow> nat option" where
  "frame_end fr [] = None"
| "frame_end fr (i # js) =
     (if \<not> in_use fr i then None else if is_end fr i then Some i else frame_end fr js)"

definition whole_ring :: "nat \<Rightarrow> nat list" where
  "whole_ring i = map (\<lambda>k. (i + k) mod MAXFRAGNUM) [0..<MAXFRAGNUM]"

definition frame_data :: "fragmentationt \<Rightarrow> nat \<Rightarrow> nat \<Rightarrow> bytes" where
  "frame_data fr i j = concat (map (\<lambda>k. fg_data (fr_fragment fr k)) (ring_indices i j))"

definition close_frame :: "nat \<Rightarrow> fragmentationt \<Rightarrow> fragmentationt" where
  "close_frame j fr =
     (let fr1 = fold lose (ring_indices (fr_start_index fr) j) fr;
          fr2 = fr1\<lparr>fr_start_index := ring_next j, fr_start_seq := fg_seq (fr_fragment fr j) + 1\<rparr>;
          i = fr_start_index fr2
      in if in_use fr2 i \<and> fg_seq (fr_fragment fr2 i) \<noteq> fr_start_seq fr2 then lose i fr2 else fr2)"

lemma in_use_lose: "in_use (lose i fr) k \<longleftrightarrow> in_use fr k \<and> k \<noteq> i"
  by (simp add: in_use_def lose_def put_fragment_def)

lemma in_use_update [simp]:
  "in_use (fr\<lparr>fr_start_index := i\<rparr>) k = in_use fr k" "in_use (fr\<lparr>fr_start_seq := sq\<rparr>) k = in_use fr k"
  "in_use (fr\<lparr>fr_begin_index := i\<rparr>) k = in_use fr k" "in_use (fr\<lparr>fr_end_index := i\<rparr>) k = in_use fr k"
  by (simp_all add: in_use_def)

lemma in_use_find_end: "find_end Mmin i sq fr = (ok, j, sq', fr') \<Longrightarrow> in_use fr' k \<Longrightarrow> in_use fr k"
proof (induction Mmin i sq fr rule: find_end.induct)
  case (1 Mmin i sq fr)
  then show ?case by (auto simp: find_end.simps [of Mmin i sq fr] in_use_lose split: if_splits)
qed

lemma in_use_find_begin: "in_use (find_begin Mmin i sq fr) k \<Longrightarrow> in_use fr k"
proof (induction Mmin i sq fr rule: find_begin.induct)
  case (1 Mmin i sq fr)
  obtain ok j sq' fr' where e: "find_end Mmin i sq (fr\<lparr>fr_start_index := i, fr_start_seq := sq\<rparr>) = (ok, j, sq', fr')"
    by (metis prod_cases4)
  have keep: "in_use fr' k \<Longrightarrow> in_use fr k" using in_use_find_end [OF e, of k] by simp
  show ?case
    using "1.prems" "1.IH" keep
    by (simp add: find_begin.simps [of Mmin i sq fr] e in_use_lose Let_def split: if_splits)
qed

lemma in_use_fold_lose: "in_use (fold lose is fr) k \<longleftrightarrow> in_use fr k \<and> k \<notin> set is"
  by (induction "is" arbitrary: fr) (auto simp: in_use_lose)

lemma in_use_close: "in_use (close_frame j fr) k \<Longrightarrow> in_use fr k \<and> k \<noteq> fr_start_index fr mod MAXFRAGNUM"
proof -
  assume a: "in_use (close_frame j fr) k"
  have "fr_start_index fr mod MAXFRAGNUM \<in> set (ring_indices (fr_start_index fr) j)"
    unfolding ring_indices_def set_map set_upt by (rule image_eqI [of _ _ 0]) simp_all
  with a show ?thesis
    by (auto simp: close_frame_def Let_def in_use_lose in_use_fold_lose split: if_splits)
qed

text \<open>
  The frames that are complete, each with the ring as it is when the frame is processed, and the ring that
  is left. What processes a frame leaves the ring alone, so that the frames can be collected first. The
  start of the ring is always a proper index.
\<close>

definition used :: "fragmentationt \<Rightarrow> nat" where
  "used fr = card {i. i < MAXFRAGNUM \<and> in_use fr i}"

lemma used_less:
  assumes "\<And>k. in_use fr' k \<Longrightarrow> in_use fr k \<and> k \<noteq> i" and "in_use fr i" and "i < MAXFRAGNUM"
  shows "used fr' < used fr"
  unfolding used_def by (rule psubset_card_mono) (use assms in auto)

definition seek :: "u32 \<Rightarrow> bool \<Rightarrow> fragmentationt \<Rightarrow> fragmentationt" where
  "seek Mmin search fr = (if search then find_begin Mmin (fr_start_index fr) (fr_start_seq fr) fr else fr)"

definition deliver :: "nat \<Rightarrow> fragmentationt \<Rightarrow> fragmentationt" where
  "deliver j fr =
     (if 4 + length (frame_data fr (fr_start_index fr) j) > MAXETHER then fr
      else fr\<lparr>fr_begin_index := fr_start_index fr, fr_end_index := j\<rparr>)"

lemma used_close:
  assumes "fr = seek Mmin search fr0" and "\<not> (MAXFRAGNUM \<le> fr_start_index fr \<or> \<not> in_use fr (fr_start_index fr))"
  shows "used (close_frame j (deliver j fr)) < used fr0"
proof (rule used_less)
  let ?i = "fr_start_index fr"
  show "?i < MAXFRAGNUM" using assms(2) by simp
  have seek: "in_use fr k \<Longrightarrow> in_use fr0 k" for k
    using assms(1) in_use_find_begin by (auto simp: seek_def split: if_splits)
  show "in_use fr0 ?i" using assms(2) seek by blast
  fix k assume "in_use (close_frame j (deliver j fr)) k"
  from in_use_close [OF this] have "in_use (deliver j fr) k" "k \<noteq> fr_start_index (deliver j fr) mod MAXFRAGNUM" by simp_all
  moreover have "in_use (deliver j fr) k = in_use fr k" "fr_start_index (deliver j fr) = ?i" by (simp_all add: deliver_def)
  ultimately show "in_use fr0 k \<and> k \<noteq> ?i" using seek assms(2) by auto
qed

function mp_frames :: "u32 \<Rightarrow> bool \<Rightarrow> fragmentationt \<Rightarrow> (fragmentationt \<times> bytes) list \<times> fragmentationt" where
  "mp_frames Mmin search fr0 =
     (let fr = seek Mmin search fr0; i = fr_start_index fr in
      if i \<ge> MAXFRAGNUM \<or> \<not> in_use fr i then ([], fr)
      else if \<not> is_begin fr i then ([], fr\<lparr>fr_start_index := ring_next i, fr_start_seq := fr_start_seq fr + 1\<rparr>)
      else case frame_end fr (whole_ring i) of
        None \<Rightarrow> ([], fr)
      | Some j \<Rightarrow>
          let fr1 = deliver j fr; fr2 = close_frame j fr1; data = frame_data fr i j; k = fr_start_index fr2;
              (frames, fr3) =
                (if fr_start_seq fr2 \<le> Mmin then mp_frames Mmin True fr2
                 else if in_use fr2 k \<and> is_begin fr2 k then mp_frames Mmin False fr2 else ([], fr2))
          in (if 4 + length data > MAXETHER then frames else (fr1, data) # frames, fr3))"
  by pat_completeness auto

termination
  by (relation "measure (\<lambda>(Mmin, search, fr). used fr)") (auto intro: used_close)

declare mp_frames.simps [simp del]

subsection \<open>Receiving a fragment\<close>

text \<open>
  The fragment is entered at its place; a neighbour with another sequence number is given up. The result
  tells whether to go on and look for frames.
\<close>

definition drop_stale :: "nat \<Rightarrow> u32 \<Rightarrow> bool \<Rightarrow> fragmentationt \<Rightarrow> fragmentationt \<times> bool" where
  "drop_stale i sq stop fr =
     (if in_use fr i \<and> fg_seq (fr_fragment fr i) \<noteq> sq then (lose i fr, \<not> stop) else (fr, True))"

definition enter_fragment :: "nat \<Rightarrow> fragmentt \<Rightarrow> fragmentationt \<Rightarrow> fragmentationt \<times> bool" where
  "enter_fragment i x fr =
     (let fr = put_fragment i x fr; first = bit (fg_flags x) 7; final = bit (fg_flags x) 6; start = fr_start_index fr;
          (fr1, go1) = (if ring_next i \<noteq> start then drop_stale (ring_next i) (fg_seq x + 1) (first \<and> \<not> final) fr else (fr, True))
      in if \<not> go1 then (fr1, False)
         else if i \<noteq> start then drop_stale (ring_prev i) (fg_seq x - 1) (final \<and> \<not> first) fr1
         else (fr1, True))"

definition process_frames ::
    "bool \<Rightarrow> sessionidt \<Rightarrow> tunnelidt \<Rightarrow> bundleidt \<Rightarrow> (fragmentationt \<times> bytes) list \<Rightarrow> l2tpns \<Rightarrow> l2tpns outcome" where
  "process_frames tun s t b frames g =
     fold (\<lambda>(fr, data) r. obind r (\<lambda>g.
       processmpframe tun s t (bytes_mem (replicate 4 0 @ data)) (4 + length data) True (upd_frag b (\<lambda>_. fr) g)))
       frames (Ret g)"

text \<open>A fragment of fewer than four bytes makes the length wrap, and the copy leave the ring.\<close>

definition processmpin :: "bool \<Rightarrow> sessionidt \<Rightarrow> tunnelidt \<Rightarrow> mem \<Rightarrow> nat \<Rightarrow> l2tpns \<Rightarrow> l2tpns outcome" where
  "processmpin tun s t m l g =
     (let b = s_bundle (g_session g s); bun = g_bundle g b; fr0 = g_frag g b in
      if l > MAXFRAGLEN then Ret g
      else if b = 0 then Ret g
      else
        let sq = expand_seq (b_max_seq bun) (fr_M fr0) (packet_seq m);
            g1 = jitter s (upd_local s (\<lambda>x. x\<lparr>l_last_seq := sq\<rparr>) g);
            Mmin = next_M sq bun fr0 g1; M_offset = sint (Mmin - fr_start_seq fr0);
            fr1 = fr0\<lparr>fr_M := Mmin\<rparr>;
            fr2 = (if M_offset \<ge> int MAXFRAGNUM
                   then fr1\<lparr>fr_start_index := (nat M_offset + fr_start_index fr1) mod MAXFRAGNUM, fr_start_seq := Mmin\<rparr>
                   else fr1);
            off = sint (sq - fr_start_seq fr2); g2 = upd_frag b (\<lambda>_. fr2) g1
        in if off < 0 \<or> off \<ge> int MAXFRAGNUM then Ret g2
           else if l < 4 then Undef
           else
             let i = (nat off + fr_start_index fr2) mod MAXFRAGNUM;
                 x = \<lparr>fg_sid = s, fg_tid = t, fg_flags = m 0, fg_seq = sq, fg_jitteravg = l_jitteravg (g_local g2 s),
                      fg_data = map m [4..<l]\<rparr>;
                 (fr3, go) = enter_fragment i x fr2
             in if \<not> go then Ret (upd_frag b (\<lambda>_. fr3) g2)
                else
                  let (frames, fr4) = mp_frames Mmin True fr3
                  in obind (process_frames tun s t b frames g2) (\<lambda>g3. Ret (upd_frag b (\<lambda>_. fr4) g3)))"

subsection \<open>Cutting and joining\<close>

lemma middle_frags_cover:
  "remain \<le> len \<Longrightarrow> fraglen \<le> last_fraglen \<Longrightarrow>
    concat (map (\<lambda>(off, n, b). map m [off..<off + n]) (middle_frags fraglen last_fraglen len remain)) = map m [len - remain..<len]"
proof (induction fraglen last_fraglen len remain rule: middle_frags.induct)
  case (1 fraglen last_fraglen len remain)
  show ?case
  proof (cases "last_fraglen < remain \<and> 0 < fraglen")
    case True
    then have "[len - remain..<len] = [len - remain..<len - remain + fraglen] @ [len - remain + fraglen..<len]"
      using upt_add_eq_append [of "len - remain" "len - remain + fraglen" "remain - fraglen"] "1.prems" by simp
    moreover have "len - (remain - fraglen) = len - remain + fraglen" using "1.prems" True by simp
    ultimately show ?thesis
      using "1.IH" [OF True] "1.prems" True by (simp add: middle_frags.simps [of fraglen last_fraglen len remain] del: upt_Suc)
  next
    case False
    then show ?thesis using "1.prems" by (auto simp: middle_frags.simps [of fraglen last_fraglen len remain])
  qed
qed

lemma middle_frags_bits:
  "\<exists>mid off n. middle_frags fraglen last_fraglen len remain = mid @ [(off, n, MP_END)] \<and> (\<forall>x \<in> set mid. snd (snd x) = 0)"
proof (induction fraglen last_fraglen len remain rule: middle_frags.induct)
  case (1 fraglen last_fraglen len remain)
  show ?case
  proof (cases "last_fraglen < remain \<and> 0 < fraglen")
    case True
    from "1.IH" [OF True] obtain mid off n where
      "middle_frags fraglen last_fraglen len (remain - fraglen) = mid @ [(off, n, MP_END)]" "\<forall>x \<in> set mid. snd (snd x) = 0"
      by blast
    then show ?thesis
      using True by (intro exI [of _ "(len - remain, fraglen, 0) # mid"] exI [of _ off] exI [of _ n])
        (simp add: middle_frags.simps [of fraglen last_fraglen len remain])
  next
    case False
    then show ?thesis
      by (intro exI [of _ "[]"] exI [of _ "len - remain"] exI [of _ remain])
        (auto simp: middle_frags.simps [of fraglen last_fraglen len remain])
  qed
qed

text \<open>
  C31: cutting a packet for a bundle loses nothing: the fragments put together in their order are the packet,
  only the first one is marked as the beginning and only the last one as the end.
\<close>

theorem frag_plan_covers:
  defines "bits k plan \<equiv> map (\<lambda>(off, n, b). bit (b :: u8) k) (plan :: (nat \<times> nat \<times> u8) list)"
  shows "concat (map (\<lambda>(off, n, b). map m [off..<off + n]) (frag_plan links len)) = payload m len \<and>
    bits 7 (frag_plan links len) = True # replicate (length (frag_plan links len) - 1) False \<and>
    bits 6 (frag_plan links len) = replicate (length (frag_plan links len) - 1) False @ [True]"
proof (cases "len > MINFRAGLEN")
  case True
  define divisor where "divisor = (if links > 2 then links div 2 + links mod 2 else links)"
  define fraglen where "fraglen = len div divisor"
  define lst where "lst = fraglen + len mod divisor"
  let ?rest = "middle_frags fraglen lst len (len - fraglen)"
  have plan: "frag_plan links len = (0, fraglen, MP_BEGIN) # ?rest"
    using True by (simp add: frag_plan_def Let_def divisor_def fraglen_def lst_def)
  obtain mid off n where rest: "?rest = mid @ [(off, n, MP_END)]" and mid: "\<forall>x \<in> set mid. snd (snd x) = 0"
    using middle_frags_bits by blast
  have none: "bits k mid = replicate (length mid) False" for k
    using mid by (induction mid) (auto simp: bits_def)
  have "fraglen \<le> len" by (simp add: fraglen_def div_le_dividend)
  then have "concat (map (\<lambda>(off, n, b). map m [off..<off + n]) (frag_plan links len)) = map m [0..<fraglen] @ map m [fraglen..<len]"
    unfolding plan using middle_frags_cover [of "len - fraglen" len fraglen lst m] by (simp add: lst_def)
  also have "\<dots> = payload m len"
    using \<open>fraglen \<le> len\<close> upt_add_eq_append [of 0 fraglen "len - fraglen"] by (simp add: payload_def flip: map_append)
  finally show ?thesis
    using none [of 7] none [of 6]
    by (simp add: plan rest bits_def MP_BEGIN_def MP_END_def bit_simps replicate_append_same)
next
  case False
  then show ?thesis by (simp add: frag_plan_def bits_def payload_def MP_BOTH_BITS_def)
qed

end
