(* ===== verification/Avp.thy ===== *)
theory Avp
  imports Mp
begin

text \<open>
  The AVPs of a control message (\<open>processudp\<close> of \<^verbatim>\<open>src/l2tpns.c\<close>, from the first attribute to the last one),
  hidden ones included (\<open>unhide_value\<close>), and the answer to a challenge (\<open>build_chap_response\<close>). The packet is
  the memory \<open>m\<close>; reads behind it find whatever the buffer holds there. The loop of the code need not end: not
  ending is the value \<open>None\<close>.
\<close>

definition TERM_USER_REQUEST :: nat where "TERM_USER_REQUEST = 1"
definition TERM_LOST_CARRIER :: nat where "TERM_LOST_CARRIER = 2"
definition TERM_PORT_ERROR :: nat where "TERM_PORT_ERROR = 8"
definition TERM_NAS_REQUEST :: nat where "TERM_NAS_REQUEST = 10"
definition MAXTEL :: nat where "MAXTEL = 96"

subsection \<open>Hidden values and challenges\<close>

text \<open>The pad of a later block is taken from the block before it as it stands in the buffer: already decoded.\<close>

function unhide_blocks :: "bytes \<Rightarrow> bytes \<Rightarrow> bytes \<Rightarrow> bytes" where
  "unhide_blocks secret digest v =
     (if v = [] then []
      else let p = map2 (XOR) (take 16 v) digest in p @ unhide_blocks secret (md5 [secret, p]) (drop 16 v))"
  by pat_completeness auto
termination by (relation "measure (\<lambda>(secret, digest, v). length v)") auto

declare unhide_blocks.simps [simp del]

definition unhide_value :: "bytes \<Rightarrow> u16 \<Rightarrow> bytes \<Rightarrow> bytes \<Rightarrow> bytes" where
  "unhide_value secret ty vector value = unhide_blocks secret (md5 [be16 ty, secret, vector]) value"

definition build_chap_response :: "bytes \<Rightarrow> u8 \<Rightarrow> l2tpns \<Rightarrow> bytes option" where
  "build_chap_response challenge ident g =
     (if cf_l2tp_secret (g_cfg g) = [] then None
      else Some (md5 [[ident], cf_l2tp_secret (g_cfg g), challenge]))"

subsection \<open>Tables of names\<close>

text \<open>The tables of \<^verbatim>\<open>src/constants.c\<close> that name the reason of a disconnection.\<close>

definition name_of :: "string option list \<Rightarrow> nat \<Rightarrow> string" where
  "name_of tab i = (case (if i < length tab then tab ! i else None) of Some s \<Rightarrow> s | None \<Rightarrow> dec i)"

definition l2tp_stopccn_result_code :: "nat \<Rightarrow> string" where
  "l2tp_stopccn_result_code = name_of [
     None,
     Some ''General request to clear control connection'',
     Some ''General error--Error Code indicates the problem'',
     Some ''Control channel already exists'',
     Some ''Requester is not authorized to establish a control channel'',
     Some ''The protocol version of the requester is not supported'',
     Some ''Requester is being shut down'',
     Some ''Finite State Machine error'']"

definition l2tp_cdn_result_code :: "nat \<Rightarrow> string" where
  "l2tp_cdn_result_code = name_of [
     None,
     Some ''Call disconnected due to loss of carrier'',
     Some ''Call disconnected for the reason indicated in error code'',
     Some ''Call disconnected for administrative reasons'',
     Some ''Call failed due to lack of appropriate facilities being available (temporary condition)'',
     Some ''Call failed due to lack of appropriate facilities being available (permanent condition)'',
     Some ''Invalid destination'',
     Some ''Call failed due to no carrier detected'',
     Some ''Call failed due to detection of a busy signal'',
     Some ''Call failed due to lack of a dial tone'',
     Some ''Call was not established within time allotted by LAC'',
     Some ''Call was connected but no appropriate framing was detected'']"

definition l2tp_error_code :: "nat \<Rightarrow> string" where
  "l2tp_error_code = name_of [
     Some ''No general error'',
     Some ''No control connection exists yet for this LAC-LNS pair'',
     Some ''Length is wrong'',
     Some ''One of the field values was out of range or reserved field was non-zero'',
     Some ''Insufficient resources to handle this operation now'',
     Some ''The Session ID is invalid in this context'',
     Some ''A generic vendor-specific error occurred in the LAC'',
     Some ''Try another LNS'',
     Some ''Session or tunnel was shutdown due to receipt of an unknown AVP with the M-bit set'']"

subsection \<open>What a message has said so far\<close>

record avpst =
  av_fatal :: u8
  av_result :: nat
  av_error :: nat
  av_msg :: "bytes option"
  av_message :: u16
  av_mandatory :: bool
  av_version :: u16
  av_asession :: u16
  av_amagic :: u32
  av_aflags :: u8
  av_called :: string
  av_calling :: string
  av_sendchal :: "bytes option"
  av_recvchal :: "bytes option"
  av_cause_set :: nat
  av_cause :: nat
  av_reason :: string

definition avps_none :: avpst where
  "avps_none = \<lparr>av_fatal = 0, av_result = 0, av_error = 0, av_msg = None, av_message = 0xFFFF, av_mandatory = False,
     av_version = 0x0100, av_asession = 0, av_amagic = 0, av_aflags = 0, av_called = [], av_calling = [],
     av_sendchal = None, av_recvchal = None, av_cause_set = 0, av_cause = TERM_NAS_REQUEST,
     av_reason = ''Closed (Received CDN).''\<rparr>"

definition avp_fatal :: "u8 \<Rightarrow> nat \<Rightarrow> nat \<Rightarrow> bytes option \<Rightarrow> avpst \<Rightarrow> avpst" where
  "avp_fatal flags result err msg st =
     st\<lparr>av_fatal := flags, av_result := result, av_error := err, av_msg := msg\<rparr>"

text \<open>The bytes of a value copied to an array of \<open>k\<close> bytes, which keeps a zero byte at its end.\<close>

definition field :: "mem \<Rightarrow> nat \<Rightarrow> nat \<Rightarrow> nat \<Rightarrow> bytes" where
  "field m b n k = map m [b..<b + (if n < k then n else k - 1)]"

definition text_field :: "mem \<Rightarrow> nat \<Rightarrow> nat \<Rightarrow> nat \<Rightarrow> string" where
  "text_field m b n k = str_of (cstr (field m b n k))"

definition hex_digit :: "nat \<Rightarrow> char" where
  "hex_digit d = (if d < 10 then char_of (48 + d) else char_of (87 + d))"

definition hex4 :: "u16 \<Rightarrow> string" where
  "hex4 x = map (\<lambda>k. hex_digit (unat x div 16 ^ k mod 16)) [3, 2, 1, 0]"

subsection \<open>Values\<close>

definition avp_result_code :: "mem \<Rightarrow> nat \<Rightarrow> nat \<Rightarrow> avpst \<Rightarrow> avpst" where
  "avp_result_code m b n st =
     (let rescode = unat (rd16 m b);
          (resdesc, cause) =
            (if av_message st = 4 then (l2tp_stopccn_result_code rescode, TERM_LOST_SERVICE)
             else if av_message st = 14
             then (l2tp_cdn_result_code rescode, if rescode = 1 then TERM_LOST_CARRIER else TERM_ADMIN_RESET)
             else (''(unknown)'', 0));
          reason = (if n \<ge> 4 then l2tp_error_code (unat (rd16 m (b + 2))) else resdesc)
      in if cause \<noteq> 0 \<and> av_cause_set st < 1
         then st\<lparr>av_cause_set := 1, av_reason := reason, av_cause := cause\<rparr> else st)"

definition disconnect_cause :: "nat \<Rightarrow> u8 \<Rightarrow> (nat \<times> string) option" where
  "disconnect_cause code dir =
     (if code = 1 then Some (TERM_ADMIN_RESET, ''Administrative disconnect'')
      else if code = 3 then (if dir \<noteq> 2 then None else Some (TERM_USER_REQUEST, ''Normal disconnection''))
      else if code = 4 then (if dir \<noteq> 1 then None else Some (TERM_USER_ERROR, ''Compulsory encryption refused''))
      else if code = 5 then Some (TERM_PORT_ERROR, ''LCP: FSM timeout'')
      else if code = 6 then Some (TERM_PORT_ERROR, ''LCP: no recognisable LCP packets'')
      else if code = 7 then Some (TERM_PORT_ERROR, ''LCP: magic-no error (possible loop)'')
      else if code = 8 then Some (TERM_PORT_ERROR, ''LCP: echo request timeout'')
      else if code = 13 then Some (TERM_SERVICE_UNAVAILABLE, ''Authentication: FSM timeout'')
      else if code = 15 then Some (TERM_SERVICE_UNAVAILABLE, ''Unacceptable authentication protocol'')
      else if code = 16 then Some (TERM_SERVICE_UNAVAILABLE, ''Authentication failed'')
      else if code = 17 then Some (TERM_SERVICE_UNAVAILABLE, ''NCP: FSM timeout'')
      else if code = 18 then Some (TERM_SERVICE_UNAVAILABLE, ''NCP: no NCPs available'')
      else if code = 19 then
        Some (TERM_SERVICE_UNAVAILABLE,
          if dir = 1 then ''NCP: too many Configure-Naks received from peer''
          else ''NCP: too many Configure-Naks sent to peer'')
      else if code = 20 then
        Some (TERM_SERVICE_UNAVAILABLE,
          if dir = 1 then ''NCP: local link address not acceptable to peer''
          else ''NCP: remote link address not acceptable'')
      else None)"

definition avp_disconnect_cause :: "mem \<Rightarrow> nat \<Rightarrow> nat \<Rightarrow> avpst \<Rightarrow> avpst" where
  "avp_disconnect_cause m b n st =
     (if n < 5 then st
      else
        let st1 = st\<lparr>av_cause_set := 46\<rparr> in
        case disconnect_cause (unat (rd16 m b)) (m (b + 4)) of
          None \<Rightarrow> st1
        | Some (cause, reason) \<Rightarrow> st1\<lparr>av_cause := cause, av_reason := reason\<rparr>)"

text \<open>The options of the LCP request that the peer sent last.\<close>

function avp_last_lcp :: "mem \<Rightarrow> nat \<Rightarrow> nat \<Rightarrow> avpst \<Rightarrow> avpst" where
  "avp_last_lcp m p e st =
     (if p + 1 < e \<and> m (p + 1) \<noteq> 0 \<and> p + unat (m (p + 1)) \<le> e then
        avp_last_lcp m (p + unat (m (p + 1))) e
          (if m p = 5 \<and> m (p + 1) = 6 then st\<lparr>av_amagic := rd32 m (p + 2)\<rparr>
           else if m p = 7 then st\<lparr>av_aflags := av_aflags st OR 1\<rparr>
           else if m p = 8 then st\<lparr>av_aflags := av_aflags st OR 2\<rparr>
           else st)
      else st)"
  by pat_completeness auto
termination
  by (relation "measure (\<lambda>(m, p, e, st). e - p)") (auto simp: unat_gt_0 intro!: diff_less_mono2)

declare avp_last_lcp.simps [simp del]

definition connect_speed :: "mem \<Rightarrow> nat \<Rightarrow> nat \<Rightarrow> u32" where
  "connect_speed m b n = (if n = 4 then rd32 m b else word_of_int (atoi (text_field m b n 30)))"

definition avp_ignored :: "nat set" where
  "avp_ignored = {3, 4, 5, 6, 15, 18, 19, 23, 25, 26, 28, 29, 30, 31, 32, 33, 39}"

text \<open>
  The value of one AVP: \<open>n\<close> bytes at \<open>b\<close>. The length of an AVP of fewer than six bytes has wrapped; where all
  of such a value is read, the reads leave the buffer.
\<close>

definition avp_value :: "mem \<Rightarrow> sessionidt \<Rightarrow> tunnelidt \<Rightarrow> u8 \<Rightarrow> u16 \<Rightarrow> nat \<Rightarrow> nat \<Rightarrow> avpst \<Rightarrow> l2tpns \<Rightarrow>
    (avpst \<times> l2tpns) outcome" where
  "avp_value m s t flags mtype b n st g =
     (let ty = unat mtype; wrapped = (n \<ge> 65530) in
      if ty = 0 then Ret (st\<lparr>av_message := rd16 m b, av_mandatory := bit flags 7\<rparr>, g)
      else if ty = 1 then Ret (avp_result_code m b n st, g)
      else if ty = 2 then
        let st1 = st\<lparr>av_version := rd16 m b\<rparr> in
        Ret (if rd16 m b \<notin> {0, 0x0100} then avp_fatal flags 5 0x0100 None st1 else st1, g)
      else if ty = 7 then Ret (st, upd_tunnel t (\<lambda>x. x\<lparr>t_hostname := cstr (field m b n 128)\<rparr>) g)
      else if ty = 8 then Ret (st, upd_tunnel t (\<lambda>x. x\<lparr>t_vendor := cstr (field m b n 128)\<rparr>) g)
      else if ty = 9 then Ret (st, upd_tunnel t (\<lambda>x. x\<lparr>t_far := rd16 m b\<rparr>) g)
      else if ty = 10 then Ret (st, upd_tunnel t (\<lambda>x. x\<lparr>t_window := if rd16 m b = 0 then 1 else rd16 m b\<rparr>) g)
      else if ty = 11 then
        if av_message st \<in> {1, 2} then
          if wrapped \<and> cf_l2tp_secret (g_cfg g) \<noteq> [] then Undef
          else Ret (st\<lparr>av_sendchal :=
                 build_chap_response (map m [b..<b + n]) (if av_message st = 1 then 2 else 3) g\<rparr>, g)
        else Ret (st, g)
      else if ty = 13 then
        Ret (if t_isremotelns (g_tunnel g t) \<noteq> 0
             then st\<lparr>av_recvchal := Some (take 16 (field m b n 17 @ replicate 16 0))\<rparr> else st, g)
      else if ty = 14 then
        Ret (st\<lparr>av_asession := rd16 m b\<rparr>, upd_session s (\<lambda>x. x\<lparr>s_far := unat (rd16 m b)\<rparr>) g)
      else if ty = 21 then Ret (st\<lparr>av_called := text_field m b n MAXTEL\<rparr>, g)
      else if ty = 22 then Ret (st\<lparr>av_calling := text_field m b n MAXTEL\<rparr>, g)
      else if ty = 24 then Ret (st, upd_session s (\<lambda>x. x\<lparr>s_tx_connect_speed := connect_speed m b n\<rparr>) g)
      else if ty = 38 then Ret (st, upd_session s (\<lambda>x. x\<lparr>s_rx_connect_speed := connect_speed m b n\<rparr>) g)
      else if ty = 27 then (if wrapped then Undef else Ret (avp_last_lcp m b (b + n) st, g))
      else if ty = 36 then
        Ret (st, upd_session s (\<lambda>x. x\<lparr>s_random_vector := map m [b..<b + min n MAXTEL]\<rparr>) g)
      else if ty = 46 then Ret (avp_disconnect_cause m b n st, g)
      else if ty \<in> avp_ignored then Ret (st, g)
      else Ret (avp_fatal flags 2 8 (Some (chars (''unknown AVP 0x'' @ hex4 mtype))) st, g))"

text \<open>The value \<open>b\<close> to \<open>b + n\<close> replaced in the buffer.\<close>

definition put_mem :: "nat \<Rightarrow> bytes \<Rightarrow> mem \<Rightarrow> mem" where
  "put_mem b bs m i = (if b \<le> i \<and> i < b + length bs then bs ! (i - b) else m i)"

definition avp_hidden :: "mem \<Rightarrow> sessionidt \<Rightarrow> tunnelidt \<Rightarrow> u8 \<Rightarrow> u16 \<Rightarrow> nat \<Rightarrow> nat \<Rightarrow> avpst \<Rightarrow> l2tpns \<Rightarrow>
    (avpst \<times> l2tpns) outcome" where
  "avp_hidden m s t flags mtype b n st g =
     (let secret = cf_l2tp_secret (g_cfg g); vector = s_random_vector (g_session g s) in
      if secret = [] then Ret (avp_fatal flags 2 6 (Some (chars ''secret not specified'')) st, g)
      else if vector = [] then Ret (avp_fatal flags 2 6 (Some (chars ''no random vector'')) st, g)
      else if n < 8 then Ret (avp_fatal flags 2 2 None st, g)
      else if n \<ge> 65530 then Undef
      else
        let m1 = put_mem b (unhide_value secret mtype vector (map m [b..<b + n])) m; orig_len = unat (rd16 m1 b)
        in if orig_len > n + 2 then Ret (avp_fatal flags 2 2 None st, g)
           else avp_value m1 s t flags mtype (b + 2) orig_len st g)"

text \<open>One AVP, of \<open>n\<close> bytes at \<open>p\<close>.\<close>

definition avp :: "mem \<Rightarrow> sessionidt \<Rightarrow> tunnelidt \<Rightarrow> nat \<Rightarrow> nat \<Rightarrow> avpst \<Rightarrow> l2tpns \<Rightarrow> (avpst \<times> l2tpns) outcome" where
  "avp m s t p n st g =
     (let flags = m p; mtype = rd16 m (p + 4); n = (n + 65530) mod 65536 in
      if flags AND 0x3C \<noteq> 0 then Ret (avp_fatal flags 2 3 None st, g)
      else if rd16 m (p + 2) \<noteq> 0 then Ret (avp_fatal flags 2 6 (Some (chars ''unsupported vendor-specific'')) st, g)
      else if bit flags 6 then avp_hidden m s t flags mtype (p + 6) n st g
      else avp_value m s t flags mtype (p + 6) n st g)"

text \<open>
  The loop over the AVPs, until one with the mandatory bit is found wrong. The flag of the result is False
  when an AVP is longer than what is left: the message is dropped where it stands.
\<close>

definition avp_len :: "mem \<Rightarrow> nat \<Rightarrow> nat" where
  "avp_len m p = unat (rd16 m p AND 0x3FF)"

partial_function (option) avp_loop ::
    "mem \<Rightarrow> sessionidt \<Rightarrow> tunnelidt \<Rightarrow> nat \<Rightarrow> nat \<Rightarrow> avpst \<Rightarrow> l2tpns \<Rightarrow> (avpst \<times> l2tpns \<times> bool) outcome option" where
  "avp_loop m s t p l st g =
     (if l = 0 \<or> bit (av_fatal st) 7 then Some (Ret (st, g, True))
      else if avp_len m p > l then Some (Ret (st, g, False))
      else case avp m s t p (avp_len m p) st g of
        Undef \<Rightarrow> Some Undef
      | Exits \<Rightarrow> Some Exits
      | Ret (st', g') \<Rightarrow> avp_loop m s t (p + avp_len m p) (l - avp_len m p) st' g')"

subsection \<open>The loop ends, or not\<close>

text \<open>Every AVP the loop can come to is at least as long as its own header of six bytes.\<close>

function avps_sized :: "mem \<Rightarrow> nat \<Rightarrow> nat \<Rightarrow> bool" where
  "avps_sized m p l \<longleftrightarrow>
     (if l = 0 \<or> avp_len m p > l then True
      else if avp_len m p < 6 then False
      else avps_sized m (p + avp_len m p) (l - avp_len m p))"
  by pat_completeness auto
termination by (relation "measure (\<lambda>(m, p, l). l)") auto

declare avps_sized.simps [simp del]

lemma avp_len_bound: "avp_len m p \<le> 1023"
proof -
  have "rd16 m p AND 0x3FF \<le> 0x3FF" by (rule word_and_le1)
  then show ?thesis by (simp add: avp_len_def word_le_nat_alt)
qed

text \<open>Such an AVP is processed, hidden or not, and so is a message that consists of them.\<close>

lemma avp_value_defined: "n < 65530 \<Longrightarrow> \<exists>st' g'. avp_value m s t flags mtype b n st g = Ret (st', g')"
  by (simp add: avp_value_def Let_def)

lemma avp_defined:
  assumes "6 \<le> n" and "n \<le> 1023"
  shows "\<exists>st' g'. avp m s t p n st g = Ret (st', g')"
proof -
  have "(n + 65530) mod 65536 = n - 6"
    using assms by (simp add: le_mod_geq)
  with assms show ?thesis
    using avp_value_defined [of "n - 6" m s t "m p" "rd16 m (p + 4)" "p + 6" st g] avp_value_defined
    by (auto simp: avp_def avp_hidden_def Let_def)
qed

lemma avp_loop_defined: "avps_sized m p l \<Longrightarrow> \<exists>r. avp_loop m s t p l st g = Some (Ret r)"
proof (induction m p l arbitrary: st g rule: avps_sized.induct)
  case (1 m p l)
  show ?case
  proof (cases "l = 0 \<or> avp_len m p > l \<or> bit (av_fatal st) 7")
    case True
    then show ?thesis by (auto simp: avp_loop.simps [of m s t p l])
  next
    case False
    with "1.prems" have rest: "\<not> avp_len m p < 6" "avps_sized m (p + avp_len m p) (l - avp_len m p)"
      by (auto simp: avps_sized.simps [of m p l] split: if_splits)
    obtain st' g' where "avp m s t p (avp_len m p) st g = Ret (st', g')"
      using avp_defined [of "avp_len m p"] rest(1) avp_len_bound by fastforce
    then show ?thesis
      using False "1.IH" rest by (auto simp: avp_loop.simps [of m s t p l])
  qed
qed

text \<open>
  An AVP of length zero whose bits are clear: whatever its values do, the loop comes back to it. (Where a
  challenge or an LCP request with its wrapped length is read, the reads leave the buffer.)
\<close>

definition stuck_avp :: "mem \<Rightarrow> nat \<Rightarrow> bool" where
  "stuck_avp m p \<longleftrightarrow> avp_len m p = 0 \<and> \<not> bit (m p) 7 \<and> \<not> bit (m p) 6 \<and> unat (rd16 m (p + 4)) \<notin> {11, 27}"

lemma fatal_frames [simp]:
  "av_fatal (avp_result_code m b n st) = av_fatal st" "av_fatal (avp_disconnect_cause m b n st) = av_fatal st"
  "av_fatal (avp_fatal flags result err msg st) = flags"
  by (simp_all add: avp_result_code_def avp_disconnect_cause_def avp_fatal_def Let_def split: prod.split option.split)

lemma avp_value_optional:
  assumes "\<not> bit flags 7" and "unat mtype \<notin> {11, 27}" and "\<not> bit (av_fatal st) 7"
  shows "\<exists>st' g'. avp_value m s t flags mtype b n st g = Ret (st', g') \<and> \<not> bit (av_fatal st') 7"
  using assms by (simp add: avp_value_def Let_def)

lemma stuck_avp_step:
  assumes "stuck_avp m p" and "\<not> bit (av_fatal st) 7"
  shows "\<exists>st' g'. avp m s t p (avp_len m p) st g = Ret (st', g') \<and> \<not> bit (av_fatal st') 7"
  using assms avp_value_optional [of "m p" "rd16 m (p + 4)" st]
  by (simp add: avp_def stuck_avp_def Let_def)

lemma avp_loop_diverges:
  "avp_loop m s t p l st g = Some r \<Longrightarrow> \<not> (stuck_avp m p \<and> l \<noteq> 0 \<and> \<not> bit (av_fatal st) 7)"
proof (erule avp_loop.raw_induct [rotated])
  fix loop m s t p l st g r
  assume IH: "\<And>m s t p l st g r. loop m s t p l st g = Some r \<Longrightarrow> \<not> (stuck_avp m p \<and> l \<noteq> 0 \<and> \<not> bit (av_fatal st) 7)"
    and run: "(if l = 0 \<or> bit (av_fatal st) 7 then Some (Ret (st, g, True))
      else if avp_len m p > l then Some (Ret (st, g, False))
      else case avp m s t p (avp_len m p) st g of
        Ret x \<Rightarrow> (case x of (st', g') \<Rightarrow> loop m s t (p + avp_len m p) (l - avp_len m p) st' g')
      | Undef \<Rightarrow> Some Undef | Exits \<Rightarrow> Some Exits) = Some r"
  show "\<not> (stuck_avp m p \<and> l \<noteq> 0 \<and> \<not> bit (av_fatal st) 7)"
  proof
    assume st: "stuck_avp m p \<and> l \<noteq> 0 \<and> \<not> bit (av_fatal st) 7"
    then obtain st' g' where "avp m s t p (avp_len m p) st g = Ret (st', g')" "\<not> bit (av_fatal st') 7"
      using stuck_avp_step by blast
    with run st IH [of m s t p l st' g' r] show False by (simp add: stuck_avp_def)
  qed
qed

subsection \<open>Hidden values as RFC 2661 has them\<close>

function rfc2661_blocks :: "bytes \<Rightarrow> bytes \<Rightarrow> bytes \<Rightarrow> bytes" where
  "rfc2661_blocks secret pad p =
     (if p = [] then []
      else let c = map2 (XOR) (take 16 p) pad in c @ rfc2661_blocks secret (rfc_md5 (secret @ c)) (drop 16 p))"
  by pat_completeness auto
termination by (relation "measure (\<lambda>(secret, pad, p). length p)") auto

declare rfc2661_blocks.simps [simp del]

definition rfc2661_hide :: "bytes \<Rightarrow> u16 \<Rightarrow> bytes \<Rightarrow> bytes \<Rightarrow> bytes" where
  "rfc2661_hide secret ty vector p = rfc2661_blocks secret (rfc_md5 (be16 ty @ secret @ vector)) p"

lemma xor_back: "((a :: u8) XOR b) XOR c = a \<longleftrightarrow> b = c"
  by (metis xor.assoc xor.commute xor.left_neutral xor_self_eq)

lemma xor_pads:
  assumes "length p \<le> length h" and "length p \<le> length k"
  shows "map2 (XOR) (map2 (XOR) p h) k = p \<longleftrightarrow> take (length p) h = take (length p) (k :: bytes)"
  using assms by (simp add: list_eq_iff_nth_eq xor_back)

lemma blocks_short: "length p \<le> 16 \<Longrightarrow> rfc2661_blocks secret pad p = map2 (XOR) p pad"
  by (cases "p = []") (simp_all add: rfc2661_blocks.simps [of secret pad p] rfc2661_blocks.simps [of _ _ "[]"])

lemma unhide_short: "length v \<le> 16 \<Longrightarrow> unhide_blocks secret pad v = map2 (XOR) v pad"
  by (cases "v = []") (simp_all add: unhide_blocks.simps [of secret pad v] unhide_blocks.simps [of _ _ "[]"])

text \<open>
  C36: a value of at most 16 bytes that is hidden as RFC 2661 says is recovered. Of a longer one the second block
  is recovered only if two digests agree that have nothing to do with each other: the code takes the pad from
  the decoded block, the RFC from the hidden one.
\<close>

theorem hidden_avp_recovered:
  assumes "length secret < 2 ^ 63" and "length vector < 2 ^ 63" and "length p \<le> 32"
  shows "unhide_value secret ty vector (rfc2661_hide secret ty vector p) = p \<longleftrightarrow>
    take (length p - 16) (rfc_md5 (secret @ take 16 p)) =
    take (length p - 16) (rfc_md5 (secret @ take 16 (rfc2661_hide secret ty vector p)))"
proof -
  define h where "h = rfc_md5 (be16 ty @ secret @ vector)"
  define p1 p2 where "p1 = take 16 p" and "p2 = drop 16 p"
  define c1 where "c1 = map2 (XOR) p1 h"
  have md5: "md5 [be16 ty, secret, vector] = h" using assms(1,2) by (simp add: md5_rfc h_def)
  have p1: "length p1 \<le> 16" and len_h: "length h = 16" and p2: "length p2 \<le> 16" "length p2 = length p - 16"
    using assms(3) by (simp_all add: p1_def p2_def h_def)
  have undo: "map2 (XOR) c1 h = p1" using p1 len_h by (simp add: c1_def xor_twice)
  show ?thesis
  proof (cases "p2 = []")
    case True
    then have small: "length p \<le> 16" "p1 = p" by (simp_all add: p1_def p2_def)
    then have "rfc2661_hide secret ty vector p = c1" by (simp add: rfc2661_hide_def blocks_short h_def c1_def)
    then show ?thesis using undo small len_h by (simp add: unhide_value_def md5 unhide_short c1_def)
  next
    case False
    then have full: "length p1 = 16" "length c1 = 16" and p: "p \<noteq> []" by (auto simp: p1_def p2_def c1_def len_h)
    define c2 where "c2 = map2 (XOR) p2 (rfc_md5 (secret @ c1))"
    have hid: "rfc2661_hide secret ty vector p = c1 @ c2"
      using p p2(1) by (simp add: rfc2661_hide_def rfc2661_blocks.simps [of secret _ p] Let_def blocks_short
          flip: h_def p1_def p2_def c1_def c2_def)
    have pad: "md5 [secret, p1] = rfc_md5 (secret @ p1)" using assms(1) full(1) by (simp add: md5_rfc)
    have "length c2 \<le> 16" "c1 @ c2 \<noteq> []" using p2(1) full(2) by (auto simp: c2_def)
    then have "unhide_value secret ty vector (c1 @ c2) = p1 @ map2 (XOR) c2 (rfc_md5 (secret @ p1))"
      using full undo by (simp add: unhide_value_def md5 unhide_blocks.simps [of secret h "c1 @ c2"] Let_def unhide_short pad del: append_is_Nil_conv)
    also have "\<dots> = p \<longleftrightarrow> map2 (XOR) c2 (rfc_md5 (secret @ p1)) = p2"
      unfolding p1_def p2_def by (metis append_take_drop_id same_append_eq)
    also have "\<dots> \<longleftrightarrow> take (length p2) (rfc_md5 (secret @ c1)) = take (length p2) (rfc_md5 (secret @ p1))"
      unfolding c2_def by (rule xor_pads) (use p2(1) in simp_all)
    finally show ?thesis unfolding hid using full(2) p2(2) by (auto simp: p1_def)
  qed
qed

lemma hidden_avp_recovered_witness:
  "unhide_value [1] 21 [2] (rfc2661_hide [1] 21 [2] [0, 3, 49, 50, 51]) = [0, 3, 49, 50, 51]"
  by (rule hidden_avp_recovered [THEN iffD2]) simp_all

end
