(* ===== verification/L2tp.thy ===== *)
theory L2tp
  imports Avp
begin

text \<open>
  The packets the event loop receives: from the UDP sockets (\<open>processudp\<close> of \<^verbatim>\<open>src/l2tpns.c\<close>), with the
  messages of L2TP and the PPP frames, from the tun device (\<open>processtun\<close>), from PPPoE sessions
  (\<open>process_pppoe_sess\<close> of \<^verbatim>\<open>src/pppoe.c\<close>), and those that a slave hands to the master. The address of a
  datagram is in host order and its port as the socket gives it, in network order.
\<close>

definition ntohs :: "u16 \<Rightarrow> u16" where
  "ntohs x = push_bit 8 x OR drop_bit 8 x"

subsection \<open>Control messages\<close>

text \<open>The tunnel of a message: the one it names, one that its sender is opening, or a new one; 0 when there is none.\<close>

definition opening_from :: "in_addr \<Rightarrow> u16 \<Rightarrow> tunnelt \<Rightarrow> bool" where
  "opening_from ip port x \<longleftrightarrow> t_state x = TUNNELOPENING \<and> t_ip x = ip \<and> t_port x = port"

definition control_tunnel :: "l2tp_hdr \<Rightarrow> in_addr \<Rightarrow> u16 \<Rightarrow> nat \<Rightarrow> l2tpns \<Rightarrow> l2tpns \<times> tunnelidt" where
  "control_tunnel h ip port index g =
     (let t = (if h_tunnel h = 0 \<and> h_ns h = 0
               then (case find (\<lambda>i. opening_from ip port (g_tunnel g i))
                            [1..<cf_cluster_highest_tunnelid (g_cfg g) + 1] of None \<Rightarrow> 0 | Some i \<Rightarrow> i)
               else h_tunnel h)
      in if t \<noteq> 0 then (g, t)
         else
           let (g1, t) = new_tunnel g in
           if t = 0 then (g1, 0)
           else (upd_tunnel t (\<lambda>x. x\<lparr>t_ip := ip, t_port := port, t_window := 4, t_indexudp := index\<rparr>)
                   (tunnelclear t g1), t))"

definition g_check_sequence :: "nat \<Rightarrow> u16 \<Rightarrow> u16 \<Rightarrow> tunnelidt \<Rightarrow> l2tpns \<Rightarrow> l2tpns \<times> bool" where
  "g_check_sequence l ns nr t g =
     (case check_sequence (g_clk g) l ns nr t (g_tunnel g t) of (tn, ds, go) \<Rightarrow>
        (g\<lparr>g_tunnel := (g_tunnel g)(t := tn), g_out := g_out g @ map Datagram ds\<rparr>, go))"

definition shut_down :: "tunnelidt \<Rightarrow> l2tpns \<Rightarrow> l2tpns" where
  "shut_down t = tunnelshutdown t ''Shutting down'' 6 0 None"

definition add_chal :: "bytes option \<Rightarrow> bytes \<Rightarrow> bytes" where
  "add_chal chal c = (case chal of None \<Rightarrow> c | Some r \<Rightarrow> controlb c 13 r True)"

definition sccrp :: "tunnelidt \<Rightarrow> avpst \<Rightarrow> l2tpns \<Rightarrow> bytes" where
  "sccrp t st g =
     control16 (add_chal (av_sendchal st)
       (controls (control32 (control16 (controlnew 2) 2 (av_version st) True) 3 3 True) 7 (hostname_of t g) True))
       9 (of_nat t) True"

definition scccn :: "tunnelidt \<Rightarrow> avpst \<Rightarrow> l2tpns \<Rightarrow> bytes" where
  "scccn t st g =
     control16 (add_chal (av_sendchal st)
       (control32 (control16 (controls (controls (controlnew 3) 7 (hostname_of t g) True) 8 Vendor_name True)
          2 (av_version st) True) 3 3 True))
       9 (of_nat t) True"

definition tunnel_up :: "tunnelidt \<Rightarrow> l2tpns \<Rightarrow> l2tpns" where
  "tunnel_up t g = upd_tunnel t (\<lambda>x. x\<lparr>t_state := TUNNELOPEN, t_lastrec := word_of_int (g_time_now g)\<rparr>) g"

definition msg_SCCRQ :: "tunnelidt \<Rightarrow> avpst \<Rightarrow> l2tpns \<Rightarrow> l2tpns" where
  "msg_SCCRQ t st g =
     (let g1 = upd_tunnel t (\<lambda>x. x\<lparr>t_state := TUNNELOPENING\<rparr>) g in
      if g_quit_shutdown g1 then shut_down t g1 else g_controladd (sccrp t st g1) 0 t g1)"

definition msg_SCCRP :: "tunnelidt \<Rightarrow> avpst \<Rightarrow> l2tpns \<Rightarrow> l2tpns" where
  "msg_SCCRP t st g =
     (let g1 = tunnel_up t g in
      if g_quit_shutdown g1 then shut_down t g1
      else case av_recvchal st of
        None \<Rightarrow> g1
      | Some r \<Rightarrow>
          if t_isremotelns (g_tunnel g1 t) = 0 then g1
          else if lac_calc_rlns_auth t 2 g1 = r then g_controladd (scccn t st g1) 0 t g1
          else tunnelshutdown t ''Bad chap response from REMOTE LNS'' 4 0 None g1)"

text \<open>
  An incoming call takes a session of the free list, after the session with the same number of the same tunnel,
  if there is one, has been killed; the test for a free session comes before that.
\<close>

definition same_call :: "tunnelidt \<Rightarrow> u16 \<Rightarrow> l2tpns \<Rightarrow> sessionidt \<Rightarrow> bool" where
  "same_call t far g s \<longleftrightarrow>
     s_opened (g_session g s) \<noteq> 0 \<and> s_tunnel (g_session g s) = t \<and> s_far (g_session g s) = unat far"

definition call_session :: "tunnelidt \<Rightarrow> u16 \<Rightarrow> l2tpns \<Rightarrow> l2tpns \<times> sessionidt" where
  "call_session t far g =
     (case find (same_call t far g) [1..<cf_cluster_highest_sessionid (g_cfg g) + 1] of
        None \<Rightarrow> (g, g_sessionfree g)
      | Some s \<Rightarrow>
          let g1 = sessionkill s None TERM_ADMIN_RESET g
          in (g1, if s > cf_cluster_highest_sessionid (g_cfg g1) then g_sessionfree g1 else s))"

definition new_call :: "tunnelidt \<Rightarrow> u16 \<Rightarrow> string \<Rightarrow> string \<Rightarrow> sessionidt \<Rightarrow> l2tpns \<Rightarrow> l2tpns" where
  "new_call t far called calling s g =
     (let g1 = upd_session s (\<lambda>_. session_zero) (g\<lparr>g_sessionfree := s_next (g_session g s)\<rparr>);
          g2 = upd_cfg (\<lambda>c. c\<lparr>cf_cluster_highest_sessionid := max (cf_cluster_highest_sessionid c) s\<rparr>) g1;
          g3 = upd_session s (\<lambda>x. x\<lparr>s_opened := word_of_int (g_time_now g), s_tunnel := t, s_far := unat far,
                 s_last_packet := g_time_now g, s_last_data := g_time_now g\<rparr>) g2;
          g4 = g_controladd (control16 (controlnew 11) 14 (of_nat s) True) (unat far) t g3
      in upd_session s (\<lambda>x. x\<lparr>s_called := called, s_calling := calling,
           s_ppp := (s_ppp x)\<lparr>phase := Establish, lcp := Starting\<rparr>\<rparr>) g4)"

text \<open>The flag tells whether the tunnel is announced to the cluster.\<close>

definition msg_ICRQ :: "tunnelidt \<Rightarrow> avpst \<Rightarrow> l2tpns \<Rightarrow> l2tpns \<times> bool" where
  "msg_ICRQ t st g =
     (if g_sessionfree g \<noteq> 0 \<and> \<not> g_quit_shutdown g then
        let (g1, s) = call_session t (av_asession st) g
        in (new_call t (av_asession st) (av_called st) (av_calling st) s g1, True)
      else
        let c = (if g_sessionfree g = 0 then control16 (controlnew 14) 1 4 False else control16 (controlnew 14) 1 2 True)
        in (g_controladd c (unat (av_asession st)) t g, False))"

definition msg_ICRP :: "tunnelidt \<Rightarrow> sessionidt \<Rightarrow> avpst \<Rightarrow> l2tpns \<Rightarrow> l2tpns" where
  "msg_ICRP t s st g =
     (if s_forwardtosession (g_session g s) = 0 then g
      else
        let g1 = upd_session s (\<lambda>x. x\<lparr>s_opened := word_of_int (g_time_now g), s_tunnel := t,
                   s_far := unat (av_asession st), s_last_packet := g_time_now g, s_last_data := g_time_now g\<rparr>) g
        in g_controladd (control32 (control32 (controlnew 12) 19 1 True) 24 10000000 True) (unat (av_asession st)) t g1)"

definition msg_ICCN :: "tunnelidt \<Rightarrow> sessionidt \<Rightarrow> avpst \<Rightarrow> l2tpns \<Rightarrow> l2tpns" where
  "msg_ICCN t s st g =
     (let cfg = g_cfg g;
          magic = (if av_amagic st = 0 then word_of_int (g_time_now g) else av_amagic st);
          mru = (if cf_pppoe_mru cfg > 0 then word_of_int (cf_pppoe_mru cfg) else PPPoE_MRU);
          g1 = g_controlnull t (upd_session s (\<lambda>x. x\<lparr>s_magic := magic, s_flags := av_aflags st, s_mru := mru\<rparr>) g);
          a = (if cf_iftun_address cfg \<noteq> 0 then cf_iftun_address cfg else cf_my_address cfg);
          g2 = upd_local s (\<lambda>x. x\<lparr>l_lcp_authtype := cf_radius_authprefer cfg, l_ppp_mru := g_MRU g1, l_mp_mrru := 1614,
                 l_mp_epdis := htonl a\<rparr>) g1
      in change_state s FLcp RequestSent (sendlcp s t g2))"

definition run_msg :: "tunnelidt \<Rightarrow> sessionidt \<Rightarrow> avpst \<Rightarrow> l2tpns \<Rightarrow> l2tpns \<times> bool" where
  "run_msg t s st g =
     (let ty = unat (av_message st) in
      if bit (av_fatal st) 7
      then (tunnelshutdown t ''Invalid mandatory AVP'' (av_result st) (av_error st) (av_msg st) g, True)
      else if ty = 1 then (msg_SCCRQ t st g, True)
      else if ty = 2 then (msg_SCCRP t st g, True)
      else if ty = 3 then (g_controlnull t (tunnel_up t g), True)
      else if ty = 4 then (tunnelshutdown t ''Stopped'' 0 0 None (g_controlnull t g), True)
      else if ty = 6 then (g_controlnull t g, True)
      else if ty \<in> {7, 8, 9} then (g, True)
      else if ty = 10 then msg_ICRQ t st g
      else if ty = 11 then (msg_ICRP t s st g, True)
      else if ty = 12 then (msg_ICCN t s st g, True)
      else if ty = 14 then (sessionshutdown s (av_reason st) 0 0 (av_cause st) (g_controlnull t g), True)
      else if ty = 0xFFFF then (g, True)
      else if av_mandatory st
      then (tunnelshutdown t ''Unknown message type'' 2 6 (Some (chars ''unknown message type'')) g, True)
      else (g, True))"

definition run_message :: "tunnelidt \<Rightarrow> sessionidt \<Rightarrow> avpst \<times> l2tpns \<times> bool \<Rightarrow> l2tpns" where
  "run_message t s r =
     (let (st, g, complete) = r in
      if \<not> complete then g
      else let (g1, announce) = run_msg t s st g in if announce then cluster_send_tunnel t g1 else g1)"

text \<open>None when the loop over the AVPs does not end.\<close>

definition process_control :: "mem \<Rightarrow> l2tp_hdr \<Rightarrow> in_addr \<Rightarrow> u16 \<Rightarrow> nat \<Rightarrow> l2tpns \<Rightarrow> l2tpns outcome option" where
  "process_control m h ip port index g =
     (let (g1, t) = control_tunnel h ip port index g in
      if t = 0 then Some (Ret g1)
      else
        let (g2, go) = g_check_sequence (h_left h) (h_ns h) (h_nr h) t g1 in
        if \<not> go then Some (Ret g2)
        else map_option (\<lambda>r. obind r (\<lambda>x. Ret (run_message t (h_session h) x)))
               (avp_loop m (h_session h) t (h_pos h) (h_left h) avps_none g2))"

subsection \<open>PPP frames\<close>

text \<open>
  The protocol of a frame, with its payload and length: an address field is skipped, a protocol field may have
  one byte. None when there are fewer than two bytes.
\<close>

definition skip_address :: "mem \<Rightarrow> nat \<Rightarrow> mem \<times> nat" where
  "skip_address m l = (if l > 2 \<and> m 0 = 0xFF \<and> m 1 = 0x03 then (\<lambda>i. m (i + 2), l - 2) else (m, l))"

definition frame_proto :: "mem \<Rightarrow> nat \<Rightarrow> (u16 \<times> mem \<times> nat) option" where
  "frame_proto m l =
     (if l < 2 then None
      else if bit (m 0) 0 then Some (ucast (m 0), \<lambda>i. m (i + 1), l - 1)
      else Some (rd16 m 0, \<lambda>i. m (i + 2), l - 2))"

definition ppp_frame_of :: "mem \<Rightarrow> nat \<Rightarrow> (u16 \<times> mem \<times> nat) option" where
  "ppp_frame_of m l = (let (m, l) = skip_address m l in frame_proto m l)"

text \<open>
  A frame for a session. \<open>fwd\<close> forwards the packet it came in to the master. A frame of a PPPoE session is
  processed even when the session is closing, and its DHCPv6 packets are not forwarded (\<open>pppoe\<close>).
\<close>

definition on_master :: "(l2tpns \<Rightarrow> l2tpns) \<Rightarrow> (l2tpns \<Rightarrow> l2tpns outcome) \<Rightarrow> l2tpns \<Rightarrow> l2tpns outcome" where
  "on_master fwd f g = (if cf_cluster_iam_master (g_cfg g) then f g else Ret (fwd g))"

definition unless_dying :: "bool \<Rightarrow> sessionidt \<Rightarrow> (l2tpns \<Rightarrow> l2tpns outcome) \<Rightarrow> l2tpns \<Rightarrow> l2tpns outcome" where
  "unless_dying pppoe s f g =
     (if \<not> pppoe \<and> s_die (g_session g s) \<noteq> 0 then Ret g else f (touch_data s g))"

definition outside_garden :: "(l2tpns \<Rightarrow> l2tpns) \<Rightarrow> sessionidt \<Rightarrow> (l2tpns \<Rightarrow> l2tpns outcome) \<Rightarrow> l2tpns \<Rightarrow> l2tpns outcome" where
  "outside_garden fwd s f g =
     (if s_walled_garden (g_session g s) \<noteq> 0 \<and> \<not> cf_cluster_iam_master (g_cfg g) then Ret (fwd g) else f g)"

definition process_ppp :: "bool \<Rightarrow> (l2tpns \<Rightarrow> l2tpns) \<Rightarrow> bool \<Rightarrow> sessionidt \<Rightarrow> tunnelidt \<Rightarrow> u16 \<Rightarrow> mem \<Rightarrow> nat \<Rightarrow> l2tpns \<Rightarrow>
    l2tpns outcome" where
  "process_ppp pppoe fwd tun s t proto m l g =
     (if proto = PPPPAP then on_master fwd (\<lambda>g. Ret (processpap s t m l g)) (touch s g)
      else if proto = PPPCHAP then on_master fwd (\<lambda>g. Ret (processchap s t m l g)) (touch s g)
      else if proto = PPPLCP then on_master fwd (processlcp s t m l) (touch s g)
      else if proto = PPPIPCP then on_master fwd (processipcp s t m l) (touch s g)
      else if proto = PPPIPV6CP \<and> ipv6_on g then on_master fwd (processipv6cp s t m l) (touch s g)
      else if proto = PPPCCP then on_master fwd (processccp s t m l) (touch s g)
      else if proto = PPPIP then unless_dying pppoe s (outside_garden fwd s (processipin tun s t m l)) g
      else if proto = PPPMP then unless_dying pppoe s (on_master fwd (processmpin tun s t m l)) g
      else if proto = PPPIPV6 \<and> ipv6_on g then
        unless_dying pppoe s (outside_garden fwd s (\<lambda>g.
          if \<not> pppoe \<and> \<not> cf_cluster_iam_master (g_cfg g) \<and> is_dhcpv6 m then Ret (fwd g)
          else processipv6in tun s t m l g)) g
      else if lcp (s_ppp (g_session g s)) = Opened then on_master fwd (protoreject s t m l proto) (touch s g)
      else Ret g)"

definition process_data :: "bool \<Rightarrow> mem \<Rightarrow> nat \<Rightarrow> l2tp_hdr \<Rightarrow> in_addr \<Rightarrow> u16 \<Rightarrow> nat \<Rightarrow> l2tpns \<Rightarrow> l2tpns outcome" where
  "process_data tun m len h ip port index g =
     (let s = h_session h; t = h_tunnel h; buf = map m [0..<len];
          fwd = master_forward_packet buf ip port (of_nat index)
      in case ppp_frame_of (\<lambda>i. m (h_pos h + i)) (h_left h) of
           None \<Rightarrow> Ret g
         | Some (proto, m, l) \<Rightarrow>
             if s_forwardtosession (g_session g s) \<noteq> 0
             then obind (lac_session_forward buf s proto ip port (of_nat index) g) (\<lambda>(g', _). Ret g')
             else
               let g1 = (if cf_auth_tunnel_change_addr_src (g_cfg g) \<and> t_ip (g_tunnel g t) \<noteq> ip \<and>
                            t_port (g_tunnel g t) = ntohs port
                         then upd_tunnel t (\<lambda>x. x\<lparr>t_ip := ip\<rparr>) g else g)
               in if s \<noteq> 0 \<and> s_opened (g_session g1 s) = 0
                  then Ret (if cf_cluster_iam_master (g_cfg g1) then g1 else fwd g1)
                  else process_ppp False fwd tun s t proto m l g1)"

subsection \<open>Packets\<close>

text \<open>A packet keeps an open tunnel alive.\<close>

definition heard :: "l2tp_hdr \<Rightarrow> l2tpns \<Rightarrow> l2tpns" where
  "heard h g =
     (let t = h_tunnel h in
      if t \<noteq> 0 \<and> t_state (g_tunnel g t) = TUNNELOPEN
      then upd_tunnel t (\<lambda>x. x\<lparr>t_lastrec := word_of_int (g_time_now g)\<rparr>) g else g)"

definition processudp :: "bool \<Rightarrow> mem \<Rightarrow> nat \<Rightarrow> in_addr \<Rightarrow> u16 \<Rightarrow> nat \<Rightarrow> l2tpns \<Rightarrow> l2tpns outcome option" where
  "processudp tun m len ip port index g =
     (case parse_header m len of
        None \<Rightarrow> Some (Ret g)
      | Some h \<Rightarrow>
          let g1 = heard h g in
          if bit (h_flags h) 7 then
            if \<not> cf_cluster_iam_master (g_cfg g1)
            then Some (Ret (master_forward_packet (map m [0..<len]) ip port (of_nat index) g1))
            else if h_flags h AND 0xCB \<noteq> 0xC8 then Some (Ret g1)
            else process_control m h ip (ntohs port) index g1
          else Some (process_data tun m len h ip port index g1))"

definition processtun :: "bool \<Rightarrow> mem \<Rightarrow> nat \<Rightarrow> l2tpns \<Rightarrow> l2tpns outcome" where
  "processtun tun buf len g =
     (if len < 22 then Ret g
      else if rd16 buf 2 = PKTIP then processipout tun buf len g
      else if rd16 buf 2 = PKTIPV6 \<and> ipv6_on g then processipv6out tun buf len g
      else Ret g)"

definition process_pppoe_sess :: "bool \<Rightarrow> mem \<Rightarrow> nat \<Rightarrow> l2tpns \<Rightarrow> l2tpns outcome" where
  "process_pppoe_sess tun pack len g =
     (let s = unat (rd16 pack 16); t = TUNNEL_ID_PPPOE;
          fwd = master_forward_pppoe_packet (map pack [0..<len]) (pack 15)
      in if s \<ge> MAXSESSION then Ret g
         else if s_tunnel (g_session g s) \<noteq> t
         then Ret (if cf_cluster_iam_master (g_cfg g) then g else fwd g)
         else if drop_bit 4 (pack 14) \<noteq> 1 \<or> pack 14 AND 0xF \<noteq> 1 then Ret g
         else case ppp_frame_of (\<lambda>i. pack (20 + i)) (unat (rd16 pack 18)) of
           None \<Rightarrow> Ret g
         | Some (proto, m, l) \<Rightarrow>
             if s_forwardtosession (g_session g s) \<noteq> 0
             then Ret (pppoe_forwardto_session_rmlns pack s proto g)
             else process_ppp True fwd tun s t proto m l g)"

definition pppoe_process_forward :: "bool \<Rightarrow> mem \<Rightarrow> nat \<Rightarrow> l2tpns \<Rightarrow> l2tpns outcome" where
  "pppoe_process_forward tun pack len g =
     (if rd16 pack 12 = ETH_P_PPP_DISC then process_pppoe_disc pack len g
      else if rd16 pack 12 = ETH_P_PPP_SES then process_pppoe_sess tun pack len g
      else Ret g)"

end
