(* ===== verification/L2tpInv.thy ===== *)
theory L2tpInv
  imports L2tp
begin

text \<open>
  Properties of the packets received: when \<open>processudp\<close> returns, what an incoming call does to the list of
  free sessions, and that the frames the server builds read back.
\<close>

subsection \<open>Returning\<close>


definition hello :: bytes where
  "hello = [0xC8, 2, 0, 20, 0, 2, 0, 0, 0, 0, 0, 0, 0x80, 8, 0, 0, 0, 0, 0, 6]"

lemma hello_bytes:
  "bytes_mem hello 0 = 0xC8" "bytes_mem hello (Suc 0) = 2" "bytes_mem hello 2 = 0" "bytes_mem hello 3 = 20"
  "bytes_mem hello 4 = 0" "bytes_mem hello 5 = 2" "bytes_mem hello 6 = 0" "bytes_mem hello 7 = 0"
  "bytes_mem hello 8 = 0" "bytes_mem hello 9 = 0" "bytes_mem hello 10 = 0" "bytes_mem hello 11 = 0"
  "bytes_mem hello 12 = 0x80" "bytes_mem hello 13 = 8"
  by (simp_all add: hello_def bytes_mem_def)

lemma hello_header:
  "parse_header (bytes_mem hello) 20 =
     Some \<lparr>h_flags = 0xC8, h_tunnel = 2, h_session = 0, h_ns = 0, h_nr = 0, h_pos = 12, h_left = 8\<rparr>"
  by (simp add: parse_header_def Let_def rd16_def hello_bytes MAXSESSION_def MAXTUNNEL_def TUNNEL_ID_PPPOE_def)


text \<open>
  C35: one datagram stops the daemon: when the next control message of a tunnel, or the first one of a new
  tunnel, begins with an AVP of length zero without the mandatory bit, \<open>processudp\<close> never returns.
\<close>

theorem zero_length_avp_hangs:
  assumes "parse_header m len = Some h" and "h_flags h AND 0xCB = 0xC8" and "cf_cluster_iam_master (g_cfg g)"
    and "control_tunnel h ip (ntohs port) index (heard h g) = (g1, t)" and "t \<noteq> 0"
    and "h_ns h = t_nr (g_tunnel g1 t)" and "h_left h \<noteq> 0" and "stuck_avp m (h_pos h)"
  shows "processudp tun m len ip port index g = None"
proof -
  obtain g2 where seq: "g_check_sequence (h_left h) (h_ns h) (h_nr h) t g1 = (g2, True)"
    using assms(6,7)
    by (cases "in_sequence (g_clk g1) (h_left h) (h_ns h) (h_nr h) t (g_tunnel g1 t)")
      (simp add: g_check_sequence_def check_sequence_def)
  have "bit (h_flags h AND 0xCB) 7" unfolding assms(2) by (simp add: bit_simps)
  then have flag: "bit (h_flags h) 7" by (simp add: bit_simps)
  have "\<not> bit (av_fatal avps_none) 7" by (simp add: avps_none_def)
  then have "avp_loop m (h_session h) t (h_pos h) (h_left h) avps_none g2 = None"
    using avp_loop_diverges assms(7,8) by (metis not_Some_eq)
  moreover have "cf_cluster_iam_master (g_cfg (heard h g))" using assms(3) by (simp add: heard_def Let_def upd_tunnel_def)
  ultimately show ?thesis
    using assms(1,2,4,5) seq flag by (simp add: processudp_def process_control_def)
qed

definition zero_avp :: bytes where
  "zero_avp = [0xC8, 2, 0, 18, 0, 0, 0, 0, 0, 0, 0, 0, 0, 0, 0, 0, 0, 0]"

lemma zero_avp_bytes:
  "bytes_mem zero_avp 0 = 0xC8" "bytes_mem zero_avp (Suc 0) = 2" "bytes_mem zero_avp 2 = 0" "bytes_mem zero_avp 3 = 18"
  "bytes_mem zero_avp 4 = 0" "bytes_mem zero_avp 5 = 0" "bytes_mem zero_avp 6 = 0" "bytes_mem zero_avp 7 = 0"
  "bytes_mem zero_avp 8 = 0" "bytes_mem zero_avp 9 = 0" "bytes_mem zero_avp 10 = 0" "bytes_mem zero_avp 11 = 0"
  "bytes_mem zero_avp 12 = 0" "bytes_mem zero_avp 13 = 0" "bytes_mem zero_avp 16 = 0" "bytes_mem zero_avp 17 = 0"
  by (simp_all add: zero_avp_def bytes_mem_def)

definition fresh_server :: "l2tpns \<Rightarrow> l2tpns" where
  "fresh_server g = upd_cfg (\<lambda>c. c\<lparr>cf_cluster_iam_master := True, cf_cluster_highest_tunnelid := 0\<rparr>) (g\<lparr>g_tunnel := (\<lambda>_. tunnel_zero)\<rparr>)"

lemma zero_length_avp_hangs_witness:
  "\<forall>g. processudp True (bytes_mem zero_avp) 18 0x0A000001 0xA506 0 (fresh_server g) = None"
proof
  fix g :: l2tpns
  let ?m = "bytes_mem zero_avp" and ?g = "fresh_server g"
  let ?h = "\<lparr>h_flags = 0xC8, h_tunnel = 0, h_session = 0, h_ns = 0, h_nr = 0, h_pos = 12, h_left = 6\<rparr>"
  have h: "parse_header ?m 18 = Some ?h"
    by (simp add: parse_header_def Let_def rd16_def zero_avp_bytes MAXSESSION_def MAXTUNNEL_def TUNNEL_ID_PPPOE_def)
  have "[1..<MAXTUNNEL] = 1 # 2 # [3..<MAXTUNNEL]"
    using upt_conv_Cons [of 1 MAXTUNNEL] upt_conv_Cons [of 2 MAXTUNNEL] by (simp add: MAXTUNNEL_def numeral_2_eq_2 numeral_3_eq_3 del: upt_Suc)
  then have "new_tunnel ?g = (upd_cfg (\<lambda>c. c\<lparr>cf_cluster_highest_tunnelid := max (cf_cluster_highest_tunnelid c) 2\<rparr>) ?g, 2)"
    by (simp add: new_tunnel_def fresh_server_def upd_cfg_def tunnel_zero_def TUNNEL_ID_PPPOE_def)
  then obtain g1 where t: "control_tunnel ?h 0x0A000001 (ntohs 0xA506) 0 (heard ?h ?g) = (g1, 2)"
    and nr: "t_nr (g_tunnel g1 2) = 0"
    by (simp add: control_tunnel_def heard_def Let_def fresh_server_def upd_cfg_def tunnelclear_def upd_tunnel_def tunnel_zero_def)
  have stuck: "stuck_avp ?m (h_pos ?h)"
    by (simp add: stuck_avp_def avp_len_def rd16_def zero_avp_bytes)
  show "processudp True ?m 18 0x0A000001 0xA506 0 ?g = None"
    by (rule zero_length_avp_hangs [OF h _ _ t _ _ _ stuck]) (simp_all add: nr fresh_server_def upd_cfg_def)
qed

subsection \<open>Incoming calls\<close>

lemma new_call_effect:
  fixes t :: tunnelidt and far :: u16 and called calling :: string and g :: l2tpns
  assumes "freelist g (s # xs)"
  defines "g' \<equiv> new_call t far called calling s g"
  shows "freelist g' xs"
    and "s_opened (g_session g' s) = word_of_int (g_time_now g')" "s_tunnel (g_session g' s) = t" "s_far (g_session g' s) = unat far"
    and "i \<noteq> s \<Longrightarrow> g_session g' i = g_session g i"
proof -
  obtain x where sess: "g_session g' = (g_session g)(s := x)"
    and x: "s_opened x = word_of_int (g_time_now g')" "s_tunnel x = t" "s_far x = unat far"
    and free: "g_sessionfree g' = s_next (g_session g s)"
    by (cases "controladd (g_clk g) (control16 (controlnew 11) 14 (of_nat s) True) (of_nat (unat far)) t (g_tunnel g t)")
      (simp add: g'_def new_call_def Let_def g_controladd_def on_tunnel_def upd_session_def upd_cfg_def g_clk_def split: prod.splits)
  have fl: "free_chain (g_session g) (s_next (g_session g s)) xs" "distinct xs" "s \<notin> set xs" "\<forall>i \<in> set xs. s_opened (g_session g i) = 0"
    using assms(1) by (auto simp: freelist_def)
  then have "free_chain (g_session g') (s_next (g_session g s)) xs"
    unfolding sess using free_chain_cong [of xs "(g_session g)(s := x)" "g_session g"] by (metis fun_upd_other)
  then show "freelist g' xs" using fl by (auto simp: freelist_def free sess)
  show "s_opened (g_session g' s) = word_of_int (g_time_now g')" "s_tunnel (g_session g' s) = t" "s_far (g_session g' s) = unat far"
    "i \<noteq> s \<Longrightarrow> g_session g' i = g_session g i"
    using x by (simp_all add: sess)
qed

lemma find_member: "find P xs = Some x \<Longrightarrow> P x \<and> x \<in> set xs"
  by (auto simp: find_Some_iff)

lemma call_session_effect:
  assumes "freelist g xs" and "xs \<noteq> []" and "\<And>i. s_opened (g_session g i) \<noteq> 0 \<Longrightarrow> s_next (g_session g i) = 0"
    and "call_session t far g = (g1, s)"
    and "old = find (same_call t far g) [1..<cf_cluster_highest_sessionid (g_cfg g) + 1]"
  shows "(case old of None \<Rightarrow> s = hd xs \<and> freelist g1 (s # tl xs) | Some s' \<Rightarrow> s = s' \<and> freelist g1 (s # xs))"
    and "i \<noteq> s \<Longrightarrow> sess_core (g_session g1 i) = sess_core (g_session g i)"
proof -
  have "(case old of None \<Rightarrow> s = hd xs \<and> freelist g1 (s # tl xs) | Some s' \<Rightarrow> s = s' \<and> freelist g1 (s # xs)) \<and>
    (i \<noteq> s \<longrightarrow> sess_core (g_session g1 i) = sess_core (g_session g i))"
  proof (cases old)
    case None
    then have "g1 = g" "s = g_sessionfree g" using assms(4,5) by (auto simp: call_session_def)
    moreover have "g_sessionfree g = hd xs" using assms(1,2) by (cases xs) (simp_all add: freelist_def)
    ultimately show ?thesis using None assms(1,2) by simp
  next
    case (Some s')
    then have found: "find (same_call t far g) [1..<cf_cluster_highest_sessionid (g_cfg g) + 1] = Some s'"
      using assms(5) by simp
    then have s': "same_call t far g s'" "1 \<le> s'" "s' \<le> cf_cluster_highest_sessionid (g_cfg g)"
      using find_member [of "same_call t far g" "[1..<cf_cluster_highest_sessionid (g_cfg g) + 1]" s']
      by (simp_all del: upt_Suc)
    have pre: "s_opened (g_session g s') \<noteq> 0" "s_next (g_session g s') = 0" "s' \<noteq> 0"
      using s' assms(3) by (auto simp: same_call_def)
    note eff = sessionkill_effect [where reason = None and tc = TERM_ADMIN_RESET, OF pre]
    have "g1 = sessionkill s' None TERM_ADMIN_RESET g" "s = s'"
      using assms(4) s'(3) eff(4) unfolding call_session_def found by (auto simp: Let_def)
    then show ?thesis using Some eff(3,5) assms(1) by simp
  qed
  then show "(case old of None \<Rightarrow> s = hd xs \<and> freelist g1 (s # tl xs) | Some s' \<Rightarrow> s = s' \<and> freelist g1 (s # xs))"
    "i \<noteq> s \<Longrightarrow> sess_core (g_session g1 i) = sess_core (g_session g i)" by simp_all
qed

text \<open>
  C32: an incoming call opens exactly one session. It is the first of the list of free sessions, which loses only
  it; or, when the tunnel already has an open session with the number of the caller, that one, killed before,
  and the list stays as it is. Every other session keeps its tunnel, its links and whether it is open.
\<close>

theorem icrq_takes_free_session:
  assumes "freelist g xs" and "xs \<noteq> []" and "\<And>i. s_opened (g_session g i) \<noteq> 0 \<Longrightarrow> s_next (g_session g i) = 0"
    and "\<not> g_quit_shutdown g" and "msg_ICRQ t st g = (g', announce)"
  shows "\<exists>s. (case find (same_call t (av_asession st) g) [1..<cf_cluster_highest_sessionid (g_cfg g) + 1] of
               None \<Rightarrow> s = hd xs \<and> freelist g' (tl xs) | Some s' \<Rightarrow> s = s' \<and> freelist g' xs) \<and>
    s_opened (g_session g' s) = word_of_int (g_time_now g') \<and> s_tunnel (g_session g' s) = t \<and>
    s_far (g_session g' s) = unat (av_asession st) \<and>
    (\<forall>i. i \<noteq> s \<longrightarrow> sess_core (g_session g' i) = sess_core (g_session g i))"
proof -
  obtain g1 s where call: "call_session t (av_asession st) g = (g1, s)" by fastforce
  have "g_sessionfree g \<noteq> 0" using assms(1,2) by (cases xs) (auto simp: freelist_def)
  then have g': "g' = new_call t (av_asession st) (av_called st) (av_calling st) s g1"
    using assms(4,5) call by (simp add: msg_ICRQ_def)
  define old where "old = find (same_call t (av_asession st) g) [1..<cf_cluster_highest_sessionid (g_cfg g) + 1]"
  note c = call_session_effect [OF assms(1-3) call old_def]
  define ys where "ys = (if old = None then tl xs else xs)"
  have s: "case old of None \<Rightarrow> s = hd xs | Some s' \<Rightarrow> s = s'" and fl: "freelist g1 (s # ys)"
    using c(1) by (cases old; simp add: ys_def)+
  note n = new_call_effect [where t = t and far = "av_asession st" and called = "av_called st" and calling = "av_calling st",
      OF fl, folded g']
  have "case old of None \<Rightarrow> s = hd xs \<and> freelist g' (tl xs) | Some s' \<Rightarrow> s = s' \<and> freelist g' xs"
    using s n(1) by (cases old) (simp_all add: ys_def)
  moreover have "\<forall>i. i \<noteq> s \<longrightarrow> sess_core (g_session g' i) = sess_core (g_session g i)" using n(5) c(2) by simp
  ultimately show ?thesis using n(2-4) unfolding old_def by blast
qed

definition call_server :: "l2tpns \<Rightarrow> l2tpns" where
  "call_server g =
     upd_cfg (\<lambda>c. c\<lparr>cf_cluster_highest_sessionid := 0\<rparr>)
       (g\<lparr>g_session := (\<lambda>_. session_zero)(7 := session_zero\<lparr>s_next := 9\<rparr>), g_sessionfree := 7, g_quit_shutdown := False\<rparr>)"

lemma icrq_takes_free_session_witness:
  "\<forall>g. let g' = fst (msg_ICRQ 3 (avps_none\<lparr>av_asession := 21\<rparr>) (call_server g))
       in freelist g' [9] \<and> s_tunnel (g_session g' 7) = 3 \<and> s_far (g_session g' 7) = 21"
proof
  fix g :: l2tpns
  let ?g = "call_server g" and ?st = "avps_none\<lparr>av_asession := 21\<rparr>"
  obtain g' a where icrq: "msg_ICRQ 3 ?st ?g = (g', a)" by fastforce
  have fl: "freelist ?g [7, 9]" and next0: "\<And>i. s_opened (g_session ?g i) \<noteq> 0 \<Longrightarrow> s_next (g_session ?g i) = 0"
    and quit: "\<not> g_quit_shutdown ?g" and high: "cf_cluster_highest_sessionid (g_cfg ?g) = 0"
    by (auto simp: freelist_def call_server_def upd_cfg_def session_zero_def split: if_splits)
  from icrq_takes_free_session [OF fl _ next0 quit icrq]
  show "let g' = fst (msg_ICRQ 3 ?st ?g) in freelist g' [9] \<and> s_tunnel (g_session g' 7) = 3 \<and> s_far (g_session g' 7) = 21"
    by (auto simp: icrq high)
qed

subsection \<open>Frames\<close>

lemma bytes_mem_shift: "bytes_mem (xs @ ys) (length xs + i) = bytes_mem ys i"
  by (simp add: bytes_mem_def nth_append)

lemma bytes_mem_Cons: "bytes_mem (x # xs) 0 = x" "bytes_mem (x # xs) (Suc i) = bytes_mem xs i"
  by (simp_all add: bytes_mem_def)

lemma bytes_mem_all: "map (bytes_mem xs) [0..<length xs] = xs"
  by (rule nth_equalityI) (simp_all add: bytes_mem_def)

text \<open>The number of a protocol has an odd low byte and an even high byte, and is not 0xFF.\<close>

definition ppp_number :: "u16 \<Rightarrow> bool" where
  "ppp_number ty \<longleftrightarrow> bit ty 0 \<and> \<not> bit ty 8 \<and> ty \<noteq> 0xFF"

definition proto_field :: "bool \<Rightarrow> u16 \<Rightarrow> bytes" where
  "proto_field short ty = (if short then [ucast ty] else be16 ty)"

lemma frame_proto_read:
  assumes "ppp_number ty" and "short \<Longrightarrow> ty < 0x100" and "data \<noteq> []"
  shows "frame_proto (bytes_mem (proto_field short ty @ data)) (length (proto_field short ty @ data)) =
    Some (ty, bytes_mem data, length data)" and "hd (proto_field short ty @ data) \<noteq> 0xFF"
proof -
  have len: "\<not> length (proto_field short ty @ data) < 2" using assms(3) by (cases data) (simp_all add: proto_field_def be16_def)
  have "frame_proto (bytes_mem (proto_field short ty @ data)) (length (proto_field short ty @ data)) =
      Some (ty, bytes_mem data, length data) \<and> hd (proto_field short ty @ data) \<noteq> 0xFF"
  proof (cases short)
    case True
    have low: "ucast (ucast ty :: u8) = ty"
      using assms(2) [OF True] by (intro word_unat_eq_iff [THEN iffD2]) (simp add: unsigned_ucast_eq word_less_nat_alt take_bit_eq_mod unat_mod)
    have "bit (ucast ty :: u8) 0" "(ucast ty :: u8) \<noteq> 0xFF"
      using assms(1) low by (auto simp: ppp_number_def bit_simps)
    then show ?thesis
      using True len low by (simp add: frame_proto_def proto_field_def bytes_mem_Cons)
  next
    case False
    have hi: "\<not> bit (ucast (drop_bit 8 ty) :: u8) 0" using assms(1) by (simp add: ppp_number_def bit_simps)
    then have "(ucast (drop_bit 8 ty) :: u8) \<noteq> 0xFF" by (metis bit_0 odd_numeral)
    moreover have "rd16 (bytes_mem (be16 ty @ data)) 0 = ty"
      by (auto simp: rd16_def be16_def bytes_mem_Cons bit_simps intro!: bit_word_eqI)
    ultimately show ?thesis
      using False hi len by (simp add: frame_proto_def proto_field_def be16_def bytes_mem_Cons)
  qed
  then show "frame_proto (bytes_mem (proto_field short ty @ data)) (length (proto_field short ty @ data)) =
    Some (ty, bytes_mem data, length data)" "hd (proto_field short ty @ data) \<noteq> 0xFF" by simp_all
qed

lemma skip_address_read:
  assumes "bs \<noteq> []" and "hd bs \<noteq> 0xFF"
  shows "skip_address (bytes_mem (be16 0xFF03 @ bs)) (length (be16 0xFF03 @ bs)) = (bytes_mem bs, length bs)"
    and "skip_address (bytes_mem bs) (length bs) = (bytes_mem bs, length bs)"
  using assms by (cases bs; simp add: skip_address_def be16_def bytes_mem_Cons)+

lemma rd16_be16: "rd16 (bytes_mem (be16 x @ ys)) 0 = x"
  by (auto simp: rd16_def be16_def bytes_mem_Cons bit_simps intro!: bit_word_eqI)

lemma rd16_at: "length xs = k \<Longrightarrow> rd16 (bytes_mem (xs @ be16 x @ ys)) k = x"
  using bytes_mem_shift [of xs "be16 x @ ys" 0] bytes_mem_shift [of xs "be16 x @ ys" 1] rd16_be16 [of x ys]
  by (auto simp: rd16_def)

text \<open>
  C33: a frame the server builds for one link of a tunnel reads back at the other end, where \<open>processudp\<close> finds the
  numbers of the tunnel and the session of the peer, the protocol and the payload. The protocol must be a number
  that PPP allows, and the payload not empty.
\<close>

theorem data_frame_roundtrip:
  assumes "makeppp sz (length data) s t ty False 0 0 g = (Some hdr, g')" and "sz < 65536" and "t \<noteq> TUNNEL_ID_PPPOE"
    and "unat (t_far (g_tunnel g t)) < MAXTUNNEL" and "unat (t_far (g_tunnel g t)) \<noteq> TUNNEL_ID_PPPOE"
    and "s_far (g_session g s) < MAXSESSION" and "ppp_number ty" and "data \<noteq> []"
  shows "\<exists>h. parse_header (bytes_mem (hdr @ data)) (length (hdr @ data)) = Some h \<and> \<not> bit (h_flags h) 7 \<and>
    h_tunnel h = unat (t_far (g_tunnel g t)) \<and> h_session h = s_far (g_session g s) \<and>
    ppp_frame_of (\<lambda>i. bytes_mem (hdr @ data) (h_pos h + i)) (h_left h) = Some (ty, bytes_mem data, length data)"
proof -
  let ?tf = "t_far (g_tunnel g t)" and ?sf = "s_far (g_session g s)" and ?fl = "s_flags (g_session g s)"
  define short where "short \<longleftrightarrow> ty < 0x100 \<and> bit ?fl 0"
  define addr where "addr = (if ty = PPPLCP \<or> \<not> bit ?fl 1 then be16 0xFF03 else [])"
  define f where "f = proto_field short ty @ data"
  have hdr: "hdr @ data = [0, 2] @ be16 ?tf @ be16 (of_nat ?sf) @ addr @ f" and fits: "length (hdr @ data) \<le> sz"
    using assms(1,3) makeppp_fits [OF assms(1)]
    by (auto simp: makeppp_def mp_bundle_def mp_part_def l2tp_data_header_def proto_field_def short_def addr_def f_def
        be16_def Let_def split: if_splits)
  let ?m = "bytes_mem (hdr @ data)" and ?n = "length (hdr @ data)"
  have shift: "?m (6 + i) = bytes_mem (addr @ f) i" for i
    using bytes_mem_shift [of "[0, 2] @ be16 ?tf @ be16 (of_nat ?sf)" "addr @ f" i] unfolding hdr by simp
  have n: "?n = 6 + length (addr @ f)" unfolding hdr by simp
  have "rd16 ?m 2 = ?tf" unfolding hdr by (rule rd16_at) simp
  moreover have "rd16 ?m 4 = of_nat ?sf"
    using rd16_at [of "[0, 2] @ be16 ?tf" 4 "of_nat ?sf" "addr @ f"] unfolding hdr by simp
  moreover have "unat (of_nat ?sf :: u16) = ?sf" using assms(6) by (simp add: MAXSESSION_def unat_of_nat)
  moreover have "?m 0 = 0" "?m 1 = 2" unfolding hdr by (simp_all add: bytes_mem_Cons)
  moreover have "?n mod 65536 = ?n" "6 \<le> ?n" using fits assms(2) n by simp_all
  ultimately have "parse_header ?m ?n =
      Some \<lparr>h_flags = 0, h_tunnel = unat ?tf, h_session = ?sf, h_ns = 0, h_nr = 0, h_pos = 6, h_left = ?n - 6\<rparr>"
    using assms(4-6) by (simp add: parse_header_def Let_def del: length_append)
  moreover have "ppp_frame_of (\<lambda>i. ?m (6 + i)) (?n - 6) = Some (ty, bytes_mem data, length data)"
  proof -
    note fp = frame_proto_read [OF assms(7) _ assms(8), of short, folded f_def]
    have fp': "frame_proto (bytes_mem f) (length f) = Some (ty, bytes_mem data, length data)" "f \<noteq> []" "hd f \<noteq> 0xFF"
      using fp assms(8) by (auto simp: short_def f_def)
    have "skip_address (bytes_mem (addr @ f)) (length (addr @ f)) = (bytes_mem f, length f)"
      using skip_address_read [OF fp'(2,3)] by (simp add: addr_def)
    then show ?thesis using fp'(1) n unfolding shift by (simp add: ppp_frame_of_def)
  qed
  ultimately show ?thesis by simp
qed

definition call_state :: "l2tpns \<Rightarrow> l2tpns" where
  "call_state g =
     upd_session 7 (\<lambda>_. session_zero\<lparr>s_tunnel := 3, s_far := 21\<rparr>) (upd_tunnel 3 (\<lambda>_. tunnel_zero\<lparr>t_far := 5\<rparr>) g)"

lemma data_frame_roundtrip_witness:
  "\<forall>g. \<exists>hdr h. fst (makeppp 100 3 7 3 PPPIP False 0 0 (call_state g)) = Some hdr \<and>
     parse_header (bytes_mem (hdr @ [1, 2, 3])) (length (hdr @ [1, 2, 3])) = Some h \<and> h_tunnel h = 5 \<and> h_session h = 21"
proof
  fix g :: l2tpns
  obtain hdr where mk: "makeppp 100 (length [1, 2, 3 :: u8]) 7 3 PPPIP False 0 0 (call_state g) = (Some hdr, call_state g)"
    by (simp add: makeppp_def mp_bundle_def mp_part_def next_seq_def Let_def l2tp_data_header_def ppp_protocols be16_def
        TUNNEL_ID_PPPOE_def call_state_def upd_session_def upd_tunnel_def session_zero_def)
  have far: "t_far (g_tunnel (call_state g) 3) = 5" "s_far (g_session (call_state g) 7) = 21" "ppp_number PPPIP"
    by (simp_all add: call_state_def upd_session_def upd_tunnel_def ppp_number_def ppp_protocols)
  have "fst (makeppp 100 3 7 3 PPPIP False 0 0 (call_state g)) = Some hdr" using mk by (simp add: numeral_3_eq_3)
  moreover have "\<exists>h. parse_header (bytes_mem (hdr @ [1, 2, 3])) (length (hdr @ [1, 2, 3])) = Some h \<and> h_tunnel h = 5 \<and> h_session h = 21"
    using data_frame_roundtrip [OF mk] far by (auto simp: MAXTUNNEL_def MAXSESSION_def TUNNEL_ID_PPPOE_def)
  ultimately show "\<exists>hdr h. fst (makeppp 100 3 7 3 PPPIP False 0 0 (call_state g)) = Some hdr \<and>
     parse_header (bytes_mem (hdr @ [1, 2, 3])) (length (hdr @ [1, 2, 3])) = Some h \<and> h_tunnel h = 5 \<and> h_session h = 21"
    by blast
qed

end
