(* ===== verification/Setup.thy ===== *)
theory Setup
  imports L2tp
begin

text \<open>
  The set-up of a session that has been authenticated: \<open>sessionsetup\<close> of \<^verbatim>\<open>src/l2tpns.c\<close>. The plugins are the
  record \<open>hooks\<close>, an argument of the operations that run them.
\<close>

subsection \<open>Plugins\<close>

text \<open>
  \<open>PLUGIN_POST_AUTH\<close> gets whether the login was accepted and whether it was CHAP, and may change the first;
  \<open>PLUGIN_RADIUS_RESPONSE\<close> gets the memory at its key, a C string, and its value.
\<close>

record hooks =
  hk_post_auth :: "sessionidt \<Rightarrow> bool \<Rightarrow> bool \<Rightarrow> l2tpns \<Rightarrow> l2tpns \<times> bool"
  hk_radius_response :: "sessionidt \<Rightarrow> mem \<Rightarrow> bytes \<Rightarrow> l2tpns \<Rightarrow> l2tpns"
  hk_radius_reset :: "sessionidt \<Rightarrow> l2tpns \<Rightarrow> l2tpns"
  hk_new_session :: "sessionidt \<Rightarrow> l2tpns \<Rightarrow> l2tpns"

definition no_hooks :: hooks where
  "no_hooks = \<lparr>hk_post_auth = (\<lambda>s ok chap g. (g, ok)), hk_radius_response = (\<lambda>s key val g. g),
     hk_radius_reset = (\<lambda>s g. g), hk_new_session = (\<lambda>s g. g)\<rparr>"

subsection \<open>Sessions\<close>

definition shutdown_setup :: "sessionidt \<Rightarrow> string \<Rightarrow> nat \<Rightarrow> nat \<Rightarrow> l2tpns \<Rightarrow> l2tpns" where
  "shutdown_setup s reason result error g = sessionshutdown s reason result error TERM_SERVICE_UNAVAILABLE g"

definition to_lower :: "char \<Rightarrow> char" where
  "to_lower c = (if of_char c \<in> {65..<91::nat} then char_of ((of_char c :: nat) + 32) else c)"

definition strcasecmp :: "string \<Rightarrow> string \<Rightarrow> bool" where
  "strcasecmp a b \<longleftrightarrow> map to_lower a = map to_lower b"

definition is_guest :: "string \<Rightarrow> l2tpns \<Rightarrow> bool" where
  "is_guest user g = list_ex (strcasecmp user) (cf_guest_users (g_cfg g))"

text \<open>
  Older sessions with the same address or user. The session \<open>s\<close> may itself be killed on the way, which ends the
  loop; the set-up then goes on with the session it has freed.
\<close>

definition same_ip_session :: "sessionidt \<Rightarrow> sessionidt \<Rightarrow> l2tpns \<Rightarrow> l2tpns" where
  "same_ip_session s i g =
     (if cf_suicide_duplicate_ip (g_cfg g) then sessionkill s (Some ''Duplicate IP. Suiciding'') TERM_CALLBACK g
      else if \<not> cf_allow_duplicate_ip (g_cfg g) then sessionkill i (Some ''Duplicate IP address'') TERM_ADMIN_RESET g
      else g)"

definition same_user_session :: "sessionidt \<Rightarrow> sessionidt \<Rightarrow> l2tpns \<Rightarrow> l2tpns" where
  "same_user_session s i g =
     (let x = g_session g s; y = g_session g i in
      if cf_allow_duplicate_users (g_cfg g) then g
      else if s_walled_garden x \<noteq> 0 \<or> s_walled_garden y \<noteq> 0 then g
      else if is_guest (s_user x) g then g
      else if strcasecmp (s_user x) (s_user y)
      then sessionshutdown i ''Duplicate session for users'' 3 0 TERM_ADMIN_RESET g
      else g)"

fun zap_sessions :: "sessionidt \<Rightarrow> in_addr \<Rightarrow> sessionidt list \<Rightarrow> l2tpns \<Rightarrow> l2tpns" where
  "zap_sessions s ip [] g = g"
| "zap_sessions s ip (i # is) g =
     (let x = g_session g s; y = g_session g i in
      if i = s then zap_sessions s ip is g
      else if s_opened x = 0 then g
      else if s_bundle x \<noteq> 0 \<and> s_bundle x = s_bundle y then zap_sessions s ip is g
      else if ip = s_ip y then zap_sessions s ip is (same_ip_session s i g)
      else zap_sessions s ip is (same_user_session s i g))"

text \<open>
  The routes of a session up to the first that is zero, and how many of them cover its address. (The shifts by
  32 and more that other prefix lengths than 1 to 32 ask for give zero here; C leaves them undefined.)
\<close>

definition covers_ip :: "in_addr \<Rightarrow> routet \<Rightarrow> bool" where
  "covers_ip ip rt \<longleftrightarrow> drop_bit (nat (32 - rt_prefixlen rt)) ip = drop_bit (nat (32 - rt_prefixlen rt)) (rt_ip rt)"

fun route_loop :: "sessionidt \<Rightarrow> nat list \<Rightarrow> nat \<Rightarrow> l2tpns \<Rightarrow> l2tpns \<times> nat" where
  "route_loop s [] routed g = (g, routed)"
| "route_loop s (r # rs) routed g =
     (let rt = s_route (g_session g s) r in
      if rt_ip rt = 0 then (g, routed)
      else route_loop s rs (if covers_ip (s_ip (g_session g s)) rt then routed + 1 else routed)
             (routeset s (rt_ip rt) (rt_prefixlen rt) 0 True g))"

definition setup_routes :: "sessionidt \<Rightarrow> l2tpns \<Rightarrow> l2tpns" where
  "setup_routes s g =
     (let b = s_bundle (g_session g s) in
      if b \<noteq> 0 \<and> b_num_of_links (g_bundle g b) \<noteq> 1 then g
      else
        let (g1, routed) = route_loop s [0..<MAXROUTE] 0 g; x = g_session g1 s in
        if s_ip_pool_index x = -1
        then if routed = 0 then routeset s (s_ip x) 0 0 True g1 else g1
        else cache_ip (s_ip x) (int s) g1)"

definition setup_open :: "hooks \<Rightarrow> sessionidt \<Rightarrow> tunnelidt \<Rightarrow> l2tpns \<Rightarrow> l2tpns" where
  "setup_open hk s t g =
     (let g1 = setup_routes s
                 (zap_sessions s (s_ip (g_session g s)) [1..<cf_cluster_highest_sessionid (g_cfg g) + 1] g);
          g2 = lcp_open s t (upd_local s (\<lambda>l. l\<lparr>l_lcp_authtype := 0\<rparr>) g1);
          g3 = hk_new_session hk s (out (PluginNewSession s) g2);
          x = g_session g3 s;
          g4 = (if s_throttle_in x \<noteq> 0 \<or> s_throttle_out x \<noteq> 0
                then throttle_session s (uint (s_throttle_in x)) (uint (s_throttle_out x)) g3 else g3)
      in cluster_send_session s
           (upd_session s (\<lambda>x. x\<lparr>s_last_packet := g_time_now g4, s_last_data := g_time_now g4\<rparr>) g4))"

definition setup_ip :: "hooks \<Rightarrow> sessionidt \<Rightarrow> tunnelidt \<Rightarrow> l2tpns \<Rightarrow> l2tpns" where
  "setup_ip hk s t g =
     (let g1 = (if s_ip (g_session g s) = 0 then fst (assign_ip_address s g) else g) in
      if s_ip (g_session g1 s) = 0 then shutdown_setup s ''No IP addresses available.'' 2 7 g1
      else setup_open hk s t (upd_session s (\<lambda>x. x\<lparr>s_tunnel := t\<rparr>) g1))"

definition sessionsetup :: "hooks \<Rightarrow> sessionidt \<Rightarrow> tunnelidt \<Rightarrow> l2tpns \<Rightarrow> l2tpns outcome" where
  "sessionsetup hk s t g =
     (let x = g_session g s in
      if s_mrru x > 0 \<and> s_bundle x = 0
      then obind (join_bundle s g) (\<lambda>(g1, r).
             if r > 0 then Ret (setup_ip hk s t (cluster_send_bundle (s_bundle (g_session g1 s)) g1))
             else Ret (shutdown_setup s ''Mismaching mssf option.'' 0 0 g1))
      else Ret (setup_ip hk s t g))"

end
