(* ===== verification/RadiusRx.thy ===== *)
theory RadiusRx
  imports Setup
begin

text \<open>
  What \<^verbatim>\<open>src/radius.c\<close> receives: the answers of RADIUS servers (\<open>processrad\<close>) with their attributes, the retries
  of requests (\<open>radiusretry\<close>), and the requests of servers to disconnect a session or to change it
  (\<open>processdae\<close>). A packet is the memory at its first byte; what lies behind its end is not fixed. The outcome
  \<open>Undef\<close> is a read or write of the code that leaves its objects.
\<close>

subsection \<open>Texts in attributes\<close>

definition is_dig :: "u8 \<Rightarrow> bool" where
  "is_dig b \<longleftrightarrow> 48 \<le> b \<and> b < 58"

definition digit_of :: "u8 \<Rightarrow> nat" where
  "digit_of b = digit_val (char_of (unat b))"

text \<open>\<open>memchr\<close>: the first place of a byte in a list.\<close>

fun memchr :: "u8 \<Rightarrow> bytes \<Rightarrow> nat option" where
  "memchr c [] = None"
| "memchr c (b # bs) = (if b = c then Some 0 else map_option Suc (memchr c bs))"

definition decimal_nat :: "bytes \<Rightarrow> nat" where
  "decimal_nat bs = foldl (\<lambda>v b. 10 * v + digit_of b) 0 (takeWhile is_dig bs)"

text \<open>
  The address of a Framed-Route: the digits of a part are added up in eight bits, and parts are shifted into the
  address as they come, however many there are. The result is what is left of the attribute.
\<close>

fun route_ip_loop :: "bytes \<Rightarrow> u32 \<Rightarrow> u8 \<Rightarrow> u32 \<times> bytes" where
  "route_ip_loop [] ip u = (push_bit 8 ip + ucast u, [])"
| "route_ip_loop (b # bs) ip u =
     (if b = 46 then route_ip_loop bs (push_bit 8 ip + ucast u) 0
      else if is_dig b then route_ip_loop bs ip (u * 10 + b - 48)
      else (push_bit 8 ip + ucast u, b # bs))"

text \<open>\<open>next\<close> is the byte behind the attribute, where the code looks for a slash when nothing else is left.\<close>

definition framed_route :: "bytes \<Rightarrow> u8 \<Rightarrow> u32 \<times> u8" where
  "framed_route bs behind =
     (let (ip, rest) = route_ip_loop bs 0 0 in
      (ip,
       if hd (rest @ [behind]) = 47 then foldl (\<lambda>v b. v * 10 + b - 48) 0 (takeWhile is_dig (tl rest))
       else if drop_bit 24 ip < 128 then 8
       else if drop_bit 24 ip < 192 then 16
       else 24))"

text \<open>\<open>inet_pton\<close> for both families: a dotted quad without leading zeros, and an IPv6 address.\<close>

fun pton4 :: "bytes \<Rightarrow> bytes \<Rightarrow> nat option \<Rightarrow> bytes option" where
  "pton4 [] octets v =
     (case v of Some x \<Rightarrow> if length octets = 3 then Some (octets @ [of_nat x]) else None | None \<Rightarrow> None)"
| "pton4 (b # bs) octets v =
     (if is_dig b then
        (case v of
           None \<Rightarrow> pton4 bs octets (Some (digit_of b))
         | Some x \<Rightarrow> if x = 0 \<or> 10 * x + digit_of b > 255 then None else pton4 bs octets (Some (10 * x + digit_of b)))
      else if b = 46 then
        (case v of
           None \<Rightarrow> None
         | Some x \<Rightarrow> if length octets = 3 then None else pton4 bs (octets @ [of_nat x]) None)
      else None)"

text \<open>\<open>cur\<close> is the text from the last separator on, \<open>out\<close> the bytes read, \<open>gap\<close> the place of the double colon.\<close>

fun pton6_loop :: "bytes \<Rightarrow> bytes \<Rightarrow> bytes \<Rightarrow> nat option \<Rightarrow> nat \<Rightarrow> nat \<Rightarrow> (bytes \<times> nat option) option" where
  "pton6_loop cur [] tp gap n v =
     (if n = 0 then Some (tp, gap) else if length tp + 2 > 16 then None else Some (tp @ be16 (of_nat v), gap))"
| "pton6_loop cur (b # bs) tp gap n v =
     (if digit_of b < 16 then
        (if n = 4 then None else pton6_loop cur bs tp gap (n + 1) (16 * v + digit_of b))
      else if b = 58 then
        (if n = 0 then (if gap \<noteq> None then None else pton6_loop bs bs tp (Some (length tp)) 0 0)
         else if bs = [] \<or> length tp + 2 > 16 then None
         else pton6_loop bs bs (tp @ be16 (of_nat v)) gap 0 0)
      else if b = 46 \<and> length tp + 4 \<le> 16 then map_option (\<lambda>a. (tp @ a, gap)) (pton4 cur [] None)
      else None)"

definition inet_pton6 :: "bytes \<Rightarrow> bytes option" where
  "inet_pton6 bs =
     (let src = (if take 1 bs = [58] then tl bs else bs) in
      if take 1 bs = [58] \<and> take 1 src \<noteq> [58] then None
      else
        case pton6_loop src src [] None 0 0 of
          None \<Rightarrow> None
        | Some (tp, None) \<Rightarrow> if length tp = 16 then Some tp else None
        | Some (tp, Some k) \<Rightarrow>
            if length tp \<ge> 16 then None else Some (take k tp @ replicate (16 - length tp) 0 @ drop k tp))"

definition in6_of_bytes :: "bytes \<Rightarrow> in6_addr" where
  "in6_of_bytes bs = in6_of (\<lambda>i. bs ! i) 0"

subsection \<open>Attributes that plugins read\<close>

text \<open>
  \<open>handle_avpair\<close> cuts the text into key and value in place: the first \<open>=\<close> and a closing quote are overwritten.
  The key is not cut when there is no \<open>=\<close>.
\<close>

definition handle_avpair :: "hooks \<Rightarrow> sessionidt \<Rightarrow> nat \<Rightarrow> nat \<Rightarrow> mem \<times> l2tpns \<Rightarrow> mem \<times> l2tpns" where
  "handle_avpair hk s a l x =
     (let (m, g) = x in
      case memchr 61 (map m [a..<a + l]) of
        None \<Rightarrow> (m, hk_radius_response hk s (\<lambda>i. m (a + i)) [] g)
      | Some k \<Rightarrow>
          let m1 = m(a + k := 0); val = a + k + 1; n = l - (k + 1);
              quoted = (n > 2 \<and> (m1 val = 34 \<or> m1 val = 39) \<and> m1 (val + n - 1) = m1 val);
              m2 = (if quoted then m1(val + n - 1 := 0) else m1);
              text = (if quoted then map m2 [val + 1..<val + n - 1] else map m2 [val..<val + n])
          in if \<not> quoted \<and> n \<ge> 2047 then (m2, g)
             else (m2, hk_radius_response hk s (\<lambda>i. m2 (a + i)) (cstr text) g))"

subsection \<open>The attributes of an answer\<close>

definition MAXGARDEN :: nat where "MAXGARDEN = 16"
definition MAXCLASS :: nat where "MAXCLASS = 128"

text \<open>What the loop over the attributes keeps: the packet, the routes read, and whether a tunnel is wanted.\<close>

record rad_loopt =
  rp_mem :: mem
  rp_routes :: nat
  rp_routes6 :: nat
  rp_opentunnel :: bool

definition set_garden :: "sessionidt \<Rightarrow> bytes \<Rightarrow> l2tpns \<Rightarrow> l2tpns" where
  "set_garden s name = upd_session s (\<lambda>x. x\<lparr>s_walled_garden := 1, s_walled_garden_name := str_of (cstr name)\<rparr>)"

text \<open>
  A vendor-specific attribute of at least seven bytes at \<open>p\<close>. The flag tells whether the rest of the loop body
  looks at it: an old DNS attribute of Ascend, from its own type on.
\<close>

definition vendor_attr :: "hooks \<Rightarrow> sessionidt \<Rightarrow> nat \<Rightarrow> rad_loopt \<times> l2tpns \<Rightarrow> (rad_loopt \<times> l2tpns) outcome" where
  "vendor_attr hk s p x =
     (let (w, g) = x; m = rp_mem w; vendor = rd32 m (p + 2); attrib = m (p + 6); l = int (unat (m (p + 7))) - 2 in
      if vendor = 9 \<and> attrib = 1 then
        (if l < 0 then Ret x
         else let (m', g') = handle_avpair hk s (p + 8) (nat l) (m, g) in Ret (w\<lparr>rp_mem := m'\<rparr>, g'))
      else if vendor = 1337 \<and> attrib = 1 then
        Ret (w, if s_walled_garden (g_session g s) = 0 then set_garden s (chars ''garden'') g else g)
      else if vendor = 1337 \<and> attrib = 2 then
        (if l < 0 then Undef
         else Ret (w, set_garden s (map m [p + 8..<p + 8 + (if l < int MAXGARDEN then nat l else MAXGARDEN)]) g))
      else if vendor = 1337 \<and> attrib = 3 then
        Ret (w, upd_session s (\<lambda>x. x\<lparr>s_pool_id := str_of (map m [p + 8..<p + 10])\<rparr>) g)
      else if vendor = 1337 \<and> attrib = 4 then
        Ret (w, upd_session s (\<lambda>x. x\<lparr>s_free_traffic := str_of (map m [p + 8..<p + 10])\<rparr>) g)
      else Ret x)"

definition ascend_dns :: "mem \<Rightarrow> nat \<Rightarrow> bool" where
  "ascend_dns m p \<longleftrightarrow> m p = 26 \<and> m (p + 1) \<ge> 7 \<and> rd32 m (p + 2) = 529 \<and> m (p + 6) \<in> {135, 136}"

definition framed_ip :: "sessionidt \<Rightarrow> in_addr \<Rightarrow> l2tpns \<Rightarrow> l2tpns" where
  "framed_ip s ip g =
     upd_session s (\<lambda>x. x\<lparr>s_ip := if ip = 0xFFFFFFFE then 0 else ip, s_ip_pool_index := -1\<rparr>) g"

definition put_route :: "sessionidt \<Rightarrow> u32 \<times> u8 \<Rightarrow> rad_loopt \<times> l2tpns \<Rightarrow> rad_loopt \<times> l2tpns" where
  "put_route s rt x =
     (let (w, g) = x; n = rp_routes w in
      if n = MAXROUTE \<or> fst rt = 0 then x
      else (w\<lparr>rp_routes := n + 1\<rparr>,
            upd_session s (\<lambda>x. x\<lparr>s_route := (s_route x)(n := \<lparr>rt_ip = fst rt, rt_prefixlen = uint (snd rt)\<rparr>)\<rparr>) g))"

definition put_route6 :: "sessionidt \<Rightarrow> bytes \<Rightarrow> u8 \<Rightarrow> rad_loopt \<times> l2tpns \<Rightarrow> rad_loopt \<times> l2tpns" where
  "put_route6 s ip prefixlen x =
     (let (w, g) = x; n = rp_routes6 w in
      if n = MAXROUTE6 then x
      else (w\<lparr>rp_routes6 := n + 1\<rparr>,
            upd_session s (\<lambda>x. x\<lparr>s_route6 := (s_route6 x)(n := \<lparr>r6_ip = in6_of_bytes ip, r6_prefixlen = prefixlen\<rparr>)\<rparr>) g))"

text \<open>
  A Filter-Id names a filter and, behind a dot, the direction. For an attribute that claims a single byte the
  code would search all the memory there is.
\<close>

definition filter_id :: "sessionidt \<Rightarrow> bytes \<Rightarrow> l2tpns \<Rightarrow> l2tpns" where
  "filter_id s val g =
     (case memchr 46 val of
        None \<Rightarrow> g
      | Some b \<Rightarrow>
          let suffix = drop (b + 1) val; f = find_filter (g_filters g) (str_of (take b val));
              known = (f \<ge> 0 \<and> fi_name (g_filters g (nat f)) \<noteq> [])
          in if \<not> known then g
             else if suffix = chars ''in''
             then filter_ref (nat f + 1) 1 (upd_session s (\<lambda>x. x\<lparr>s_filter_in := nat f + 1\<rparr>) g)
             else if suffix = chars ''out''
             then filter_ref (nat f + 1) 1 (upd_session s (\<lambda>x. x\<lparr>s_filter_out := nat f + 1\<rparr>) g)
             else g)"

text \<open>
  A Framed-IPv6-Route without a slash makes the code write to address zero; its address is not checked, and one
  that cannot be read leaves what the stack held.
\<close>

definition framed_route6 :: "sessionidt \<Rightarrow> nat \<Rightarrow> nat \<Rightarrow> rad_loopt \<times> l2tpns \<Rightarrow> (rad_loopt \<times> l2tpns) outcome" where
  "framed_route6 s p l x =
     (let (w, g) = x; m = rp_mem w in
      case memchr 47 (map m [p + 2..<p + l]) of
        None \<Rightarrow> Undef
      | Some k \<Rightarrow>
          let ip = inet_pton6 (cstr (map m [p + 2..<p + 2 + k])); n = decimal_nat (map m [p + 3 + k..<p + l]);
              x1 = (w\<lparr>rp_mem := m(p + 2 + k := 0)\<rparr>, g)
          in if n \<ge> 2 ^ 31 then Undef
             else if n = 0 \<or> rp_routes6 w = MAXROUTE6 then Ret x1
             else case ip of None \<Rightarrow> Undef | Some a \<Rightarrow> Ret (put_route6 s a (of_nat n) x1))"

text \<open>A Delegated-IPv6-Prefix of more than 16 bytes is copied beyond the route.\<close>

definition delegated_prefix :: "sessionidt \<Rightarrow> nat \<Rightarrow> nat \<Rightarrow> rad_loopt \<times> l2tpns \<Rightarrow> (rad_loopt \<times> l2tpns) outcome" where
  "delegated_prefix s p l x =
     (let (w, g) = x; m = rp_mem w in
      if l \<le> 4 \<or> m (p + 3) = 0 \<or> m (p + 3) > 128 \<or> rp_routes6 w = MAXROUTE6 then Ret x
      else if l > 20 then Undef
      else
        let old = in6_bytes (r6_ip (s_route6 (g_session g s) (rp_routes6 w)))
        in Ret (put_route6 s (map m [p + 4..<p + l] @ drop (l - 4) old) (m (p + 3)) x))"

text \<open>A string attribute of a tunnel: the tag, which a text that begins with another byte does not have, and the text.\<close>

definition tagged :: "mem \<Rightarrow> nat \<Rightarrow> nat \<Rightarrow> u8 \<times> bytes" where
  "tagged m p l =
     (if m (p + 2) > 0x1F then (0, cstr (map m [p + 2..<p + l])) else (m (p + 2), cstr (map m [p + 3..<p + l])))"

definition tunnel_password :: "nat \<Rightarrow> mem \<Rightarrow> nat \<Rightarrow> nat \<Rightarrow> l2tpns \<Rightarrow> l2tpns" where
  "tunnel_password r m p l g =
     (case rad_tunnel_pwdecode (map m [p + 3..<p + l]) (cf_radiussecret (g_cfg g)) (rd_auth (g_radius g r)) of
        None \<Rightarrow> g
      | Some pw \<Rightarrow> if length (cstr pw) > 63 then g else lac_set_rad_tag_tunnel_password (m (p + 2)) (cstr pw) g)"

definition session_timeout_attr :: "sessionidt \<Rightarrow> u32 \<Rightarrow> l2tpns \<Rightarrow> l2tpns" where
  "session_timeout_attr s v g =
     (let g1 = upd_session s (\<lambda>x. x\<lparr>s_session_timeout := v\<rparr>) g in
      if v = 0 \<and> cf_kill_timedout_sessions (g_cfg g) then sessionshutdown s ''Session timeout is zero'' 3 0 0 g1 else g1)"

text \<open>An attribute at \<open>p\<close>, of the type and length it claims: first those of the tunnels of a remote LNS.\<close>

definition tunnel_attr :: "nat \<Rightarrow> nat \<Rightarrow> rad_loopt \<times> l2tpns \<Rightarrow> rad_loopt \<times> l2tpns" where
  "tunnel_attr r p x =
     (let (w, g) = x; m = rp_mem w; ty = unat (m p); l = unat (m (p + 1)); v = rd32 m (p + 2) AND 0xFFFFFF in
      if ty = 64 then
        (if l \<noteq> 6 then x else (w\<lparr>rp_opentunnel := True\<rparr>, lac_set_rad_tag_tunnel_type (m (p + 2)) v g))
      else if ty = 65 then (w, if l < 6 then g else lac_set_rad_tag_tunnel_medium_type (m (p + 2)) v g)
      else if ty = 67 then
        (w, if l < 3 then g else let (tag, str) = tagged m p l in lac_set_rad_tag_tunnel_serv_endpt tag (str_of str) g)
      else if ty = 69 then (w, if l < 5 then g else tunnel_password r m p l g)
      else if ty = 82 then
        (w, if l < 3 then g else let (tag, str) = tagged m p l in lac_set_rad_tag_tunnel_assignment_id tag str g)
      else x)"

definition route_attr :: "sessionidt \<Rightarrow> nat \<Rightarrow> rad_loopt \<times> l2tpns \<Rightarrow> (rad_loopt \<times> l2tpns) outcome" where
  "route_attr s p x =
     (let (w, g) = x; m = rp_mem w; ty = unat (m p); l = unat (m (p + 1)) in
      if ty = 22 then Ret (put_route s (framed_route (map m [p + 2..<p + l]) (m (p + max 2 l))) x)
      else if ty = 99 then (if l < 2 then Undef else framed_route6 s p l x)
      else if ty = 123 then delegated_prefix s p l x
      else if ty = 168 then Ret (w, if l = 18 then upd_session s (\<lambda>x. x\<lparr>s_ipv6address := in6_of m (p + 2)\<rparr>) g else g)
      else Ret x)"

definition session_attr :: "sessionidt \<Rightarrow> nat \<Rightarrow> mem \<Rightarrow> l2tpns \<Rightarrow> l2tpns outcome" where
  "session_attr s p m g =
     (let ty = unat (m p); l = unat (m (p + 1)); v = rd32 m (p + 2); upd = (\<lambda>f. Ret (if l < 6 then g else f g)) in
      if ty = 8 then upd (framed_ip s v)
      else if ty = 135 then upd (upd_session s (\<lambda>x. x\<lparr>s_dns1 := v\<rparr>))
      else if ty = 136 then upd (upd_session s (\<lambda>x. x\<lparr>s_dns2 := v\<rparr>))
      else if ty = 11 then (if l < 2 then Undef else Ret (filter_id s (map m [p + 2..<p + l]) g))
      else if ty = 27 then upd (session_timeout_attr s v)
      else if ty = 28 then upd (upd_session s (\<lambda>x. x\<lparr>s_idle_timeout := v\<rparr>))
      else if ty = 25 then
        Ret (if l < 3 then g
             else upd_session s (\<lambda>x. x\<lparr>s_class := map m [p + 2..<p + 2 + min (l - 2) MAXCLASS]\<rparr>) g)
      else Ret g)"

definition plain_attr :: "nat \<Rightarrow> sessionidt \<Rightarrow> nat \<Rightarrow> rad_loopt \<times> l2tpns \<Rightarrow> (rad_loopt \<times> l2tpns) outcome" where
  "plain_attr r s p x =
     (let (w, g) = x; ty = unat (rp_mem w p) in
      if ty \<in> {64, 65, 67, 69, 82} then Ret (tunnel_attr r p x)
      else if ty \<in> {22, 99, 123, 168} then route_attr s p x
      else obind (session_attr s p (rp_mem w) g) (\<lambda>g'. Ret (w, g')))"

definition rad_attr :: "hooks \<Rightarrow> nat \<Rightarrow> sessionidt \<Rightarrow> nat \<Rightarrow> rad_loopt \<times> l2tpns \<Rightarrow> (rad_loopt \<times> l2tpns) outcome" where
  "rad_attr hk r s p x =
     (let m = rp_mem (fst x) in
      if m p = 26 \<and> m (p + 1) \<ge> 7 then (if ascend_dns m p then plain_attr r s (p + 6) x else vendor_attr hk s p x)
      else plain_attr r s p x)"

text \<open>The step to the next attribute is the length of this one, or of the one inside it.\<close>

definition next_attr :: "mem \<Rightarrow> nat \<Rightarrow> nat" where
  "next_attr m p = (let q = (if ascend_dns m p then p + 6 else p) in q + unat (m (q + 1)))"

lemma unat_positive: "(x :: u8) \<noteq> 0 \<Longrightarrow> 0 < unat x"
  by (simp add: unat_gt_0)

lemma next_attr_step:
  assumes "p + 2 \<le> e" "m (p + 1) \<noteq> 0"
  shows "e - next_attr m p < e - p"
  using assms unat_positive[of "m (p + 1)"] by (auto simp: next_attr_def Let_def)

function rad_attrs :: "hooks \<Rightarrow> nat \<Rightarrow> sessionidt \<Rightarrow> nat \<Rightarrow> nat \<Rightarrow> rad_loopt \<times> l2tpns \<Rightarrow> (rad_loopt \<times> l2tpns) outcome" where
  "rad_attrs hk r s e p x =
     (let m = rp_mem (fst x) in
      if p + 2 \<le> e \<and> m (p + 1) \<noteq> 0 \<and> p + unat (m (p + 1)) \<le> e
      then (case rad_attr hk r s p x of
              Ret y \<Rightarrow> rad_attrs hk r s e (next_attr m p) y
            | Undef \<Rightarrow> Undef
            | Exits \<Rightarrow> Exits)
      else Ret x)"
  by pat_completeness auto
termination
  by (relation "measure (\<lambda>(hk, r, s, e, p, x). e - p)") (auto simp: next_attr_step[simplified])

declare rad_attrs.simps [simp del]

subsection \<open>Answers of servers\<close>

definition DisconnectRequest :: u8 where "DisconnectRequest = 40"
definition DisconnectACK :: u8 where "DisconnectACK = 41"
definition DisconnectNAK :: u8 where "DisconnectNAK = 42"
definition CoARequest :: u8 where "CoARequest = 43"
definition CoAACK :: u8 where "CoAACK = 44"
definition CoANAK :: u8 where "CoANAK = 45"

definition waits :: "radius_state \<Rightarrow> bool" where
  "waits st \<longleftrightarrow> st \<in> {RADIUSAUTH, RADIUSJUSTAUTH, RADIUSSTART, RADIUSSTOP, RADIUSINTERIM}"

definition expected_code :: "radius_state \<Rightarrow> u8 \<Rightarrow> bool" where
  "expected_code st code \<longleftrightarrow>
     (if auth_state st then code = AccessAccept \<or> code = AccessReject else code = AccountingResponse)"

text \<open>
  The authenticator of an answer over the length it claims. For a length under 20 the code passes a negative
  number to \<open>MD5_Update\<close> as an unsigned one.
\<close>

definition vector_of :: "bytes \<Rightarrow> bytes \<Rightarrow> mem \<Rightarrow> nat \<Rightarrow> bytes outcome" where
  "vector_of secret in_auth m len = (if len < 20 then Undef else Ret (calc_auth secret (map m [0..<len]) in_auth))"

text \<open>
  The loop that is to clear the routes of a forwarded session tests and counts the request instead of the route:
  it runs once at most, and moves on to another request.
\<close>

definition forget_routes :: "nat \<Rightarrow> sessionidt \<Rightarrow> l2tpns \<Rightarrow> l2tpns \<times> nat" where
  "forget_routes r s g =
     (if r < MAXROUTE \<and> rt_ip (s_route (g_session g s) 0) \<noteq> 0
      then (upd_session s (\<lambda>x. x\<lparr>s_route := (s_route x)(0 := (s_route x 0)\<lparr>rt_ip := 0\<rparr>)\<rparr>) g, r + 1)
      else (g, r))"

text \<open>The answer to the client. None when there is no room for its header; then the request is not cleared.\<close>

definition auth_reply :: "nat \<Rightarrow> u8 \<Rightarrow> sessionidt \<Rightarrow> tunnelidt \<Rightarrow> l2tpns \<Rightarrow> l2tpns option" where
  "auth_reply r code s t g =
     (let rd = g_radius g r; chap = (rd_chap rd \<noteq> 0) in
      case ppp_hdr MAXETHER 0 s t (if chap then PPPCHAP else PPPPAP) g of
        None \<Rightarrow> None
      | Some hdr \<Rightarrow>
          Some (g_tunnelsend
            (hdr @ (if chap then [if code = AccessAccept then 3 else 4, rd_id rd] @ be16 4
                    else [code, rd_id rd] @ be16 5 @ [0])) t g))"

definition default_dns :: "sessionidt \<Rightarrow> l2tpns \<Rightarrow> l2tpns" where
  "default_dns s g =
     upd_session s (\<lambda>x. x\<lparr>s_dns1 := if s_dns1 x = 0 then htonl (cf_default_dns1 (g_cfg g)) else s_dns1 x,
                          s_dns2 := if s_dns2 x = 0 then htonl (cf_default_dns2 (g_cfg g)) else s_dns2 x,
                          s_unique_id := 0\<rparr>) g"

definition auth_accepted :: "hooks \<Rightarrow> nat \<Rightarrow> sessionidt \<Rightarrow> tunnelidt \<Rightarrow> l2tpns \<Rightarrow> l2tpns outcome" where
  "auth_accepted hk r s t g =
     (case auth_reply r AccessAccept s t g of
        None \<Rightarrow> Ret g
      | Some g1 \<Rightarrow> obind (sessionsetup hk s t (default_dns s g1)) (\<lambda>g2. Ret (radiusclear r s g2)))"

text \<open>The session goes to a remote LNS when the answer named one; \<open>rand\<close> is what \<open>rand()\<close> returns.\<close>

definition auth_forward :: "hooks \<Rightarrow> nat \<Rightarrow> nat \<Rightarrow> sessionidt \<Rightarrow> tunnelidt \<Rightarrow> bool \<Rightarrow> l2tpns \<Rightarrow> l2tpns outcome" where
  "auth_forward hk rand r s t opentunnel g =
     (if cf_disable_lac_func (g_cfg g) \<or> \<not> opentunnel then auth_accepted hk r s t g
      else
        let g1 = lac_save_rad_tag_tunnels g in
        case lac_rad_select_assignment_id rand g1 of
          None \<Rightarrow> Ret (radiusclear r s g1)
        | Some name \<Rightarrow>
            let (g2, forwarded) = lac_rad_forwardtoremotelns s name (s_user (g_session g1 s)) g1 in
            if forwarded
            then let (g3, r') = forget_routes r s (upd_session s (\<lambda>x. x\<lparr>s_ip := 0\<rparr>) g2) in Ret (radiusclear r' s g3)
            else auth_accepted hk r s t g2)"

definition auth_response :: "hooks \<Rightarrow> nat \<Rightarrow> nat \<Rightarrow> mem \<Rightarrow> nat \<Rightarrow> sessionidt \<Rightarrow> tunnelidt \<Rightarrow> l2tpns \<Rightarrow> l2tpns outcome" where
  "auth_response hk rand r m len s t g =
     (let (g1, accepted) = hk_post_auth hk s (m 0 = AccessAccept) (rd_chap (g_radius g r) \<noteq> 0) g in
      if \<not> accepted then Ret (radiusclear r s (sessionkill s (Some ''Authentication rejected'') TERM_ADMIN_RESET g1))
      else
        obind (rad_attrs hk r s len 20
                 (\<lparr>rp_mem = m, rp_routes = 0, rp_routes6 = 0, rp_opentunnel = False\<rparr>, lac_reset_rad_tag_tunnel_ctxt g1))
          (\<lambda>(w, g2). auth_forward hk rand r s t (rp_opentunnel w) g2))"

definition request_of :: "mem \<Rightarrow> u8 \<Rightarrow> nat" where
  "request_of m socket = unat (ucast socket OR push_bit 6 (ucast (m 1)) :: u16)"

definition processrad :: "hooks \<Rightarrow> nat \<Rightarrow> mem \<Rightarrow> nat \<Rightarrow> u8 \<Rightarrow> l2tpns \<Rightarrow> l2tpns outcome" where
  "processrad hk rand m len socket g =
     (let n = unat (rd16 m 2); r = request_of m socket; rd = g_radius g r; s = rd_session rd; st = rd_state rd in
      if len < 20 \<or> len < n then Ret g
      else if s = 0 \<and> st \<noteq> RADIUSSTOP then Ret g
      else if \<not> waits st then Ret g
      else
        obind (vector_of (cf_radiussecret (g_cfg g)) (rd_auth rd) m n) (\<lambda>hash.
          if hash \<noteq> map m [4..<20] then Ret g
          else if \<not> expected_code st (m 0) then Ret g
          else if auth_state st then auth_response hk rand r m n s (s_tunnel (g_session g s)) g
          else Ret (radiusclear r s g)))"

definition radiusretry :: "nat \<Rightarrow> l2tpns \<Rightarrow> l2tpns" where
  "radiusretry r g =
     (let s = rd_session (g_radius g r); t = (if s = 0 then 0 else s_tunnel (g_session g s)); st = rd_state (g_radius g r) in
      if st = RADIUSCHAP then sendchap s t g
      else if waits st then radius_send r st g
      else radiusclear r s g)"

subsection \<open>Requests of servers\<close>

record dae_req =
  dq_user :: string
  dq_port :: u32
  dq_ip :: in_addr
  dq_auth_only :: bool
  dq_fin :: int
  dq_fout :: int
  dq_avpairs :: "(nat \<times> nat) list"
  dq_error :: u32

definition dae_none :: dae_req where
  "dae_none = \<lparr>dq_user = [], dq_port = 0, dq_ip = 0, dq_auth_only = False, dq_fin = -1, dq_fout = -1, dq_avpairs = [],
     dq_error = 0\<rparr>"

definition MAXUSER :: nat where "MAXUSER = 128"

text \<open>
  The direction of a filter is compared over the length that the attribute has behind the name, so that a single
  dot passes for \<open>.in\<close>, and \<open>.o\<close> for \<open>.out\<close>.
\<close>

definition suffix_is :: "bytes \<Rightarrow> string \<Rightarrow> bool" where
  "suffix_is suffix lit \<longleftrightarrow> suffix = take (length suffix) (chars lit @ [0])"

definition dae_filter :: "bytes \<Rightarrow> l2tpns \<Rightarrow> dae_req \<Rightarrow> dae_req" where
  "dae_filter val g q =
     (case memchr 46 val of
        None \<Rightarrow> q\<lparr>dq_error := 404\<rparr>
      | Some b \<Rightarrow>
          let i = find_filter (g_filters g) (str_of (take b val)) in
          if i < 0 \<or> fi_name (g_filters g (nat i)) = [] then q\<lparr>dq_error := 404\<rparr>
          else if suffix_is (drop b val) ''.in'' then q\<lparr>dq_fin := i + 1\<rparr>
          else if suffix_is (drop b val) ''.out'' then q\<lparr>dq_fout := i + 1\<rparr>
          else q\<lparr>dq_error := 404\<rparr>)"

text \<open>An attribute with \<open>l\<close> bytes of value at \<open>p\<close>; the bytes are read whether the attribute has them or not.\<close>

definition dae_attr :: "mem \<Rightarrow> u8 \<Rightarrow> nat \<Rightarrow> nat \<Rightarrow> l2tpns \<Rightarrow> dae_req \<Rightarrow> dae_req" where
  "dae_attr m ty p l g q =
     (let v = rd32 m p in
      if ty = 1 then q\<lparr>dq_user := str_of (cstr (map m [p..<p + min l (MAXUSER - 1)]))\<rparr>
      else if ty = 4 then (if htonl v \<noteq> cf_bind_address (g_cfg g) then q\<lparr>dq_error := 403\<rparr> else q)
      else if ty = 5 then
        (if v < 1 \<or> v > of_nat MAXSESSION then q\<lparr>dq_port := v, dq_error := 404\<rparr> else q\<lparr>dq_port := v\<rparr>)
      else if ty = 6 then q\<lparr>dq_auth_only := (v = 8)\<rparr>
      else if ty = 8 then q\<lparr>dq_ip := v\<rparr>
      else if ty = 11 then dae_filter (map m [p..<p + l]) g q
      else if ty = 26 \<and> l \<ge> 6 \<and> v = 9 \<and> m (p + 4) = 1 \<and> m (p + 5) \<ge> 2 \<and> length (dq_avpairs q) < 63
      then q\<lparr>dq_avpairs := dq_avpairs q @ [(p + 6, unat (m (p + 5)) - 2)]\<rparr>
      else q)"

lemma uint_two: "\<not> (x :: u8) < 2 \<Longrightarrow> 0 < uint x"
  by (simp add: word_less_def)

function dae_attrs :: "mem \<Rightarrow> l2tpns \<Rightarrow> nat \<Rightarrow> int \<Rightarrow> dae_req \<Rightarrow> dae_req" where
  "dae_attrs m g p left q =
     (if left \<le> 0 \<or> m (p + 1) < 2 then q
      else
        let l = unat (m (p + 1))
        in dae_attrs m g (p + l) (left - int l) (dae_attr m (m p) (p + 2) (l - 2) g q))"
  by pat_completeness auto
termination
  by (relation "measure (\<lambda>(m, g, p, left, q). nat left)") (auto simp: uint_two)

declare dae_attrs.simps [simp del]

definition sessionbyuser :: "string \<Rightarrow> l2tpns \<Rightarrow> sessionidt" where
  "sessionbyuser user g =
     (case find (\<lambda>s. s_opened (g_session g s) \<noteq> 0 \<and> s_walled_garden (g_session g s) = 0 \<and>
                  take 128 (s_user (g_session g s)) = take 128 user)
             [1..<cf_cluster_highest_sessionid (g_cfg g) + 1] of
        None \<Rightarrow> 0
      | Some s \<Rightarrow> s)"

text \<open>
  The session a request is about, or the code of the error. Port \<open>MAXSESSION\<close> passes the test, but is one behind
  the last session.
\<close>

definition dae_check :: "dae_req \<Rightarrow> u32" where
  "dae_check q =
     (if dq_error q \<noteq> 0 then dq_error q
      else if dq_auth_only q then (if dq_fin q \<noteq> -1 \<or> dq_fout q \<noteq> -1 \<or> dq_avpairs q \<noteq> [] then 401 else 405)
      else if dq_port q = 0 \<and> dq_ip q = 0 \<and> dq_user q = [] then 402
      else 0)"

definition dae_by_ip :: "dae_req \<Rightarrow> sessionidt \<Rightarrow> l2tpns \<Rightarrow> u32 + sessionidt" where
  "dae_by_ip q s g =
     (let i = sessionbyip (dq_ip q) g in
      if dq_ip q = 0 then Inr s else if i = 0 \<or> s \<noteq> 0 \<and> s \<noteq> i then Inl 503 else Inr i)"

definition dae_by_user :: "dae_req \<Rightarrow> sessionidt \<Rightarrow> l2tpns \<Rightarrow> u32 + sessionidt" where
  "dae_by_user q s g =
     (if dq_user q = [] then Inr s
      else if s \<noteq> 0 then (if s_user (g_session g s) \<noteq> dq_user q then Inl 503 else Inr s)
      else if sessionbyuser (dq_user q) g = 0 then Inl 503 else Inr (sessionbyuser (dq_user q) g))"

definition dae_session :: "dae_req \<Rightarrow> l2tpns \<Rightarrow> (u32 + sessionidt) outcome" where
  "dae_session q g =
     (if dae_check q \<noteq> 0 then Ret (Inl (dae_check q))
      else
        let s = unat (dq_port q) in
        if s = MAXSESSION then Undef
        else if s \<noteq> 0 \<and> s_opened (g_session g s) = 0 then Ret (Inl 503)
        else Ret (case dae_by_ip q s g of Inl e \<Rightarrow> Inl e | Inr s \<Rightarrow> dae_by_user q s g))"

definition dae_change :: "hooks \<Rightarrow> mem \<Rightarrow> dae_req \<Rightarrow> sessionidt \<Rightarrow> l2tpns \<Rightarrow> l2tpns" where
  "dae_change hk m q s g =
     (let g1 = hk_radius_reset hk s (out (PluginRadiusReset s) g);
          g2 = filter_session s (if dq_fin q = -1 then 0 else dq_fin q) (if dq_fout q = -1 then 0 else dq_fout q) g1
      in cluster_send_session s (snd (fold (\<lambda>(a, l). handle_avpair hk s a l) (dq_avpairs q) (m, g2))))"

definition dae_run :: "hooks \<Rightarrow> mem \<Rightarrow> dae_req \<Rightarrow> u32 + sessionidt \<Rightarrow> l2tpns \<Rightarrow> l2tpns \<times> u8" where
  "dae_run hk m q who g =
     (if m 0 = DisconnectRequest
      then (case who of
              Inl e \<Rightarrow> (g, DisconnectNAK)
            | Inr s \<Rightarrow> (sessionshutdown s ''Requested by PoD'' 3 0 TERM_ADMIN_RESET g, DisconnectACK))
      else (case who of Inl e \<Rightarrow> (g, CoANAK) | Inr s \<Rightarrow> (dae_change hk m q s g, CoAACK)))"

definition dae_reply :: "bytes \<Rightarrow> bytes \<Rightarrow> u8 \<Rightarrow> u8 \<Rightarrow> u32 + sessionidt \<Rightarrow> bytes" where
  "dae_reply secret hash code ident who =
     (let attrs = (case who of Inl e \<Rightarrow> [101, 6] @ be32 e | Inr s \<Rightarrow> []);
          head = [code, ident] @ be16 (of_nat (20 + length attrs))
      in head @ calc_auth secret (head @ replicate 16 0 @ attrs) hash @ attrs)"

text \<open>The state, and the packet that goes back to the address the request came from.\<close>

definition processdae :: "hooks \<Rightarrow> mem \<Rightarrow> nat \<Rightarrow> in_addr \<Rightarrow> u16 \<Rightarrow> l2tpns \<Rightarrow> (l2tpns \<times> bytes option) outcome" where
  "processdae hk m len addr port g =
     (let n = unat (rd16 m 2); secret = cf_radiussecret (g_cfg g) in
      if len < 20 \<or> len < n then Ret (g, None)
      else if m 0 \<noteq> DisconnectRequest \<and> m 0 \<noteq> CoARequest then Ret (g, None)
      else if \<not> cf_cluster_iam_master (g_cfg g)
      then Ret (master_forward_dae_packet (map m [0..<len]) addr (ucast port) g, None)
      else
        obind (vector_of secret (replicate 16 0) m n) (\<lambda>hash.
          if hash \<noteq> map m [4..<20] then Ret (g, None)
          else
            let q = dae_attrs m g 20 (int n - 20) dae_none in
            obind (dae_session q g) (\<lambda>who.
              let (g1, code) = dae_run hk m q who g
              in Ret (g1, Some (dae_reply secret hash code (m 1) who)))))"

end
