(* ===== verification/Cleanup.thy ===== *)
theory Cleanup
  imports RadiusRx Complex_Main
begin

text \<open>
  Retries and timeouts: \<open>regular_cleanups\<close> of \<^verbatim>\<open>src/l2tpns.c\<close>, which the event loop of the master runs every tenth
  of a second on a slice of the tunnels, the RADIUS requests and the sessions. The time since the last run is a
  rational number here and a \<open>double\<close> in the code. The places where the slices ended (static variables of the
  code) are the record \<open>cleanup_pos\<close>.
\<close>

record cleanup_pos =
  cp_t :: tunnelidt
  cp_r :: nat
  cp_s :: sessionidt

definition ECHO_TIMEOUT :: int where "ECHO_TIMEOUT = 10"
definition TERM_IDLE_TIMEOUT :: nat where "TERM_IDLE_TIMEOUT = 4"
definition TERM_SESSION_TIMEOUT :: nat where "TERM_SESSION_TIMEOUT = 5"
definition CLI_SESS_KILL :: u8 where "CLI_SESS_KILL = 0x01"
definition CLI_SESS_SNOOP :: u8 where "CLI_SESS_SNOOP = 0x02"
definition CLI_SESS_NOSNOOP :: u8 where "CLI_SESS_NOSNOOP = 0x04"
definition CLI_SESS_THROTTLE :: u8 where "CLI_SESS_THROTTLE = 0x08"
definition CLI_SESS_NOTHROTTLE :: u8 where "CLI_SESS_NOTHROTTLE = 0x10"
definition CLI_SESS_FILTER :: u8 where "CLI_SESS_FILTER = 0x20"
definition CLI_SESS_NOFILTER :: u8 where "CLI_SESS_NOFILTER = 0x40"
definition CLI_TUN_KILL :: u8 where "CLI_TUN_KILL = 0x01"

definition slice :: "nat \<Rightarrow> rat \<Rightarrow> nat" where
  "slice high period =
     (let n = nat \<lfloor>of_nat high * period\<rfloor> in if n < 1 then 1 else if n > high then high else n)"

text \<open>The next place of a walk through \<open>1\<close> to \<open>high\<close>.\<close>

definition next_pos :: "nat \<Rightarrow> nat \<Rightarrow> nat" where
  "next_pos high p = (if p + 1 > high then 1 else p + 1)"

subsection \<open>Tunnels\<close>

definition resend_tunnel :: "tunnelidt \<Rightarrow> l2tpns \<Rightarrow> l2tpns" where
  "resend_tunnel t g =
     (let x = g_tunnel g t in
      if t_retry x \<noteq> 0 \<and> t_controlc x \<noteq> 0 \<and> t_retry x \<le> g_TIME g
      then (case resend_controls (g_clk g) t x of
              None \<Rightarrow> tunnelkill t ''Timeout on control message'' (upd_tunnel t (\<lambda>x. x\<lparr>t_try := t_try x + 1\<rparr>) g)
            | Some (x', ds) \<Rightarrow> g\<lparr>g_tunnel := (g_tunnel g)(t := x'), g_out := g_out g @ map Datagram ds\<rparr>)
      else g)"

definition hello_tunnel :: "tunnelidt \<Rightarrow> l2tpns \<Rightarrow> l2tpns" where
  "hello_tunnel t g =
     (let x = g_tunnel g t in
      if t_state x = TUNNELOPEN \<and> t_controlc x = 0 \<and> g_time_now g - uint (t_lastrec x) > 60 \<and>
         \<not> cf_disable_sending_hello (g_cfg g)
      then g_controladd (controlnew 6) 0 t g else g)"

definition cli_tunnel :: "tunnelidt \<Rightarrow> l2tpns \<Rightarrow> l2tpns" where
  "cli_tunnel t g =
     (let a = g_cli_tunnel g t; g1 = g\<lparr>g_cli_tunnel := (g_cli_tunnel g)(t := 0)\<rparr> in
      if a = 0 then g
      else if a AND CLI_TUN_KILL \<noteq> 0 then tunnelshutdown t ''Requested by administrator'' 1 0 None g1
      else g1)"

definition clean_tunnel :: "tunnelidt \<Rightarrow> l2tpns \<Rightarrow> l2tpns" where
  "clean_tunnel t g =
     (if t = TUNNEL_ID_PPPOE then g
      else if t_die (g_tunnel g t) \<noteq> 0 \<and> t_die (g_tunnel g t) \<le> g_TIME g then tunnelkill t ''Expired'' g
      else cli_tunnel t (hello_tunnel t (resend_tunnel t g)))"

fun clean_tunnels :: "nat \<Rightarrow> tunnelidt \<Rightarrow> l2tpns \<Rightarrow> tunnelidt \<times> l2tpns" where
  "clean_tunnels 0 t g = (t, g)"
| "clean_tunnels (Suc n) t g =
     (let t = next_pos (cf_cluster_highest_tunnelid (g_cfg g)) t in clean_tunnels n t (clean_tunnel t g))"

subsection \<open>RADIUS requests\<close>

definition clean_radius :: "nat \<Rightarrow> l2tpns \<Rightarrow> l2tpns" where
  "clean_radius r g =
     (if rd_state (g_radius g r) \<noteq> RADIUSNULL \<and> rd_retry (g_radius g r) \<le> g_TIME g then radiusretry r g else g)"

fun clean_requests :: "nat \<Rightarrow> nat \<Rightarrow> l2tpns \<Rightarrow> nat \<times> l2tpns" where
  "clean_requests 0 r g = (r, g)"
| "clean_requests (Suc n) r g = (let r = next_pos (MAXRADIUS - 1) r in clean_requests n r (clean_radius r g))"

subsection \<open>Sessions\<close>

text \<open>
  An automaton whose answer did not come in time sends its request again, as often as the configuration allows;
  \<open>give_up\<close> is what follows then.
\<close>

definition ppp_timeout :: "fsm \<Rightarrow> (sessionidt \<Rightarrow> tunnelidt \<Rightarrow> l2tpns \<Rightarrow> l2tpns) \<Rightarrow> (l2tpns \<Rightarrow> l2tpns) \<Rightarrow>
    sessionidt \<Rightarrow> l2tpns \<Rightarrow> l2tpns" where
  "ppp_timeout f send give_up s g =
     (let x = fsm_timer f (g_local g s); st = state_of f s g;
          next_state = (if st = AckReceived then RequestSent else st)
      in if f_restart x > g_time_now g then g
         else if st \<notin> {RequestSent, AckReceived, AckSent} then g
         else if f_conf_sent x < cf_ppp_max_configure (g_cfg g)
         then change_state s f next_state (send s (s_tunnel (g_session g s)) g)
         else give_up g)"

definition lost_service :: "sessionidt \<Rightarrow> string \<Rightarrow> l2tpns \<Rightarrow> l2tpns" where
  "lost_service s reason g = sessionshutdown s reason 3 0 TERM_LOST_SERVICE g"

definition lcp_timeout :: "sessionidt \<Rightarrow> l2tpns \<Rightarrow> l2tpns" where
  "lcp_timeout s = ppp_timeout FLcp sendlcp (lost_service s ''No response to LCP ConfigReq.'') s"

definition ipcp_timeout :: "sessionidt \<Rightarrow> l2tpns \<Rightarrow> l2tpns" where
  "ipcp_timeout s = ppp_timeout FIpcp sendipcp (lost_service s ''No response to IPCP ConfigReq.'') s"

definition ipv6cp_timeout :: "sessionidt \<Rightarrow> l2tpns \<Rightarrow> l2tpns" where
  "ipv6cp_timeout s = ppp_timeout FIpv6cp sendipv6cp (change_state s FIpv6cp Stopped) s"

definition ccp_timeout :: "sessionidt \<Rightarrow> l2tpns \<Rightarrow> l2tpns" where
  "ccp_timeout s = ppp_timeout FCcp sendccp (change_state s FCcp Stopped) s"

text \<open>An echo request; None when there is no room for its header.\<close>

definition send_echo :: "sessionidt \<Rightarrow> l2tpns \<Rightarrow> l2tpns option" where
  "send_echo s g =
     (let x = g_session g s; t = s_tunnel x; c = g_cfg g in
      if phase (s_ppp x) \<noteq> Dead \<and>
         (\<not> cf_ppp_keepalive c \<or> g_time_now g - s_last_packet x \<ge> cf_echo_timeout c) \<and>
         g_time_now g - l_last_echo (g_local g s) \<ge> ECHO_TIMEOUT
      then (case fst (makeppp MAXETHER 0 s t PPPLCP True 0 0 g) of
              None \<Rightarrow> None
            | Some hdr \<Rightarrow>
                let magic = (if lcp (s_ppp x) = Opened then be32 (s_magic x) else be32 0)
                in Some (upd_local s (\<lambda>l. l\<lparr>l_last_echo := g_time_now g\<rparr>)
                     (g_tunnelsend (hdr @ [EchoReq, word_of_int (g_time_now g mod 255)] @ be16 8 @ magic) t g)))
      else Some g)"

definition timed_out :: "sessionidt \<Rightarrow> l2tpns \<Rightarrow> l2tpns" where
  "timed_out s g = sessionshutdown s ''Session timeout'' 3 0 TERM_SESSION_TIMEOUT g"

text \<open>
  The time of a bundle is counted once for each of its links. The flag tells whether the loop body goes on: it
  does after the members of a bundle were shut down.
\<close>

definition session_timeout :: "sessionidt \<Rightarrow> l2tpns \<Rightarrow> l2tpns \<times> bool" where
  "session_timeout s g =
     (let x = g_session g s; bid = s_bundle x; b = g_bundle g bid; elapsed = g_time_now g - uint (b_last_check b) in
      if s_session_timeout x = 0 then (g, True)
      else if bid \<noteq> 0 then
        if elapsed < 1 then (g, True)
        else
          let g1 = upd_bundle bid (\<lambda>b. b\<lparr>b_online_time := b_online_time b + word_of_int (elapsed * int (b_num_of_links b)),
                     b_last_check := word_of_int (g_time_now g)\<rparr>) g
          in (if b_online_time (g_bundle g1 bid) \<ge> s_session_timeout x
              then fold (\<lambda>i g. timed_out (b_members (g_bundle g bid) i) g) (rev [0..<b_num_of_links b]) g1
              else g1, True)
      else if g_time_now g - uint (s_opened x) \<ge> uint (s_session_timeout x) then (timed_out s g, False)
      else (g, True))"

definition idle :: "sessiont \<Rightarrow> l2tpns \<Rightarrow> bool" where
  "idle x g \<longleftrightarrow> s_last_data x \<noteq> 0 \<and> s_idle_timeout x \<noteq> 0 \<and> g_time_now g - s_last_data x \<ge> uint (s_idle_timeout x)"

text \<open>What the command line asks for: a stop goes before its opposite. The flag tells that something was changed.\<close>

definition cli_snoop :: "sessionidt \<Rightarrow> u8 \<Rightarrow> cli_session_actions \<Rightarrow> l2tpns \<Rightarrow> l2tpns" where
  "cli_snoop s a c g =
     (if a AND CLI_SESS_NOSNOOP \<noteq> 0 then upd_session s (\<lambda>x. x\<lparr>s_snoop_ip := 0, s_snoop_port := 0\<rparr>) g
      else if a AND CLI_SESS_SNOOP \<noteq> 0
      then upd_session s (\<lambda>x. x\<lparr>s_snoop_ip := ca_snoop_ip c, s_snoop_port := ca_snoop_port c\<rparr>) g
      else g)"

definition cli_throttle :: "sessionidt \<Rightarrow> u8 \<Rightarrow> cli_session_actions \<Rightarrow> l2tpns \<Rightarrow> l2tpns" where
  "cli_throttle s a c g =
     (if a AND CLI_SESS_NOTHROTTLE \<noteq> 0 then throttle_session s 0 0 g
      else if a AND CLI_SESS_THROTTLE \<noteq> 0 then throttle_session s (ca_throttle_in c) (ca_throttle_out c) g
      else g)"

definition cli_filter :: "sessionidt \<Rightarrow> u8 \<Rightarrow> cli_session_actions \<Rightarrow> l2tpns \<Rightarrow> l2tpns" where
  "cli_filter s a c g =
     (if a AND CLI_SESS_NOFILTER \<noteq> 0 then filter_session s 0 0 g
      else if a AND CLI_SESS_FILTER \<noteq> 0 then filter_session s (ca_filter_in c) (ca_filter_out c) g
      else g)"

definition cli_changes :: u8 where
  "cli_changes = CLI_SESS_NOSNOOP OR CLI_SESS_SNOOP OR CLI_SESS_NOTHROTTLE OR CLI_SESS_THROTTLE OR
     CLI_SESS_NOFILTER OR CLI_SESS_FILTER"

definition cli_session :: "sessionidt \<Rightarrow> l2tpns \<Rightarrow> l2tpns" where
  "cli_session s g =
     (let a = ca_action (g_cli_session g s);
          g1 = g\<lparr>g_cli_session := (g_cli_session g)(s := (g_cli_session g s)\<lparr>ca_action := 0\<rparr>)\<rparr>
      in if a = 0 then g
         else if a AND CLI_SESS_KILL \<noteq> 0
         then sessionshutdown s ''Requested by administrator.'' 3 0 TERM_ADMIN_RESET g1
         else
           let c = g_cli_session g1 s; g2 = cli_filter s a c (cli_throttle s a c (cli_snoop s a c g1))
           in if a AND cli_changes \<noteq> 0 then cluster_send_session s g2 else g2)"

definition send_interim :: "sessionidt \<Rightarrow> l2tpns \<Rightarrow> l2tpns" where
  "send_interim s g =
     (let c = g_cfg g; x = g_session g s; l = g_local g s in
      if cf_radius_accounting c \<and> cf_radius_interim c > 0 \<and> s_ip x \<noteq> 0 \<and> s_walled_garden x = 0 \<and>
         l_radius l = 0 \<and> g_time_now g - l_last_interim l \<ge> cf_radius_interim c \<and> bit (s_flags x) 2
      then
        let (g1, r) = radiusnew s g in
        if r = 0 then g1
        else upd_local s (\<lambda>l. l\<lparr>l_last_interim := g_time_now g\<rparr>) (radius_send r RADIUSINTERIM g1)
      else g)"

text \<open>The rest of the body, once the automata have been looked after.\<close>

definition clean_active :: "sessionidt \<Rightarrow> l2tpns \<Rightarrow> l2tpns" where
  "clean_active s g =
     (let x = g_session g s in
      if s_last_packet x \<noteq> 0 \<and> g_time_now g - s_last_packet x \<ge> cf_idle_echo_timeout (g_cfg g)
      then lost_service s ''No response to LCP ECHO requests.'' g
      else
        case send_echo s g of
          None \<Rightarrow> g
        | Some g1 \<Rightarrow>
            let (g2, go) = session_timeout s g1 in
            if \<not> go then g2
            else if idle (g_session g2 s) g2
            then sessionshutdown s ''Idle Timeout Reached'' 3 0 TERM_IDLE_TIMEOUT g2
            else send_interim s (cli_session s g2))"

definition clean_session :: "sessionidt \<Rightarrow> l2tpns \<Rightarrow> l2tpns" where
  "clean_session s g =
     (let dying = (\<lambda>g. s_die (g_session g s) \<noteq> 0) in
      if s_opened (g_session g s) = 0 then g
      else if dying g then
        if s_die (g_session g s) \<le> g_TIME g then sessionkill s (Some ''Expired'') TERM_ADMIN_RESET g else g
      else
        let g1 = lcp_timeout s g in
        if dying g1 then g1
        else
          let g2 = ipcp_timeout s g1 in
          if dying g2 then g2
          else clean_active s (ccp_timeout s (ipv6cp_timeout s g2)))"

fun clean_sessions :: "nat \<Rightarrow> sessionidt \<Rightarrow> l2tpns \<Rightarrow> sessionidt \<times> l2tpns" where
  "clean_sessions 0 s g = (s, g)"
| "clean_sessions (Suc n) s g =
     (let s = next_pos (cf_cluster_highest_sessionid (g_cfg g)) s in clean_sessions n s (clean_session s g))"

definition regular_cleanups :: "rat \<Rightarrow> cleanup_pos \<times> l2tpns \<Rightarrow> cleanup_pos \<times> l2tpns" where
  "regular_cleanups period x =
     (let (pos, g) = x;
          t_slice = slice (cf_cluster_highest_tunnelid (g_cfg g)) period;
          r_slice = slice (MAXRADIUS - 1) period;
          s_slice = slice (cf_cluster_highest_sessionid (g_cfg g)) period;
          (t, g1) = clean_tunnels t_slice (cp_t pos) g;
          (r, g2) = clean_requests r_slice (cp_r pos) g1;
          (s, g3) = clean_sessions s_slice (cp_s pos) g2
      in (\<lparr>cp_t = t, cp_r = r, cp_s = s\<rparr>, g3))"

end
