(* ===== verification/MainLoop.thy ===== *)
theory MainLoop
  imports Cleanup
begin

text \<open>
  What the event loop of \<^verbatim>\<open>src/l2tpns.c\<close> (\<open>mainloop\<close>) does with a packet of each of its sockets, with one that
  another member of the cluster has handed over (\<open>processcluster\<close> of \<^verbatim>\<open>src/cluster.c\<close>), and at each turn. Waiting
  for events, the command line, \<^verbatim>\<open>nsctl\<close>, netlink and the files of the accounting are not part of it.
\<close>

subsection \<open>Packets handed over\<close>

text \<open>\<open>behind\<close> is the memory behind a packet.\<close>

definition at_bytes :: "bytes \<Rightarrow> mem \<Rightarrow> mem" where
  "at_bytes p behind = (\<lambda>i. if i < length p then p ! i else behind (i - length p))"

text \<open>The state and an answer to the request; None when a loop does not end.\<close>

definition no_reply :: "l2tpns outcome \<Rightarrow> (l2tpns \<times> bytes option) outcome" where
  "no_reply r = obind r (\<lambda>g. Ret (g, None))"

definition run_handover ::
    "bool \<Rightarrow> hooks \<Rightarrow> mem \<Rightarrow> handover \<Rightarrow> l2tpns \<Rightarrow> (l2tpns \<times> bytes option) outcome option" where
  "run_handover tun hk behind h g =
     (case h of
        Handled \<Rightarrow> Some (Ret (g, None))
      | ToUdp p ip port index \<Rightarrow>
          map_option no_reply (processudp tun (at_bytes p behind) (length p) ip port (unat index) g)
      | ToDae p ip port \<Rightarrow> Some (processdae hk (at_bytes p behind) (length p) ip port g)
      | ToPppoe p ip \<Rightarrow> Some (no_reply (pppoe_process_forward tun (at_bytes p behind) (length p) g))
      | ToIpout p \<Rightarrow> Some (no_reply (processipout tun (at_bytes p behind) (length p) g))
      | ToTbf i p \<Rightarrow> Some (no_reply (queue_packet tun (nat i) p g))
      | ToTun p \<Rightarrow> Some (Ret (out (TunTx p) g, None)))"

subsection \<open>Packets\<close>

text \<open>
  Addresses are in host order, the source of an answer of RADIUS as the configuration keeps it. \<open>rand\<close>, the
  last argument of such an answer, is what \<open>rand()\<close> returns. A packet for a bucket with a negative number is
  dropped by \<open>tbf_queue_packet\<close>, as one for bucket 0 is. Answers of RADIUS are accepted from the first two
  servers only.
\<close>

datatype arrival =
  FromUdp mem nat in_addr u16 nat
| FromTun mem nat
| FromPppoeDisc mem nat
| FromPppoeSess mem nat
| FromDae mem nat in_addr u16
| FromRadius mem nat in_addr u8 nat
| FromCluster bytes mem in_addr

definition receive ::
    "bool \<Rightarrow> hooks \<Rightarrow> (bytes \<Rightarrow> heartbeat option) \<Rightarrow> arrival \<Rightarrow> l2tpns \<Rightarrow> (l2tpns \<times> bytes option) outcome option" where
  "receive tun hk heart pk g =
     (case pk of
        FromUdp m len ip port index \<Rightarrow> map_option no_reply (processudp tun m len ip port index g)
      | FromTun m len \<Rightarrow> Some (no_reply (processtun tun m len g))
      | FromPppoeDisc m len \<Rightarrow> Some (no_reply (process_pppoe_disc m len g))
      | FromPppoeSess m len \<Rightarrow> Some (no_reply (process_pppoe_sess tun m len g))
      | FromDae m len ip port \<Rightarrow> Some (processdae hk m len ip port g)
      | FromRadius m len addr socket rand \<Rightarrow>
          Some (no_reply
            (if cf_cluster_iam_master (g_cfg g) \<and>
                (addr = cf_radiusserver (g_cfg g) 0 \<or> addr = cf_radiusserver (g_cfg g) 1)
             then processrad hk rand m len socket g else Ret g))
      | FromCluster p behind addr \<Rightarrow>
          (let (g1, h) = processcluster heart p addr g in run_handover tun hk behind h g1))"

subsection \<open>Every turn\<close>

text \<open>What the turns keep: when the cluster is next looked after, the last run of the buckets, the cleanups.\<close>

record turn_pos =
  tp_next_ping :: u32
  tp_last_run :: u32
  tp_cleanup :: cleanup_pos

definition turn_cluster :: "turn_pos \<times> l2tpns \<Rightarrow> turn_pos \<times> l2tpns" where
  "turn_cluster x =
     (let (p, g) = x in
      if tp_next_ping p \<le> g_TIME g then
        let g1 = master_update_counts (cluster_check_slaves (cluster_heartbeat (cluster_check_master
                   (cluster_send_ping (g_basetime g) g))));
            c = g_cfg g1;
            wait = (if cf_cluster_iam_master c \<and> \<not> cf_cluster_iam_uptodate c then 1 else word_of_int (cf_cluster_hb_interval c))
        in (p\<lparr>tp_next_ping := g_TIME g1 + wait\<rparr>, g1)
      else x)"

definition run_buckets :: "bool \<Rightarrow> l2tpns \<Rightarrow> l2tpns" where
  "run_buckets tun g =
     (let st = fst (tbf_run_timer (g_TIME g) (g_tbf g))
      in run_send tun (drop (length (tb_sent (g_tbf g))) (tb_sent st)) (g\<lparr>g_tbf := st\<rparr>))"

text \<open>\<open>tm\<close> is the time at the cleanups, \<open>period\<close> since the last ones; \<open>waiting\<close> when there are more packets.\<close>

definition turn :: "bool \<Rightarrow> bool \<Rightarrow> u32 \<Rightarrow> rat \<Rightarrow> turn_pos \<times> l2tpns \<Rightarrow> turn_pos \<times> l2tpns" where
  "turn tun waiting tm period x =
     (let (p, g) = turn_cluster x in
      if \<not> cf_cluster_iam_master (g_cfg g) then (p, g)
      else
        let (p1, g1) = (if tp_last_run p \<noteq> g_TIME g
                        then (p\<lparr>tp_last_run := g_TIME g\<rparr>, run_buckets tun g) else (p, g));
            g2 = g1\<lparr>g_TIME := tm\<rparr>
        in if waiting \<and> period \<le> 1 / 10 then (p1, g2)
           else let (c, g3) = regular_cleanups period (tp_cleanup p1, g2) in (p1\<lparr>tp_cleanup := c\<rparr>, g3))"

subsection \<open>The end\<close>

text \<open>
  \<open>still_busy\<close>: whether the loop goes on although the process is to end. The record holds its static variables;
  the time at which the messages were last logged is left out.
\<close>

record busy_pos =
  bs_stopped_bgp :: int
  bs_dropped :: bool
  bs_start :: u32

definition QUIT_DELAY :: int where "QUIT_DELAY = 5"
definition BUSY_WAIT_TIME :: int where "BUSY_WAIT_TIME = 3000"

definition drop_tunnel :: "tunnelidt \<Rightarrow> l2tpns \<Rightarrow> l2tpns" where
  "drop_tunnel i g =
     (if t_ip (g_tunnel g i) \<noteq> 0 \<or> t_state (g_tunnel g i) \<noteq> TUNNELFREE
      then tunnelshutdown i ''L2TPNS Closing'' 6 0 None g else g)"

definition unanswered :: "l2tpns \<Rightarrow> bool" where
  "unanswered g = list_ex (\<lambda>i. t_controlc (g_tunnel g i) \<noteq> 0) [1..<cf_cluster_highest_tunnelid (g_cfg g) + 1]"

definition requests_out :: "l2tpns \<Rightarrow> bool" where
  "requests_out g = list_ex (\<lambda>i. rd_state (g_radius g i) \<notin> {RADIUSNULL, RADIUSWAIT}) [1..<MAXRADIUS]"

definition busy_master :: "busy_pos \<times> l2tpns \<Rightarrow> busy_pos \<times> l2tpns \<times> bool" where
  "busy_master x =
     (let (b, g) = x;
          g1 = (if g_quit_shutdown g \<and> \<not> bs_dropped b then fold drop_tunnel [1..<MAXTUNNEL] g else g);
          b1 = b\<lparr>bs_dropped := bs_dropped b \<or> g_quit_shutdown g,
                 bs_start := if bs_start b = 0 then g_TIME g1 else bs_start b\<rparr>
      in (b1, g1, unanswered g1 \<or>
           \<bar>sint (g_TIME g1 - bs_start b1)\<bar> \<le> BUSY_WAIT_TIME \<and> requests_out g1))"

text \<open>
  The peers of BGP are stopped first, and a slave waits for a while after that.
\<close>

definition stop_peers :: "bgp_env \<Rightarrow> l2tpns \<Rightarrow> l2tpns" where
  "stop_peers e g =
     g\<lparr>g_bgp := (g_bgp g)\<lparr>bg_peers :=
       map (\<lambda>p. if bp_state p = Established then bgp_stop e p else p) (bg_peers (g_bgp g))\<rparr>\<rparr>"

definition still_busy :: "bgp_env \<Rightarrow> busy_pos \<times> l2tpns \<Rightarrow> busy_pos \<times> l2tpns \<times> bool" where
  "still_busy e x =
     (let (b, g) = x; master = cf_cluster_iam_master (g_cfg g); configured = bg_configured (g_bgp g); first = (configured \<and> bs_stopped_bgp b = 0);
          g1 = (if first then stop_peers e g else g);
          b1 = (if first then b\<lparr>bs_stopped_bgp := g_time_now g\<rparr> else b)
      in if first \<and> \<not> master then (b1, cluster_send_ping 0 g1, True)
         else if configured \<and> \<not> master \<and> g_time_now g < bs_stopped_bgp b1 + QUIT_DELAY then (b1, g1, True)
         else if \<not> master then (b1, g1, False)
         else busy_master (b1, g1))"

text \<open>After the loop.\<close>

definition loop_end :: "l2tpns \<Rightarrow> l2tpns" where
  "loop_end g = cluster_send_ping 0 (if cf_cluster_iam_master (g_cfg g) then cluster_heartbeat g else g)"

end
