(* ===== verification/SetupInv.thy ===== *)
theory SetupInv
  imports MainLoop
begin

text \<open>
  Properties of what arrives from RADIUS servers and of the cleanups: Framed-Routes read back as they are written,
  only a server that knows the secret changes anything, a request for a session acts on a session that fits all it
  says, and no RADIUS request is forgotten.
\<close>

subsection \<open>Framed-Routes\<close>

lemma of_char_digit8: "n < 10 \<Longrightarrow> (of_char (digit n) :: u8) = 48 + of_nat n"
  by (simp add: of_nat_of_char[symmetric, where 'a = "8 word"] of_char_digit)

lemma is_dig_digit: "n < 10 \<Longrightarrow> is_dig (48 + of_nat n)"
  by (simp add: is_dig_def word_le_nat_alt word_less_nat_alt unat_word_ariths unat_of_nat)

lemma digit_step: "(of_nat (n div 10) :: u8) * 10 + (48 + of_nat (n mod 10)) - 48 = of_nat n"
proof -
  have "(of_nat (n div 10) :: u8) * 10 + of_nat (n mod 10) = of_nat (n div 10 * 10 + n mod 10)"
    by (simp only: of_nat_add of_nat_mult of_nat_numeral)
  then show ?thesis by (simp add: div_mult_mod_eq)
qed

lemma chars_dec: "chars (dec n) = (if n < 10 then [48 + of_nat n] else chars (dec (n div 10)) @ [48 + of_nat (n mod 10)])"
  by (subst dec.simps) (simp add: chars_def of_char_digit8)

lemma chars_append: "chars (x @ y) = chars x @ chars y"
  by (simp add: chars_def)

lemma chars_Cons: "chars (c # s) = of_char c # chars s"
  by (simp add: chars_def)

lemma dec_digits: "b \<in> set (chars (dec n)) \<Longrightarrow> is_dig b"
  by (induction n rule: dec.induct) (subst (asm) (2) chars_dec, auto simp: is_dig_digit split: if_splits)

lemma digit_not_dot: "is_dig b \<Longrightarrow> b \<noteq> 46 \<and> b \<noteq> 47"
  by (auto simp: is_dig_def)

lemma route_ip_dec: "route_ip_loop (chars (dec n) @ rest) ip 0 = route_ip_loop rest ip (of_nat n)"
proof (induction n arbitrary: rest rule: dec.induct)
  case (1 n)
  have step: "route_ip_loop ((48 + of_nat d) # rest) ip u = route_ip_loop rest ip (u * 10 + (48 + of_nat d) - 48)" if "d < 10" for d u
    using is_dig_digit[OF that] digit_not_dot[OF is_dig_digit[OF that]] by simp
  show ?case
  proof (cases "n < 10")
    case True
    then show ?thesis by (subst chars_dec) (simp add: step del: route_ip_loop.simps)
  next
    case False
    then show ?thesis
      using 1 by (subst chars_dec) (simp add: step digit_step del: route_ip_loop.simps)
  qed
qed

lemma prefix_dec: "foldl (\<lambda>v b. v * 10 + b - 48) (0 :: u8) (takeWhile is_dig (chars (dec n))) = of_nat n"
proof -
  have all: "takeWhile is_dig (chars (dec n)) = chars (dec n)"
    using dec_digits by (simp add: takeWhile_eq_all_conv)
  have "foldl (\<lambda>v b. v * 10 + b - 48) (0 :: u8) (chars (dec n)) = of_nat n"
  proof (induction n rule: dec.induct)
    case (1 n)
    then show ?case by (subst chars_dec) (simp add: digit_step)
  qed
  then show ?thesis unfolding all .
qed

lemma address_bytes:
  "push_bit 8 (push_bit 8 (push_bit 8 (push_bit 8 0 + ucast (ucast (drop_bit 24 a) :: u8))
     + ucast (ucast (drop_bit 16 a) :: u8)) + ucast (ucast (drop_bit 8 a) :: u8)) + ucast (ucast a :: u8) = (a :: u32)"
proof -
  have "push_bit 8 (push_bit 8 (push_bit 8 (push_bit 8 0 + ucast b3) + ucast b2) + ucast b1) + ucast b0
      = (word_of_int (((int (unat b3) * 256 + int (unat b2)) * 256 + int (unat b1)) * 256 + int (unat b0)) :: u32)"
    for b0 b1 b2 b3 :: u8
    by (simp add: push_bit_eq_mult)
  then show ?thesis by (simp only: word_bytes)
qed

text \<open>
  C39: the address and the prefix length of a Framed-Route are read from the attribute as they were written there;
  without a prefix length the address is the same, whatever byte follows.
\<close>

theorem framed_route_roundtrip:
  "framed_route (chars (inet_ntoa a @ ''/'' @ dec (unat n))) b = (a, n) \<and> fst (framed_route (chars (inet_ntoa a)) b) = a"
proof -
  have dot: "route_ip_loop (46 # rest) ip u = route_ip_loop rest (push_bit 8 ip + ucast u) 0" for rest ip u
    by simp
  have slash: "route_ip_loop (47 # rest) ip u = (push_bit 8 ip + ucast u, 47 # rest)" for rest ip u
    by (simp add: is_dig_def)
  have "route_ip_loop (chars (inet_ntoa a @ ''/'' @ dec (unat n))) 0 0 = (a, 47 # chars (dec (unat n)))"
    using address_bytes[of a]
    by (simp add: inet_ntoa_def Let_def chars_append chars_Cons route_ip_dec dot slash
        del: route_ip_loop.simps push_bit_of_0)
  moreover have "route_ip_loop (chars (inet_ntoa a)) 0 0 = (a, [])"
    using address_bytes[of a] route_ip_dec[where rest = "[]"]
    by (simp add: inet_ntoa_def Let_def chars_append chars_Cons route_ip_dec dot del: route_ip_loop.simps(2) push_bit_of_0)
  ultimately show ?thesis by (simp add: framed_route_def prefix_dec)
qed

subsection \<open>Who can change anything\<close>

definition signed_by :: "bytes \<Rightarrow> bytes \<Rightarrow> mem \<Rightarrow> bool" where
  "signed_by secret in_auth m \<longleftrightarrow>
     20 \<le> unat (rd16 m 2) \<and> calc_auth secret (map m [0..<unat (rd16 m 2)]) in_auth = map m [4..<20]"

lemma vector_of_checked:
  assumes "obind (vector_of secret a m (unat (rd16 m 2))) (\<lambda>hash. if hash \<noteq> map m [4..<20] then Ret x else f hash) = Ret y"
    and "y \<noteq> x"
  shows "signed_by secret a m" and "f (map m [4..<20]) = Ret y"
  using assms by (auto simp: vector_of_def signed_by_def split: if_splits)

text \<open>
  C37: an answer of a RADIUS server changes the state only when it answers a request that waits for one, with a
  code that fits the request, and when its authenticator over the length it claims is made with the secret.
\<close>

theorem processrad_authentic:
  assumes "processrad hk rand m len socket g = Ret g'" and "g' \<noteq> g"
  shows "let rd = g_radius g (request_of m socket)
    in waits (rd_state rd) \<and> expected_code (rd_state rd) (m 0) \<and> unat (rd16 m 2) \<le> len \<and>
       signed_by (cf_radiussecret (g_cfg g)) (rd_auth rd) m"
proof -
  let ?rd = "g_radius g (request_of m socket)"
  have "waits (rd_state ?rd)" "unat (rd16 m 2) \<le> len"
    using assms by (auto simp: processrad_def Let_def split: if_splits)
  moreover have "obind (vector_of (cf_radiussecret (g_cfg g)) (rd_auth ?rd) m (unat (rd16 m 2)))
      (\<lambda>hash. if hash \<noteq> map m [4..<20] then Ret g
        else if \<not> expected_code (rd_state ?rd) (m 0) then Ret g
        else if auth_state (rd_state ?rd)
        then auth_response hk rand (request_of m socket) m (unat (rd16 m 2)) (rd_session ?rd) (s_tunnel (g_session g (rd_session ?rd))) g
        else Ret (radiusclear (request_of m socket) (rd_session ?rd) g)) = Ret g'"
    using assms by (simp add: processrad_def Let_def split: if_splits)
  note vector_of_checked[OF this assms(2)]
  ultimately show ?thesis using assms(2) by (auto simp: Let_def split: if_splits)
qed

text \<open>What a request says of the session it is about.\<close>

definition fits :: "dae_req \<Rightarrow> sessionidt \<Rightarrow> l2tpns \<Rightarrow> bool" where
  "fits q s g \<longleftrightarrow>
     s \<noteq> 0 \<and>
     (dq_port q \<noteq> 0 \<longrightarrow> s = unat (dq_port q) \<and> s_opened (g_session g s) \<noteq> 0) \<and>
     (dq_ip q \<noteq> 0 \<longrightarrow> sessionbyip (dq_ip q) g = s) \<and>
     (dq_user q \<noteq> [] \<longrightarrow> take 128 (s_user (g_session g s)) = take 128 (dq_user q))"

lemma sessionbyuser_fits:
  assumes "sessionbyuser user g = s" and "s \<noteq> 0"
  shows "take 128 (s_user (g_session g s)) = take 128 user"
  using assms by (auto simp: sessionbyuser_def find_Some_iff split: option.splits)

lemma dae_by_user_fits:
  assumes "dae_by_user q s g = Inr s'"
  shows "s \<noteq> 0 \<longrightarrow> s' = s" and "dq_user q \<noteq> [] \<longrightarrow> s' \<noteq> 0 \<and> take 128 (s_user (g_session g s')) = take 128 (dq_user q)"
  using assms sessionbyuser_fits by (auto simp: dae_by_user_def split: if_splits)

lemma dae_by_ip_fits:
  assumes "dae_by_ip q s g = Inr s'"
  shows "s \<noteq> 0 \<longrightarrow> s' = s" and "dq_ip q \<noteq> 0 \<longrightarrow> s' \<noteq> 0 \<and> sessionbyip (dq_ip q) g = s'" and "dq_ip q = 0 \<longrightarrow> s' = s"
  using assms by (auto simp: dae_by_ip_def Let_def split: if_splits)

lemma dae_session_fits:
  assumes "dae_session q g = Ret (Inr s)"
  shows "fits q s g"
proof -
  obtain s' where ip: "dae_by_ip q (unat (dq_port q)) g = Inr s'" and user: "dae_by_user q s' g = Inr s"
    and port: "unat (dq_port q) \<noteq> 0 \<longrightarrow> s_opened (g_session g (unat (dq_port q))) \<noteq> 0"
    and some: "dq_port q \<noteq> 0 \<or> dq_ip q \<noteq> 0 \<or> dq_user q \<noteq> []"
    using assms by (auto simp: dae_session_def dae_check_def Let_def split: if_splits sum.splits)
  have p: "dq_port q \<noteq> 0 \<longrightarrow> unat (dq_port q) \<noteq> 0" by (simp add: unat_eq_0)
  show ?thesis
    using dae_by_user_fits[OF user] dae_by_ip_fits[OF ip] port some p unfolding fits_def by metis
qed

text \<open>
  C38: a request of a server is answered only by the master and only when it is signed with the secret; it is
  acknowledged when a session fits all that the request says of it, and otherwise refused with an error, and then
  nothing has changed.
\<close>

theorem processdae_exact:
  assumes "processdae hk m len addr port g = Ret (g', Some reply)"
  shows "let q = dae_attrs m g 20 (int (unat (rd16 m 2)) - 20) dae_none
    in cf_cluster_iam_master (g_cfg g) \<and> signed_by (cf_radiussecret (g_cfg g)) (replicate 16 0) m \<and>
       (if hd reply \<in> {DisconnectACK, CoAACK} then \<exists>s. dae_session q g = Ret (Inr s) \<and> fits q s g
        else g' = g \<and> (\<exists>e. dae_session q g = Ret (Inl e)))"
proof -
  let ?q = "dae_attrs m g 20 (int (unat (rd16 m 2)) - 20) dae_none"
  let ?secret = "cf_radiussecret (g_cfg g)"
  have master: "cf_cluster_iam_master (g_cfg g)" and code: "m 0 = DisconnectRequest \<or> m 0 = CoARequest"
    and run: "obind (vector_of ?secret (replicate 16 0) m (unat (rd16 m 2)))
      (\<lambda>hash. if hash \<noteq> map m [4..<20] then Ret (g, None)
        else obind (dae_session ?q g) (\<lambda>who.
          let (g1, code) = dae_run hk m ?q who g in Ret (g1, Some (dae_reply ?secret hash code (m 1) who)))) = Ret (g', Some reply)"
    using assms unfolding processdae_def Let_def by (auto split: if_splits)
  have "(g', Some reply) \<noteq> (g, None)" by simp
  note signed = vector_of_checked[OF run this]
  then obtain who where who: "dae_session ?q g = Ret who"
    and ran: "(let (g1, code) = dae_run hk m ?q who g
      in Ret (g1, Some (dae_reply ?secret (map m [4..<20]) code (m 1) who))) = Ret (g', Some reply)"
    by (auto simp: obind_Ret_iff)
  then have "g' = fst (dae_run hk m ?q who g)" "hd reply = snd (dae_run hk m ?q who g)"
    by (auto simp: dae_reply_def Let_def split: prod.splits)
  then show ?thesis
    using code who master signed(1) dae_session_fits
    by (cases who) (auto simp: Let_def dae_run_def DisconnectACK_def DisconnectNAK_def CoAACK_def CoANAK_def
        DisconnectRequest_def CoARequest_def split: if_splits)
qed

text \<open>A length under 20 is not noticed before the authenticator is computed over it.\<close>

lemma short_length_undefined:
  assumes "20 \<le> len" and "unat (rd16 m 2) < 20" and "m 0 = DisconnectRequest" and "cf_cluster_iam_master (g_cfg g)"
  shows "processdae hk m len addr port g = Undef"
  using assms by (simp add: processdae_def vector_of_def)

subsection \<open>Cleanups\<close>

fun walk :: "nat \<Rightarrow> nat \<Rightarrow> nat \<Rightarrow> nat list" where
  "walk 0 high p = []"
| "walk (Suc n) high p = next_pos high p # walk n high (next_pos high p)"

lemma length_walk: "length (walk n high p) = n"
  by (induction n arbitrary: p) simp_all

lemma walk_positions: "p \<le> high \<Longrightarrow> 0 < high \<Longrightarrow> walk n high p = map (\<lambda>k. (p + k) mod high + 1) [0..<n]"
proof (induction n arbitrary: p)
  case (Suc n)
  have next_p: "next_pos high p = p mod high + 1" "next_pos high p \<le> high"
    using Suc.prems by (auto simp: next_pos_def le_less)
  have "(p mod high + 1 + k) mod high = (p + Suc k) mod high" for k
    by (metis add.assoc add.commute mod_add_left_eq plus_1_eq_Suc)
  then show ?case
    using Suc.IH[OF next_p(2) Suc.prems(2)] next_p(1)
    by (simp add: upt_conv_Cons[of 0 "Suc n"] map_Suc_upt[symmetric] del: upt_Suc)
qed simp

lemma walk_all: "p \<le> high \<Longrightarrow> 0 < high \<Longrightarrow> distinct (walk high high p) \<and> set (walk high high p) = {1..high}"
proof -
  assume p: "p \<le> high" "0 < high"
  have "inj_on (\<lambda>k. (p + k) mod high + 1) {0..<high}"
  proof (rule inj_onI)
    fix a b assume "a \<in> {0..<high}" "b \<in> {0..<high}" "(p + a) mod high + 1 = (p + b) mod high + 1"
    then show "a = b" using mod_cancel[of a p high b] by (simp add: add.commute)
  qed
  then have "distinct (walk high high p)" by (simp add: walk_positions[OF p] distinct_map)
  moreover have "set (walk high high p) \<subseteq> {1..high}" using p by (auto simp: walk_positions[OF p] Suc_le_eq)
  moreover have "card (set (walk high high p)) = high"
    using distinct_card[OF calculation(1)] by (simp only: length_walk)
  ultimately show ?thesis by (simp add: card_subset_eq)
qed

lemma clean_requests_walk: "snd (clean_requests n r g) = fold clean_radius (walk n (MAXRADIUS - 1) r) g"
  by (induction n arbitrary: r g) (simp_all add: Let_def)

lemma slice_second:
  assumes "1 \<le> period" and "0 < high"
  shows "slice high period = high"
proof -
  have "of_nat high * 1 \<le> of_nat high * period" using assms by (intro mult_left_mono) simp_all
  then have "int high \<le> \<lfloor>of_nat high * period\<rfloor>" by (simp add: le_floor_iff)
  then have "high \<le> nat \<lfloor>of_nat high * period\<rfloor>" by linarith
  then show ?thesis using assms(2) unfolding slice_def Let_def by auto
qed

text \<open>
  C40: when the cleanups run for a second or more, every RADIUS request is looked at exactly once, in the order in
  which the walk goes on from where it ended.
\<close>

theorem clean_requests_all:
  assumes "1 \<le> period" and "r < MAXRADIUS"
  shows "\<exists>rs. snd (clean_requests (slice (MAXRADIUS - 1) period) r g) = fold clean_radius rs g \<and>
    distinct rs \<and> set rs = {1..<MAXRADIUS}"
proof -
  have "r \<le> MAXRADIUS - 1" "0 < MAXRADIUS - 1" "{1..MAXRADIUS - 1} = {1..<MAXRADIUS}"
    using assms(2) by (auto simp: MAXRADIUS_def)
  then show ?thesis
    using walk_all[of r "MAXRADIUS - 1"] assms(1) by (auto simp: slice_second clean_requests_walk)
qed

subsection \<open>Examples\<close>

lemma bytes_mem_mid: "a = length xs \<Longrightarrow> b = a + length ys \<Longrightarrow> map (bytes_mem (xs @ ys @ zs)) [a..<b] = ys"
  by (rule nth_equalityI) (auto simp: bytes_mem_def nth_append)

definition sample_node :: "l2tpns \<Rightarrow> l2tpns" where
  "sample_node g = g\<lparr>g_radius := (\<lambda>_. radius_zero\<lparr>rd_state := RADIUSSTOP\<rparr>),
     g_session := (\<lambda>_. session_zero\<lparr>s_opened := 1\<rparr>),
     g_cfg := (g_cfg g)\<lparr>cf_radiussecret := [], cf_cluster_iam_master := True\<rparr>\<rparr>"

lemma processrad_authentic_witness:
  "\<forall>g :: l2tpns. \<exists>m g'. processrad no_hooks 0 m 20 0 (sample_node g) = Ret g' \<and> signed_by [] [] m"
proof
  fix g :: l2tpns
  let ?g = "sample_node g"
  define h where "h = md5 [[5, 0, 0, 20], [], [], []]"
  define m where "m = bytes_mem ([5, 0, 0, 20] @ h)"
  have len: "length h = 16" by (simp add: h_def length_md5)
  have m: "m 0 = 5" "m 1 = 0" "m 2 = 0" "m 3 = 20" by (simp_all add: m_def bytes_mem_def)
  have n: "rd16 m 2 = 20" using m by (simp add: rd16_def)
  have all: "map m [0..<20] = [5, 0, 0, 20] @ h" "map m [4..<20] = h"
    using bytes_mem_mid[of 0 "[]" 20 "[5, 0, 0, 20] @ h" "[]"] bytes_mem_mid[of 4 "[5, 0, 0, 20]" 20 h "[]"] len
    by (simp_all add: m_def del: upt_rec_numeral)
  have "vector_of [] [] m 20 = Ret h"
    unfolding vector_of_def all calc_auth_def using len by (simp add: h_def)
  moreover have r: "request_of m 0 = 0" using m by (simp add: request_of_def)
  ultimately have run: "processrad no_hooks 0 m 20 0 ?g = Ret (radiusclear 0 0 ?g)"
    by (simp only: processrad_def Let_def all n)
      (simp add: sample_node_def radius_zero_def waits_def expected_code_def auth_state_def AccountingResponse_def m)
  have "rd_state (g_radius (radiusclear 0 0 ?g) 0) \<noteq> rd_state (g_radius ?g 0)"
    by (simp add: radiusclear_def upd_radius_def sample_node_def radius_zero_def)
  then have "radiusclear 0 0 ?g \<noteq> ?g" by metis
  from processrad_authentic[OF run this] have "signed_by [] [] m"
    by (simp add: Let_def sample_node_def radius_zero_def)
  with run show "\<exists>m g'. processrad no_hooks 0 m 20 0 (sample_node g) = Ret g' \<and> signed_by [] [] m" by blast
qed

lemma clean_requests_all_witness:
  "\<forall>g. \<exists>rs. snd (clean_requests (slice (MAXRADIUS - 1) 2) 7 g) = fold clean_radius rs g \<and> distinct rs \<and> set rs = {1..<MAXRADIUS}"
  by (intro allI clean_requests_all) (simp_all add: MAXRADIUS_def)

lemma processdae_exact_witness:
  "\<forall>g :: l2tpns. \<exists>m g' reply. processdae no_hooks m 26 0x0A000001 3799 (sample_node g) = Ret (g', Some reply) \<and>
     hd reply = DisconnectACK \<and>
     (\<exists>s. fits (dae_attrs m (sample_node g) 20 6 dae_none) s (sample_node g))"
proof
  fix g :: l2tpns
  let ?g = "sample_node g"
  define h where "h = md5 [[40, 0, 0, 26], replicate 16 0, [5, 6, 0, 0, 0, 1], []]"
  let ?msg = "[40, 0, 0, 26] @ h @ [5, 6, 0, 0, 0, 1 :: u8]"
  define m where "m = bytes_mem ?msg"
  have len: "length h = 16" by (simp add: h_def length_md5)
  have m: "m 0 = 40" "m 1 = 0" "m 2 = 0" "m 3 = 26"
    and attr: "m 20 = 5" "m 21 = 6" "m 22 = 0" "m 23 = 0" "m 24 = 0" "m 25 = 1"
    using len by (simp_all add: m_def bytes_mem_def nth_append)
  have n: "rd16 m 2 = 26" using m by (simp add: rd16_def)
  have all: "map m [0..<26] = ?msg" "map m [4..<20] = h"
    using bytes_mem_mid[of 0 "[]" 26 ?msg "[]"] bytes_mem_mid[of 4 "[40, 0, 0, 26]" 20 h "[5, 6, 0, 0, 0, 1]"] len
    by (simp_all add: m_def del: upt_rec_numeral)
  have vec: "vector_of [] (replicate 16 0) m 26 = Ret h"
    unfolding vector_of_def all calc_auth_def using len by (simp add: h_def)
  let ?q = "dae_attrs m ?g 20 6 dae_none"
  have q: "?q = dae_none\<lparr>dq_port := 1\<rparr>"
    using attr
    by (simp add: dae_attrs.simps[of m _ 20 6] dae_attrs.simps[of m _ 26 0] dae_attr_def Let_def rd32_def rd16_def MAXSESSION_def)
  have who: "dae_session ?q ?g = Ret (Inr 1)"
    unfolding q by (simp add: dae_session_def dae_check_def dae_by_ip_def dae_by_user_def Let_def dae_none_def
        MAXSESSION_def sample_node_def)
  obtain g' reply where run: "processdae no_hooks m 26 0x0A000001 3799 ?g = Ret (g', Some reply)" and ack: "hd reply = DisconnectACK"
    using m who vec
    by (simp only: processdae_def Let_def all n)
      (simp add: sample_node_def DisconnectRequest_def dae_run_def dae_reply_def Let_def)
  show "\<exists>m g' reply. processdae no_hooks m 26 0x0A000001 3799 ?g = Ret (g', Some reply) \<and> hd reply = DisconnectACK \<and>
     (\<exists>s. fits (dae_attrs m ?g 20 6 dae_none) s ?g)"
    using processdae_exact[OF run] run ack by (auto simp: Let_def n)
qed

end
