(* ===== verification/Rle.thy ===== *)
theory Rle
  imports Prelude
begin

text \<open>
  The run-length coding of structures in cluster heartbeats: \<open>rle_compress\<close> and
  \<open>rle_decompress\<close> of \<^verbatim>\<open>src/cluster.c\<close>. A source pointer with its \<open>ssize\<close> is the list of
  the bytes still to read; a destination pointer with its \<open>dsize\<close> is the list of the bytes
  written and the room that is left. Both functions return the bytes written (their C result
  is the number of those) and the source that is left (the updated \<open>*src_p\<close>).
\<close>

subsection \<open>Compression\<close>

text \<open>
  The two inner loops. The C loop reads \<open>*src\<close> before it tests \<open>ssize > 0\<close>; at the end of
  the source both tests are in one conjunction, so the value read there has no effect.
\<close>

fun rle_copy_run :: "nat \<Rightarrow> bytes \<Rightarrow> nat \<Rightarrow> bytes \<times> bytes \<times> nat" where
  "rle_copy_run count [] dsize = ([], [], dsize)"
| "rle_copy_run count (b # src) dsize =
     (if b \<noteq> 0 \<and> count < 127 \<and> dsize > 1
      then (case rle_copy_run (Suc count) src (dsize - 1) of
              (run, src', dsize') \<Rightarrow> (b # run, src', dsize'))
      else ([], b # src, dsize))"

fun rle_zero_run :: "nat \<Rightarrow> bytes \<Rightarrow> nat \<times> bytes" where
  "rle_zero_run count [] = (count, [])"
| "rle_zero_run count (b # src) =
     (if b = 0 \<and> count < 127 then rle_zero_run (Suc count) src else (count, b # src))"

lemma rle_copy_run_split:
  "rle_copy_run count src dsize = (run, src', dsize') \<Longrightarrow>
     src = run @ src' \<and> dsize' = dsize - length run \<and> length run \<le> dsize \<and>
     0 \<notin> set run \<and> (count \<le> 127 \<longrightarrow> count + length run \<le> 127)"
  by (induction count src dsize arbitrary: run src' dsize' rule: rle_copy_run.induct)
    (fastforce split: if_splits prod.splits)+

lemma rle_zero_run_split:
  "rle_zero_run count src = (n, src') \<Longrightarrow>
     count \<le> n \<and> src = replicate (n - count) 0 @ src' \<and> (count \<le> 127 \<longrightarrow> n \<le> 127)"
proof (induction count src arbitrary: n src' rule: rle_zero_run.induct)
  case (2 count b src)
  show ?case
  proof (cases "b = 0 \<and> count < 127")
    case True
    with "2.prems" have "rle_zero_run (Suc count) src = (n, src')" by simp
    from "2.IH" [OF True this]
    have IH: "Suc count \<le> n" "src = replicate (n - Suc count) 0 @ src'" "n \<le> 127"
      using True by auto
    then have "n - count = Suc (n - Suc count)" by simp
    with IH True show ?thesis by simp
  next
    case False
    with "2.prems" show ?thesis by auto
  qed
qed simp

lemma rle_copy_run_progress:
  "rle_copy_run 0 src dsize = (run, src', dsize') \<Longrightarrow> src \<noteq> [] \<Longrightarrow> hd src \<noteq> 0 \<Longrightarrow> 1 < dsize \<Longrightarrow>
     length src' < length src"
  using rle_copy_run_split by (cases src) (fastforce split: prod.splits)+

lemma rle_zero_run_progress:
  "rle_zero_run 0 src = (n, src') \<Longrightarrow> src \<noteq> [] \<Longrightarrow> hd src = 0 \<Longrightarrow> length src' < length src"
proof (cases src)
  case (Cons b bs)
  assume "rle_zero_run 0 src = (n, src')" "hd src = 0"
  with Cons have "rle_zero_run (Suc 0) bs = (n, src')" by simp
  from rle_zero_run_split [OF this] Cons show ?thesis by simp
qed simp

function rle_loop :: "bytes \<Rightarrow> nat \<Rightarrow> bytes \<times> bytes" where
  "rle_loop src dsize =
     (if src \<noteq> [] \<and> dsize > 2
      then (if hd src \<noteq> 0
            then (case rle_copy_run 0 src (dsize - 1) of (run, src', dsize') \<Rightarrow>
                   (case rle_loop src' dsize' of
                      (out, rest) \<Rightarrow> (of_nat (length run) # run @ out, rest)))
            else (case rle_zero_run 0 src of (n, src') \<Rightarrow>
                   (case rle_loop src' (dsize - 1) of
                      (out, rest) \<Rightarrow> ((of_nat n OR 0x80) # out, rest))))
      else ([0], src))"
  by pat_completeness auto
termination
  by (relation "measure (length \<circ> fst)")
    (auto dest: rle_copy_run_progress [OF sym] rle_zero_run_progress [OF sym])

declare rle_loop.simps [simp del]

definition rle_compress :: "bytes \<Rightarrow> nat \<Rightarrow> bytes \<times> bytes" where
  "rle_compress src dsize = rle_loop src dsize"

subsection \<open>Decompression\<close>

fun rle_put_zeros :: "nat \<Rightarrow> nat \<Rightarrow> bytes \<times> nat" where
  "rle_put_zeros 0 dsize = ([], dsize)"
| "rle_put_zeros (Suc count) dsize =
     (if dsize > 0
      then (case rle_put_zeros count (dsize - 1) of (out, dsize') \<Rightarrow> (0 # out, dsize'))
      else ([], dsize))"

fun rle_put_bytes :: "nat \<Rightarrow> bytes \<Rightarrow> nat \<Rightarrow> bytes \<times> bytes \<times> nat" where
  "rle_put_bytes 0 src dsize = ([], src, dsize)"
| "rle_put_bytes (Suc count) [] dsize = ([], [], dsize)"
| "rle_put_bytes (Suc count) (b # src) dsize =
     (if dsize > 0
      then (case rle_put_bytes count src (dsize - 1) of
              (out, src', dsize') \<Rightarrow> (b # out, src', dsize'))
      else ([], b # src, dsize))"

lemma rle_put_zeros_eq: "rle_put_zeros n d = (replicate (min n d) 0, d - n)"
proof (induction n d rule: rle_put_zeros.induct)
  case (2 count dsize)
  then show ?case by (cases dsize) auto
qed simp

lemma rle_put_bytes_eq:
  "rle_put_bytes n src d =
     (take (min n d) src, drop (min n d) src, d - min n (min d (length src)))"
proof (induction n src d rule: rle_put_bytes.induct)
  case (3 count b src dsize)
  then show ?case by (cases dsize) auto
qed auto

function rle_decompress :: "bytes \<Rightarrow> nat \<Rightarrow> bytes \<times> bytes" where
  "rle_decompress src dsize =
     (if src \<noteq> [] \<and> dsize > 0
      then (let count = hd src; src1 = tl src in
            if count = 0 then ([], src1)
            else if count AND 0x80 \<noteq> 0
            then (case rle_put_zeros (unat (count AND 0x7f)) dsize of (out, dsize') \<Rightarrow>
                   (case rle_decompress src1 dsize' of (out', rest) \<Rightarrow> (out @ out', rest)))
            else (case rle_put_bytes (unat count) src1 dsize of (out, src2, dsize') \<Rightarrow>
                   (case rle_decompress src2 dsize' of (out', rest) \<Rightarrow> (out @ out', rest))))
      else ([], src))"
  by pat_completeness auto
termination
  by (relation "measure (length \<circ> fst)") (auto simp: rle_put_bytes_eq neq_Nil_conv)

declare rle_decompress.simps [simp del]

subsection \<open>The count byte\<close>

lemma bit7_iff: "(x :: u8) AND 0x80 \<noteq> 0 \<longleftrightarrow> bit x 7"
  using bit_iff_and_push_bit_not_eq_0 [of x 7] by simp

lemma count_byte_plain:
  assumes "n \<le> 127"
  shows "unat (of_nat n :: u8) = n" and "(of_nat n :: u8) AND 0x80 = 0"
proof -
  from assms have "\<not> bit n 7" by (simp add: bit_iff_odd [of n 7])
  then have "\<not> bit (of_nat n :: u8) 7" by (simp add: bit_simps)
  then show "(of_nat n :: u8) AND 0x80 = 0" using bit7_iff by blast
  from assms show "unat (of_nat n :: u8) = n"
    by (simp add: unat_of_nat)
qed

lemma count_byte_zeros:
  assumes "n \<le> 127"
  shows "unat ((of_nat n OR 0x80 :: u8) AND 0x7f) = n"
    and "(of_nat n OR 0x80 :: u8) AND 0x80 \<noteq> 0"
    and "(of_nat n OR 0x80 :: u8) \<noteq> 0"
proof -
  have c: "(0x80 :: u8) = push_bit 7 1" "(0x7f :: u8) = mask 7" by (simp_all add: mask_numeral)
  then have b: "bit (of_nat n OR 0x80 :: u8) 7" by (simp add: bit_simps)
  then show "(of_nat n OR 0x80 :: u8) AND 0x80 \<noteq> 0" using bit7_iff by blast
  from b show "(of_nat n OR 0x80 :: u8) \<noteq> 0" by fastforce
  have lo: "(of_nat n OR 0x80 :: u8) AND 0x7f = of_nat n AND mask 7"
    unfolding c by (rule bit_word_eqI) (auto simp del: push_bit_of_1 simp: bit_simps)
  have "of_nat n AND mask 7 = (of_nat n :: u8)"
    using assms by (simp flip: take_bit_eq_mask add: take_bit_of_nat take_bit_nat_eq_self)
  with lo have "(of_nat n OR 0x80 :: u8) AND 0x7f = of_nat n" by simp
  then show "unat ((of_nat n OR 0x80 :: u8) AND 0x7f) = n"
    using count_byte_plain(1) [OF assms] by simp
qed

subsection \<open>Round trip\<close>

lemma rle_decompress_stop: "0 < D \<Longrightarrow> rle_decompress (0 # more) D = ([], more)"
  by (subst rle_decompress.simps) simp

lemma rle_decompress_plain:
  assumes "run \<noteq> []" "length run \<le> 127" "length run \<le> D"
  shows "rle_decompress (of_nat (length run) # run @ src) D =
     (let (out, rest) = rle_decompress src (D - length run) in (run @ out, rest))"
proof -
  have "(of_nat (length run) :: u8) \<noteq> 0"
    using assms count_byte_plain(1) [of "length run"] by (metis length_0_conv unat_0)
  moreover from assms have "0 < D" by (cases run) auto
  ultimately show ?thesis using assms
    by (subst rle_decompress.simps)
      (simp add: Let_def rle_put_bytes_eq count_byte_plain split: prod.splits)
qed

lemma rle_decompress_zeros:
  assumes "0 < n" "n \<le> 127" "n \<le> D"
  shows "rle_decompress ((of_nat n OR 0x80) # src) D =
     (let (out, rest) = rle_decompress src (D - n) in (replicate n 0 @ out, rest))"
  using assms count_byte_zeros [of n]
  by (subst rle_decompress.simps) (simp add: Let_def rle_put_zeros_eq split: prod.splits)

lemma rle_loop_roundtrip:
  "rle_loop src dsize = (out, rest) \<Longrightarrow>
     \<exists>pre. src = pre @ rest \<and>
       (\<forall>D more. length pre < D \<longrightarrow> rle_decompress (out @ more) D = (pre, more))"
proof (induction src dsize arbitrary: out rest rule: rle_loop.induct)
  case (1 src dsize)
  show ?case
  proof (cases "src \<noteq> [] \<and> dsize > 2")
    case False
    with "1.prems" have "out = [0]" "rest = src"
      by (auto simp: rle_loop.simps [of src dsize] split: if_splits)
    then show ?thesis by (auto simp: rle_decompress_stop)
  next
    case True
    show ?thesis
    proof (cases "hd src = 0")
      case False
      obtain run src' d' where r: "rle_copy_run 0 src (dsize - 1) = (run, src', d')"
        by (metis prod_cases3)
      obtain out' where o: "rle_loop src' d' = (out', rest)" "out = of_nat (length run) # run @ out'"
        using "1.prems" True False r
        by (auto simp: rle_loop.simps [of src dsize] split: prod.splits)
      from rle_copy_run_split [OF r] have sp: "src = run @ src'" "length run \<le> 127" by auto
      have "1 < dsize - 1" using True by linarith
      with rle_copy_run_progress [OF r] True False sp have ne: "run \<noteq> []" by auto
      from "1.IH"(1) [OF True False r [symmetric] refl o(1)]
      obtain pre where pre: "src' = pre @ rest"
        "\<And>D more. length pre < D \<Longrightarrow> rle_decompress (out' @ more) D = (pre, more)" by auto
      show ?thesis
        using sp ne pre o(2)
        by (intro exI [of _ "run @ pre"]) (auto simp: rle_decompress_plain)
    next
      case zero: True
      obtain n src' where r: "rle_zero_run 0 src = (n, src')" by (metis surj_pair)
      obtain out' where o: "rle_loop src' (dsize - 1) = (out', rest)"
        "out = (of_nat n OR 0x80) # out'"
        using "1.prems" True zero r
        by (auto simp: rle_loop.simps [of src dsize] split: prod.splits)
      from rle_zero_run_split [OF r] have sp: "src = replicate n 0 @ src'" "n \<le> 127" by auto
      with rle_zero_run_progress [OF r] True zero have ne: "0 < n" by auto
      from "1.IH"(2) [OF True _ r [symmetric] o(1)] zero
      obtain pre where pre: "src' = pre @ rest"
        "\<And>D more. length pre < D \<Longrightarrow> rle_decompress (out' @ more) D = (pre, more)" by auto
      show ?thesis
        using sp ne pre o(2)
        by (intro exI [of _ "replicate n 0 @ pre"]) (auto simp: rle_decompress_zeros)
    qed
  qed
qed

subsection \<open>Room\<close>

text \<open>
  How much room the compressor needs. The comment over the C code gives a 50\<open>%\<close> expansion as
  the worst case; \<open>rle_need\<close> is twice that bound with its additive constant, which depends on
  whether the source starts with a zero.
\<close>

definition rle_need :: "bytes \<Rightarrow> nat" where
  "rle_need src = 3 * length src + (if src = [] then 0 else if hd src = 0 then 3 else 4)"

lemma rle_copy_run_stop:
  "rle_copy_run c src d = (run, src', d') \<Longrightarrow>
     src' = [] \<or> hd src' = 0 \<or> 127 \<le> c + length run \<or> d' \<le> 1"
  by (induction c src d arbitrary: run src' d' rule: rle_copy_run.induct)
    (fastforce split: if_splits prod.splits)+

lemma rle_zero_run_stop:
  "rle_zero_run c src = (n, src') \<Longrightarrow> src' = [] \<or> hd src' \<noteq> 0 \<or> 127 \<le> n"
  by (induction c src arbitrary: n src' rule: rle_zero_run.induct) (auto split: if_splits)

lemma rle_loop_room:
  "rle_loop src dsize = (out, rest) \<Longrightarrow> rle_need src \<le> 2 * dsize \<Longrightarrow>
     rest = [] \<and> 2 * length out \<le> rle_need src + 2"
proof (induction src dsize arbitrary: out rest rule: rle_loop.induct)
  case (1 src dsize)
  show ?case
  proof (cases "src = []")
    case True
    with "1.prems" show ?thesis
      by (auto simp: rle_loop.simps [of "[]" dsize] rle_need_def)
  next
    case ne: False
    then have "1 \<le> length src" by (cases src) auto
    with "1.prems"(2) ne have "2 < dsize" by (auto simp: rle_need_def split: if_splits)
    with ne have g: "src \<noteq> [] \<and> 2 < dsize" by simp
    show ?thesis
    proof (cases "hd src = 0")
      case False
      obtain run src' d' where r: "rle_copy_run 0 src (dsize - 1) = (run, src', d')"
        by (metis prod_cases3)
      obtain out' where o: "rle_loop src' d' = (out', rest)" "length out = Suc (length run + length out')"
        using "1.prems" g False r
        by (auto simp: rle_loop.simps [of src dsize] split: prod.splits)
      from rle_copy_run_split [OF r]
      have sp: "length src = length run + length src'" "d' = dsize - 1 - length run" by auto
      from rle_copy_run_progress [OF r] g False have "length src' < length src" by auto
      with sp have k: "1 \<le> length run" by linarith
      have n: "3 * length src + 4 \<le> 2 * dsize"
        using "1.prems"(2) False ne by (simp add: rle_need_def)
      have need: "rle_need src' + 2 + 2 * length run \<le> 3 * length src + 4"
        using rle_copy_run_stop [OF r] k n sp
        by (cases "src' = []") (auto simp: rle_need_def)
      with n sp have "rle_need src' \<le> 2 * d'" by simp
      from "1.IH"(1) [OF g False r [symmetric] refl o(1) this] need o(2) False ne
      show ?thesis by (simp add: rle_need_def)
    next
      case zero: True
      obtain n src' where r: "rle_zero_run 0 src = (n, src')" by (metis surj_pair)
      obtain out' where o: "rle_loop src' (dsize - 1) = (out', rest)"
        "length out = Suc (length out')"
        using "1.prems" g zero r
        by (auto simp: rle_loop.simps [of src dsize] split: prod.splits)
      from rle_zero_run_split [OF r] have sp: "length src = n + length src'" by simp
      with rle_zero_run_progress [OF r] g zero have k: "1 \<le> n" by auto
      have m: "3 * length src + 3 \<le> 2 * dsize"
        using "1.prems"(2) zero ne by (simp add: rle_need_def)
      have need: "rle_need src' + 2 \<le> 3 * length src + 3"
        using rle_zero_run_stop [OF r] k sp
        by (cases "src' = []") (auto simp: rle_need_def)
      with m have "rle_need src' \<le> 2 * (dsize - 1)" by simp
      from "1.IH"(2) [OF g _ r [symmetric] o(1) this] need o(2) zero ne
      show ?thesis by (simp add: rle_need_def)
    qed
  qed
qed

text \<open>Without the assumption of room, the compressor still stays inside its buffer.\<close>

lemma rle_copy_run_room:
  "rle_copy_run c src d = (run, src', d') \<Longrightarrow> 0 < d \<Longrightarrow> 0 < d' \<and> d' + length run = d"
  by (induction c src d arbitrary: run src' d' rule: rle_copy_run.induct)
    (fastforce split: if_splits prod.splits)+

lemma rle_loop_in_buffer:
  "rle_loop src dsize = (out, rest) \<Longrightarrow> 0 < dsize \<Longrightarrow> length out \<le> dsize"
proof (induction src dsize arbitrary: out rest rule: rle_loop.induct)
  case (1 src dsize)
  show ?case
  proof (cases "src \<noteq> [] \<and> 2 < dsize")
    case False
    with "1.prems" show ?thesis by (auto simp: rle_loop.simps [of src dsize] split: if_splits)
  next
    case g: True
    show ?thesis
    proof (cases "hd src = 0")
      case False
      obtain run src' d' where r: "rle_copy_run 0 src (dsize - 1) = (run, src', d')"
        by (metis prod_cases3)
      obtain out' where o: "rle_loop src' d' = (out', rest)" "length out = Suc (length run + length out')"
        using "1.prems" g False r
        by (auto simp: rle_loop.simps [of src dsize] split: prod.splits)
      from rle_copy_run_room [OF r] g have "0 < d'" "d' + length run = dsize - 1" by auto
      with "1.IH"(1) [OF g False r [symmetric] refl o(1)] o(2) show ?thesis by simp
    next
      case zero: True
      obtain n src' where r: "rle_zero_run 0 src = (n, src')" by (metis surj_pair)
      obtain out' where o: "rle_loop src' (dsize - 1) = (out', rest)"
        "length out = Suc (length out')"
        using "1.prems" g zero r
        by (auto simp: rle_loop.simps [of src dsize] split: prod.splits)
      with "1.IH"(2) [OF g _ r [symmetric] o(1)] g zero have "length out' \<le> dsize - 1" by simp
      with o(2) g show ?thesis by linarith
    qed
  qed
qed

lemma rle_compress_complete:
  assumes "4 \<le> length xs"
  shows "\<exists>out. rle_compress xs (2 * length xs) = (out, []) \<and> 2 * length out \<le> 3 * length xs + 6"
proof -
  obtain out rest where l: "rle_loop xs (2 * length xs) = (out, rest)" by (metis surj_pair)
  from assms have "rle_need xs \<le> 2 * (2 * length xs)" "rle_need xs + 2 \<le> 3 * length xs + 6"
    by (auto simp: rle_need_def)
  with rle_loop_room [OF l] l show ?thesis by (auto simp: rle_compress_def)
qed

lemma rle_compress_decompress:
  assumes "rle_compress xs dsize = (out, [])" "length xs < D"
  shows "rle_decompress (out @ more) D = (xs, more)"
  using rle_loop_roundtrip [of xs dsize out "[]"] assms by (auto simp: rle_compress_def)

text \<open>
  C5: A structure of at least four bytes, compressed into a buffer of twice its size (as
  \<open>hb_add_type\<close> does), is compressed completely, within the buffer and the documented 50\<open>%\<close>
  expansion; decompressing the result into a buffer with at least one byte to spare (as
  \<open>cluster_process_heartbeat\<close> does) restores it and leaves the source pointer exactly behind
  the stop byte, so that the next element of the packet is read from the right place.
\<close>

theorem rle_roundtrip:
  assumes "4 \<le> length xs" and "length xs < D"
  shows "\<exists>out. rle_compress xs (2 * length xs) = (out, []) \<and>
     length out \<le> 2 * length xs \<and> 2 * length out \<le> 3 * length xs + 6 \<and>
     rle_decompress (out @ more) D = (xs, more)"
proof -
  obtain out where o: "rle_compress xs (2 * length xs) = (out, [])"
    "2 * length out \<le> 3 * length xs + 6"
    using rle_compress_complete [OF assms(1)] by blast
  moreover have "length out \<le> 2 * length xs"
    using o(1) assms(1) rle_loop_in_buffer [of xs "2 * length xs" out "[]"]
    by (fastforce simp: rle_compress_def)
  ultimately show ?thesis using rle_compress_decompress [OF o(1) assms(2)] by blast
qed

lemma rle_roundtrip_witness:
  "\<exists>out. rle_compress [0, 0, 0, 7, 8, 0] 12 = (out, []) \<and>
     length out \<le> 12 \<and> 2 * length out \<le> 24 \<and>
     rle_decompress (out @ [9, 9]) 8 = ([0, 0, 0, 7, 8, 0], [9, 9])"
  using rle_roundtrip [of "[0, 0, 0, 7, 8, 0]" 8 "[9, 9]"] by simp

end
