(* ===== verification/Nsctl.thy ===== *)
theory Nsctl
  imports Prelude
begin

text \<open>
  The nsctl control packets of \<^verbatim>\<open>src/control.c\<close> and \<^verbatim>\<open>src/control.h\<close>: \<open>pack_control\<close> builds a
  request or response, \<open>unpack_control\<close> parses one. An argument is the byte list of a C string
  (without its terminating NUL).
\<close>

subsection \<open>Constants and the parsed packet\<close>

definition NSCTL_MAGIC :: u16 where "NSCTL_MAGIC = 0x9013"
definition NSCTL_REQ_LOAD :: u8 where "NSCTL_REQ_LOAD = 0x11"
definition NSCTL_REQ_UNLOAD :: u8 where "NSCTL_REQ_UNLOAD = 0x12"
definition NSCTL_REQ_HELP :: u8 where "NSCTL_REQ_HELP = 0x13"
definition NSCTL_REQ_CONTROL :: u8 where "NSCTL_REQ_CONTROL = 0x14"
definition NSCTL_RES_OK :: u8 where "NSCTL_RES_OK = 0x21"
definition NSCTL_RES_ERR :: u8 where "NSCTL_RES_ERR = 0x22"
definition NSCTL_MAX_PKT_SZ :: nat where "NSCTL_MAX_PKT_SZ = 4096"
definition NSCTL_MAX_ARG_SZ :: nat where "NSCTL_MAX_ARG_SZ = 512"

lemmas nsctl_type_defs =
  NSCTL_REQ_LOAD_def NSCTL_REQ_UNLOAD_def NSCTL_REQ_HELP_def NSCTL_REQ_CONTROL_def
  NSCTL_RES_OK_def NSCTL_RES_ERR_def

datatype nsctl_err = NSCTL_ERR_SHORT | NSCTL_ERR_LONG | NSCTL_ERR_MAGIC | NSCTL_ERR_TYPE

record nsctl =
  nc_type :: u8
  nc_argv :: "bytes list"

subsection \<open>Packing\<close>

text \<open>
  One turn of the argument loop. \<open>value\<close> is the content of the local \<open>arg.value\<close> (511 bytes,
  uninitialised at first, then left over from the argument before): the C code stores the
  length in a byte, copies that many bytes into \<open>arg.value\<close>, but emits \<open>s\<close> bytes of the
  structure, where \<open>s\<close> is the length before it was narrowed to a byte.
\<close>

fun pack_args :: "bytes \<Rightarrow> nat \<Rightarrow> nat \<Rightarrow> bytes list \<Rightarrow> (bytes \<times> nat) option" where
  "pack_args val sz len [] = Some ([], sz)"
| "pack_args val sz len (a # argv) =
     (let s = min (length a) (NSCTL_MAX_ARG_SZ - 1);
          arg_len = (of_nat s :: u8);
          val' = take (unat arg_len) a @ drop (unat arg_len) val
      in if sz + (s + 1) > len then None
         else (case pack_args val' (sz + (s + 1)) len argv of
                 None \<Rightarrow> None
               | Some (out, sz') \<Rightarrow> Some (arg_len # take s val' @ out, sz')))"

text \<open>
  \<open>pack_control\<close>: \<open>None\<close> is the return value -1, \<open>Some\<close> holds the bytes copied to \<open>data\<close> (their
  number is the return value). The comparisons of \<open>len\<close> with a \<open>size_t\<close> make a negative
  \<open>len\<close> a huge one. \<open>junk\<close> is the initial content of the stack variable \<open>arg.value\<close>.
\<close>

definition pack_control :: "bytes \<Rightarrow> int \<Rightarrow> u8 \<Rightarrow> bytes list \<Rightarrow> bytes option" where
  "pack_control junk len ty argv =
     (let len' = (if len < 0 \<or> len > int NSCTL_MAX_PKT_SZ then NSCTL_MAX_PKT_SZ else nat len);
          argv' = take 0xff argv
      in (case pack_args junk 4 len' argv' of
            None \<Rightarrow> None
          | Some (out, sz) \<Rightarrow>
              if sz + 1 > len' then None
              else Some (be16 NSCTL_MAGIC @ [ty, of_nat (length argv')] @ out @ [0xff])))"

subsection \<open>Unpacking\<close>

definition nsctl_valid_type :: "u8 \<Rightarrow> bool" where
  "nsctl_valid_type ty \<longleftrightarrow>
     ty = NSCTL_REQ_LOAD \<or> ty = NSCTL_REQ_UNLOAD \<or> ty = NSCTL_REQ_HELP \<or>
     ty = NSCTL_REQ_CONTROL \<or> ty = NSCTL_RES_OK \<or> ty = NSCTL_RES_ERR"

text \<open>The loop over \<open>0..argc\<close>: \<open>n\<close> arguments are still expected, the last turn checks the terminator.\<close>

fun unpack_args :: "nat \<Rightarrow> bytes \<Rightarrow> nsctl_err + (bytes list \<times> bytes)" where
  "unpack_args n [] = Inl NSCTL_ERR_SHORT"
| "unpack_args 0 (s # p) = (if s \<noteq> 0xff then Inl NSCTL_ERR_SHORT else Inr ([], p))"
| "unpack_args (Suc n) (s # p) =
     (if length p < unat s then Inl NSCTL_ERR_SHORT
      else (case unpack_args n (drop (unat s) p) of
              Inl e \<Rightarrow> Inl e
            | Inr (argv, p') \<Rightarrow> Inr (take (unat s) p # argv, p')))"

definition unpack_control :: "bytes \<Rightarrow> nsctl_err + nsctl" where
  "unpack_control data =
     (if length data < 4 then Inl NSCTL_ERR_SHORT
      else if length data > NSCTL_MAX_PKT_SZ then Inl NSCTL_ERR_LONG
      else if of_be16 data \<noteq> NSCTL_MAGIC then Inl NSCTL_ERR_MAGIC
      else if \<not> nsctl_valid_type (data ! 2) then Inl NSCTL_ERR_TYPE
      else (case unpack_args (unat (data ! 3)) (drop 4 data) of
              Inl e \<Rightarrow> Inl e
            | Inr (argv, p) \<Rightarrow>
                if p \<noteq> [] then Inl NSCTL_ERR_LONG
                else Inr \<lparr>nc_type = data ! 2, nc_argv = argv\<rparr>))"

subsection \<open>Properties\<close>

definition args_size :: "bytes list \<Rightarrow> nat" where
  "args_size argv = sum_list (map (\<lambda>a. length a + 1) argv)"

definition enc_args :: "bytes list \<Rightarrow> bytes" where
  "enc_args argv = concat (map (\<lambda>a. of_nat (length a) # a) argv)"

lemma length_enc_args [simp]: "length (enc_args argv) = args_size argv"
  by (induction argv) (auto simp: enc_args_def args_size_def)

lemma unat_u8_small: "n < 256 \<Longrightarrow> unat (of_nat n :: u8) = n"
  by (simp add: unat_of_nat)

lemma pack_args_short:
  "\<forall>a \<in> set argv. length a \<le> 255 \<Longrightarrow> sz + args_size argv \<le> len \<Longrightarrow>
     pack_args val sz len argv = Some (enc_args argv, sz + args_size argv)"
proof (induction argv arbitrary: val sz)
  case (Cons a argv)
  then have "length a \<le> 255" "sz + (length a + 1) + args_size argv \<le> len"
    by (auto simp: args_size_def)
  with Cons show ?case
    by (simp add: Let_def NSCTL_MAX_ARG_SZ_def min_def unat_u8_small enc_args_def args_size_def)
qed (auto simp: enc_args_def args_size_def)

lemma unpack_args_enc:
  "\<forall>a \<in> set argv. length a \<le> 255 \<Longrightarrow>
     unpack_args (length argv) (enc_args argv @ 0xff # r) = Inr (argv, r)"
  by (induction argv) (auto simp: enc_args_def unat_u8_small)

lemma unpack_args_short:
  "unpack_args n p = Inr (argv, p') \<Longrightarrow> a \<in> set argv \<Longrightarrow> length a \<le> 255"
proof (induction n p arbitrary: argv rule: unpack_args.induct)
  case (3 n s p)
  have "unat s < 2 ^ LENGTH(8)" by (rule unsigned_less)
  then have "unat s \<le> 255" by simp
  with 3 show ?case by (fastforce split: if_splits sum.splits)
qed (auto split: if_splits)

text \<open>
  Round trip of a control packet: whatever the stack held, a packet of a known type whose
  arguments are at most 255 bytes long and which fits the buffer is packed, and unpacking it
  returns its type and its arguments.
\<close>

lemma nsctl_roundtrip:
  assumes "nsctl_valid_type ty" and "length argv \<le> 255"
    and "\<forall>a \<in> set argv. length a \<le> 255"
    and "int (args_size argv) + 5 \<le> len" and "len \<le> 4096"
  shows "\<exists>data. pack_control junk len ty argv = Some data \<and>
     length data = args_size argv + 5 \<and>
     unpack_control data = Inr \<lparr>nc_type = ty, nc_argv = argv\<rparr>"
proof -
  let ?d = "be16 NSCTL_MAGIC @ [ty, of_nat (length argv)] @ enc_args argv @ [0xff]"
  have "pack_control junk len ty argv = Some ?d"
    using assms pack_args_short [of argv 4 "nat len" junk]
    by (auto simp: pack_control_def Let_def NSCTL_MAX_PKT_SZ_def)
  moreover have "unpack_control ?d = Inr \<lparr>nc_type = ty, nc_argv = argv\<rparr>"
    using assms unpack_args_enc [of argv "[]"]
    by (simp add: unpack_control_def NSCTL_MAX_PKT_SZ_def unat_u8_small nth_append)
  ultimately show ?thesis by simp
qed

lemma nsctl_roundtrip_witness:
  "\<exists>data. pack_control [] 4096 0x14 [[1, 2, 3], []] = Some data \<and>
     length data = 10 \<and> unpack_control data = Inr \<lparr>nc_type = 0x14, nc_argv = [[1, 2, 3], []]\<rparr>"
  using nsctl_roundtrip [of "0x14" "[[1, 2, 3], []]" 4096 "[]"]
  by (simp add: nsctl_valid_type_def nsctl_type_defs args_size_def)

lemma pack_args_accepts:
  "\<forall>a \<in> set argv. length a \<le> 511 \<Longrightarrow> sz + args_size argv \<le> len \<Longrightarrow>
     \<exists>out. pack_args val sz len argv = Some (out, sz + args_size argv)"
proof (induction argv arbitrary: val sz)
  case (Cons a argv)
  then have a: "length a \<le> 511" "sz + (length a + 1) + args_size argv \<le> len"
    by (auto simp: args_size_def)
  from Cons.prems have "\<forall>a \<in> set argv. length a \<le> 511" by simp
  from Cons.IH [OF this a(2)]
  have "\<exists>out. pack_args val' (sz + (length a + 1)) len argv =
      Some (out, sz + (length a + 1) + args_size argv)" for val' .
  then obtain out where "pack_args (take (unat (of_nat (length a) :: u8)) a @
       drop (unat (of_nat (length a) :: u8)) val) (sz + (length a + 1)) len argv =
      Some (out, sz + (length a + 1) + args_size argv)" by blast
  with a show ?case
    by (simp add: Let_def NSCTL_MAX_ARG_SZ_def min_def args_size_def)
qed (auto simp: args_size_def)

text \<open>
  An argument of 256 to 511 bytes does not survive, and nobody is told: \<open>pack_control\<close>
  accepts it (\<open>arg.value\<close> and its \<open>silently truncate\<close> comment provide for 511 bytes), but the
  length is stored in one byte, so the packet it returns does not unpack to the arguments given.
\<close>

lemma nsctl_long_argument_lost:
  assumes "a \<in> set argv" and "255 < length a"
    and "\<forall>a \<in> set argv. length a \<le> 511" and "length argv \<le> 255"
    and "int (args_size argv) + 5 \<le> len" and "len \<le> 4096"
  shows "\<exists>data. pack_control junk len ty argv = Some data \<and>
     unpack_control data \<noteq> Inr \<lparr>nc_type = ty, nc_argv = argv\<rparr>"
proof -
  from assms(5) have fits: "4 + args_size argv \<le> nat len" "4 + args_size argv + 1 \<le> nat len"
    by linarith+
  obtain out where "pack_args junk 4 (nat len) argv = Some (out, 4 + args_size argv)"
    using pack_args_accepts [OF assms(3) fits(1)] by blast
  with assms(4-6) fits obtain data where d: "pack_control junk len ty argv = Some data"
    by (auto simp: pack_control_def Let_def NSCTL_MAX_PKT_SZ_def)
  have "unpack_control data \<noteq> Inr \<lparr>nc_type = ty, nc_argv = argv\<rparr>"
  proof
    assume "unpack_control data = Inr \<lparr>nc_type = ty, nc_argv = argv\<rparr>"
    then obtain n p p' where "unpack_args n p = Inr (argv, p')"
      by (auto simp: unpack_control_def split: if_splits sum.splits)
    from unpack_args_short [OF this assms(1)] assms(2) show False by simp
  qed
  with d show ?thesis by blast
qed

lemma nsctl_long_argument_lost_witness:
  "\<exists>data. pack_control [] 4096 0x14 [replicate 300 1] = Some data \<and>
     unpack_control data \<noteq> Inr \<lparr>nc_type = 0x14, nc_argv = [replicate 300 1]\<rparr>"
  using nsctl_long_argument_lost [of "replicate 300 1" "[replicate 300 1]" 4096 "[]" "0x14"]
  by (simp add: args_size_def)

end
