(* ===== verification/BgpUpdate.thy ===== *)
theory BgpUpdate
  imports Bgp
begin

text \<open>
  The \<open>UPDATE\<close> messages of \<^verbatim>\<open>src/bgp.c\<close> as a receiver reads them: the IPv6 variant of the
  computation, the size of both messages, and the decoding of an IPv4 \<open>UPDATE\<close>.
\<close>

subsection \<open>The IPv6 UPDATE\<close>

text \<open>
  \<open>bgp_send_update6\<close> up to its final \<open>bgp_write\<close>. The merge loop is the one of
  \<open>bgp_send_update\<close> with another amount of room: the guard \<open>data < max - sizeof prefix\<close> counts
  the attributes twice, as the source does.
\<close>

definition bgp_room6 :: "nat \<Rightarrow> int" where
  "bgp_room6 plen = (4077 - 2 - int plen - 24 - 17 - 17) - (int plen + 9)"

definition bgp_update_contents6 ::
    "bool \<Rightarrow> bgp_dest list \<Rightarrow> bgp_peer \<Rightarrow> bgp_peer \<times> update_action" where
  "bgp_update_contents6 oom routes p =
     (let plen = bp_attr_len_wo p;
          want = (if bp_routing p then routes else [])
      in case bgp_diff (bgp_room6 plen) [] [] (bp_routes6 p) want None False of
           (wd, kept, have, want', add, upd) \<Rightarrow>
             (let p1 = p\<lparr>bp_routes6 := kept @ have,
                        bp_update_routes6 := (upd \<or> have \<noteq> [] \<or> want' \<noteq> [])\<rparr>;
                  unreach = (if wd = [] then []
                             else take 2 (bp_mp_unreach p) @ be16 (of_nat (length wd + 3)) @
                                  drop 4 (bp_mp_unreach p) @ wd);
                  attrs = take plen (bp_path_attrs p) @ unreach
              in if wd = [] \<and> add = None then (p1, UpdNothing)
                 else (case add of
                     None \<Rightarrow>
                       (p1\<lparr>bp_outbuf := bgp_packet 2 (be16 0 @ be16 (of_nat (length attrs)) @ attrs),
                          bp_out_done := 0\<rparr>, UpdWrite)
                   | Some a \<Rightarrow>
                       if oom then (p1, UpdNoMemory)
                       else (let reach = (bp_mp_reach p)[2 := of_nat (21 + BGP_IP_PREFIX_SIZE a)] @
                                           take (BGP_IP_PREFIX_SIZE a) (dest_mem a)
                             in (p1\<lparr>bp_routes6 := bgp_insert_route (kept @ have) a,
                                   bp_outbuf := bgp_packet 2 (be16 0 @
                                     be16 (of_nat (length attrs + length reach)) @ attrs @ reach),
                                   bp_out_done := 0\<rparr>, UpdWrite)))))"

definition bgp_send_update6 ::
    "bgp_env \<Rightarrow> bool \<Rightarrow> bgp_dest list \<Rightarrow> bgp_peer \<Rightarrow> bgp_peer \<times> bool" where
  "bgp_send_update6 e oom routes p =
     (case bgp_update_contents6 oom routes p of
        (p', UpdNothing) \<Rightarrow> (p', True)
      | (p', UpdNoMemory) \<Rightarrow> (p', False)
      | (p', UpdWrite) \<Rightarrow> bgp_write_first e p')"

lemma bgp_update_effect6:
  assumes "bgp_update_contents6 oom routes p = (p', act)" and "act \<noteq> UpdNoMemory"
    and "route_list (bp_routes6 p)" and "route_list routes"
  defines "W \<equiv> bgp_wanted routes p"
  shows "route_list (bp_routes6 p')"
    and "stale (bp_routes6 p') W \<subseteq> stale (bp_routes6 p) W"
    and "\<not> bp_update_routes6 p' \<Longrightarrow> bp_routes6 p' = W"
    and "bp_attr_len_wo p < 1900 \<Longrightarrow> stale (bp_routes6 p) W \<noteq> {} \<Longrightarrow>
      stale (bp_routes6 p') W \<noteq> stale (bp_routes6 p) W"
proof -
  obtain wd kept hav want' ad upd where
    d: "bgp_diff (bgp_room6 (bp_attr_len_wo p)) [] [] (bp_routes6 p) W
          None False = (wd, kept, hav, want', ad, upd)"
    by (metis prod_cases6)
  have W: "route_list W" using assms(4) by (simp add: W_def bgp_wanted_def)
  have p': "bp_routes6 p' = add_announced ad (kept @ hav)"
      "bp_update_routes6 p' = (upd \<or> hav \<noteq> [] \<or> want' \<noteq> [])"
    using assms(1,2) d
    by (auto simp: bgp_update_contents6_def Let_def W_def bgp_wanted_def add_announced_def
        split: if_splits option.splits)
  note eff = diff_effect [OF d assms(3) W, folded p'(1)]
  show "route_list (bp_routes6 p')" "stale (bp_routes6 p') W \<subseteq> stale (bp_routes6 p) W"
    using eff(1,2) by simp_all
  show "\<not> bp_update_routes6 p' \<Longrightarrow> bp_routes6 p' = W"
    using eff(3) p'(2) by blast
  show "bp_attr_len_wo p < 1900 \<Longrightarrow> stale (bp_routes6 p) W \<noteq> {} \<Longrightarrow>
      stale (bp_routes6 p') W \<noteq> stale (bp_routes6 p) W"
    using eff(4) by (simp add: bgp_room6_def)
qed

subsection \<open>What the merge loop writes\<close>

definition prefix_bytes :: "bgp_dest \<Rightarrow> bytes" where
  "prefix_bytes d = take (BGP_IP_PREFIX_SIZE d) (dest_mem d)"

lemma bgp_diff_skip:
  "int (2 + length wd) < room \<Longrightarrow> hav = [] \<or> w < hd hav \<Longrightarrow>
   bgp_diff room wd kept hav (w # ws) ad upd =
     (case ad of
        None \<Rightarrow> bgp_diff room wd kept hav ws (Some w) upd
      | Some a \<Rightarrow> if hav = [] then (wd, kept, hav, w # ws, ad, True)
                  else bgp_diff room wd kept hav ws ad True)"
  by (subst bgp_diff.simps) (auto dest: order.asym split: option.split)

lemma bgp_diff_withdrawn:
  assumes "bgp_diff room wd kept hav want ad upd = (wd', kept', hav', want', ad', upd')"
    and "route_list (kept @ hav)"
  shows "\<exists>ws. wd' = wd @ concat (map prefix_bytes ws) \<and>
     set (kept' @ hav') = set (kept @ hav) - set ws \<and> set ws \<subseteq> set hav"
  using assms
proof (induction room wd kept hav want ad upd
    arbitrary: wd' kept' hav' want' ad' upd' rule: bgp_diff.induct)
  case (1 room wd kept hav want ad upd)
  note unf = bgp_diff.simps [of room wd kept hav want ad upd]
  show ?case
  proof (cases rule: diff_cases [of hav want "int (2 + length wd) < room"])
    case stop
    with "1.prems" unf show ?thesis by (intro exI [of _ "[]"]) auto
  next
    case (withdraw h hs)
    then have run: "bgp_diff room (wd @ prefix_bytes h) kept hs want ad upd =
        (wd', kept', hav', want', ad', upd')"
      using "1.prems"(1) unf by (simp add: prefix_bytes_def)
    have rl: "route_list (kept @ hs)" and h: "h \<notin> set kept \<union> set hs"
      using "1.prems"(2) withdraw by (auto simp: route_list_append)
    obtain ws where ws: "wd' = (wd @ prefix_bytes h) @ concat (map prefix_bytes ws)"
        "set (kept' @ hav') = set (kept @ hs) - set ws" "set ws \<subseteq> set hs"
      using "1.IH"(1) [folded prefix_bytes_def] run rl withdraw by auto
    with h withdraw(1) show ?thesis by (intro exI [of _ "h # ws"]) auto
  next
    case (same h hs ws)
    then have run: "bgp_diff room wd (kept @ [h]) hs ws ad upd = (wd', kept', hav', want', ad', upd')"
      using "1.prems"(1) unf by simp
    moreover have "route_list ((kept @ [h]) @ hs)" using "1.prems"(2) same by simp
    ultimately obtain vs where "wd' = wd @ concat (map prefix_bytes vs)"
        "set (kept' @ hav') = set ((kept @ [h]) @ hs) - set vs" "set vs \<subseteq> set hs"
      using "1.IH"(2) same by auto
    with same(1) show ?thesis by (intro exI [of _ vs]) auto
  next
    case (skip w ws)
    have run: "bgp_diff room wd kept hav (w # ws) ad upd = (wd', kept', hav', want', ad', upd')"
      using "1.prems"(1) skip by simp
    have br: "\<not> (hav \<noteq> [] \<and> (want = [] \<or> dest_cmp (hd hav) (hd want) < 0))"
        "\<not> (hav \<noteq> [] \<and> dest_cmp (hd hav) (hd want) = 0)"
        "\<not> ((hav = [] \<and> want = []) \<or> \<not> int (2 + length wd) < room)"
      using skip by (auto dest: order.asym)
    note IH = "1.IH"(3) [OF br(3) br(1) br(2)] "1.IH"(4) [OF br(3) br(1) br(2)]
    show ?thesis
      using run IH skip "1.prems"(2)
      by (cases ad) (auto simp: bgp_diff_skip split: if_splits)
  qed
qed

lemma bgp_diff_room:
  assumes "bgp_diff room wd kept hav want ad upd = (wd', kept', hav', want', ad', upd')"
    and "\<forall>h \<in> set hav. length (prefix_bytes h) \<le> n"
  shows "(wd' = wd \<and> ad' = ad) \<or> (int (2 + length wd) < room \<and> int (2 + length wd') < room + int n)"
  using assms
proof (induction room wd kept hav want ad upd
    arbitrary: wd' kept' hav' want' ad' upd' rule: bgp_diff.induct)
  case (1 room wd kept hav want ad upd)
  note unf = bgp_diff.simps [of room wd kept hav want ad upd]
  show ?case
  proof (cases rule: diff_cases [of hav want "int (2 + length wd) < room"])
    case stop
    with "1.prems" unf show ?thesis by auto
  next
    case (withdraw h hs)
    then have run: "bgp_diff room (wd @ prefix_bytes h) kept hs want ad upd =
        (wd', kept', hav', want', ad', upd')"
      using "1.prems"(1) unf by (simp add: prefix_bytes_def)
    have "length (prefix_bytes h) \<le> n" "\<forall>h \<in> set hs. length (prefix_bytes h) \<le> n"
      using "1.prems"(2) withdraw by auto
    then show ?thesis
      using "1.IH"(1) [folded prefix_bytes_def] run withdraw by fastforce
  next
    case (same h hs ws)
    then have run: "bgp_diff room wd (kept @ [h]) hs ws ad upd = (wd', kept', hav', want', ad', upd')"
      using "1.prems"(1) unf by simp
    with same "1.prems"(2) "1.IH"(2) show ?thesis by auto
  next
    case (skip w ws)
    have run: "bgp_diff room wd kept hav (w # ws) ad upd = (wd', kept', hav', want', ad', upd')"
      using "1.prems"(1) skip by simp
    have br: "\<not> (hav \<noteq> [] \<and> (want = [] \<or> dest_cmp (hd hav) (hd want) < 0))"
        "\<not> (hav \<noteq> [] \<and> dest_cmp (hd hav) (hd want) = 0)"
        "\<not> ((hav = [] \<and> want = []) \<or> \<not> int (2 + length wd) < room)"
      using skip by (auto dest: order.asym)
    note IH = "1.IH"(3) [OF br(3) br(1) br(2)] "1.IH"(4) [OF br(3) br(1) br(2)]
    show ?thesis
      using run IH skip "1.prems"(2)
      by (cases ad) (auto simp: bgp_diff_skip split: if_splits)
  qed
qed

lemma length_bgp_packet [simp]: "length (bgp_packet ty data) = 19 + length data"
  by (simp add: bgp_packet_def)

lemma length_prefix_bytes: "length (prefix_bytes d) \<le> 1 + length (dest_prefix d)"
  by (simp add: prefix_bytes_def dest_mem_def)


subsection \<open>The receiver's side\<close>

text \<open>
  A receiver's view of an IPv4 \<open>UPDATE\<close> (RFC 4271): the packet is framed, the withdrawn prefixes
  leave the table, the announced ones enter it. \<open>canonical\<close> routes have no address bytes beyond
  their prefix length.
\<close>

definition prefix_size :: "u8 \<Rightarrow> nat" where
  "prefix_size l = unat l div 8 + (if unat l mod 8 \<noteq> 0 then 1 else 0)"

definition canonical :: "nat \<Rightarrow> bgp_dest \<Rightarrow> bool" where
  "canonical n d \<longleftrightarrow> length (dest_prefix d) = n \<and> prefix_size (dest_len d) \<le> n \<and>
     drop (prefix_size (dest_len d)) (dest_prefix d) =
       replicate (n - prefix_size (dest_len d)) 0"

function parse_prefixes :: "nat \<Rightarrow> bytes \<Rightarrow> bgp_dest list option" where
  "parse_prefixes n [] = Some []"
| "parse_prefixes n (l # r) =
     (let k = prefix_size l in
      if k > n \<or> length r < k then None
      else map_option (Cons (BgpDest l (take k r @ replicate (n - k) 0)))
             (parse_prefixes n (drop k r)))"
  by pat_completeness auto
termination
  by (relation "measure (length \<circ> snd)") (auto simp: less_Suc_eq_le)

declare parse_prefixes.simps(2) [simp del]

lemma BGP_IP_PREFIX_SIZE_eq: "BGP_IP_PREFIX_SIZE d = Suc (prefix_size (dest_len d))"
  by (simp add: BGP_IP_PREFIX_SIZE_def prefix_size_def)

lemma parse_prefix_bytes:
  assumes "canonical n d"
  shows "parse_prefixes n (prefix_bytes d @ r) = map_option (Cons d) (parse_prefixes n r)"
proof (cases d)
  case (BgpDest l p)
  have "take (prefix_size l) p @ drop (prefix_size l) p = p" by simp
  then have "take (prefix_size l) p @ replicate (n - prefix_size l) 0 = p"
    using assms BgpDest by (metis bgp_dest.sel canonical_def)
  with assms BgpDest show ?thesis
    by (simp add: prefix_bytes_def dest_mem_def BGP_IP_PREFIX_SIZE_eq canonical_def Let_def
        parse_prefixes.simps(2))
qed

lemma parse_prefixes_concat:
  "\<forall>d \<in> set ds. canonical n d \<Longrightarrow> parse_prefixes n (concat (map prefix_bytes ds)) = Some ds"
  by (induction ds) (simp_all add: parse_prefix_bytes)

definition decode_update :: "nat \<Rightarrow> bytes \<Rightarrow> (bgp_dest list \<times> bgp_dest list) option" where
  "decode_update n pkt =
     (if length pkt < 23 \<or> take 16 pkt \<noteq> replicate 16 0xff \<or>
         unat (of_be16 (drop 16 pkt)) \<noteq> length pkt \<or> pkt ! 18 \<noteq> 2 then None
      else (let data = drop 19 pkt;
                wl = unat (of_be16 data);
                after = drop (2 + wl) data;
                al = unat (of_be16 after)
            in if length data < 4 + wl \<or> length after < 2 + al then None
               else (case (parse_prefixes n (take wl (drop 2 data)),
                           parse_prefixes n (drop (2 + al) after)) of
                       (Some ws, Some as) \<Rightarrow> Some (ws, as)
                     | _ \<Rightarrow> None)))"

definition rib_apply :: "nat \<Rightarrow> bytes \<Rightarrow> bgp_dest set \<Rightarrow> bgp_dest set option" where
  "rib_apply n pkt rib =
     map_option (\<lambda>(ws, as). (rib - set ws) \<union> set as) (decode_update n pkt)"

lemma of_be16_of_nat [simp]:
  "n < 65536 \<Longrightarrow> unat (of_be16 (be16 (of_nat n) @ r)) = n"
  by (simp add: unat_of_nat)

lemma decode_update_packet:
  assumes "\<forall>d \<in> set ws. canonical n d" "\<forall>d \<in> set as. canonical n d"
    and "19 + 2 + length wd + 2 + length attrs + length (concat (map prefix_bytes as)) < 65536"
    and "wd = concat (map prefix_bytes ws)"
  shows "decode_update n (bgp_packet 2 (be16 (of_nat (length wd)) @ wd @
           be16 (of_nat (length attrs)) @ attrs @ concat (map prefix_bytes as))) = Some (ws, as)"
proof -
  let ?a = "concat (map prefix_bytes as)"
  let ?data = "be16 (of_nat (length wd)) @ wd @ be16 (of_nat (length attrs)) @ attrs @ ?a"
  let ?pkt = "bgp_packet 2 ?data"
  have h: "take 16 ?pkt = replicate 16 0xff" "?pkt ! 18 = 2" "drop 19 ?pkt = ?data"
    by (simp_all add: bgp_packet_def be16_def nth_append numeral_nat)
  have l: "unat (of_be16 (drop 16 ?pkt)) = length ?pkt"
  proof -
    have "drop 16 ?pkt = be16 (of_nat (19 + length ?data)) @ 2 # ?data"
      by (simp add: bgp_packet_def BGP_HEADER_def)
    moreover have "19 + length ?data < 65536" using assms(3) by simp
    ultimately show ?thesis by (metis of_be16_of_nat length_bgp_packet)
  qed
  have w: "unat (of_be16 ?data) = length wd"
    using assms(3) by (subst of_be16_of_nat) simp_all
  have after: "drop (2 + length wd) ?data = be16 (of_nat (length attrs)) @ attrs @ ?a"
    by (simp add: be16_def)
  have al: "unat (of_be16 (be16 (of_nat (length attrs)) @ attrs @ ?a)) = length attrs"
    using assms(3) by (subst of_be16_of_nat) simp_all
  have t: "take (length wd) (drop 2 ?data) = wd"
    by (simp add: be16_def)
  have d: "drop (2 + length attrs) (be16 (of_nat (length attrs)) @ attrs @ ?a) = ?a"
    by (simp add: be16_def)
  have pw: "parse_prefixes n wd = Some ws" and pa: "parse_prefixes n ?a = Some as"
    using assms(1,2,4) by (simp_all add: parse_prefixes_concat)
  show ?thesis
    unfolding decode_update_def Let_def h l w after al t d pw pa
    using assms(3) by (simp add: h)
qed

text \<open>
  C2: an IPv4 \<open>UPDATE\<close> that is sent fits the 4096 bytes of a BGP packet, and a receiver that
  applies it to the routes the speaker believed it to hold ends with exactly the routes the
  speaker now records for it; when nothing is sent the recorded routes have not changed.
\<close>

theorem bgp_update_wire:
  assumes run: "bgp_update_contents oom routes p = (p', act)"
    and mem: "act \<noteq> UpdNoMemory"
    and sorted: "route_list (bp_routes p)" "route_list routes"
    and canon: "\<forall>d \<in> set (bp_routes p) \<union> set routes. canonical 4 d"
  shows "(act = UpdNothing \<longrightarrow> set (bp_routes p') = set (bp_routes p)) \<and>
     (act = UpdWrite \<longrightarrow> length (bp_outbuf p') \<le> BGP_MAX_PACKET_SIZE \<and>
        rib_apply 4 (bp_outbuf p') (set (bp_routes p)) = Some (set (bp_routes p')))"
proof -
  define W where "W = bgp_wanted routes p"
  define plen where "plen = length (bp_path_attrs p)"
  obtain wd kept hav want' ad upd where
    d: "bgp_diff (4077 - 2 - int plen - 5 - 5) [] [] (bp_routes p) W
          None False = (wd, kept, hav, want', ad, upd)"
    by (metis prod_cases6)
  have W: "route_list W" "set W \<subseteq> set routes"
    using sorted(2) by (auto simp: W_def bgp_wanted_def)
  note eff = diff_effect [OF d sorted(1) W(1)]
  from bgp_diff_withdrawn [OF d] sorted(1) obtain ws where ws:
      "wd = concat (map prefix_bytes ws)" "set (kept @ hav) = set (bp_routes p) - set ws"
      "set ws \<subseteq> set (bp_routes p)"
    by auto
  have len5: "length (prefix_bytes x) \<le> 5" if "x \<in> set (bp_routes p) \<union> set routes" for x
    using canon that length_prefix_bytes [of x] by (fastforce simp: canonical_def)
  have room: "(wd = [] \<and> ad = None) \<or>
      (2 < 4065 - int plen \<and> int (2 + length wd) < 4065 - int plen + 5)"
    using bgp_diff_room [OF d, of 5] len5 by auto
  have adW: "set_option ad \<subseteq> set routes"
    using eff(7) W(2) by blast
  have p'r: "bp_routes p' = add_announced ad (kept @ hav)"
    using run mem d by (auto simp: bgp_update_contents_def Let_def W_def bgp_wanted_def
        add_announced_def plen_def split: if_splits option.splits)
  have canw: "\<forall>x \<in> set ws. canonical 4 x" using ws(3) canon by auto
  show ?thesis
  proof (cases act)
    case UpdNothing
    then have "wd = []" "ad = None"
      using run d by (auto simp: bgp_update_contents_def Let_def W_def bgp_wanted_def plen_def
          split: if_splits option.splits)
    then have "ws = []" using ws(1) by (cases ws) (auto simp: prefix_bytes_def dest_mem_def BGP_IP_PREFIX_SIZE_def)
    with \<open>ad = None\<close> UpdNothing p'r ws(2) show ?thesis by simp
  next
    case UpdWrite
    define attrs where "attrs = (if ad = None then [] else bp_path_attrs p)"
    define as where "as = (case ad of None \<Rightarrow> [] | Some a \<Rightarrow> [a])"
    have out: "bp_outbuf p' = bgp_packet 2 (be16 (of_nat (length wd)) @ wd @
           be16 (of_nat (length attrs)) @ attrs @ concat (map prefix_bytes as))"
      and ne: "wd \<noteq> [] \<or> ad \<noteq> None"
      using run d UpdWrite
      by (auto simp: bgp_update_contents_def Let_def W_def bgp_wanted_def plen_def attrs_def
          as_def prefix_bytes_def split: if_splits option.splits)
    have cana: "\<forall>x \<in> set as. canonical 4 x"
      using adW canon by (auto simp: as_def split: option.splits)
    define lp where "lp = length (concat (map prefix_bytes as))"
    have "lp \<le> (if ad = None then 0 else 5)"
      using adW len5 by (auto simp: as_def lp_def split: option.splits)
    with room ne have "19 + 2 + length wd + 2 + length attrs + lp \<le> 4096"
      by (auto simp: attrs_def plen_def split: if_splits)
    then have small: "19 + 2 + length wd + 2 + length attrs +
        length (concat (map prefix_bytes as)) \<le> 4096" unfolding lp_def .
    have dec: "decode_update 4 (bp_outbuf p') = Some (ws, as)"
      unfolding out using decode_update_packet [OF canw cana _ ws(1)] small by simp
    have "set (bp_routes p') = (set (bp_routes p) - set ws) \<union> set as"
      using p'r ws(2) by (auto simp: as_def split: option.splits)
    with dec UpdWrite small out show ?thesis
      by (simp add: rib_apply_def BGP_MAX_PACKET_SIZE_def)
  qed (use mem in simp)
qed


text \<open>A peer to which the theorems are applied: it holds one route that is not wanted any more.\<close>

definition sample_peer :: bgp_peer where
  "sample_peer = \<lparr>bp_name = ''p'', bp_addr = 0, bp_source_addr = 0, bp_as = 1, bp_sock = 3,
     bp_state = Established, bp_next_state = Established, bp_state_time = 0,
     bp_keepalive_time = 60, bp_retry_time = 0, bp_retry_count = 0, bp_init_keepalive = 60,
     bp_init_hold = 180, bp_keepalive = 60, bp_hold = 180, bp_expire_time = 180,
     bp_routing = True, bp_update_routes = True,
     bp_routes = [BgpDest 16 [10, 1, 0, 0]], bp_outbuf = [], bp_out_done = 0, bp_inbuf = [],
     bp_cli_flag = 0, bp_path_attrs = [0x40, 1, 1, 0], bp_events = 1,
     bp_mp_handling = HandlingUnknown, bp_update_routes6 = False, bp_routes6 = [],
     bp_attr_len_wo = 4, bp_mp_reach = replicate 24 0, bp_mp_unreach = replicate 7 0\<rparr>"

definition sample_routes :: "bgp_dest list" where
  "sample_routes = [BgpDest 8 [10, 0, 0, 0], BgpDest 24 [10, 2, 3, 0]]"

lemma sample_sorted:
  "route_list sample_routes" "route_list (bp_routes sample_peer)"
  "\<forall>d \<in> set (bp_routes sample_peer) \<union> set sample_routes. canonical 4 d"
  by (code_simp, code_simp, code_simp)

lemma bgp_update_wire_witness:
  "rib_apply 4 (bp_outbuf (fst (bgp_update_contents False sample_routes sample_peer)))
     {BgpDest 16 [10, 1, 0, 0]} = Some {BgpDest 8 [10, 0, 0, 0]}"
proof -
  let ?r = "bgp_update_contents False sample_routes sample_peer"
  have a: "snd ?r = UpdWrite" by code_simp
  have r: "set (bp_routes (fst ?r)) = {BgpDest 8 [10, 0, 0, 0]}"
      "set (bp_routes sample_peer) = {BgpDest 16 [10, 1, 0, 0]}" by (code_simp, code_simp)
  have e: "?r = (fst ?r, UpdWrite)" using a by (metis prod.collapse)
  from bgp_update_wire [OF e _ sample_sorted(2,1,3)]
  show ?thesis unfolding r by simp
qed

end
