(* ===== verification/BgpProcess.thy ===== *)
theory BgpProcess
  imports BgpUpdate
begin

text \<open>
  The input side and the event loop of \<^verbatim>\<open>src/bgp.c\<close>: \<open>bgp_read\<close>, \<open>bgp_handle_input\<close> with the
  parsing of the \<open>OPEN\<close> options, \<open>bgp_process\<close> and \<open>bgp_set_poll\<close>; then the steps of the whole
  speaker and their invariant.
\<close>

subsection \<open>Reading\<close>

datatype read_result = RBytes bytes | REof | RAgain | RError

text \<open>
  \<open>bgp_read\<close> passes \<open>&peer->inbuf->packet + peer->inbuf->done\<close> to \<open>read\<close>: the addition counts in
  packets of 4096 bytes, so unless the buffer is empty the bytes go beyond the buffer.
\<close>

definition bgp_read :: "int \<Rightarrow> read_result \<Rightarrow> bgp_peer \<Rightarrow> (bgp_peer \<times> bool) outcome" where
  "bgp_read time_now r p =
     (case r of
        RBytes bs \<Rightarrow>
          if length (bp_inbuf p) \<noteq> 0 then Undef
          else Ret (p\<lparr>bp_inbuf := bp_inbuf p @ take (BGP_MAX_PACKET_SIZE - length (bp_inbuf p)) bs\<rparr>, True)
      | REof \<Rightarrow> Ret (bgp_set_retry time_now p, False)
      | RAgain \<Rightarrow> Ret (p, True)
      | RError \<Rightarrow> Ret (bgp_set_retry time_now p, False))"

subsection \<open>Parsing an OPEN\<close>

text \<open>
  The capability loop. \<open>opt\<close> is the \<open>opt_params\<close> array of the local copy of the message, \<open>base\<close>
  the offset of the capabilities in it, \<open>clen\<close> their length and \<open>off\<close> the loop variable. The
  result says whether the list is well formed, and gives \<open>mp_handling\<close> as the loop leaves it.
\<close>

definition byte_at :: "bytes \<Rightarrow> nat \<Rightarrow> nat" where
  "byte_at bs i = (if i < length bs then unat (bs ! i) else 0)"

function bgp_capabilities :: "bytes \<Rightarrow> nat \<Rightarrow> nat \<Rightarrow> nat \<Rightarrow> bgp_mp \<Rightarrow> bool \<times> bgp_mp" where
  "bgp_capabilities opt base clen off mp =
     (if \<not> off < clen then (True, mp)
      else (let code = byte_at opt (base + off); len = byte_at opt (base + off + 1);
                afi = 256 * byte_at opt (base + off + 2) + byte_at opt (base + off + 3);
                safi = byte_at opt (base + off + 5)
            in if clen - off < 2 \<or> int len > int clen - int off - 2 then (False, mp)
               else if code \<noteq> 1 \<and> len \<noteq> 4 then bgp_capabilities opt base clen (off + 2 + len) mp
               else if afi \<noteq> 2 \<and> safi \<noteq> 1 then bgp_capabilities opt base clen (off + 2 + len) mp
               else bgp_capabilities opt base clen (off + 2 + len) HandleIPv6Routes))"
  by pat_completeness auto
termination
  by (relation "measure (\<lambda>(opt, base, clen, off, mp). clen - off)") auto

declare bgp_capabilities.simps [simp del]

text \<open>The optional parameter loop around it; None is the end of a well-formed list.\<close>

datatype open_error = Malformed | Unsupported

function bgp_open_params :: "bytes \<Rightarrow> nat \<Rightarrow> nat \<Rightarrow> bgp_mp \<Rightarrow> open_error option \<times> bgp_mp" where
  "bgp_open_params opt optlen off mp =
     (if \<not> off < optlen then (None, mp)
      else (let ty = byte_at opt off; len = byte_at opt (off + 1) in
            if optlen - off < 2 \<or> int len > int optlen - int off - 2 then (Some Malformed, mp)
            else if ty \<noteq> 2 then (Some Unsupported, mp)
            else (case bgp_capabilities opt (off + 2) len 0 mp of
                    (False, mp') \<Rightarrow> (Some Malformed, mp')
                  | (True, mp') \<Rightarrow> bgp_open_params opt optlen (off + 2 + len) mp')))"
  by pat_completeness auto
termination
  by (relation "measure (\<lambda>(opt, optlen, off, mp). optlen - off)") auto

declare bgp_open_params.simps [simp del]

subsection \<open>Handling one message\<close>

text \<open>
  The body of the \<open>OPEN\<close> case after the copy: \<open>data\<close> is the local \<open>struct bgp_data_open\<close>. True
  says that the case falls out of the \<open>switch\<close>, False that the function has returned.
\<close>

definition bgp_handle_open :: "bgp_env \<Rightarrow> bytes \<Rightarrow> bgp_peer \<Rightarrow> bgp_peer \<times> bool" where
  "bgp_handle_open e data p =
     (let hold = 256 * int (byte_at data 3) + int (byte_at data 4);
          notify = (\<lambda>code sub q. (fst (bgp_send_notification e code sub q), False))
      in if byte_at data 0 \<noteq> 4 then notify 2 1 p
         else if 256 * int (byte_at data 1) + int (byte_at data 2) \<noteq> bp_as p then notify 2 2 p
         else if hold < 3 then notify 2 6 p
         else
           (let p1 = (if hold < bp_hold p then p\<lparr>bp_hold := hold\<rparr> else p);
                p2 = (if bp_keepalive p1 * 3 > bp_hold p1
                      then p1\<lparr>bp_keepalive := bp_hold p1 div 3\<rparr> else p1)
            in case bgp_open_params (drop 10 data) (byte_at data 9) 0 (bp_mp_handling p2) of
                 (Some Malformed, mp) \<Rightarrow> notify 2 0 (p2\<lparr>bp_mp_handling := mp\<rparr>)
               | (Some Unsupported, mp) \<Rightarrow> notify 2 4 (p2\<lparr>bp_mp_handling := mp\<rparr>)
               | (None, mp) \<Rightarrow>
                   (fst (bgp_send_keepalive e (p2\<lparr>bp_mp_handling :=
                      (if mp \<noteq> HandleIPv6Routes then DoesntHandleIPv6Routes else mp)\<rparr>)), True)))"

text \<open>
  \<open>bgp_handle_input\<close>. \<open>junk\<close> is what the stack held where the local copy of an \<open>OPEN\<close> is made. A
  length field below the header's 19 bytes makes the size of that copy wrap around.
\<close>

definition bgp_consume :: "bgp_env \<Rightarrow> nat \<Rightarrow> bgp_peer \<Rightarrow> bgp_peer" where
  "bgp_consume e len p =
     p\<lparr>bp_expire_time := be_time e + bp_hold p,
       bp_inbuf := (if length (bp_inbuf p) > len then drop len (bp_inbuf p) else [])\<rparr>"

definition bgp_handle_input :: "bgp_env \<Rightarrow> bytes \<Rightarrow> bgp_peer \<Rightarrow> bgp_peer outcome" where
  "bgp_handle_input e junk p =
     (let inb = bp_inbuf p; len = unat (of_be16 (drop 16 inb)); ty = byte_at inb 18 in
      if len > BGP_MAX_PACKET_SIZE then Ret (fst (bgp_send_notification e 1 2 p))
      else if length inb < len then Ret p
      else if ty = 1 then
        (if take 16 inb \<noteq> replicate 16 0xff then Ret (fst (bgp_send_notification e 1 1 p))
         else if bp_state p \<noteq> OpenSent then Ret (fst (bgp_send_notification e 5 0 p))
         else if len < BGP_HEADER then Undef
         else (case bgp_handle_open e (take (len - BGP_HEADER) (drop BGP_HEADER inb) @ junk) p of
                 (p', True) \<Rightarrow> Ret (bgp_consume e len p')
               | (p', False) \<Rightarrow> Ret p'))
      else if ty = 4 then
        Ret (bgp_consume e len
          (if bp_state p = OpenConfirm
           then p\<lparr>bp_state := Established, bp_next_state := Established,
                  bp_state_time := be_time e, bp_keepalive_time := be_time e + bp_keepalive p,
                  bp_update_routes := True, bp_retry_count := 0, bp_retry_time := 0\<rparr>
           else p))
      else if ty = 3 \<and> len > BGP_HEADER then
        (let code = byte_at inb 19; sub = byte_at inb 20 in
         if code = 6 then Ret (bgp_set_retry (be_time e) p)
         else if code = 2 \<and> sub = 4 then
           Ret (bgp_set_retry (be_time e) (p\<lparr>bp_mp_handling := DoesntHandleIPv6Routes\<rparr>))
         else if code = 2 \<and> sub = 7 then
           Ret (bgp_consume e len (p\<lparr>bp_mp_handling := DoesntHandleIPv6Routes\<rparr>))
         else Ret (bgp_consume e len p))
      else Ret (bgp_consume e len p))"

text \<open>
  The input loop of \<open>bgp_process\<close>; \<open>es i\<close> is the environment of its i-th round. It may run
  forever, which is the value None.
\<close>

partial_function (option) bgp_input_loop ::
    "(nat \<Rightarrow> bgp_env) \<Rightarrow> bytes \<Rightarrow> nat \<Rightarrow> bgp_peer \<Rightarrow> bgp_peer outcome option" where
  "bgp_input_loop es junk i p =
     (if length (bp_inbuf p) \<ge> BGP_HEADER \<and> bp_outbuf p = []
      then (case bgp_handle_input (es i) junk p of
              Ret p' \<Rightarrow> bgp_input_loop es junk (Suc i) p'
            | Undef \<Rightarrow> Some Undef
            | Exits \<Rightarrow> Some Exits)
      else Some (Ret p))"

declare bgp_input_loop.simps [code]

subsection \<open>The event loop\<close>

text \<open>
  One peer's turn in \<open>bgp_process\<close>. \<open>outp\<close> and \<open>inp\<close> are the poll events, \<open>so_err\<close> the socket's
  pending error, \<open>rd\<close> what \<open>read\<close> returns, \<open>e\<close> the environments of the operations in order.
\<close>

record bgp_turn =
  bt_out :: bool
  bt_in :: bool
  bt_so_err :: bool
  bt_read :: read_result
  bt_env :: "nat \<Rightarrow> bgp_env"
  bt_oom :: bool
  bt_junk :: bytes

definition bgp_cli_action :: "bgp_peer \<Rightarrow> bgp_peer" where
  "bgp_cli_action p =
     (let set_routing = (\<lambda>r. if bp_routing p \<noteq> r then flag_established (p\<lparr>bp_routing := r\<rparr>) else p)
      in if bp_cli_flag p = 0 then p
         else (if bp_cli_flag p = 1 then set_routing False
               else if bp_cli_flag p = 2 then set_routing True else p)\<lparr>bp_cli_flag := 0\<rparr>)"

definition bgp_process_output :: "bgp_turn \<Rightarrow> bgp_peer \<Rightarrow> (bgp_peer \<times> bool) outcome" where
  "bgp_process_output t p =
     (if \<not> bt_out t then Ret (p, True)
      else if bp_state p = Connect then Ret (bgp_handle_connect (bt_env t 0) (bt_so_err t) p)
      else if bp_outbuf p \<noteq> [] then bgp_write (bt_env t 0) p
      else Ret (p, True))"

definition bgp_process_updates ::
    "bgp_turn \<Rightarrow> bgp_dest list \<Rightarrow> bgp_dest list \<Rightarrow> bgp_peer \<Rightarrow> bgp_peer" where
  "bgp_process_updates t routes routes6 p =
     (case (if bp_update_routes p \<and> bp_outbuf p = []
            then bgp_send_update (bt_env t 1) (bt_oom t) routes p else (p, True)) of
        (p1, False) \<Rightarrow> p1
      | (p1, True) \<Rightarrow>
          (case (if bp_update_routes6 p1 \<and> bp_outbuf p1 = []
                 then bgp_send_update6 (bt_env t 2) (bt_oom t) routes6 p1 else (p1, True)) of
             (p2, False) \<Rightarrow> p2
           | (p2, True) \<Rightarrow> bgp_process_timers (bt_env t 3) p2))"

definition bgp_process_peer ::
    "bgp_turn \<Rightarrow> bgp_dest list \<Rightarrow> bgp_dest list \<Rightarrow> bgp_peer \<Rightarrow> bgp_peer outcome option" where
  "bgp_process_peer t routes routes6 p =
     (if bp_name p \<noteq> [] \<and> bp_cli_flag p = 3 then Some (Ret (fst (bgp_restart (bt_env t 0) p)))
      else if bp_state p = Disabled then Some (Ret p)
      else (case bgp_process_output t (bgp_cli_action p) of
              Undef \<Rightarrow> Some Undef
            | Exits \<Rightarrow> Some Exits
            | Ret (p1, False) \<Rightarrow> Some (Ret p1)
            | Ret (p1, True) \<Rightarrow>
                (case (if bt_in t then bgp_read (be_time (bt_env t 0)) (bt_read t) p1
                       else Ret (p1, True)) of
                   Undef \<Rightarrow> Some Undef
                 | Exits \<Rightarrow> Some Exits
                 | Ret (p2, False) \<Rightarrow> Some (Ret p2)
                 | Ret (p2, True) \<Rightarrow>
                     (case bgp_input_loop (\<lambda>i. bt_env t (i + 4)) (bt_junk t) 0 p2 of
                        Some (Ret p3) \<Rightarrow> Some (Ret (bgp_process_updates t routes routes6 p3))
                      | r \<Rightarrow> r))))"

text \<open>All peers in turn; \<open>ts\<close> gives each its inputs.\<close>

fun bgp_process_peers :: "bgp_turn list \<Rightarrow> bgp_dest list \<Rightarrow> bgp_dest list \<Rightarrow> bgp_peer list \<Rightarrow>
    bgp_peer list outcome option" where
  "bgp_process_peers (t # ts) routes routes6 (p # ps) =
     (case bgp_process_peer t routes routes6 p of
        None \<Rightarrow> None
      | Some Undef \<Rightarrow> Some Undef
      | Some Exits \<Rightarrow> Some Exits
      | Some (Ret p') \<Rightarrow>
          map_option (\<lambda>r. obind r (\<lambda>ps'. Ret (p' # ps')))
            (bgp_process_peers ts routes routes6 ps))"
| "bgp_process_peers _ _ _ ps = Some (Ret ps)"

definition bgp_process :: "bgp_turn list \<Rightarrow> bgp_state \<Rightarrow> bgp_state outcome option" where
  "bgp_process ts b =
     (if \<not> bg_configured b then Some (Ret b)
      else map_option (\<lambda>r. obind r (\<lambda>ps. Ret (b\<lparr>bg_peers := ps\<rparr>)))
             (bgp_process_peers ts (bg_routes b) (bg_routes6 b) (bg_peers b)))"

text \<open>\<open>bgp_set_poll\<close>: the events each open socket is polled for.\<close>

definition EPOLLIN :: int where "EPOLLIN = 1"

definition bgp_poll_peer :: "bgp_peer \<Rightarrow> bgp_peer" where
  "bgp_poll_peer p =
     (if bp_state p = Disabled \<or> bp_state p = Idle then p
      else p\<lparr>bp_events :=
        (if length (bp_inbuf p) < BGP_MAX_PACKET_SIZE then EPOLLIN else 0) +
        (if bp_state p = Connect \<or> bp_update_routes p \<or> bp_outbuf p \<noteq> [] then EPOLLOUT else 0)\<rparr>)"

definition bgp_set_poll :: "bgp_state \<Rightarrow> bgp_state" where
  "bgp_set_poll b = (if bg_configured b then b\<lparr>bg_peers := map bgp_poll_peer (bg_peers b)\<rparr> else b)"

end
