(* ===== verification/BgpInv.thy ===== *)
theory BgpInv
  imports BgpProcess
begin

text \<open>
  Correctness of the BGP speaker: when its input loop returns, convergence of the incremental
  updates, and the invariant of its steps - for an established peer with no update pending the IPv4
  routes recorded as announced are exactly those to announce.
\<close>

subsection \<open>The input loop\<close>

lemma inbuf_write: "bp_inbuf q = b \<Longrightarrow> bp_inbuf (fst (bgp_write_first e q)) = b \<or> bp_inbuf (fst (bgp_write_first e q)) = []"
  by (auto simp: bgp_write_first_def Let_def bgp_clear_def bgp_set_retry_def bgp_halt_def
      split: write_result.split)

lemma inbuf_notification [simp]: "bp_inbuf (fst (bgp_send_notification e c s p)) = []"
  using inbuf_write [of _ "[]"] by (auto simp: bgp_send_notification_def)

lemma inbuf_keepalive:
  "bp_inbuf q = b \<Longrightarrow>
     bp_inbuf (fst (bgp_send_keepalive e q)) = b \<or> bp_inbuf (fst (bgp_send_keepalive e q)) = []"
  unfolding bgp_send_keepalive_def by (rule inbuf_write) simp

lemma inbuf_retry [simp]: "bp_inbuf (bgp_set_retry t p) = []"
  by (simp add: bgp_set_retry_def bgp_halt_def bgp_clear_def Let_def)

lemma inbuf_open:
  assumes "bgp_handle_open e data p = (p', fall)"
  shows "bp_inbuf p' = bp_inbuf p \<or> bp_inbuf p' = []"
proof -
  have "p' = fst (bgp_handle_open e data p)" using assms by simp
  then show ?thesis
    by (auto simp: bgp_handle_open_def Let_def intro!: inbuf_keepalive
        split: open_error.split option.split prod.split)
qed

text \<open>One message leaves the buffer empty, drops the message, or finds it incomplete.\<close>

definition frame_len :: "bytes \<Rightarrow> nat" where
  "frame_len b = unat (of_be16 (drop 16 b))"

lemma inbuf_consume:
  "bp_inbuf q = b \<or> bp_inbuf q = [] \<Longrightarrow>
     bp_inbuf (bgp_consume e len q) = drop len b \<or> bp_inbuf (bgp_consume e len q) = []"
  by (auto simp: bgp_consume_def)

definition leaves :: "bytes \<Rightarrow> nat \<Rightarrow> bgp_peer outcome \<Rightarrow> bool" where
  "leaves b len r \<longleftrightarrow> (\<exists>p'. r = Ret p' \<and> (bp_inbuf p' = drop len b \<or> bp_inbuf p' = []))"

lemma leaves_Ret [simp]:
  "leaves b len (Ret q) \<longleftrightarrow> bp_inbuf q = drop len b \<or> bp_inbuf q = []"
  by (simp add: leaves_def)

lemma leaves_consume:
  "bp_inbuf q = b \<or> bp_inbuf q = [] \<Longrightarrow> leaves b len (Ret (bgp_consume e len q))"
  by (auto simp: bgp_consume_def)

lemma handle_open_fails:
  "\<not> snd (bgp_handle_open e d p) \<Longrightarrow> bp_inbuf (fst (bgp_handle_open e d p)) = []"
  by (auto simp: bgp_handle_open_def Let_def split: open_error.split option.split prod.split if_splits)

lemma leaves_open:
  assumes "bp_inbuf p = b"
  shows "leaves b len (case bgp_handle_open e d p of
     (p', True) \<Rightarrow> Ret (bgp_consume e len p') | (p', False) \<Rightarrow> Ret p')"
proof (cases "bgp_handle_open e d p")
  case (Pair p' f)
  show ?thesis
  proof (cases f)
    case True
    with Pair inbuf_open [OF Pair] assms leaves_consume [of p'] show ?thesis by auto
  next
    case False
    with Pair handle_open_fails [of e d p] show ?thesis by simp
  qed
qed

lemma leaves_if:
  "leaves b len (if c then x else y) \<longleftrightarrow> (c \<longrightarrow> leaves b len x) \<and> (\<not> c \<longrightarrow> leaves b len y)"
  by simp

lemma handle_input_returns:
  assumes "BGP_HEADER \<le> frame_len (bp_inbuf p)"
    and "frame_len (bp_inbuf p) \<le> length (bp_inbuf p) \<or> BGP_MAX_PACKET_SIZE < frame_len (bp_inbuf p)"
  shows "leaves (bp_inbuf p) (frame_len (bp_inbuf p)) (bgp_handle_input e junk p)"
proof -
  have "\<not> frame_len (bp_inbuf p) < BGP_HEADER" using assms(1) by simp
  moreover have "\<not> length (bp_inbuf p) < frame_len (bp_inbuf p)"
    if "\<not> BGP_MAX_PACKET_SIZE < frame_len (bp_inbuf p)"
    using assms(2) that by simp
  ultimately show ?thesis
    unfolding bgp_handle_input_def Let_def frame_len_def [symmetric] leaves_if
    by (intro conjI impI) (simp_all only: leaves_open leaves_consume leaves_Ret
      inbuf_notification inbuf_retry bgp_peer.simps if_True if_False simp_thms split: if_split,
        auto simp: bgp_consume_def)
qed


text \<open>
  A buffer of complete messages, up to a tail shorter than a header: every header announces at
  least its own 19 bytes, and the message is there (or its length is refused).
\<close>

function frames_ok :: "bytes \<Rightarrow> bool" where
  "frames_ok b =
     (if length b < BGP_HEADER then True
      else if frame_len b < BGP_HEADER then False
      else if BGP_MAX_PACKET_SIZE < frame_len b then True
      else if length b < frame_len b then False
      else frames_ok (drop (frame_len b) b))"
  by pat_completeness auto
termination
  by (relation "measure length") (auto simp: BGP_HEADER_def)

declare frames_ok.simps [simp del]

lemma handle_input_too_long:
  "BGP_MAX_PACKET_SIZE < frame_len (bp_inbuf p) \<Longrightarrow>
     bgp_handle_input e junk p = Ret (fst (bgp_send_notification e 1 2 p))"
  by (simp add: bgp_handle_input_def Let_def frame_len_def)

lemma handle_input_step:
  assumes "frames_ok (bp_inbuf p)" and "BGP_HEADER \<le> length (bp_inbuf p)"
  shows "\<exists>q. bgp_handle_input e junk p = Ret q \<and> frames_ok (bp_inbuf q) \<and>
     length (bp_inbuf q) < length (bp_inbuf p)"
proof -
  let ?b = "bp_inbuf p"
  have nil: "frames_ok []" by (simp add: frames_ok.simps [of "[]"] BGP_HEADER_def)
  have h: "0 < BGP_HEADER" by (simp add: BGP_HEADER_def)
  have len: "BGP_HEADER \<le> frame_len ?b"
    and alt: "BGP_MAX_PACKET_SIZE < frame_len ?b \<or>
      frame_len ?b \<le> length ?b \<and> frames_ok (drop (frame_len ?b) ?b)"
    using assms by (auto simp: frames_ok.simps [of ?b] split: if_splits)
  show ?thesis
  proof (cases "BGP_MAX_PACKET_SIZE < frame_len ?b")
    case True
    with handle_input_too_long [OF this] nil h assms(2) show ?thesis by auto
  next
    case False
    with alt have "frame_len ?b \<le> length ?b" "frames_ok (drop (frame_len ?b) ?b)" by auto
    with handle_input_returns [OF len] nil h len assms(2) show ?thesis
      by (fastforce simp: leaves_def)
  qed
qed

text \<open>
  On a buffer of complete messages the input loop of \<open>bgp_process\<close> terminates, without
  undefined behaviour, whatever the messages are and whatever the writes return.
\<close>

lemma bgp_input_loop_returns:
  assumes "frames_ok (bp_inbuf p)"
  shows "\<exists>q. bgp_input_loop es junk i p = Some (Ret q)"
  using assms
proof (induction "length (bp_inbuf p)" arbitrary: p i rule: less_induct)
  case less
  show ?case
  proof (cases "BGP_HEADER \<le> length (bp_inbuf p) \<and> bp_outbuf p = []")
    case True
    with handle_input_step less.prems obtain q where
      "bgp_handle_input (es i) junk p = Ret q" "frames_ok (bp_inbuf q)"
      "length (bp_inbuf q) < length (bp_inbuf p)" by blast
    with less.hyps [of q "Suc i"] True show ?thesis
      by (simp add: bgp_input_loop.simps)
  next
    case False
    then show ?thesis by (subst bgp_input_loop.simps) auto
  qed
qed

lemma bgp_input_loop_returns_witness:
  "\<forall>es. \<exists>q. bgp_input_loop es [] 0
     (sample_peer\<lparr>bp_inbuf := bgp_packet 4 [] @ bgp_packet 4 [] @ [255]\<rparr>) = Some (Ret q)"
proof (intro allI bgp_input_loop_returns)
  show "frames_ok (bp_inbuf (sample_peer\<lparr>bp_inbuf := bgp_packet 4 [] @ bgp_packet 4 [] @ [255]\<rparr>))"
    by code_simp
qed

text \<open>
  A message that has not arrived in full, or whose header gives the length 0, leaves the buffer as
  it is, and the loop does not read.
\<close>

definition input_stuck :: "bgp_peer \<Rightarrow> bool" where
  "input_stuck p \<longleftrightarrow> BGP_HEADER \<le> length (bp_inbuf p) \<and> bp_outbuf p = [] \<and>
     frame_len (bp_inbuf p) \<le> BGP_MAX_PACKET_SIZE \<and>
     (length (bp_inbuf p) < frame_len (bp_inbuf p) \<or>
      (frame_len (bp_inbuf p) = 0 \<and> byte_at (bp_inbuf p) 18 \<noteq> 1))"

lemma consume_none:
  "bp_inbuf q \<noteq> [] \<Longrightarrow> bp_inbuf (bgp_consume e 0 q) = bp_inbuf q"
  "bp_outbuf (bgp_consume e 0 q) = bp_outbuf q"
  by (simp_all add: bgp_consume_def)

lemma input_stuck_step:
  assumes "input_stuck p"
  shows "\<exists>q. bgp_handle_input e junk p = Ret q \<and> input_stuck q"
proof (cases "length (bp_inbuf p) < frame_len (bp_inbuf p)")
  case True
  with assms show ?thesis
    by (intro exI [of _ p]) (simp add: input_stuck_def bgp_handle_input_def Let_def frame_len_def)
next
  case False
  with assms have z: "frame_len (bp_inbuf p) = 0" and ty: "byte_at (bp_inbuf p) 18 \<noteq> 1"
    by (auto simp: input_stuck_def)
  have ne: "bp_inbuf p \<noteq> []" using assms by (auto simp: input_stuck_def BGP_HEADER_def)
  have "\<exists>p'. bgp_handle_input e junk p = Ret (bgp_consume e 0 p') \<and>
      bp_inbuf p' = bp_inbuf p \<and> bp_outbuf p' = bp_outbuf p"
    unfolding bgp_handle_input_def Let_def frame_len_def [symmetric] z
    using ty by (simp add: BGP_HEADER_def)
      (intro conjI impI; rule exI, intro conjI, rule refl, simp_all)
  then obtain p' where p': "bgp_handle_input e junk p = Ret (bgp_consume e 0 p')"
      "bp_inbuf p' = bp_inbuf p" "bp_outbuf p' = bp_outbuf p" by blast
  then have "input_stuck (bgp_consume e 0 p')"
    using assms ne by (simp add: input_stuck_def consume_none)
  with p'(1) show ?thesis by blast
qed

lemma input_loop_diverges:
  "bgp_input_loop es junk i p = Some r \<Longrightarrow> \<not> input_stuck p"
proof (erule bgp_input_loop.raw_induct [rotated])
  fix loop es junk i p r
  assume IH: "\<And>es junk i p r. loop es junk i p = Some r \<Longrightarrow> \<not> input_stuck p"
    and run: "(if BGP_HEADER \<le> length (bp_inbuf p) \<and> bp_outbuf p = []
      then (case bgp_handle_input (es i) junk p of
              Ret p' \<Rightarrow> loop es junk (Suc i) p' | Undef \<Rightarrow> Some Undef | Exits \<Rightarrow> Some Exits)
      else Some (Ret p)) = Some r"
  show "\<not> input_stuck p"
  proof
    assume st: "input_stuck p"
    with input_stuck_step [OF st] obtain q where
      "bgp_handle_input (es i) junk p = Ret q" "input_stuck q" by blast
    with run st IH [of es junk "Suc i" q r] show False by (simp add: input_stuck_def)
  qed
qed

text \<open>
  C4: an incomplete message (19 to 4095 bytes of a longer one, as TCP may deliver it) makes the
  loop run forever: \<open>bgp_process\<close> never returns.
\<close>

theorem bgp_partial_message_hangs:
  assumes "BGP_HEADER \<le> length (bp_inbuf p)" and "bp_outbuf p = []"
    and "length (bp_inbuf p) < frame_len (bp_inbuf p)"
    and "frame_len (bp_inbuf p) \<le> BGP_MAX_PACKET_SIZE"
  shows "bgp_input_loop es junk i p = None"
  using input_loop_diverges assms by (metis input_stuck_def not_Some_eq)


lemma bgp_partial_message_hangs_witness:
  "\<forall>es. bgp_input_loop es [] 0
     (sample_peer\<lparr>bp_inbuf := replicate 16 255 @ [0, 29, 1]\<rparr>) = None"
proof (intro allI bgp_partial_message_hangs)
  let ?p = "sample_peer\<lparr>bp_inbuf := replicate 16 255 @ [0, 29, 1]\<rparr>"
  show "BGP_HEADER \<le> length (bp_inbuf ?p)" "bp_outbuf ?p = []"
      "length (bp_inbuf ?p) < frame_len (bp_inbuf ?p)"
      "frame_len (bp_inbuf ?p) \<le> BGP_MAX_PACKET_SIZE"
    by (code_simp, code_simp, code_simp, code_simp)
qed

subsection \<open>Convergence\<close>

lemma bgp_diff_same:
  "2 < room \<Longrightarrow> bgp_diff room [] kept W W None False = ([], kept @ W, [], [], None, False)"
  by (induction W arbitrary: kept) (simp_all add: bgp_diff.simps)

lemma update_contents_synced:
  "bp_routes p = bgp_wanted routes p \<Longrightarrow> length (bp_path_attrs p) < 4000 \<Longrightarrow>
     bgp_update_contents oom routes p =
       (p\<lparr>bp_routes := bgp_wanted routes p, bp_update_routes := False\<rparr>, UpdNothing)"
  by (simp add: bgp_update_contents_def Let_def bgp_diff_same bgp_wanted_def)

lemma update_contents_memory: "snd (bgp_update_contents False routes p) \<noteq> UpdNoMemory"
  by (simp add: bgp_update_contents_def Let_def split: prod.split option.split)

definition update_round :: "bgp_dest list \<Rightarrow> bgp_peer \<Rightarrow> bgp_peer" where
  "update_round routes p = fst (bgp_update_contents False routes p)"

lemma update_round_effect:
  assumes "route_list (bp_routes p)" and "route_list routes"
    and "length (bp_path_attrs p) < 4000"
  shows "route_list (bp_routes (update_round routes p))"
    and "bgp_wanted routes (update_round routes p) = bgp_wanted routes p"
    and "bp_path_attrs (update_round routes p) = bp_path_attrs p"
    and "bp_routes p \<noteq> bgp_wanted routes p \<Longrightarrow>
      card (stale (bp_routes (update_round routes p)) (bgp_wanted routes p)) <
      card (stale (bp_routes p) (bgp_wanted routes p))"
proof -
  obtain q act where r: "bgp_update_contents False routes p = (q, act)" by (cases "bgp_update_contents False routes p")
  have q: "update_round routes p = q" using r by (simp add: update_round_def)
  have "act \<noteq> UpdNoMemory" using update_contents_memory [of routes p] r by simp
  note eff = bgp_update_effect [OF r this assms(1,2)]
  show "route_list (bp_routes (update_round routes p))"
    using eff(1) q by simp
  show "bgp_wanted routes (update_round routes p) = bgp_wanted routes p"
      "bp_path_attrs (update_round routes p) = bp_path_attrs p"
    using bgp_update_frame [OF r] q by (simp_all add: bgp_wanted_def)
  assume ne: "bp_routes p \<noteq> bgp_wanted routes p"
  have "route_list (bgp_wanted routes p)" using assms(2) by (simp add: bgp_wanted_def)
  then have "stale (bp_routes p) (bgp_wanted routes p) \<noteq> {}"
    using ne assms(1) stale_empty_iff by blast
  then have "stale (bp_routes q) (bgp_wanted routes p) \<subset> stale (bp_routes p) (bgp_wanted routes p)"
    using eff(2) eff(4) assms(3) by blast
  then show "card (stale (bp_routes (update_round routes p)) (bgp_wanted routes p)) <
      card (stale (bp_routes p) (bgp_wanted routes p))"
    unfolding q by (intro psubset_card_mono) (simp_all add: stale_def)
qed

text \<open>
  C3: with memory available, at most as many \<open>UPDATE\<close> computations as the peer has wrong routes,
  and one more, end with the peer's list equal to the wanted one and nothing left to update: the
  pending flag cannot stay set for ever.
\<close>

theorem bgp_update_converges:
  assumes "route_list (bp_routes p)" and "route_list routes"
    and "length (bp_path_attrs p) < 4000"
  shows "\<exists>n \<le> card (stale (bp_routes p) (bgp_wanted routes p)) + 1.
     bp_routes ((update_round routes ^^ n) p) = bgp_wanted routes p \<and>
     \<not> bp_update_routes ((update_round routes ^^ n) p)"
  using assms
proof (induction "card (stale (bp_routes p) (bgp_wanted routes p))" arbitrary: p rule: less_induct)
  case less
  let ?q = "update_round routes p"
  show ?case
  proof (cases "bp_routes p = bgp_wanted routes p")
    case True
    with update_contents_synced [OF True less.prems(3)] show ?thesis
      by (intro exI [of _ 1]) (simp add: update_round_def)
  next
    case False
    note eff = update_round_effect [OF less.prems]
    from less.hyps [of ?q] eff(4) [OF False] eff(1-3) less.prems obtain n where
      n: "n \<le> card (stale (bp_routes ?q) (bgp_wanted routes p)) + 1"
        "bp_routes ((update_round routes ^^ n) ?q) = bgp_wanted routes p"
        "\<not> bp_update_routes ((update_round routes ^^ n) ?q)" by auto
    with eff(4) [OF False] show ?thesis
      by (intro exI [of _ "Suc n"]) (simp add: funpow_swap1)
  qed
qed

lemma bgp_update_converges_witness:
  "\<exists>n \<le> card (stale (bp_routes sample_peer) (bgp_wanted sample_routes sample_peer)) + 1.
     bp_routes ((update_round sample_routes ^^ n) sample_peer) = bgp_wanted sample_routes sample_peer \<and>
     \<not> bp_update_routes ((update_round sample_routes ^^ n) sample_peer)"
  by (rule bgp_update_converges) (simp_all add: sample_sorted, simp add: sample_peer_def)

subsection \<open>A packet sent in two parts\<close>

text \<open>When \<open>write\<close> takes only a part of a packet, sending the rest reads beyond the buffer.\<close>

lemma bgp_partial_write_undefined:
  assumes "be_write e = WBytes r" and "0 < r" and "r < length (bp_outbuf p)" and "bp_out_done p = 0"
  shows "\<exists>q. bgp_write e p = Ret (q, True) \<and> bp_outbuf q = bp_outbuf p \<and> bgp_write e' q = Undef"
  using assms by (simp add: bgp_write_def bgp_write_first_def)

subsection \<open>The invariant of the speaker\<close>

text \<open>
  What holds of a peer between the operations, for the route list \<open>routes\<close>: its lists are sorted,
  it is not on its way into \<open>Established\<close> by a pending write, and if it is established with no
  update pending the IPv4 routes recorded as announced to it are exactly the wanted ones.
\<close>

definition peer_fsm :: "bgp_peer \<Rightarrow> bool" where
  "peer_fsm p \<longleftrightarrow> (bp_next_state p = Established \<longrightarrow> bp_state p = Established)"

definition peer_synced :: "bgp_dest list \<Rightarrow> bgp_peer \<Rightarrow> bool" where
  "peer_synced routes p \<longleftrightarrow>
     (bp_state p = Established \<and> \<not> bp_update_routes p \<longrightarrow> bp_routes p = bgp_wanted routes p)"

definition peer_ok :: "bgp_dest list \<Rightarrow> bgp_peer \<Rightarrow> bool" where
  "peer_ok routes p \<longleftrightarrow> route_list (bp_routes p) \<and> route_list (bp_routes6 p) \<and>
     peer_fsm p \<and> peer_synced routes p"

lemmas peer_ok_defs = peer_ok_def peer_fsm_def peer_synced_def bgp_wanted_def

named_theorems peer_ok_intros \<open>operations that keep a peer as it should be\<close>

lemma peer_ok_clear: "bp_next_state p \<noteq> Established \<Longrightarrow> peer_ok routes (bgp_clear t p)"
  by (auto simp: bgp_clear_def Let_def peer_ok_defs)

lemma peer_ok_halt [peer_ok_intros]: "peer_ok routes (bgp_halt t p)"
  by (simp add: bgp_halt_def peer_ok_clear)

lemma peer_ok_retry [peer_ok_intros]: "peer_ok routes (bgp_set_retry t p)"
  by (simp add: bgp_set_retry_def Let_def peer_ok_clear peer_ok_halt)

lemma peer_ok_write [peer_ok_intros]: "peer_ok routes p \<Longrightarrow> peer_ok routes (fst (bgp_write_first e p))"
  by (auto simp: bgp_write_first_def Let_def peer_ok_retry peer_ok_clear split: write_result.split)
    (auto simp: peer_ok_defs)

lemma peer_ok_open [peer_ok_intros]:
  "peer_ok routes p \<Longrightarrow> peer_ok routes (fst (bgp_send_open e p))"
  unfolding bgp_send_open_def Let_def by (rule peer_ok_write) (simp add: peer_ok_defs)

lemma peer_ok_keepalive [peer_ok_intros]:
  "peer_ok routes p \<Longrightarrow> peer_ok routes (fst (bgp_send_keepalive e p))"
  unfolding bgp_send_keepalive_def by (rule peer_ok_write) (simp add: peer_ok_defs)

lemma peer_ok_notification [peer_ok_intros]:
  "peer_ok routes p \<Longrightarrow> peer_ok routes (fst (bgp_send_notification e c s p))"
  unfolding bgp_send_notification_def by (rule peer_ok_write) (simp add: peer_ok_defs)

lemma peer_ok_connect [peer_ok_intros]:
  "peer_ok routes p \<Longrightarrow> bp_state p \<noteq> Established \<Longrightarrow> peer_ok routes (fst (bgp_connect e p))"
  unfolding bgp_connect_def
  by (auto split: connect_result.split intro!: peer_ok_open peer_ok_retry) (auto simp: peer_ok_defs)

lemma clear_state: "bp_state (bgp_clear t p) = bp_next_state p"
  by (simp add: bgp_clear_def Let_def)

lemma peer_ok_restart [peer_ok_intros]: "peer_ok routes (fst (bgp_restart e p))"
proof -
  have "peer_ok routes (bgp_clear (be_time e) (p\<lparr>bp_next_state := Idle\<rparr>))"
    by (rule peer_ok_clear) simp
  then show ?thesis
    unfolding bgp_restart_def
    by (intro peer_ok_connect) (simp_all add: peer_ok_defs clear_state)
qed

lemma peer_ok_handle_connect [peer_ok_intros]:
  "peer_ok routes p \<Longrightarrow> bp_state p = Connect \<Longrightarrow> peer_ok routes (fst (bgp_handle_connect e err p))"
  unfolding bgp_handle_connect_def
  by (auto intro!: peer_ok_open peer_ok_retry) (auto simp: peer_ok_defs)

lemma peer_ok_timers [peer_ok_intros]:
  "peer_ok routes p \<Longrightarrow> peer_ok routes (bgp_process_timers e p)"
  by (simp add: bgp_process_timers_def peer_ok_intros)

lemma peer_ok_handle_open:
  "peer_ok routes p \<Longrightarrow> peer_ok routes (fst (bgp_handle_open e d p))"
  unfolding bgp_handle_open_def Let_def
  by (auto split: prod.split option.split open_error.split
      intro!: peer_ok_notification peer_ok_keepalive) (auto simp: peer_ok_defs)

lemma peer_ok_consume: "peer_ok routes p \<Longrightarrow> peer_ok routes (bgp_consume e len p)"
  by (simp add: bgp_consume_def peer_ok_defs)

text \<open>An outcome that, if the function returns, is a peer as it should be.\<close>

definition outcome_ok :: "bgp_dest list \<Rightarrow> bgp_peer outcome \<Rightarrow> bool" where
  "outcome_ok routes r \<longleftrightarrow> (\<forall>q. r = Ret q \<longrightarrow> peer_ok routes q)"

lemma outcome_ok_simps [simp]:
  "outcome_ok routes (Ret q) \<longleftrightarrow> peer_ok routes q" "outcome_ok routes Undef" "outcome_ok routes Exits"
  "outcome_ok routes (if c then x else y) \<longleftrightarrow> (c \<longrightarrow> outcome_ok routes x) \<and> (\<not> c \<longrightarrow> outcome_ok routes y)"
  by (simp_all add: outcome_ok_def)

lemma peer_ok_handle_input:
  assumes "peer_ok routes p"
  shows "outcome_ok routes (bgp_handle_input e junk p)"
proof -
  have "open": "outcome_ok routes (case bgp_handle_open e d p of
      (p', True) \<Rightarrow> Ret (bgp_consume e l p') | (p', False) \<Rightarrow> Ret p')" for d l
    using peer_ok_handle_open [OF assms, of e d]
    by (auto split: prod.split bool.split simp: peer_ok_consume)
  have k: "peer_ok routes (bgp_consume e l (if bp_state p = OpenConfirm
           then p\<lparr>bp_state := Established, bp_next_state := Established,
                  bp_state_time := be_time e, bp_keepalive_time := be_time e + bp_keepalive p,
                  bp_update_routes := True, bp_retry_count := 0, bp_retry_time := 0\<rparr>
           else p))" for l
    using assms by (intro peer_ok_consume) (auto simp: peer_ok_defs)
  have m: "peer_ok routes (p\<lparr>bp_mp_handling := h\<rparr>)" for h
    using assms by (simp add: peer_ok_defs)
  show ?thesis
    unfolding bgp_handle_input_def Let_def outcome_ok_simps
    by (intro conjI impI "open" k peer_ok_consume peer_ok_retry peer_ok_notification assms m
        outcome_ok_simps)
qed

lemma peer_ok_input_loop:
  "bgp_input_loop es junk i p = Some r \<Longrightarrow> peer_ok routes p \<longrightarrow> outcome_ok routes r"
proof (erule bgp_input_loop.raw_induct [rotated])
  fix loop es junk i p r
  assume IH: "\<And>es junk i p r. loop es junk i p = Some r \<Longrightarrow>
      peer_ok routes p \<longrightarrow> outcome_ok routes r"
    and run: "(if BGP_HEADER \<le> length (bp_inbuf p) \<and> bp_outbuf p = []
      then (case bgp_handle_input (es i) junk p of
              Ret p' \<Rightarrow> loop es junk (Suc i) p' | Undef \<Rightarrow> Some Undef | Exits \<Rightarrow> Some Exits)
      else Some (Ret p)) = Some r"
  show "peer_ok routes p \<longrightarrow> outcome_ok routes r"
    using run IH peer_ok_handle_input [of routes p "es i" junk]
    by (auto split: if_splits outcome.splits)
qed

lemma peer_ok_read: "peer_ok routes p \<Longrightarrow> bgp_read t rd p = Ret (q, b) \<Longrightarrow> peer_ok routes q"
  by (auto simp: bgp_read_def peer_ok_retry split: read_result.splits if_splits)
    (auto simp: peer_ok_defs)

lemma peer_ok_cli: "peer_ok routes p \<Longrightarrow> peer_ok routes (bgp_cli_action p)"
  by (auto simp: bgp_cli_action_def Let_def flag_established_def peer_ok_defs)

lemma peer_ok_process_output:
  assumes "peer_ok routes p" and "bgp_process_output t p = Ret (q, b)"
  shows "peer_ok routes q"
proof -
  have "q = p \<or> bp_state p = Connect \<and> q = fst (bgp_handle_connect (bt_env t 0) (bt_so_err t) p) \<or> q = fst (bgp_write_first (bt_env t 0) p)"
    using assms(2) by (auto simp: bgp_process_output_def bgp_write_def split: if_splits dest: arg_cong [where f = fst])
  then show ?thesis using assms(1) peer_ok_handle_connect peer_ok_write by metis
qed

lemma peer_ok_send_update:
  assumes "peer_ok routes p" and "route_list routes" and "\<not> oom"
  shows "peer_ok routes (fst (bgp_send_update e oom routes p))"
proof -
  obtain q act where r: "bgp_update_contents False routes p = (q, act)" by (cases "bgp_update_contents False routes p")
  have mem: "act \<noteq> UpdNoMemory" using update_contents_memory [of routes p] r by simp
  have "route_list (bp_routes p)" using assms(1) by (simp add: peer_ok_def)
  note eff = bgp_update_effect [OF r mem this assms(2)]
  have "bp_routes6 q = bp_routes6 p"
    using r by (auto simp: bgp_update_contents_def Let_def split: prod.splits if_splits option.splits)
  then have "peer_ok routes q"
    using eff(1,3) bgp_update_frame [OF r] assms(1) by (auto simp: peer_ok_defs)
  with r mem assms(3) show ?thesis
    by (cases act) (simp_all add: bgp_send_update_def peer_ok_write)
qed

lemma peer_ok_send_update6:
  assumes "peer_ok routes p" and "route_list routes6" and "\<not> oom"
  shows "peer_ok routes (fst (bgp_send_update6 e oom routes6 p))"
proof -
  obtain q act where r: "bgp_update_contents6 oom routes6 p = (q, act)" by (cases "bgp_update_contents6 oom routes6 p")
  have mem: "act \<noteq> UpdNoMemory"
    using r assms(3) by (auto simp: bgp_update_contents6_def Let_def split: prod.splits option.splits if_splits)
  have "route_list (bp_routes6 p)" using assms(1) by (simp add: peer_ok_def)
  note eff = bgp_update_effect6 [OF r mem this assms(2)]
  have "bp_routes q = bp_routes p \<and> bp_state q = bp_state p \<and> bp_next_state q = bp_next_state p \<and>
      bp_update_routes q = bp_update_routes p \<and> bp_routing q = bp_routing p"
    using r by (auto simp: bgp_update_contents6_def Let_def split: prod.splits if_splits option.splits)
  then have "peer_ok routes q"
    using eff(1) assms(1) by (auto simp: peer_ok_defs)
  with r mem show ?thesis
    by (cases act) (simp_all add: bgp_send_update6_def peer_ok_write)
qed

lemma peer_ok_process_updates:
  assumes "peer_ok routes p" "route_list routes" "route_list routes6" "\<not> bt_oom t"
  shows "peer_ok routes (bgp_process_updates t routes routes6 p)"
proof -
  define r where "r = (if bp_update_routes p \<and> bp_outbuf p = []
            then bgp_send_update (bt_env t 1) (bt_oom t) routes p else (p, True))"
  have 1: "peer_ok routes (fst r)"
    using assms by (simp add: r_def peer_ok_send_update)
  define r6 where "r6 = (if bp_update_routes6 (fst r) \<and> bp_outbuf (fst r) = []
            then bgp_send_update6 (bt_env t 2) (bt_oom t) routes6 (fst r) else (fst r, True))"
  have 2: "peer_ok routes (fst r6)"
    using 1 assms by (simp add: r6_def peer_ok_send_update6)
  have "bgp_process_updates t routes routes6 p =
      (if snd r then (if snd r6 then bgp_process_timers (bt_env t 3) (fst r6) else fst r6) else fst r)"
    by (simp add: bgp_process_updates_def r_def r6_def split: prod.split bool.split)
  then show ?thesis using 1 2 peer_ok_timers by simp
qed

lemma peer_ok_process_read:
  assumes ok: "peer_ok routes p2" "route_list routes" "route_list routes6" "\<not> bt_oom t"
    and run: "(case bgp_input_loop es junk 0 p2 of
        Some (Ret p3) \<Rightarrow> Some (Ret (bgp_process_updates t routes routes6 p3))
      | r \<Rightarrow> r) = Some (Ret q)"
  shows "peer_ok routes q"
proof -
  from run obtain p3 where p3: "bgp_input_loop es junk 0 p2 = Some (Ret p3)"
      "q = bgp_process_updates t routes routes6 p3"
    by (auto split: option.splits outcome.splits)
  have "peer_ok routes p3"
    using peer_ok_input_loop [OF p3(1), of routes] ok(1) by simp
  with ok p3(2) show ?thesis by (simp add: peer_ok_process_updates)
qed

lemma peer_ok_process_peer:
  assumes ok: "peer_ok routes p" "route_list routes" "route_list routes6" "\<not> bt_oom t"
    and run: "bgp_process_peer t routes routes6 p = Some (Ret q)"
  shows "peer_ok routes q"
proof (cases "(bp_name p \<noteq> [] \<and> bp_cli_flag p = 3) \<or> bp_state p = Disabled")
  case True
  with run ok(1) peer_ok_restart show ?thesis by (auto simp: bgp_process_peer_def split: if_splits)
next
  case False
  then have early: "(bp_name p \<noteq> [] \<and> bp_cli_flag p = 3) = False" "(bp_state p = Disabled) = False"
    by auto
  obtain p1 b1 where o1: "bgp_process_output t (bgp_cli_action p) = Ret (p1, b1)"
    using run unfolding bgp_process_peer_def early by (auto split: outcome.splits)
  have 1: "peer_ok routes p1"
    using peer_ok_process_output [OF peer_ok_cli [OF ok(1)] o1] .
  show ?thesis
  proof (cases b1)
    case True
    define rd where "rd = (if bt_in t then bgp_read (be_time (bt_env t 0)) (bt_read t) p1
      else Ret (p1, True))"
    have 2: "peer_ok routes p2" if "rd = Ret (p2, b)" for p2 b
      using that 1 peer_ok_read by (auto simp: rd_def split: if_splits)
    have eq: "(case rd of Undef \<Rightarrow> Some Undef | Exits \<Rightarrow> Some Exits
        | Ret (p2, False) \<Rightarrow> Some (Ret p2)
        | Ret (p2, True) \<Rightarrow>
            (case bgp_input_loop (\<lambda>i. bt_env t (i + 4)) (bt_junk t) 0 p2 of
               Some (Ret p3) \<Rightarrow> Some (Ret (bgp_process_updates t routes routes6 p3))
             | r \<Rightarrow> r)) = Some (Ret q)"
      using run True
      by (simp only: bgp_process_peer_def early o1 rd_def if_False outcome.case prod.case bool.case)
    show ?thesis
    proof (cases rd)
      case (Ret a)
      obtain p2 b where a: "a = (p2, b)" by (cases a)
      with Ret 2 have "peer_ok routes p2" by simp
      then show ?thesis
        using eq Ret a ok peer_ok_process_read [of routes p2] by (cases b) auto
    qed (use eq in auto)
  next
    case False
    with run 1 show ?thesis by (simp add: bgp_process_peer_def early o1)
  qed
qed

lemma peer_ok_process_peers:
  "bgp_process_peers ts routes routes6 ps = Some (Ret qs) \<Longrightarrow> \<forall>p \<in> set ps. peer_ok routes p \<Longrightarrow>
     \<forall>t \<in> set ts. \<not> bt_oom t \<Longrightarrow> route_list routes \<Longrightarrow> route_list routes6 \<Longrightarrow>
     \<forall>q \<in> set qs. peer_ok routes q"
proof (induction ts routes routes6 ps arbitrary: qs rule: bgp_process_peers.induct)
  case (1 t ts routes routes6 p ps)
  then obtain p' qs' where
    "bgp_process_peer t routes routes6 p = Some (Ret p')" "qs = p' # qs'"
    "bgp_process_peers ts routes routes6 ps = Some (Ret qs')"
    by (auto split: option.splits outcome.splits simp: obind_Ret_iff)
  with 1 peer_ok_process_peer show ?case by auto
qed auto

text \<open>
  The steps of the speaker: every operation of the module that changes its state. A step of the event
  loop is one that returns (no undefined behaviour, such as writing the rest of a packet, and no
  endless input loop) and in which the allocations of the two update functions succeed.
\<close>

inductive bgp_step :: "bgp_state \<Rightarrow> bgp_state \<Rightarrow> bool" where
  add_route: "bgp_step b (fst (bgp_add_route oom ip n b))"
| del_route: "bgp_step b (fst (bgp_del_route ip n b))"
| add_route6: "bgp_step b (fst (bgp_add_route6 oom ip6 n b))"
| del_route6: "bgp_step b (fst (bgp_del_route6 ip6 n b))"
| routing: "bgp_step b (bgp_enable_routing enable b)"
| timers: "bgp_step b (bgp_process_peers_timers e b)"
| events: "bgp_process ts b = Some (Ret b') \<Longrightarrow> \<forall>t \<in> set ts. \<not> bt_oom t \<Longrightarrow> bgp_step b b'"
| poll: "bgp_step b (bgp_set_poll b)"
| stop: "i < length (bg_peers b) \<Longrightarrow>
    bgp_step b (b\<lparr>bg_peers := (bg_peers b)[i := bgp_stop e (bg_peers b ! i)]\<rparr>)"
| halt: "i < length (bg_peers b) \<Longrightarrow>
    bgp_step b (b\<lparr>bg_peers := (bg_peers b)[i := bgp_halt t (bg_peers b ! i)]\<rparr>)"
| restart: "i < length (bg_peers b) \<Longrightarrow>
    bgp_step b (b\<lparr>bg_peers := (bg_peers b)[i := fst (bgp_restart e (bg_peers b ! i))]\<rparr>)"

definition bgp_inv :: "bgp_state \<Rightarrow> bool" where
  "bgp_inv b \<longleftrightarrow> route_list (bg_routes b) \<and> route_list (bg_routes6 b) \<and>
     (\<forall>p \<in> set (bg_peers b). peer_ok (bg_routes b) p)"

lemma peer_ok_flag:
  assumes "peer_ok routes p"
  shows "peer_ok routes' (flag_established p)" "peer_ok routes (flag_established6 p)"
  using assms by (auto simp: flag_established_def flag_established6_def peer_ok_defs)

lemma peer_ok_enable: "peer_ok routes p \<Longrightarrow> peer_ok routes (flag_established (p\<lparr>bp_routing := r\<rparr>))"
  by (auto simp: flag_established_def peer_ok_defs)

lemma bgp_inv_update: "bgp_inv b \<Longrightarrow> peer_ok (bg_routes b) q \<Longrightarrow>
    bgp_inv (b\<lparr>bg_peers := (bg_peers b)[i := q]\<rparr>)"
  by (auto simp: bgp_inv_def dest!: set_update_subset_insert [THEN subsetD])

lemma bgp_inv_map: "bgp_inv b \<Longrightarrow> (\<And>p. peer_ok (bg_routes b) p \<Longrightarrow> peer_ok (bg_routes b) (f p)) \<Longrightarrow>
    bgp_inv (b\<lparr>bg_peers := map f (bg_peers b)\<rparr>)"
  by (auto simp: bgp_inv_def)

lemma peer_ok_poll: "peer_ok routes p \<Longrightarrow> peer_ok routes (bgp_poll_peer p)"
  by (simp add: bgp_poll_peer_def peer_ok_defs)

lemma bgp_inv_step:
  assumes "bgp_step b b'" and "bgp_inv b"
  shows "bgp_inv b'"
  using assms
proof cases
  case (add_route oom ip n)
  with assms(2) show ?thesis
    by (auto simp: bgp_add_route_def Let_def bgp_inv_def peer_ok_flag covered_iff
        intro!: route_list_insert)
next
  case (add_route6 oom ip n)
  with assms(2) show ?thesis
    by (auto simp: bgp_add_route6_def Let_def bgp_inv_def peer_ok_flag covered_iff
        intro!: route_list_insert)
next
  case (del_route ip n)
  with assms(2) show ?thesis
    by (auto simp: bgp_del_route_def bgp_inv_def peer_ok_flag
        dest!: unlink_route_correct [rotated] split: prod.split)
next
  case (del_route6 ip n)
  with assms(2) show ?thesis
    by (auto simp: bgp_del_route6_def bgp_inv_def peer_ok_flag
        dest!: unlink_route_correct [rotated] split: prod.split)
next
  case (events ts)
  with assms(2) show ?thesis
    by (auto simp: bgp_process_def bgp_inv_def obind_Ret_iff split: if_splits
        dest!: peer_ok_process_peers)
next
  case (stop i e)
  with assms(2) have "peer_ok (bg_routes b) (bgp_stop e (bg_peers b ! i))"
    by (simp add: bgp_stop_def bgp_inv_def peer_ok_notification)
  with stop assms(2) show ?thesis by (simp add: bgp_inv_update)
next
  case restart
  with assms(2) show ?thesis by (simp add: bgp_inv_update peer_ok_restart)
next
  case halt
  with assms(2) show ?thesis by (simp add: bgp_inv_update peer_ok_halt)
qed (use assms(2) in \<open>simp_all add: bgp_enable_routing_def bgp_process_peers_timers_def
      bgp_set_poll_def bgp_inv_map peer_ok_enable peer_ok_timers peer_ok_poll\<close>)



definition sample_bgp :: bgp_state where
  "sample_bgp = \<lparr>bg_our_as = 1, bg_routes = sample_routes, bg_routes6 = [], bg_configured = True,
     bg_peers = [sample_peer\<lparr>bp_update_routes := False, bp_routes := sample_routes\<rparr>]\<rparr>"


end
