(* ===== verification/ControlLink.thy ===== *)
theory ControlLink
  imports Control
begin

text \<open>
  Two ends of a control connection, each running the operations of the theory \<open>Control\<close>, over a
  network that loses, duplicates and reorders packets. What a handler receives is shown to be a
  prefix of what the peer queued. An end keeps, beside its tunnel, the payloads it queued
  (\<open>e_sent\<close>), those it handed to its message handler (\<open>e_got\<close>) and every packet it ever sent.
  A packet is tagged with the numbers its 16-bit sequence fields stand for.
\<close>

record packet =
  p_buf :: bytes
  p_i :: nat
  p_r :: nat

record endpoint =
  e_id :: tunnelidt
  e_tn :: tunnelt
  e_sent :: "bytes list"
  e_got :: "bytes list"
  e_out :: "packet list"

definition endpoint_init :: "tunnelidt \<Rightarrow> tunnelt \<Rightarrow> endpoint" where
  "endpoint_init t tn =
     \<lparr>e_id = t, e_tn = tn\<lparr>t_ns := 0, t_nr := 0, t_controlc := 0, t_controls := []\<rparr>, e_sent = [],
      e_got = [], e_out = []\<rparr>"

definition is_udp :: "datagram \<Rightarrow> bool" where
  "is_udp d = (case d of UdpTx _ _ _ _ \<Rightarrow> True | PppoeTx _ _ \<Rightarrow> False)"

definition tag :: "endpoint \<Rightarrow> datagram \<Rightarrow> packet" where
  "tag e d = \<lparr>p_buf = d_buf d,
     p_i = length (e_sent e) - unat (t_ns (e_tn e) - of_be16 (drop 8 (d_buf d))),
     p_r = length (e_got e)\<rparr>"

definition emit :: "datagram list \<Rightarrow> endpoint \<Rightarrow> endpoint" where
  "emit ds e = e\<lparr>e_out := e_out e @ map (tag e) (filter is_udp ds)\<rparr>"

definition ep_add :: "clocks \<Rightarrow> bytes \<Rightarrow> u16 \<Rightarrow> endpoint \<Rightarrow> endpoint" where
  "ep_add clk c far e =
     (let (tn, ds) = controladd clk c far (e_id e) (e_tn e)
      in emit ds (e\<lparr>e_sent := e_sent e @ [drop 12 c], e_tn := tn\<rparr>))"

definition ep_resend :: "clocks \<Rightarrow> endpoint \<Rightarrow> endpoint option" where
  "ep_resend clk e =
     (case resend_controls clk (e_id e) (e_tn e) of None \<Rightarrow> None
      | Some (tn, ds) \<Rightarrow> Some (emit ds (e\<lparr>e_tn := tn\<rparr>)))"

definition buffer_of :: "bytes \<Rightarrow> (nat \<Rightarrow> u8) \<Rightarrow> nat \<Rightarrow> u8" where
  "buffer_of bs stale = (\<lambda>i. if i < length bs then bs ! i else stale i)"

definition ep_receive :: "clocks \<Rightarrow> (nat \<Rightarrow> u8) \<Rightarrow> bytes \<Rightarrow> endpoint \<Rightarrow> endpoint" where
  "ep_receive clk stale bs e =
     (let buf = buffer_of bs stale in
      case parse_header buf (length bs) of
        None \<Rightarrow> e
      | Some h \<Rightarrow>
          (case check_sequence clk (h_left h) (h_ns h) (h_nr h) (e_id e) (e_tn e) of
             (tn, ds, deliver) \<Rightarrow>
               emit ds (e\<lparr>e_got := (if deliver
                                     then e_got e @ [map buf [h_pos h..<h_pos h + h_left h]]
                                     else e_got e),
                         e_tn := tn\<rparr>)))"

definition is_control :: "bytes \<Rightarrow> bool" where
  "is_control c \<longleftrightarrow> take 2 c = [0xC8, 0x02] \<and> 12 < length c \<and> length c < 65536"

definition acked :: "endpoint \<Rightarrow> nat" where
  "acked e = length (e_sent e) - length (t_controls (e_tn e))"

text \<open>
  The steps. A packet is delivered only while it is younger than half the sequence space, measured
  by the counters at the receiver (the network's maximum packet lifetime), and at most 32767
  messages are queued at a time.
\<close>

definition fresh :: "endpoint \<Rightarrow> packet \<Rightarrow> bool" where
  "fresh e p \<longleftrightarrow> length (e_got e) < p_i p + 32768 \<and> acked e < p_r p + 32768"

definition same_seq :: "tunnelt \<Rightarrow> tunnelt \<Rightarrow> bool" where
  "same_seq tn tn' \<longleftrightarrow> t_ns tn' = t_ns tn \<and> t_nr tn' = t_nr tn \<and> t_controls tn' = t_controls tn \<and>
     t_controlc tn' = t_controlc tn"

inductive ep_step :: "endpoint \<Rightarrow> endpoint \<Rightarrow> endpoint \<Rightarrow> bool" for peer where
  Add: "is_control c \<Longrightarrow> length (t_controls (e_tn e)) < 32767 \<Longrightarrow> ep_step peer e (ep_add clk c far e)"
| Resend: "ep_resend clk e = Some e' \<Longrightarrow> ep_step peer e e'"
| Receive: "p \<in> set (e_out peer) \<Longrightarrow> fresh e p \<Longrightarrow> ep_step peer e (ep_receive clk stale (p_buf p) e)"
| Other: "same_seq (e_tn e) tn \<Longrightarrow> ep_step peer e (e\<lparr>e_tn := tn\<rparr>)"

inductive link_step :: "endpoint \<times> endpoint \<Rightarrow> endpoint \<times> endpoint \<Rightarrow> bool" where
  StepA: "ep_step b a a' \<Longrightarrow> link_step (a, b) (a', b)"
| StepB: "ep_step a b b' \<Longrightarrow> link_step (a, b) (a, b')"

inductive link_reach :: "endpoint \<times> endpoint \<Rightarrow> bool" where
  Init: "link_reach (endpoint_init t tn, endpoint_init t' tn')"
| Step: "link_reach l \<Longrightarrow> link_step l l' \<Longrightarrow> link_reach l'"

subsection \<open>Messages as bytes\<close>

definition msg :: "u16 \<Rightarrow> u16 \<Rightarrow> u16 \<Rightarrow> u16 \<Rightarrow> bytes \<Rightarrow> bytes" where
  "msg tfar far ns nr pl =
     [0xC8, 0x02] @ be16 (of_nat (12 + length pl)) @ be16 tfar @ be16 far @ be16 ns @ be16 nr @ pl"

lemma length_msg [simp]: "length (msg tfar far ns nr pl) = 12 + length pl"
  by (simp add: msg_def)

lemma msg_eq:
  "msg tfar far ns nr pl = 0xC8 # 0x02 #
     ucast (drop_bit 8 (of_nat (12 + length pl) :: u16)) # ucast (of_nat (12 + length pl) :: u16) #
     ucast (drop_bit 8 tfar) # ucast tfar # ucast (drop_bit 8 far) # ucast far #
     ucast (drop_bit 8 ns) # ucast ns # ucast (drop_bit 8 nr) # ucast nr # pl"
  by (simp add: msg_def be16_def)

lemma be16_list: "be16 x = [hd (be16 x), hd (tl (be16 x))]"
  by (simp add: be16_def)

lemma is_control_cases:
  assumes "is_control c"
  obtains h where "c = [0xC8, 0x02] @ h @ drop 12 c" and "length h = 10"
proof -
  have "drop 12 c = drop 10 (drop 2 c)" by simp
  then have "c = take 2 c @ take 10 (drop 2 c) @ drop 12 c" by (simp only: append_take_drop_id)
  moreover have "length (take 10 (drop 2 c)) = 10" using assms by (auto simp: is_control_def min_def)
  moreover have "take 2 c = [0xC8, 0x02]" using assms by (simp add: is_control_def)
  ultimately show ?thesis using that by metis
qed

lemma stamp_msg:
  assumes "is_control c"
  shows "\<exists>nr. stamp c tfar far ns = msg tfar far ns nr (drop 12 c)"
proof -
  obtain h where c: "c = [0xC8, 0x02] @ h @ drop 12 c" and h: "length h = 10"
    using is_control_cases [OF assms] by blast
  from h obtain a0 a1 a2 a3 a4 a5 a6 a7 a8 a9 where h: "h = [a0, a1, a2, a3, a4, a5, a6, a7, a8, a9]"
    by (auto simp: length_Suc_conv numeral_eq_Suc)
  have len: "length c = 12 + length (drop 12 c)" using assms by (simp add: is_control_def)
  let ?nr = "push_bit 8 (ucast a8) OR ucast a9 :: u16"
  have out: "\<not> bit x (8 + n)" for x :: u8 and n using bit_imp_le_length [of x "8 + n"] by auto
  have nr: "ucast (drop_bit 8 ?nr) = a8" "ucast ?nr = a9"
    by (auto simp: bit_simps out intro!: bit_word_eqI)
  have "stamp c tfar far ns = msg tfar far ns ?nr (drop 12 c)"
    unfolding stamp_def len unfolding msg_eq nr
    by (subst c) (simp add: h put16_def be16_def)
  then show ?thesis ..
qed

lemma expected_seq_msg [simp]: "expected_seq nr (msg tfar far ns nr' pl) = msg tfar far ns nr pl"
  by (simp add: expected_seq_def msg_eq put16_def be16_def bit_simps)

lemma rd16_msg:
  assumes "bs = msg tfar far ns nr pl" and "12 + length pl < 65536"
  shows "unat (rd16 (buffer_of bs st) 2) = 12 + length pl" and "rd16 (buffer_of bs st) 4 = tfar"
    and "rd16 (buffer_of bs st) 6 = far" and "rd16 (buffer_of bs st) 8 = ns"
    and "rd16 (buffer_of bs st) 10 = nr"
proof -
  have j: "push_bit 8 (ucast (ucast (drop_bit 8 x) :: u8)) OR ucast (ucast x :: u8) = x" for x :: u16
    by (auto simp: bit_simps intro!: bit_word_eqI)
  show "unat (rd16 (buffer_of bs st) 2) = 12 + length pl"
    using assms by (simp add: rd16_def buffer_of_def msg_eq j unat_of_nat del: of_nat_add)
  show "rd16 (buffer_of bs st) 4 = tfar" "rd16 (buffer_of bs st) 6 = far"
    "rd16 (buffer_of bs st) 8 = ns" "rd16 (buffer_of bs st) 10 = nr"
    by (simp_all add: assms(1) rd16_def buffer_of_def msg_eq j)
qed

lemma map_buffer_of:
  "length xs = n \<Longrightarrow> map (buffer_of (xs @ ys) st) [n..<n + length ys] = ys"
  by (rule nth_equalityI) (simp_all add: buffer_of_def nth_append)

lemma parse_msg:
  assumes "bs = msg tfar far ns nr pl" and "12 + length pl < 65536"
    and "parse_header (buffer_of bs st) (length bs) = Some h"
  shows "h_ns h = ns \<and> h_nr h = nr \<and> h_left h = length pl \<and>
    map (buffer_of bs st) [h_pos h..<h_pos h + h_left h] = pl"
proof -
  have b: "buffer_of bs st 0 = 0xC8" "buffer_of bs st (Suc 0) = 0x02"
    by (simp_all add: assms(1) buffer_of_def msg_eq)
  have f: "bit (0xC8 :: u8) 6" "bit (0xC8 :: u8) 3" "\<not> bit (0xC8 :: u8) (Suc 0)" by simp_all
  have len: "length bs = 12 + length pl" by (simp add: assms(1))
  note r = rd16_msg [OF assms(1,2), of st]
  have h: "h_ns h = ns" "h_nr h = nr" "h_left h = length pl" "h_pos h = 12"
    using assms(3) r by (auto simp: parse_header_def Let_def b f len split: if_splits)
  have "map (buffer_of bs st) [12..<12 + length pl] = pl"
    unfolding assms(1) msg_def append_assoc [symmetric] by (rule map_buffer_of) simp
  with h show ?thesis by simp
qed


subsection \<open>The invariant\<close>

definition payload_ok :: "bytes \<Rightarrow> bool" where
  "payload_ok pl \<longleftrightarrow> pl \<noteq> [] \<and> 12 + length pl < 65536"

definition queued :: "bytes \<Rightarrow> nat \<Rightarrow> bytes \<Rightarrow> bool" where
  "queued m i pl \<longleftrightarrow> (\<exists>tfar far nr. m = msg tfar far (of_nat i) nr pl)"

text \<open>The queue holds the messages from the oldest unacknowledged one on.\<close>

definition queue_ok :: "bytes list \<Rightarrow> bytes list \<Rightarrow> bool" where
  "queue_ok sent q \<longleftrightarrow> length q \<le> 32767 \<and> length q \<le> length sent \<and> (\<forall>pl \<in> set sent. payload_ok pl) \<and>
     (\<forall>k < length q. queued (q ! k) (length sent - length q + k) (sent ! (length sent - length q + k)))"

definition own_ok :: "endpoint \<Rightarrow> bool" where
  "own_ok e \<longleftrightarrow>
     t_ns (e_tn e) = of_nat (length (e_sent e)) \<and> t_nr (e_tn e) = of_nat (length (e_got e)) \<and>
     t_controlc (e_tn e) = of_nat (length (t_controls (e_tn e))) \<and>
     queue_ok (e_sent e) (t_controls (e_tn e))"

definition packet_ok :: "endpoint \<Rightarrow> packet \<Rightarrow> bool" where
  "packet_ok e p \<longleftrightarrow> p_r p \<le> length (e_got e) \<and>
     (\<exists>tfar far pl. p_buf p = msg tfar far (of_nat (p_i p)) (of_nat (p_r p)) pl \<and>
        (pl = [] \<and> p_i p \<le> length (e_sent e) \<or> p_i p < length (e_sent e) \<and> pl = e_sent e ! p_i p))"

definition out_ok :: "endpoint \<Rightarrow> bool" where
  "out_ok e \<longleftrightarrow> (\<forall>p \<in> set (e_out e). packet_ok e p)"

definition delivery_ok :: "endpoint \<Rightarrow> endpoint \<Rightarrow> bool" where
  "delivery_ok e peer \<longleftrightarrow> acked e \<le> length (e_got peer) \<and> length (e_got peer) \<le> length (e_sent e) \<and>
     e_got peer = take (length (e_got peer)) (e_sent e)"

definition link_ok :: "endpoint \<Rightarrow> endpoint \<Rightarrow> bool" where
  "link_ok a b \<longleftrightarrow> own_ok a \<and> own_ok b \<and> out_ok a \<and> out_ok b \<and> delivery_ok a b \<and> delivery_ok b a"

lemma link_ok_sym: "link_ok a b \<Longrightarrow> link_ok b a"
  by (auto simp: link_ok_def)

text \<open>A datagram an end may send: one of its queued messages, or an acknowledgement.\<close>

definition sendable :: "endpoint \<Rightarrow> datagram \<Rightarrow> bool" where
  "sendable e d \<longleftrightarrow> is_udp d \<longrightarrow>
     (\<exists>tfar far i pl. d_buf d = msg tfar far (of_nat i) (t_nr (e_tn e)) pl \<and> acked e \<le> i \<and>
        (pl = [] \<and> i = length (e_sent e) \<or> i < length (e_sent e) \<and> pl = e_sent e ! i))"

lemma of_nat_diff_unat:
  assumes "i \<le> n" and "n - i < 65536"
  shows "unat (of_nat n - of_nat i :: u16) = n - i"
proof -
  from assms(1) have "(of_nat n - of_nat i :: u16) = of_nat (n - i)" by simp
  with assms(2) show ?thesis by (simp add: unat_of_nat del: of_nat_diff)
qed

lemma of_be16_ns: "of_be16 (drop 8 (msg tfar far ns nr pl)) = ns"
proof -
  have "drop 8 (msg tfar far ns nr pl) = be16 ns @ be16 nr @ pl" by (simp add: msg_eq be16_def)
  then show ?thesis by simp
qed

lemma emit_simps [simp]:
  "e_id (emit ds e) = e_id e" "e_tn (emit ds e) = e_tn e" "e_sent (emit ds e) = e_sent e"
  "e_got (emit ds e) = e_got e" "acked (emit ds e) = acked e"
  by (simp_all add: emit_def acked_def)

lemma own_ok_emit [simp]: "own_ok (emit ds e) = own_ok e"
  by (simp add: own_ok_def)

lemma delivery_ok_emit [simp]:
  "delivery_ok (emit ds e) b = delivery_ok e b" "delivery_ok b (emit ds e) = delivery_ok b e"
  by (simp_all add: delivery_ok_def)

lemma packet_ok_emit [simp]: "packet_ok (emit ds e) = packet_ok e"
  by (simp add: packet_ok_def fun_eq_iff)

lemma packet_ok_tag:
  assumes "own_ok e" and "sendable e d" and "is_udp d"
  shows "packet_ok e (tag e d)"
proof -
  from assms(2,3) obtain tfar far i pl where d: "d_buf d = msg tfar far (of_nat i) (t_nr (e_tn e)) pl"
      and i: "acked e \<le> i" "pl = [] \<and> i = length (e_sent e) \<or> i < length (e_sent e) \<and> pl = e_sent e ! i"
    unfolding sendable_def by blast
  from i have le: "i \<le> length (e_sent e)" by auto
  have "length (e_sent e) - i < 65536"
    using i(1) assms(1) unfolding acked_def own_ok_def queue_ok_def by linarith
  then have "p_i (tag e d) = i"
    using le assms(1) by (simp add: tag_def d of_be16_ns own_ok_def of_nat_diff_unat del: of_nat_diff)
  moreover have "p_buf (tag e d) = d_buf d" "p_r (tag e d) = length (e_got e)" by (simp_all add: tag_def)
  ultimately show ?thesis
    using d i assms(1) le unfolding packet_ok_def own_ok_def by auto
qed

lemma out_ok_emit:
  assumes "own_ok e" and "out_ok e" and "\<forall>d \<in> set ds. sendable e d"
  shows "out_ok (emit ds e)"
  using assms packet_ok_tag unfolding out_ok_def packet_ok_emit by (auto simp: emit_def)


subsection \<open>The operations keep it\<close>

lemma tunnelsend_effect:
  assumes "tunnelsend clk m t tn = (tn', ds)"
  shows "same_seq tn tn' \<and> (\<forall>d \<in> set ds. is_udp d \<longrightarrow> d_buf d = expected_seq (t_nr tn) m)"
  using assms unfolding tunnelsend_def same_seq_def by (auto simp: is_udp_def split: if_splits)

lemma same_seq_trans: "same_seq a b \<Longrightarrow> same_seq b c \<Longrightarrow> same_seq a c"
  by (simp add: same_seq_def)

lemma same_seq_try [simp]: "same_seq tn (tn\<lparr>t_try := x\<rparr>)" "same_seq (tn\<lparr>t_try := x\<rparr>) tn' = same_seq tn tn'"
  by (simp_all add: same_seq_def)

lemma send_waiting_effect:
  assumes "send_waiting clk t cs tn = (tn', ds)"
  shows "same_seq tn tn' \<and> (\<forall>d \<in> set ds. is_udp d \<longrightarrow> (\<exists>m \<in> set cs. d_buf d = expected_seq (t_nr tn) m))"
  using assms
proof (induction cs arbitrary: tn tn' ds)
  case Nil
  then show ?case by (simp add: same_seq_def)
next
  case (Cons c cs)
  obtain tn1 ds1 where 1: "tunnelsend clk c t (tn\<lparr>t_try := 0\<rparr>) = (tn1, ds1)" by fastforce
  obtain tn2 ds2 where 2: "send_waiting clk t cs tn1 = (tn2, ds2)" by fastforce
  from Cons.prems have r: "tn' = tn2" "ds = ds1 @ ds2" by (simp_all add: 1 2)
  from tunnelsend_effect [OF 1] have e: "same_seq tn tn1"
    and d1: "\<forall>d \<in> set ds1. is_udp d \<longrightarrow> d_buf d = expected_seq (t_nr tn) c" by simp_all
  from e have "t_nr tn1 = t_nr tn" by (simp add: same_seq_def)
  with Cons.IH [OF 2] e d1 show ?case unfolding r by (fastforce intro: same_seq_trans)
qed

lemma send_all_effect:
  assumes "send_all clk t cs tn = (tn', ds)"
  shows "same_seq tn tn' \<and> (\<forall>d \<in> set ds. is_udp d \<longrightarrow> (\<exists>m \<in> set cs. d_buf d = expected_seq (t_nr tn) m))"
  using assms
proof (induction cs arbitrary: tn tn' ds)
  case Nil
  then show ?case by (simp add: same_seq_def)
next
  case (Cons c cs)
  obtain tn1 ds1 where 1: "tunnelsend clk c t tn = (tn1, ds1)" by fastforce
  obtain tn2 ds2 where 2: "send_all clk t cs tn1 = (tn2, ds2)" by fastforce
  from Cons.prems have r: "tn' = tn2" "ds = ds1 @ ds2" by (simp_all add: 1 2)
  from tunnelsend_effect [OF 1] have e: "same_seq tn tn1"
    and d1: "\<forall>d \<in> set ds1. is_udp d \<longrightarrow> d_buf d = expected_seq (t_nr tn) c" by simp_all
  from e have "t_nr tn1 = t_nr tn" by (simp add: same_seq_def)
  with Cons.IH [OF 2] e d1 show ?case unfolding r by (fastforce intro: same_seq_trans)
qed

lemma own_ok_same_seq: "same_seq (e_tn e) tn \<Longrightarrow> own_ok (e\<lparr>e_tn := tn\<rparr>) = own_ok e"
  by (simp add: own_ok_def same_seq_def)

lemma acked_same_seq: "same_seq (e_tn e) tn \<Longrightarrow> acked (e\<lparr>e_tn := tn\<rparr>) = acked e"
  by (simp add: acked_def same_seq_def)

lemma sendable_same_seq: "same_seq (e_tn e) tn \<Longrightarrow> sendable (e\<lparr>e_tn := tn\<rparr>) d = sendable e d"
  by (simp add: sendable_def same_seq_def acked_def)

lemma delivery_same_seq:
  "same_seq (e_tn e) tn \<Longrightarrow> delivery_ok (e\<lparr>e_tn := tn\<rparr>) b = delivery_ok e b"
  "delivery_ok b (e\<lparr>e_tn := tn\<rparr>) = delivery_ok b e"
  by (simp_all add: delivery_ok_def acked_same_seq)

lemma out_ok_tn [simp]: "out_ok (e\<lparr>e_tn := tn\<rparr>) = out_ok e"
  by (simp add: out_ok_def packet_ok_def)

lemma sendable_queue:
  assumes "own_ok e" and "m \<in> set (t_controls (e_tn e))"
    and "is_udp d \<longrightarrow> d_buf d = expected_seq (t_nr (e_tn e)) m"
  shows "sendable e d"
proof -
  let ?q = "t_controls (e_tn e)"
  from assms(2) obtain k where k: "k < length ?q" and m: "m = ?q ! k" by (metis in_set_conv_nth)
  let ?i = "acked e + k"
  from assms(1) k have "queued m ?i (e_sent e ! ?i)" and l: "length ?q \<le> length (e_sent e)"
    by (auto simp: own_ok_def queue_ok_def m acked_def)
  then obtain tfar far nr where "m = msg tfar far (of_nat ?i) nr (e_sent e ! ?i)"
    unfolding queued_def by blast
  moreover have "?i < length (e_sent e)" using k l by (simp add: acked_def)
  ultimately show ?thesis
    using assms(3) unfolding sendable_def by (metis expected_seq_msg le_add1)
qed

lemma packet_ok_mono:
  assumes "packet_ok e p" and "e_sent e' = e_sent e @ xs" and "length (e_got e) \<le> length (e_got e')"
  shows "packet_ok e' p"
  using assms unfolding packet_ok_def by (fastforce simp: nth_append)

lemma out_ok_mono:
  assumes "out_ok e" and "e_out e' = e_out e" and "e_sent e' = e_sent e @ xs"
    and "length (e_got e) \<le> length (e_got e')"
  shows "out_ok e'"
  using assms packet_ok_mono unfolding out_ok_def by metis

text \<open>Sending what the tunnel has queued.\<close>

lemma link_ok_send:
  assumes "link_ok e b" and "same_seq (e_tn e) tn" and "\<forall>d \<in> set ds. sendable e d"
  shows "link_ok (emit ds (e\<lparr>e_tn := tn\<rparr>)) b"
proof -
  let ?e = "e\<lparr>e_tn := tn\<rparr>"
  have own: "own_ok ?e" and out: "out_ok ?e" using assms(1,2)
    by (simp_all add: link_ok_def own_ok_same_seq)
  have "out_ok (emit ds ?e)"
    using assms(3) by (intro out_ok_emit own out) (simp add: sendable_same_seq [OF assms(2)])
  with own assms(1) show ?thesis
    by (simp add: link_ok_def delivery_same_seq(1) [OF assms(2)] delivery_same_seq(2))
qed

lemma link_ok_resend:
  assumes "link_ok e b" and "ep_resend clk e = Some e'"
  shows "link_ok e' b"
proof -
  let ?tn = "e_tn e" and ?q = "take (unat (t_window (e_tn e))) (t_controls (e_tn e))"
  obtain tn ds where s: "send_all clk (e_id e) ?q (?tn\<lparr>t_try := t_try ?tn + 1\<rparr>) = (tn, ds)" by fastforce
  have e': "e' = emit ds (e\<lparr>e_tn := tn\<rparr>)"
    using assms(2) s by (auto simp: ep_resend_def resend_controls_def Let_def split: if_splits)
  note eff = send_all_effect [OF s]
  have own: "own_ok e" using assms(1) by (simp add: link_ok_def)
  have "sendable e d" if "d \<in> set ds" for d
  proof (cases "is_udp d")
    case True
    with eff that obtain m where "m \<in> set ?q" "d_buf d = expected_seq (t_nr ?tn) m" by auto
    then show ?thesis using sendable_queue [OF own] by (meson in_set_takeD)
  qed (simp add: sendable_def)
  then show ?thesis unfolding e' using eff by (intro link_ok_send assms(1)) simp_all
qed

lemma queue_ok_snoc:
  assumes "queue_ok sent q" and "length q < 32767" and "payload_ok pl" and "queued m (length sent) pl"
  shows "queue_ok (sent @ [pl]) (q @ [m])"
proof -
  have le: "length q \<le> length sent" using assms(1) by (simp add: queue_ok_def)
  have "queued ((q @ [m]) ! k) (length sent - length q + k) ((sent @ [pl]) ! (length sent - length q + k))"
    if "k < Suc (length q)" for k
  proof (cases "k < length q")
    case True
    then have "length sent - length q + k < length sent" using le by linarith
    moreover from True assms(1)
    have "queued (q ! k) (length sent - length q + k) (sent ! (length sent - length q + k))"
      unfolding queue_ok_def by blast
    ultimately show ?thesis using True by (simp only: nth_append if_True)
  next
    case False
    with that have "k = length q" by simp
    with le assms(4) show ?thesis by simp
  qed
  with assms(1-3) le show ?thesis by (simp add: queue_ok_def)
qed

lemma link_ok_add:
  assumes "link_ok e b" and "is_control c" and "length (t_controls (e_tn e)) < 32767"
  shows "link_ok (ep_add clk c far e) b"
proof -
  let ?tn = "e_tn e" and ?n = "length (e_sent e)" and ?q = "t_controls (e_tn e)"
  let ?m = "stamp c (t_far ?tn) far (t_ns ?tn)"
  let ?tn1 = "?tn\<lparr>t_ns := t_ns ?tn + 1, t_controls := ?q @ [?m], t_controlc := t_controlc ?tn + 1\<rparr>"
  let ?e1 = "e\<lparr>e_sent := e_sent e @ [drop 12 c], e_tn := ?tn1\<rparr>"
  have own: "own_ok e" and "out_ok e" and del: "delivery_ok e b" "delivery_ok b e"
    using assms(1) by (simp_all add: link_ok_def)
  then have q: "queue_ok (e_sent e) ?q" and ns: "t_ns ?tn = of_nat ?n"
    and cc: "t_controlc ?tn = of_nat (length ?q)" by (simp_all add: own_ok_def)
  have "unat (t_controlc ?tn) = length ?q" using assms(3) by (simp add: cc unat_of_nat)
  then have nil: "t_controlc ?tn = 0 \<longleftrightarrow> ?q = []" by (metis length_0_conv unat_eq_0)
  obtain nr where m: "?m = msg (t_far ?tn) far (of_nat ?n) nr (drop 12 c)"
    using stamp_msg [OF assms(2), of "t_far ?tn" far "t_ns ?tn"] ns by metis
  have "queued ?m ?n (drop 12 c)" using m unfolding queued_def by blast
  moreover have "payload_ok (drop 12 c)" using assms(2) by (auto simp: payload_ok_def is_control_def)
  ultimately have "queue_ok (e_sent e @ [drop 12 c]) (?q @ [?m])" by (intro queue_ok_snoc q assms(3))
  then have own1: "own_ok ?e1" using own by (simp add: own_ok_def)
  have out1: "out_ok ?e1" by (rule out_ok_mono [OF \<open>out_ok e\<close>]) simp_all
  have len: "length ?q \<le> ?n" using q by (simp add: queue_ok_def)
  have del1: "delivery_ok ?e1 b" "delivery_ok b ?e1"
    using del len by (auto simp: delivery_ok_def acked_def)
  then have link: "link_ok ?e1 b" using own1 out1 assms(1) by (simp add: link_ok_def)
  obtain tn ds where c: "controladd clk c far (e_id e) ?tn = (tn, ds)" by fastforce
  have "same_seq ?tn1 tn \<and> (\<forall>d \<in> set ds. is_udp d \<longrightarrow> d_buf d = expected_seq (t_nr ?tn) ?m)"
  proof (cases "t_controlc ?tn + 1 \<le> t_window ?tn")
    case False
    with c nil show ?thesis by (auto simp: controladd_def Let_def same_seq_def)
  next
    case True
    with c nil have "tunnelsend clk ?m (e_id e) (?tn1\<lparr>t_try := 0\<rparr>) = (tn, ds)"
      by (simp add: controladd_def Let_def split: if_splits)
    from tunnelsend_effect [OF this] show ?thesis by simp
  qed
  then have s: "same_seq ?tn1 tn" and d: "\<forall>d \<in> set ds. is_udp d \<longrightarrow> d_buf d = expected_seq (t_nr (e_tn ?e1)) ?m"
    by simp_all
  have "sendable ?e1 d" if "d \<in> set ds" for d
    using d that by (intro sendable_queue [OF own1, of ?m]) simp_all
  with link_ok_send [OF link, of tn ds] s show ?thesis by (simp add: ep_add_def c)
qed


text \<open>Acknowledgements: exactly the messages below the acknowledged number leave the queue.\<close>

lemma bit15_diff:
  assumes "a < r + 32768" and "r \<le> a + 32768"
  shows "bit (of_nat a - of_nat r :: u16) 15 \<longleftrightarrow> a < r"
proof (cases "a < r")
  case True
  with assms(2) have d: "0 < r - a" "r - a \<le> 32768" by simp_all
  have "of_nat a - of_nat r = (- of_nat (r - a) :: u16)" using True by simp
  moreover have "unat (- of_nat (r - a) :: u16) = 65536 - (r - a)"
  proof -
    have "(of_nat (65536 - (r - a)) :: u16) = of_nat 65536 - of_nat (r - a)"
      using d by (intro of_nat_diff) simp
    then have "(- of_nat (r - a) :: u16) = of_nat (65536 - (r - a))" by simp
    with d show ?thesis by (simp only: unat_of_nat) simp
  qed
  ultimately have "32768 \<le> unat (of_nat a - of_nat r :: u16)" "unat (of_nat a - of_nat r :: u16) < 65536"
    using d by simp_all
  then have "unat (of_nat a - of_nat r :: u16) div 32768 = 1" by linarith
  then have "bit (unat (of_nat a - of_nat r :: u16)) 15" by (simp add: bit_iff_odd)
  with True show ?thesis by (simp add: bit_unsigned_iff)
next
  case False
  then have "unat (of_nat a - of_nat r :: u16) = a - r" using assms(1) by (intro of_nat_diff_unat) simp_all
  with False assms(1) have "unat (of_nat a - of_nat r :: u16) < 2 ^ 15" by simp
  then have "\<not> bit (unat (of_nat a - of_nat r :: u16)) 15" by (simp add: bit_iff_odd)
  with False show ?thesis by (simp add: bit_unsigned_iff)
qed

lemma ack_loop_queue:
  assumes "t_ns tn = of_nat n" and "t_controlc tn = of_nat (length (t_controls tn))"
    and "length (t_controls tn) \<le> 32767" and "length (t_controls tn) \<le> n" and "r \<le> n"
    and "n - length (t_controls tn) < r + 32768"
    and "ack_loop (of_nat r) (tn, skip) = (tn', skip')"
  shows "t_ns tn' = of_nat n \<and> t_nr tn' = t_nr tn \<and>
    t_controls tn' = drop (r - (n - length (t_controls tn))) (t_controls tn) \<and>
    t_controlc tn' = of_nat (length (t_controls tn'))"
  using assms
proof (induction "length (t_controls tn)" arbitrary: tn skip)
  case 0
  then have "t_controlc tn = 0" "t_controls tn = []" by simp_all
  with 0 show ?case by (subst (asm) ack_loop.simps) auto
next
  case (Suc m)
  let ?a = "n - length (t_controls tn)"
  have "unat (t_controlc tn) = length (t_controls tn)" using Suc.prems by (simp add: unat_of_nat)
  then have pos: "t_controlc tn > 0" using Suc.hyps(2) by (metis unat_eq_0 word_gt_0 nat.distinct(1))
  have "t_ns tn - t_controlc tn = of_nat ?a" using Suc.prems by simp
  then have bit: "bit (t_ns tn - t_controlc tn - of_nat r) 15 \<longleftrightarrow> ?a < r"
    using bit15_diff [of ?a r] Suc.prems(3-6) by simp
  show ?case
  proof (cases "?a < r")
    case False
    with Suc.prems(7) bit have "tn' = tn" by (subst (asm) ack_loop.simps) simp
    with False Suc.prems show ?thesis by simp
  next
    case True
    let ?tn = "tn\<lparr>t_controls := drop 1 (t_controls tn), t_controlc := t_controlc tn - 1, t_try := 0\<rparr>"
    have rec: "ack_loop (of_nat r) (?tn, skip - 1) = (tn', skip')"
      using Suc.prems(7) pos bit True by (subst (asm) ack_loop.simps) simp
    have l: "length (t_controls ?tn) = m" using Suc.hyps(2) [symmetric] by simp
    have cc: "t_controlc ?tn = of_nat (length (t_controls ?tn))"
      unfolding l using Suc.hyps(2) [symmetric] Suc.prems(2) by simp
    have IH: "t_ns tn' = of_nat n \<and> t_nr tn' = t_nr tn \<and>
        t_controls tn' = drop (r - (n - m)) (drop 1 (t_controls tn)) \<and>
        t_controlc tn' = of_nat (length (t_controls tn'))"
      using Suc.hyps(1) [OF l [symmetric] _ cc _ _ Suc.prems(5) _ rec] Suc.hyps(2) [symmetric] Suc.prems(1,3,4) True
      unfolding l by simp
    have "r - ?a = Suc (r - (n - m))" using True Suc.hyps(2) [symmetric] Suc.prems(4) by simp
    then have "drop (r - ?a) (t_controls tn) = drop (r - (n - m)) (drop 1 (t_controls tn))" by simp
    with IH show ?thesis by simp
  qed
qed


text \<open>Receiving a packet that is fresh.\<close>

lemma link_ok_other_tn:
  assumes "link_ok e b" and "same_seq (e_tn e) tn"
  shows "link_ok (e\<lparr>e_tn := tn\<rparr>) b"
  using assms by (simp add: link_ok_def own_ok_same_seq delivery_same_seq(1) delivery_same_seq(2))

text \<open>
  The state between the sequence check's updates and its sends: the acknowledged messages are gone
  and the message of an expected packet is counted as received.
\<close>

lemma in_sequence_effect:
  assumes "own_ok e" and "in_sequence clk l ns nr (e_id e) (e_tn e) = (tn', ds)"
    and "nr = of_nat r" and "r \<le> length (e_sent e)" and "acked e < r + 32768"
  shows "\<exists>tn1. t_ns tn1 = t_ns (e_tn e) \<and> t_nr tn1 = (if l \<noteq> 0 then ns + 1 else t_nr (e_tn e)) \<and>
    t_controls tn1 = drop (r - acked e) (t_controls (e_tn e)) \<and>
    t_controlc tn1 = of_nat (length (t_controls tn1)) \<and> same_seq tn1 tn' \<and>
    (\<forall>d \<in> set ds. is_udp d \<longrightarrow> (\<exists>m \<in> set (t_controls tn1). d_buf d = expected_seq (t_nr tn1) m))"
proof -
  let ?tn = "e_tn e"
  obtain tn0 skip where al: "ack_loop nr (?tn, int (unat (t_window ?tn))) = (tn0, skip)" by fastforce
  from assms(1) have "t_ns ?tn = of_nat (length (e_sent e))" "length (t_controls ?tn) \<le> 32767"
    "length (t_controls ?tn) \<le> length (e_sent e)" "t_controlc ?tn = of_nat (length (t_controls ?tn))"
    by (simp_all add: own_ok_def queue_ok_def)
  from ack_loop_queue [OF this(1,4,2,3) assms(4) _ al [unfolded assms(3)]] assms(1,5) this(1)
  have q: "t_ns tn0 = t_ns ?tn" "t_nr tn0 = t_nr ?tn" "t_controls tn0 = drop (r - acked e) (t_controls ?tn)"
    "t_controlc tn0 = of_nat (length (t_controls tn0))" by (simp_all add: acked_def)
  let ?tn1 = "if l \<noteq> 0 then tn0\<lparr>t_nr := ns + 1\<rparr> else tn0"
  obtain tn3 ds3 where r: "(if max 0 skip < int (unat (t_controlc ?tn1))
       then send_waiting clk (e_id e)
              (take (nat (int (unat (t_window ?tn1)) - max 0 skip)) (drop (nat (max 0 skip)) (t_controls ?tn1))) ?tn1
       else (?tn1, [])) = (tn3, ds3)" by fastforce
  have m: "(if skip < 0 then 0 else skip) = max 0 skip" by simp
  from assms(2) have tn': "tn' = (if t_controlc tn3 = 0 then tn3\<lparr>t_retry := 0\<rparr> else tn3)" and ds: "ds = ds3"
    unfolding in_sequence_def al Let_def prod.case m r by simp_all
  have eff: "same_seq ?tn1 tn3 \<and>
      (\<forall>d \<in> set ds3. is_udp d \<longrightarrow> (\<exists>m \<in> set (t_controls ?tn1). d_buf d = expected_seq (t_nr ?tn1) m))"
  proof (cases "max 0 skip < int (unat (t_controlc ?tn1))")
    case False
    with r show ?thesis by (auto simp: same_seq_def)
  next
    case True
    with r have "send_waiting clk (e_id e) (take (nat (int (unat (t_window ?tn1)) - max 0 skip))
        (drop (nat (max 0 skip)) (t_controls ?tn1))) ?tn1 = (tn3, ds3)" by simp
    from send_waiting_effect [OF this] show ?thesis by (meson in_set_dropD in_set_takeD)
  qed
  then have "same_seq ?tn1 tn'" by (simp add: tn' same_seq_def)
  with eff q show ?thesis unfolding ds by (intro exI [of _ ?tn1]) auto
qed

lemma queue_ok_drop:
  assumes "queue_ok sent q" and "k \<le> length q"
  shows "queue_ok sent (drop k q)"
proof -
  have "queued (drop k q ! j) (length sent - length (drop k q) + j) (sent ! (length sent - length (drop k q) + j))"
    if "j < length (drop k q)" for j
  proof -
    have "length sent - length (drop k q) + j = length sent - length q + (k + j)"
      using assms that by (simp add: queue_ok_def)
    moreover have "k + j < length q" using that by simp
    ultimately show ?thesis using assms by (metis add.commute nth_drop queue_ok_def less_or_eq_imp_le)
  qed
  with assms show ?thesis unfolding queue_ok_def by auto
qed

lemma of_nat_close:
  assumes "i < n + 32768" and "(of_nat i :: u16) = of_nat n" and "n < i + 32768"
  shows "i = n"
proof (cases "i \<le> n")
  case True
  then have "n - i = unat (of_nat n - of_nat i :: u16)" using assms(3) by (simp only: of_nat_diff_unat)
  with True assms(2) show ?thesis by simp
next
  case False
  then have "i - n = unat (of_nat i - of_nat n :: u16)" using assms(1) by (simp only: of_nat_diff_unat)
  with False assms(2) show ?thesis by simp
qed

lemma link_ok_in_sequence:
  assumes "link_ok e b" and "packet_ok b p" and "fresh e p"
    and "in_sequence clk l ns nr (e_id e) (e_tn e) = (tn, ds)"
    and "ns = of_nat (p_i p)" and "nr = of_nat (p_r p)" and "ns = t_nr (e_tn e)"
    and "l \<noteq> 0 \<longrightarrow> p_i p < length (e_sent b) \<and> pl = e_sent b ! p_i p"
    and "p_i p \<le> length (e_sent b)"
  shows "link_ok (emit ds (e\<lparr>e_got := (if l \<noteq> 0 then e_got e @ [pl] else e_got e), e_tn := tn\<rparr>)) b"
proof -
  let ?got = "if l \<noteq> 0 then e_got e @ [pl] else e_got e" and ?r = "p_r p" and ?tn = "e_tn e"
  from assms(1) have own: "own_ok e" and out: "out_ok e" and eb: "delivery_ok e b" and be: "delivery_ok b e"
    and ob: "own_ok b" by (simp_all add: link_ok_def)
  have r: "?r \<le> length (e_got b)" using assms(2) by (simp add: packet_ok_def)
  with eb have rs: "?r \<le> length (e_sent e)" by (simp add: delivery_ok_def)
  have fr: "acked e < ?r + 32768" "length (e_got e) < p_i p + 32768" using assms(3) by (simp_all add: fresh_def)
  obtain tn1 where t: "t_ns tn1 = t_ns ?tn" "t_nr tn1 = (if l \<noteq> 0 then ns + 1 else t_nr ?tn)"
      "t_controls tn1 = drop (?r - acked e) (t_controls ?tn)"
      "t_controlc tn1 = of_nat (length (t_controls tn1))" "same_seq tn1 tn"
      "\<forall>d \<in> set ds. is_udp d \<longrightarrow> (\<exists>m \<in> set (t_controls tn1). d_buf d = expected_seq (t_nr tn1) m)"
    using in_sequence_effect [OF own assms(4,6) rs fr(1)] by blast
  let ?e1 = "e\<lparr>e_got := ?got, e_tn := tn1\<rparr>"
  have q: "queue_ok (e_sent e) (t_controls ?tn)" using own by (simp add: own_ok_def)
  have k: "?r - acked e \<le> length (t_controls ?tn)" using rs q by (simp add: acked_def queue_ok_def)
  have own1: "own_ok ?e1"
    using own t(1-4) assms(7) queue_ok_drop [OF q k] by (auto simp: own_ok_def)
  have out1: "out_ok ?e1" by (rule out_ok_mono [OF out]) simp_all
  have ack1: "acked ?e1 = max (acked e) ?r"
    using k q rs by (simp add: acked_def t(3) queue_ok_def max_def)
  have eb1: "delivery_ok ?e1 b" using eb r ack1 by (simp add: delivery_ok_def)
  have "delivery_ok b ?e1"
  proof (cases "l = 0")
    case True
    with be show ?thesis by (simp add: delivery_ok_def)
  next
    case False
    then have i: "p_i p < length (e_sent b)" "pl = e_sent b ! p_i p" using assms(8) by simp_all
    have "length (t_controls (e_tn b)) \<le> 32767" using ob by (simp add: own_ok_def queue_ok_def)
    moreover have "length (e_sent b) - length (t_controls (e_tn b)) \<le> length (e_got e)"
      using be by (simp add: delivery_ok_def acked_def)
    ultimately have "p_i p < length (e_got e) + 32768" using i(1) by linarith
    moreover have "(of_nat (p_i p) :: u16) = of_nat (length (e_got e))"
      using assms(5,7) own by (simp add: own_ok_def)
    ultimately have eq: "p_i p = length (e_got e)" using fr(2) by (rule of_nat_close)
    have got: "e_got e = take (length (e_got e)) (e_sent b)" using be by (simp add: delivery_ok_def)
    have "e_got e @ [pl] = take (Suc (length (e_got e))) (e_sent b)"
      using i eq got by (simp add: take_Suc_conv_app_nth)
    with be False i eq show ?thesis by (simp add: delivery_ok_def)
  qed
  with own1 out1 eb1 assms(1) have link: "link_ok ?e1 b" by (simp add: link_ok_def)
  have "sendable ?e1 d" if "d \<in> set ds" for d
  proof (cases "is_udp d")
    case True
    with t(6) that obtain m where "m \<in> set (t_controls tn1)" "d_buf d = expected_seq (t_nr tn1) m" by blast
    then show ?thesis by (intro sendable_queue [OF own1, of m]) simp_all
  qed (simp add: sendable_def)
  with link_ok_send [OF link, of tn ds] t(5) show ?thesis by simp
qed


lemma same_seq_refl [simp]: "same_seq tn tn"
  by (simp add: same_seq_def)

lemma controlnull_effect:
  assumes "own_ok e" and "controlnull clk t (e_tn e) = (tn, ds)"
  shows "same_seq (e_tn e) tn \<and> (\<forall>d \<in> set ds. sendable e d)"
proof (cases "t_controlc (e_tn e) = 0")
  case False
  with assms(2) show ?thesis by (simp add: controlnull_def)
next
  case True
  let ?tn = "e_tn e"
  let ?z = "msg (t_far ?tn) 0 (t_ns ?tn) (t_nr ?tn) []"
  have "be16 0xC802 @ be16 12 @ be16 (t_far ?tn) @ be16 0 @ be16 (t_ns ?tn) @ be16 (t_nr ?tn) = ?z"
    by (simp add: msg_def be16_def)
  with assms(2) True have "tunnelsend clk ?z t ?tn = (tn, ds)" by (simp add: controlnull_def)
  note eff = tunnelsend_effect [OF this]
  have "sendable e d" if "d \<in> set ds" for d
    using eff that assms(1) unfolding sendable_def acked_def own_ok_def
    by (metis diff_le_self expected_seq_msg)
  with eff show ?thesis by blast
qed

lemma link_ok_receive:
  assumes "link_ok e b" and "p \<in> set (e_out b)" and "fresh e p"
  shows "link_ok (ep_receive clk stale (p_buf p) e) b"
proof -
  let ?buf = "buffer_of (p_buf p) stale"
  have own: "own_ok e" and p: "packet_ok b p" and ob: "own_ok b"
    using assms(1,2) by (simp_all add: link_ok_def out_ok_def)
  from p obtain tfar far pl where pb: "p_buf p = msg tfar far (of_nat (p_i p)) (of_nat (p_r p)) pl"
      and pl: "pl = [] \<and> p_i p \<le> length (e_sent b) \<or> p_i p < length (e_sent b) \<and> pl = e_sent b ! p_i p"
    unfolding packet_ok_def by blast
  have len: "12 + length pl < 65536"
    using pl ob by (auto simp: own_ok_def queue_ok_def payload_ok_def)
  show ?thesis
  proof (cases "parse_header ?buf (length (p_buf p))")
    case None
    with assms(1) show ?thesis by (simp add: ep_receive_def)
  next
    case (Some h)
    note hd = parse_msg [OF pb len Some]
    then have data: "map ?buf [h_pos h..<h_pos h + length pl] = pl" by metis
    obtain tn ds deliver where c: "check_sequence clk (length pl) (of_nat (p_i p)) (of_nat (p_r p)) (e_id e) (e_tn e)
        = (tn, ds, deliver)" by (metis prod_cases3)
    have rec: "ep_receive clk stale (p_buf p) e =
        emit ds (e\<lparr>e_got := (if deliver then e_got e @ [pl] else e_got e), e_tn := tn\<rparr>)"
      using Some hd c data by (simp add: ep_receive_def)
    show ?thesis
    proof (cases "of_nat (p_i p) = t_nr (e_tn e)")
      case True
      then obtain "in_sequence clk (length pl) (of_nat (p_i p)) (of_nat (p_r p)) (e_id e) (e_tn e) = (tn, ds)"
          and d: "deliver = (length pl \<noteq> 0)"
        using c by (auto simp: check_sequence_def split: prod.splits)
      moreover have "length pl \<noteq> 0 \<longrightarrow> p_i p < length (e_sent b) \<and> pl = e_sent b ! p_i p"
        and "p_i p \<le> length (e_sent b)" using pl by auto
      ultimately show ?thesis
        unfolding rec d using link_ok_in_sequence [OF assms(1) p assms(3)] True by blast
    next
      case False
      then have d: "\<not> deliver"
        and n: "(if length pl \<noteq> 0 then controlnull clk (e_id e) (e_tn e) else (e_tn e, [])) = (tn, ds)"
        using c by (auto simp: check_sequence_def split: prod.splits if_splits)
      have "same_seq (e_tn e) tn \<and> (\<forall>d \<in> set ds. sendable e d)"
        using controlnull_effect [OF own] n by (auto split: if_splits)
      then show ?thesis unfolding rec using d assms(1) by (auto intro: link_ok_send)
    qed
  qed
qed

lemma link_ok_step:
  assumes "ep_step b e e'" and "link_ok e b"
  shows "link_ok e' b"
  using assms
  by cases (auto intro: link_ok_add link_ok_resend link_ok_receive link_ok_other_tn)

lemma link_reach_ok: "link_reach (a, b) \<Longrightarrow> link_ok a b"
proof (induction "(a, b)" arbitrary: a b rule: link_reach.induct)
  case Init
  then show ?case
    by (simp add: link_ok_def own_ok_def out_ok_def delivery_ok_def queue_ok_def endpoint_init_def acked_def)
next
  case (Step l)
  obtain a0 b0 where l: "l = (a0, b0)" by fastforce
  with Step have "link_ok a0 b0" by blast
  with \<open>link_step l (a, b)\<close> show ?case
    unfolding l by cases (metis link_ok_step link_ok_sym)+
qed

text \<open>
  C10: reliable delivery. Whatever the network loses, repeats or reorders, the messages an end has
  handed to its handler are the first messages its peer queued, in order and each once; a message
  leaves the queue of the sender only after the peer has handed it over.
\<close>

theorem control_reliable_delivery:
  assumes "link_reach (a, b)"
  shows "e_got b = take (length (e_got b)) (e_sent a) \<and> e_got a = take (length (e_got a)) (e_sent b) \<and>
    length (e_sent a) - length (t_controls (e_tn a)) \<le> length (e_got b) \<and>
    length (e_sent b) - length (t_controls (e_tn b)) \<le> length (e_got a)"
  using link_reach_ok [OF assms] by (simp add: link_ok_def delivery_ok_def acked_def)


definition demo_a :: endpoint where
  "demo_a = ep_add \<lparr>c_time_now = 5, c_now = 50\<rparr> (controlnew 6) 0
     (endpoint_init 2 (tunnel_zero\<lparr>t_ip := 1, t_window := 4, t_far := 3\<rparr>))"

definition demo_b :: endpoint where
  "demo_b = ep_receive \<lparr>c_time_now = 5, c_now = 50\<rparr> (\<lambda>_. 0) (p_buf (hd (e_out demo_a)))
     (endpoint_init 3 (tunnel_zero\<lparr>t_ip := 2, t_window := 4, t_far := 2\<rparr>))"


lemma replicate_10: "replicate 10 x = [x, x, x, x, x, x, x, x, x, x]"
  by (simp add: numeral_eq_Suc)

lemmas demo_defs = demo_a_def ep_add_def controladd_def stamp_def put16_def be16_def endpoint_init_def
  tunnel_zero_def controlnew_def control16_def tunnelsend_def TUNNEL_ID_PPPOE_def emit_def tag_def
  is_udp_def expected_seq_def replicate_10 Let_def

lemma demo_a_out:
  "e_out demo_a = [\<lparr>p_buf = [0xC8, 2, 0, 20, 0, 3, 0, 0, 0, 0, 0, 0, 0x80, 8, 0, 0, 0, 0, 0, 6],
     p_i = 0, p_r = 0\<rparr>]"
  "e_sent demo_a = [[0x80, 8, 0, 0, 0, 0, 0, 6]]"
  by (simp_all add: demo_defs)

lemma demo_reach: "link_reach (demo_a, demo_b)"
proof -
  let ?a = "endpoint_init 2 (tunnel_zero\<lparr>t_ip := 1, t_window := 4, t_far := 3\<rparr>)"
  let ?b = "endpoint_init 3 (tunnel_zero\<lparr>t_ip := 2, t_window := 4, t_far := 2\<rparr>)"
  have "is_control (controlnew 6)" "length (t_controls (e_tn ?a)) < 32767"
    by (simp_all add: is_control_def demo_defs)
  then have 1: "link_step (?a, ?b) (demo_a, ?b)"
    unfolding demo_a_def by (intro link_step.intros ep_step.Add) simp_all
  have "hd (e_out demo_a) \<in> set (e_out demo_a)" "fresh ?b (hd (e_out demo_a))"
    by (simp_all add: demo_a_out fresh_def acked_def endpoint_init_def)
  then have 2: "link_step (demo_a, ?b) (demo_a, demo_b)"
    unfolding demo_b_def by (intro link_step.intros ep_step.Receive) simp_all
  show ?thesis by (rule link_reach.Step [OF link_reach.Step [OF link_reach.Init 1] 2])
qed

lemma control_reliable_delivery_witness:
  "e_got demo_b = [[0x80, 8, 0, 0, 0, 0, 0, 6]] \<and> e_sent demo_a = [[0x80, 8, 0, 0, 0, 0, 0, 6]]"
proof -
  have "length (e_got demo_b) = 1"
    by (simp add: demo_b_def demo_a_out ep_receive_def parse_header_def buffer_of_def rd16_def bit_simps
        MAXSESSION_def MAXTUNNEL_def TUNNEL_ID_PPPOE_def check_sequence_def in_sequence_def
        endpoint_init_def ack_loop.simps)
  with control_reliable_delivery [OF demo_reach] show ?thesis by (simp add: demo_a_out)
qed


subsection \<open>The window\<close>

definition within_window :: "tunnelt \<Rightarrow> datagram list \<Rightarrow> bool" where
  "within_window tn ds \<longleftrightarrow>
     (\<forall>d \<in> set ds. is_udp d \<longrightarrow>
        (\<exists>m \<in> set (take (unat (t_window tn)) (t_controls tn)). d_buf d = expected_seq (t_nr tn) m))"

lemma tunnelsend_window: "tunnelsend clk m t tn = (tn', ds) \<Longrightarrow> t_window tn' = t_window tn"
  by (auto simp: tunnelsend_def split: if_splits)

lemma send_waiting_window: "send_waiting clk t cs tn = (tn', ds) \<Longrightarrow> t_window tn' = t_window tn"
  by (induction cs arbitrary: tn tn' ds) (force split: prod.splits dest: tunnelsend_window)+

lemma send_all_window: "send_all clk t cs tn = (tn', ds) \<Longrightarrow> t_window tn' = t_window tn"
  by (induction cs arbitrary: tn tn' ds) (force split: prod.splits dest: tunnelsend_window)+

lemma controladd_window:
  assumes "t_controlc tn = of_nat (length (t_controls tn))" and "length (t_controls tn) < 65535"
    and "controladd clk c far t tn = (tn', ds)"
  shows "within_window tn' ds"
proof -
  let ?m = "stamp c (t_far tn) far (t_ns tn)" and ?q = "t_controls tn"
  let ?tn1 = "tn\<lparr>t_ns := t_ns tn + 1, t_controls := ?q @ [?m], t_controlc := t_controlc tn + 1\<rparr>"
  have n: "unat (t_controlc tn) = length ?q" using assms(1,2) by (simp add: unat_of_nat)
  then have nil: "t_controlc tn = 0 \<longleftrightarrow> ?q = []" by (metis length_0_conv unat_eq_0)
  show ?thesis
  proof (cases "t_controlc tn + 1 \<le> t_window tn")
    case False
    with assms(3) nil show ?thesis by (auto simp: controladd_def Let_def within_window_def)
  next
    case True
    with assms(3) nil have s: "tunnelsend clk ?m t (?tn1\<lparr>t_try := 0\<rparr>) = (tn', ds)"
      by (simp add: controladd_def Let_def split: if_splits)
    have "t_controlc tn + 1 = of_nat (Suc (length ?q))" using assms(1) by simp
    then have "unat (t_controlc tn + 1) = Suc (length ?q)"
      using assms(2) by (simp only: unat_of_nat) simp
    with True have "Suc (length ?q) \<le> unat (t_window tn)" by (simp add: word_le_nat_alt)
    moreover from tunnelsend_window [OF s] tunnelsend_effect [OF s]
    have "t_window tn' = t_window tn" "t_controls tn' = ?q @ [?m]" "t_nr tn' = t_nr tn"
      by (simp_all add: same_seq_def)
    ultimately show ?thesis using tunnelsend_effect [OF s] by (simp add: within_window_def)
  qed
qed

lemma in_sequence_window:
  assumes "in_sequence clk l ns nr t tn = (tn', ds)"
  shows "within_window tn' ds"
proof -
  obtain tn0 skip where al: "ack_loop nr (tn, int (unat (t_window tn))) = (tn0, skip)" by fastforce
  let ?tn1 = "if l \<noteq> 0 then tn0\<lparr>t_nr := ns + 1\<rparr> else tn0"
  let ?cs = "take (nat (int (unat (t_window ?tn1)) - max 0 skip)) (drop (nat (max 0 skip)) (t_controls ?tn1))"
  obtain tn3 ds3 where r: "(if max 0 skip < int (unat (t_controlc ?tn1)) then send_waiting clk t ?cs ?tn1
       else (?tn1, [])) = (tn3, ds3)" by fastforce
  have m: "(if skip < 0 then 0 else skip) = max 0 skip" by simp
  from assms have tn': "tn' = (if t_controlc tn3 = 0 then tn3\<lparr>t_retry := 0\<rparr> else tn3)" and ds: "ds = ds3"
    unfolding in_sequence_def al Let_def prod.case m r by simp_all
  have "?cs = drop (nat (max 0 skip)) (take (unat (t_window ?tn1)) (t_controls ?tn1))"
    by (simp add: drop_take nat_diff_distrib')
  then have cs: "set ?cs \<subseteq> set (take (unat (t_window ?tn1)) (t_controls ?tn1))"
    by (metis set_drop_subset)
  show ?thesis
  proof (cases "max 0 skip < int (unat (t_controlc ?tn1))")
    case False
    with r show ?thesis by (auto simp: ds within_window_def)
  next
    case True
    with r have s: "send_waiting clk t ?cs ?tn1 = (tn3, ds3)" by simp
    from send_waiting_window [OF s] send_waiting_effect [OF s]
    have eq: "t_window tn' = t_window ?tn1" "t_controls tn' = t_controls ?tn1" "t_nr tn' = t_nr ?tn1"
      by (simp_all add: tn' same_seq_def)
    show ?thesis using send_waiting_effect [OF s] cs unfolding within_window_def ds eq by blast
  qed
qed

lemma resend_window:
  assumes "resend_controls clk t tn = Some (tn', ds)"
  shows "within_window tn' ds"
proof -
  let ?tn1 = "tn\<lparr>t_try := t_try tn + 1\<rparr>"
  have s: "send_all clk t (take (unat (t_window ?tn1)) (t_controls ?tn1)) ?tn1 = (tn', ds)"
    using assms by (auto simp: resend_controls_def Let_def split: if_splits)
  from send_all_window [OF s] send_all_effect [OF s] show ?thesis
    by (simp add: within_window_def same_seq_def)
qed

text \<open>
  C11: the transmit window. Whatever a tunnel sends from its queue, when a message is added, when a
  packet acknowledges some, or when a timeout makes it send again, lies within the first
  \<open>window\<close> messages of the queue that is left, and carries the number expected next.
\<close>

theorem control_window:
  assumes "t_controlc tn = of_nat (length (t_controls tn))" and "length (t_controls tn) < 65535"
  shows "(controladd clk c far t tn = (tn1, ds1) \<longrightarrow> within_window tn1 ds1) \<and>
    (in_sequence clk l ns nr t tn = (tn2, ds2) \<longrightarrow> within_window tn2 ds2) \<and>
    (resend_controls clk t tn = Some (tn3, ds3) \<longrightarrow> within_window tn3 ds3)"
  using controladd_window [OF assms] in_sequence_window resend_window by blast

lemma control_window_witness:
  "within_window (fst (controladd \<lparr>c_time_now = 5, c_now = 50\<rparr> (controlnew 6) 0 2 (tunnel_zero\<lparr>t_ip := 1, t_window := 1\<rparr>)))
     (snd (controladd \<lparr>c_time_now = 5, c_now = 50\<rparr> (controlnew 6) 0 2 (tunnel_zero\<lparr>t_ip := 1, t_window := 1\<rparr>)))"
  using control_window [of "tunnel_zero\<lparr>t_ip := 1, t_window := 1\<rparr>"] by (simp add: tunnel_zero_def)

end
