(* ===== verification/SessionEnd.thy ===== *)
theory SessionEnd
  imports SessionInv
begin

text \<open>
  What the end of a session does not do and what it undoes: no RADIUS accounting stop is sent, and
  no address of the session leads to it any more. The parts of the state that a step leaves alone
  are projections for which the locale \<open>untouched\<close> holds.
\<close>

subsection \<open>Projections\<close>

locale untouched =
  fixes P :: "l2tpns \<Rightarrow> 'a"
  assumes session: "P (upd_session s fs g) = P g"
    and session_local: "P (upd_local s fl g) = P g"
    and bundl: "P (upd_bundle b fb g) = P g"
    and pool: "P (upd_pool i fp g) = P g"
    and tunnel: "P (on_tunnel ft t g) = P g"
    and filters: "P (filter_ref f d g) = P g"
    and tbf: "P (g\<lparr>g_tbf := tb\<rparr>) = P g"
    and bgp: "P (g\<lparr>g_bgp := bs\<rparr>) = P g"
    and changes: "P (type_changed ty i g) = P g"
    and events: "\<forall>r bs a p. e \<noteq> RadiusTx r bs a p \<Longrightarrow> P (out e g) = P g"
    and cache6: "P (cache_ip6 a6 pl n g) = P g"
begin

lemma die: "P (shutdown_die s g) = P g"
  by (simp add: shutdown_die_def session events)

lemma die_again: "P (shutdown_die_again s g) = P g"
  by (simp add: shutdown_die_again_def session)

lemma throttle: "P (throttle_session s i j g) = P g"
proof -
  have "P (throttle_in s r g) = P g" "P (throttle_out s r g) = P g" for r g
    by (auto simp: throttle_in_def throttle_out_def Let_def session tbf split: prod.split)
  then show ?thesis by (simp add: throttle_session_def Let_def)
qed

lemma shut_throttle: "P (shutdown_throttle s g) = P g"
  by (simp add: shutdown_throttle_def throttle)

lemma cdn: "P (shutdown_cdn s res err g) = P g"
  by (simp add: shutdown_cdn_def Let_def events g_controladd_def tunnel)

lemma shut_filters: "P (shutdown_filters s g) = P g"
  by (simp add: shutdown_filters_def filters)

lemma ppp: "P (shutdown_ppp s g) = P g"
  by (simp add: shutdown_ppp_def session session_local)

lemma send_session: "P (cluster_send_session s g) = P g"
  by (simp add: cluster_send_session_def changes)

lemma send_bundle: "P (cluster_send_bundle b g) = P g"
  by (simp add: cluster_send_bundle_def changes)

lemma unset6: "P (route6set s a6 pl ad g) = P g"
  by (simp add: route6set_def Let_def events bgp cache6)

lemma unroute6: "P (unroute6_loop s del rs g) = P g"
  by (induction rs arbitrary: g) (simp_all add: Let_def session unset6)

lemma shutdown_after_release:
  "P (cluster_send_session s (shutdown_ppp s (shutdown_filters s (shutdown_cdn s res err (shutdown_throttle s g))))) = P g"
  by (simp add: send_session ppp shut_filters cdn shut_throttle)

end

text \<open>What routes touch.\<close>

locale untouched_routes =
  fixes P :: "l2tpns \<Rightarrow> 'a"
  assumes route_bgp: "P (g\<lparr>g_bgp := bs\<rparr>) = P g"
    and route_events: "\<forall>r bs a p. e \<noteq> RadiusTx r bs a p \<Longrightarrow> P (out e g) = P g"
    and route_cache6: "P (cache_ip6 a6 pl n g) = P g"
    and route_cache: "P (cache_ip a k g) = P g"
begin

lemma cache_block: "P (cache_route a pl n g) = P g"
proof -
  have "P (fold (\<lambda>a. cache_ip a n) as g) = P g" for as
    by (induction as arbitrary: g) (simp_all add: route_cache)
  then show ?thesis by (simp add: cache_route_def)
qed

lemma set_route: "P (routeset s a pl gw ad g) = P g"
  by (simp add: routeset_def Let_def route_events route_bgp cache_block)

lemma set_route6: "P (route6set s a6 pl ad g) = P g"
  by (simp add: route6set_def Let_def route_events route_bgp route_cache6)

end

locale untouched_maps = untouched +
  assumes cache: "P (cache_ip a n g) = P g"

sublocale untouched_maps \<subseteq> routes: untouched_routes P
  by unfold_locales (simp_all add: bgp events cache6 cache)

context untouched_maps
begin

lemma unroute: "P (fst (unroute_loop s del rs n g)) = P g"
  by (induction rs arbitrary: n g) (simp_all add: Let_def session routes.set_route)

lemma free_ip: "P (free_ip_address s g) = P g"
  by (simp add: free_ip_address_def Let_def session pool cache)

lemma ip: "P (shutdown_ip s del g) = P g"
proof -
  obtain g1 n where u: "unroute_loop s del [0..<MAXROUTE] 0 g = (g1, n)" by fastforce
  then have "P g1 = P g" using unroute[of s del "[0..<MAXROUTE]" 0 g] by simp
  then show ?thesis
    by (simp add: shutdown_ip_def u Let_def session routes.set_route unset6 unroute6 free_ip)
qed

lemma recache: "P (recache_session n g) = P g"
proof -
  have "P (recache_routes n rs g) = P g" for rs g
    by (induction rs arbitrary: g) (simp_all add: Let_def routes.cache_block)
  moreover have "P (recache_routes6 n rs g) = P g" for rs g
    by (induction rs arbitrary: g) (simp_all add: Let_def cache6)
  ultimately show ?thesis by (simp add: recache_session_def Let_def cache cache6)
qed

lemma shut_bundle: "P (shutdown_bundle s b g) = P g"
  by (simp add: shutdown_bundle_def Let_def send_bundle bundl bundleclear_def drop_member_def recache)

lemma release: "P (shutdown_release s b del tc g) = P g"
  by (simp add: shutdown_release_def shut_bundle ip)

end

locale untouched_radius = untouched +
  assumes radius: "P (upd_radius r fr g) = P g"
    and ident: "P (g\<lparr>g_next_radius_id := nid\<rparr>) = P g"
    and random: "P (g\<lparr>g_random := rnd\<rparr>) = P g"
    and acct: "P (g\<lparr>g_shut_acct := ac\<rparr>) = P g"
    and requests: "P (out (RadiusTx r bs a p) g) = P g"
begin

lemma new: "P (fst (radiusnew s g)) = P g"
proof -
  have "P (fst (get_free_radius n g)) = P g" for n
    by (induction n arbitrary: g) (simp_all add: Let_def ident)
  moreover obtain g1 r where f: "get_free_radius MAXRADIUS g = (g1, r)" by fastforce
  ultimately have "P g1 = P g" by (metis fst_conv)
  then show ?thesis
    by (simp add: radiusnew_def f random_data_def Let_def radius random session_local)
qed

lemma send: "P (fst (radiussend r st g)) = P g"
  by (simp add: radiussend_def Let_def radius requests session_local radiusclear_def)

lemma shut_radius: "P (shutdown_radius s reason tc w g) = P g"
proof -
  obtain g1 r where n: "radiusnew s g = (g1, r)" by fastforce
  then have "P g1 = P g" using new[of s g] by simp
  then show ?thesis by (simp add: shutdown_radius_def n Let_def acct send radius)
qed

lemma shutdown_before_release:
  "P (shutdown_die_again s (shutdown_radius s reason tc w (shutdown_die s g))) = P g"
  by (simp add: die_again shut_radius die)

end

subsection \<open>Accounting\<close>

definition is_radius :: "event \<Rightarrow> bool" where
  "is_radius e = (case e of RadiusTx _ _ _ _ \<Rightarrow> True | _ \<Rightarrow> False)"

definition radius_view :: "l2tpns \<Rightarrow> (nat \<Rightarrow> radiust) \<times> event list" where
  "radius_view g = (g_radius g, filter is_radius (g_out g))"

lemma filter_datagrams: "filter is_radius (map Datagram ds) = []"
  by (induction ds) (simp_all add: is_radius_def)

lemma radius_view_changed: "radius_view (type_changed ty i g) = radius_view g"
  by (simp add: radius_view_def type_changed_def cluster_heartbeat_def send_heartbeat_def Let_def out_def upd_cfg_def
      is_radius_def split: prod.split)

interpretation radview: untouched_maps radius_view
  by unfold_locales
    (auto simp: radius_view_changed,
     auto simp: radius_view_def upd_session_def upd_local_def upd_bundle_def upd_pool_def on_tunnel_def filter_ref_def
       out_def cache_ip6_def cache_ip_def is_radius_def filter_datagrams split: prod.split event.split)

text \<open>
  No accounting stop. \<open>sessionshutdown\<close> sets \<open>die\<close> before it tests that \<open>die\<close> is not set, so
  unless the sum \<open>TIME + 150\<close> is zero it never starts a RADIUS request: the requests in flight and
  the RADIUS packets sent are those from before, whatever the session.
\<close>

theorem sessionshutdown_no_radius_stop:
  assumes "g_TIME g + 150 \<noteq> 0"
  shows "radius_view (sessionshutdown s reason res err tc g) = radius_view g"
proof -
  have "s_die (g_session (shutdown_die s g) s) \<noteq> 0"
    using assms by (simp add: shutdown_die_def upd_session_def out_def)
  then have "shutdown_radius s reason tc w (shutdown_die s g) = shutdown_die s g" for w
    by (simp add: shutdown_radius_def)
  then show ?thesis
    by (simp add: sessionshutdown_def Let_def radview.shutdown_after_release radview.release radview.die_again radview.die)
qed

lemma sessionshutdown_no_radius_stop_witness:
  "\<forall>g. radius_view (sessionshutdown 3 ''Timeout'' 3 0 6 (g\<lparr>g_TIME := 100\<rparr>)) = radius_view g"
  using sessionshutdown_no_radius_stop [of "_\<lparr>g_TIME := 100\<rparr>" 3 "''Timeout''" 3 0 6]
  by (simp add: radius_view_def)


subsection \<open>Addresses\<close>

definition hash_view :: "l2tpns \<Rightarrow> iphash \<times> bool" where
  "hash_view g = (g_iphash g, g_alloc g)"

lemma hash_view_changed: "hash_view (type_changed ty i g) = hash_view g"
  by (simp add: hash_view_def type_changed_def cluster_heartbeat_def send_heartbeat_def Let_def out_def upd_cfg_def
      split: prod.split)

interpretation hashview: untouched_radius hash_view
  by unfold_locales
    (auto simp: hash_view_changed,
     auto simp: hash_view_def upd_session_def upd_local_def upd_bundle_def upd_pool_def on_tunnel_def filter_ref_def
       out_def cache_ip6_def upd_radius_def split: prod.split)

lemma lookup_cache_ip:
  "g_alloc g \<Longrightarrow> lookup_ipmap a (g_iphash (cache_ip b n g)) = (if a = b then id16 n else lookup_ipmap a (g_iphash g))"
  by (simp add: cache_ip_def lookup_cache_ipmap)

lemma lookup_cache_route:
  assumes "g_alloc g"
  shows "lookup_ipmap a (g_iphash (cache_route b pl n g)) =
    (if a \<in> set (route_addrs b pl) then id16 n else lookup_ipmap a (g_iphash g))"
proof -
  have "lookup_ipmap a (g_iphash (fold (\<lambda>a. cache_ip a n) as g)) =
      (if a \<in> set as then id16 n else lookup_ipmap a (g_iphash g))" for as
    using assms
  proof (induction as arbitrary: g)
    case Nil
    then show ?case by simp
  next
    case (Cons b as)
    moreover have "g_alloc (cache_ip b n g)" using Cons.prems by (simp add: cache_ip_def)
    ultimately show ?case by (simp add: lookup_cache_ip)
  qed
  then show ?thesis by (simp add: cache_route_def)
qed

lemma route_first_idem: "route_first (route_first ip pl) pl = route_first ip pl"
  by (simp add: route_first_def and.assoc)

lemma route_addrs_first: "route_addrs (route_first ip pl) pl = route_addrs ip pl"
  by (simp add: route_addrs_def Let_def route_first_idem)

lemma lookup_unset:
  assumes "g_alloc g" "s \<noteq> 0" and "pl' = (if pl = 0 then 32 else pl)"
  shows "lookup_ipmap a (g_iphash (routeset s b pl gw False g)) =
    (if a \<in> set (route_addrs b pl') then 0 else lookup_ipmap a (g_iphash g))"
  using assms by (simp add: routeset_def Let_def lookup_cache_route route_addrs_first out_def id16_def)

lemma route_addrs_32: "route_addrs ip 32 = (if ip = -1 then [] else [ip])"
proof -
  have first: "route_first ip 32 = ip"
  proof -
    have neg: "(0xffffffff :: u32) = - 1" by simp
    have "push_bit (nat (32 - 32)) (- 1 :: u32) = - 1" by (simp only: diff_self nat_0 push_bit_0_id id_apply)
    then show ?thesis unfolding route_first_def neg by (simp only: and.right_neutral)
  qed
  have "unat (ip + 1) = (if ip = -1 then 0 else unat ip + 1)"
    using unatSuc[of ip] by (auto simp: add.commute[of ip 1] eq_neg_iff_add_eq_0)
  then show ?thesis
    by (simp add: route_addrs_def first Let_def)
qed

text \<open>
  The routes of a session: those before the first empty one. What leads to the session is its
  address and what its routes cover. A route is proper when its prefix length is between 1 and 32
  and it does not end with the last address of all.
\<close>

definition covers :: "in_addr \<Rightarrow> routet \<Rightarrow> bool" where
  "covers ip rt \<longleftrightarrow> drop_bit (nat (32 - rt_prefixlen rt)) ip = drop_bit (nat (32 - rt_prefixlen rt)) (rt_ip rt)"

definition live :: "sessiont \<Rightarrow> nat list \<Rightarrow> routet list" where
  "live x rs = map (s_route x) (takeWhile (\<lambda>r. rt_ip (s_route x r) \<noteq> 0) rs)"

definition proper_route :: "routet \<Rightarrow> bool" where
  "proper_route rt \<longleftrightarrow> 1 \<le> rt_prefixlen rt \<and> rt_prefixlen rt \<le> 32 \<and>
     route_first (rt_ip rt) (rt_prefixlen rt) + push_bit (nat (32 - rt_prefixlen rt)) 1 \<noteq> 0"

definition session_addrs :: "sessiont \<Rightarrow> in_addr set" where
  "session_addrs x = insert (s_ip x) (\<Union>rt \<in> set (live x [0..<MAXROUTE]). set (route_addrs (rt_ip rt) (rt_prefixlen rt)))"

lemma live_cong: "(\<forall>r \<in> set rs. s_route x r = s_route y r) \<Longrightarrow> live x rs = live y rs"
  unfolding live_def by (induction rs) auto

lemma unroute_loop_effect:
  assumes "g_alloc g" "s \<noteq> 0" "distinct rs" "\<forall>rt \<in> set (live (g_session g s) rs). rt_prefixlen rt \<noteq> 0"
    and "unroute_loop s True rs n g = (g', n')"
  shows "g_alloc g' \<and> s_ip (g_session g' s) = s_ip (g_session g s) \<and>
    s_ip_pool_index (g_session g' s) = s_ip_pool_index (g_session g s) \<and>
    n' = n + length (filter (covers (s_ip (g_session g s))) (live (g_session g s) rs)) \<and>
    (\<forall>a. lookup_ipmap a (g_iphash g') =
      (if a \<in> (\<Union>rt \<in> set (live (g_session g s) rs). set (route_addrs (rt_ip rt) (rt_prefixlen rt))) then 0
       else lookup_ipmap a (g_iphash g)))"
  using assms
proof (induction rs arbitrary: n g)
  case Nil
  then show ?case by (simp add: live_def)
next
  case (Cons r rs)
  let ?rt = "s_route (g_session g s) r"
  show ?case
  proof (cases "rt_ip ?rt = 0")
    case True
    with Cons.prems(5) show ?thesis using Cons.prems(1) by (simp add: live_def)
  next
    case False
    let ?g1 = "routeset s (rt_ip ?rt) (rt_prefixlen ?rt) 0 False g"
    let ?g2 = "upd_session s (\<lambda>x. x\<lparr>s_route := (s_route x)(r := (s_route x r)\<lparr>rt_ip := 0\<rparr>)\<rparr>) ?g1"
    have k: "keeps g ?g1" by (rule keeps_intros)
    have lv: "live (g_session g s) (r # rs) = ?rt # live (g_session g s) rs"
      using False by (simp add: live_def)
    have "live (g_session ?g2 s) rs = live (g_session g s) rs"
      by (rule live_cong) (use Cons.prems(3) k in \<open>auto simp: upd_session_def keeps_def\<close>)
    moreover have "s_ip (g_session ?g2 s) = s_ip (g_session g s)"
      "s_ip_pool_index (g_session ?g2 s) = s_ip_pool_index (g_session g s)" "g_alloc ?g2"
      using k Cons.prems(1) by (auto simp: upd_session_def keeps_def)
    moreover have "lookup_ipmap a (g_iphash ?g2) =
        (if a \<in> set (route_addrs (rt_ip ?rt) (rt_prefixlen ?rt)) then 0 else lookup_ipmap a (g_iphash g))" for a
      using lookup_unset[of g s "rt_prefixlen ?rt" "rt_prefixlen ?rt" a] Cons.prems(1,2,4) lv
      by (simp add: upd_session_def)
    moreover obtain m where m: "m = (if covers (s_ip (g_session g s)) ?rt then n + 1 else n)" by simp
    moreover from Cons.prems(5) False have "unroute_loop s True rs m ?g2 = (g', n')"
      by (simp add: Let_def m covers_def)
    ultimately show ?thesis
      using Cons.IH[of ?g2 m] Cons.prems(2,3,4) unfolding lv by auto
  qed
qed

lemma len32: "LENGTH(32) = 32"
  by simp

lemma covers_addrs:
  assumes "proper_route rt" and "covers ip rt"
  shows "ip \<in> set (route_addrs (rt_ip rt) (rt_prefixlen rt))"
proof -
  let ?x = "rt_ip rt" and ?n = "nat (32 - rt_prefixlen rt)"
  let ?first = "push_bit ?n (drop_bit ?n ?x)"
  let ?k = "unat (take_bit ?n ip)"
  have "1 \<le> rt_prefixlen rt" using assms(1) by (simp add: proper_route_def)
  then have n: "?n < 32" by linarith
  have neg: "(0xffffffff :: u32) = - 1" by simp
  have first: "route_first ?x (rt_prefixlen rt) = ?first"
    unfolding route_first_def neg by (rule bit_eqI) (auto simp only: bit_simps, auto)
  have "unat ?x < 2 ^ 32" using unsigned_less[of ?x] by simp
  then have small: "unat ?x div 2 ^ ?n * 2 ^ ?n < 2 ^ 32"
    by (rule le_less_trans[OF div_times_less_eq_dividend])
  have "(2::nat) ^ ?n < 2 ^ 32" by (rule power_strict_increasing[OF n]) simp
  then have "unat (of_nat (2 ^ ?n) :: u32) = 2 ^ ?n" by (simp only: unat_of_nat len32 mod_less)
  then have pow: "unat (2 ^ ?n :: u32) = 2 ^ ?n" by simp
  have ud: "unat (drop_bit ?n ?x) = unat ?x div 2 ^ ?n"
    unfolding drop_bit_eq_div unat_div_distrib pow ..
  have uf: "unat ?first = unat ?x div 2 ^ ?n * 2 ^ ?n"
    unfolding push_bit_eq_mult unat_word_ariths pow ud len32 by (rule mod_less[OF small])
  have p2: "push_bit ?n 1 = (2 ^ ?n :: u32)" by (simp add: push_bit_eq_mult)
  have nz: "?first + 2 ^ ?n \<noteq> 0" using assms(1) by (simp add: proper_route_def first p2)
  have "unat ?first + 2 ^ ?n \<noteq> 2 ^ 32"
  proof
    assume "unat ?first + 2 ^ ?n = 2 ^ 32"
    then have "unat (?first + 2 ^ ?n) = 0" by (simp add: unat_word_ariths pow)
    with nz show False by (simp only: unat_eq_0)
  qed
  moreover have "unat ?first + 2 ^ ?n \<le> 2 ^ 32"
  proof -
    have e: "(2::nat) ^ 32 = 2 ^ (32 - ?n) * 2 ^ ?n" using n by (simp flip: power_add)
    then have "unat ?x div 2 ^ ?n < 2 ^ (32 - ?n)" using small by (metis mult_less_cancel2)
    then have "(unat ?x div 2 ^ ?n + 1) * 2 ^ ?n \<le> 2 ^ (32 - ?n) * 2 ^ ?n" by (intro mult_le_mono1) simp
    then show ?thesis using e uf by (simp add: algebra_simps)
  qed
  ultimately have "unat (?first + 2 ^ ?n) = unat ?first + 2 ^ ?n"
    by (simp add: unat_word_ariths pow)
  moreover have "?k < 2 ^ ?n"
    unfolding unsigned_take_bit_eq by simp
  ultimately have "?k \<in> set [0..<unat (?first + push_bit ?n 1) - unat ?first]"
    by (simp add: p2)
  moreover have "ip = ?first + of_nat ?k"
  proof -
    have "ip = push_bit ?n (drop_bit ?n ip) + take_bit ?n ip" by (simp only: bits_ident)
    then show ?thesis using assms(2) by (simp add: covers_def)
  qed
  ultimately show ?thesis
    unfolding route_addrs_def Let_def first set_map by blast
qed

lemma shutdown_before:
  obtains d where "g_session (shutdown_die_again s (shutdown_radius s reason tc w (shutdown_die s g))) s =
    (g_session g s)\<lparr>s_die := d\<rparr>"
proof -
  let ?g1 = "shutdown_die s g" and ?g2 = "shutdown_radius s reason tc w (shutdown_die s g)"
  have "g_session ?g2 = g_session ?g1"
    using keeps_shut_radius[of "?g1"] by (simp add: keeps_def)
  moreover obtain d where "g_session ?g1 s = (g_session g s)\<lparr>s_die := d\<rparr>"
  proof (cases "s_die (g_session g s) = 0")
    case True
    with that show ?thesis by (simp add: shutdown_die_def upd_session_def out_def)
  next
    case False
    with that[of "s_die (g_session g s)"] show ?thesis by (simp add: shutdown_die_def)
  qed
  ultimately have "\<exists>d. g_session (shutdown_die_again s ?g2) s = (g_session g s)\<lparr>s_die := d\<rparr>"
    by (auto simp: shutdown_die_again_def upd_session_def)
  then show ?thesis using that by blast
qed

lemma shutdown_ip_addrs:
  assumes "g_alloc g" "s \<noteq> 0" "s_ip (g_session g s) \<noteq> 0" "s_ip (g_session g s) \<noteq> -1"
    and proper: "\<forall>rt \<in> set (live (g_session g s) [0..<MAXROUTE]). proper_route rt"
    and idx: "s_ip_pool_index (g_session g s) = -1 \<or> 0 \<le> s_ip_pool_index (g_session g s)"
  shows "lookup_ipmap a (g_iphash (shutdown_ip s True g)) =
    (if a \<notin> session_addrs (g_session g s) then lookup_ipmap a (g_iphash g)
     else if a = s_ip (g_session g s) \<and> s_ip_pool_index (g_session g s) \<noteq> -1
     then id16 (- s_ip_pool_index (g_session g s)) else 0)"
proof -
  let ?x = "g_session g s"
  obtain g1 n where u: "unroute_loop s True [0..<MAXROUTE] 0 g = (g1, n)" by fastforce
  let ?g2 = "if s_ip_pool_index (g_session g1 s) = -1
             then upd_session s (\<lambda>x. x\<lparr>s_ip := 0\<rparr>)
               (if n = 0 \<and> True then routeset s (s_ip (g_session g1 s)) 0 0 False g1 else g1)
             else free_ip_address s g1"
  have "hash_view (shutdown_ip s True g) = hash_view ?g2"
    unfolding shutdown_ip_def u Let_def prod.case by (simp add: hashview.unset6 hashview.unroute6)
  then have h: "g_iphash (shutdown_ip s True g) = g_iphash ?g2" by (simp add: hash_view_def)
  have "\<forall>rt \<in> set (live ?x [0..<MAXROUTE]). rt_prefixlen rt \<noteq> 0"
    using proper by (auto simp: proper_route_def)
  from unroute_loop_effect[OF assms(1,2) _ this u]
  have g1: "g_alloc g1" "s_ip (g_session g1 s) = s_ip ?x" "s_ip_pool_index (g_session g1 s) = s_ip_pool_index ?x"
    and n: "n = length (filter (covers (s_ip ?x)) (live ?x [0..<MAXROUTE]))"
    and hash: "lookup_ipmap a (g_iphash g1) = (if a \<in> (\<Union>rt \<in> set (live ?x [0..<MAXROUTE]).
        set (route_addrs (rt_ip rt) (rt_prefixlen rt))) then 0 else lookup_ipmap a (g_iphash g))"
    by auto
  show ?thesis
  proof (cases "s_ip_pool_index ?x = -1")
    case False
    then show ?thesis
      using g1 hash idx assms(3) unfolding h
      by (simp add: free_ip_address_def Let_def upd_pool_def upd_session_def lookup_cache_ip session_addrs_def)
  next
    case static: True
    show ?thesis
    proof (cases "n = 0")
      case True
      then show ?thesis
        using static g1 hash assms(2,4) unfolding h
        by (simp add: upd_session_def lookup_unset[OF g1(1) assms(2) refl] route_addrs_32 session_addrs_def)
    next
      case False
      then obtain rt where "rt \<in> set (live ?x [0..<MAXROUTE])" "covers (s_ip ?x) rt"
        using n by (metis filter_False length_0_conv)
      then have "s_ip ?x \<in> (\<Union>rt \<in> set (live ?x [0..<MAXROUTE]). set (route_addrs (rt_ip rt) (rt_prefixlen rt)))"
        using covers_addrs proper by blast
      then show ?thesis
        using False static g1 hash unfolding h by (auto simp: upd_session_def session_addrs_def)
    qed
  qed
qed

lemma pool_index_no_session:
  "0 \<le> i \<Longrightarrow> i \<le> 5536 \<Longrightarrow> id16 (- i) = 0 \<or> MAXSESSION \<le> id16 (- i)"
proof -
  assume "0 \<le> i" "i \<le> 5536"
  then have "i \<noteq> 0 \<Longrightarrow> (- i) mod 65536 = 65536 - i"
    by (simp add: zmod_zminus1_eq_if)
  then show ?thesis
    using \<open>i \<le> 5536\<close> by (cases "i = 0") (simp_all add: id16_def MAXSESSION_def)
qed

text \<open>
  C21: no dangling address, for the sessions this holds of. After a live session that is in no bundle
  and has an address, static or with a pool index of at most 5536, and proper routes, is shut down for
  another reason than a callback, none of the addresses it had, its own and those of its routes, leads
  to any session, and every other address leads to where it did. A freed address is cached with the
  negated index, which as a 16-bit number is no session only up to that index; a member of a bundle
  keeps its addresses while other members are left.
\<close>

theorem sessionshutdown_unmaps:
  fixes g :: l2tpns and s :: sessionidt and tc :: nat
  defines "x \<equiv> g_session g s"
  assumes "g_alloc g" and "s \<noteq> 0" and "s_opened x \<noteq> 0" and "s_bundle x = 0" and "tc \<noteq> TERM_CALLBACK"
    and "s_ip x \<noteq> 0" and "s_ip x \<noteq> -1" and "\<forall>rt \<in> set (live x [0..<MAXROUTE]). proper_route rt"
    and idx: "s_ip_pool_index x = -1 \<or> 0 \<le> s_ip_pool_index x \<and> s_ip_pool_index x \<le> 5536"
  shows "sessionbyip a (sessionshutdown s reason res err tc g) =
    (if a \<in> session_addrs x then 0 else sessionbyip a g)"
proof -
  let ?w = "s_walled_garden x \<noteq> 0"
  let ?b = "shutdown_die_again s (shutdown_radius s reason tc ?w (shutdown_die s g))"
  obtain d where b: "g_session ?b s = x\<lparr>s_die := d\<rparr>"
    unfolding x_def by (rule shutdown_before)
  have addrs: "session_addrs (x\<lparr>s_die := d\<rparr>) = session_addrs x" "live (x\<lparr>s_die := d\<rparr>) rs = live x rs" for rs
    by (simp_all add: session_addrs_def live_def)
  have hb: "g_iphash ?b = g_iphash g" "g_alloc ?b = g_alloc g"
    using hashview.shutdown_before_release[of s reason tc ?w g] by (simp_all add: hash_view_def)
  let ?g' = "sessionshutdown s reason res err tc g"
  have "?g' = cluster_send_session s (shutdown_ppp s (shutdown_filters s (shutdown_cdn s res err (shutdown_throttle s
      (shutdown_release s 0 True tc ?b)))))"
    using assms(4,5) unfolding x_def by (simp add: sessionshutdown_def Let_def)
  moreover have "shutdown_release s 0 True tc ?b = shutdown_ip s True ?b"
    using assms(6,7) b by (simp add: shutdown_release_def shutdown_bundle_def)
  ultimately have "hash_view ?g' = hash_view (shutdown_ip s True ?b)"
    by (simp add: hashview.shutdown_after_release)
  then have h: "g_iphash ?g' = g_iphash (shutdown_ip s True ?b)" by (simp add: hash_view_def)
  have look: "lookup_ipmap a (g_iphash ?g') =
      (if a \<notin> session_addrs x then lookup_ipmap a (g_iphash g)
       else if a = s_ip x \<and> s_ip_pool_index x \<noteq> -1 then id16 (- s_ip_pool_index x) else 0)"
    unfolding h using shutdown_ip_addrs[of ?b s a] assms(2,3,7,8,9) idx hb b addrs by auto
  have "\<forall>i. s_opened (g_session ?g' i) = s_opened (g_session g i)"
    using sframe_shutdown[of s g] by (simp add: sframe_def sess_core_def)
  then show ?thesis
    using look idx pool_index_no_session[of "s_ip_pool_index x"] by (auto simp: sessionbyip_def Let_def)
qed

text \<open>Session 3 with a static address that leads to it.\<close>

definition demo_static :: "l2tpns \<Rightarrow> l2tpns" where
  "demo_static g = g\<lparr>g_alloc := True, g_iphash := cache_ipmap (\<lambda>_. True) 0x0A000005 3 ip_hash_empty,
     g_session := (\<lambda>_. session_zero)(3 := session_zero\<lparr>s_opened := 5, s_ip := 0x0A000005, s_ip_pool_index := -1\<rparr>)\<rparr>"

lemma sessionshutdown_unmaps_witness:
  "\<forall>g. sessionbyip 0x0A000005 (demo_static g) = 3 \<and>
     sessionbyip 0x0A000005 (sessionshutdown 3 ''Timeout'' 3 0 6 (demo_static g)) = 0"
proof
  fix g
  have x: "g_session (demo_static g) 3 = session_zero\<lparr>s_opened := 5, s_ip := 0x0A000005, s_ip_pool_index := -1\<rparr>"
    by (simp add: demo_static_def)
  have l: "live (g_session (demo_static g) 3) [0..<MAXROUTE] = []"
    unfolding x by (simp add: live_def session_zero_def route_zero_def MAXROUTE_def upt_rec)
  have "sessionbyip 0x0A000005 (demo_static g) = 3"
    by (simp add: sessionbyip_def demo_static_def lookup_cache_ipmap id16_def MAXSESSION_def)
  moreover have "sessionbyip 0x0A000005 (sessionshutdown 3 ''Timeout'' 3 0 6 (demo_static g)) = 0"
    by (subst sessionshutdown_unmaps)
      (simp_all add: l, simp_all add: demo_static_def session_zero_def TERM_CALLBACK_def session_addrs_def)
  ultimately show "sessionbyip 0x0A000005 (demo_static g) = 3 \<and>
     sessionbyip 0x0A000005 (sessionshutdown 3 ''Timeout'' 3 0 6 (demo_static g)) = 0" ..
qed

end
