(* ===== verification/ClusterProps.thy ===== *)
theory ClusterProps
  imports ClusterRx SessionEnd
begin

text \<open>
  Properties of the cluster: one master is elected, of two masters one gives up, a heartbeat makes the
  tables of a slave those of the master, and no byte counted by a slave is lost.
\<close>

subsection \<open>The election\<close>

definition am_master :: "l2tpns \<Rightarrow> bool" where
  "am_master g = cf_cluster_iam_master (g_cfg g)"

lemma am_master_changed: "am_master (type_changed ty i g) = am_master g"
  by (simp add: am_master_def type_changed_def cluster_heartbeat_def send_heartbeat_def Let_def out_def upd_cfg_def
      split: prod.split)

interpretation role: untouched am_master
  by unfold_locales
    (simp_all add: am_master_changed,
     simp_all add: am_master_def upd_session_def upd_local_def upd_bundle_def upd_pool_def on_tunnel_def filter_ref_def
       out_def cache_ip6_def split: prod.split)

lemma am_master_upd [simp]:
  "am_master (upd_session i fs g) = am_master g" "am_master (upd_local i fl g) = am_master g"
  "am_master (upd_pool i fp g) = am_master g" "am_master (out e g) = am_master g"
  "am_master (cache_ip a n g) = am_master g" "am_master (throttle_session i ri ro g) = am_master g"
  by (simp_all only: role.session role.session_local role.pool role.throttle, simp_all add: am_master_def out_def cache_ip_def)

lemma am_master_fold: "(\<And>x g. am_master (f x g) = am_master g) \<Longrightarrow> am_master (fold f xs g) = am_master g"
  by (induction xs arbitrary: g) simp_all

lemma am_master_sessions: "am_master (snd (snd (takeover_sessions is lf uid g))) = am_master g"
proof (induction "is" arbitrary: lf uid g)
  case Nil
  then show ?case by simp
next
  case (Cons i "is")
  have "am_master (adopt i g) = am_master g" for g
    by (simp add: adopt_def Let_def) (simp add: am_master_def upd_cfg_def upd_session_def upd_local_def role.throttle[unfolded am_master_def])
  moreover have "am_master (link_free lf i g) = am_master g" for g by (simp add: link_free_def)
  ultimately show ?case using Cons by (simp add: Let_def)
qed

lemma am_master_rebuild: "am_master (rebuild_address_pool g) = am_master g"
proof -
  have "am_master (rebuild_clear i g) = am_master g" "am_master (rebuild_session i g) = am_master g" for i g
    by (simp_all add: rebuild_clear_def rebuild_session_def Let_def)
  then show ?thesis by (simp add: rebuild_address_pool_def am_master_fold)
qed

lemma am_master_become: "am_master (become_master g) = am_master g"
  unfolding become_master_def by (subst am_master_fold) simp_all

lemma takeover_master: "am_master (takeover n g)"
proof -
  define g1 where "g1 = out Garp (upd_cfg (\<lambda>c. c\<lparr>cf_cluster_iam_master := True\<rparr>) g)"
  define g2 where "g2 = (if n < cf_cluster_master_min_adv (g_cfg g1) then advertise_routes g1 else withdraw_routes g1)"
  define g3 where "g3 = (if cf_cluster_seq_number (g_cfg g2) = -1
                then upd_cfg (\<lambda>c. c\<lparr>cf_cluster_seq_number := 0\<rparr>) g2 else g2)"
  define g4 where "g4 = takeover_bundles (takeover_tunnels g3)"
  obtain lf uid g5 where t: "takeover_sessions [0..<MAXSESSION] 0 0
      (upd_cfg (\<lambda>c. c\<lparr>cf_cluster_highest_sessionid := 0\<rparr>) g4) = (lf, uid, g5)"
    by (metis prod_cases3)
  have "am_master g1" by (simp add: g1_def am_master_def out_def upd_cfg_def)
  then have "am_master g2"
    by (simp add: g2_def am_master_def advertise_routes_def withdraw_routes_def out_def)
  then have "am_master g4"
    by (simp add: g4_def g3_def am_master_def takeover_bundles_def takeover_tunnels_def upd_cfg_def Let_def)
  then have "am_master (upd_cfg (\<lambda>c. c\<lparr>cf_cluster_highest_sessionid := 0\<rparr>) g4)"
    by (simp add: am_master_def upd_cfg_def)
  then have "am_master g5" using am_master_sessions[of "[0..<MAXSESSION]" 0 0] t by (metis snd_conv)
  then have "am_master ((upd_session lf (\<lambda>x. x\<lparr>s_next := 0\<rparr>) g5)\<lparr>g_last_id := uid\<rparr>)"
    by (simp add: am_master_def upd_session_def)
  then have "am_master (rebuild_address_pool (become_master
      ((upd_session lf (\<lambda>x. x\<lparr>s_next := 0\<rparr>) g5)\<lparr>g_last_id := uid\<rparr>)))"
    by (simp only: am_master_rebuild am_master_become)
  then show ?thesis
    unfolding takeover_def Let_def g1_def[symmetric] g2_def[symmetric] g3_def[symmetric] g4_def[symmetric] t prod.case
    by (simp add: am_master_def upd_cfg_def)
qed

lemma vote_None: "vote g ps n = None \<longleftrightarrow> (\<exists>p \<in> set ps. peer_alive g p \<and> peer_wins g p)"
  by (induction ps arbitrary: n) auto

text \<open>A node whose master has timed out and that is not shutting down.\<close>

definition contender :: "l2tpns \<Rightarrow> bool" where
  "contender g \<longleftrightarrow> \<not> am_master g \<and> \<not> g_quit g \<and>
     \<not> g_TIME g < cf_cluster_last_hb (g_cfg g) + of_int (cf_cluster_hb_timeout (g_cfg g))"

lemma check_master_elects:
  assumes "contender g"
  shows "am_master (cluster_check_master g) \<longleftrightarrow> \<not> (\<exists>p \<in> set (g_peers g). peer_alive g p \<and> peer_wins g p)"
proof -
  let ?g1 = "probe_master g"
  have p: "g_cfg ?g1 = g_cfg g" "g_TIME ?g1 = g_TIME g" "g_quit ?g1 = g_quit g" "g_peers ?g1 = g_peers g"
    "g_basetime ?g1 = g_basetime g"
    by (simp_all add: probe_master_def Let_def send_lastseen_def out_def)
  define g2 where "g2 = upd_cfg (\<lambda>c. c\<lparr>cf_cluster_last_hb := g_TIME ?g1 + 1, cf_cluster_master_address := 0\<rparr>) ?g1"
  have q: "g_quit g2 = g_quit g" "g_peers g2 = g_peers g" by (simp_all add: g2_def upd_cfg_def p)
  have c: "cluster_check_master g = (case vote g2 (g_peers g2) 0 of None \<Rightarrow> g2 | Some n \<Rightarrow> takeover n g2)"
    unfolding cluster_check_master_def Let_def g2_def[symmetric]
    using assms by (simp add: contender_def am_master_def p q)
  have "peer_alive g2 = peer_alive g" "peer_wins g2 = peer_wins g"
    by (simp_all add: fun_eq_iff peer_alive_def peer_wins_def upd_cfg_def p g2_def)
  then have v: "vote g2 (g_peers g2) 0 = None \<longleftrightarrow> (\<exists>p \<in> set (g_peers g). peer_alive g p \<and> peer_wins g p)"
    by (simp only: vote_None q)
  have "\<not> am_master g2" using assms by (simp add: contender_def am_master_def upd_cfg_def p g2_def)
  then show ?thesis
    unfolding c v[symmetric] by (auto simp: takeover_master split: option.split)
qed

text \<open>The nodes know each other and nobody else.\<close>

definition same_node :: "peert \<Rightarrow> l2tpns \<Rightarrow> bool" where
  "same_node p g \<longleftrightarrow> pe_peer p = cf_my_address (g_cfg g) \<and> pe_basetime p = g_basetime g"

definition acquainted :: "l2tpns set \<Rightarrow> bool" where
  "acquainted gs \<longleftrightarrow> (\<forall>g \<in> gs.
     (\<forall>g' \<in> gs. g' \<noteq> g \<longrightarrow> (\<exists>p \<in> set (g_peers g). peer_alive g p \<and> same_node p g')) \<and>
     (\<forall>p \<in> set (g_peers g). peer_alive g p \<longrightarrow> (\<exists>g' \<in> gs. g' \<noteq> g \<and> same_node p g')))"

text \<open>The order of the nodes: the one that started first, of those the one with the higher address.\<close>

definition rank :: "l2tpns \<Rightarrow> int \<times> int" where
  "rank g = (- uint (g_basetime g), uint (htonl (cf_my_address (g_cfg g))))"

definition outranks :: "l2tpns \<Rightarrow> l2tpns \<Rightarrow> bool" where
  "outranks g g' \<longleftrightarrow> fst (rank g') < fst (rank g) \<or> fst (rank g') = fst (rank g) \<and> snd (rank g') < snd (rank g)"

lemma wins_outranks:
  assumes "same_node p g'"
  shows "peer_wins g p = outranks g' g"
proof -
  have "peer_wins g p \<longleftrightarrow> g_basetime g' < g_basetime g \<or>
      g_basetime g' = g_basetime g \<and> htonl (cf_my_address (g_cfg g)) < htonl (cf_my_address (g_cfg g'))"
    using assms by (simp add: peer_wins_def same_node_def)
  then show ?thesis by (auto simp: outranks_def rank_def word_less_def word_uint_eq_iff)
qed

lemma bit_u8: "8 \<le> m \<Longrightarrow> \<not> bit (a :: u8) m"
  by (auto dest: bit_imp_le_length)

lemma be32_of_le32: "be32 (of_le32 [a, b, c, d]) = [d, c, b, a]"
  by (auto simp: be32_def bit_simps bit_u8 intro!: bit_word_eqI)

lemma htonl_htonl: "htonl (htonl x) = x"
proof -
  obtain a b c d where x: "be32 x = [a, b, c, d]" "le32 x = [d, c, b, a]"
    by (simp add: be32_def le32_def)
  have "htonl (htonl x) = of_le32 [d, c, b, a]" unfolding htonl_def x be32_of_le32 ..
  also have "\<dots> = of_le32 (le32 x @ [])" by (simp add: x)
  finally show ?thesis by (simp only: of_le32_le32)
qed

lemma htonl_inject: "htonl x = htonl y \<Longrightarrow> x = y"
  by (metis htonl_htonl)

lemma outranks_total:
  "cf_my_address (g_cfg g) \<noteq> cf_my_address (g_cfg g') \<Longrightarrow> outranks g g' \<or> outranks g' g"
  unfolding outranks_def rank_def fst_conv snd_conv
  using htonl_inject by (metis linorder_neq_iff word_uint_eq_iff)

lemma best_exists:
  "finite gs \<Longrightarrow> gs \<noteq> {} \<Longrightarrow> \<exists>g \<in> gs. \<forall>g' \<in> gs. \<not> outranks g' g"
proof (induction rule: finite_ne_induct)
  case (singleton g)
  then show ?case by (simp add: outranks_def)
next
  case (insert x F)
  then obtain g where g: "g \<in> F" "\<forall>g' \<in> F. \<not> outranks g' g" by blast
  show ?case
  proof (cases "outranks x g")
    case True
    have "\<not> outranks g' x" if "g' \<in> F" for g'
      using g(2) that True unfolding outranks_def by force
    then show ?thesis using True by (intro bexI[of _ x]) (auto simp: outranks_def)
  next
    case False
    with g show ?thesis by blast
  qed
qed

text \<open>
  C23: the election. When the nodes of a cluster, with different addresses and each knowing exactly
  the others, all find that the master has timed out, then exactly one of them declares itself
  master: the one that started first, and of those that started together the one with the highest
  address.
\<close>

theorem election_unique:
  assumes "finite gs" and "gs \<noteq> {}" and "inj_on (\<lambda>g. cf_my_address (g_cfg g)) gs"
    and "\<forall>g \<in> gs. contender g" and "acquainted gs"
  shows "(\<exists>!g. g \<in> gs \<and> cf_cluster_iam_master (g_cfg (cluster_check_master g))) \<and>
    (\<forall>g \<in> gs. cf_cluster_iam_master (g_cfg (cluster_check_master g)) \<longleftrightarrow>
       (\<forall>g' \<in> gs. g' \<noteq> g \<longrightarrow> outranks g g'))"
proof -
  have total: "outranks g g' \<or> outranks g' g" if "g \<in> gs" "g' \<in> gs" "g' \<noteq> g" for g g'
    using outranks_total that assms(3) by (metis inj_onD)
  have asym: "\<not> (outranks g g' \<and> outranks g' g)" for g g' by (auto simp: outranks_def)
  have elected: "cf_cluster_iam_master (g_cfg (cluster_check_master g)) \<longleftrightarrow>
      \<not> (\<exists>g' \<in> gs. g' \<noteq> g \<and> outranks g' g)" if g: "g \<in> gs" for g
  proof -
    have "contender g" using assms(4) g by blast
    from check_master_elects[OF this] have
      "cf_cluster_iam_master (g_cfg (cluster_check_master g)) \<longleftrightarrow>
        \<not> (\<exists>p \<in> set (g_peers g). peer_alive g p \<and> peer_wins g p)"
      by (simp only: am_master_def)
    moreover have "(\<exists>p \<in> set (g_peers g). peer_alive g p \<and> peer_wins g p) \<longleftrightarrow>
        (\<exists>g' \<in> gs. g' \<noteq> g \<and> outranks g' g)"
    proof
      assume "\<exists>p \<in> set (g_peers g). peer_alive g p \<and> peer_wins g p"
      then obtain p where p: "p \<in> set (g_peers g)" "peer_alive g p" "peer_wins g p" by blast
      then obtain g' where "g' \<in> gs" "g' \<noteq> g" "same_node p g'"
        using assms(5) g unfolding acquainted_def by blast
      with p(3) show "\<exists>g' \<in> gs. g' \<noteq> g \<and> outranks g' g" using wins_outranks by blast
    next
      assume "\<exists>g' \<in> gs. g' \<noteq> g \<and> outranks g' g"
      then obtain g' where g': "g' \<in> gs" "g' \<noteq> g" "outranks g' g" by blast
      then obtain p where "p \<in> set (g_peers g)" "peer_alive g p" "same_node p g'"
        using assms(5) g unfolding acquainted_def by blast
      with g'(3) show "\<exists>p \<in> set (g_peers g). peer_alive g p \<and> peer_wins g p" using wins_outranks by blast
    qed
    ultimately show ?thesis by simp
  qed
  obtain b where b: "b \<in> gs" "\<forall>g' \<in> gs. \<not> outranks g' b"
    using best_exists[OF assms(1,2)] by blast
  have "g = b" if "g \<in> gs" "cf_cluster_iam_master (g_cfg (cluster_check_master g))" for g
  proof (rule ccontr)
    assume "g \<noteq> b"
    then have "outranks g b \<or> outranks b g" using total[OF that(1) b(1)] by simp
    moreover have "\<not> outranks g b" using b(2) that(1) by simp
    moreover have "\<not> outranks b g" using elected[OF that(1)] that(2) b(1) \<open>g \<noteq> b\<close> by auto
    ultimately show False by simp
  qed
  then have "\<exists>!g. g \<in> gs \<and> cf_cluster_iam_master (g_cfg (cluster_check_master g))"
    using b elected by blast
  moreover have "\<not> (\<exists>g' \<in> gs. g' \<noteq> g \<and> outranks g' g) \<longleftrightarrow> (\<forall>g' \<in> gs. g' \<noteq> g \<longrightarrow> outranks g g')"
    if "g \<in> gs" for g
    using total asym that by blast
  ultimately show ?thesis using elected by simp
qed

text \<open>Two nodes, the first of which started earlier.\<close>

definition demo_node :: "in_addr \<Rightarrow> u32 \<Rightarrow> in_addr \<Rightarrow> u32 \<Rightarrow> l2tpns \<Rightarrow> l2tpns" where
  "demo_node a base peer pbase g = g\<lparr>g_basetime := base, g_TIME := 1000, g_quit := False,
     g_peers := [\<lparr>pe_peer = peer, pe_basetime = pbase, pe_timestamp = 990, pe_uptodate = True\<rparr>],
     g_cfg := (g_cfg g)\<lparr>cf_my_address := a, cf_cluster_iam_master := False, cf_cluster_last_hb := 100,
       cf_cluster_hb_timeout := 150\<rparr>\<rparr>"

lemma election_unique_witness:
  "\<forall>g. cf_cluster_iam_master (g_cfg (cluster_check_master (demo_node 1 50 2 60 g))) \<and>
     \<not> cf_cluster_iam_master (g_cfg (cluster_check_master (demo_node 2 60 1 50 g)))"
proof
  fix g
  define a where "a = demo_node 1 50 2 60 g"
  define b where "b = demo_node 2 60 1 50 g"
  have addr: "cf_my_address (g_cfg a) = 1" "cf_my_address (g_cfg b) = 2" and base: "g_basetime a = 50" "g_basetime b = 60"
    by (simp_all add: a_def b_def demo_node_def)
  have ne: "a \<noteq> b" using addr by auto
  have inj: "inj_on (\<lambda>g. cf_my_address (g_cfg g)) {a, b}" using addr by (auto simp: inj_on_def)
  have cont: "\<forall>g \<in> {a, b}. contender g"
    by (simp add: a_def b_def demo_node_def contender_def am_master_def)
  have pa: "\<forall>p \<in> set (g_peers a). peer_alive a p \<and> same_node p b" "g_peers a \<noteq> []"
    and pb: "\<forall>p \<in> set (g_peers b). peer_alive b p \<and> same_node p a" "g_peers b \<noteq> []"
    by (simp_all add: a_def b_def demo_node_def peer_alive_def same_node_def)
  then have acq: "acquainted {a, b}"
    using ne unfolding acquainted_def by (metis insertE insertI1 insertI2 list.set_intros(1) neq_Nil_conv singletonD)
  have E: "\<forall>g \<in> {a, b}. cf_cluster_iam_master (g_cfg (cluster_check_master g)) \<longleftrightarrow>
       (\<forall>g' \<in> {a, b}. g' \<noteq> g \<longrightarrow> outranks g g')"
    by (rule conjunct2[OF election_unique[OF _ _ inj cont acq]]) simp_all
  have "outranks a b" "\<not> outranks b a" by (simp_all add: outranks_def rank_def base)
  then show "cf_cluster_iam_master (g_cfg (cluster_check_master (demo_node 1 50 2 60 g))) \<and>
     \<not> cf_cluster_iam_master (g_cfg (cluster_check_master (demo_node 2 60 1 50 g)))"
    unfolding a_def[symmetric] b_def[symmetric] using bspec[OF E, of a] bspec[OF E, of b] ne by simp
qed

subsection \<open>Two masters\<close>

definition dies :: "l2tpns \<Rightarrow> l2tpns \<Rightarrow> bool" where
  "dies g g' \<longleftrightarrow> ExitProcess \<in> set (drop (length (g_out g)) (g_out g'))"

lemma catchup_survives: "\<not> dies g (cluster_catchup_slave q a g)"
proof -
  have "\<exists>es. g_out (catchup_loop n q a g) = g_out g @ es \<and> ExitProcess \<notin> set es" for n q g
  proof (induction n arbitrary: q g)
    case 0
    then show ?case by simp
  next
    case (Suc n)
    have "\<exists>es. g_out (catchup_loop n q' a g) = g_out g @ es \<and> ExitProcess \<notin> set es" for q' by (rule Suc.IH)
    moreover have "\<exists>es. g_out (catchup_loop n q' a (out (HeartbeatResend a hb) g)) = g_out g @ es \<and>
        ExitProcess \<notin> set es" for q' hb
      using Suc.IH[of q' "out (HeartbeatResend a hb) g"] by (auto simp: out_def)
    ultimately show ?case by (auto split: option.split)
  qed
  then have "ExitProcess \<notin> set (drop (length (g_out g)) (g_out (catchup_loop n q a g)))" for n
    by (metis append_eq_conv_conj)
  then show ?thesis
    by (simp add: dies_def cluster_catchup_slave_def Let_def out_def)
qed

text \<open>The header of the heartbeats a master sends while its tables do not change.\<close>

definition announces :: "l2tpns \<Rightarrow> heartt \<Rightarrow> bool" where
  "announces g h \<longleftrightarrow> hb_clusterid h = cf_bind_address (g_cfg g) \<and> hb_basetime h = g_basetime g \<and>
     hb_table_version h = cf_cluster_table_version (g_cfg g)"

definition prevails :: "l2tpns \<Rightarrow> l2tpns \<Rightarrow> bool" where
  "prevails a b \<longleftrightarrow>
     (let va = cf_cluster_table_version (g_cfg a); vb = cf_cluster_table_version (g_cfg b)
      in va > vb \<or> va = vb \<and> outranks a b)"

lemma prevails_word:
  "prevails b a \<longleftrightarrow>
     cf_cluster_table_version (g_cfg a) < cf_cluster_table_version (g_cfg b) \<or>
     cf_cluster_table_version (g_cfg a) = cf_cluster_table_version (g_cfg b) \<and>
       (g_basetime b < g_basetime a \<or> g_basetime b = g_basetime a \<and>
        htonl (cf_my_address (g_cfg a)) < htonl (cf_my_address (g_cfg b)))"
proof -
  have "outranks b a \<longleftrightarrow> g_basetime b < g_basetime a \<or> g_basetime b = g_basetime a \<and>
      htonl (cf_my_address (g_cfg a)) < htonl (cf_my_address (g_cfg b))"
    by (auto simp: outranks_def rank_def word_less_def word_uint_eq_iff)
  then show ?thesis unfolding prevails_def Let_def by (simp add: eq_commute)
qed

lemma outranks_asym: "outranks g g' \<Longrightarrow> \<not> outranks g' g"
  by (auto simp: outranks_def)

lemma prevails_total:
  assumes "cf_my_address (g_cfg a) \<noteq> cf_my_address (g_cfg b)"
  shows "prevails a b \<longleftrightarrow> \<not> prevails b a"
proof (cases "cf_cluster_table_version (g_cfg a) = cf_cluster_table_version (g_cfg b)")
  case True
  have "outranks a b \<longleftrightarrow> \<not> outranks b a"
    using outranks_total[OF assms] outranks_asym by blast
  with True show ?thesis by (simp add: prevails_def Let_def)
next
  case False
  then show ?thesis by (auto simp: prevails_def Let_def)
qed

lemma other_master_dies:
  assumes "am_master a" and "announces b (hb_head hb)" and "g_basetime b \<noteq> 0"
    and "cf_bind_address (g_cfg b) = cf_bind_address (g_cfg a)" and "5 \<le> ver" "ver \<le> HB_VERSION"
    and "addr = cf_my_address (g_cfg b)"
  shows "dies a (cluster_process_heartbeat ver hb addr a) \<longleftrightarrow> prevails b a"
proof -
  let ?va = "cf_cluster_table_version (g_cfg a)" and ?vb = "cf_cluster_table_version (g_cfg b)"
  have "cluster_process_heartbeat ver hb addr a = other_master (hb_head hb) addr a"
    using assms by (simp add: cluster_process_heartbeat_def Let_def am_master_def announces_def)
  also have "\<dots> = (if ?vb > ?va then out ExitProcess a else if ?vb < ?va then a
      else if g_basetime a > g_basetime b then out ExitProcess a else if g_basetime a < g_basetime b then a
      else if htonl (cf_my_address (g_cfg a)) < htonl (cf_my_address (g_cfg b)) then out ExitProcess a
      else cluster_catchup_slave (cf_cluster_seq_number (g_cfg a) - 1) addr a)"
    using assms(2,3,7) by (simp add: other_master_def announces_def)
  finally have eq: "cluster_process_heartbeat ver hb addr a = \<dots>" .
  have d: "dies a (out ExitProcess a)" "\<not> dies a a" by (simp_all add: dies_def out_def)
  show ?thesis
    unfolding eq prevails_word using d catchup_survives[of a] by auto
qed

text \<open>
  C24: no two masters. When two masters of a cluster, at different addresses, receive each other's
  heartbeat, exactly one of the two processes ends: the one that has seen fewer changes of the
  tables, and with equally many the one that would have lost an election.
\<close>

theorem two_masters_one_dies:
  assumes "am_master a" and "am_master b" and "announces a (hb_head ha)" and "announces b (hb_head hb)"
    and "cf_bind_address (g_cfg a) = cf_bind_address (g_cfg b)"
    and "cf_my_address (g_cfg a) \<noteq> cf_my_address (g_cfg b)" and "g_basetime a \<noteq> 0" and "g_basetime b \<noteq> 0"
    and "a' = cluster_process_heartbeat HB_VERSION hb (cf_my_address (g_cfg b)) a"
    and "b' = cluster_process_heartbeat HB_VERSION ha (cf_my_address (g_cfg a)) b"
  shows "dies a a' \<noteq> dies b b' \<and> (dies a a' \<longleftrightarrow> prevails b a)"
proof -
  have ver: "5 \<le> HB_VERSION" "HB_VERSION \<le> HB_VERSION" by (simp_all add: HB_VERSION_def)
  have "dies a a' \<longleftrightarrow> prevails b a"
    unfolding assms(9) by (rule other_master_dies[OF assms(1,4,8) assms(5)[symmetric] ver refl])
  moreover have "dies b b' \<longleftrightarrow> prevails a b"
    unfolding assms(10) by (rule other_master_dies[OF assms(2,3,7,5) ver refl])
  moreover have "prevails a b \<longleftrightarrow> \<not> prevails b a"
    by (rule prevails_total[OF assms(6)])
  ultimately show ?thesis by blast
qed

definition demo_master :: "in_addr \<Rightarrow> u32 \<Rightarrow> nat \<Rightarrow> l2tpns \<Rightarrow> l2tpns" where
  "demo_master a base v g = g\<lparr>g_basetime := base,
     g_cfg := (g_cfg g)\<lparr>cf_my_address := a, cf_bind_address := 9, cf_cluster_iam_master := True,
       cf_cluster_table_version := v\<rparr>\<rparr>"

definition demo_head :: "u32 \<Rightarrow> nat \<Rightarrow> heartbeat" where
  "demo_head base v = \<lparr>hb_head = \<lparr>hb_seq = 0, hb_basetime = base, hb_clusterid = 9, hb_highsession = 0,
     hb_freesession = 0, hb_highbundle = 0, hb_hightunnel = 0, hb_interval = 5, hb_timeout = 150,
     hb_table_version = v\<rparr>, hb_recs = []\<rparr>"

lemma two_masters_one_dies_witness:
  "\<forall>g. dies (demo_master 1 50 7 g) (cluster_process_heartbeat HB_VERSION (demo_head 60 8) 2 (demo_master 1 50 7 g)) \<and>
     \<not> dies (demo_master 2 60 8 g) (cluster_process_heartbeat HB_VERSION (demo_head 50 7) 1 (demo_master 2 60 8 g))"
proof
  fix g
  define a where "a = demo_master 1 50 7 g"
  define b where "b = demo_master 2 60 8 g"
  have m: "am_master a" "am_master b" "announces a (hb_head (demo_head 50 7))" "announces b (hb_head (demo_head 60 8))"
    "cf_my_address (g_cfg a) = 1" "cf_my_address (g_cfg b) = 2" "g_basetime a = 50" "g_basetime b = 60"
    "cf_bind_address (g_cfg a) = cf_bind_address (g_cfg b)" "prevails b a"
    by (simp_all add: a_def b_def demo_master_def demo_head_def am_master_def announces_def prevails_def)
  show "dies (demo_master 1 50 7 g) (cluster_process_heartbeat HB_VERSION (demo_head 60 8) 2 (demo_master 1 50 7 g)) \<and>
     \<not> dies (demo_master 2 60 8 g) (cluster_process_heartbeat HB_VERSION (demo_head 50 7) 1 (demo_master 2 60 8 g))"
    unfolding a_def[symmetric] b_def[symmetric]
    using two_masters_one_dies[OF m(1-4,9) _ _ _ refl refl] m by auto
qed

subsection \<open>Byte counters\<close>

text \<open>A counter with its wraps is one 64-bit counter.\<close>

definition total :: "u32 \<Rightarrow> u32 \<Rightarrow> nat" where
  "total c w = unat c + 2 ^ 32 * unat w"

lemma wrap_sum:
  "x < M \<Longrightarrow> y < M \<Longrightarrow> (x + y) mod M = (if M \<le> x + y then x + y - M else x + (y :: nat))"
  by (simp add: mod_if)

lemma increment_total:
  "(c', w') = increment_counter c w d \<Longrightarrow> total c' w' mod 2 ^ 64 = (total c w + unat d) mod 2 ^ 64"
proof -
  assume a: "(c', w') = increment_counter c w d"
  have b: "unat c < 2 ^ 32" "unat d < 2 ^ 32" using unsigned_less[of c] unsigned_less[of d] by (simp_all only: len32)
  have cd: "unat (c + d) = (if 2 ^ 32 \<le> unat c + unat d then unat c + unat d - 2 ^ 32 else unat c + unat d)"
    using unat_word_ariths(1)[of c d] unfolding len32 wrap_sum[OF b] .
  moreover have "c' = c + d" using a by (simp add: increment_counter_def Let_def)
  ultimately have c': "unat c' = (if 2 ^ 32 \<le> unat c + unat d then unat c + unat d - 2 ^ 32 else unat c + unat d)"
    by (simp only:)
  have lt: "c + d < c \<longleftrightarrow> 2 ^ 32 \<le> unat c + unat d"
    unfolding word_less_nat_alt cd using b by auto
  show ?thesis
  proof (cases "c + d < c")
    case False
    then have "w' = w" using a by (simp add: increment_counter_def Let_def)
    with False lt c' have "total c' w' = total c w + unat d" by (simp add: total_def)
    then show ?thesis by (simp only:)
  next
    case True
    then have w': "w' = w + 1" using a by (simp add: increment_counter_def Let_def)
    have sum: "unat c' + 2 ^ 32 = unat c + unat d"
      using True lt c' by simp
    have w1: "unat (w + 1) = (unat w + 1) mod 2 ^ 32"
      using unat_word_ariths(1)[of w 1] by (simp only: len32 unsigned_1)
    have "(2::nat) ^ 64 = 2 ^ 32 * 2 ^ 32" by simp
    then have m: "2 ^ 32 * unat (w + 1) = (2 ^ 32 * (unat w + 1)) mod 2 ^ 64"
      unfolding w1 by (simp only: mult_mod_right)
    have "total c' w' mod 2 ^ 64 = (unat c' + 2 ^ 32 * (unat w + 1)) mod 2 ^ 64"
      unfolding total_def w' m by (rule mod_add_right_eq)
    also have "unat c' + 2 ^ 32 * (unat w + 1) = total c w + unat d"
      using sum by (simp add: total_def)
    finally show ?thesis .
  qed
qed

text \<open>What is counted for a session: by the master, and not yet reported by the slave.\<close>

definition cin_total :: "l2tpns \<Rightarrow> nat \<Rightarrow> nat" where
  "cin_total g s = total (s_cin (g_session g s)) (s_cin_wrap (g_session g s))"

definition cout_total :: "l2tpns \<Rightarrow> nat \<Rightarrow> nat" where
  "cout_total g s = total (s_cout (g_session g s)) (s_cout_wrap (g_session g s))"

definition reported :: "(nat \<times> u32 \<times> u32 \<times> u32 \<times> u32) list \<Rightarrow> nat \<Rightarrow> nat \<times> nat" where
  "reported b s = (\<Sum>(i, pin, pout, cin, cout) \<leftarrow> b. if i = s then unat cin else 0,
                   \<Sum>(i, pin, pout, cin, cout) \<leftarrow> b. if i = s then unat cout else 0)"

lemma add_bytes_totals:
  assumes "x' = add_bytes pin pout cin cout x"
  shows "total (s_cin x') (s_cin_wrap x') mod 2 ^ 64 = (total (s_cin x) (s_cin_wrap x) + unat cin) mod 2 ^ 64"
    and "total (s_cout x') (s_cout_wrap x') mod 2 ^ 64 = (total (s_cout x) (s_cout_wrap x) + unat cout) mod 2 ^ 64"
proof -
  have "(s_cin x', s_cin_wrap x') = increment_counter (s_cin x) (s_cin_wrap x) cin"
    "(s_cout x', s_cout_wrap x') = increment_counter (s_cout x) (s_cout_wrap x) cout"
    by (simp_all add: assms add_bytes_def split: prod.split)
  from this[THEN increment_total]
  show "total (s_cin x') (s_cin_wrap x') mod 2 ^ 64 = (total (s_cin x) (s_cin_wrap x) + unat cin) mod 2 ^ 64"
    "total (s_cout x') (s_cout_wrap x') mod 2 ^ 64 = (total (s_cout x) (s_cout_wrap x) + unat cout) mod 2 ^ 64" .
qed

lemma mod_chain:
  "a' mod M = (a + x) mod M \<Longrightarrow> b' mod M = (a' + y) mod M \<Longrightarrow> b' mod M = (a + (x + y)) mod (M :: nat)"
  by (metis add.assoc mod_add_left_eq)

lemma handle_bytes_totals:
  assumes "\<forall>e \<in> set b. fst e \<le> MAXSESSION"
  shows "cin_total (cluster_handle_bytes b g) s mod 2 ^ 64 = (cin_total g s + fst (reported b s)) mod 2 ^ 64 \<and>
    cout_total (cluster_handle_bytes b g) s mod 2 ^ 64 = (cout_total g s + snd (reported b s)) mod 2 ^ 64"
  using assms
proof (induction b arbitrary: g)
  case Nil
  then show ?case by (simp add: reported_def)
next
  case (Cons e b)
  obtain i pin pout cin cout where e: "e = (i, pin, pout, cin, cout)" by (cases e)
  let ?f = "\<lambda>x. let y = add_bytes pin pout cin cout x
           in if cin \<noteq> 0 then y\<lparr>s_last_packet := g_time_now g, s_last_data := g_time_now g\<rparr>
              else if cout \<noteq> 0 then y\<lparr>s_last_data := g_time_now g\<rparr> else y"
  let ?g = "upd_session i ?f g"
  have g': "cluster_handle_bytes (e # b) g = cluster_handle_bytes b ?g"
    using Cons.prems by (simp add: e)
  have f: "s_cin (?f x) = s_cin (add_bytes pin pout cin cout x)"
    "s_cin_wrap (?f x) = s_cin_wrap (add_bytes pin pout cin cout x)"
    "s_cout (?f x) = s_cout (add_bytes pin pout cin cout x)"
    "s_cout_wrap (?f x) = s_cout_wrap (add_bytes pin pout cin cout x)" for x
    by (simp_all add: Let_def)
  have u: "cin_total ?g s mod 2 ^ 64 = (cin_total g s + (if i = s then unat cin else 0)) mod 2 ^ 64"
    "cout_total ?g s mod 2 ^ 64 = (cout_total g s + (if i = s then unat cout else 0)) mod 2 ^ 64"
    using add_bytes_totals[OF refl, of pin pout cin cout "g_session g i"]
    by (auto simp: cin_total_def cout_total_def upd_session_def f simp del: power_numeral)
  have r: "reported (e # b) s = ((if i = s then unat cin else 0) + fst (reported b s),
      (if i = s then unat cout else 0) + snd (reported b s))"
    by (simp add: reported_def e)
  have ih: "cin_total (cluster_handle_bytes b ?g) s mod 2 ^ 64 = (cin_total ?g s + fst (reported b s)) mod 2 ^ 64"
    "cout_total (cluster_handle_bytes b ?g) s mod 2 ^ 64 = (cout_total ?g s + snd (reported b s)) mod 2 ^ 64"
    using Cons.IH[of ?g] Cons.prems by auto
  show ?case
    unfolding g' r fst_conv snd_conv using mod_chain[OF u(1) ih(1)] mod_chain[OF u(2) ih(2)] by (rule conjI)
qed

lemma counts_loop_keeps:
  assumes "counts_loop n b g = (g', b')"
  shows "\<exists>b2. b' = b @ b2 \<and>
    fst (reported b2 s) + unat (l_cin (g_local g' s)) = unat (l_cin (g_local g s)) \<and>
    snd (reported b2 s) + unat (l_cout (g_local g' s)) = unat (l_cout (g_local g s)) \<and>
    (\<forall>e \<in> set b2. fst e \<le> max 1 (cf_cluster_highest_sessionid (g_cfg g)))"
  using assms
proof (induction n arbitrary: b g)
  case 0
  then show ?case by (simp add: reported_def)
next
  case (Suc n)
  define w where "w = (if g_walk_session g + 1 > cf_cluster_highest_sessionid (g_cfg g) then 1 else g_walk_session g + 1)"
  define g1 where "g1 = g\<lparr>g_walk_session := w\<rparr>"
  define l where "l = g_local g1 w"
  define g2 where "g2 = upd_local w (\<lambda>l. l\<lparr>l_pin := 0, l_pout := 0, l_cin := 0, l_cout := 0\<rparr>) g1"
  define e where "e = (w, l_pin l, l_pout l, l_cin l, l_cout l)"
  have w: "w \<le> max 1 (cf_cluster_highest_sessionid (g_cfg g))" by (simp add: w_def)
  have step: "counts_loop (Suc n) b g = (if l_cin l = 0 \<and> l_cout l = 0 then counts_loop n b g1
      else if length (b @ [e]) > MAX_B_RECS then (g2, b @ [e]) else counts_loop n (b @ [e]) g2)"
    unfolding counts_loop.simps(2) Let_def w_def[symmetric] g1_def[symmetric] l_def[symmetric] g2_def[symmetric]
      e_def[symmetric] ..
  have same: "g_local g1 = g_local g" "g_cfg g1 = g_cfg g" "g_cfg g2 = g_cfg g"
    by (simp_all add: g1_def g2_def upd_local_def)
  have l2: "(if w = s then unat (l_cin l) else 0) + unat (l_cin (g_local g2 s)) = unat (l_cin (g_local g s))"
    "(if w = s then unat (l_cout l) else 0) + unat (l_cout (g_local g2 s)) = unat (l_cout (g_local g s))"
    by (auto simp: g2_def upd_local_def l_def g1_def)
  have re: "reported (e # b2) s = ((if w = s then unat (l_cin l) else 0) + fst (reported b2 s),
      (if w = s then unat (l_cout l) else 0) + snd (reported b2 s))" for b2
    by (simp add: reported_def e_def)
  have p: "(if l_cin l = 0 \<and> l_cout l = 0 then counts_loop n b g1
      else if length (b @ [e]) > MAX_B_RECS then (g2, b @ [e]) else counts_loop n (b @ [e]) g2) = (g', b')"
    using Suc.prems unfolding step .
  consider "l_cin l = 0 \<and> l_cout l = 0" | "\<not> (l_cin l = 0 \<and> l_cout l = 0)" "length (b @ [e]) > MAX_B_RECS"
    | "\<not> (l_cin l = 0 \<and> l_cout l = 0)" "\<not> length (b @ [e]) > MAX_B_RECS" by blast
  then show ?case
  proof cases
    case 1
    then have "counts_loop n b g1 = (g', b')" using p by simp
    from Suc.IH[OF this] show ?thesis unfolding same .
  next
    case 2
    then have "g' = g2" "b' = b @ [e]" using p by (auto split: if_splits)
    then show ?thesis using re[of "[]"] l2 w by (intro exI[of _ "[e]"]) (auto simp: e_def reported_def)
  next
    case 3
    have "counts_loop n (b @ [e]) g2 = (g', b')"
      using p unfolding if_not_P[OF 3(1)] if_not_P[OF 3(2)] .
    from Suc.IH[OF this] obtain b2 where b2: "b' = (b @ [e]) @ b2"
        "fst (reported b2 s) + unat (l_cin (g_local g' s)) = unat (l_cin (g_local g2 s))"
        "snd (reported b2 s) + unat (l_cout (g_local g' s)) = unat (l_cout (g_local g2 s))"
        "\<forall>e \<in> set b2. fst e \<le> max 1 (cf_cluster_highest_sessionid (g_cfg g))"
      unfolding same by blast
    then show ?thesis using re[of b2] l2 w by (intro exI[of _ "e # b2"]) (auto simp: e_def)
  qed
qed

text \<open>
  C25: no byte is lost between slave and master. What a slave reports and its master adds, together
  with what the slave keeps, is what both had counted before, for every session, as a 64-bit
  counter; the report has valid session numbers and at most 601 entries.
\<close>

theorem byte_counters_conserved:
  assumes "cf_cluster_highest_sessionid (g_cfg slave) \<le> MAXSESSION"
    and "counts_loop n [] slave = (slave', b)" and "master' = cluster_handle_bytes b master"
  shows "(cin_total master' s + unat (l_cin (g_local slave' s))) mod 2 ^ 64 =
      (cin_total master s + unat (l_cin (g_local slave s))) mod 2 ^ 64 \<and>
    (cout_total master' s + unat (l_cout (g_local slave' s))) mod 2 ^ 64 =
      (cout_total master s + unat (l_cout (g_local slave s))) mod 2 ^ 64 \<and>
    (\<forall>e \<in> set b. fst e \<le> MAXSESSION)"
proof -
  have k: "fst (reported b s) + unat (l_cin (g_local slave' s)) = unat (l_cin (g_local slave s))"
    "snd (reported b s) + unat (l_cout (g_local slave' s)) = unat (l_cout (g_local slave s))"
    "\<forall>e \<in> set b. fst e \<le> max 1 (cf_cluster_highest_sessionid (g_cfg slave))"
    using counts_loop_keeps[OF assms(2), of s] by auto
  have ids: "\<forall>e \<in> set b. fst e \<le> MAXSESSION"
    using k(3) assms(1) by (fastforce simp: MAXSESSION_def)
  have h: "cin_total master' s mod 2 ^ 64 = (cin_total master s + fst (reported b s)) mod 2 ^ 64"
    "cout_total master' s mod 2 ^ 64 = (cout_total master s + snd (reported b s)) mod 2 ^ 64"
    using handle_bytes_totals[OF ids, of master s] unfolding assms(3) by auto
  show ?thesis
    using ids mod_chain[OF h(1), of _ "unat (l_cin (g_local slave' s))"]
      mod_chain[OF h(2), of _ "unat (l_cout (g_local slave' s))"] unfolding k by (simp only: mod_add_left_eq)
qed

lemma byte_counters_conserved_witness:
  "\<forall>g. \<exists>b slave'. counts_loop 1 [] (g\<lparr>g_walk_session := 2, g_cfg := (g_cfg g)\<lparr>cf_cluster_highest_sessionid := 3\<rparr>,
        g_local := (\<lambda>_. local_zero)(3 := local_zero\<lparr>l_cin := 70\<rparr>)\<rparr>) = (slave', b) \<and>
     cin_total (cluster_handle_bytes b (g\<lparr>g_session := (\<lambda>_. session_zero\<lparr>s_cin := 0xffffffff\<rparr>)\<rparr>)) 3 mod 2 ^ 64 = 4294967365"
proof
  fix g :: l2tpns
  define slave where "slave = g\<lparr>g_walk_session := 2, g_cfg := (g_cfg g)\<lparr>cf_cluster_highest_sessionid := 3\<rparr>,
        g_local := (\<lambda>_. local_zero)(3 := local_zero\<lparr>l_cin := 70\<rparr>)\<rparr>"
  obtain slave' b where b: "counts_loop 1 [] slave = (slave', b)" by fastforce
  then have z: "l_cin (g_local slave' 3) = 0"
    by (simp add: slave_def Let_def upd_local_def MAX_B_RECS_def) (auto simp: local_zero_def)
  have "cf_cluster_highest_sessionid (g_cfg slave) \<le> MAXSESSION" by (simp add: slave_def MAXSESSION_def)
  from byte_counters_conserved[OF this b refl, of "g\<lparr>g_session := (\<lambda>_. session_zero\<lparr>s_cin := 0xffffffff\<rparr>)\<rparr>" 3] z
  have "cin_total (cluster_handle_bytes b (g\<lparr>g_session := (\<lambda>_. session_zero\<lparr>s_cin := 0xffffffff\<rparr>)\<rparr>)) 3 mod 2 ^ 64 =
      (4294967295 + 70) mod 2 ^ 64"
    by (simp add: cin_total_def total_def session_zero_def slave_def)
  then show "\<exists>b slave'. counts_loop 1 [] (g\<lparr>g_walk_session := 2,
        g_cfg := (g_cfg g)\<lparr>cf_cluster_highest_sessionid := 3\<rparr>,
        g_local := (\<lambda>_. local_zero)(3 := local_zero\<lparr>l_cin := 70\<rparr>)\<rparr>) = (slave', b) \<and>
     cin_total (cluster_handle_bytes b (g\<lparr>g_session := (\<lambda>_. session_zero\<lparr>s_cin := 0xffffffff\<rparr>)\<rparr>)) 3 mod 2 ^ 64 = 4294967365"
    using b unfolding slave_def by auto
qed

end
