(* ===== verification/ClusterRepl.thy ===== *)
theory ClusterRepl
  imports ClusterProps
begin

text \<open>
  Replication: receiving a heartbeat is applying its records to the tables, and a slave that differs
  from its master only in what the master has queued is equal to it after the next heartbeat.
\<close>

subsection \<open>What loading a session touches\<close>

text \<open>The tables of the cluster, and what else receiving a record depends on or keeps.\<close>

type_synonym tables = "(nat \<Rightarrow> sessiont) \<times> (nat \<Rightarrow> bundlet) \<times> (nat \<Rightarrow> tunnelt)"

definition tables :: "l2tpns \<Rightarrow> tables" where
  "tables g = (g_session g, g_bundle g, g_tunnel g)"

definition settings :: "l2tpns \<Rightarrow> (nat \<Rightarrow> string) \<times> nat \<times> bool \<times> int" where
  "settings g = ((\<lambda>i. fi_name (g_filters g i)), g_sessionfree g, cf_cluster_iam_uptodate (g_cfg g),
     cf_cluster_seq_number (g_cfg g))"

definition slave_view :: "l2tpns \<Rightarrow> tables \<times> (nat \<Rightarrow> string) \<times> nat \<times> bool \<times> int" where
  "slave_view g = (tables g, settings g)"

lemmas view_defs = slave_view_def tables_def settings_def

interpretation slaveview: untouched_routes slave_view
  by unfold_locales (simp_all add: view_defs out_def cache_ip_def cache_ip6_def)

lemma slave_view_basic:
  "slave_view (filter_ref f d g) = slave_view g" "slave_view (upd_pool i fp g) = slave_view g"
  "slave_view (upd_cfg (\<lambda>c. c\<lparr>cf_cluster_highest_sessionid := h\<rparr>) g) = slave_view g"
  by (auto simp: view_defs filter_ref_def upd_pool_def upd_cfg_def)

lemma slave_view_change_routes: "slave_view (fst (change_routes s ad ip rts n g)) = slave_view g"
  by (induction rts arbitrary: n g) (simp_all add: Let_def slaveview.set_route)

lemma slave_view_routes6:
  "slave_view (unset_routes6 s rts g) = slave_view g" "slave_view (set_routes6 s rts g) = slave_view g"
  by (induction rts arbitrary: g) (simp_all add: slaveview.set_route6)

lemma slave_view_unload: "slave_view (unload_routes s x g) = slave_view g"
proof -
  obtain g1 n where c: "change_routes s False (s_ip x) (routes_of x) 0 g = (g1, n)" by fastforce
  then have "slave_view g1 = slave_view g" using slave_view_change_routes[of s False "s_ip x" "routes_of x" 0 g] by simp
  then show ?thesis
    by (simp add: unload_routes_def c Let_def slaveview.set_route slaveview.set_route6 slaveview.route_cache slave_view_routes6)
qed

lemma slave_view_load: "slave_view (load_routes s x g) = slave_view g"
proof -
  obtain g1 n where c: "change_routes s True (s_ip x) (routes_of x) 0 g = (g1, n)" by fastforce
  then have "slave_view g1 = slave_view g" using slave_view_change_routes[of s True "s_ip x" "routes_of x" 0 g] by simp
  then show ?thesis
    by (simp add: load_routes_def c Let_def slaveview.set_route slaveview.route_cache)
qed

lemma slave_view_rest:
  "slave_view (load_ipv6 s x g) = slave_view g" "slave_view (load_filter o' n g) = slave_view g"
  "slave_view (fix_address_pool s g) = slave_view g"
  by (simp_all add: load_ipv6_def load_filter_def fix_address_pool_def Let_def slaveview.set_route6 slave_view_routes6
      slave_view_basic)

definition sane :: "l2tpns \<Rightarrow> sessiont \<Rightarrow> bool" where
  "sane g x \<longleftrightarrow> s_ip_pool_index x < int MAXIPPOOL \<and> s_tunnel x < MAXTUNNEL \<and>
     valid_filter (s_filter_in x) g = s_filter_in x \<and> valid_filter (s_filter_out x) g = s_filter_out x"

lemma sane_view: "slave_view g' = slave_view g \<Longrightarrow> sane g' x = sane g x"
  by (simp add: sane_def valid_filter_def view_defs fun_eq_iff)

lemma load_session_view:
  assumes "sane g x"
  shows "slave_view (load_session s x g) = slave_view (upd_session s (\<lambda>_. x) g)"
proof -
  define g1 where "g1 = upd_session s (\<lambda>y. y\<lparr>s_tunnel := s_tunnel x\<rparr>) g"
  define old where "old = g_session g1 s"
  define g2 where "g2 = (if s_ip x \<noteq> s_ip old \<or> routes_differ (routes_of old) (routes_of x)
             then load_routes s x (unload_routes s old g1) else g1)"
  define g3 where "g3 = load_ipv6 s x g2"
  have v3: "slave_view g3 = slave_view g1"
    by (simp add: g3_def g2_def slave_view_rest slave_view_load slave_view_unload)
  have vf: "valid_filter f g3 = valid_filter f g" for f
    using v3 by (simp add: valid_filter_def view_defs fun_eq_iff upd_session_def g1_def)
  have x: "x\<lparr>s_filter_in := valid_filter (s_filter_in x) g3, s_filter_out := valid_filter (s_filter_out x) g3\<rparr> = x"
    using assms by (simp add: vf sane_def)
  define g4 where "g4 = load_filter (s_filter_out (g_session g3 s)) (s_filter_out x)
                   (load_filter (s_filter_in (g_session g3 s)) (s_filter_in x) g3)"
  define g5 where "g5 = (if s_tunnel x \<noteq> 0 \<and> s > cf_cluster_highest_sessionid (g_cfg g4)
                  then upd_cfg (\<lambda>c. c\<lparr>cf_cluster_highest_sessionid := s\<rparr>) g4 else g4)"
  have v5: "slave_view g5 = slave_view g1"
    using v3 by (simp add: g5_def g4_def slave_view_basic slave_view_rest)
  have l: "load_session s x g = (if s_ip_pool_index x \<noteq> -1 then fix_address_pool s (upd_session s (\<lambda>_. x) g5)
      else upd_session s (\<lambda>_. x) g5)"
    using assms unfolding load_session_def Let_def g1_def[symmetric] old_def[symmetric] g2_def[symmetric]
      g3_def[symmetric] x g4_def[symmetric] g5_def[symmetric]
    by (simp add: sane_def)
  have "slave_view (load_session s x g) = slave_view (upd_session s (\<lambda>_. x) g5)"
    unfolding l by (simp add: slave_view_rest)
  also have "\<dots> = slave_view (upd_session s (\<lambda>_. x) g)"
    using v5 by (simp add: view_defs upd_session_def fun_eq_iff g1_def)
  finally show ?thesis .
qed

subsection \<open>Applying records\<close>

text \<open>What a record does to the tables; a slave holds no control messages.\<close>

definition no_controls :: "tunnelt \<Rightarrow> tunnelt" where
  "no_controls x = x\<lparr>t_controls := [], t_controlc := 0\<rparr>"

fun apply_rec :: "hb_rec \<Rightarrow> tables \<Rightarrow> tables" where
  "apply_rec (HbSession i x) (ss, bs, ts) = (if i < MAXSESSION then ss(i := x) else ss, bs, ts)"
| "apply_rec (HbBundle i x) (ss, bs, ts) = (ss, if i < MAXBUNDLE then bs(i := x) else bs, ts)"
| "apply_rec (HbTunnel i x) (ss, bs, ts) = (ss, bs, if i < MAXTUNNEL then ts(i := no_controls x) else ts)"

definition rec_ok :: "l2tpns \<Rightarrow> hb_rec \<Rightarrow> bool" where
  "rec_ok g r = (case r of HbSession i x \<Rightarrow> sane g x | _ \<Rightarrow> True)"

lemma sane_settings: "settings g' = settings g \<Longrightarrow> sane g' x = sane g x"
  by (simp add: sane_def valid_filter_def settings_def fun_eq_iff)

lemma recv_rec_view:
  assumes "cf_cluster_iam_uptodate (g_cfg g)" and "rec_ok g r"
  shows "slave_view (recv_rec r g) = (apply_rec r (tables g), settings g)"
proof (cases r)
  case (HbSession i x)
  have n: "now_defined u fd g = g" for u fd using assms(1) by (simp add: now_defined_def)
  have v: "slave_view (load_session i x g) = slave_view (upd_session i (\<lambda>_. x) g)"
    using assms(2) by (intro load_session_view) (simp add: rec_ok_def HbSession)
  then have "cluster_uptodate (load_session i x g) = load_session i x g"
    using assms(1) by (simp add: cluster_uptodate_def view_defs upd_session_def)
  then show ?thesis
    using v assms(1)
    by (simp add: HbSession recv_rec_def cluster_recv_session_def n view_defs upd_session_def)
next
  case (HbBundle i x)
  then show ?thesis
    using assms(1) by (simp add: recv_rec_def cluster_recv_bundle_def now_defined_def cluster_uptodate_def view_defs upd_bundle_def)
next
  case (HbTunnel i x)
  then show ?thesis
    using assms(1) by (simp add: recv_rec_def cluster_recv_tunnel_def now_defined_def cluster_uptodate_def view_defs
        upd_tunnel_def no_controls_def)
qed

lemma recv_recs_view:
  assumes "cf_cluster_iam_uptodate (g_cfg g)" and "\<forall>r \<in> set rs. rec_ok g r"
  shows "slave_view (fold recv_rec rs g) = (fold apply_rec rs (tables g), settings g)"
  using assms
proof (induction rs arbitrary: g)
  case Nil
  then show ?case by (simp add: slave_view_def)
next
  case (Cons r rs)
  then have r: "tables (recv_rec r g) = apply_rec r (tables g)" "settings (recv_rec r g) = settings g"
    using recv_rec_view[of g r] by (auto simp: slave_view_def)
  then have "cf_cluster_iam_uptodate (g_cfg (recv_rec r g))" using Cons.prems(1) by (simp add: settings_def)
  moreover have "\<forall>r' \<in> set rs. rec_ok (recv_rec r g) r'"
    using Cons.prems(2) sane_settings[OF r(2)] by (auto simp: rec_ok_def split: hb_rec.splits)
  ultimately show ?case using Cons.IH[of "recv_rec r g"] r by simp
qed

subsection \<open>A heartbeat at a slave\<close>

text \<open>A slave that is up to date and expects this heartbeat from this node.\<close>

definition expects :: "heartbeat \<Rightarrow> in_addr \<Rightarrow> l2tpns \<Rightarrow> bool" where
  "expects hb addr g \<longleftrightarrow> \<not> am_master g \<and> cf_cluster_iam_uptodate (g_cfg g) \<and>
     hb_clusterid (hb_head hb) = cf_bind_address (g_cfg g) \<and>
     cf_cluster_master_address (g_cfg g) \<in> {0, addr} \<and> cf_cluster_seq_number (g_cfg g) \<in> {-1, hb_seq (hb_head hb)}"

lemma process_heartbeat_tables:
  assumes "expects hb addr g" and "\<forall>r \<in> set (hb_recs hb). rec_ok g r"
  defines "g' \<equiv> cluster_process_heartbeat HB_VERSION hb addr g"
  shows "tables g' = fold apply_rec (hb_recs hb) (tables g) \<and> g_sessionfree g' = hb_freesession (hb_head hb) \<and>
    cf_cluster_seq_number (g_cfg g') = (hb_seq (hb_head hb) + 1) mod HB_MAX_SEQ \<and>
    cf_cluster_master_address (g_cfg g') = addr \<and> cf_cluster_last_hb (g_cfg g') = g_TIME g'"
proof -
  let ?h = "hb_head hb"
  define g1 where "g1 = upd_cfg (\<lambda>c. c\<lparr>
      cf_cluster_seq_number := (if cf_cluster_seq_number c = -1 then hb_seq ?h else cf_cluster_seq_number c),
      cf_cluster_last_hb := g_TIME g, cf_cluster_last_hb_ver := HB_VERSION\<rparr>) g"
  have seq: "cf_cluster_seq_number (g_cfg g1) = hb_seq ?h"
    using assms(1) by (auto simp: g1_def upd_cfg_def expects_def)
  have "g' = accept_heartbeat hb addr g1"
    using assms(1) seq unfolding g'_def cluster_process_heartbeat_def Let_def g1_def[symmetric]
    by (auto simp: HB_VERSION_def expects_def am_master_def)
  moreover define g2 where "g2 = (upd_cfg (\<lambda>c. c\<lparr>cf_cluster_seq_number := (hb_seq ?h + 1) mod HB_MAX_SEQ\<rparr>) g1)
      \<lparr>g_past_hearts := (g_past_hearts g1)(nat (hb_seq ?h mod HB_HISTORY_SIZE) := Some (hb_seq ?h, hb))\<rparr>"
  moreover have "cluster_check_sessions a b c d g2 = g2\<lparr>g_sessionfree := b\<rparr>" for a b c d
    using assms(1) by (simp add: cluster_check_sessions_def Let_def g2_def g1_def upd_cfg_def expects_def)
  moreover define g3 where "g3 = upd_cfg (\<lambda>c. c\<lparr>cf_cluster_hb_interval := hb_interval ?h, cf_cluster_hb_timeout := hb_timeout ?h\<rparr>)
      (g2\<lparr>g_sessionfree := hb_freesession ?h\<rparr>)"
  ultimately have g': "g' = upd_cfg (\<lambda>c. c\<lparr>cf_cluster_master_address := addr,
      cf_cluster_last_hb := g_TIME (fold recv_rec (hb_recs hb) g3), cf_cluster_table_version := hb_table_version ?h\<rparr>)
      (fold recv_rec (hb_recs hb) g3)"
    unfolding accept_heartbeat_def Let_def by (simp only:)
  have v: "tables g3 = tables g" "cf_cluster_iam_uptodate (g_cfg g3)"
    "g_sessionfree g3 = hb_freesession ?h" "cf_cluster_seq_number (g_cfg g3) = (hb_seq ?h + 1) mod HB_MAX_SEQ"
    "(\<lambda>i. fi_name (g_filters g3 i)) = (\<lambda>i. fi_name (g_filters g i))"
    using assms(1) by (simp_all add: tables_def g3_def g2_def g1_def upd_cfg_def expects_def)
  have "sane g3 x = sane g x" for x using v(5) by (simp add: sane_def valid_filter_def fun_eq_iff)
  then have "\<forall>r \<in> set (hb_recs hb). rec_ok g3 r"
    using assms(2) by (auto simp: rec_ok_def split: hb_rec.splits)
  from recv_recs_view[OF v(2) this] show ?thesis
    unfolding g' using v by (simp add: view_defs upd_cfg_def)
qed

subsection \<open>The heartbeat of a master\<close>

definition heartbeat_of :: "l2tpns \<Rightarrow> heartbeat \<Rightarrow> bool" where
  "heartbeat_of g hb \<longleftrightarrow> hb_clusterid (hb_head hb) = cf_bind_address (g_cfg g) \<and>
     hb_freesession (hb_head hb) = g_sessionfree g \<and> hb_seq (hb_head hb) = cf_cluster_seq_number (g_cfg g) \<and>
     (\<exists>cs. hb_recs hb = map (hb_record g) cs \<and> set (g_changes g) \<subseteq> set cs)"

lemma hb_walk_records: "fst (snd (hb_walk room mk sz high n w used)) \<in> range (map mk)"
proof (induction n arbitrary: w used)
  case 0
  then show ?case by simp
next
  case (Suc n)
  obtain u rs w' where r: "hb_walk room mk sz high n ((1 + (if w = 0 then 1 else w)) mod (high + 1))
      (used + sz (mk (if w = 0 then 1 else w))) = (u, rs, w')" by (metis prod_cases3)
  then obtain ids where "rs = map mk ids"
    using Suc.IH[of "(1 + (if w = 0 then 1 else w)) mod (high + 1)" "used + sz (mk (if w = 0 then 1 else w))"] by auto
  then have "mk (if w = 0 then 1 else w) # rs = map mk ((if w = 0 then 1 else w) # ids)" by simp
  then have "mk (if w = 0 then 1 else w) # rs \<in> range (map mk)" by (rule range_eqI)
  then show ?case using r by (simp add: Let_def)
qed

lemma hb_walk_map: "hb_walk room mk sz high n w used = (u, rs, w') \<Longrightarrow> \<exists>ids. rs = map mk ids"
  using hb_walk_records[of room mk sz high n w used] by auto

lemma cluster_heartbeat_of:
  assumes "abi_ok (g_abi g)" and "am_master g" and "length (g_changes g) \<le> max_changes (g_abi g) + 1"
  shows "\<exists>hb. heartbeat_of g hb \<and> g_out (cluster_heartbeat g) = g_out g @ [HeartbeatTx hb] \<and>
    tables (cluster_heartbeat g) = tables g \<and> g_sessionfree (cluster_heartbeat g) = g_sessionfree g \<and>
    g_changes (cluster_heartbeat g) = [] \<and>
    cf_cluster_seq_number (g_cfg (cluster_heartbeat g)) = (cf_cluster_seq_number (g_cfg g) + 1) mod HB_MAX_SEQ"
proof -
  let ?c = "g_cfg g" and ?a = "g_abi g"
  let ?used = "HB_HEAD_SIZE + sum_list (map (a_rec ?a) (map (hb_record g) (g_changes g)))"
  obtain u1 r1 ws where 1: "hb_walk (\<lambda>p. p + 8 + 2 * a_sessiont ?a < MAX_HEART_SIZE) (\<lambda>i. HbSession i (g_session g i))
      (a_rec ?a) (cf_cluster_highest_sessionid ?c) (cf_cluster_highest_sessionid ?c) (g_walk_session g) ?used
      = (u1, r1, ws)" by (metis prod_cases3)
  obtain u2 r2 wt where 2: "hb_walk (\<lambda>p. p + 8 + a_tunnelt ?a < MAX_HEART_SIZE) (\<lambda>i. HbTunnel i (g_tunnel g i))
      (a_rec ?a) (cf_cluster_highest_tunnelid ?c) (cf_cluster_highest_tunnelid ?c) (g_walk_tunnel g) u1
      = (u2, r2, wt)" by (metis prod_cases3)
  obtain u3 r3 wb where 3: "hb_walk (\<lambda>p. p + 8 + a_bundlet ?a < MAX_HEART_SIZE) (\<lambda>i. HbBundle i (g_bundle g i))
      (a_rec ?a) (cf_cluster_highest_bundleid ?c) (cf_cluster_highest_bundleid ?c) (g_walk_bundle g) u2
      = (u3, r3, wb)" by (metis prod_cases3)
  obtain i1 where "r1 = map (\<lambda>i. HbSession i (g_session g i)) i1"
    using hb_walk_map[OF 1] by blast
  then have r1: "r1 = map (hb_record g) (map (Pair C_CSESSION) i1)" by (simp add: hb_record_def)
  obtain i2 where "r2 = map (\<lambda>i. HbTunnel i (g_tunnel g i)) i2"
    using hb_walk_map[OF 2] by blast
  then have r2: "r2 = map (hb_record g) (map (Pair C_CTUNNEL) i2)" by (simp add: hb_record_def)
  obtain i3 where "r3 = map (\<lambda>i. HbBundle i (g_bundle g i)) i3"
    using hb_walk_map[OF 3] by blast
  then have r3: "r3 = map (hb_record g) (map (Pair C_CBUNDLE) i3)" by (simp add: hb_record_def)
  obtain hb rest g1 where hb: "hb_seq (hb_head hb) = cf_cluster_seq_number ?c"
    and eq: "cluster_heartbeat g = g1\<lparr>g_changes := [], g_out := g_out g @ [HeartbeatTx hb],
      g_past_hearts := (g_past_hearts g)(nat (cf_cluster_seq_number ?c mod HB_HISTORY_SIZE) :=
        Some (cf_cluster_seq_number ?c, hb))\<rparr>"
    and seq: "cf_cluster_seq_number (g_cfg g1) = (cf_cluster_seq_number ?c + 1) mod HB_MAX_SEQ"
    using cluster_heartbeat_sends[OF assms(1) assms(2)[unfolded am_master_def] assms(3)] by metis
  have last: "List.last (g_out (cluster_heartbeat g)) = HeartbeatTx hb" by (simp add: eq)
  have sent: "\<not> ?used > MAX_HEART_SIZE + 132 \<and> \<not> u3 > MAX_HEART_SIZE + 132 \<and> \<not> u3 > MAX_HEART_SIZE"
  proof (rule ccontr)
    assume "\<not> ?thesis"
    then have "List.last (g_out (cluster_heartbeat g)) = ExitProcess"
      using assms(2) by (auto simp: cluster_heartbeat_def am_master_def Let_def 1 2 3 send_heartbeat_def out_def upd_cfg_def
          simp del: map_map)
    with last show False by simp
  qed
  have hb_eq: "hb_recs hb = map (hb_record g) (g_changes g) @ r1 @ r2 @ r3"
    "hb_clusterid (hb_head hb) = cf_bind_address ?c" "hb_freesession (hb_head hb) = g_sessionfree g"
    using last sent assms(2)
    by (auto simp: cluster_heartbeat_def am_master_def Let_def 1 2 3 send_heartbeat_def out_def upd_cfg_def simp del: map_map)
  have "heartbeat_of g hb"
    unfolding heartbeat_of_def hb_eq(1) r1 r2 r3 using hb hb_eq(2,3)
    by (intro conjI exI[of _ "g_changes g @ map (Pair C_CSESSION) i1 @ map (Pair C_CTUNNEL) i2 @ map (Pair C_CBUNDLE) i3"])
      auto
  moreover have "tables (cluster_heartbeat g) = tables g \<and> g_sessionfree (cluster_heartbeat g) = g_sessionfree g"
    by (simp add: cluster_heartbeat_def Let_def send_heartbeat_def out_def upd_cfg_def tables_def split: prod.split)
  ultimately show ?thesis using eq seq by (intro exI[of _ hb]) simp
qed

text \<open>Applying records of a master's tables makes the named entries equal to the master's.\<close>

definition copies :: "l2tpns \<Rightarrow> (change_type \<times> nat) set \<Rightarrow> tables \<Rightarrow> tables \<Rightarrow> bool" where
  "copies m cs t t' \<longleftrightarrow> (case (t, t') of ((ss, bs, ts), (ss', bs', ts')) \<Rightarrow>
     (\<forall>i < MAXSESSION. ss' i = (if (C_CSESSION, i) \<in> cs then g_session m i else ss i)) \<and>
     (\<forall>i < MAXBUNDLE. bs' i = (if (C_CBUNDLE, i) \<in> cs then g_bundle m i else bs i)) \<and>
     (\<forall>i < MAXTUNNEL. ts' i = (if (C_CTUNNEL, i) \<in> cs then no_controls (g_tunnel m i) else ts i)))"

lemma apply_copies: "copies m (set cs) t (fold apply_rec (map (hb_record m) cs) t)"
proof (induction cs rule: rev_induct)
  case Nil
  then show ?case by (cases t) (simp add: copies_def)
next
  case (snoc c cs)
  obtain ss bs ts where t: "t = (ss, bs, ts)" by (cases t)
  obtain ss' bs' ts' where f: "fold apply_rec (map (hb_record m) cs) t = (ss', bs', ts')" by (metis prod_cases3)
  show ?case
  proof (cases c)
    case (Pair ty i)
    then show ?thesis
      using snoc f by (cases ty) (auto simp: copies_def t hb_record_def)
  qed
qed

text \<open>The slave agrees with the master on all entries but those in \<open>cs\<close>.\<close>

definition replica :: "l2tpns \<Rightarrow> (change_type \<times> nat) set \<Rightarrow> l2tpns \<Rightarrow> bool" where
  "replica m cs s \<longleftrightarrow>
     (\<forall>i < MAXSESSION. (C_CSESSION, i) \<notin> cs \<longrightarrow> g_session s i = g_session m i) \<and>
     (\<forall>i < MAXBUNDLE. (C_CBUNDLE, i) \<notin> cs \<longrightarrow> g_bundle s i = g_bundle m i) \<and>
     (\<forall>i < MAXTUNNEL. (C_CTUNNEL, i) \<notin> cs \<longrightarrow> g_tunnel s i = no_controls (g_tunnel m i))"

text \<open>
  C22: replication. If a slave that is up to date differs from its master at most in the entries the
  master has queued, then the heartbeat the master sends next makes all their sessions, bundles and
  tunnels (without the control messages waiting) equal, with the list of free sessions and the
  sequence number, and leaves the queue empty. The master's sessions must be ones the slave accepts: a
  pool index and a tunnel number in range, and filters that the slave knows.
\<close>

theorem heartbeat_replicates:
  assumes "abi_ok (g_abi m)" and "am_master m" and "length (g_changes m) \<le> max_changes (g_abi m) + 1"
    and "replica m (set (g_changes m)) s" and "\<forall>i. sane s (g_session m i)"
    and "\<not> am_master s" and "cf_cluster_iam_uptodate (g_cfg s)"
    and "cf_bind_address (g_cfg s) = cf_bind_address (g_cfg m)"
    and "cf_cluster_master_address (g_cfg s) \<in> {0, addr}"
    and "cf_cluster_seq_number (g_cfg s) = cf_cluster_seq_number (g_cfg m)"
    and "m' = cluster_heartbeat m"
  shows "\<exists>hb. g_out m' = g_out m @ [HeartbeatTx hb] \<and>
    (let s' = cluster_process_heartbeat HB_VERSION hb addr s
     in replica m' {} s' \<and> g_sessionfree s' = g_sessionfree m' \<and>
        cf_cluster_seq_number (g_cfg s') = cf_cluster_seq_number (g_cfg m') \<and> g_changes m' = [])"
proof -
  obtain hb where hb: "heartbeat_of m hb" "g_out m' = g_out m @ [HeartbeatTx hb]" "tables m' = tables m"
      "g_sessionfree m' = g_sessionfree m" "g_changes m' = []"
      "cf_cluster_seq_number (g_cfg m') = (cf_cluster_seq_number (g_cfg m) + 1) mod HB_MAX_SEQ"
    using cluster_heartbeat_of[OF assms(1-3)] unfolding assms(11) by blast
  obtain cs where cs: "hb_recs hb = map (hb_record m) cs" "set (g_changes m) \<subseteq> set cs"
    using hb(1) unfolding heartbeat_of_def by blast
  let ?s' = "cluster_process_heartbeat HB_VERSION hb addr s"
  have ok: "\<forall>r \<in> set (hb_recs hb). rec_ok s r"
    using assms(5) by (auto simp: cs(1) hb_record_def rec_ok_def split: change_type.splits)
  have ex: "expects hb addr s"
    using hb(1) assms(6-10) by (simp add: expects_def heartbeat_of_def)
  note P = process_heartbeat_tables[OF ex ok]
  have "copies m (set cs) (tables s) (tables ?s')"
    using P apply_copies[of m cs "tables s"] unfolding cs(1) by simp
  then have "replica m' {} ?s'"
    using assms(4) cs(2) hb(3) unfolding copies_def replica_def tables_def prod.case prod.inject
    by (metis subsetD)
  then show ?thesis
    using P hb by (intro exI[of _ hb]) (simp add: Let_def heartbeat_of_def)
qed

text \<open>Two nodes with empty tables; the master has opened session 3.\<close>

definition demo_cluster :: "l2tpns \<Rightarrow> l2tpns" where
  "demo_cluster g = g\<lparr>g_abi := \<lparr>a_sessiont = 800, a_bundlet = 200, a_tunnelt = 400, a_rec = (\<lambda>_. 100)\<rparr>,
     g_session := (\<lambda>_. session_zero), g_bundle := (\<lambda>_. bundle_zero), g_tunnel := (\<lambda>_. tunnel_zero), g_changes := [],
     g_cfg := (g_cfg g)\<lparr>cf_cluster_iam_master := False, cf_cluster_iam_uptodate := True, cf_bind_address := 9,
       cf_cluster_master_address := 1, cf_cluster_seq_number := 6\<rparr>\<rparr>"

definition demo_change :: "l2tpns \<Rightarrow> l2tpns" where
  "demo_change g = g\<lparr>g_cfg := (g_cfg g)\<lparr>cf_cluster_iam_master := True\<rparr>, g_changes := [(C_CSESSION, 3)],
     g_session := (g_session g)(3 := session_zero\<lparr>s_opened := 77\<rparr>)\<rparr>"

lemma heartbeat_replicates_witness:
  "\<forall>g. \<exists>hb. g_out (cluster_heartbeat (demo_change (demo_cluster g))) = g_out g @ [HeartbeatTx hb] \<and>
     s_opened (g_session (demo_cluster g) 3) = 0 \<and>
     s_opened (g_session (cluster_process_heartbeat HB_VERSION hb 1 (demo_cluster g)) 3) = 77"
proof
  fix g
  define s where "s = demo_cluster g"
  define m where "m = demo_change s"
  have abi: "abi_ok (g_abi m)" by (simp add: abi_ok_def m_def demo_change_def s_def demo_cluster_def)
  have mm: "am_master m" "\<not> am_master s" "cf_cluster_iam_uptodate (g_cfg s)"
    "cf_bind_address (g_cfg s) = cf_bind_address (g_cfg m)" "cf_cluster_master_address (g_cfg s) \<in> {0, 1}"
    "cf_cluster_seq_number (g_cfg s) = cf_cluster_seq_number (g_cfg m)"
    by (simp_all add: m_def demo_change_def s_def demo_cluster_def am_master_def)
  have len: "length (g_changes m) \<le> max_changes (g_abi m) + 1"
    by (simp add: m_def demo_change_def)
  have rep: "replica m (set (g_changes m)) s"
    by (simp add: replica_def m_def demo_change_def s_def demo_cluster_def no_controls_def tunnel_zero_def)
  have sane: "\<forall>i. sane s (g_session m i)"
    by (simp add: sane_def m_def demo_change_def s_def demo_cluster_def session_zero_def valid_filter_def
        MAXIPPOOL_def MAXTUNNEL_def)
  obtain hb where hb: "g_out (cluster_heartbeat m) = g_out m @ [HeartbeatTx hb]"
      "replica (cluster_heartbeat m) {} (cluster_process_heartbeat HB_VERSION hb 1 s)"
    using heartbeat_replicates[OF abi mm(1) len rep sane mm(2-6) refl] unfolding Let_def by blast
  have "tables (cluster_heartbeat m) = tables m"
    by (simp add: cluster_heartbeat_def Let_def send_heartbeat_def out_def upd_cfg_def tables_def split: prod.split)
  then have "s_opened (g_session (cluster_heartbeat m) 3) = 77"
    by (simp add: tables_def) (simp add: m_def demo_change_def)
  moreover have "(3::nat) < MAXSESSION" by (simp add: MAXSESSION_def)
  ultimately have "s_opened (g_session (cluster_process_heartbeat HB_VERSION hb 1 s) 3) = 77"
    using hb(2) unfolding replica_def by simp
  moreover have "g_out m = g_out g" "s_opened (g_session s 3) = 0"
    by (simp_all add: m_def demo_change_def s_def demo_cluster_def session_zero_def)
  ultimately show "\<exists>hb. g_out (cluster_heartbeat (demo_change (demo_cluster g))) = g_out g @ [HeartbeatTx hb] \<and>
     s_opened (g_session (demo_cluster g) 3) = 0 \<and>
     s_opened (g_session (cluster_process_heartbeat HB_VERSION hb 1 (demo_cluster g)) 3) = 77"
    using hb(1) unfolding m_def s_def by auto
qed

end
