(* ===== verification/Ll.thy ===== *)
theory Ll
  imports Prelude "HOL-Library.Monad_Syntax"
begin

text \<open>
  The singly linked lists of \<^verbatim>\<open>src/ll.c\<close>, which hold the plugins and their hooks, on an explicit heap,
  and the abstract queue with a cursor that they implement.
\<close>

subsection \<open>Operations\<close>

text \<open>
  A pointer is a number, NULL is 0. The heap maps the address of a live \<open>li\<close> to its contents; using
  any other address is undefined in C and is the value None here, as is a loop that does not end.
\<close>

record li =
  li_data :: nat
  li_next :: nat

record linked_list =
  ll_head :: nat
  ll_end :: nat
  ll_current :: nat

type_synonym li_heap = "nat \<Rightarrow> li option"
type_synonym ll_state = "linked_list \<times> li_heap"

definition ll_init :: linked_list where
  "ll_init = \<lparr>ll_head = 0, ll_end = 0, ll_current = 0\<rparr>"

partial_function (option) ll_done :: "nat \<Rightarrow> li_heap \<Rightarrow> li_heap option" where
  "ll_done i h =
     (if i = 0 then Some h
      else do { x \<leftarrow> h i; ll_done (li_next x) (h(i := None)) })"

text \<open>\<open>i\<close> is what \<open>calloc\<close> returns.\<close>

definition ll_push :: "nat \<Rightarrow> nat \<Rightarrow> ll_state \<Rightarrow> (nat \<times> ll_state) option" where
  "ll_push i d s =
     (let (l, h) = s in
      if i = 0 then Some (0, s)
      else
        let h1 = h(i \<mapsto> \<lparr>li_data = d, li_next = 0\<rparr>) in
        if ll_end l \<noteq> 0
        then do { e \<leftarrow> h1 (ll_end l); Some (i, l\<lparr>ll_end := i\<rparr>, h1(ll_end l \<mapsto> e\<lparr>li_next := i\<rparr>)) }
        else Some (i, l\<lparr>ll_head := i, ll_end := i\<rparr>, h1))"

definition ll_pop :: "ll_state \<Rightarrow> (nat \<times> ll_state) option" where
  "ll_pop s =
     (let (l, h) = s in
      if ll_head l = 0 then Some (0, s)
      else do { x \<leftarrow> h (ll_head l); Some (li_data x, l\<lparr>ll_head := li_next x\<rparr>, h(ll_head l := None)) })"

text \<open>\<open>func\<close> is the callback's answer; the result lists the data it was called with.\<close>

partial_function (option) iterate_loop :: "(nat \<Rightarrow> bool) \<Rightarrow> nat \<Rightarrow> li_heap \<Rightarrow> nat list option" where
  "iterate_loop func i h =
     (if i = 0 then Some []
      else do {
        x \<leftarrow> h i;
        if li_data x = 0 then iterate_loop func (li_next x) h
        else if \<not> func (li_data x) then Some [li_data x]
        else do { ds \<leftarrow> iterate_loop func (li_next x) h; Some (li_data x # ds) } })"

definition ll_iterate :: "(nat \<Rightarrow> bool) \<Rightarrow> ll_state \<Rightarrow> nat list option" where
  "ll_iterate func s = iterate_loop func (ll_head (fst s)) (snd s)"

definition ll_reset :: "ll_state \<Rightarrow> ll_state" where
  "ll_reset s = (let (l, h) = s in (l\<lparr>ll_current := 0\<rparr>, h))"

definition ll_next :: "ll_state \<Rightarrow> (nat \<times> ll_state) option" where
  "ll_next s =
     (let (l, h) = s in do {
        c \<leftarrow> (if ll_current l = 0 then Some (ll_head l) else map_option li_next (h (ll_current l)));
        if c = 0 then Some (0, l\<lparr>ll_current := c\<rparr>, h)
        else do { x \<leftarrow> h c; Some (li_data x, l\<lparr>ll_current := c\<rparr>, h) } })"

text \<open>The node \<open>i\<close> after \<open>p\<close> is taken out.\<close>

definition unlink :: "nat \<Rightarrow> nat \<Rightarrow> nat \<Rightarrow> ll_state \<Rightarrow> ll_state option" where
  "unlink i p nxt s =
     (let (l, h) = s;
          l1 = (if ll_head l = i then l\<lparr>ll_head := nxt\<rparr> else l);
          l2 = (if ll_end l1 = i then l1\<lparr>ll_end := p\<rparr> else l1)
      in do {
        h1 \<leftarrow> (if p = 0 then Some h else do { y \<leftarrow> h p; Some (h(p \<mapsto> y\<lparr>li_next := nxt\<rparr>)) });
        Some (l2\<lparr>ll_current := 0\<rparr>, h1(i := None)) })"

partial_function (option) delete_loop :: "nat \<Rightarrow> nat \<Rightarrow> nat \<Rightarrow> ll_state \<Rightarrow> ll_state option" where
  "delete_loop d i p s =
     (if i = 0 then Some s
      else do {
        x \<leftarrow> snd s i;
        if li_data x = d then unlink i p (li_next x) s else delete_loop d (li_next x) i s })"

definition ll_delete :: "nat \<Rightarrow> ll_state \<Rightarrow> ll_state option" where
  "ll_delete d s = delete_loop d (ll_head (fst s)) 0 s"

partial_function (option) size_loop :: "nat \<Rightarrow> nat \<Rightarrow> li_heap \<Rightarrow> nat option" where
  "size_loop count i h =
     (if i = 0 then Some count
      else do { x \<leftarrow> h i; size_loop (if li_data x \<noteq> 0 then count + 1 else count) (li_next x) h })"

definition ll_size :: "ll_state \<Rightarrow> nat option" where
  "ll_size s = size_loop 0 (ll_head (fst s)) (snd s)"

partial_function (option) contains_loop :: "nat \<Rightarrow> nat \<Rightarrow> li_heap \<Rightarrow> bool option" where
  "contains_loop search i h =
     (if i = 0 then Some False
      else do { x \<leftarrow> h i; if li_data x = search then Some True else contains_loop search (li_next x) h })"

definition ll_contains :: "nat \<Rightarrow> ll_state \<Rightarrow> bool option" where
  "ll_contains search s = contains_loop search (ll_head (fst s)) (snd s)"

declare ll_done.simps [simp del] iterate_loop.simps [simp del] delete_loop.simps [simp del]
  size_loop.simps [simp del] contains_loop.simps [simp del]

subsection \<open>The abstract queue\<close>

text \<open>The data in order and the position of the cursor, if it is on an element.\<close>

type_synonym queue = "nat list \<times> nat option"

datatype ll_op =
  Push bool nat
| Pop
| Next
| Reset
| Delete nat
| Iterate "nat \<Rightarrow> bool"
| Size
| Contains nat

datatype ll_result = Nothing | Answer bool | Data nat | Count nat | Visited "nat list"

fun visits :: "(nat \<Rightarrow> bool) \<Rightarrow> nat list \<Rightarrow> nat list" where
  "visits f [] = []"
| "visits f (d # ds) = (if d = 0 then visits f ds else if \<not> f d then [d] else d # visits f ds)"

text \<open>
  The boolean of \<open>Push\<close> says whether there is memory. \<open>Pop\<close> is specified for an empty queue and while
  another element stays and the cursor is not on the first one: \<open>ll_pop\<close> leaves \<open>end\<close> on the only node of
  a list and \<open>current\<close> on the first one although it frees them. The daemon itself never pops.
\<close>

fun spec_step :: "ll_op \<Rightarrow> queue \<Rightarrow> (ll_result \<times> queue) option" where
  "spec_step (Push ok d) (ds, c) = Some (Answer ok, if ok then ds @ [d] else ds, c)"
| "spec_step Pop (ds, c) =
     (if ds = [] then Some (Data 0, ds, c)
      else if 2 \<le> length ds \<and> c \<noteq> Some 0 then Some (Data (hd ds), tl ds, map_option (\<lambda>k. k - 1) c)
      else None)"
| "spec_step Next (ds, c) =
     (let k = (case c of None \<Rightarrow> 0 | Some i \<Rightarrow> i + 1)
      in if k < length ds then Some (Data (ds ! k), ds, Some k) else Some (Data 0, ds, None))"
| "spec_step Reset (ds, c) = Some (Nothing, ds, None)"
| "spec_step (Delete d) (ds, c) = Some (Nothing, if d \<in> set ds then (remove1 d ds, None) else (ds, c))"
| "spec_step (Iterate f) (ds, c) = Some (Visited (visits f ds), ds, c)"
| "spec_step Size (ds, c) = Some (Count (length (filter (\<lambda>d. d \<noteq> 0) ds)), ds, c)"
| "spec_step (Contains d) (ds, c) = Some (Answer (d \<in> set ds), ds, c)"

fun ll_step :: "(li_heap \<Rightarrow> nat) \<Rightarrow> ll_op \<Rightarrow> ll_state \<Rightarrow> (ll_result \<times> ll_state) option" where
  "ll_step calloc (Push ok d) s =
     map_option (\<lambda>(i, s'). (Answer (i \<noteq> 0), s')) (ll_push (if ok then calloc (snd s) else 0) d s)"
| "ll_step calloc Pop s = map_option (\<lambda>(d, s'). (Data d, s')) (ll_pop s)"
| "ll_step calloc Next s = map_option (\<lambda>(d, s'). (Data d, s')) (ll_next s)"
| "ll_step calloc Reset s = Some (Nothing, ll_reset s)"
| "ll_step calloc (Delete d) s = map_option (\<lambda>s'. (Nothing, s')) (ll_delete d s)"
| "ll_step calloc (Iterate f) s = map_option (\<lambda>ds. (Visited ds, s)) (ll_iterate f s)"
| "ll_step calloc Size s = map_option (\<lambda>n. (Count n, s)) (ll_size s)"
| "ll_step calloc (Contains d) s = map_option (\<lambda>b. (Answer b, s)) (ll_contains d s)"

fun run_ops :: "('o \<Rightarrow> 's \<Rightarrow> ('r \<times> 's) option) \<Rightarrow> 'o list \<Rightarrow> 's \<Rightarrow> ('r list \<times> 's) option" where
  "run_ops f [] s = Some ([], s)"
| "run_ops f (op # ops) s =
     do { (r, s1) \<leftarrow> f op s; (rs, s2) \<leftarrow> run_ops f ops s1; Some (r # rs, s2) }"


subsection \<open>Lists in the heap\<close>

text \<open>The nodes from \<open>p\<close> up to \<open>q\<close>, as addresses with their data.\<close>

fun seg :: "li_heap \<Rightarrow> nat \<Rightarrow> (nat \<times> nat) list \<Rightarrow> nat \<Rightarrow> bool" where
  "seg h p [] q \<longleftrightarrow> p = q"
| "seg h p (x # xs) q \<longleftrightarrow>
     p = fst x \<and> p \<noteq> 0 \<and> (\<exists>n. h p = Some \<lparr>li_data = snd x, li_next = n\<rparr> \<and> seg h n xs q)"

lemma seg_append: "seg h p (xs @ ys) q \<longleftrightarrow> (\<exists>m. seg h p xs m \<and> seg h m ys q)"
  by (induction xs arbitrary: p) auto

lemma seg_upd: "a \<notin> fst ` set xs \<Longrightarrow> seg (h(a := v)) p xs q = seg h p xs q"
  by (induction xs arbitrary: p) auto

lemma seg_addr: "seg h p xs q \<Longrightarrow> x \<in> set xs \<Longrightarrow> fst x \<noteq> 0 \<and> h (fst x) \<noteq> None"
  by (induction xs arbitrary: p) auto

lemma seg_start: "seg h p xs 0 \<Longrightarrow> p = (if xs = [] then 0 else fst (hd xs))"
  by (cases xs) auto

lemma seg_nth:
  "seg h p xs 0 \<Longrightarrow> k < length xs \<Longrightarrow>
     h (fst (xs ! k)) =
       Some \<lparr>li_data = snd (xs ! k), li_next = (if Suc k < length xs then fst (xs ! Suc k) else 0)\<rparr>"
proof (induction xs arbitrary: p k)
  case Nil
  then show ?case by simp
next
  case (Cons x xs)
  then obtain n where n: "h p = Some \<lparr>li_data = snd x, li_next = n\<rparr>" "seg h n xs 0" "p = fst x" by auto
  show ?case
  proof (cases k)
    case 0
    then show ?thesis using n seg_start[OF n(2)] by (cases xs) auto
  next
    case (Suc j)
    then show ?thesis using Cons.IH[OF n(2), of j] Cons.prems(2) by simp
  qed
qed

definition last_addr :: "(nat \<times> nat) list \<Rightarrow> nat" where
  "last_addr xs = (if xs = [] then 0 else fst (List.last xs))"

definition rep :: "ll_state \<Rightarrow> (nat \<times> nat) list \<Rightarrow> bool" where
  "rep s xs \<longleftrightarrow> seg (snd s) (ll_head (fst s)) xs 0 \<and> distinct (map fst xs) \<and> ll_end (fst s) = last_addr xs \<and>
     finite (dom (snd s))"

definition cursor :: "nat \<Rightarrow> (nat \<times> nat) list \<Rightarrow> nat option \<Rightarrow> bool" where
  "cursor p xs c \<longleftrightarrow> (case c of None \<Rightarrow> p = 0 | Some k \<Rightarrow> k < length xs \<and> p = fst (xs ! k))"

definition ll_rel :: "ll_state \<Rightarrow> queue \<Rightarrow> bool" where
  "ll_rel s q \<longleftrightarrow> (\<exists>xs. rep s xs \<and> fst q = map snd xs \<and> cursor (ll_current (fst s)) xs (snd q))"

lemma ll_relI: "rep s xs \<Longrightarrow> cursor (ll_current (fst s)) xs c \<Longrightarrow> ll_rel s (map snd xs, c)"
  by (auto simp: ll_rel_def)

text \<open>Linking a new node after the last one.\<close>

lemma seg_snoc:
  assumes "seg h p xs 0" "distinct (map fst xs)" "xs \<noteq> []" "i \<notin> fst ` set xs" "i \<noteq> 0"
  shows "\<exists>e. h (last_addr xs) = Some e \<and>
    seg (h(i \<mapsto> \<lparr>li_data = d, li_next = 0\<rparr>, last_addr xs \<mapsto> e\<lparr>li_next := i\<rparr>)) p (xs @ [(i, d)]) 0"
proof -
  obtain ys y where xs: "xs = ys @ [y]" using assms(3) by (metis append_butlast_last_id)
  have y: "last_addr xs = fst y" by (simp add: last_addr_def xs)
  obtain m where m: "seg h p ys m" "m = fst y" "m \<noteq> 0" "h m = Some \<lparr>li_data = snd y, li_next = 0\<rparr>"
    using assms(1) unfolding xs seg_append by auto
  let ?h = "h(i \<mapsto> \<lparr>li_data = d, li_next = 0\<rparr>, fst y \<mapsto> \<lparr>li_data = snd y, li_next = i\<rparr>)"
  have "seg ?h p ys m"
    using m(1) assms(2,4) unfolding xs by (simp add: seg_upd)
  moreover have "seg ?h m [y, (i, d)] 0"
    using m assms(4,5) unfolding xs by auto
  ultimately have "seg ?h p (ys @ [y, (i, d)]) 0" unfolding seg_append by blast
  then show ?thesis using m y by (simp add: xs)
qed

lemma push_rel:
  assumes "ll_rel s (ds, c)" and "i = 0 \<or> snd s i = None"
  shows "\<exists>s'. ll_push i d s = Some (i, s') \<and> ll_rel s' (if i \<noteq> 0 then ds @ [d] else ds, c)"
proof (cases "i = 0")
  case True
  then show ?thesis using assms(1) by (cases s) (simp add: ll_push_def)
next
  case False
  obtain l h where s: "s = (l, h)" by (cases s)
  obtain xs where xs: "seg h (ll_head l) xs 0" "distinct (map fst xs)" "ll_end l = last_addr xs" "finite (dom h)"
      "ds = map snd xs" "cursor (ll_current l) xs c"
    using assms(1) by (auto simp: ll_rel_def rep_def s)
  have i: "i \<notin> fst ` set xs" using seg_addr[OF xs(1)] assms(2) False by (force simp: s)
  have cur: "cursor (ll_current l) (xs @ [(i, d)]) c"
    using xs(6) by (auto simp: cursor_def nth_append split: option.splits)
  show ?thesis
  proof (cases "xs = []")
    case True
    then have "rep (l\<lparr>ll_head := i, ll_end := i\<rparr>, h(i \<mapsto> \<lparr>li_data = d, li_next = 0\<rparr>)) [(i, d)]"
      using False xs(4) by (simp add: rep_def last_addr_def)
    from ll_relI[OF this, of c] show ?thesis
      using True xs(3-5) cur False by (simp add: ll_push_def s last_addr_def)
  next
    case ne: False
    obtain e where e: "h (last_addr xs) = Some e"
        "seg (h(i \<mapsto> \<lparr>li_data = d, li_next = 0\<rparr>, last_addr xs \<mapsto> e\<lparr>li_next := i\<rparr>)) (ll_head l) (xs @ [(i, d)]) 0"
      using seg_snoc[OF xs(1,2) ne i False, of d] by blast
    have la: "last_addr xs \<noteq> 0" "last_addr xs \<noteq> i"
      using seg_addr[OF xs(1)] ne i by (auto simp: last_addr_def)
    have "rep (l\<lparr>ll_end := i\<rparr>, h(i \<mapsto> \<lparr>li_data = d, li_next = 0\<rparr>, last_addr xs \<mapsto> e\<lparr>li_next := i\<rparr>)) (xs @ [(i, d)])"
      using e(2) xs(2,4) i by (simp add: rep_def last_addr_def)
    from ll_relI[OF this, of c] show ?thesis
      using e(1) la xs(3-5) cur False by (simp add: ll_push_def s Let_def)
  qed
qed

lemma reset_rel: "ll_rel s (ds, c) \<Longrightarrow> ll_rel (ll_reset s) (ds, None)"
  by (cases s) (auto simp: ll_rel_def rep_def ll_reset_def cursor_def)

lemma next_rel:
  assumes "ll_rel s (ds, c)"
  shows "\<exists>d c' s'. spec_step Next (ds, c) = Some (Data d, ds, c') \<and> ll_next s = Some (d, s') \<and> ll_rel s' (ds, c')"
proof -
  obtain l h where s: "s = (l, h)" by (cases s)
  obtain xs where xs: "seg h (ll_head l) xs 0" "distinct (map fst xs)" "ll_end l = last_addr xs" "finite (dom h)"
      "ds = map snd xs" "cursor (ll_current l) xs c"
    using assms by (auto simp: ll_rel_def rep_def s)
  let ?k = "case c of None \<Rightarrow> 0 | Some i \<Rightarrow> i + 1"
  let ?a = "if ?k < length xs then fst (xs ! ?k) else 0"
  have a: "(if ll_current l = 0 then Some (ll_head l) else map_option li_next (h (ll_current l))) = Some ?a"
  proof (cases c)
    case None
    then show ?thesis using xs(6) seg_start[OF xs(1)] by (simp add: cursor_def hd_conv_nth)
  next
    case (Some i)
    then have i: "i < length xs" "ll_current l = fst (xs ! i)" using xs(6) by (simp_all add: cursor_def)
    then have "ll_current l \<noteq> 0" using seg_addr[OF xs(1), of "xs ! i"] by simp
    then show ?thesis using seg_nth[OF xs(1) i(1)] i Some by simp
  qed
  have r: "rep (l\<lparr>ll_current := b\<rparr>, h) xs" for b using xs by (simp add: rep_def)
  show ?thesis
  proof (cases "?k < length xs")
    case True
    have "?a \<noteq> 0" using seg_addr[OF xs(1), of "xs ! ?k"] True by simp
    then have "ll_next s = Some (snd (xs ! ?k), l\<lparr>ll_current := ?a\<rparr>, h)"
      unfolding ll_next_def s prod.case Let_def a using seg_nth[OF xs(1) True] True by simp
    moreover have "spec_step Next (ds, c) = Some (Data (snd (xs ! ?k)), ds, Some ?k)"
      using True by (simp add: xs(5) Let_def)
    moreover have "ll_rel (l\<lparr>ll_current := ?a\<rparr>, h) (ds, Some ?k)"
      unfolding xs(5) by (rule ll_relI[OF r]) (simp add: cursor_def True)
    ultimately show ?thesis by blast
  next
    case False
    then have "ll_next s = Some (0, l\<lparr>ll_current := 0\<rparr>, h)"
      unfolding ll_next_def s prod.case Let_def a by simp
    moreover have "spec_step Next (ds, c) = Some (Data 0, ds, None)"
      using False by (simp add: xs(5) Let_def)
    moreover have "ll_rel (l\<lparr>ll_current := 0\<rparr>, h) (ds, None)"
      unfolding xs(5) by (rule ll_relI[OF r]) (simp add: cursor_def)
    ultimately show ?thesis by blast
  qed
qed

lemma pop_rel:
  assumes "ll_rel s (ds, c)" and "2 \<le> length ds" and "c \<noteq> Some 0"
  shows "\<exists>s'. ll_pop s = Some (hd ds, s') \<and> ll_rel s' (tl ds, map_option (\<lambda>k. k - 1) c)"
proof -
  obtain l h where s: "s = (l, h)" by (cases s)
  obtain xs where xs: "seg h (ll_head l) xs 0" "distinct (map fst xs)" "ll_end l = last_addr xs" "finite (dom h)"
      "ds = map snd xs" "cursor (ll_current l) xs c"
    using assms by (auto simp: ll_rel_def rep_def s)
  obtain x ys where ys: "xs = x # ys" "ys \<noteq> []"
    using assms(2) xs(5) by (cases xs) (auto simp: Suc_le_eq)
  obtain n where n: "h (ll_head l) = Some \<lparr>li_data = snd x, li_next = n\<rparr>" "seg h n ys 0"
      "ll_head l = fst x" "ll_head l \<noteq> 0"
    using xs(1) ys(1) by auto
  have "seg (h(ll_head l := None)) n ys 0"
    using xs(2) n by (simp add: seg_upd ys(1))
  then have "rep (l\<lparr>ll_head := n\<rparr>, h(ll_head l := None)) ys"
    using xs(2,3,4) ys by (simp add: rep_def last_addr_def)
  moreover have "cursor (ll_current l) ys (map_option (\<lambda>k. k - 1) c)"
    using xs(6) assms(3) by (auto simp: cursor_def ys(1) nth_Cons split: option.splits nat.splits)
  ultimately have "ll_rel (l\<lparr>ll_head := n\<rparr>, h(ll_head l := None)) (map snd ys, map_option (\<lambda>k. k - 1) c)"
    by (intro ll_relI) auto
  then show ?thesis
    using n by (simp add: ll_pop_def s Let_def xs(5) ys(1))
qed

lemma pop_empty: "ll_rel s ([], c) \<Longrightarrow> ll_pop s = Some (0, s)"
  by (auto simp: ll_rel_def rep_def ll_pop_def split: prod.split)

text \<open>Reading loops.\<close>

lemma iterate_seg: "seg h p xs 0 \<Longrightarrow> iterate_loop f p h = Some (visits f (map snd xs))"
  by (induction xs arbitrary: p) (auto simp: iterate_loop.simps)

lemma size_seg: "seg h p xs 0 \<Longrightarrow> size_loop n p h = Some (n + length (filter (\<lambda>d. d \<noteq> 0) (map snd xs)))"
proof (induction xs arbitrary: p n)
  case Nil
  then show ?case by (simp add: size_loop.simps)
next
  case (Cons x xs)
  then show ?case by (subst size_loop.simps) auto
qed

lemma contains_seg: "seg h p xs 0 \<Longrightarrow> contains_loop d p h = Some (d \<in> snd ` set xs)"
  by (induction xs arbitrary: p) (auto simp: contains_loop.simps)

text \<open>\<open>ll_done\<close> frees every node and nothing else.\<close>

lemma done_seg:
  "seg h p xs 0 \<Longrightarrow> distinct (map fst xs) \<Longrightarrow> ll_done p h = Some (\<lambda>a. if a \<in> fst ` set xs then None else h a)"
proof (induction xs arbitrary: p h)
  case Nil
  then show ?case by (simp add: ll_done.simps)
next
  case (Cons x xs)
  then obtain n where n: "h p = Some \<lparr>li_data = snd x, li_next = n\<rparr>" "seg h n xs 0" "p = fst x" "p \<noteq> 0" by auto
  then have "seg (h(p := None)) n xs 0" using Cons.prems(2) by (simp add: seg_upd)
  then have "ll_done n (h(p := None)) = Some (\<lambda>a. if a \<in> fst ` set xs then None else (h(p := None)) a)"
    by (rule Cons.IH) (use Cons.prems(2) in simp)
  moreover have "(\<lambda>a. if a \<in> fst ` set xs then None else (h(p := None)) a) =
      (\<lambda>a. if a \<in> fst ` set (x # xs) then None else h a)"
    using n by (auto simp: fun_eq_iff)
  ultimately show ?case
    using n by (subst ll_done.simps) simp
qed

lemma last_addr_Nil: "last_addr [] = 0"
  by (simp add: last_addr_def)

lemma last_addr_snoc [simp]: "last_addr (xs @ [y]) = fst y"
  by (simp add: last_addr_def)

lemma unlink_rep:
  assumes "rep (l, h) (pre @ x # suf)" and "h (fst x) = Some \<lparr>li_data = snd x, li_next = nxt\<rparr>"
  shows "\<exists>s'. unlink (fst x) (last_addr pre) nxt (l, h) = Some s' \<and> rep s' (pre @ suf) \<and> ll_current (fst s') = 0"
proof -
  have d: "distinct (map fst (pre @ x # suf))" and e: "ll_end l = last_addr (pre @ x # suf)"
    and sg: "seg h (ll_head l) (pre @ x # suf) 0" and fin: "finite (dom h)"
    using assms(1) by (simp_all add: rep_def)
  obtain m where m: "seg h (ll_head l) pre m" "m = fst x" "m \<noteq> 0" "seg h nxt suf 0"
    using sg assms(2) unfolding seg_append by auto
  have nxt: "seg (h(fst x := None)) nxt suf 0"
    using m(4) d by (simp add: seg_upd)
  have la: "suf \<noteq> [] \<Longrightarrow> fst (List.last suf) \<noteq> fst x"
    using d by (metis (no_types, lifting) distinct.simps(2) distinct_append last_in_set list.set_map list.simps(9) map_append rev_image_eqI)
  show ?thesis
  proof (cases pre rule: rev_cases)
    case Nil
    then have "ll_head l = fst x" using m by simp
    then show ?thesis
      using Nil e nxt d la fin by (cases "suf = []") (auto simp: unlink_def Let_def rep_def last_addr_def)
  next
    case (snoc ps y)
    have y: "h (fst y) = Some \<lparr>li_data = snd y, li_next = fst x\<rparr>" "fst y \<noteq> 0" "seg h (ll_head l) ps (fst y)"
      using m(1,2) unfolding snoc seg_append by auto
    have hd: "ll_head l \<noteq> fst x"
      using sg d seg_start[OF sg] unfolding snoc by (cases ps) auto
    let ?h = "h(fst y \<mapsto> \<lparr>li_data = snd y, li_next = nxt\<rparr>, fst x := None)"
    have "seg ?h (ll_head l) ps (fst y)" "seg ?h nxt suf 0"
      using y(3) m(4) d by (simp_all add: seg_upd snoc)
    then have "seg ?h (ll_head l) (pre @ suf) 0"
      unfolding snoc using d y(2) by (simp add: seg_append snoc)
    then show ?thesis
      using hd y d e la fin by (cases "suf = []") (auto simp: unlink_def Let_def rep_def snoc last_addr_def)
  qed
qed

lemma delete_loop_rep:
  assumes "rep (l, h) (pre @ suf)" and "seg h i suf 0"
  shows "\<exists>s'. delete_loop d i (last_addr pre) (l, h) = Some s' \<and>
    (if d \<in> snd ` set suf
     then ll_current (fst s') = 0 \<and> (\<exists>ys. rep s' (pre @ ys) \<and> map snd ys = remove1 d (map snd suf))
     else s' = (l, h))"
  using assms
proof (induction suf arbitrary: pre i)
  case Nil
  then show ?case by (simp add: delete_loop.simps)
next
  case (Cons x suf)
  then obtain n where n: "h i = Some \<lparr>li_data = snd x, li_next = n\<rparr>" "seg h n suf 0" "i = fst x" "i \<noteq> 0" by auto
  show ?case
  proof (cases "snd x = d")
    case True
    obtain s' where "unlink i (last_addr pre) n (l, h) = Some s'" "rep s' (pre @ suf)" "ll_current (fst s') = 0"
      using unlink_rep[OF Cons.prems(1)] n by auto
    moreover have "map snd suf = remove1 d (map snd (x # suf))" using True by simp
    ultimately show ?thesis using True n by (subst delete_loop.simps) auto
  next
    case False
    have step: "delete_loop d i (last_addr pre) (l, h) = delete_loop d n (last_addr (pre @ [x])) (l, h)"
      using False n by (subst delete_loop.simps) simp
    obtain s' where s': "delete_loop d n (last_addr (pre @ [x])) (l, h) = Some s'"
        "if d \<in> snd ` set suf
         then ll_current (fst s') = 0 \<and> (\<exists>ys. rep s' ((pre @ [x]) @ ys) \<and> map snd ys = remove1 d (map snd suf))
         else s' = (l, h)"
      using Cons.IH[of "pre @ [x]" n] Cons.prems(1) n(2) by auto
    show ?thesis
    proof (cases "d \<in> snd ` set suf")
      case True
      with s' obtain ys where "rep s' (pre @ x # ys)" "map snd ys = remove1 d (map snd suf)" "ll_current (fst s') = 0"
        by auto
      then show ?thesis
        using step s'(1) True False by (intro exI[of _ s'] conjI) (auto intro!: exI[of _ "x # ys"])
    next
      case notin: False
      with s' step False show ?thesis by auto
    qed
  qed
qed

lemma delete_rel:
  assumes "ll_rel s (ds, c)"
  shows "\<exists>s'. ll_delete d s = Some s' \<and> ll_rel s' (if d \<in> set ds then (remove1 d ds, None) else (ds, c))"
proof -
  obtain l h where s: "s = (l, h)" by (cases s)
  obtain xs where xs: "rep s xs" "ds = map snd xs" "cursor (ll_current l) xs c"
    using assms by (auto simp: ll_rel_def s)
  then have "seg h (ll_head l) xs 0" by (simp add: rep_def s)
  then have "\<exists>s'. ll_delete d s = Some s' \<and>
      (if d \<in> snd ` set xs
       then ll_current (fst s') = 0 \<and> (\<exists>ys. rep s' ys \<and> map snd ys = remove1 d (map snd xs)) else s' = (l, h))"
    using delete_loop_rep[of l h "[]" xs "ll_head l" d] xs(1)
    unfolding ll_delete_def s fst_conv append_Nil last_addr_Nil by blast
  then obtain s' where
    s': "ll_delete d s = Some s'" "if d \<in> snd ` set xs
       then ll_current (fst s') = 0 \<and> (\<exists>ys. rep s' ys \<and> map snd ys = remove1 d (map snd xs)) else s' = (l, h)"
    by blast
  show ?thesis
  proof (cases "d \<in> set ds")
    case True
    then have "d \<in> snd ` set xs" by (simp add: xs(2))
    with s'(2) obtain ys where "ll_current (fst s') = 0" "rep s' ys" "map snd ys = remove1 d ds"
      by (auto simp: xs(2))
    then have "ll_rel s' (remove1 d ds, None)" by (auto simp: ll_rel_def cursor_def)
    then show ?thesis using s'(1) True by auto
  next
    case False
    then have "d \<notin> snd ` set xs" by (simp add: xs(2))
    then have "s' = s" using s'(2) by (simp add: s)
    then show ?thesis using s'(1) False assms by auto
  qed
qed

subsection \<open>Refinement\<close>

text \<open>Simulation of a specification step by step, and of whole runs.\<close>

locale simulation =
  fixes step :: "'o \<Rightarrow> 's \<Rightarrow> ('r \<times> 's) option" and spec :: "'o \<Rightarrow> 'q \<Rightarrow> ('r \<times> 'q) option"
    and rel :: "'s \<Rightarrow> 'q \<Rightarrow> bool"
  assumes step_sim: "rel s q \<Longrightarrow> spec op q = Some (r, q') \<Longrightarrow> \<exists>s'. step op s = Some (r, s') \<and> rel s' q'"
begin

lemma run_sim:
  "rel s q \<Longrightarrow> run_ops spec ops q = Some (rs, q') \<Longrightarrow> \<exists>s'. run_ops step ops s = Some (rs, s') \<and> rel s' q'"
proof (induction ops arbitrary: s q rs)
  case Nil
  then show ?case by simp
next
  case (Cons op ops)
  then obtain r q1 rs1 where "spec op q = Some (r, q1)" "run_ops spec ops q1 = Some (rs1, q')" "rs = r # rs1"
    by (auto split: Option.bind_splits)
  moreover from this Cons.prems(1) obtain s1 where "step op s = Some (r, s1)" "rel s1 q1" using step_sim by blast
  ultimately show ?case using Cons.IH by fastforce
qed

end

lemma ll_step_sim:
  assumes "\<forall>h. finite (dom h) \<longrightarrow> calloc h \<noteq> 0 \<and> h (calloc h) = None"
    and "ll_rel s q" "spec_step op q = Some (r, q')"
  shows "\<exists>s'. ll_step calloc op s = Some (r, s') \<and> ll_rel s' q'"
proof -
  obtain ds c where q: "q = (ds, c)" by (cases q)
  note R = assms(2)[unfolded q]
  obtain xs where sg: "seg (snd s) (ll_head (fst s)) xs 0" and ds: "ds = map snd xs"
      and fin: "finite (dom (snd s))"
    using R by (auto simp: ll_rel_def rep_def)
  show ?thesis
  proof (cases op)
    case (Push ok d)
    then show ?thesis
      using push_rel[OF R, of "if ok then calloc (snd s) else 0" d] assms fin by (cases ok) (auto simp: q)
  next
    case Pop
    show ?thesis
    proof (cases "ds = []")
      case True
      then have "ll_pop s = Some (0, s)" using pop_empty R by blast
      with True Pop assms(2,3) show ?thesis by (auto simp: q)
    next
      case False
      then have "2 \<le> length ds" "c \<noteq> Some 0" "r = Data (hd ds)" "q' = (tl ds, map_option (\<lambda>k. k - 1) c)"
        using assms(3) Pop by (auto simp: q split: if_splits)
      with pop_rel[OF R] show ?thesis unfolding Pop by auto
    qed
  next
    case Next
    then show ?thesis using next_rel[OF R] assms(3) by (auto simp: q)
  next
    case Reset
    then show ?thesis using reset_rel[OF R] assms(3) by (auto simp: q)
  next
    case (Delete d)
    then show ?thesis using delete_rel[OF R, of d] assms(3) by (auto simp: q)
  next
    case (Iterate f)
    then show ?thesis using iterate_seg[OF sg, of f] assms(2,3) by (auto simp: q ll_iterate_def ds)
  next
    case Size
    then show ?thesis using size_seg[OF sg, of 0] assms(2,3) by (auto simp: q ll_size_def ds)
  next
    case (Contains d)
    then show ?thesis using contains_seg[OF sg, of d] assms(2,3) by (auto simp: q ll_contains_def ds)
  qed
qed

text \<open>The allocator of the interpretation: the address after the last live one.\<close>

definition calloc_next :: "li_heap \<Rightarrow> nat" where
  "calloc_next h = Suc (Max (insert 0 (dom h)))"

lemma calloc_next: "finite (dom h) \<longrightarrow> calloc_next h \<noteq> 0 \<and> h (calloc_next h) = None"
proof
  assume fin: "finite (dom h)"
  have "calloc_next h \<notin> dom h"
  proof
    assume "calloc_next h \<in> dom h"
    then have "calloc_next h \<le> Max (insert 0 (dom h))" using fin by (intro Max_ge) auto
    then show False by (simp add: calloc_next_def)
  qed
  then show "calloc_next h \<noteq> 0 \<and> h (calloc_next h) = None" by (auto simp: calloc_next_def)
qed

interpretation ll: simulation "ll_step calloc_next" spec_step ll_rel
  by unfold_locales (rule ll_step_sim, simp add: calloc_next, assumption+)

lemma ll_init_rel: "finite (dom h) \<Longrightarrow> ll_rel (ll_init, h) ([], None)"
  by (auto simp: ll_rel_def rep_def ll_init_def cursor_def last_addr_def)

text \<open>
  C26: the linked list refines a queue, except that \<open>ll_pop\<close> must not take the only element nor the one
  under the cursor. From a new list, on any heap and with any allocator that returns fresh addresses,
  every sequence of operations without such a pop runs without touching a freed node or looping, and
  answers what the queue answers; \<open>ll_done\<close> then ends. The excluded pops leave a pointer to the freed node,
  see \<open>ll_pop_last_dangles\<close>.
\<close>

theorem ll_refines_queue:
  assumes "\<forall>h. finite (dom h) \<longrightarrow> calloc h \<noteq> 0 \<and> h (calloc h) = None" and "finite (dom h)"
    and "run_ops spec_step ops ([], None) = Some (rs, q)"
  shows "\<exists>l h1 h2. run_ops (ll_step calloc) ops (ll_init, h) = Some (rs, (l, h1)) \<and>
    ll_rel (l, h1) q \<and> ll_done (ll_head l) h1 = Some h2"
proof -
  have sim: "simulation (ll_step calloc) spec_step ll_rel"
    by unfold_locales (rule ll_step_sim[OF assms(1)])
  obtain s where s: "run_ops (ll_step calloc) ops (ll_init, h) = Some (rs, s)" "ll_rel s q"
    using simulation.run_sim[OF sim ll_init_rel[OF assms(2)] assms(3)] by blast
  obtain xs where "seg (snd s) (ll_head (fst s)) xs 0" "distinct (map fst xs)"
    using s(2) by (auto simp: ll_rel_def rep_def)
  from done_seg[OF this] s show ?thesis by (cases s) auto
qed

lemma ll_refines_queue_witness:
  "\<exists>l h1 h2. run_ops (ll_step calloc_next)
      [Pop, Push True 7, Push True 8, Push True 9, Push True 6, Delete 7, Next, Next, Pop, Next, Next, Size] (ll_init, Map.empty) =
      Some ([Data 0, Answer True, Answer True, Answer True, Answer True, Nothing, Data 8, Data 9, Data 8, Data 6, Data 0, Count 2],
        (l, h1)) \<and>
    ll_rel (l, h1) ([9, 6], None) \<and> ll_done (ll_head l) h1 = Some h2"
  by (rule ll_refines_queue) (simp_all add: calloc_next)

text \<open>
  Popping the last element leaves \<open>end\<close> on the freed node. The next push writes to it, which is
  undefined, or, if \<open>calloc\<close> returns the same address again, links the node to itself and loses it.
\<close>

lemma ll_pop_last_dangles:
  assumes "calloc h \<noteq> 0" "calloc (h(calloc h := None)) \<noteq> 0"
    and "run_ops (ll_step calloc) [Push True d, Pop, Push True e, Size] (ll_init, h) = Some (rs, s)"
  shows "rs = [Answer True, Data d, Answer True, Count 0]"
  using assms
  by (auto simp: ll_init_def ll_push_def ll_pop_def ll_size_def Let_def size_loop.simps split: Option.bind_splits)

end
