(* ===== verification/Spec2Isabelle.thy ===== *)
theory Spec2Isabelle
  imports State AclInv Mss Free L2tpInv SetupInv Rle Nsctl BgpTable BgpInv TbfProps Ipmap ControlLink Pool ClusterTx Md5
    Radius SessionEnd ClusterRepl Ll
begin

text \<open>
  A model of l2tpns, an L2TP network server written in C: a single-threaded daemon that ends L2TP
  tunnels and PPP sessions, gives them addresses, authenticates them with RADIUS, shapes and filters
  their traffic, announces their routes by BGP and replicates its tables to a cluster of slaves.

  \<^bold>\<open>How the program is put together.\<close> Everything is driven by the event loop of \<^verbatim>\<open>src/l2tpns.c\<close>: a
  packet on the UDP socket goes to \<open>processudp\<close>, which checks the sequence numbers of the control
  connection, runs the messages of L2TP and hands PPP frames to \<^verbatim>\<open>src/ppp.c\<close>; \<open>sessionsetup\<close> and
  \<open>sessionshutdown\<close> allocate addresses (the pool), install routes (\<open>routeset\<close>: kernel, BGP, address
  maps) and tell the cluster; timers resend control messages, drain the token buckets and send
  heartbeats. All tables are global arrays indexed by tunnel, session, bundle, RADIUS or pool number.

  \<^bold>\<open>How it is modelled.\<close> A struct is a record with the code's fields, an integer keeps its width as
  a word where it can wrap, a table is a function from its index, and a function of the code is a
  HOL function that takes the state and returns it updated. Operations on one tunnel, bucket or peer
  work on that part alone and are lifted to the record \<open>l2tpns\<close> of the theory \<open>World\<close>, which holds
  all global variables the modelled operations share; what leaves the process (datagrams, kernel
  routes, heartbeats) is appended to its list of events. System calls that may fail (\<open>malloc\<close>,
  \<open>write\<close>, the clock) are arguments. Where the C code reads or writes outside its objects an operation
  ends in \<open>Undef\<close>; the queue of cluster changes, which nearly every operation fills, records the event
  \<open>UndefinedWrite\<close> instead.

  \<^bold>\<open>Theories.\<close>
  \<^item> \<open>Prelude\<close>: bytes, big-endian numbers, lists; \<open>State\<close>: \<open>sessiont\<close>, \<open>sessionlocalt\<close> and their parts
    (\<^verbatim>\<open>src/l2tpns.h\<close>), \<open>World\<close>: the remaining structures, the global state, \<open>routeset\<close>, \<open>route6set\<close> and the
    lookups of a session by address.
  \<^item> \<open>Bgp\<close>, \<open>BgpUpdate\<close>, \<open>BgpProcess\<close>, \<open>BgpTable\<close>, \<open>BgpInv\<close> (\<^verbatim>\<open>src/bgp.c\<close>): the peer state machine, the table of
    routes, the computation of UPDATE messages, reading and writing, the event loop. Shown: the table
    is decided by the last call per route; an UPDATE fits its buffer and decodes to exactly the change
    that the speaker records; repeated rounds converge; in every reachable state, while steps return and
    allocations succeed, the IPv4 routes announced to an established peer with no update pending, the last
    \<open>UPDATE\<close> possibly still in its buffer, are the registered ones; the input loop returns on whole
    messages and spins for ever on a partial one; sending the rest of a packet is undefined.
  \<^item> \<open>Rle\<close> (\<open>rle_compress\<close>, \<open>rle_decompress\<close> of \<^verbatim>\<open>src/cluster.c\<close>) and \<open>Nsctl\<close> (\<^verbatim>\<open>src/control.c\<close>): round trips, with
    the arguments that \<open>pack_control\<close> corrupts.
  \<^item> \<open>Tbf\<close>, \<open>TbfProps\<close> (\<^verbatim>\<open>src/tbf.c\<close>): token buckets, their packet queues and the timer ring; invariant, FIFO
    order, the rate bound over packets and runs of the timer, and that the timer visits every queued bucket.
  \<^item> \<open>Ipmap\<close> (the two address maps of \<^verbatim>\<open>src/l2tpns.c\<close>): lookups equal an abstract map.
  \<^item> \<open>Control\<close>, \<open>ControlLink\<close> (tunnels of \<^verbatim>\<open>src/l2tpns.c\<close>): building, sending, acknowledging and resending
    control messages; two ends over a network that loses, repeats and reorders packets deliver the
    queued messages in order and once each, and stay within the window.
  \<^item> \<open>Pool\<close> (\<open>assign_ip_address\<close>, \<open>free_ip_address\<close>, \<open>rebuild_address_pool\<close>, \<open>add_to_ip_pool\<close>): while a
    master runs no address is given to two sessions; which entry is chosen; the rebuild after a failover,
    which forgets the owners.
  \<^item> \<open>ClusterTx\<close> (sending side of \<^verbatim>\<open>src/cluster.c\<close>): the queue of changes, heartbeats, the walk through the
    tables, catching up a slave. Shown: the next heartbeat carries every change, unless there are more than
    the array holds, where the code writes past it.
  \<^item> \<open>Md5\<close> (\<^verbatim>\<open>src/md5.c\<close>): the streaming code computes the digest of RFC 1321.

  \<^item> \<open>IpFilter\<close> (\<open>ip_filter\<close>), \<open>Acl\<close>, \<open>AclText\<close>, \<open>AclInv\<close> (access lists of \<^verbatim>\<open>src/cli.c\<close>): the first rule that
    matches decides; lists stay sound while command line sessions run one command at a time, and filtering stays in
    bounds when commands, which the code does not lock, overlap; a printed rule parses to itself; standard
    lists drop everything.
  \<^item> \<open>Radius\<close> (\<^verbatim>\<open>src/radius.c\<close>): the requests as bytes, well formed and within their buffer; passwords and
    tunnel passwords as RFC 2865 and RFC 2868 mask them.
  \<^item> \<open>Session\<close>, \<open>SessionInv\<close>, \<open>SessionEnd\<close> (\<open>radiusnew\<close>, \<open>radiussend\<close>, \<open>sessionshutdown\<close>, \<open>sessionkill\<close>,
    \<open>tunnelshutdown\<close>, \<open>tunnelkill\<close>): killing a tunnel returns exactly its sessions to the list of free
    ones; after a shutdown no address leads to the session, for the sessions that the claim describes; no
    accounting stop is ever sent.
  \<^item> \<open>ClusterRx\<close>, \<open>ClusterProps\<close>, \<open>ClusterRepl\<close> (receiving side of \<^verbatim>\<open>src/cluster.c\<close>): packets and records of a
    heartbeat, forwarded counters, watching the master and taking over. Shown: exactly one of the slaves
    that know each other becomes master; of two masters one gives up; a heartbeat makes the slave's
    tables those of the master; forwarded byte counts add up on both machines together.
  \<^item> \<open>Ll\<close> (\<^verbatim>\<open>src/ll.c\<close>): the linked lists on an explicit heap refine plain sequences, but for \<open>ll_pop\<close> of the
    only element or of the one under the cursor, which leaves a pointer to a freed cell.

  \<^item> \<open>Mss\<close> (\<open>adjust_tcp_mss\<close>), \<open>Free\<close> (\<^verbatim>\<open>src/freetraffic.c\<close>), \<open>Icmp\<close> (\<^verbatim>\<open>src/icmp.c\<close>, \<^verbatim>\<open>src/ipv6_u.c\<close>): the TCP checksum
    stays right; which traffic is counted as free; the checksum of a router advertisement verifies.
  \<^item> \<open>Frames\<close>, \<open>Ppp\<close>, \<open>PppRx\<close>, \<open>PppInv\<close> (\<^verbatim>\<open>src/ppp.c\<close>, \<^verbatim>\<open>src/pppoe.c\<close>): headers of outgoing frames; LCP, IPCP, IPV6CP and
    CCP. Shown: the packets of IPCP and IPV6CP drive an abstract automaton, but for bad requests that are
    dropped or end the session, and which requests are never dropped.
  \<^item> \<open>PppAuth\<close>, \<open>Data\<close>, \<open>Mp\<close> (\<^verbatim>\<open>src/ppp.c\<close>, \<^verbatim>\<open>src/l2tpns.c\<close>): PAP and CHAP, multilink bundles; packets between sessions
    and the tun device with filters, shaping and interception; cutting packets for a bundle, which loses
    nothing, and putting fragments together.
  \<^item> \<open>Avp\<close>, \<open>L2tp\<close>, \<open>L2tpInv\<close> (\<open>processudp\<close>, \<open>processtun\<close>, \<open>process_pppoe_sess\<close>): the AVPs of control messages, the
    messages and the frames that a packet carries. Shown: \<open>processudp\<close> processes control messages with whole AVPs to
    the end, and the one case in which it never returns; a call takes one session and keeps the free ones sound; frames built read back; hidden values.
  \<^item> \<open>Lac\<close> (\<^verbatim>\<open>src/l2tplac.c\<close>): sessions handed on to other servers; \<open>Pppoe\<close> (\<^verbatim>\<open>src/pppoe.c\<close>): discovery, where only
    a client that holds the cookie for its address gets a session.

  \<^item> \<open>Setup\<close> (\<open>sessionsetup\<close>), \<open>RadiusRx\<close> (answers of RADIUS servers with their attributes, dynamic authorisation),
    \<open>Cleanup\<close> (\<open>regular_cleanups\<close>), \<open>MainLoop\<close> (what the event loop does with packets and at every turn),
    \<open>SetupInv\<close>: only a server with the secret changes anything, and only the session that its request fits;
    routes are read as they were written; no request is forgotten.

  \<^bold>\<open>Interfaces.\<close> A locale states what one part relies on in another: \<open>route_table\<close> (a table decided by the
  last call per key, interpreted on the IPv4 and the IPv6 routes of BGP), \<open>fifo\<close> (a bounded queue,
  interpreted on the ring buffer of a token bucket), \<open>address_map\<close> (interpreted on \<open>cache_ipmap\<close> and
  \<open>lookup_ipmap\<close>), \<open>untouched\<close> with its extensions (a part of the state that the steps of a shutdown leave
  alone, interpreted on the RADIUS requests and on the address map; \<open>untouched_routes\<close> asks it of the routes,
  \<open>untouched_maps\<close> of both), \<open>simulation\<close> (steps of a heap program that follow those of an abstract
  machine, interpreted on the lists of \<open>Ll\<close>),
  \<open>negotiation\<close> (the handler of one option of a request, interpreted on those of IPCP and IPV6CP).

  \<^bold>\<open>Bounds.\<close> Recursion over lists and arrays is structural or has a measure; the loops of the code that need
  not end, the input loop of BGP and the walks through linked cells, are \<open>partial_function (option)\<close>s,
  so that not returning is the value \<open>None\<close>. \<open>sessiont\<close> and the other tables have the constant sizes of the code; the sizes of the C
  structures, which depend on the compiler, are fields of \<open>abi\<close>.

  \<^bold>\<open>Not modelled.\<close> The command line interface (\<^verbatim>\<open>src/cli.c\<close>), configuration files, logging and statistics,
  which print and parse; start-up, sockets and netlink, which are system calls; the plugins, which are arguments
  of the operations that run them; the DHCPv6 server of \<^verbatim>\<open>src/dhcp6.c\<close>, to which packets are handed as events; the test
  tools and the generated RPC code under \<^verbatim>\<open>src/test\<close> and \<^verbatim>\<open>src/lnsbench\<close>. The manifest lists each part and its state.
\<close>

end
